(* ===== verification/Prelude.thy ===== *)
theory Prelude
  imports Main "HOL-Library.Word" "HOL-Library.Signed_Division"
begin

text \<open>
  What every component theory shares: the values a JavaScript operation can throw and the
  result type that carries them, the positional numerals behind every byte, hexadecimal and
  decimal encoding of the program, the parts of \<open>String\<close> and \<open>BigInt\<close> the sources call, and
  list lemmas. Lemmas that drive automation are collected in \<open>res_simps\<close> (results) and
  \<open>digit_simps\<close> (numerals).
\<close>

unbundle bit_operations_syntax

named_theorems res_simps "rewriting of results and of their sequencing"
named_theorems digit_simps "lengths, ranges and values of digit lists"

section \<open>Results\<close>

text \<open>
  A \<open>throw new Error(m)\<close> is \<open>Thrown m\<close>; the other constructors are the exceptions the
  language itself raises. \<open>UndefinedArg\<close> marks a call that hands \<open>undefined\<close> to code
  outside the repository.
\<close>

datatype js_error = Thrown string | TypeError | RangeError | SyntaxError | UndefinedArg

type_synonym 'a res = "js_error + 'a"

definition rbind :: "'a res \<Rightarrow> ('a \<Rightarrow> 'b res) \<Rightarrow> 'b res" where
  "rbind m f = (case m of Inl e \<Rightarrow> Inl e | Inr x \<Rightarrow> f x)"

lemma rbind_Inl [simp, res_simps]: "rbind (Inl e) f = Inl e"
  by (simp add: rbind_def)

lemma rbind_Inr [simp, res_simps]: "rbind (Inr x) f = f x"
  by (simp add: rbind_def)

lemma rbind_eq_Inr [res_simps]:
  "rbind m f = Inr y \<longleftrightarrow> (\<exists>x. m = Inr x \<and> f x = Inr y)"
  by (cases m) auto

lemma rbind_eq_Inl [res_simps]:
  "rbind m f = Inl e \<longleftrightarrow> m = Inl e \<or> (\<exists>x. m = Inr x \<and> f x = Inl e)"
  by (cases m) auto

lemma rbind_assoc: "rbind (rbind m f) g = rbind m (\<lambda>x. rbind (f x) g)"
  by (cases m) simp_all

lemma rbind_cong [fundef_cong]:
  "m = m' \<Longrightarrow> (\<And>x. m' = Inr x \<Longrightarrow> f x = g x) \<Longrightarrow> rbind m f = rbind m' g"
  by (cases m') auto

fun mapM :: "('a \<Rightarrow> 'b res) \<Rightarrow> 'a list \<Rightarrow> 'b list res" where
  "mapM f [] = Inr []"
| "mapM f (x # xs) = rbind (f x) (\<lambda>y. rbind (mapM f xs) (\<lambda>ys. Inr (y # ys)))"

lemma mapM_cong [fundef_cong]:
  "xs = ys \<Longrightarrow> (\<And>x. x \<in> set ys \<Longrightarrow> f x = g x) \<Longrightarrow> mapM f xs = mapM g ys"
  by (induction ys arbitrary: xs) auto

lemma mapM_Inr: "(\<And>x. x \<in> set xs \<Longrightarrow> f x = Inr (g x)) \<Longrightarrow> mapM f xs = Inr (map g xs)"
  by (induction xs) auto

text \<open>
  A loop whose body may throw. \<open>step_machine\<close> is the contract of such a body with an
  invariant; every run of it keeps the invariant.
\<close>

fun foldM :: "('s \<Rightarrow> 'e \<Rightarrow> 's res) \<Rightarrow> 's \<Rightarrow> 'e list \<Rightarrow> 's res" where
  "foldM f s [] = Inr s"
| "foldM f s (e # es) = rbind (f s e) (\<lambda>s'. foldM f s' es)"

lemma foldM_append: "foldM f s (xs @ ys) = rbind (foldM f s xs) (\<lambda>s'. foldM f s' ys)"
  by (induction xs arbitrary: s) (simp_all add: rbind_assoc)

locale step_machine =
  fixes step :: "'s \<Rightarrow> 'e \<Rightarrow> 's res"
    and inv :: "'s \<Rightarrow> bool"
  assumes step_inv: "inv s \<Longrightarrow> step s e = Inr t \<Longrightarrow> inv t"
begin

lemma run_inv: "inv s \<Longrightarrow> foldM step s es = Inr t \<Longrightarrow> inv t"
proof (induction es arbitrary: s)
  case (Cons e es)
  then obtain u where "step s e = Inr u" "foldM step u es = Inr t" by (auto simp: rbind_eq_Inr)
  then show ?case using Cons step_inv by blast
qed simp

lemma run_prefix_inv:
  "inv s \<Longrightarrow> foldM step s (es @ fs) = Inr t \<Longrightarrow> \<exists>u. foldM step s es = Inr u \<and> inv u"
  using run_inv by (auto simp: foldM_append rbind_eq_Inr)

end

text \<open>An array element: reading past the end gives \<open>undefined\<close>.\<close>

definition at :: "'a list \<Rightarrow> nat \<Rightarrow> 'a option" where
  "at xs i = (if i < length xs then Some (xs ! i) else None)"

lemma at_simps [simp]: "at [] i = None" "at (x # xs) 0 = Some x" "at (x # xs) (Suc i) = at xs i"
  by (simp_all add: at_def)

lemma at_eq_Some [simp]: "at xs i = Some x \<longleftrightarrow> i < length xs \<and> xs ! i = x"
  by (auto simp: at_def)

section \<open>Remainders\<close>

text \<open>
  \<open>%\<close> on \<open>BigInt\<close> truncates towards zero (\<open>smod\<close>). The idiom \<open>((n % m) + m) % m\<close>
  is the mathematical residue.
\<close>

definition js_norm :: "int \<Rightarrow> int \<Rightarrow> int" where
  "js_norm m n = ((n smod m) + m) smod m"

lemma smod_pos: "0 \<le> n \<Longrightarrow> 0 < m \<Longrightarrow> n smod m = n mod (m :: int)"
  by (simp add: signed_modulo_int_def signed_divide_int_def minus_div_mult_eq_mod sgn_if)

lemma smod_bound: "0 < m \<Longrightarrow> \<bar>n smod m\<bar> < (m :: int)"
proof -
  assume m: "0 < m"
  have "n smod m = sgn n * (\<bar>n\<bar> mod m)"
    using m by (auto simp: signed_modulo_int_def signed_divide_int_def sgn_if
        minus_div_mult_eq_mod algebra_simps minus_mult_div_eq_mod zmod_zminus1_eq_if)
  then show ?thesis using m by (auto simp: abs_mult sgn_if)
qed

lemma smod_cong: "(n smod m) mod m = n mod (m :: int)"
proof -
  have "n smod m = n - (n sdiv m) * m" by (simp add: minus_sdiv_mult_eq_smod [symmetric])
  then show ?thesis by (metis mod_diff_right_eq mod_mult_self2_is_0 diff_zero)
qed

lemma js_norm_eq: "0 < m \<Longrightarrow> js_norm m n = n mod m"
proof -
  assume m: "0 < m"
  then have "0 \<le> n smod m + m" using smod_bound [OF m, of n] by linarith
  then have "js_norm m n = (n smod m + m) mod m" using m by (simp add: js_norm_def smod_pos)
  then show ?thesis by (simp add: smod_cong)
qed

lemma js_norm_range: "0 < m \<Longrightarrow> 0 \<le> js_norm m n \<and> js_norm m n < m"
  by (simp add: js_norm_eq)

end
