(* ===== verification/Numerals.thy ===== *)
theory Numerals
  imports Prelude
begin

text \<open>
  Positional numerals, the common ground of the byte, hexadecimal and decimal encodings of
  the program. \<open>be_val b ds\<close> is the value of the digits \<open>ds\<close> in base \<open>b\<close>, most significant
  first; \<open>be_digits b k n\<close> are the \<open>k\<close> low digits of \<open>n\<close>; \<open>min_digits b n\<close> is the shortest
  numeral. On top of them: \<open>toString(radix)\<close>, \<open>padStart\<close>, and the string-to-number
  conversions \<open>BigInt(s)\<close> and \<open>parseInt(s, 16)\<close>.
\<close>

section \<open>Values and digits\<close>

definition be_val :: "int \<Rightarrow> int list \<Rightarrow> int" where
  "be_val b ds = foldl (\<lambda>x d. x * b + d) 0 ds"

primrec be_digits :: "int \<Rightarrow> nat \<Rightarrow> int \<Rightarrow> int list" where
  "be_digits b 0 n = []"
| "be_digits b (Suc k) n = be_digits b k (n div b) @ [n mod b]"

definition digits_ok :: "int \<Rightarrow> int list \<Rightarrow> bool" where
  "digits_ok b ds \<longleftrightarrow> (\<forall>d \<in> set ds. 0 \<le> d \<and> d < b)"

lemma digits_ok_simps [simp]:
  "digits_ok b []"
  "digits_ok b (d # ds) \<longleftrightarrow> (0 \<le> d \<and> d < b) \<and> digits_ok b ds"
  "digits_ok b (xs @ ys) \<longleftrightarrow> digits_ok b xs \<and> digits_ok b ys"
  by (auto simp: digits_ok_def)

lemma digits_ok_replicate0 [simp]: "0 < b \<Longrightarrow> digits_ok b (replicate k 0)"
  by (auto simp: digits_ok_def)

lemma be_val_Nil [simp]: "be_val b [] = 0"
  by (simp add: be_val_def)

lemma be_val_snoc [simp]: "be_val b (ds @ [d]) = be_val b ds * b + d"
  by (simp add: be_val_def)

lemma foldl_be: "foldl (\<lambda>x d. x * b + d) a ds = a * b ^ length ds + be_val b ds"
  for a b :: int
proof (induction ds rule: rev_induct)
  case (snoc d ds)
  then show ?case by (simp add: algebra_simps)
qed simp

lemma be_val_Cons: "be_val b (d # ds) = d * b ^ length ds + be_val b ds"
  using foldl_be [of b d ds] by (simp add: be_val_def)

lemma be_val_append: "be_val b (xs @ ys) = be_val b xs * b ^ length ys + be_val b ys"
  using foldl_be [of b "be_val b xs" ys] by (simp add: be_val_def)

lemma be_val_zeros [simp]: "be_val b (replicate k 0 @ ds) = be_val b ds"
  by (induction k) (simp_all add: be_val_Cons)

lemma be_val_range:
  assumes "digits_ok b ds" shows "0 \<le> be_val b ds" "be_val b ds < b ^ length ds"
proof -
  have "0 \<le> be_val b ds \<and> be_val b ds < b ^ length ds"
    using assms
  proof (induction ds rule: rev_induct)
    case (snoc d ds)
    then have r: "0 \<le> be_val b ds" "be_val b ds + 1 \<le> b ^ length ds" "0 \<le> d" "d < b" by auto
    have "(be_val b ds + 1) * b \<le> b ^ length ds * b"
      using r by (intro mult_right_mono) auto
    with r show ?case by (simp add: algebra_simps)
  qed simp
  then show "0 \<le> be_val b ds" "be_val b ds < b ^ length ds" by auto
qed

lemma length_be_digits [simp, digit_simps]: "length (be_digits b k n) = k"
  by (induction k arbitrary: n) auto

lemma be_digits_ok [simp, digit_simps]: "0 < b \<Longrightarrow> digits_ok b (be_digits b k n)"
  by (induction k arbitrary: n) auto

lemma be_val_be_digits [digit_simps]: "0 < b \<Longrightarrow> be_val b (be_digits b k n) = n mod b ^ k"
proof (induction k arbitrary: n)
  case (Suc k)
  then have "be_val b (be_digits b (Suc k) n) = (n div b) mod b ^ k * b + n mod b" by simp
  also have "\<dots> = n mod (b * b ^ k)"
    using Suc.prems by (simp add: zmod_zmult2_eq mult.commute)
  finally show ?case by simp
qed simp

lemma be_digits_be_val [digit_simps]:
  "digits_ok b ds \<Longrightarrow> be_digits b (length ds) (be_val b ds) = ds"
proof (induction ds rule: rev_induct)
  case (snoc d ds)
  then have "0 \<le> d" "d < b" by auto
  with snoc show ?case by simp
qed simp

lemma be_val_inj:
  "digits_ok b xs \<Longrightarrow> digits_ok b ys \<Longrightarrow> length xs = length ys \<Longrightarrow>
   be_val b xs = be_val b ys \<Longrightarrow> xs = ys"
  by (metis be_digits_be_val)

lemma be_digits_mod: "0 < b \<Longrightarrow> be_digits b k (n mod b ^ k) = be_digits b k n"
  by (metis be_digits_be_val be_digits_ok be_val_be_digits length_be_digits)

section \<open>Shortest numerals\<close>

function min_digits :: "int \<Rightarrow> int \<Rightarrow> int list" where
  "min_digits b n = (if b < 2 \<or> n < b then [n] else min_digits b (n div b) @ [n mod b])"
  by pat_completeness auto
termination
proof (relation "measure (\<lambda>(b, n). nat n)")
  fix b n :: int
  assume h: "\<not> (b < 2 \<or> n < b)"
  then have "n div b < n" by (intro int_div_less_self) auto
  with h show "((b, n div b), b, n) \<in> measure (\<lambda>(b, n). nat n)" by auto
qed simp

declare min_digits.simps [simp del]

lemma min_digits_nonempty [simp]: "min_digits b n \<noteq> []"
  by (subst min_digits.simps) simp

lemma min_digits_ok: "2 \<le> b \<Longrightarrow> 0 \<le> n \<Longrightarrow> digits_ok b (min_digits b n)"
proof (induction b n rule: min_digits.induct)
  case (1 b n)
  then show ?case by (subst min_digits.simps) (auto simp: pos_imp_zdiv_nonneg_iff)
qed

lemma be_val_min_digits: "2 \<le> b \<Longrightarrow> 0 \<le> n \<Longrightarrow> be_val b (min_digits b n) = n"
proof (induction b n rule: min_digits.induct)
  case (1 b n)
  then show ?case
    by (subst min_digits.simps) (auto simp: be_val_Cons pos_imp_zdiv_nonneg_iff)
qed

lemma int_div_less_pow: "0 < b \<Longrightarrow> n < b ^ Suc j \<Longrightarrow> n div b < b ^ j" for b n :: int
proof (rule ccontr)
  assume b: "0 < b" and n: "n < b ^ Suc j" and "\<not> n div b < b ^ j"
  then have "b * b ^ j \<le> b * (n div b)" by (intro mult_left_mono) auto
  moreover have "b * (n div b) \<le> n"
    using b pos_mod_sign [of b n] mult_div_mod_eq [of b n] by linarith
  ultimately show False using n by simp
qed

lemma length_min_digits:
  "2 \<le> b \<Longrightarrow> 0 \<le> n \<Longrightarrow> n < b ^ k \<Longrightarrow> 0 < k \<Longrightarrow> length (min_digits b n) \<le> k"
proof (induction b n arbitrary: k rule: min_digits.induct)
  case (1 b n)
  show ?case
  proof (cases "n < b")
    case True
    then show ?thesis using "1.prems" by (subst min_digits.simps) simp
  next
    case False
    then have "k \<noteq> 1" using "1.prems" by auto
    then obtain j where j: "k = Suc j" "0 < j" using "1.prems" by (cases k) auto
    have "n div b < b ^ j"
      using "1.prems" j by (intro int_div_less_pow) auto
    then have "length (min_digits b (n div b)) \<le> j"
      using "1.IH" [of j] "1.prems" False j by (auto simp: pos_imp_zdiv_nonneg_iff)
    then show ?thesis using False "1.prems" j by (subst min_digits.simps) simp
  qed
qed

text \<open>Padding the shortest numeral with zeros gives the fixed-width numeral.\<close>

lemma pad_min_digits:
  assumes "2 \<le> b" "0 \<le> n" "n < b ^ k" "0 < k"
  shows "replicate (k - length (min_digits b n)) 0 @ min_digits b n = be_digits b k n"
proof (rule be_val_inj [of b])
  show "length (replicate (k - length (min_digits b n)) 0 @ min_digits b n)
      = length (be_digits b k n)"
    using length_min_digits [OF assms] by simp
qed (use assms in \<open>simp_all add: min_digits_ok be_val_min_digits be_val_be_digits\<close>)

end
