(* ===== verification/JsStrings.thy ===== *)
theory JsStrings
  imports Numerals "HOL-Library.Char_ord"
begin

text \<open>
  The string operations of the JavaScript standard library that the sources call: digits as
  characters, \<open>toString(radix)\<close>, \<open>padStart\<close>, \<open>trim\<close>, \<open>toLowerCase\<close>, and the two readers
  \<open>BigInt(s)\<close> and \<open>parseInt(s, 16)\<close>. A string is a list of code units; units above 255 are
  outside the model.
\<close>

section \<open>Digits as characters\<close>

definition digit_char :: "int \<Rightarrow> char" where
  "digit_char d = ''0123456789abcdef'' ! nat d"

definition char_digit :: "char \<Rightarrow> int option" where
  "char_digit c = (let n = int (of_char c) in
     if 48 \<le> n \<and> n \<le> 57 then Some (n - 48)
     else if 97 \<le> n \<and> n \<le> 102 then Some (n - 87)
     else if 65 \<le> n \<and> n \<le> 70 then Some (n - 55)
     else None)"

text \<open>A digit of the given base.\<close>

definition digit_in :: "int \<Rightarrow> char \<Rightarrow> int option" where
  "digit_in b c = (case char_digit c of None \<Rightarrow> None | Some d \<Rightarrow> if d < b then Some d else None)"

lemma int_lt_16_cases:
  "0 \<le> d \<Longrightarrow> d < (16 :: int) \<Longrightarrow> d \<in> {0, 1, 2, 3, 4, 5, 6, 7, 8, 9, 10, 11, 12, 13, 14, 15}"
  by simp arith

lemma char_digit_digit_char [simp]: "0 \<le> d \<Longrightarrow> d < 16 \<Longrightarrow> char_digit (digit_char d) = Some d"
  using int_lt_16_cases [of d] by (auto simp: digit_char_def char_digit_def)

lemma digit_in_digit_char [simp]:
  "0 \<le> d \<Longrightarrow> d < b \<Longrightarrow> b \<le> 16 \<Longrightarrow> digit_in b (digit_char d) = Some d"
  by (simp add: digit_in_def)

lemma char_digit_range: "char_digit c = Some d \<Longrightarrow> 0 \<le> d \<and> d < 16"
  by (auto simp: char_digit_def Let_def split: if_splits)

lemma digit_in_range: "digit_in b c = Some d \<Longrightarrow> 0 \<le> d \<and> d < b"
  by (auto simp: digit_in_def dest: char_digit_range split: option.splits if_splits)

primrec read_digits :: "int \<Rightarrow> string \<Rightarrow> int list option" where
  "read_digits b [] = Some []"
| "read_digits b (c # s) = (case digit_in b c of None \<Rightarrow> None
     | Some d \<Rightarrow> map_option ((#) d) (read_digits b s))"

lemma read_digits_map [simp]:
  "digits_ok b ds \<Longrightarrow> b \<le> 16 \<Longrightarrow> read_digits b (map digit_char ds) = Some ds"
  by (induction ds) auto

lemma read_digits_ok:
  "read_digits b s = Some ds \<Longrightarrow> digits_ok b ds \<and> length ds = length s"
  by (induction s arbitrary: ds) (auto split: option.splits dest: digit_in_range)

lemma read_digits_append:
  "read_digits b (s @ t) = (case read_digits b s of None \<Rightarrow> None
     | Some ds \<Rightarrow> map_option ((@) ds) (read_digits b t))"
  by (induction s; cases "read_digits b t") (auto split: option.splits)

lemma read_digits_zeros [simp]:
  "0 < b \<Longrightarrow> read_digits b (replicate k (CHR ''0'') @ s)
     = map_option ((@) (replicate k 0)) (read_digits b s)"
  by (induction k; cases "read_digits b s") (auto simp: digit_in_def char_digit_def)

section \<open>Numbers to strings\<close>

definition to_string :: "int \<Rightarrow> int \<Rightarrow> string" where
  "to_string b n =
     (if n < 0 then CHR ''-'' # map digit_char (min_digits b (- n))
      else map digit_char (min_digits b n))"

definition padStart :: "nat \<Rightarrow> char \<Rightarrow> string \<Rightarrow> string" where
  "padStart k c s = replicate (k - length s) c @ s"

lemma length_padStart [simp]: "length (padStart k c s) = max k (length s)"
  by (simp add: padStart_def)

lemma digit_char_0 [simp]: "digit_char 0 = CHR ''0''"
  by (simp add: digit_char_def)

text \<open>A padded numeral is the fixed-width numeral.\<close>

lemma padStart_to_string:
  assumes "2 \<le> b" "0 \<le> n" "n < b ^ k" "0 < k"
  shows "padStart k (CHR ''0'') (to_string b n) = map digit_char (be_digits b k n)"
proof -
  have "map digit_char (be_digits b k n)
      = map digit_char (replicate (k - length (min_digits b n)) 0 @ min_digits b n)"
    using pad_min_digits [OF assms] by simp
  then show ?thesis using assms by (simp add: padStart_def to_string_def)
qed

section \<open>Trimming and case\<close>

definition js_space :: "char \<Rightarrow> bool" where
  "js_space c \<longleftrightarrow> of_char c \<in> {9, 10, 11, 12, 13, 32, 160 :: nat}"

definition trim :: "string \<Rightarrow> string" where
  "trim s = rev (dropWhile js_space (rev (dropWhile js_space s)))"

lemma trim_id:
  "s = [] \<or> (\<not> js_space (hd s) \<and> \<not> js_space (last s)) \<Longrightarrow> trim s = s"
  by (cases s) (auto simp: trim_def dropWhile_eq_self_iff hd_rev split: if_splits)

definition lower_char :: "char \<Rightarrow> char" where
  "lower_char c = (let n = (of_char c :: nat) in
     if 65 \<le> n \<and> n \<le> 90 \<or> 192 \<le> n \<and> n \<le> 222 \<and> n \<noteq> 215 then char_of (n + 32) else c)"

definition toLowerCase :: "string \<Rightarrow> string" where
  "toLowerCase s = map lower_char s"

section \<open>Strings to numbers\<close>

definition read_radix :: "int \<Rightarrow> string \<Rightarrow> int option" where
  "read_radix b s = (if s = [] then None else map_option (be_val b) (read_digits b s))"

lemma read_radix_map [simp]:
  "digits_ok b ds \<Longrightarrow> b \<le> 16 \<Longrightarrow> ds \<noteq> [] \<Longrightarrow> read_radix b (map digit_char ds) = Some (be_val b ds)"
  by (simp add: read_radix_def)

text \<open>
  \<open>BigInt(s)\<close>: white space is trimmed, the empty string is zero, a \<open>0x\<close>, \<open>0o\<close> or \<open>0b\<close>
  prefix selects the radix, a sign is allowed for decimal numerals only, and anything else
  is a \<open>SyntaxError\<close>.
\<close>

definition of_read :: "int option \<Rightarrow> int res" where
  "of_read r = (case r of None \<Rightarrow> Inl SyntaxError | Some n \<Rightarrow> Inr n)"

lemma of_read_simps [simp]: "of_read None = Inl SyntaxError" "of_read (Some n) = Inr n"
  by (simp_all add: of_read_def)

definition radix_prefix :: "string \<Rightarrow> int option" where
  "radix_prefix t = (case t of a # c # r \<Rightarrow>
       if a \<noteq> CHR ''0'' then None
       else if c = CHR ''x'' \<or> c = CHR ''X'' then Some 16
       else if c = CHR ''o'' \<or> c = CHR ''O'' then Some 8
       else if c = CHR ''b'' \<or> c = CHR ''B'' then Some 2
       else None
     | _ \<Rightarrow> None)"

definition read_signed :: "string \<Rightarrow> int option" where
  "read_signed t = (case t of [] \<Rightarrow> None
     | c # r \<Rightarrow> if c = CHR ''-'' then map_option uminus (read_radix 10 r)
                else if c = CHR ''+'' then read_radix 10 r
                else read_radix 10 t)"

definition read_prefixed :: "string \<Rightarrow> int res" where
  "read_prefixed t = (case radix_prefix t of
       Some b \<Rightarrow> of_read (read_radix b (drop 2 t))
     | None \<Rightarrow> of_read (read_signed t))"

definition bigint_of_string :: "string \<Rightarrow> int res" where
  "bigint_of_string s = (let t = trim s in if t = [] then Inr 0 else read_prefixed t)"

lemma not_space_digit [simp]:
  "0 \<le> d \<Longrightarrow> d < 16 \<Longrightarrow> \<not> js_space (digit_char d)"
  using int_lt_16_cases [of d] by (auto simp: js_space_def digit_char_def)

lemma trim_digits [simp]: "digits_ok 16 ds \<Longrightarrow> trim (map digit_char ds) = map digit_char ds"
  by (rule trim_id) (cases ds; auto simp: digits_ok_def last_map dest: last_in_set)

text \<open>The numeral that \<open>toString\<close> prints reads back.\<close>

lemma digit_char_neq [simp]:
  assumes "0 \<le> d" "d < 16"
  shows "digit_char d \<noteq> CHR ''x''" "digit_char d \<noteq> CHR ''X''" "digit_char d \<noteq> CHR ''o''"
    "digit_char d \<noteq> CHR ''O''" "digit_char d \<noteq> CHR ''B''" "digit_char d \<noteq> CHR ''-''"
    "digit_char d \<noteq> CHR ''+''" "d < 10 \<Longrightarrow> digit_char d \<noteq> CHR ''b''"
  using int_lt_16_cases [OF assms] by (auto simp: digit_char_def)

lemma radix_prefix_digits:
  "digits_ok 10 ds \<Longrightarrow> radix_prefix (map digit_char ds) = None"
  using digit_char_neq (1-4, 8)
  by (cases ds rule: remdups_adj.cases) (simp_all add: radix_prefix_def)

lemma read_signed_digits:
  "digits_ok 10 ds \<Longrightarrow> ds \<noteq> [] \<Longrightarrow> read_signed (map digit_char ds) = Some (be_val 10 ds)"
  using read_radix_map [of 10 ds]
  by (auto simp: read_signed_def simp del: read_radix_map split: list.splits)

lemma digits_ok_mono: "digits_ok b ds \<Longrightarrow> b \<le> b' \<Longrightarrow> digits_ok b' ds"
  by (auto simp: digits_ok_def)

lemma bigint_of_decimal:
  assumes "digits_ok 10 ds" "ds \<noteq> []"
  shows "bigint_of_string (map digit_char ds) = Inr (be_val 10 ds)"
  using assms digits_ok_mono [OF assms(1), of 16]
  by (simp add: bigint_of_string_def read_prefixed_def radix_prefix_digits read_signed_digits)

lemma bigint_of_to_string: "0 \<le> n \<Longrightarrow> bigint_of_string (to_string 10 n) = Inr n"
  by (simp add: to_string_def bigint_of_decimal min_digits_ok be_val_min_digits)

lemma bigint_of_negative:
  assumes "digits_ok 10 ds" "ds \<noteq> []"
  shows "bigint_of_string (CHR ''-'' # map digit_char ds) = Inr (- be_val 10 ds)"
proof -
  have "\<not> js_space (last (CHR ''-'' # map digit_char ds))"
    using assms digits_ok_mono [OF assms(1), of 16] by (simp add: last_map digits_ok_def)
  then have "trim (CHR ''-'' # map digit_char ds) = CHR ''-'' # map digit_char ds"
    by (intro trim_id) (simp add: js_space_def)
  moreover have "radix_prefix (CHR ''-'' # map digit_char ds) = None"
    using assms(2) by (cases ds) (simp_all add: radix_prefix_def)
  ultimately show ?thesis
    using assms by (simp add: bigint_of_string_def read_prefixed_def read_signed_def)
qed

lemma bigint_of_to_string_int: "bigint_of_string (to_string 10 n) = Inr n"
proof (cases "n < 0")
  case True
  then have "digits_ok 10 (min_digits 10 (- n))" "min_digits 10 (- n) \<noteq> []"
      "be_val 10 (min_digits 10 (- n)) = - n"
    by (simp_all add: min_digits_ok be_val_min_digits)
  with bigint_of_negative [OF this(1,2)] True show ?thesis by (simp add: to_string_def)
qed (simp add: bigint_of_to_string)

text \<open>\<open>BigInt("0x" + s)\<close> for a string of hexadecimal digits.\<close>

lemma bigint_of_hex:
  assumes "digits_ok 16 ds" "ds \<noteq> []"
  shows "bigint_of_string (''0x'' @ map digit_char ds) = Inr (be_val 16 ds)"
proof -
  have "trim (''0x'' @ map digit_char ds) = ''0x'' @ map digit_char ds"
  proof (rule trim_id, intro disjI2 conjI)
    have "last ds \<in> set ds" using assms(2) by simp
    then have "\<not> js_space (digit_char (last ds))"
      using assms(1) by (intro not_space_digit) (auto simp: digits_ok_def)
    then show "\<not> js_space (last (''0x'' @ map digit_char ds))"
      using assms(2) by (simp add: last_map)
  qed (simp add: js_space_def)
  then show ?thesis
    using assms by (simp add: bigint_of_string_def read_prefixed_def radix_prefix_def)
qed

text \<open>
  \<open>parseInt(s, 16)\<close>: leading white space, an optional sign and an optional \<open>0x\<close> are
  skipped, then the longest run of hexadecimal digits is read; none is \<open>NaN\<close> (\<open>None\<close>).
\<close>

definition hex_run :: "string \<Rightarrow> int option" where
  "hex_run s = read_radix 16 (takeWhile (\<lambda>c. char_digit c \<noteq> None) s)"

definition strip_0x :: "string \<Rightarrow> string" where
  "strip_0x s = (if radix_prefix s = Some 16 then drop 2 s else s)"

definition parseInt16 :: "string \<Rightarrow> int option" where
  "parseInt16 s = (case dropWhile js_space s of
       [] \<Rightarrow> None
     | c # r \<Rightarrow> if c = CHR ''-'' then map_option uminus (hex_run (strip_0x r))
                else if c = CHR ''+'' then hex_run (strip_0x r)
                else hex_run (strip_0x (c # r)))"

lemma hex_run_digits:
  assumes "digits_ok 16 ds" "ds \<noteq> []"
  shows "hex_run (map digit_char ds) = Some (be_val 16 ds)"
proof -
  have "takeWhile (\<lambda>c. char_digit c \<noteq> None) (map digit_char ds) = map digit_char ds"
    using assms(1) by (auto simp: digits_ok_def)
  then show ?thesis using assms by (simp only: hex_run_def read_radix_map) simp
qed

lemma radix_prefix_hex: "digits_ok 16 ds \<Longrightarrow> radix_prefix (map digit_char ds) \<noteq> Some 16"
  using digit_char_neq (1, 2)
  by (cases ds rule: remdups_adj.cases) (simp_all add: radix_prefix_def)

lemma parseInt16_digits:
  "digits_ok 16 ds \<Longrightarrow> ds \<noteq> [] \<Longrightarrow> parseInt16 (map digit_char ds) = Some (be_val 16 ds)"
  using radix_prefix_hex [of ds] hex_run_digits [of ds]
  by (cases ds) (auto simp: parseInt16_def strip_0x_def)

end
