(* ===== verification/Bytes.thy ===== *)
theory Bytes
  imports JsStrings
begin

text \<open>
  The byte and hexadecimal codecs of \<open>helpers/utils.ts\<close>: field elements as 32 big-endian
  bytes, 64-nibble hexadecimal strings and back, and the locale \<open>byte_codec\<close> of fixed-width
  encodings that the census file, the ciphertexts and the vote payload all rely on.
\<close>

type_synonym byte = "8 word"

section \<open>Constants\<close>

definition FP :: int where
  "FP = 21888242871839275222246405745257275088548364400416034343698204186575808495617"

definition HASH0 :: int where
  "HASH0 = 19014214495641488759237505126948346942972912379615652741039992445865937985820"

lemma FP_pos [simp]: "0 < FP"
  by (simp add: FP_def)

lemma FP_lt_256: "FP < 256 ^ 32"
  by (simp add: FP_def)

lemma FP_lt_254: "FP < 2 ^ 254" "2 ^ 253 < FP"
  by (simp_all add: FP_def)

section \<open>Bytes and digits\<close>

text \<open>Writing a number into a \<open>Uint8Array\<close> keeps its low eight bits; \<open>NaN\<close> becomes 0.\<close>

definition byte_of_num :: "int option \<Rightarrow> byte" where
  "byte_of_num r = (case r of None \<Rightarrow> 0 | Some n \<Rightarrow> word_of_int n)"

lemma and_255: "(n :: int) AND 255 = n mod 256"
  using take_bit_eq_mask [of 8 n] by (simp add: take_bit_eq_mod mask_eq_exp_minus_1)

lemma drop_bit_8: "drop_bit 8 (n :: int) = n div 256"
  by (simp add: drop_bit_eq_div)

lemma uint_word_of_digit [simp]: "0 \<le> d \<Longrightarrow> d < 256 \<Longrightarrow> uint (word_of_int d :: byte) = d"
  by (simp add: uint_word_of_int)

lemma uint_map_digits [simp]:
  "digits_ok 256 ds \<Longrightarrow> map (uint \<circ> (word_of_int :: int \<Rightarrow> byte)) ds = ds"
  by (induction ds) auto

lemma byte_range: "0 \<le> uint (b :: byte)" "uint (b :: byte) < 256"
  using uint_lt2p [of b] by simp_all

lemma digits_ok_bytes [simp]: "digits_ok 256 (map uint (bs :: byte list))"
  using byte_range by (auto simp: digits_ok_def)

lemma shift_or_byte: "push_bit 8 x OR uint (b :: byte) = x * 256 + uint b"
proof -
  have "take_bit 8 (uint b) = uint b" using byte_range [of b] by (simp add: take_bit_eq_mod)
  then show ?thesis using concat_bit_eq [of 8 "uint b" x]
    by (simp add: concat_bit_def or.commute push_bit_eq_mult add.commute)
qed

section \<open>Field elements as big-endian bytes\<close>

text \<open>
  The loop of \<open>toBytesBE32Buf\<close> and \<open>toHex32\<close>: from the last index down to 0, store the low
  byte and shift right.
\<close>

primrec be_fill :: "nat \<Rightarrow> int \<Rightarrow> byte list \<Rightarrow> byte list" where
  "be_fill 0 n out = out"
| "be_fill (Suc i) n out = be_fill i (drop_bit 8 n) (out[i := word_of_int (n AND 255)])"

lemma drop_list_update_self: "k < length xs \<Longrightarrow> drop k (xs[k := x]) = x # drop (Suc k) xs"
  by (simp add: Cons_nth_drop_Suc [symmetric])

lemma be_fill_digits:
  "k \<le> length out \<Longrightarrow> be_fill k n out = map word_of_int (be_digits 256 k n) @ drop k out"
  by (induction k arbitrary: n out) (simp_all add: and_255 drop_bit_8 drop_list_update_self)

lemma be_fill_zeros: "be_fill k n (replicate k 0) = map word_of_int (be_digits 256 k n)"
  by (simp add: be_fill_digits)

definition toBytesBE32Buf :: "int \<Rightarrow> byte list" where
  "toBytesBE32Buf n0 = (let n = js_norm FP n0 in be_fill 32 n (replicate 32 0))"

definition toBytesBE32 :: "int \<Rightarrow> byte list" where
  "toBytesBE32 n0 = toBytesBE32Buf n0"

lemma toBytesBE32Buf_digits:
  "toBytesBE32Buf n = map word_of_int (be_digits 256 32 (n mod FP))"
  by (simp add: toBytesBE32Buf_def be_fill_zeros js_norm_eq)

lemma length_toBytesBE32Buf [simp, digit_simps]: "length (toBytesBE32Buf n) = 32"
  by (simp add: toBytesBE32Buf_digits)

lemma val_toBytesBE32Buf [digit_simps]: "be_val 256 (map uint (toBytesBE32Buf n)) = n mod FP"
proof -
  have "n mod FP < 256 ^ 32" using FP_lt_256 pos_mod_bound [of FP n] FP_pos by linarith
  then show ?thesis by (simp add: toBytesBE32Buf_digits be_val_be_digits)
qed

section \<open>Reading big-endian bytes\<close>

text \<open>\<open>BigInt(u8[i])\<close> beyond the end of the array is \<open>BigInt(undefined)\<close>, a \<open>TypeError\<close>.\<close>

primrec read_be :: "nat \<Rightarrow> byte list \<Rightarrow> nat \<Rightarrow> int \<Rightarrow> int res" where
  "read_be 0 u8 off x = Inr x"
| "read_be (Suc k) u8 off x = (case at u8 off of
       None \<Rightarrow> Inl TypeError
     | Some b \<Rightarrow> read_be k u8 (Suc off) (push_bit 8 x OR uint b))"

definition bytes32ToBig :: "byte list \<Rightarrow> nat \<Rightarrow> int res" where
  "bytes32ToBig u8 off = read_be 32 u8 off 0"

lemma read_be_digits:
  "read_be (length bs) (pre @ bs @ post) (length pre) x
     = Inr (x * 256 ^ length bs + be_val 256 (map uint bs))"
proof (induction bs arbitrary: pre x)
  case (Cons b bs)
  have "read_be (length bs) ((pre @ [b]) @ bs @ post) (length (pre @ [b])) (x * 256 + uint b)
     = Inr ((x * 256 + uint b) * 256 ^ length bs + be_val 256 (map uint bs))"
    by (rule Cons.IH)
  then show ?case by (simp add: at_def shift_or_byte be_val_Cons algebra_simps)
qed simp

lemma read_be_short:
  "length u8 < off + k \<Longrightarrow> off \<le> length u8 \<Longrightarrow> read_be k u8 off x = Inl TypeError"
proof (induction k arbitrary: off x)
  case (Suc k)
  then show ?case by (cases "off < length u8") (simp_all add: at_def)
qed simp

lemma bytes32ToBig_val:
  assumes "length bs = 32"
  shows "bytes32ToBig (pre @ bs @ post) (length pre) = Inr (be_val 256 (map uint bs))"
  using read_be_digits [of bs pre post 0] unfolding assms bytes32ToBig_def by simp

lemma bytes32ToBig_val0: "length bs = 32 \<Longrightarrow> bytes32ToBig bs 0 = Inr (be_val 256 (map uint bs))"
  using bytes32ToBig_val [of bs "[]" "[]"] by simp

definition arraysEqual :: "byte list \<Rightarrow> byte list \<Rightarrow> bool" where
  "arraysEqual arr1 arr2 =
     (if length arr1 \<noteq> length arr2 then False
      else list_all (\<lambda>i. at arr1 i = at arr2 i) [0..<length arr1])"

lemma arraysEqual_eq: "arraysEqual xs ys \<longleftrightarrow> xs = ys"
proof
  assume "arraysEqual xs ys"
  then show "xs = ys"
    by (intro nth_equalityI) (auto simp: arraysEqual_def list_all_iff at_def split: if_splits)
qed (simp add: arraysEqual_def list_all_iff)

section \<open>Fixed-width codecs\<close>

text \<open>
  The loop \<open>for (let off = 0; off < len; off += w)\<close> that reads one item per step. It runs
  in the census parser, in the vote page and over ciphertexts.
\<close>

function chunk_loop :: "nat \<Rightarrow> (nat \<Rightarrow> 'a res) \<Rightarrow> nat \<Rightarrow> nat \<Rightarrow> 'a list res" where
  "chunk_loop w f len off =
     (if w = 0 \<or> len \<le> off then Inr []
      else rbind (f off) (\<lambda>x. rbind (chunk_loop w f len (off + w)) (\<lambda>xs. Inr (x # xs))))"
  by pat_completeness auto
termination
  by (relation "measure (\<lambda>(w, f, len, off). len - off)") auto

declare chunk_loop.simps [simp del]

locale byte_codec =
  fixes width :: nat
    and enc :: "'a \<Rightarrow> byte list"
    and dec :: "byte list \<Rightarrow> nat \<Rightarrow> 'a res"
    and ok :: "'a \<Rightarrow> bool"
  assumes width_pos: "0 < width"
    and enc_length: "length (enc x) = width"
    and dec_enc: "ok x \<Longrightarrow> dec (pre @ enc x @ post) (length pre) = Inr x"
begin

lemma length_concat_enc: "length (concat (map enc xs)) = width * length xs"
  by (induction xs) (simp_all add: enc_length)

lemma chunk_loop_from:
  "(\<forall>x \<in> set xs. ok x) \<Longrightarrow>
   chunk_loop width (dec (pre @ concat (map enc xs)))
     (length pre + length (concat (map enc xs))) (length pre) = Inr xs"
proof (induction xs arbitrary: pre)
  case Nil
  then show ?case by (subst chunk_loop.simps) simp
next
  case (Cons x xs)
  let ?bs = "pre @ concat (map enc (x # xs))"
  let ?n = "length pre + length (concat (map enc (x # xs)))"
  have head: "dec ?bs (length pre) = Inr x"
    using dec_enc [of x pre "concat (map enc xs)"] Cons.prems by simp
  have tail: "chunk_loop width (dec ?bs) ?n (length pre + width) = Inr xs"
    using Cons.IH [of "pre @ enc x"] Cons.prems by (simp add: enc_length add.assoc)
  have "\<not> (width = 0 \<or> ?n \<le> length pre)" using width_pos by (simp add: enc_length)
  then show ?case using head tail by (subst chunk_loop.simps) (simp only: if_False rbind_Inr)
qed

text \<open>Reading the concatenation of encodings gives the items back, in order.\<close>

lemma chunk_loop_concat:
  "(\<forall>x \<in> set xs. ok x) \<Longrightarrow>
   chunk_loop width (dec (concat (map enc xs))) (length (concat (map enc xs))) 0 = Inr xs"
  using chunk_loop_from [of xs "[]"] by simp

end

text \<open>Field elements written by \<open>toBytesBE32\<close> and read by \<open>bytes32ToBig\<close> are such a codec.\<close>

interpretation be32: byte_codec 32 toBytesBE32 bytes32ToBig "\<lambda>n. 0 \<le> n \<and> n < FP"
proof
  fix n :: int and pre post :: "byte list"
  assume "0 \<le> n \<and> n < FP"
  then show "bytes32ToBig (pre @ toBytesBE32 n @ post) (length pre) = Inr n"
    using bytes32ToBig_val [of "toBytesBE32Buf n" pre post]
    by (simp add: toBytesBE32_def val_toBytesBE32Buf)
qed (simp_all add: toBytesBE32_def)

end
