(* ===== verification/Hex.thy ===== *)
theory Hex
  imports Bytes
begin

text \<open>
  Hexadecimal strings of \<open>helpers/utils.ts\<close>: \<open>toHex32\<close> (also the local copy in
  \<open>frontend/src/auth.ts\<close>) and \<open>hexToBytes32\<close>, with their round trips.
\<close>

section \<open>toHex32\<close>

definition byte_hex :: "byte \<Rightarrow> string" where
  "byte_hex b = padStart 2 (CHR ''0'') (to_string 16 (uint b))"

definition toHex32 :: "int \<Rightarrow> string" where
  "toHex32 n = concat (map byte_hex (be_fill 32 n (replicate 32 0)))"

lemma byte_hex_digits: "byte_hex b = map digit_char (be_digits 16 2 (uint b))"
  using byte_range [of b] by (simp add: byte_hex_def padStart_to_string)

lemma be_digits_two: "be_digits 16 2 d = [d div 16 mod 16, d mod 16]"
  by (simp add: numeral_2_eq_2)

lemma be_digits_256_16:
  "concat (map (be_digits 16 2) (be_digits 256 k n)) = be_digits 16 (2 * k) n"
proof (induction k arbitrary: n)
  case (Suc k)
  have m: "n mod 256 = 16 * (n div 16 mod 16) + n mod 16"
    using zmod_zmult2_eq [of 16 n 16] by simp
  have "n mod 256 div 16 = n div 16 mod 16" unfolding m by (simp add: div_add1_eq)
  then have "n mod 256 div 16 mod 16 = n div 16 mod 16" by simp
  moreover have "n mod 256 mod 16 = n mod 16" by (rule mod_mod_cancel) simp
  moreover have "n div 16 div 16 = n div 256" using zdiv_zmult2_eq [of 16 n 16] by simp
  ultimately have two: "be_digits 16 2 (n mod 256) = [n div 16 mod 16, n mod 16]"
    and four: "n div 16 div 16 = n div 256"
    by (simp_all only: be_digits_two)
  have "concat (map (be_digits 16 2) (be_digits 256 (Suc k) n))
      = be_digits 16 (2 * k) (n div 256) @ be_digits 16 2 (n mod 256)"
    by (simp only: be_digits.simps map_append concat_append list.map concat.simps append_Nil2 Suc)
  moreover have "be_digits 16 (2 * Suc k) n
      = be_digits 16 (2 * k) (n div 16 div 16) @ [n div 16 mod 16, n mod 16]"
    by (simp only: mult_Suc_right be_digits.simps add_2_eq_Suc append_assoc append_Cons append_Nil)
  ultimately show ?case by (simp only: two four)
qed simp

lemma toHex32_digits: "toHex32 n = map digit_char (be_digits 16 64 n)"
proof -
  have "toHex32 n = concat (map (\<lambda>d. map digit_char (be_digits 16 2 (uint (word_of_int d :: byte))))
      (be_digits 256 32 n))"
    by (simp add: toHex32_def byte_hex_digits be_fill_zeros comp_def)
  also have "\<dots> = concat (map (\<lambda>d. map digit_char (be_digits 16 2 d)) (be_digits 256 32 n))"
    by (rule arg_cong [where f = concat], rule map_cong)
      (use be_digits_ok [of 256 32 n] in \<open>auto simp: digits_ok_def simp del: be_digits_ok\<close>)
  also have "\<dots> = map digit_char (concat (map (be_digits 16 2) (be_digits 256 32 n)))"
    by (simp add: map_concat comp_def)
  also have "\<dots> = map digit_char (be_digits 16 64 n)" by (simp only: be_digits_256_16) simp
  finally show ?thesis .
qed

lemma hex_toHex32_id: "0 \<le> n \<Longrightarrow> n < FP \<Longrightarrow> bigint_of_string (''0x'' @ toHex32 n) = Inr n"
proof -
  assume n: "0 \<le> n" "n < FP"
  have "bigint_of_string (''0x'' @ toHex32 n) = Inr (be_val 16 (be_digits 16 64 n))"
    unfolding toHex32_digits by (rule bigint_of_hex) (simp_all flip: length_0_conv)
  then show ?thesis using n FP_lt_256 by (simp add: be_val_be_digits)
qed

lemma toHex32_inj: "0 \<le> m \<Longrightarrow> m < FP \<Longrightarrow> 0 \<le> n \<Longrightarrow> n < FP \<Longrightarrow> toHex32 m = toHex32 n \<longleftrightarrow> m = n"
  by (metis hex_toHex32_id sum.inject(2))

lemma length_toHex32 [simp]: "length (toHex32 n) = 64"
  by (simp add: toHex32_digits)

section \<open>hexToBytes32\<close>

definition slice :: "nat \<Rightarrow> nat \<Rightarrow> 'a list \<Rightarrow> 'a list" where
  "slice a b s = take (b - a) (drop a s)"

definition all_hex :: "string \<Rightarrow> bool" where
  "all_hex s = list_all (\<lambda>c. char_digit c \<noteq> None) s"

definition hexToBytes32 :: "string \<Rightarrow> byte list res" where
  "hexToBytes32 hex = (let s = strip_0x hex in
     if 64 < length s then Inl (Thrown ''Hex too long (max 64 nibbles = 32 bytes).'')
     else if \<not> all_hex s then Inl (Thrown ''Invalid hex string.'')
     else let s = (if length s mod 2 = 1 then ''0'' @ s else s);
              s = padStart 64 (CHR ''0'') s
          in Inr (map (\<lambda>i. byte_of_num (parseInt16 (slice (i * 2) (i * 2 + 2) s))) [0..<32]))"

lemma not_space_hex: "char_digit c = Some d \<Longrightarrow> \<not> js_space c"
  by (auto simp: char_digit_def js_space_def Let_def split: if_splits)

lemma parseInt16_pair:
  assumes "char_digit a = Some x" "char_digit b = Some y"
  shows "parseInt16 [a, b] = Some (16 * x + y)"
proof -
  have "a \<noteq> CHR ''-''" "a \<noteq> CHR ''+''" "b \<noteq> CHR ''x''" "b \<noteq> CHR ''X''"
    using assms by (auto simp: char_digit_def)
  moreover have "read_digits 16 [a, b] = Some [x, y]"
    using assms char_digit_range [of a x] char_digit_range [of b y] by (simp add: digit_in_def)
  ultimately show ?thesis
    using assms not_space_hex [of a x]
    by (simp add: parseInt16_def strip_0x_def radix_prefix_def hex_run_def read_radix_def
        be_val_Cons mult.commute)
qed

fun pair_digits :: "int list \<Rightarrow> int list" where
  "pair_digits (a # b # r) = (16 * a + b) # pair_digits r"
| "pair_digits r = []"

lemma be_val_pair_digits:
  "even (length ds) \<Longrightarrow> be_val 256 (pair_digits ds) = be_val 16 ds"
proof -
  have "even (length ds) \<Longrightarrow> be_val 256 (pair_digits ds) = be_val 16 ds \<and>
      2 * length (pair_digits ds) = length ds"
  proof (induction ds rule: pair_digits.induct)
    case (1 a b r)
    then have "length r = 2 * length (pair_digits r)" by simp
    then have "(256 :: int) ^ length (pair_digits r) = 16 ^ length r" by (simp add: power_mult)
    with 1 show ?case by (simp add: be_val_Cons algebra_simps)
  qed auto
  then show "even (length ds) \<Longrightarrow> be_val 256 (pair_digits ds) = be_val 16 ds" by blast
qed

lemma pair_digits_ok: "digits_ok 16 ds \<Longrightarrow> digits_ok 256 (pair_digits ds)"
  by (induction ds rule: pair_digits.induct) auto

lemma parse_pairs:
  "read_digits 16 s = Some ds \<Longrightarrow> length s = 2 * k \<Longrightarrow>
   map (\<lambda>i. byte_of_num (parseInt16 (slice (i * 2) (i * 2 + 2) s))) [0..<k]
     = map word_of_int (pair_digits ds)"
proof (induction k arbitrary: s ds)
  case (Suc k)
  then obtain a b r where s: "s = a # b # r" "length r = 2 * k"
    by (auto simp: length_Suc_conv)
  from Suc.prems(1) obtain x y e where e: "char_digit a = Some x" "char_digit b = Some y"
      "read_digits 16 r = Some e" "ds = x # y # e"
    by (auto simp: s digit_in_def split: option.splits if_splits)
  have "map (\<lambda>i. byte_of_num (parseInt16 (slice (i * 2) (i * 2 + 2) s))) [0..<Suc k]
    = byte_of_num (parseInt16 [a, b])
      # map (\<lambda>i. byte_of_num (parseInt16 (slice (i * 2) (i * 2 + 2) r))) [0..<k]"
    by (simp add: upt_conv_Cons map_Suc_upt [symmetric] slice_def s del: upt_Suc)
  with e Suc.IH [OF e(3) s(2)] show ?case
    by (simp add: parseInt16_pair byte_of_num_def)
qed simp

lemma all_hex_read: "all_hex s \<longleftrightarrow> (\<exists>ds. read_digits 16 s = Some ds)"
proof (induction s)
  case (Cons c s)
  then show ?case
    by (auto simp: all_hex_def digit_in_def dest: char_digit_range split: option.splits)
qed (simp add: all_hex_def)

text \<open>The bytes of an accepted string are the 256-ary digits of its value.\<close>

lemma hexToBytes32_value:
  assumes "length (strip_0x s) \<le> 64" "read_digits 16 (strip_0x s) = Some ds"
  shows "\<exists>bs. hexToBytes32 s = Inr bs \<and> length bs = 32 \<and> be_val 256 (map uint bs) = be_val 16 ds"
proof -
  let ?t = "strip_0x s"
  let ?u = "if length ?t mod 2 = 1 then ''0'' @ ?t else ?t"
  let ?p = "padStart 64 (CHR ''0'') ?u"
  have len: "length ?u \<le> 64" using assms(1) by (auto; presburger)
  then have "length ?p = 2 * 32" by simp
  moreover obtain j where p: "?p = replicate j (CHR ''0'') @ ?t"
  proof
    show "?p = replicate ((64 - length ?u) + (if length ?t mod 2 = 1 then 1 else 0)) (CHR ''0'') @ ?t"
      by (simp add: padStart_def replicate_add replicate_append_same)
  qed
  moreover have "read_digits 16 ?p = Some (replicate j 0 @ ds)"
    using assms(2) by (simp only: p read_digits_zeros zero_less_numeral option.map)
  ultimately have bs: "map (\<lambda>i. byte_of_num (parseInt16 (slice (i * 2) (i * 2 + 2) ?p))) [0..<32]
      = map word_of_int (pair_digits (replicate j 0 @ ds))" (is "?bs = _")
    using parse_pairs [of ?p "replicate j 0 @ ds" 32] by blast
  have ok: "digits_ok 16 (replicate j 0 @ ds)" "length (replicate j 0 @ ds) = 64"
    using read_digits_ok [OF \<open>read_digits 16 ?p = _\<close>] \<open>length ?p = 2 * 32\<close> by auto
  have "hexToBytes32 s = Inr ?bs"
    using assms all_hex_read [of ?t] by (simp add: hexToBytes32_def Let_def)
  moreover have "length ?bs = 32" by simp
  moreover have "be_val 256 (map uint ?bs) = be_val 16 ds"
    using ok be_val_pair_digits [of "replicate j 0 @ ds"]
    by (simp only: bs map_map uint_map_digits pair_digits_ok) simp
  ultimately show ?thesis by blast
qed

section \<open>Properties\<close>

lemma hexToBytes32_iff:
  "hexToBytes32 s = Inr bs \<longleftrightarrow>
     length (strip_0x s) \<le> 64 \<and> length bs = 32 \<and>
     (\<exists>ds. read_digits 16 (strip_0x s) = Some ds \<and> be_val 256 (map uint bs) = be_val 16 ds)"
  (is "_ \<longleftrightarrow> ?ok bs")
proof
  assume h: "hexToBytes32 s = Inr bs"
  then have l: "length (strip_0x s) \<le> 64" and "all_hex (strip_0x s)"
    by (auto simp: hexToBytes32_def Let_def split: if_splits)
  then obtain ds where "read_digits 16 (strip_0x s) = Some ds" by (auto simp: all_hex_read)
  with hexToBytes32_value [OF l this] h l show "?ok bs" by auto
next
  assume ok: "?ok bs"
  then obtain ds where ds: "read_digits 16 (strip_0x s) = Some ds"
      "be_val 256 (map uint bs) = be_val 16 ds" by blast
  then obtain bs' where bs': "hexToBytes32 s = Inr bs'" "length bs' = 32"
      "be_val 256 (map uint bs') = be_val 16 ds"
    using hexToBytes32_value ok by blast
  then have "map uint bs' = map uint bs" using ok ds by (intro be_val_inj [of 256]) auto
  then have "bs' = bs" by (rule map_injective) (simp add: inj_on_def word_uint_eq_iff)
  with bs' show "hexToBytes32 s = Inr bs" by simp
qed

text \<open>
  \<open>hexToBytes32\<close> accepts exactly the strings of at most 64 hexadecimal digits (one
  optional \<open>0x\<close>, odd lengths included), and then returns the 32 bytes whose big-endian value
  is the value of the numeral; every other string is an error.
\<close>

theorem hexToBytes32_spec:
  "hexToBytes32 s = Inr bs \<longleftrightarrow>
     length (strip_0x s) \<le> 64 \<and> length bs = 32 \<and>
     (\<exists>ds. read_digits 16 (strip_0x s) = Some ds \<and> be_val 256 (map uint bs) = be_val 16 ds)"
  by (rule hexToBytes32_iff)

lemma strip_0x_toHex32 [simp]: "strip_0x (toHex32 n) = toHex32 n"
  using radix_prefix_hex [of "be_digits 16 64 n"] by (simp add: strip_0x_def toHex32_digits)

lemma hexToBytes32_0x: "hexToBytes32 (''0x'' @ s) = hexToBytes32 s" if "strip_0x s = s" for s
  using that by (simp add: hexToBytes32_def strip_0x_def [of "CHR ''0'' # _"] radix_prefix_def)

lemma hex_field_roundtrip:
  assumes "0 \<le> n" "n < FP"
  shows "hexToBytes32 (''0x'' @ toHex32 n) = Inr (toBytesBE32 n)"
proof -
  have n: "n < 256 ^ 32" using assms FP_lt_256 by linarith
  have "be_val 16 (be_digits 16 64 n) = n"
    using assms n by (simp add: be_val_be_digits)
  then have "hexToBytes32 (toHex32 n) = Inr (toBytesBE32 n)"
    using assms by (simp add: hexToBytes32_iff toHex32_digits [of n] toBytesBE32_def
        val_toBytesBE32Buf strip_0x_toHex32 [unfolded toHex32_digits])
  then show ?thesis by (simp only: hexToBytes32_0x [OF strip_0x_toHex32])
qed

text \<open>
  The string \<open>"0x" + toHex32(n)\<close> that the poll form stores for a census root reads back,
  through \<open>hexToBytes32\<close>, as the 32-byte big-endian encoding of \<open>n\<close>; for a field element
  that is what \<open>toBytesBE32\<close> writes.
\<close>

theorem hexToBytes32_toHex32:
  assumes "0 \<le> n" "n < FP"
  shows "hexToBytes32 (''0x'' @ toHex32 n) = Inr (toBytesBE32 n)"
  using assms by (rule hex_field_roundtrip)

theorem hexToBytes32_toHex32_witness:
  "hexToBytes32 (''0x'' @ toHex32 258) = Inr (toBytesBE32 258)"
  by (rule hexToBytes32_toHex32) (simp_all add: FP_def)

end
