(* ===== verification/MerkleTree.thy ===== *)
theory MerkleTree
  imports Prelude
begin

text \<open>
  The census tree of \<open>helpers/merkletree.ts\<close>: \<open>getMerkleRoot\<close> and \<open>getMerkleProof\<close> hash a
  list of leaves up a binary tree of fixed depth, filling missing nodes with precomputed
  defaults and reusing the array of the level below in place. \<open>P\<close> is Poseidon of circomlibjs
  (a parameter), applied to the list of its inputs. The reference definition is \<open>node\<close>, the
  node of the full tree; \<open>merkleInclusion\<close> is the circuit
  \<open>circom/MerkleTreeInclusionProof.circom\<close> that checks a proof.
\<close>

type_synonym hash = "int list \<Rightarrow> int"

record merkle_proof =
  mp_root :: int
  mp_path :: "int list"
  mp_pathPos :: "int list"

section \<open>The code\<close>

text \<open>The array \<open>def\<close> of default nodes, one per level.\<close>

primrec defaults :: "hash \<Rightarrow> nat \<Rightarrow> int list" where
  "defaults P 0 = [P [0]]"
| "defaults P (Suc i) = (let ds = defaults P i in ds @ [P [last ds, last ds]])"

text \<open>The inner loop, which overwrites the front of \<open>level\<close> while reading the rest of it.\<close>

function fill_level :: "hash \<Rightarrow> int \<Rightarrow> nat \<Rightarrow> nat \<Rightarrow> int list \<Rightarrow> int list" where
  "fill_level P dv j n level =
     (if j < n
      then let sibIndex = 2 * j + 1;
               sib = (if sibIndex < length level then level ! sibIndex else dv)
           in fill_level P dv (Suc j) n (level[j := P [level ! (2 * j), sib]])
      else level)"
  by pat_completeness auto
termination
  by (relation "measure (\<lambda>(P, dv, j, n, level). n - j)") auto

declare fill_level.simps [simp del]

definition next_level :: "hash \<Rightarrow> int \<Rightarrow> int list \<Rightarrow> int list" where
  "next_level P dv level =
     (let newLevelLen = (length level + 1) div 2
      in take newLevelLen (fill_level P dv 0 newLevelLen level))"

primrec root_loop :: "hash \<Rightarrow> int list \<Rightarrow> nat \<Rightarrow> nat \<Rightarrow> int \<Rightarrow> int list \<Rightarrow> int" where
  "root_loop P ds 0 lvl cur level = cur"
| "root_loop P ds (Suc k) lvl cur level =
     (let sib = (if 1 < length level then level ! 1 else ds ! lvl)
      in root_loop P ds k (Suc lvl) (P [cur, sib]) (next_level P (ds ! lvl) level))"

definition getMerkleRoot :: "hash \<Rightarrow> nat \<Rightarrow> int list \<Rightarrow> int res" where
  "getMerkleRoot P depth leafs = (case at leafs 0 of
       None \<Rightarrow> Inl UndefinedArg
     | Some cur \<Rightarrow> Inr (root_loop P (defaults P depth) depth 0 cur leafs))"

primrec proof_loop ::
  "hash \<Rightarrow> int list \<Rightarrow> nat \<Rightarrow> nat \<Rightarrow> int \<Rightarrow> nat \<Rightarrow> int list \<Rightarrow> int list \<Rightarrow> int list \<Rightarrow> merkle_proof" where
  "proof_loop P ds 0 lvl cur idx level path pathPos =
     \<lparr>mp_root = cur, mp_path = path, mp_pathPos = pathPos\<rparr>"
| "proof_loop P ds (Suc k) lvl cur idx level path pathPos =
     (let bit = idx mod 2;
          sibIndex = (if bit = 0 then idx + 1 else idx - 1);
          sib = (if sibIndex < length level then level ! sibIndex else ds ! lvl)
      in proof_loop P ds k (Suc lvl)
           (if bit = 0 then P [cur, sib] else P [sib, cur])
           (idx div 2) (next_level P (ds ! lvl) level)
           (path @ [sib]) (pathPos @ [int bit]))"

definition getMerkleProof :: "hash \<Rightarrow> nat \<Rightarrow> int list \<Rightarrow> nat \<Rightarrow> merkle_proof res" where
  "getMerkleProof P depth leafs index = (case at leafs index of
       None \<Rightarrow> Inl UndefinedArg
     | Some cur \<Rightarrow> Inr (proof_loop P (defaults P depth) depth 0 cur index leafs [] []))"

text \<open>The circuit: every position is binary and selects the side of the path element.\<close>

fun merkleInclusion :: "hash \<Rightarrow> int \<Rightarrow> int list \<Rightarrow> int list \<Rightarrow> int option" where
  "merkleInclusion P leaf [] [] = Some leaf"
| "merkleInclusion P leaf (b # bs) (e # es) =
     (if b * (1 - b) = 0
      then merkleInclusion P (P (if b = 0 then [leaf, e] else [e, leaf])) bs es
      else None)"
| "merkleInclusion P leaf _ _ = None"

section \<open>Reference: the full tree\<close>

primrec node :: "hash \<Rightarrow> int list \<Rightarrow> nat \<Rightarrow> nat \<Rightarrow> int" where
  "node P leafs 0 i = (if i < length leafs then leafs ! i else P [0])"
| "node P leafs (Suc l) i = P [node P leafs l (2 * i), node P leafs l (2 * i + 1)]"

primrec def_at :: "hash \<Rightarrow> nat \<Rightarrow> int" where
  "def_at P 0 = P [0]"
| "def_at P (Suc l) = P [def_at P l, def_at P l]"

lemma defaults_map: "defaults P d = map (def_at P) [0..<Suc d]"
  by (induction d) (simp_all add: Let_def)

lemma defaults_nth [simp]: "l \<le> d \<Longrightarrow> defaults P d ! l = def_at P l"
  by (simp add: defaults_map del: upt_Suc)

section \<open>The in-place level\<close>

fun pair_up :: "hash \<Rightarrow> int \<Rightarrow> int list \<Rightarrow> int list" where
  "pair_up P dv (x # y # r) = P [x, y] # pair_up P dv r"
| "pair_up P dv [x] = [P [x, dv]]"
| "pair_up P dv [] = []"

lemma length_pair_up [simp]: "length (pair_up P dv xs) = (length xs + 1) div 2"
  by (induction xs rule: pair_up.induct) auto

lemma pair_up_nth:
  "j < (length xs + 1) div 2 \<Longrightarrow>
   pair_up P dv xs ! j
     = P [xs ! (2 * j), if 2 * j + 1 < length xs then xs ! (2 * j + 1) else dv]"
proof (induction P dv xs arbitrary: j rule: pair_up.induct)
  case (1 P dv x y r)
  then show ?case by (cases j) auto
qed auto

lemma fill_level_pairs:
  assumes "length a = length xs" "n = (length xs + 1) div 2"
    and "\<And>i. i < j \<Longrightarrow> i < n \<Longrightarrow> a ! i = pair_up P dv xs ! i"
    and "\<And>i. j \<le> i \<Longrightarrow> i < length xs \<Longrightarrow> a ! i = xs ! i"
  shows "length (fill_level P dv j n a) = length xs \<and>
    (\<forall>i < n. fill_level P dv j n a ! i = pair_up P dv xs ! i)"
  using assms
proof (induction P dv j n a rule: fill_level.induct)
  case (1 P dv j n a)
  show ?case
  proof (cases "j < n")
    case True
    then have j: "2 * j < length xs" using "1.prems"(2) by linarith
    let ?a = "a[j := P [a ! (2 * j), if 2 * j + 1 < length a then a ! (2 * j + 1) else dv]]"
    have upd: "?a ! j = pair_up P dv xs ! j"
      using True j "1.prems" by (simp add: pair_up_nth)
    have eq: "fill_level P dv j n a = fill_level P dv (Suc j) n ?a"
      using True by (subst fill_level.simps) (simp only: if_True Let_def)
    show ?thesis unfolding eq
    proof (rule "1.IH" [OF True refl refl])
      fix i assume "i < Suc j" "i < n"
      then show "?a ! i = pair_up P dv xs ! i"
        using "1.prems"(3) [of i] upd by (cases "i = j") auto
    qed (use "1.prems" True in auto)
  qed (use "1.prems" in \<open>simp add: fill_level.simps\<close>)
qed

lemma next_level_pair_up: "next_level P dv xs = pair_up P dv xs"
proof (rule nth_equalityI)
  let ?n = "(length xs + 1) div 2"
  have f: "length (fill_level P dv 0 ?n xs) = length xs \<and>
      (\<forall>i < ?n. fill_level P dv 0 ?n xs ! i = pair_up P dv xs ! i)"
    by (rule fill_level_pairs) auto
  then show "length (next_level P dv xs) = length (pair_up P dv xs)"
    by (simp add: next_level_def Let_def)
  fix i assume "i < length (next_level P dv xs)"
  with f show "next_level P dv xs ! i = pair_up P dv xs ! i"
    by (simp add: next_level_def Let_def)
qed

text \<open>A level holds the nodes of the tree up to its length, defaults beyond it.\<close>

definition level_of :: "hash \<Rightarrow> int list \<Rightarrow> nat \<Rightarrow> int list \<Rightarrow> bool" where
  "level_of P leafs l level \<longleftrightarrow>
     (\<forall>i. node P leafs l i = (if i < length level then level ! i else def_at P l))"

lemma level_of_start: "level_of P leafs 0 leafs"
  by (simp add: level_of_def)

lemma level_of_next:
  "level_of P leafs l level \<Longrightarrow> level_of P leafs (Suc l) (next_level P (def_at P l) level)"
  by (auto simp: level_of_def next_level_pair_up pair_up_nth)

lemma level_of_nth:
  "level_of P leafs l level \<Longrightarrow>
   (if i < length level then level ! i else def_at P l) = node P leafs l i"
  by (simp add: level_of_def)

lemma root_loop_node:
  "level_of P leafs l level \<Longrightarrow> l + k \<le> d \<Longrightarrow>
   root_loop P (defaults P d) k l (node P leafs l 0) level = node P leafs (l + k) 0"
proof (induction k arbitrary: l level)
  case (Suc k)
  have "root_loop P (defaults P d) (Suc k) l (node P leafs l 0) level
      = root_loop P (defaults P d) k (Suc l) (P [node P leafs l 0, node P leafs l 1])
          (next_level P (def_at P l) level)"
    using Suc.prems(2) by (simp only: root_loop.simps Let_def defaults_nth
        level_of_nth [OF Suc.prems(1)] add_leD1)
  also have "\<dots> = node P leafs (Suc l + k) 0"
    using Suc.IH [OF level_of_next [OF Suc.prems(1)]] Suc.prems(2) by simp
  finally show ?case by simp
qed simp

section \<open>Proofs\<close>

definition sibling :: "nat \<Rightarrow> nat" where
  "sibling i = (if i mod 2 = 0 then i + 1 else i - 1)"

lemma node_step:
  "node P leafs (Suc l) (i div 2) =
     P (if i mod 2 = 0 then [node P leafs l i, node P leafs l (sibling i)]
        else [node P leafs l (sibling i), node P leafs l i])"
proof (cases "i mod 2 = 0")
  case True
  then show ?thesis by (simp add: sibling_def) (metis even_two_times_div_two even_iff_mod_2_eq_zero)
next
  case False
  then have "2 * (i div 2) = i - 1" "2 * (i div 2) + 1 = i" by presburger+
  then show ?thesis using False by (simp add: sibling_def)
qed

lemma proof_loop_node:
  "level_of P leafs l level \<Longrightarrow> l + k \<le> d \<Longrightarrow>
   proof_loop P (defaults P d) k l (node P leafs l i) i level path pos =
     \<lparr>mp_root = node P leafs (l + k) (i div 2 ^ k),
      mp_path = path @ map (\<lambda>t. node P leafs (l + t) (sibling (i div 2 ^ t))) [0..<k],
      mp_pathPos = pos @ map (\<lambda>t. int (i div 2 ^ t mod 2)) [0..<k]\<rparr>"
proof (induction k arbitrary: l i level path pos)
  case (Suc k)
  have step: "(if i mod 2 = 0 then P [node P leafs l i, node P leafs l (sibling i)]
      else P [node P leafs l (sibling i), node P leafs l i]) = node P leafs (Suc l) (i div 2)"
    by (simp only: node_step if_distrib [of P])
  have halves: "i div 2 div 2 ^ t = i div 2 ^ Suc t" for t
    by (simp add: div_mult2_eq)
  have "proof_loop P (defaults P d) (Suc k) l (node P leafs l i) i level path pos
      = proof_loop P (defaults P d) k (Suc l) (node P leafs (Suc l) (i div 2)) (i div 2)
          (next_level P (def_at P l) level) (path @ [node P leafs l (sibling i)])
          (pos @ [int (i mod 2)])"
    using Suc.prems(2) by (simp only: proof_loop.simps Let_def sibling_def [symmetric]
        defaults_nth level_of_nth [OF Suc.prems(1)] add_leD1 step)
  also have "\<dots> = \<lparr>mp_root = node P leafs (Suc l + k) (i div 2 div 2 ^ k),
      mp_path = (path @ [node P leafs l (sibling i)])
        @ map (\<lambda>t. node P leafs (Suc l + t) (sibling (i div 2 div 2 ^ t))) [0..<k],
      mp_pathPos = (pos @ [int (i mod 2)]) @ map (\<lambda>t. int (i div 2 div 2 ^ t mod 2)) [0..<k]\<rparr>"
    using Suc.prems(2) by (intro Suc.IH level_of_next Suc.prems(1)) simp
  finally show ?case
    by (simp add: halves upt_conv_Cons map_Suc_upt [symmetric] comp_def
        del: upt_Suc power_Suc node.simps)
qed simp

lemma inclusion_node:
  "merkleInclusion P (node P leafs l i)
     (map (\<lambda>t. int (i div 2 ^ t mod 2)) [0..<k])
     (map (\<lambda>t. node P leafs (l + t) (sibling (i div 2 ^ t))) [0..<k])
   = Some (node P leafs (l + k) (i div 2 ^ k))"
proof (induction k arbitrary: l i)
  case (Suc k)
  have halves: "i div 2 ^ Suc t = i div 2 div 2 ^ t" for t
    by (simp add: div_mult2_eq)
  have bit: "int (i mod 2) * (1 - int (i mod 2)) = 0" by (cases "i mod 2 = 0") auto
  have "P (if int (i mod 2) = 0 then [node P leafs l i, node P leafs l (sibling i)]
      else [node P leafs l (sibling i), node P leafs l i]) = node P leafs (Suc l) (i div 2)"
    by (simp add: node_step del: node.simps)
  with Suc.IH [of "Suc l" "i div 2"] bit show ?case
    by (simp add: upt_conv_Cons map_Suc_upt [symmetric] comp_def halves
        del: upt_Suc power_Suc node.simps)
qed simp

section \<open>The interface the voting page relies on\<close>

text \<open>
  A scheme of inclusion proofs: a proof made for a listed leaf is accepted, and yields the
  published root, as long as the list fits.
\<close>

locale inclusion_scheme =
  fixes root :: "'l list \<Rightarrow> int res"
    and prove :: "'l list \<Rightarrow> nat \<Rightarrow> 'p res"
    and check :: "'l \<Rightarrow> 'p \<Rightarrow> int option"
    and cap :: nat
  assumes complete: "i < length ls \<Longrightarrow> length ls \<le> cap \<Longrightarrow>
    \<exists>p r. prove ls i = Inr p \<and> root ls = Inr r \<and> check (ls ! i) p = Some r"
begin

lemma member_accepted:
  assumes "x \<in> set ls" "length ls \<le> cap"
  shows "\<exists>i p r. i < length ls \<and> ls ! i = x \<and> prove ls i = Inr p \<and> root ls = Inr r \<and>
    check x p = Some r"
  using assms complete by (metis in_set_conv_nth)

end

lemma getMerkleProof_node:
  assumes "i < length leafs"
  shows "getMerkleProof P depth leafs i = Inr
    \<lparr>mp_root = node P leafs depth (i div 2 ^ depth),
     mp_path = map (\<lambda>t. node P leafs t (sibling (i div 2 ^ t))) [0..<depth],
     mp_pathPos = map (\<lambda>t. int (i div 2 ^ t mod 2)) [0..<depth]\<rparr>"
  using proof_loop_node [OF level_of_start, where k = depth and d = depth and i = i and P = P
      and leafs = leafs and path = "[]" and pos = "[]"] assms
  by (simp add: getMerkleProof_def at_def)

lemma getMerkleRoot_node:
  "leafs \<noteq> [] \<Longrightarrow> getMerkleRoot P depth leafs = Inr (node P leafs depth 0)"
  using root_loop_node [OF level_of_start, where k = depth and d = depth and P = P
      and leafs = leafs]
  by (simp add: getMerkleRoot_def at_def)

interpretation census_tree: inclusion_scheme "getMerkleRoot P depth" "getMerkleProof P depth"
    "\<lambda>l p. merkleInclusion P l (mp_pathPos p) (mp_path p)" "2 ^ depth" for P depth
proof
  fix i and ls :: "int list"
  assume i: "i < length ls" "length ls \<le> 2 ^ depth"
  then have "i div 2 ^ depth = 0" "ls \<noteq> []" by auto
  with i inclusion_node [of P ls 0 i depth]
  show "\<exists>p r. getMerkleProof P depth ls i = Inr p \<and> getMerkleRoot P depth ls = Inr r \<and>
      merkleInclusion P (ls ! i) (mp_pathPos p) (mp_path p) = Some r"
    by (simp add: getMerkleProof_node getMerkleRoot_node)
qed

section \<open>Properties\<close>

text \<open>
  C33: \<open>getMerkleRoot\<close>, which overwrites one array level after level and keeps only the
  defaults of the empty part, computes the root of the full binary tree of the given depth
  whose missing leaves are \<open>poseidon([0])\<close>; an empty list reads an undefined leaf.
\<close>

theorem getMerkleRoot_full_tree:
  "getMerkleRoot P depth leafs =
     (if leafs = [] then Inl UndefinedArg else Inr (node P leafs depth 0))"
  by (simp add: getMerkleRoot_node) (simp add: getMerkleRoot_def)

text \<open>
  C24: for every listed leaf of a census that fits the tree, \<open>getMerkleProof\<close> returns a proof
  with one element per level that the circuit \<open>MerkleTreeInclusionProof\<close> accepts and maps to
  the very root \<open>getMerkleRoot\<close> publishes.
\<close>

theorem getMerkleProof_accepted:
  assumes "x \<in> set leafs" "length leafs \<le> 2 ^ depth"
  shows "\<exists>i pr. i < length leafs \<and> leafs ! i = x \<and> getMerkleProof P depth leafs i = Inr pr \<and>
    getMerkleRoot P depth leafs = Inr (mp_root pr) \<and>
    length (mp_path pr) = depth \<and> length (mp_pathPos pr) = depth \<and>
    merkleInclusion P x (mp_pathPos pr) (mp_path pr) = Some (mp_root pr)"
proof -
  from census_tree.member_accepted [OF assms, of P] obtain i p r where
    i: "i < length leafs" "leafs ! i = x" and p: "getMerkleProof P depth leafs i = Inr p"
    and r: "getMerkleRoot P depth leafs = Inr r"
      "merkleInclusion P x (mp_pathPos p) (mp_path p) = Some r" by blast
  have "i div 2 ^ depth = 0" "leafs \<noteq> []" using i assms(2) by auto
  with p r i show ?thesis
    by (intro exI [of _ i] exI [of _ p]) (auto simp: getMerkleProof_node getMerkleRoot_node)
qed

theorem getMerkleProof_accepted_witness:
  "\<exists>i pr. i < length [5, 6, 7 :: int] \<and> [5, 6, 7] ! i = (7 :: int) \<and>
    getMerkleProof (\<lambda>xs. 3 + sum_list xs) 2 [5, 6, 7] i = Inr pr \<and>
    getMerkleRoot (\<lambda>xs. 3 + sum_list xs) 2 [5, 6, 7] = Inr (mp_root pr) \<and>
    length (mp_path pr) = 2 \<and> length (mp_pathPos pr) = 2 \<and>
    merkleInclusion (\<lambda>xs. 3 + sum_list xs) 7 (mp_pathPos pr) (mp_path pr) = Some (mp_root pr)"
  by (rule getMerkleProof_accepted) simp_all

text \<open>Two different leaves that are accepted for the same positions and root are a collision.\<close>

lemma inclusion_collision:
  assumes "merkleInclusion P a pos p = Some r" "merkleInclusion P b pos q = Some r" "a \<noteq> b"
  shows "\<exists>x y. x \<noteq> y \<and> length x = 2 \<and> length y = 2 \<and> P x = P y"
  using assms
proof (induction P a pos p arbitrary: b q rule: merkleInclusion.induct)
  case (1 P leaf)
  then show ?case by (cases q) auto
next
  case (2 P leaf c cs e es)
  then obtain f fs where q: "q = f # fs" by (cases q) auto
  let ?x = "if c = 0 then [leaf, e] else [e, leaf]"
  let ?y = "if c = 0 then [b, f] else [f, b]"
  from "2.prems" q have bin: "c * (1 - c) = 0"
    and x: "merkleInclusion P (P ?x) cs es = Some r"
    and y: "merkleInclusion P (P ?y) cs fs = Some r"
    by (auto simp del: mult_eq_0_iff split: if_splits)
  show ?case
  proof (cases "P ?x = P ?y")
    case True
    then show ?thesis using "2.prems"(3) by (intro exI [of _ ?x] exI [of _ ?y]) auto
  next
    case False
    show ?thesis by (rule "2.IH" [OF bin x y False])
  qed
qed simp_all

text \<open>The position that the path indices spell, lowest bit first.\<close>

primrec pos_index :: "int list \<Rightarrow> nat" where
  "pos_index [] = 0"
| "pos_index (b # bs) = nat b + 2 * pos_index bs"

lemma accepted_binary: "merkleInclusion P x pos path = Some r \<Longrightarrow> (\<forall>b \<in> set pos. b = 0 \<or> b = 1) \<and> length path = length pos"
  by (induction P x pos path rule: merkleInclusion.induct) (auto split: if_splits)

lemma pos_index_less: "\<forall>b \<in> set pos. b = 0 \<or> b = 1 \<Longrightarrow> pos_index pos < 2 ^ length pos"
  by (induction pos) auto

lemma pos_index_bits: "\<forall>b \<in> set pos. b = 0 \<or> b = 1 \<Longrightarrow>
    map (\<lambda>t. int (pos_index pos div 2 ^ t mod 2)) [0..<length pos] = pos"
proof (induction pos)
  case (Cons b bs)
  have "b = 0 \<or> b = 1" using Cons.prems by simp
  then have "int (pos_index (b # bs) mod 2) = b" "pos_index (b # bs) div 2 = pos_index bs" by auto
  then show ?case using Cons
    by (simp add: upt_conv_Cons map_Suc_upt [symmetric] comp_def div_mult2_eq del: upt_Suc pos_index.simps)
qed simp

text \<open>
  C32: a proof that the circuit accepts against the root of a census is for a leaf of the census, at
  the position that the proof names; or for the default leaf \<open>poseidon([0])\<close>, at a position behind
  the end of the census; or two different pairs with the same hash can be read off from it.
\<close>

theorem accepted_leaf_is_in_census:
  assumes "getMerkleRoot P depth leafs = Inr r" "length pos = depth" "merkleInclusion P x pos path = Some r"
  shows "(pos_index pos < length leafs \<and> x = leafs ! pos_index pos) \<or>
    (length leafs \<le> pos_index pos \<and> pos_index pos < 2 ^ depth \<and> x = P [0]) \<or>
    (\<exists>a b. a \<noteq> b \<and> length a = 2 \<and> length b = 2 \<and> P a = P b)"
proof -
  let ?i = "pos_index pos"
  have bin: "\<forall>b \<in> set pos. b = 0 \<or> b = 1" using accepted_binary [OF assms(3)] by blast
  have i: "?i < 2 ^ depth" using pos_index_less [OF bin] assms(2) by simp
  have "leafs \<noteq> []" using assms(1) by (auto simp: getMerkleRoot_def)
  then have "r = node P leafs depth 0" using assms(1) by (simp add: getMerkleRoot_node)
  then obtain q where q: "merkleInclusion P (node P leafs 0 ?i) pos q = Some r"
    using inclusion_node [of P leafs 0 ?i depth] pos_index_bits [OF bin] i assms(2) by auto
  show ?thesis
  proof (cases "x = node P leafs 0 ?i")
    case True
    then show ?thesis using i by (cases "?i < length leafs") simp_all
  next
    case False
    then show ?thesis using inclusion_collision [OF assms(3) q] by blast
  qed
qed

theorem accepted_leaf_is_in_census_witness:
  "\<exists>pr. getMerkleProof (\<lambda>xs. 3 + sum_list xs) 2 [5, 6, 7] 2 = Inr pr \<and> pos_index (mp_pathPos pr) = 2 \<and>
    ((pos_index (mp_pathPos pr) < length [5, 6, 7 :: int] \<and> 7 = [5, 6, 7 :: int] ! pos_index (mp_pathPos pr)) \<or>
     (length [5, 6, 7 :: int] \<le> pos_index (mp_pathPos pr) \<and> pos_index (mp_pathPos pr) < 2 ^ 2 \<and> 7 = 3 + sum_list [0 :: int]) \<or>
     (\<exists>a b. a \<noteq> b \<and> length a = 2 \<and> length b = 2 \<and> 3 + sum_list a = 3 + sum_list (b :: int list)))"
proof -
  let ?P = "\<lambda>xs. 3 + sum_list xs :: int"
  have r: "getMerkleRoot ?P 2 [5, 6, 7] = Inr 30" and q: "merkleInclusion ?P 7 [0, 1] [3, 14] = Some 30"
    and p: "getMerkleProof ?P 2 [5, 6, 7] 2 = Inr \<lparr>mp_root = 30, mp_path = [3, 14], mp_pathPos = [0, 1]\<rparr>"
    by code_simp+
  show ?thesis using accepted_leaf_is_in_census [OF r _ q] p by simp
qed

end
