(* ===== verification/TallyVotes.thy ===== *)
theory TallyVotes
  imports Hex MerkleTree "HOL-Library.AList"
begin

text \<open>
  The counting loop of \<open>frontend/src/components/Tally.tsx\<close>: decoding and decrypting one vote,
  checking its re-voting key against the leaf of its nullifier, updating the sparse Merkle
  tree, the leaves and the counts, and collecting the inputs of the circuit. Outside the
  repository, hence parameters (\<open>tally_env\<close>): Poseidon, the scalar multiplication and the
  Poseidon cipher of zk-kit, and the tree \<open>Merkletree\<close> of iden3.
\<close>

definition STATE_DEPTH :: nat where "STATE_DEPTH = 64"
definition MAX_BATCH :: nat where "MAX_BATCH = 6"
definition LIMBS :: nat where "LIMBS = 4"
definition MAX_CHOICES :: nat where "MAX_CHOICES = 11"

section \<open>Data\<close>

record leaf_data =
  lf_choice :: int
  lf_revotingKey :: int
  lf_hash :: int

record vote_row =
  vw_id :: string
  vw_eph_x :: string
  vw_eph_y :: string
  vw_nonce :: string
  vw_ciphertext :: string

record circom_proof =
  cp_fnc :: int
  cp_isOld0 :: bool
  cp_oldKey :: int
  cp_oldValue :: int
  cp_siblings :: "int list"

datatype smt_error = EntryIndexAlreadyExists | SmtError js_error

text \<open>
  The operations of \<open>Merkletree\<close> that the loop calls. A failed operation leaves the tree as
  it was.
\<close>

record 'mt smt =
  smt_new :: 'mt
  smt_add :: "'mt \<Rightarrow> int \<Rightarrow> int \<Rightarrow> smt_error + 'mt"
  smt_addProof :: "'mt \<Rightarrow> int \<Rightarrow> int \<Rightarrow> smt_error + (circom_proof \<times> 'mt)"
  smt_update :: "'mt \<Rightarrow> int \<Rightarrow> int \<Rightarrow> smt_error + (circom_proof \<times> 'mt)"
  smt_gen :: "'mt \<Rightarrow> int \<Rightarrow> smt_error + circom_proof"
  smt_root :: "'mt \<Rightarrow> int"

record 'mt tally_env =
  te_P :: hash
  te_mul :: "int \<times> int \<Rightarrow> int \<Rightarrow> int \<times> int"
  te_decrypt :: "int list \<Rightarrow> int \<times> int \<Rightarrow> int \<Rightarrow> nat \<Rightarrow> int list res"
  te_smt :: "'mt smt"

text \<open>The parallel arrays of circuit inputs.\<close>

record wit =
  w_ephPk :: "(int \<times> int) list"
  w_nonces :: "int list"
  w_ciphertext :: "int list list"
  w_siblings :: "int list list"
  w_choicesOld :: "int list"
  w_revotingKeyOld :: "int list"
  w_noAux :: "int list"
  w_auxKey :: "int list"
  w_auxValue :: "int list"
  w_wasLeafEmpty :: "int list"

definition no_wit :: wit where
  "no_wit = \<lparr>w_ephPk = [], w_nonces = [], w_ciphertext = [], w_siblings = [], w_choicesOld = [],
     w_revotingKeyOld = [], w_noAux = [], w_auxKey = [], w_auxValue = [], w_wasLeafEmpty = []\<rparr>"

text \<open>
  The variables of the loop. \<open>leavesMap\<close> is an object keyed by the decimal text of the index:
  an association list in insertion order.
\<close>

record 'mt tstate =
  ts_mt :: 'mt
  ts_H :: int
  ts_counts :: "int list"
  ts_leaves :: "(int \<times> leaf_data) list"
  ts_wit :: wit

section \<open>Reading a vote\<close>

text \<open>\<open>s.match(/.{1,2}/g) ?? []\<close>: pairs of characters, line terminators skipped.\<close>

definition line_end :: "char \<Rightarrow> bool" where
  "line_end c \<longleftrightarrow> of_char c \<in> {10, 13 :: nat}"

fun match2 :: "string \<Rightarrow> string list" where
  "match2 [] = []"
| "match2 [c] = (if line_end c then [] else [[c]])"
| "match2 (c # d # s) =
     (if line_end c then match2 (d # s)
      else if line_end d then [c] # match2 s
      else [c, d] # match2 s)"

record message =
  ms_R :: "int \<times> int"
  ms_nonce :: int
  ms_ct :: "int list"

definition read_words :: "string \<Rightarrow> int list res" where
  "read_words s =
     (let buf = map (\<lambda>h. byte_of_num (parseInt16 h)) (match2 s)
      in if length buf mod 32 \<noteq> 0 then Inl (Thrown ''bad ciphertext len'')
         else chunk_loop 32 (bytes32ToBig buf) (length buf) 0)"

definition read_vote :: "vote_row \<Rightarrow> message res" where
  "read_vote v =
     rbind (bigint_of_string (''0x'' @ vw_eph_x v)) (\<lambda>x.
     rbind (bigint_of_string (''0x'' @ vw_eph_y v)) (\<lambda>y.
     rbind (bigint_of_string (vw_nonce v)) (\<lambda>nonce.
     rbind (read_words (vw_ciphertext v)) (\<lambda>ct.
       Inr \<lparr>ms_R = (x, y), ms_nonce = nonce, ms_ct = ct\<rparr>))))"

record ballot =
  bl_nu :: int
  bl_choice :: int
  bl_keyOld :: int
  bl_keyNew :: int

text \<open>\<open>const [nu, choice, old, new] = plain\<close>; a missing limb fails where it is used.\<close>

definition decrypt_vote :: "'mt tally_env \<Rightarrow> int \<Rightarrow> message \<Rightarrow> ballot res" where
  "decrypt_vote E tallierSk m =
     rbind (te_decrypt E (ms_ct m) (te_mul E (ms_R m) tallierSk) (ms_nonce m) LIMBS) (\<lambda>plain.
       case plain of
         nu # choice # keyOld # keyNew # _ \<Rightarrow>
           Inr \<lparr>bl_nu = nu, bl_choice = choice, bl_keyOld = keyOld, bl_keyNew = keyNew\<rparr>
       | _ \<Rightarrow> Inl TypeError)"

section \<open>Counting a vote\<close>

definition leaf_index :: "int \<Rightarrow> int" where
  "leaf_index nu = nu AND (push_bit STATE_DEPTH 1 - 1)"

text \<open>
  \<open>tallyCounts[Number(c) - 1] += d\<close>: outside the array the element is undefined, and adding a
  \<open>bigint\<close> to it is a \<open>TypeError\<close>.
\<close>

definition bump :: "int list \<Rightarrow> int \<Rightarrow> int \<Rightarrow> int list res" where
  "bump counts c d =
     (if 1 \<le> c \<and> c \<le> int (length counts)
      then Inr (counts[nat (c - 1) := counts ! nat (c - 1) + d])
      else Inl TypeError)"

definition of_smt :: "smt_error + 'a \<Rightarrow> 'a res" where
  "of_smt r = (case r of
       Inr x \<Rightarrow> Inr x
     | Inl EntryIndexAlreadyExists \<Rightarrow> Inl (Thrown ''the entry index already exists in the tree'')
     | Inl (SmtError e) \<Rightarrow> Inl e)"

text \<open>Insert, and update when the index exists: the proof, the new tree and \<open>wasLeafEmpty\<close>.\<close>

definition add_or_update ::
  "'mt smt \<Rightarrow> 'mt \<Rightarrow> int \<Rightarrow> int \<Rightarrow> (circom_proof \<times> 'mt \<times> int) res" where
  "add_or_update S mt idx leaf = (case smt_addProof S mt idx leaf of
       Inr (proof, mt') \<Rightarrow> Inr (proof, mt', 1)
     | Inl EntryIndexAlreadyExists \<Rightarrow>
         rbind (of_smt (smt_update S mt idx leaf)) (\<lambda>(proof, mt'). Inr (proof, mt', 0))
     | Inl (SmtError e) \<Rightarrow> Inl e)"

definition old_leaf :: "(int \<times> leaf_data) list \<Rightarrow> int \<Rightarrow> int \<times> int" where
  "old_leaf leaves idx = (case map_of leaves idx of
       None \<Rightarrow> (0, HASH0)
     | Some l \<Rightarrow> (lf_choice l, lf_revotingKey l))"

definition move_count :: "int list \<Rightarrow> int \<Rightarrow> int \<Rightarrow> int list res" where
  "move_count counts choiceOld choice =
     rbind (if choiceOld \<noteq> 0 then bump counts choiceOld (- 1) else Inr counts) (\<lambda>counts.
       if choice \<noteq> 0 then bump counts choice 1 else Inr counts)"

definition push_wit ::
  "wit \<Rightarrow> message \<Rightarrow> circom_proof \<Rightarrow> int \<times> int \<Rightarrow> int \<Rightarrow> wit" where
  "push_wit w m proof old wasLeafEmpty =
     \<lparr>w_ephPk = w_ephPk w @ [ms_R m],
      w_nonces = w_nonces w @ [ms_nonce m],
      w_ciphertext = w_ciphertext w @ [ms_ct m],
      w_siblings = w_siblings w @ [cp_siblings proof],
      w_choicesOld = w_choicesOld w @ [fst old],
      w_revotingKeyOld = w_revotingKeyOld w @ [snd old],
      w_noAux = w_noAux w @ [if cp_isOld0 proof then 1 else 0],
      w_auxKey = w_auxKey w @ [cp_oldKey proof],
      w_auxValue = w_auxValue w @ [cp_oldValue proof],
      w_wasLeafEmpty = w_wasLeafEmpty w @ [wasLeafEmpty]\<rparr>"

definition msg_hash :: "hash \<Rightarrow> message \<Rightarrow> int" where
  "msg_hash P m = P ([fst (ms_R m), snd (ms_R m), ms_nonce m] @ ms_ct m)"

text \<open>The body of the loop once the vote is decrypted.\<close>

definition count_vote ::
  "'mt tally_env \<Rightarrow> 'mt tstate \<Rightarrow> message \<times> ballot \<Rightarrow> 'mt tstate res" where
  "count_vote E st mb =
     (let m = fst mb; b = snd mb; S = te_smt E; P = te_P E;
          idx = leaf_index (bl_nu b);
          old = old_leaf (ts_leaves st) idx;
          H = P [ts_H st, msg_hash P m]
      in if snd old = bl_keyOld b then
           let leaf = P [bl_choice b, bl_keyNew b] in
           rbind (add_or_update S (ts_mt st) idx leaf) (\<lambda>(proof, mt, wasLeafEmpty).
           rbind (move_count (ts_counts st) (fst old) (bl_choice b)) (\<lambda>counts.
             Inr \<lparr>ts_mt = mt, ts_H = H, ts_counts = counts,
               ts_leaves = AList.update idx
                 \<lparr>lf_choice = bl_choice b, lf_revotingKey = bl_keyNew b, lf_hash = leaf\<rparr>
                 (ts_leaves st),
               ts_wit = push_wit (ts_wit st) m proof old wasLeafEmpty\<rparr>))
         else
           rbind (of_smt (smt_gen S (ts_mt st) idx)) (\<lambda>proof.
             let proof = proof\<lparr>cp_isOld0 := cp_fnc proof = 1 \<and> cp_oldValue proof = 0\<rparr>;
                 wasLeafEmpty = (if map_of (ts_leaves st) idx \<noteq> None then 0 else 1)
             in Inr (st\<lparr>ts_H := H,
                  ts_wit := push_wit (ts_wit st) m proof old wasLeafEmpty\<rparr>)))"

definition tally_vote :: "'mt tally_env \<Rightarrow> int \<Rightarrow> 'mt tstate \<Rightarrow> vote_row \<Rightarrow> 'mt tstate res" where
  "tally_vote E tallierSk st v =
     rbind (read_vote v) (\<lambda>m. rbind (decrypt_vote E tallierSk m) (\<lambda>b. count_vote E st (m, b)))"

section \<open>Padding\<close>

text \<open>
  \<open>while (ephPk.length < MAX_BATCH)\<close> repeats the last entry of every array. \<open>k\<close> bounds the
  number of iterations.
\<close>

definition push_last :: "'a list \<Rightarrow> 'a list" where
  "push_last xs = xs @ [last xs]"

definition pad_once :: "wit \<Rightarrow> wit" where
  "pad_once w =
     \<lparr>w_ephPk = push_last (w_ephPk w), w_nonces = push_last (w_nonces w),
      w_ciphertext = push_last (w_ciphertext w), w_siblings = push_last (w_siblings w),
      w_choicesOld = push_last (w_choicesOld w),
      w_revotingKeyOld = push_last (w_revotingKeyOld w), w_noAux = push_last (w_noAux w),
      w_auxKey = push_last (w_auxKey w), w_auxValue = push_last (w_auxValue w),
      w_wasLeafEmpty = push_last (w_wasLeafEmpty w)\<rparr>"

function pad_wit :: "wit \<Rightarrow> wit" where
  "pad_wit w = (if length (w_ephPk w) < MAX_BATCH then pad_wit (pad_once w) else w)"
  by pat_completeness auto
termination
  by (relation "measure (\<lambda>w. MAX_BATCH - length (w_ephPk w))") (auto simp: pad_once_def push_last_def)

declare pad_wit.simps [simp del]

end
