(* ===== verification/TallyCorrect.thy ===== *)
theory TallyCorrect
  imports TallyVotes
begin

text \<open>
  What the counting loop guarantees. The contract of the sparse Merkle tree is \<open>smt_law\<close>; the
  abstract election is a \<open>board\<close> that maps each nullifier index to the choice and the
  re-voting key of its last accepted ballot. \<open>tally_inv\<close> ties counts, leaves and tree
  together, every vote keeps it (\<open>tally_loop\<close> interprets the contract of loop bodies), and
  the loop computes the abstract election.
\<close>

section \<open>The contract of the tree\<close>

text \<open>
  What the documentation of the tree promises for keys of the tree's width and field
  elements: insertion fails exactly on an existing key, update needs one, both store the
  value, proofs can be made for every key, and the root depends only on the entries.
\<close>

definition smt_law :: "'mt smt \<Rightarrow> ('mt \<Rightarrow> int \<Rightarrow> int option) \<Rightarrow> bool" where
  "smt_law S \<alpha> \<longleftrightarrow>
     \<alpha> (smt_new S) = Map.empty \<and>
     (\<forall>t k v. 0 \<le> k \<longrightarrow> k < 2 ^ STATE_DEPTH \<longrightarrow> 0 \<le> v \<longrightarrow> v < FP \<longrightarrow>
        (\<alpha> t k = None \<longrightarrow>
           (\<exists>t'. smt_add S t k v = Inr t' \<and> \<alpha> t' = (\<alpha> t)(k \<mapsto> v)) \<and>
           (\<exists>p t'. smt_addProof S t k v = Inr (p, t') \<and> \<alpha> t' = (\<alpha> t)(k \<mapsto> v))) \<and>
        (\<alpha> t k \<noteq> None \<longrightarrow>
           smt_add S t k v = Inl EntryIndexAlreadyExists \<and>
           smt_addProof S t k v = Inl EntryIndexAlreadyExists \<and>
           (\<exists>p t'. smt_update S t k v = Inr (p, t') \<and> \<alpha> t' = (\<alpha> t)(k \<mapsto> v)))) \<and>
     (\<forall>t k. 0 \<le> k \<longrightarrow> k < 2 ^ STATE_DEPTH \<longrightarrow> (\<exists>p. smt_gen S t k = Inr p)) \<and>
     (\<forall>t t'. \<alpha> t = \<alpha> t' \<longrightarrow> smt_root S t = smt_root S t')"

text \<open>Poseidon returns field elements.\<close>

definition hash_law :: "hash \<Rightarrow> bool" where
  "hash_law P \<longleftrightarrow> (\<forall>xs. 0 \<le> P xs \<and> P xs < FP)"

lemma add_or_update_law:
  assumes "smt_law S \<alpha>" "0 \<le> k" "k < 2 ^ STATE_DEPTH" "0 \<le> v" "v < FP"
  shows "\<exists>p t'. add_or_update S t k v = Inr (p, t', if \<alpha> t k = None then 1 else 0) \<and>
    \<alpha> t' = (\<alpha> t)(k \<mapsto> v)"
proof (cases "\<alpha> t k")
  case None
  then obtain p t' where "smt_addProof S t k v = Inr (p, t')" "\<alpha> t' = (\<alpha> t)(k \<mapsto> v)"
    using assms unfolding smt_law_def by metis
  with None show ?thesis by (simp add: add_or_update_def)
next
  case (Some u)
  then have "\<alpha> t k \<noteq> None" by simp
  then obtain p t' where "smt_addProof S t k v = Inl EntryIndexAlreadyExists"
      "smt_update S t k v = Inr (p, t')" "\<alpha> t' = (\<alpha> t)(k \<mapsto> v)"
    using assms unfolding smt_law_def by metis
  with Some show ?thesis by (simp add: add_or_update_def of_smt_def)
qed

lemma leaf_index_mod: "leaf_index nu = nu mod 2 ^ 64"
  using take_bit_eq_mask [of 64 nu]
  by (simp add: leaf_index_def STATE_DEPTH_def take_bit_eq_mod mask_eq_exp_minus_1)

lemma leaf_index_range: "0 \<le> leaf_index nu" "leaf_index nu < 2 ^ STATE_DEPTH"
  by (simp_all add: leaf_index_mod STATE_DEPTH_def)

section \<open>Counts\<close>

text \<open>The number of entries with each choice.\<close>

definition tally_of :: "nat \<Rightarrow> (int \<times> leaf_data) list \<Rightarrow> int list" where
  "tally_of n leaves =
     map (\<lambda>i. int (length (filter (\<lambda>p. lf_choice (snd p) = int i + 1) leaves))) [0..<n]"

lemma length_tally_of [simp]: "length (tally_of n leaves) = n"
  by (simp add: tally_of_def)

lemma tally_of_nonneg: "c \<in> set (tally_of n leaves) \<Longrightarrow> 0 \<le> c"
  by (auto simp: tally_of_def)

lemma filter_update_count:
  "int (length (filter (\<lambda>p. Q (snd p)) (AList.update k v al))) =
   int (length (filter (\<lambda>p. Q (snd p)) al))
     - (case map_of al k of Some u \<Rightarrow> (if Q u then 1 else 0) | None \<Rightarrow> 0)
     + (if Q v then 1 else 0)"
  by (induction al) auto

lemma bump_Inr:
  assumes "1 \<le> c" "c \<le> int (length xs)"
  shows "bump xs c d = Inr (map (\<lambda>i. xs ! i + (if c = int i + 1 then d else 0)) [0..<length xs])"
proof -
  have "xs[nat (c - 1) := xs ! nat (c - 1) + d]
      = map (\<lambda>i. xs ! i + (if c = int i + 1 then d else 0)) [0..<length xs]"
    by (rule nth_equalityI) (use assms in \<open>auto simp: nth_list_update\<close>)
  with assms show ?thesis by (simp add: bump_def)
qed

lemma bump_intro:
  assumes "1 \<le> c" "c \<le> int (length xs)" "length ys = length xs"
    and "\<And>i. i < length xs \<Longrightarrow> ys ! i = xs ! i + (if c = int i + 1 then d else 0)"
  shows "bump xs c d = Inr ys"
proof -
  have "map (\<lambda>i. xs ! i + (if c = int i + 1 then d else 0)) [0..<length xs] = ys"
    by (rule nth_equalityI) (use assms in auto)
  with bump_Inr [OF assms(1,2)] show ?thesis by simp
qed

definition in_choices :: "nat \<Rightarrow> int \<Rightarrow> bool" where
  "in_choices n c \<longleftrightarrow> 0 \<le> c \<and> c \<le> int n"

lemma move_count_tally:
  assumes old: "in_choices n (fst (old_leaf leaves k))"
  shows "in_choices n (lf_choice l) \<Longrightarrow>
      move_count (tally_of n leaves) (fst (old_leaf leaves k)) (lf_choice l)
        = Inr (tally_of n (AList.update k l leaves))"
    and "\<not> in_choices n (lf_choice l) \<Longrightarrow>
      move_count (tally_of n leaves) (fst (old_leaf leaves k)) (lf_choice l) = Inl TypeError"
proof -
  let ?o = "fst (old_leaf leaves k)" and ?c = "lf_choice l"
  define mid where "mid = map (\<lambda>i. tally_of n leaves ! i - (if ?o = int i + 1 then 1 else 0)) [0..<n]"
  have first: "(if ?o \<noteq> 0 then bump (tally_of n leaves) ?o (- 1) else Inr (tally_of n leaves))
      = Inr mid"
  proof (cases "?o = 0")
    case True
    then have "tally_of n leaves = mid" by (intro nth_equalityI) (simp_all add: mid_def)
    with True show ?thesis by simp
  next
    case False
    then have "bump (tally_of n leaves) ?o (- 1) = Inr mid"
      using old by (intro bump_intro) (auto simp: mid_def in_choices_def)
    with False show ?thesis by simp
  qed
  have len: "length mid = n" by (simp add: mid_def)
  have upd: "tally_of n (AList.update k l leaves) ! i = mid ! i + (if ?c = int i + 1 then 1 else 0)"
    if "i < n" for i
    using that filter_update_count [of "\<lambda>x. lf_choice x = int i + 1" k l leaves]
    by (auto simp: tally_of_def mid_def old_leaf_def split: option.splits)
  show "move_count (tally_of n leaves) ?o ?c = Inr (tally_of n (AList.update k l leaves))"
    if "in_choices n ?c"
  proof (cases "?c = 0")
    case True
    then have "mid = tally_of n (AList.update k l leaves)"
      using upd len by (intro nth_equalityI) auto
    with True first show ?thesis by (simp add: move_count_def)
  next
    case False
    then have "bump mid ?c 1 = Inr (tally_of n (AList.update k l leaves))"
      using that upd len by (intro bump_intro) (auto simp: in_choices_def)
    with False first show ?thesis by (simp add: move_count_def)
  qed
  show "move_count (tally_of n leaves) ?o ?c = Inl TypeError" if "\<not> in_choices n ?c"
  proof -
    have "?c \<noteq> 0" "bump mid ?c 1 = Inl TypeError" using that len by (auto simp: in_choices_def bump_def)
    with first show ?thesis by (simp add: move_count_def)
  qed
qed

section \<open>The invariant\<close>

definition tally_inv ::
  "'mt tally_env \<Rightarrow> ('mt \<Rightarrow> int \<Rightarrow> int option) \<Rightarrow> nat \<Rightarrow> 'mt tstate \<Rightarrow> bool" where
  "tally_inv E \<alpha> n st \<longleftrightarrow>
     ts_counts st = tally_of n (ts_leaves st) \<and>
     distinct (map fst (ts_leaves st)) \<and>
     (\<forall>(k, l) \<in> set (ts_leaves st). 0 \<le> k \<and> k < 2 ^ STATE_DEPTH \<and> in_choices n (lf_choice l) \<and>
        lf_hash l = te_P E [lf_choice l, lf_revotingKey l]) \<and>
     \<alpha> (ts_mt st) = map_option lf_hash \<circ> map_of (ts_leaves st)"

lemma set_update_sub: "set (AList.update k v al) \<subseteq> insert (k, v) (set al)"
  by (induction al) auto

lemma old_leaf_choice:
  "tally_inv E \<alpha> n st \<Longrightarrow> in_choices n (fst (old_leaf (ts_leaves st) k))"
  by (auto simp: tally_inv_def old_leaf_def in_choices_def dest!: map_of_SomeD split: option.splits)

text \<open>
  One vote, on every branch: accepted with a valid choice, accepted with an invalid choice
  (which fails), rejected.
\<close>

definition new_leaf :: "'mt tally_env \<Rightarrow> ballot \<Rightarrow> leaf_data" where
  "new_leaf E b = \<lparr>lf_choice = bl_choice b, lf_revotingKey = bl_keyNew b,
     lf_hash = te_P E [bl_choice b, bl_keyNew b]\<rparr>"

lemma count_vote_accepted:
  assumes inv: "tally_inv E \<alpha> n st" and S: "smt_law (te_smt E) \<alpha>" and P: "hash_law (te_P E)"
    and acc: "snd (old_leaf (ts_leaves st) (leaf_index (bl_nu b))) = bl_keyOld b"
  shows "in_choices n (bl_choice b) \<Longrightarrow> \<exists>p t'.
      count_vote E st (m, b) = Inr \<lparr>ts_mt = t', ts_H = te_P E [ts_H st, msg_hash (te_P E) m],
        ts_counts = tally_of n (AList.update (leaf_index (bl_nu b)) (new_leaf E b) (ts_leaves st)),
        ts_leaves = AList.update (leaf_index (bl_nu b)) (new_leaf E b) (ts_leaves st),
        ts_wit = push_wit (ts_wit st) m p (old_leaf (ts_leaves st) (leaf_index (bl_nu b)))
          (if map_of (ts_leaves st) (leaf_index (bl_nu b)) = None then 1 else 0)\<rparr> \<and>
      \<alpha> t' = map_option lf_hash
        \<circ> map_of (AList.update (leaf_index (bl_nu b)) (new_leaf E b) (ts_leaves st))"
    and "\<not> in_choices n (bl_choice b) \<Longrightarrow> count_vote E st (m, b) = Inl TypeError"
proof -
  let ?k = "leaf_index (bl_nu b)" and ?l = "new_leaf E b"
  have leaf: "0 \<le> lf_hash ?l" "lf_hash ?l < FP" using P by (simp_all add: hash_law_def new_leaf_def)
  obtain p t' where au: "add_or_update (te_smt E) (ts_mt st) ?k (lf_hash ?l)
      = Inr (p, t', if \<alpha> (ts_mt st) ?k = None then 1 else 0)"
      and t': "\<alpha> t' = (\<alpha> (ts_mt st))(?k \<mapsto> lf_hash ?l)"
    using add_or_update_law [OF S leaf_index_range leaf] by blast
  have c: "ts_counts st = tally_of n (ts_leaves st)"
    and a: "\<alpha> (ts_mt st) = map_option lf_hash \<circ> map_of (ts_leaves st)"
    using inv by (simp_all add: tally_inv_def)
  have t'': "\<alpha> t' = map_option lf_hash \<circ> map_of (AList.update ?k ?l (ts_leaves st))"
    by (simp add: t' a fun_eq_iff update_conv')
  have wle: "(if \<alpha> (ts_mt st) ?k = None then 1 else 0 :: int)
      = (if map_of (ts_leaves st) ?k = None then 1 else 0)"
    by (simp add: a)
  have cv: "count_vote E st (m, b) = rbind
      (move_count (tally_of n (ts_leaves st)) (fst (old_leaf (ts_leaves st) ?k)) (lf_choice ?l))
      (\<lambda>counts. Inr \<lparr>ts_mt = t', ts_H = te_P E [ts_H st, msg_hash (te_P E) m],
        ts_counts = counts, ts_leaves = AList.update ?k ?l (ts_leaves st),
        ts_wit = push_wit (ts_wit st) m p (old_leaf (ts_leaves st) ?k)
          (if map_of (ts_leaves st) ?k = None then 1 else 0)\<rparr>)"
    using acc au wle c by (simp add: count_vote_def Let_def new_leaf_def)
  note old = old_leaf_choice [OF inv, of ?k]
  have ch: "lf_choice ?l = bl_choice b" by (simp add: new_leaf_def)
  show "\<not> in_choices n (bl_choice b) \<Longrightarrow> count_vote E st (m, b) = Inl TypeError"
    using move_count_tally(2) [OF old, of ?l] ch by (simp add: cv)
  assume "in_choices n (bl_choice b)"
  then show "\<exists>p t'. count_vote E st (m, b) = Inr \<lparr>ts_mt = t',
        ts_H = te_P E [ts_H st, msg_hash (te_P E) m],
        ts_counts = tally_of n (AList.update ?k ?l (ts_leaves st)),
        ts_leaves = AList.update ?k ?l (ts_leaves st),
        ts_wit = push_wit (ts_wit st) m p (old_leaf (ts_leaves st) ?k)
          (if map_of (ts_leaves st) ?k = None then 1 else 0)\<rparr> \<and>
      \<alpha> t' = map_option lf_hash \<circ> map_of (AList.update ?k ?l (ts_leaves st))"
    using move_count_tally(1) [OF old, of ?l] ch t'' by (auto simp: cv)
qed

lemma count_vote_rejected:
  assumes S: "smt_law (te_smt E) \<alpha>"
    and rej: "snd (old_leaf (ts_leaves st) (leaf_index (bl_nu b))) \<noteq> bl_keyOld b"
  shows "\<exists>p. count_vote E st (m, b) =
    Inr (st\<lparr>ts_H := te_P E [ts_H st, msg_hash (te_P E) m],
      ts_wit := push_wit (ts_wit st) m p (old_leaf (ts_leaves st) (leaf_index (bl_nu b)))
        (if map_of (ts_leaves st) (leaf_index (bl_nu b)) = None then 1 else 0)\<rparr>)"
proof -
  obtain p where "smt_gen (te_smt E) (ts_mt st) (leaf_index (bl_nu b)) = Inr p"
    using S leaf_index_range unfolding smt_law_def by metis
  with rej show ?thesis by (auto simp: count_vote_def Let_def of_smt_def)
qed

lemma count_vote_inv:
  assumes inv: "tally_inv E \<alpha> n st" and S: "smt_law (te_smt E) \<alpha>" and P: "hash_law (te_P E)"
    and st': "count_vote E st (m, b) = Inr st'"
  shows "tally_inv E \<alpha> n st'"
proof (cases "snd (old_leaf (ts_leaves st) (leaf_index (bl_nu b))) = bl_keyOld b")
  case True
  then have "in_choices n (bl_choice b)" using count_vote_accepted(2) [OF inv S P True, of m] st' by auto
  from count_vote_accepted(1) [OF inv S P True this, of m] st'
  show ?thesis
    using inv set_update_sub [of "leaf_index (bl_nu b)" "new_leaf E b" "ts_leaves st"]
      leaf_index_range [of "bl_nu b"] \<open>in_choices n (bl_choice b)\<close>
    by (auto simp: tally_inv_def distinct_update new_leaf_def)
next
  case False
  from count_vote_rejected [OF S False, of m] st' inv show ?thesis by (auto simp: tally_inv_def)
qed

text \<open>The loop of the panel keeps the invariant: the contract of loop bodies applies.\<close>

definition tally_state_ok ::
  "'mt tally_env \<Rightarrow> ('mt \<Rightarrow> int \<Rightarrow> int option) \<Rightarrow> nat \<Rightarrow> 'mt tstate \<Rightarrow> bool" where
  "tally_state_ok E \<alpha> n st \<longleftrightarrow> smt_law (te_smt E) \<alpha> \<and> hash_law (te_P E) \<and> tally_inv E \<alpha> n st"

interpretation tally_loop: step_machine "tally_vote E tallierSk" "tally_state_ok E \<alpha> n"
  for E :: "'mt tally_env" and tallierSk \<alpha> n
  by unfold_locales
    (auto simp: tally_vote_def tally_state_ok_def rbind_eq_Inr intro: count_vote_inv)

section \<open>The abstract election\<close>

type_synonym board = "int \<Rightarrow> (int \<times> int) option"

definition current :: "board \<Rightarrow> int \<Rightarrow> int \<times> int" where
  "current bd k = (case bd k of None \<Rightarrow> (0, HASH0) | Some ck \<Rightarrow> ck)"

text \<open>
  A ballot is accepted when it presents the current re-voting key of its nullifier index;
  it then replaces the choice and the key.
\<close>

definition cast_ballot :: "board \<Rightarrow> ballot \<Rightarrow> board" where
  "cast_ballot bd b = (let k = bl_nu b mod 2 ^ 64 in
     if snd (current bd k) = bl_keyOld b then bd(k \<mapsto> (bl_choice b, bl_keyNew b)) else bd)"

definition result :: "nat \<Rightarrow> board \<Rightarrow> int list" where
  "result n bd = map (\<lambda>i. int (card {k. \<exists>r. bd k = Some (int i + 1, r)})) [0..<n]"

definition board_of :: "(int \<times> leaf_data) list \<Rightarrow> board" where
  "board_of leaves k = map_option (\<lambda>l. (lf_choice l, lf_revotingKey l)) (map_of leaves k)"

lemma current_board_of: "current (board_of leaves) k = old_leaf leaves k"
  by (simp add: current_def board_of_def old_leaf_def split: option.splits)

lemma tally_of_result: "distinct (map fst leaves) \<Longrightarrow> tally_of n leaves = result n (board_of leaves)"
proof -
  assume d: "distinct (map fst leaves)"
  have "length (filter (\<lambda>p. lf_choice (snd p) = c) leaves)
      = card {k. \<exists>r. board_of leaves k = Some (c, r)}" for c
  proof -
    let ?f = "filter (\<lambda>p. lf_choice (snd p) = c) leaves"
    have "distinct (map fst ?f)" using d by (rule distinct_map_filter)
    then have "length ?f = card (fst ` set ?f)" by (metis distinct_card length_map set_map)
    moreover have "fst ` set ?f = {k. \<exists>r. board_of leaves k = Some (c, r)}"
      using d by (force simp: board_of_def dest: map_of_SomeD)
    ultimately show ?thesis by simp
  qed
  then show ?thesis by (simp add: tally_of_def result_def)
qed

text \<open>The votes of a batch, read and decrypted.\<close>

definition open_vote :: "'mt tally_env \<Rightarrow> int \<Rightarrow> vote_row \<Rightarrow> (message \<times> ballot) res" where
  "open_vote E tallierSk v =
     rbind (read_vote v) (\<lambda>m. rbind (decrypt_vote E tallierSk m) (\<lambda>b. Inr (m, b)))"

lemma tally_vote_open:
  "tally_vote E sk st v = rbind (open_vote E sk v) (count_vote E st)"
  by (simp add: tally_vote_def open_vote_def rbind_assoc)

lemma cast_ballot_leaf: "cast_ballot bd b = (let k = leaf_index (bl_nu b) in
    if snd (current bd k) = bl_keyOld b then bd(k \<mapsto> (bl_choice b, bl_keyNew b)) else bd)"
  by (simp add: cast_ballot_def leaf_index_mod)

lemma count_vote_board:
  assumes inv: "tally_inv E \<alpha> n st" and S: "smt_law (te_smt E) \<alpha>" and P: "hash_law (te_P E)"
    and c: "in_choices n (bl_choice b)"
  shows "\<exists>st'. count_vote E st (m, b) = Inr st' \<and>
    board_of (ts_leaves st') = cast_ballot (board_of (ts_leaves st)) b \<and>
    ts_H st' = te_P E [ts_H st, msg_hash (te_P E) m]"
proof (cases "snd (old_leaf (ts_leaves st) (leaf_index (bl_nu b))) = bl_keyOld b")
  case True
  from count_vote_accepted(1) [OF inv S P True c, of m] obtain st' where
    st': "count_vote E st (m, b) = Inr st'" "ts_H st' = te_P E [ts_H st, msg_hash (te_P E) m]"
      "ts_leaves st' = AList.update (leaf_index (bl_nu b)) (new_leaf E b) (ts_leaves st)"
    by auto
  then have "board_of (ts_leaves st')
      = (board_of (ts_leaves st))(leaf_index (bl_nu b) \<mapsto> (bl_choice b, bl_keyNew b))"
    by (simp add: fun_eq_iff board_of_def update_conv' new_leaf_def)
  with st' True show ?thesis by (simp add: cast_ballot_leaf current_board_of Let_def)
next
  case False
  from count_vote_rejected [OF S False, of m] False show ?thesis
    by (auto simp: cast_ballot_leaf current_board_of Let_def)
qed

section \<open>Reading ciphertexts\<close>

lemma line_end_digit [simp]: "0 \<le> d \<Longrightarrow> d < 16 \<Longrightarrow> \<not> line_end (digit_char d)"
  using int_lt_16_cases [of d] by (auto simp: line_end_def digit_char_def)

lemma byte_hex_pair:
  "byte_hex b = [digit_char (uint b div 16 mod 16), digit_char (uint b mod 16)]"
  by (simp add: byte_hex_digits be_digits_two)

lemma match2_hex: "match2 (concat (map byte_hex bs)) = map byte_hex bs"
  by (induction bs) (simp_all add: byte_hex_pair)

lemma parse_byte_hex: "byte_of_num (parseInt16 (byte_hex b)) = b"
proof -
  have "parseInt16 (byte_hex b) = Some (be_val 16 (be_digits 16 2 (uint b)))"
    unfolding byte_hex_digits by (rule parseInt16_digits) (simp_all add: be_digits_two)
  then show ?thesis using byte_range [of b] by (simp add: byte_of_num_def be_val_be_digits)
qed

lemma toHex32_bytes: "0 \<le> n \<Longrightarrow> n < FP \<Longrightarrow> toHex32 n = concat (map byte_hex (toBytesBE32 n))"
  by (simp add: toHex32_def toBytesBE32_def toBytesBE32Buf_def js_norm_eq)

lemma read_words_toHex32:
  assumes "\<forall>w \<in> set ws. 0 \<le> w \<and> w < FP"
  shows "read_words (concat (map toHex32 ws)) = Inr ws"
proof -
  let ?bs = "concat (map toBytesBE32 ws)"
  have "concat (map toHex32 ws) = concat (map byte_hex ?bs)"
    using assms by (induction ws) (simp_all add: toHex32_bytes)
  then have buf: "map (\<lambda>h. byte_of_num (parseInt16 h)) (match2 (concat (map toHex32 ws))) = ?bs"
    by (simp add: match2_hex parse_byte_hex comp_def)
  have len: "length ?bs mod 32 = 0" using be32.length_concat_enc [of ws] by simp
  have "chunk_loop 32 (bytes32ToBig ?bs) (length ?bs) 0 = Inr ws"
    using assms by (intro be32.chunk_loop_concat) auto
  then show ?thesis by (simp only: read_words_def buf Let_def len) simp
qed

end
