(* ===== verification/TallyProps.thy ===== *)
theory TallyProps
  imports TallyCorrect "HOL-Library.While_Combinator"
begin

text \<open>
  The properties of a batch: it computes the abstract election, keeps the invariant, counts
  each nullifier once, ignores ballots with a stale key, and hands the circuit inputs that
  satisfy its constraints on empty leaves.
\<close>

section \<open>Batches\<close>

lemma mapM_Cons_Inr:
  "mapM f (x # xs) = Inr ys \<longleftrightarrow> (\<exists>y zs. f x = Inr y \<and> mapM f xs = Inr zs \<and> ys = y # zs)"
  by (auto simp: rbind_eq_Inr)

lemma batch_election:
  assumes S: "smt_law (te_smt E) \<alpha>" and P: "hash_law (te_P E)"
  shows "tally_inv E \<alpha> n st \<Longrightarrow> mapM (open_vote E sk) rows = Inr mbs \<Longrightarrow>
    \<forall>mb \<in> set mbs. in_choices n (bl_choice (snd mb)) \<Longrightarrow>
    \<exists>st'. foldM (tally_vote E sk) st rows = Inr st' \<and> tally_inv E \<alpha> n st' \<and>
      board_of (ts_leaves st') = foldl cast_ballot (board_of (ts_leaves st)) (map snd mbs) \<and>
      ts_H st' = foldl (\<lambda>h m. te_P E [h, msg_hash (te_P E) m]) (ts_H st) (map fst mbs)"
proof (induction rows arbitrary: st mbs)
  case (Cons r rows)
  obtain m b zs where o: "open_vote E sk r = Inr (m, b)" "mapM (open_vote E sk) rows = Inr zs"
      "mbs = (m, b) # zs"
    using Cons.prems(2) unfolding mapM_Cons_Inr by force
  obtain u where u: "count_vote E st (m, b) = Inr u"
      "board_of (ts_leaves u) = cast_ballot (board_of (ts_leaves st)) b"
      "ts_H u = te_P E [ts_H st, msg_hash (te_P E) m]"
    using count_vote_board [OF Cons.prems(1) S P, of b m] Cons.prems(3) o(3) by auto
  have "tally_inv E \<alpha> n u" using count_vote_inv [OF Cons.prems(1) S P u(1)] .
  from Cons.IH [OF this o(2)] Cons.prems(3) o u show ?case by (auto simp: tally_vote_open)
qed simp

text \<open>Without a condition on the choices: what a run that did not throw has computed.\<close>

lemma count_vote_ok:
  assumes inv: "tally_inv E \<alpha> n st" and S: "smt_law (te_smt E) \<alpha>" and P: "hash_law (te_P E)"
    and ok: "count_vote E st (m, b) = Inr u"
  shows "tally_inv E \<alpha> n u" "board_of (ts_leaves u) = cast_ballot (board_of (ts_leaves st)) b"
    "ts_H u = te_P E [ts_H st, msg_hash (te_P E) m]"
proof -
  show "tally_inv E \<alpha> n u" using count_vote_inv [OF inv S P ok] .
  have "board_of (ts_leaves u) = cast_ballot (board_of (ts_leaves st)) b \<and>
      ts_H u = te_P E [ts_H st, msg_hash (te_P E) m]"
  proof (cases "snd (old_leaf (ts_leaves st) (leaf_index (bl_nu b))) = bl_keyOld b")
    case True
    with ok have "in_choices n (bl_choice b)" using count_vote_accepted(2) [OF inv S P True, of m] by auto
    with count_vote_board [OF inv S P, of b m] ok show ?thesis by auto
  next
    case False
    from count_vote_rejected [OF S False, of m] False ok show ?thesis
      by (auto simp: cast_ballot_leaf current_board_of Let_def)
  qed
  then show "board_of (ts_leaves u) = cast_ballot (board_of (ts_leaves st)) b"
    "ts_H u = te_P E [ts_H st, msg_hash (te_P E) m]" by auto
qed

lemma batch_ok:
  assumes S: "smt_law (te_smt E) \<alpha>" and P: "hash_law (te_P E)"
  shows "tally_inv E \<alpha> n st \<Longrightarrow> foldM (tally_vote E sk) st rows = Inr st' \<Longrightarrow>
    \<exists>mbs. mapM (open_vote E sk) rows = Inr mbs \<and> tally_inv E \<alpha> n st' \<and>
      board_of (ts_leaves st') = foldl cast_ballot (board_of (ts_leaves st)) (map snd mbs) \<and>
      ts_H st' = foldl (\<lambda>h m. te_P E [h, msg_hash (te_P E) m]) (ts_H st) (map fst mbs)"
proof (induction rows arbitrary: st)
  case (Cons r rows)
  obtain u where step: "tally_vote E sk st r = Inr u"
      and rest: "foldM (tally_vote E sk) u rows = Inr st'"
    using Cons.prems(2) by (auto simp: rbind_eq_Inr)
  obtain m b where mb: "open_vote E sk r = Inr (m, b)" and u: "count_vote E st (m, b) = Inr u"
    using step by (auto simp: tally_vote_open rbind_eq_Inr)
  note ok = count_vote_ok [OF Cons.prems(1) S P u]
  from Cons.IH [OF ok(1) rest] ok(2,3) mb show ?case by auto
qed simp

lemma result_board_counts:
  "tally_inv E \<alpha> n st \<Longrightarrow> ts_counts st = result n (board_of (ts_leaves st))"
  by (simp add: tally_inv_def tally_of_result)

lemma dom_cast: "dom (foldl cast_ballot bd bs) \<subseteq> dom bd \<union> (leaf_index \<circ> bl_nu) ` set bs"
proof (induction bs arbitrary: bd)
  case (Cons b bs)
  have "dom (cast_ballot bd b) \<subseteq> insert (leaf_index (bl_nu b)) (dom bd)"
    by (auto simp: cast_ballot_leaf Let_def split: if_splits)
  then show ?case using Cons [of "cast_ballot bd b"] by simp blast
qed simp

lemma sum_result_le: "finite (dom bd) \<Longrightarrow> sum_list (result n bd) \<le> int (card (dom bd))"
proof -
  assume fin: "finite (dom bd)"
  let ?A = "\<lambda>i. {k. \<exists>r. bd k = Some (int i + 1, r)}"
  have sub: "?A i \<subseteq> dom bd" for i by auto
  have "sum_list (result n bd) = int (\<Sum>i<n. card (?A i))"
    unfolding result_def by (induction n) (simp_all add: lessThan_Suc)
  also have "(\<Sum>i<n. card (?A i)) = card (\<Union>i<n. ?A i)"
    using fin sub by (subst card_UN_disjoint) (auto intro: finite_subset)
  also have "\<dots> \<le> card (dom bd)" using fin by (intro card_mono) auto
  finally show ?thesis by simp
qed

section \<open>Inputs of the circuit\<close>

text \<open>All the parallel arrays have \<open>k\<close> entries, and an entry for an empty leaf is zeroed.\<close>

definition wit_len :: "wit \<Rightarrow> nat \<Rightarrow> bool" where
  "wit_len w k \<longleftrightarrow> length (w_ephPk w) = k \<and> length (w_nonces w) = k \<and>
     length (w_ciphertext w) = k \<and> length (w_siblings w) = k \<and> length (w_choicesOld w) = k \<and>
     length (w_revotingKeyOld w) = k \<and> length (w_noAux w) = k \<and> length (w_auxKey w) = k \<and>
     length (w_auxValue w) = k \<and> length (w_wasLeafEmpty w) = k"

definition wit_empty_ok :: "wit \<Rightarrow> bool" where
  "wit_empty_ok w \<longleftrightarrow> (\<forall>i < length (w_wasLeafEmpty w).
     w_wasLeafEmpty w ! i * w_choicesOld w ! i = 0 \<and>
     w_wasLeafEmpty w ! i * (w_revotingKeyOld w ! i - HASH0) = 0)"

lemma wit_push:
  assumes "wit_len w k" "wit_empty_ok w" "e = 1 \<Longrightarrow> old = (0, HASH0)" "e = 0 \<or> e = 1"
  shows "wit_len (push_wit w m p old e) (Suc k) \<and> wit_empty_ok (push_wit w m p old e)"
  using assms by (auto simp: wit_len_def wit_empty_ok_def push_wit_def nth_append less_Suc_eq)

lemma old_leaf_None: "map_of leaves k = None \<Longrightarrow> old_leaf leaves k = (0, HASH0)"
  by (simp add: old_leaf_def)

lemma count_vote_wit:
  assumes inv: "tally_inv E \<alpha> n st" and S: "smt_law (te_smt E) \<alpha>" and P: "hash_law (te_P E)"
    and st': "count_vote E st (m, b) = Inr st'"
  shows "\<exists>p. ts_wit st' = push_wit (ts_wit st) m p (old_leaf (ts_leaves st) (leaf_index (bl_nu b)))
    (if map_of (ts_leaves st) (leaf_index (bl_nu b)) = None then 1 else 0)"
proof (cases "snd (old_leaf (ts_leaves st) (leaf_index (bl_nu b))) = bl_keyOld b")
  case True
  then have "in_choices n (bl_choice b)" using count_vote_accepted(2) [OF inv S P True, of m] st' by auto
  from count_vote_accepted(1) [OF inv S P True this, of m] st' show ?thesis by auto
next
  case False
  from count_vote_rejected [OF S False, of m] st' show ?thesis by auto
qed

lemma batch_wit:
  assumes S: "smt_law (te_smt E) \<alpha>" and P: "hash_law (te_P E)"
  shows "tally_inv E \<alpha> n st \<Longrightarrow> foldM (tally_vote E sk) st rows = Inr st' \<Longrightarrow>
    wit_len (ts_wit st) k \<Longrightarrow> wit_empty_ok (ts_wit st) \<Longrightarrow>
    wit_len (ts_wit st') (k + length rows) \<and> wit_empty_ok (ts_wit st')"
proof (induction rows arbitrary: st k)
  case (Cons r rows)
  obtain u where step: "tally_vote E sk st r = Inr u"
      and rest: "foldM (tally_vote E sk) u rows = Inr st'"
    using Cons.prems(2) by (auto simp: rbind_eq_Inr)
  obtain m b where u: "count_vote E st (m, b) = Inr u"
    using step by (auto simp: tally_vote_open rbind_eq_Inr)
  obtain p where w: "ts_wit u = push_wit (ts_wit st) m p
      (old_leaf (ts_leaves st) (leaf_index (bl_nu b)))
      (if map_of (ts_leaves st) (leaf_index (bl_nu b)) = None then 1 else 0)"
    using count_vote_wit [OF Cons.prems(1) S P u] ..
  have "wit_len (ts_wit u) (Suc k) \<and> wit_empty_ok (ts_wit u)"
    unfolding w using Cons.prems(3,4) by (rule wit_push) (auto intro: old_leaf_None split: if_splits)
  with Cons.IH [OF count_vote_inv [OF Cons.prems(1) S P u] rest] show ?case by force
qed simp

lemma push_last_nth: "length xs = Suc j \<Longrightarrow> push_last xs = xs @ [xs ! j]"
  by (cases "xs = []") (use last_conv_nth [of xs] in \<open>simp_all add: push_last_def\<close>)

lemma wit_pad_once:
  "0 < k \<Longrightarrow> wit_len w k \<Longrightarrow> wit_len (pad_once w) (Suc k) \<and> (wit_empty_ok w \<longrightarrow> wit_empty_ok (pad_once w))"
  by (cases k) (auto simp: wit_len_def pad_once_def push_last_nth wit_empty_ok_def nth_append less_Suc_eq)

lemma wit_pad:
  "0 < k \<Longrightarrow> k \<le> MAX_BATCH \<Longrightarrow> wit_len w k \<Longrightarrow> wit_empty_ok w \<Longrightarrow>
   wit_len (pad_wit w) MAX_BATCH \<and> wit_empty_ok (pad_wit w)"
proof (induction w arbitrary: k rule: pad_wit.induct)
  case (1 w)
  have len: "length (w_ephPk w) = k" using 1(4) by (simp add: wit_len_def)
  show ?case
  proof (cases "k < MAX_BATCH")
    case True
    with len have "pad_wit w = pad_wit (pad_once w)" by (subst pad_wit.simps) simp
    moreover have "wit_len (pad_once w) (Suc k)" "wit_empty_ok (pad_once w)"
      using wit_pad_once 1 by auto
    ultimately show ?thesis using 1(1) [of "Suc k"] True len by simp
  next
    case False
    with len have "pad_wit w = w" by (subst pad_wit.simps) simp
    with False 1 show ?thesis by simp
  qed
qed

section \<open>A concrete environment\<close>

text \<open>
  The tree as the map it denotes, the sum as the hash, and a cipher that sends the plain text:
  the instance on which the properties are applied.
\<close>

definition plain_proof :: circom_proof where
  "plain_proof = \<lparr>cp_fnc = 0, cp_isOld0 = False, cp_oldKey = 0, cp_oldValue = 0, cp_siblings = []\<rparr>"

definition map_smt :: "(int \<Rightarrow> int option) smt" where
  "map_smt = \<lparr>smt_new = Map.empty,
     smt_add = (\<lambda>t k v. if t k = None then Inr (t(k \<mapsto> v)) else Inl EntryIndexAlreadyExists),
     smt_addProof = (\<lambda>t k v. if t k = None then Inr (plain_proof, t(k \<mapsto> v))
       else Inl EntryIndexAlreadyExists),
     smt_update = (\<lambda>t k v. Inr (plain_proof, t(k \<mapsto> v))),
     smt_gen = (\<lambda>t k. Inr plain_proof),
     smt_root = (\<lambda>t. 0)\<rparr>"

lemma map_smt_law: "smt_law map_smt (\<lambda>t. t)"
  by (auto simp: smt_law_def map_smt_def)

definition plain_env :: "(int \<Rightarrow> int option) tally_env" where
  "plain_env = \<lparr>te_P = (\<lambda>xs. sum_list xs mod FP), te_mul = (\<lambda>R s. R),
     te_decrypt = (\<lambda>ct shared nonce k. Inr (take k ct)), te_smt = map_smt\<rparr>"

lemma plain_env_law: "smt_law (te_smt plain_env) (\<lambda>t. t)" "hash_law (te_P plain_env)"
  by (simp_all add: plain_env_def map_smt_law hash_law_def FP_def)

definition empty_start :: "nat \<Rightarrow> (int \<Rightarrow> int option) tstate" where
  "empty_start n = \<lparr>ts_mt = Map.empty, ts_H = 0, ts_counts = replicate n 0, ts_leaves = [],
     ts_wit = no_wit\<rparr>"

lemma empty_start_inv: "tally_inv plain_env (\<lambda>t. t) n (empty_start n)"
  by (simp add: tally_inv_def empty_start_def tally_of_def map_replicate_trivial fun_eq_iff)

definition plain_row :: "string \<Rightarrow> int list \<Rightarrow> vote_row" where
  "plain_row i ws = \<lparr>vw_id = i, vw_eph_x = ''1'', vw_eph_y = ''2'', vw_nonce = ''7'',
     vw_ciphertext = concat (map toHex32 ws)\<rparr>"

lemma open_plain_row:
  assumes "0 \<le> nu" "nu < FP" "0 \<le> c" "c < FP" "0 \<le> k" "k < FP" "0 \<le> k'" "k' < FP"
  shows "open_vote plain_env sk (plain_row i [nu, c, k, k']) =
    Inr (\<lparr>ms_R = (1, 2), ms_nonce = 7, ms_ct = [nu, c, k, k']\<rparr>,
      \<lparr>bl_nu = nu, bl_choice = c, bl_keyOld = k, bl_keyNew = k'\<rparr>)"
proof -
  have n: "bigint_of_string ''0x1'' = Inr 1" "bigint_of_string ''0x2'' = Inr 2"
      "bigint_of_string ''7'' = Inr 7"
    by code_simp+
  have "read_words (concat (map toHex32 [nu, c, k, k'])) = Inr [nu, c, k, k']"
    by (rule read_words_toHex32) (use assms in auto)
  with n show ?thesis
    by (simp add: open_vote_def read_vote_def decrypt_vote_def plain_row_def plain_env_def LIMBS_def)
qed

definition revote_rows :: "vote_row list" where
  "revote_rows = [plain_row ''1'' [5, 2, HASH0, 77], plain_row ''2'' [5, 1, 77, 88],
     plain_row ''3'' [5, 2, 77, 99]]"

definition revote_ballots :: "(message \<times> ballot) list" where
  "revote_ballots = map (\<lambda>(c, k, k'). (\<lparr>ms_R = (1, 2), ms_nonce = 7, ms_ct = [5, c, k, k']\<rparr>,
     \<lparr>bl_nu = 5, bl_choice = c, bl_keyOld = k, bl_keyNew = k'\<rparr>))
     [(2, HASH0, 77), (1, 77, 88), (2, 77, 99)]"

lemma HASH0_range: "0 \<le> HASH0" "HASH0 < FP" "HASH0 \<noteq> 77" "HASH0 \<noteq> 88"
  by (simp_all add: HASH0_def FP_def)

lemma small_FP: "n < 1000 \<Longrightarrow> n < FP"
  by (simp add: FP_def)

lemma open_revote: "mapM (open_vote plain_env sk) revote_rows = Inr revote_ballots"
  by (simp add: revote_rows_def revote_ballots_def open_plain_row HASH0_range small_FP)

section \<open>Properties\<close>

text \<open>
  C1: counting a batch of readable votes whose choices are on the ballot succeeds and computes
  the abstract election: the leaves denote the board after casting the ballots in order, the
  counts are the result of that board, the tree holds exactly the leaf hashes, and the running
  hash folds the message hashes of every vote, rejected ones too.
\<close>

theorem batch_computes_election:
  assumes "smt_law (te_smt E) \<alpha>" "hash_law (te_P E)" "tally_inv E \<alpha> n st"
    and "mapM (open_vote E sk) rows = Inr mbs"
    and "\<forall>mb \<in> set mbs. in_choices n (bl_choice (snd mb))"
  shows "\<exists>st'. foldM (tally_vote E sk) st rows = Inr st' \<and>
    board_of (ts_leaves st') = foldl cast_ballot (board_of (ts_leaves st)) (map snd mbs) \<and>
    ts_counts st' = result n (foldl cast_ballot (board_of (ts_leaves st)) (map snd mbs)) \<and>
    \<alpha> (ts_mt st') = map_option lf_hash \<circ> map_of (ts_leaves st') \<and>
    ts_H st' = foldl (\<lambda>h m. te_P E [h, msg_hash (te_P E) m]) (ts_H st) (map fst mbs)"
proof -
  obtain st' where st': "foldM (tally_vote E sk) st rows = Inr st'" "tally_inv E \<alpha> n st'"
      "board_of (ts_leaves st') = foldl cast_ballot (board_of (ts_leaves st)) (map snd mbs)"
      "ts_H st' = foldl (\<lambda>h m. te_P E [h, msg_hash (te_P E) m]) (ts_H st) (map fst mbs)"
    using batch_election [OF assms] by auto
  with result_board_counts [OF st'(2)] show ?thesis
    by (intro exI [of _ st']) (simp add: tally_inv_def)
qed

theorem batch_computes_election_witness:
  "\<exists>st'. foldM (tally_vote plain_env 3) (empty_start 2) revote_rows = Inr st' \<and>
    ts_counts st' = result 2 [5 \<mapsto> (1, 88)]"
proof -
  have "foldl cast_ballot (board_of (ts_leaves (empty_start 2))) (map snd revote_ballots) = [5 \<mapsto> (1, 88)]"
    using HASH0_range
    by (simp add: revote_ballots_def cast_ballot_def board_of_def empty_start_def current_def fun_eq_iff)
  moreover have "\<forall>mb \<in> set revote_ballots. in_choices 2 (bl_choice (snd mb))"
    by (simp add: revote_ballots_def in_choices_def)
  ultimately show ?thesis
    using batch_computes_election [OF plain_env_law empty_start_inv [of 2] open_revote [of 3]] by auto
qed

text \<open>
  C26: one nullifier, one vote. From an empty tally, the total of the counts after any number
  of votes is at most the number of distinct nullifier indices among their ballots, however
  often each of them was cast again.
\<close>

theorem one_vote_per_nullifier:
  assumes "smt_law (te_smt E) \<alpha>" "hash_law (te_P E)" "tally_inv E \<alpha> n st" "ts_leaves st = []"
    and "mapM (open_vote E sk) rows = Inr mbs" "foldM (tally_vote E sk) st rows = Inr st'"
    and "\<forall>mb \<in> set mbs. in_choices n (bl_choice (snd mb))"
  shows "(\<forall>c \<in> set (ts_counts st'). 0 \<le> c) \<and>
    sum_list (ts_counts st') \<le> int (card ((\<lambda>mb. leaf_index (bl_nu (snd mb))) ` set mbs))"
proof -
  let ?bd = "foldl cast_ballot (board_of (ts_leaves st)) (map snd mbs)"
  have fin: "finite ((\<lambda>mb. leaf_index (bl_nu (snd mb))) ` set mbs)" by simp
  have "tally_inv E \<alpha> n st'" and bd: "board_of (ts_leaves st') = ?bd"
    using batch_election [OF assms(1-3,5,7)] assms(6) by auto
  then have c: "ts_counts st' = result n ?bd" and "ts_counts st' = tally_of n (ts_leaves st')"
    using result_board_counts by (metis, simp add: tally_inv_def)
  moreover have sub: "dom ?bd \<subseteq> (\<lambda>mb. leaf_index (bl_nu (snd mb))) ` set mbs"
    using dom_cast [of "board_of (ts_leaves st)" "map snd mbs"] assms(4)
    by (auto simp: board_of_def image_image comp_def)
  moreover have "sum_list (result n ?bd) \<le> int (card (dom ?bd))"
    using finite_subset [OF sub fin] by (rule sum_result_le)
  ultimately show ?thesis using card_mono [OF fin sub] tally_of_nonneg [of _ n "ts_leaves st'"]
    by force
qed

theorem one_vote_per_nullifier_witness:
  "\<exists>st'. foldM (tally_vote plain_env 3) (empty_start 2) revote_rows = Inr st' \<and>
    sum_list (ts_counts st') \<le> 1"
proof -
  have c: "\<forall>mb \<in> set revote_ballots. in_choices 2 (bl_choice (snd mb))"
    by (simp add: revote_ballots_def in_choices_def)
  have l: "ts_leaves (empty_start 2) = []" by (simp add: empty_start_def)
  obtain st' where st': "foldM (tally_vote plain_env 3) (empty_start 2) revote_rows = Inr st'"
    using batch_election [OF plain_env_law empty_start_inv open_revote c] by auto
  have "(\<lambda>mb. leaf_index (bl_nu (snd mb))) ` set revote_ballots = {leaf_index 5}"
    by (auto simp: revote_ballots_def)
  then show ?thesis
    using one_vote_per_nullifier [OF plain_env_law empty_start_inv l open_revote st' c] st' by simp
qed

text \<open>
  A ballot that does not present the current re-voting key of its nullifier changes
  nothing but the running hash and the circuit inputs: counts, leaves and tree are those
  before it. (A coerced ballot with a stale key is silently void.)
\<close>

theorem stale_key_has_no_effect:
  assumes "smt_law (te_smt E) \<alpha>" "open_vote E sk v = Inr (m, b)"
    and "snd (current (board_of (ts_leaves st)) (bl_nu b mod 2 ^ 64)) \<noteq> bl_keyOld b"
  shows "\<exists>st'. tally_vote E sk st v = Inr st' \<and> ts_mt st' = ts_mt st \<and>
    ts_leaves st' = ts_leaves st \<and> ts_counts st' = ts_counts st \<and>
    ts_H st' = te_P E [ts_H st, msg_hash (te_P E) m]"
  using count_vote_rejected [OF assms(1), of st b m] assms(2,3)
  by (auto simp: current_board_of tally_vote_open leaf_index_mod)

theorem stale_key_has_no_effect_witness:
  "\<exists>st'. tally_vote plain_env 3 (empty_start 2) (plain_row ''1'' [5, 2, 77, 88]) = Inr st' \<and>
    ts_counts st' = [0, 0]"
proof -
  have o: "open_vote plain_env 3 (plain_row ''1'' [5, 2, 77, 88]) =
      Inr (\<lparr>ms_R = (1, 2), ms_nonce = 7, ms_ct = [5, 2, 77, 88]\<rparr>,
        \<lparr>bl_nu = 5, bl_choice = 2, bl_keyOld = 77, bl_keyNew = 88\<rparr>)"
    by (rule open_plain_row) (simp_all add: small_FP)
  have "snd (current (board_of (ts_leaves (empty_start 2))) (5 mod 2 ^ 64)) \<noteq> 77"
    using HASH0_range by (simp add: empty_start_def board_of_def current_def)
  then show ?thesis
    using stale_key_has_no_effect [OF plain_env_law(1) o, of "empty_start 2"]
    by (auto simp: empty_start_def numeral_2_eq_2)
qed

text \<open>
  C31: an accepted ballot whose choice is not on the ballot paper makes the loop throw (adding
  a \<open>bigint\<close> to \<open>undefined\<close>), whatever follows it in the batch.
\<close>

theorem invalid_choice_aborts_batch:
  assumes "smt_law (te_smt E) \<alpha>" "hash_law (te_P E)" "tally_inv E \<alpha> n st"
    and "open_vote E sk v = Inr (m, b)"
    and "snd (current (board_of (ts_leaves st)) (bl_nu b mod 2 ^ 64)) = bl_keyOld b"
    and "\<not> in_choices n (bl_choice b)"
  shows "foldM (tally_vote E sk) st (v # rows) = Inl TypeError"
  using count_vote_accepted(2) [OF assms(3,1,2), of b m] assms(4-6)
  by (simp add: current_board_of tally_vote_open leaf_index_mod)

theorem invalid_choice_aborts_batch_witness:
  "foldM (tally_vote plain_env 3) (empty_start 2) [plain_row ''1'' [5, 3, HASH0, 88]] = Inl TypeError"
proof -
  have o: "open_vote plain_env 3 (plain_row ''1'' [5, 3, HASH0, 88]) =
      Inr (\<lparr>ms_R = (1, 2), ms_nonce = 7, ms_ct = [5, 3, HASH0, 88]\<rparr>,
        \<lparr>bl_nu = 5, bl_choice = 3, bl_keyOld = HASH0, bl_keyNew = 88\<rparr>)"
    by (rule open_plain_row) (simp_all add: small_FP HASH0_range)
  show ?thesis
    using invalid_choice_aborts_batch [OF plain_env_law empty_start_inv o, of 2 "[]"]
    by (simp add: empty_start_def board_of_def current_def in_choices_def)
qed

text \<open>The loop as it is written ends on every state, with what \<open>pad_wit\<close> computes.\<close>

lemma pad_loop: "while_option (\<lambda>w. length (w_ephPk w) < MAX_BATCH) pad_once w = Some (pad_wit w)"
proof (induction w rule: pad_wit.induct)
  case (1 w)
  then show ?case by (subst while_option_unfold, subst pad_wit.simps) simp
qed

text \<open>
  C30: the padding loop ends, and gives the circuit what it asks for. After a non-empty batch of
  at most \<open>MAX_BATCH\<close> votes, the loop \<open>while (ephPk.length < MAX_BATCH)\<close> returns; all ten
  arrays then have exactly \<open>MAX_BATCH\<close> entries, and every entry satisfies the constraints of
  the circuit on empty leaves, \<open>wasLeafEmpty * choiceOld = 0\<close> and
  \<open>wasLeafEmpty * (revotingKeyOld - hash0) = 0\<close>.
\<close>

theorem batch_inputs_fit_circuit:
  assumes "smt_law (te_smt E) \<alpha>" "hash_law (te_P E)" "tally_inv E \<alpha> n st" "ts_wit st = no_wit"
    and "foldM (tally_vote E sk) st rows = Inr st'" "rows \<noteq> []" "length rows \<le> MAX_BATCH"
  shows "\<exists>w. while_option (\<lambda>w. length (w_ephPk w) < MAX_BATCH) pad_once (ts_wit st') = Some w \<and>
    w = pad_wit (ts_wit st') \<and> wit_len w MAX_BATCH \<and> wit_empty_ok w"
  using batch_wit [OF assms(1-3,5), of 0] wit_pad [of "length rows"] assms(4,6,7)
  by (simp add: no_wit_def wit_len_def wit_empty_ok_def pad_loop)

theorem batch_inputs_fit_circuit_witness:
  "\<exists>st'. foldM (tally_vote plain_env 3) (empty_start 2) revote_rows = Inr st' \<and>
    wit_len (pad_wit (ts_wit st')) 6"
proof -
  have c: "\<forall>mb \<in> set revote_ballots. in_choices 2 (bl_choice (snd mb))"
    by (simp add: revote_ballots_def in_choices_def)
  obtain st' where st': "foldM (tally_vote plain_env 3) (empty_start 2) revote_rows = Inr st'"
    using batch_election [OF plain_env_law empty_start_inv open_revote c] by auto
  have "ts_wit (empty_start 2) = no_wit" "revote_rows \<noteq> []" "length revote_rows \<le> MAX_BATCH"
    by (simp_all add: empty_start_def revote_rows_def MAX_BATCH_def)
  then show ?thesis
    using batch_inputs_fit_circuit [OF plain_env_law empty_start_inv _ st'] st' by (auto simp: MAX_BATCH_def)
qed

end
