(* ===== verification/ProofCodec.thy ===== *)
theory ProofCodec
  imports Bytes
begin

text \<open>
  The Groth16 proof codecs of \<open>helpers/compressSolana.ts\<close> and \<open>helpers/exportSolana.ts\<close>.
  Points come from snarkjs as arrays of decimal strings. A compressed G1 point is the
  big-endian \<open>x\<close> with a sign flag in the top bit; a compressed G2 point is two such words.
\<close>

definition FQ :: int where
  "FQ = 21888242871839275222246405745257275088696311157297823662689037894645226208583"

section \<open>The code of compressSolana.ts\<close>

definition gtFp :: "int \<Rightarrow> int \<Rightarrow> bool" where
  "gtFp a b \<longleftrightarrow> b < a"

definition be32 :: "int \<Rightarrow> byte list" where
  "be32 n0 = (let n = js_norm FP n0 in be_fill 32 n (replicate 32 0))"

text \<open>\<open>BigInt(undefined)\<close> is a \<open>TypeError\<close>.\<close>

definition bigint_opt :: "string option \<Rightarrow> int res" where
  "bigint_opt s = (case s of None \<Rightarrow> Inl TypeError | Some t \<Rightarrow> bigint_of_string t)"

definition set_sign :: "bool \<Rightarrow> byte list \<Rightarrow> byte list" where
  "set_sign sign out = (if sign then out[0 := out ! 0 OR 0x80] else out[0 := out ! 0 AND 0x7f])"

definition signG1 :: "int \<Rightarrow> bool" where
  "signG1 y = gtFp (js_norm FP y) ((FP - js_norm FP y) smod FP)"

definition compressG1 :: "string option \<Rightarrow> string option \<Rightarrow> byte list res" where
  "compressG1 xStr yStr =
     rbind (bigint_opt xStr) (\<lambda>x. rbind (bigint_opt yStr) (\<lambda>y.
       Inr (set_sign (signG1 y) (be32 x))))"

definition lexLargestFp2 :: "int \<Rightarrow> int \<Rightarrow> bool" where
  "lexLargestFp2 y0 y1 =
     (let ny0 = (FP - js_norm FP y0) smod FP; ny1 = (FP - js_norm FP y1) smod FP
      in if y1 \<noteq> ny1 then gtFp y1 ny1 else gtFp y0 ny0)"

definition compressG2 ::
  "string option \<times> string option \<Rightarrow> string option \<times> string option \<Rightarrow> byte list res" where
  "compressG2 x y =
     rbind (bigint_opt (fst x)) (\<lambda>x0. rbind (bigint_opt (snd x)) (\<lambda>x1.
     rbind (bigint_opt (fst y)) (\<lambda>y0. rbind (bigint_opt (snd y)) (\<lambda>y1.
       Inr (set_sign (lexLargestFp2 y1 y0) (be32 x0) @ be32 x1)))))"

definition negateG1 :: "string list \<Rightarrow> string option list res" where
  "negateG1 a = rbind (bigint_opt (at a 1)) (\<lambda>y.
     Inr [at a 0, Some (to_string 10 (FQ - y)), at a 2])"

record groth_proof =
  pi_a :: "string list"
  pi_b :: "string list list"
  pi_c :: "string list"

record compressed_proof =
  cp_a :: "byte list"
  cp_b :: "byte list"
  cp_c :: "byte list"

text \<open>\<open>m[i][j]\<close> with \<open>m[i]\<close> undefined raises a \<open>TypeError\<close>.\<close>

definition at2 :: "'a list list \<Rightarrow> nat \<Rightarrow> nat \<Rightarrow> 'a option res" where
  "at2 m i j = (case at m i of None \<Rightarrow> Inl TypeError | Some r \<Rightarrow> Inr (at r j))"

definition compressProof :: "groth_proof \<Rightarrow> compressed_proof res" where
  "compressProof pr =
     rbind (negateG1 (pi_a pr)) (\<lambda>negA.
     rbind (compressG1 (negA ! 0) (negA ! 1)) (\<lambda>a.
     rbind (compressG1 (at (pi_c pr) 0) (at (pi_c pr) 1)) (\<lambda>c.
     rbind (at2 (pi_b pr) 0 1) (\<lambda>bx0. rbind (at2 (pi_b pr) 0 0) (\<lambda>bx1.
     rbind (at2 (pi_b pr) 1 1) (\<lambda>by0. rbind (at2 (pi_b pr) 1 0) (\<lambda>by1.
     rbind (compressG2 (bx0, bx1) (by0, by1)) (\<lambda>b.
       Inr \<lparr>cp_a = a, cp_b = b, cp_c = c\<rparr>))))))))"

section \<open>The code of exportSolana.ts\<close>

definition serG2 :: "string list list \<Rightarrow> byte list res" where
  "serG2 Q =
     rbind (at2 Q 0 0) (\<lambda>s0. rbind (bigint_opt s0) (\<lambda>x0.
     rbind (at2 Q 0 1) (\<lambda>s1. rbind (bigint_opt s1) (\<lambda>x1.
     rbind (at2 Q 1 0) (\<lambda>s2. rbind (bigint_opt s2) (\<lambda>y0.
     rbind (at2 Q 1 1) (\<lambda>s3. rbind (bigint_opt s3) (\<lambda>y1.
       Inr (be32 x1 @ be32 x0 @ be32 y1 @ be32 y0)))))))))"

definition serG1 :: "string option list \<Rightarrow> byte list res" where
  "serG1 Q = (let s = (\<lambda>i. case at Q i of None \<Rightarrow> None | Some t \<Rightarrow> t) in
     rbind (bigint_opt (s 0)) (\<lambda>x. rbind (bigint_opt (s 1)) (\<lambda>y. Inr (be32 x @ be32 y))))"

definition serProof :: "groth_proof \<Rightarrow> bool \<Rightarrow> compressed_proof res" where
  "serProof pr negate =
     rbind (if negate then rbind (negateG1 (pi_a pr)) serG1 else serG1 (map Some (pi_a pr))) (\<lambda>a.
     rbind (serG2 (pi_b pr)) (\<lambda>b. rbind (serG1 (map Some (pi_c pr))) (\<lambda>c.
       Inr \<lparr>cp_a = a, cp_b = b, cp_c = c\<rparr>)))"

section \<open>Lemmas\<close>

lemma be32_toBytesBE32: "be32 = toBytesBE32"
  by (simp add: be32_def toBytesBE32_def toBytesBE32Buf_def fun_eq_iff)

lemma length_be32 [simp]: "length (be32 n) = 32"
  by (simp add: be32_toBytesBE32 toBytesBE32_def)

lemma val_be32: "be_val 256 (map uint (be32 n)) = n mod FP"
  by (simp add: be32_toBytesBE32 toBytesBE32_def val_toBytesBE32Buf)

lemma length_set_sign [simp]: "length (set_sign s out) = length out"
  by (simp add: set_sign_def)

lemma byte_or_80: "uint b < 128 \<Longrightarrow> uint (b OR 0x80 :: byte) = uint b + 128"
proof -
  assume h: "uint b < 128"
  then have "take_bit 7 (uint b) = uint b" using byte_range [of b] by (simp add: take_bit_eq_mod)
  then have "uint b OR push_bit 7 1 = uint b + push_bit 7 1"
    using concat_bit_eq [of 7 "uint b" 1] by (simp add: concat_bit_def)
  then show ?thesis by (simp add: unsigned_or_eq)
qed

lemma byte_and_7f: "uint (b AND 0x7f :: byte) = uint b mod 128"
  using take_bit_eq_mask [of 7 "uint b"]
  by (simp add: unsigned_and_eq take_bit_eq_mod mask_eq_exp_minus_1)

text \<open>
  The two top bits of a field element's encoding are free, so the flag can be read off and
  removed again.
\<close>

lemma val_set_sign:
  "be_val 256 (map uint (set_sign s (be32 n))) = n mod FP + (if s then 2 ^ 255 else 0)"
proof -
  obtain b r where br: "be32 n = b # r" "length r = 31"
    using length_be32 [of n] by (cases "be32 n") auto
  have v: "uint b * 256 ^ 31 + be_val 256 (map uint r) = n mod FP"
    using val_be32 [of n] br by (simp add: be_val_Cons)
  have "0 \<le> be_val 256 (map uint r)" by (rule be_val_range) simp
  moreover have "n mod FP < 128 * 256 ^ 31"
    using pos_mod_bound [of FP n] by (simp add: FP_def)
  ultimately have b: "uint b < 128" using v by simp
  then have "uint b mod 128 = uint b" using byte_range [of b] by simp
  with b v br show ?thesis
    by (simp add: set_sign_def be_val_Cons byte_or_80 byte_and_7f)
qed

lemma bigint_opt_decimal [simp]: "0 \<le> n \<Longrightarrow> bigint_opt (Some (to_string 10 n)) = Inr n"
  by (simp add: bigint_opt_def bigint_of_to_string)

section \<open>Properties\<close>

text \<open>
  For decimal coordinates, \<open>compressG1\<close> returns 32 bytes whose big-endian value is the
  residue of \<open>x\<close> plus \<open>2^255\<close> exactly when the residue of \<open>y\<close> exceeds its negation: the
  sign flag never disturbs \<open>x\<close>, and both can be read back.
\<close>

theorem compressG1_layout:
  assumes "0 \<le> x" "0 \<le> y"
  shows "\<exists>out. compressG1 (Some (to_string 10 x)) (Some (to_string 10 y)) = Inr out \<and>
    length out = 32 \<and>
    be_val 256 (map uint out) mod 2 ^ 255 = x mod FP \<and>
    (2 ^ 255 \<le> be_val 256 (map uint out) \<longleftrightarrow> (FP - y mod FP) mod FP < y mod FP)"
proof -
  let ?out = "set_sign (signG1 y) (be32 x)"
  have x: "0 \<le> x mod FP" "x mod FP < 2 ^ 255"
    using pos_mod_bound [of FP x] by (simp_all add: FP_def)
  have "signG1 y \<longleftrightarrow> (FP - y mod FP) mod FP < y mod FP"
    using pos_mod_bound [of FP y] FP_pos
    by (simp add: signG1_def gtFp_def js_norm_eq smod_pos less_imp_le del: mod_diff_right_eq)
  moreover have "(x mod FP + 2 ^ 255) mod 2 ^ 255 = x mod FP" "x mod FP mod 2 ^ 255 = x mod FP"
    using x by simp_all
  ultimately show ?thesis
    using assms x by (intro exI [of _ ?out]) (auto simp: compressG1_def val_set_sign)
qed

theorem compressG1_layout_witness:
  "\<exists>out. compressG1 (Some (to_string 10 1)) (Some (to_string 10 2)) = Inr out \<and>
    length out = 32 \<and>
    be_val 256 (map uint out) mod 2 ^ 255 = 1 mod FP \<and>
    (2 ^ 255 \<le> be_val 256 (map uint out) \<longleftrightarrow> (FP - 2 mod FP) mod FP < 2 mod FP)"
  by (rule compressG1_layout) simp_all

text \<open>
  The coordinates of proof points are elements of the base field \<open>FQ\<close>, but the codec
  reduces and compares them modulo the scalar field \<open>FP\<close>. So it is not injective on the
  points' coordinates: some \<open>y\<close> and its negation \<open>FQ - y\<close>, both proper base-field elements,
  compress to the same bytes for every \<open>x\<close>.
\<close>

theorem compressG1_sign_collision:
  "\<exists>y. 0 < y \<and> y < FQ - y \<and>
     (\<forall>xs. compressG1 xs (Some (to_string 10 y)) = compressG1 xs (Some (to_string 10 (FQ - y))))"
proof (intro exI conjI allI)
  let ?y = "(FP + 1) div 2"
  show "0 < ?y" "?y < FQ - ?y" by (simp_all add: FP_def FQ_def)
  have "signG1 ?y" "signG1 (FQ - ?y)"
    by (simp_all add: signG1_def gtFp_def js_norm_eq) (simp_all add: FP_def FQ_def smod_pos)
  moreover have "0 \<le> ?y" "0 \<le> FQ - ?y" by (simp_all add: FP_def FQ_def)
  ultimately show "compressG1 xs (Some (to_string 10 ?y))
      = compressG1 xs (Some (to_string 10 (FQ - ?y)))" for xs
    by (simp add: compressG1_def)
qed

end
