(* ===== verification/SdkCommon.thy ===== *)
theory SdkCommon
  imports ProofCodec
begin

text \<open>
  What the two SDKs (\<open>ts-sdk\<close>, \<open>ts-sdk-relayer\<close>) share: public keys, the record of what an
  instruction builder hands to Anchor, compute-unit limits (\<open>utils.ts\<close>), program-derived
  addresses, account fetching and the lazily created program object (\<open>program.ts\<close>). Anchor, web3.js and
  bn.js are outside the repository: \<open>sdk_env\<close> holds the operations of theirs that the code
  calls.
\<close>

type_synonym pubkey = "byte list"

record account_meta =
  am_pubkey :: pubkey
  am_isSigner :: bool
  am_isWritable :: bool

text \<open>An argument of an instruction, as the builders pass them to Anchor's \<open>methods\<close>.\<close>

datatype arg =
    BNArg int
  | NumArg int
  | StrArg string
  | KeyArg pubkey
  | BytesArg "byte list"
  | BytesListArg "byte list list"
  | PointArg "byte list" "byte list"
  | ProofArg compressed_proof
  | BNListArg "int list"
  | RelayerArg string pubkey

record instruction =
  ix_program :: pubkey
  ix_method :: string
  ix_args :: "arg list"
  ix_accounts :: "(string \<times> pubkey) list"
  ix_remaining :: "account_meta list"

record instruction_with_cu =
  iwc_instruction :: instruction
  iwc_cuLimit :: int

text \<open>
  \<open>se_pda\<close> is \<open>PublicKey.findProgramAddressSync(seeds, program)[0]\<close>, \<open>se_le8\<close> is
  \<open>toArrayLike(Buffer, "le", 8)\<close> of bn.js (which throws when the number does not fit),
  the other fields are the two program ids of the IDL files.
\<close>

record sdk_env =
  se_pda :: "byte list list \<Rightarrow> pubkey \<Rightarrow> pubkey"
  se_le8 :: "int \<Rightarrow> byte list res"
  se_moot :: pubkey
  se_relayer :: pubkey

definition le_bytes :: "nat \<Rightarrow> int \<Rightarrow> byte list" where
  "le_bytes k n = rev (map word_of_int (be_digits 256 k n))"

text \<open>What bn.js documents: eight little-endian bytes for every number that fits.\<close>

definition le8_law :: "(int \<Rightarrow> byte list res) \<Rightarrow> bool" where
  "le8_law f \<longleftrightarrow> (\<forall>n. 0 \<le> n \<longrightarrow> n < 2 ^ 64 \<longrightarrow> f n = Inr (le_bytes 8 n))"

lemma length_le_bytes [simp]: "length (le_bytes k n) = k"
  by (simp add: le_bytes_def)

lemma val_le_bytes: "be_val 256 (map uint (rev (le_bytes k n))) = n mod 256 ^ k"
  by (simp add: le_bytes_def be_val_be_digits)

lemma le_bytes_inj:
  assumes "0 \<le> m" "m < 256 ^ k" "0 \<le> n" "n < 256 ^ k" "le_bytes k m = le_bytes k n"
  shows "m = n"
proof -
  have "m mod 256 ^ k = n mod 256 ^ k"
    using val_le_bytes [of k m] val_le_bytes [of k n] unfolding assms(5) by (rule trans [OF sym])
  then show ?thesis using assms by (simp only: mod_pos_pos_trivial)
qed

text \<open>\<open>toBN\<close>: a \<open>BN\<close> is passed through, a \<open>bigint\<close> goes through its hexadecimal numeral.\<close>

definition toBN :: "int \<Rightarrow> int" where
  "toBN value = value"

definition bytes_of_string :: "string \<Rightarrow> byte list" where
  "bytes_of_string s = map (\<lambda>c. word_of_int (of_char c)) s"

section \<open>Compute units and transactions\<close>

definition cuLimit_total :: "instruction_with_cu list \<Rightarrow> int" where
  "cuLimit_total ixs = foldl (\<lambda>n ix. n + iwc_cuLimit ix) 0 ixs"

datatype tx_ix = SetComputeUnitLimit int | Call instruction

definition cuLimitInstruction :: "instruction_with_cu list \<Rightarrow> tx_ix" where
  "cuLimitInstruction ixs = SetComputeUnitLimit (cuLimit_total ixs)"

record transaction =
  tx_ixs :: "tx_ix list"
  tx_recentBlockhash :: string
  tx_feePayer :: pubkey
  tx_signers :: "pubkey list"

definition toTransaction :: "instruction_with_cu list \<Rightarrow> string \<Rightarrow> pubkey \<Rightarrow> transaction" where
  "toTransaction ixs recentBlockhash feePayer =
     \<lparr>tx_ixs = cuLimitInstruction ixs # map (\<lambda>x. Call (iwc_instruction x)) ixs,
      tx_recentBlockhash = recentBlockhash,
      tx_feePayer = feePayer,
      tx_signers = [feePayer]\<rparr>"

lemma cuLimit_total_sum: "cuLimit_total ixs = sum_list (map iwc_cuLimit ixs)"
proof -
  have "foldl (\<lambda>n ix. n + iwc_cuLimit ix) a ixs = a + sum_list (map iwc_cuLimit ixs)" for a
    by (induction ixs arbitrary: a) (simp_all add: add.assoc)
  then show ?thesis by (simp add: cuLimit_total_def)
qed

section \<open>Accounts\<close>

text \<open>
  \<open>fetchAccount\<close>: a missing account or one without data is \<open>null\<close>; otherwise the coder
  decodes it (and may throw). \<open>acc\<close> is what the RPC node answered.
\<close>

definition fetchAccount ::
  "(string \<Rightarrow> byte list \<Rightarrow> 'a res) \<Rightarrow> string \<Rightarrow> byte list option option \<Rightarrow> 'a option res" where
  "fetchAccount decode accountName acc = (case acc of
       None \<Rightarrow> Inr None
     | Some None \<Rightarrow> Inr None
     | Some (Some data) \<Rightarrow>
         if length data = 0 then Inr None
         else rbind (decode accountName data) (\<lambda>x. Inr (Some x)))"

section \<open>The program object\<close>

text \<open>
  \<open>_program\<close> is created on first use with a stub provider; \<open>setProvider\<close> replaces it. A
  stub answers every string property with another stub, answers symbols with undefined, and
  throws when it is called.
\<close>

datatype 'p provider = Stub string | Provider 'p

datatype stub_op = GetSymbol | GetString | Apply

datatype stub_result = SUndefined | SStub string

definition stub_access :: "string \<Rightarrow> stub_op \<Rightarrow> stub_result res" where
  "stub_access errorMsg op = (case op of
       GetSymbol \<Rightarrow> Inr SUndefined
     | GetString \<Rightarrow> Inr (SStub errorMsg)
     | Apply \<Rightarrow> Inl (Thrown errorMsg))"

definition stub_msg :: string where
  "stub_msg = ''Provider has not been set. Call `setProvider(provider)` before using this function.''"

definition getProgram :: "'p provider option \<Rightarrow> 'p provider \<times> 'p provider option" where
  "getProgram prog = (let p = (case prog of None \<Rightarrow> Stub stub_msg | Some q \<Rightarrow> q) in (p, Some p))"

definition setProvider :: "'p \<Rightarrow> 'p provider option \<Rightarrow> 'p provider option" where
  "setProvider provider prog = Some (Provider provider)"

end
