(* ===== verification/RelayerSdk.thy ===== *)
theory RelayerSdk
  imports SdkCommon
begin

text \<open>
  The relayer SDK, \<open>ts-sdk-relayer/src\<close>: its program-derived addresses and the builders of
  \<open>instructions.ts\<close>. A builder returns what it hands to Anchor, with its compute-unit limit.
\<close>

definition RELAYER_CONFIG :: "sdk_env \<Rightarrow> pubkey" where
  "RELAYER_CONFIG E = se_pda E [bytes_of_string ''RELAYER_CONFIG''] (se_relayer E)"

definition findRelayerState :: "sdk_env \<Rightarrow> pubkey \<Rightarrow> int \<Rightarrow> pubkey res" where
  "findRelayerState E targetProgram stateId =
     rbind (se_le8 E (toBN stateId)) (\<lambda>le.
       Inr (se_pda E [bytes_of_string ''RELAYER_STATE'', targetProgram, le] (se_relayer E)))"

record relayer_initialize_params =
  ri_payer :: pubkey
  ri_admin :: pubkey
  ri_relayerEndpoint :: string
  ri_relayerFeeKey :: pubkey
  ri_fee :: int

definition relayer_initialize ::
  "sdk_env \<Rightarrow> relayer_initialize_params \<Rightarrow> instruction_with_cu" where
  "relayer_initialize E p =
     \<lparr>iwc_instruction =
        \<lparr>ix_program = se_relayer E, ix_method = ''initialize'',
         ix_args = [RelayerArg (ri_relayerEndpoint p) (ri_relayerFeeKey p), KeyArg (ri_admin p),
           BNArg (toBN (ri_fee p))],
         ix_accounts = [(''payer'', ri_payer p), (''relayerConfig'', RELAYER_CONFIG E)],
         ix_remaining = []\<rparr>,
      iwc_cuLimit = 200000\<rparr>"

record relayer_update_params =
  ru_payer :: pubkey
  ru_oldAdmin :: pubkey
  ru_newAdmin :: pubkey
  ru_relayerEndpoint :: string
  ru_relayerFeeKey :: pubkey
  ru_fee :: int

text \<open>\<open>systemProgram\<close> is web3.js's \<open>SystemProgram.programId\<close>.\<close>

definition relayer_updateConfig ::
  "sdk_env \<Rightarrow> pubkey \<Rightarrow> relayer_update_params \<Rightarrow> instruction_with_cu" where
  "relayer_updateConfig E systemProgram p =
     \<lparr>iwc_instruction =
        \<lparr>ix_program = se_relayer E, ix_method = ''updateConfig'',
         ix_args = [RelayerArg (ru_relayerEndpoint p) (ru_relayerFeeKey p),
           KeyArg (ru_newAdmin p), BNArg (toBN (ru_fee p))],
         ix_accounts = [(''payer'', ru_payer p), (''relayerConfig'', RELAYER_CONFIG E),
           (''admin'', ru_oldAdmin p), (''systemProgram'', systemProgram)],
         ix_remaining = []\<rparr>,
      iwc_cuLimit = 200000\<rparr>"

record relay_params =
  rl_relayer :: pubkey
  rl_stateId :: int
  rl_proof :: compressed_proof
  rl_rootStateNew :: "byte list"
  rl_msgHash :: "byte list"
  rl_discriminator :: int
  rl_nuHash :: "byte list"
  rl_data :: "byte list"
  rl_targetProgram :: pubkey
  rl_targetAccounts :: "account_meta list"
  rl_targetCuLimit :: int

definition relay :: "sdk_env \<Rightarrow> relay_params \<Rightarrow> instruction_with_cu res" where
  "relay E p =
     rbind (findRelayerState E (rl_targetProgram p) (rl_stateId p)) (\<lambda>relayerState. Inr
       \<lparr>iwc_instruction =
          \<lparr>ix_program = se_relayer E, ix_method = ''relay'',
           ix_args = [BNArg (toBN (rl_stateId p)), ProofArg (rl_proof p),
             BytesArg (rl_rootStateNew p), BytesArg (rl_msgHash p), NumArg (rl_discriminator p),
             BytesArg (rl_nuHash p), BytesArg (rl_data p)],
           ix_accounts = [(''relayer'', rl_relayer p), (''relayerConfig'', RELAYER_CONFIG E),
             (''relayerState'', relayerState), (''targetProgram'', rl_targetProgram p)],
           ix_remaining = rl_targetAccounts p\<rparr>,
        iwc_cuLimit = 200000 + rl_targetCuLimit p\<rparr>)"

definition fetchRelayerConfig ::
  "sdk_env \<Rightarrow> (string \<Rightarrow> byte list \<Rightarrow> 'a res) \<Rightarrow> (pubkey \<Rightarrow> byte list option option) \<Rightarrow> 'a option res" where
  "fetchRelayerConfig E decode getAccountInfo =
     fetchAccount decode ''zkRelayerConfig'' (getAccountInfo (RELAYER_CONFIG E))"

definition fetchRelayerState ::
  "(string \<Rightarrow> byte list \<Rightarrow> 'a res) \<Rightarrow> (pubkey \<Rightarrow> byte list option option) \<Rightarrow> pubkey \<Rightarrow> 'a option res" where
  "fetchRelayerState decode getAccountInfo publicKey =
     fetchAccount decode ''relayerState'' (getAccountInfo publicKey)"

end
