(* ===== verification/MootSdk.thy ===== *)
theory MootSdk
  imports RelayerSdk
begin

text \<open>
  The voting SDK, \<open>ts-sdk/src\<close>: program-derived addresses (\<open>pdas.ts\<close>), the builders of
  \<open>instructions.ts\<close> with the payload of a relayed vote, and account fetching.
\<close>

definition PLATFORM_NAME :: int where
  "PLATFORM_NAME = 5579801008792368229"

definition PLATFORM_CONFIG :: "sdk_env \<Rightarrow> pubkey" where
  "PLATFORM_CONFIG E = se_pda E [bytes_of_string ''PLATFORM_CONFIG''] (se_moot E)"

definition findPoll :: "sdk_env \<Rightarrow> int \<Rightarrow> pubkey res" where
  "findPoll E pid = rbind (se_le8 E (toBN pid)) (\<lambda>le.
     Inr (se_pda E [bytes_of_string ''POLL'', le] (se_moot E)))"

definition findTally :: "sdk_env \<Rightarrow> int \<Rightarrow> pubkey \<Rightarrow> pubkey res" where
  "findTally E pollId owner = rbind (se_le8 E (toBN pollId)) (\<lambda>le.
     Inr (se_pda E [bytes_of_string ''TALLY'', le, owner] (se_moot E)))"

record point =
  pt_x :: "byte list"
  pt_y :: "byte list"

text \<open>The builders without a failing step all have this shape.\<close>

definition moot_ix ::
  "sdk_env \<Rightarrow> string \<Rightarrow> arg list \<Rightarrow> (string \<times> pubkey) list \<Rightarrow> instruction_with_cu" where
  "moot_ix E m as accs =
     \<lparr>iwc_instruction = \<lparr>ix_program = se_moot E, ix_method = m, ix_args = as,
        ix_accounts = accs, ix_remaining = []\<rparr>,
      iwc_cuLimit = 200000\<rparr>"

definition initialize :: "sdk_env \<Rightarrow> pubkey \<Rightarrow> pubkey \<Rightarrow> int \<Rightarrow> pubkey \<Rightarrow> instruction_with_cu" where
  "initialize E payer admin fee feeDestination =
     moot_ix E ''initialize'' [KeyArg admin, BNArg (toBN fee), KeyArg feeDestination]
       [(''payer'', payer), (''platformConfig'', PLATFORM_CONFIG E)]"

definition updateConfig :: "sdk_env \<Rightarrow> pubkey \<Rightarrow> pubkey \<Rightarrow> int \<Rightarrow> pubkey \<Rightarrow> instruction_with_cu" where
  "updateConfig E oldAdmin newAdmin fee feeDestination =
     moot_ix E ''updateConfig'' [KeyArg newAdmin, BNArg (toBN fee), KeyArg feeDestination]
       [(''admin'', oldAdmin), (''platformConfig'', PLATFORM_CONFIG E)]"

record create_poll_params =
  po_payer :: pubkey
  po_id :: int
  po_nChoices :: int
  po_descriptionUrl :: string
  po_censusUrl :: string
  po_tallierKey :: point
  po_censusRoot :: "byte list"
  po_votingStartTime :: int
  po_votingEndTime :: int
  po_fee :: int
  po_feeDestination :: pubkey
  po_nVoters :: int

definition createPoll :: "sdk_env \<Rightarrow> create_poll_params \<Rightarrow> instruction_with_cu res" where
  "createPoll E p =
     rbind (findPoll E (po_id p)) (\<lambda>poll.
     rbind (findRelayerState E (se_moot E) (po_id p)) (\<lambda>relayerState. Inr
       (moot_ix E ''createPoll''
         [BNArg (toBN (po_id p)), NumArg (po_nChoices p), StrArg (po_descriptionUrl p),
          StrArg (po_censusUrl p), PointArg (pt_x (po_tallierKey p)) (pt_y (po_tallierKey p)),
          BytesArg (po_censusRoot p), BNArg (toBN (po_votingStartTime p)),
          BNArg (toBN (po_votingEndTime p)), BNArg (toBN (po_fee p)),
          KeyArg (po_feeDestination p), BNArg (toBN (po_nVoters p))]
         [(''payer'', po_payer p), (''poll'', poll), (''platformConfig'', PLATFORM_CONFIG E),
          (''relayerConfig'', RELAYER_CONFIG E), (''relayerState'', relayerState)])))"

record vote_params =
  vp_payer :: pubkey
  vp_ephPk :: point
  vp_nonce :: int
  vp_ciphertext :: "byte list list"
  vp_pollId :: int
  vp_proof :: compressed_proof
  vp_platformFeeDestination :: pubkey
  vp_pollFeeDestination :: pubkey

definition vote :: "sdk_env \<Rightarrow> vote_params \<Rightarrow> instruction_with_cu res" where
  "vote E p = rbind (findPoll E (vp_pollId p)) (\<lambda>poll. Inr
     (moot_ix E ''vote''
       [PointArg (pt_x (vp_ephPk p)) (pt_y (vp_ephPk p)), BNArg (toBN (vp_nonce p)),
        BytesListArg (vp_ciphertext p), ProofArg (vp_proof p)]
       [(''payer'', vp_payer p), (''pollFeeDestination'', vp_pollFeeDestination p),
        (''voteCommon.poll'', poll),
        (''voteCommon.platformFeeDestination'', vp_platformFeeDestination p),
        (''voteCommon.platformConfig'', PLATFORM_CONFIG E)]))"

section \<open>The payload of a relayed vote\<close>

text \<open>\<open>Uint8Array.set\<close>: a source that does not fit behind the offset is a \<open>RangeError\<close>.\<close>

definition buf_set :: "byte list \<Rightarrow> byte list \<Rightarrow> nat \<Rightarrow> byte list res" where
  "buf_set buf src off =
     (if off + length src \<le> length buf
      then Inr (take off buf @ src @ drop (off + length src) buf)
      else Inl RangeError)"

definition put :: "byte list \<Rightarrow> byte list \<times> nat \<Rightarrow> (byte list \<times> nat) res" where
  "put src st = rbind (buf_set (fst st) src (snd st)) (\<lambda>b. Inr (b, snd st + length src))"

primrec put_all :: "byte list list \<Rightarrow> byte list \<times> nat \<Rightarrow> (byte list \<times> nat) res" where
  "put_all [] st = Inr st"
| "put_all (c # cs) st = rbind (put c st) (put_all cs)"

definition serializeVoteData ::
  "(int \<Rightarrow> byte list res) \<Rightarrow> byte list list \<Rightarrow> compressed_proof \<Rightarrow> point \<Rightarrow> int \<Rightarrow> byte list res" where
  "serializeVoteData le8 ciphertext proof ephPk nonce = (case at ciphertext 0 of
       None \<Rightarrow> Inl TypeError
     | Some c0 \<Rightarrow>
         let size = length (pt_x ephPk) + length (pt_y ephPk) + 8
                    + length ciphertext * length c0
                    + length (cp_a proof) + length (cp_b proof) + length (cp_c proof);
             buf = replicate size 0
         in rbind (put (pt_x ephPk) (buf, 0)) (\<lambda>st.
            rbind (put (pt_y ephPk) st) (\<lambda>st.
            rbind (le8 (toBN nonce)) (\<lambda>le.
            rbind (buf_set (fst st) le (snd st)) (\<lambda>buf.
            rbind (put_all ciphertext (buf, snd st + 8)) (\<lambda>st.
            rbind (put (cp_a proof) st) (\<lambda>st.
            rbind (put (cp_b proof) st) (\<lambda>st.
            rbind (put (cp_c proof) st) (\<lambda>st. Inr (fst st))))))))))"

record vote_with_relayer_params =
  vr_relayer :: pubkey
  vr_msgHash :: "byte list"
  vr_ephPk :: point
  vr_nonce :: int
  vr_ciphertext :: "byte list list"
  vr_relayerNuHash :: "byte list"
  vr_pollId :: int
  vr_proof :: compressed_proof
  vr_relayerProof :: compressed_proof
  vr_rootStateNew :: "byte list"
  vr_platformFeeDestination :: pubkey

definition voteWithRelayer ::
  "sdk_env \<Rightarrow> vote_with_relayer_params \<Rightarrow> instruction_with_cu res" where
  "voteWithRelayer E p =
     rbind (serializeVoteData (se_le8 E) (vr_ciphertext p) (vr_proof p) (vr_ephPk p) (vr_nonce p))
       (\<lambda>data. rbind (findPoll E (vr_pollId p)) (\<lambda>poll.
     relay E
       \<lparr>rl_relayer = vr_relayer p, rl_stateId = vr_pollId p, rl_proof = vr_relayerProof p,
        rl_rootStateNew = vr_rootStateNew p, rl_msgHash = vr_msgHash p, rl_discriminator = 4,
        rl_nuHash = vr_relayerNuHash p, rl_data = data, rl_targetProgram = se_moot E,
        rl_targetAccounts =
          [\<lparr>am_pubkey = PLATFORM_CONFIG E, am_isSigner = False, am_isWritable = False\<rparr>,
           \<lparr>am_pubkey = poll, am_isSigner = False, am_isWritable = True\<rparr>,
           \<lparr>am_pubkey = vr_platformFeeDestination p, am_isSigner = False, am_isWritable = True\<rparr>],
        rl_targetCuLimit = 200000\<rparr>))"

section \<open>Tally and withdrawal instructions\<close>

definition createTally ::
  "sdk_env \<Rightarrow> int \<Rightarrow> pubkey \<Rightarrow> byte list \<Rightarrow> instruction_with_cu res" where
  "createTally E pollId payer initialTallyHash = rbind (findTally E pollId payer) (\<lambda>tally. Inr
     (moot_ix E ''createTally'' [BNArg (toBN pollId), BytesArg initialTallyHash]
       [(''tally'', tally), (''payer'', payer)]))"

definition tallyBatch ::
  "sdk_env \<Rightarrow> int \<Rightarrow> pubkey \<Rightarrow> compressed_proof \<Rightarrow> byte list \<Rightarrow> byte list \<Rightarrow> byte list
   \<Rightarrow> instruction_with_cu res" where
  "tallyBatch E pollId owner proof rootNew cumulativeMsgHashNew tallyHashNew =
     rbind (findTally E pollId owner) (\<lambda>tally. Inr
       (moot_ix E ''tallyBatch''
         [ProofArg proof, BytesArg rootNew, BytesArg cumulativeMsgHashNew, BytesArg tallyHashNew]
         [(''tally'', tally)]))"

definition finishTally ::
  "sdk_env \<Rightarrow> int \<Rightarrow> pubkey \<Rightarrow> int list \<Rightarrow> int \<Rightarrow> instruction_with_cu res" where
  "finishTally E pollId payer tally tallySalt =
     rbind (findTally E pollId payer) (\<lambda>tallyAcc. rbind (findPoll E pollId) (\<lambda>poll. Inr
       (moot_ix E ''finishTally'' [BNListArg (map toBN tally), BNArg (toBN tallySalt)]
         [(''payer'', payer), (''tally'', tallyAcc), (''poll'', poll)])))"

definition closeTally :: "sdk_env \<Rightarrow> int \<Rightarrow> pubkey \<Rightarrow> instruction_with_cu res" where
  "closeTally E pollId owner = rbind (findTally E pollId owner) (\<lambda>tally. Inr
     (moot_ix E ''closeTally'' [BNArg (toBN pollId)] [(''owner'', owner), (''tally'', tally)]))"

definition withdrawPoll :: "sdk_env \<Rightarrow> int \<Rightarrow> pubkey \<Rightarrow> instruction_with_cu res" where
  "withdrawPoll E pid feeDestination = rbind (findPoll E pid) (\<lambda>poll. Inr
     (moot_ix E ''withdrawPoll'' [] [(''feeDestination'', feeDestination), (''poll'', poll)]))"

section \<open>Accounts\<close>

definition fetchPoll ::
  "(string \<Rightarrow> byte list \<Rightarrow> 'a res) \<Rightarrow> (pubkey \<Rightarrow> byte list option option) \<Rightarrow> pubkey \<Rightarrow> 'a option res" where
  "fetchPoll decode getAccountInfo publicKey =
     fetchAccount decode ''poll'' (getAccountInfo publicKey)"

definition fetchTally ::
  "(string \<Rightarrow> byte list \<Rightarrow> 'a res) \<Rightarrow> (pubkey \<Rightarrow> byte list option option) \<Rightarrow> pubkey \<Rightarrow> 'a option res" where
  "fetchTally decode getAccountInfo publicKey =
     fetchAccount decode ''tally'' (getAccountInfo publicKey)"

definition fetchPlatformConfig ::
  "sdk_env \<Rightarrow> (string \<Rightarrow> byte list \<Rightarrow> 'a res) \<Rightarrow> (pubkey \<Rightarrow> byte list option option) \<Rightarrow> 'a option res" where
  "fetchPlatformConfig E decode getAccountInfo =
     fetchAccount decode ''platformConfig'' (getAccountInfo (PLATFORM_CONFIG E))"

section \<open>What the program reads\<close>

text \<open>
  The arguments of \<open>vote_with_relayer\<close> behind the relayer's own fields, as the program's
  declaration fixes them: an ephemeral point, a 64-bit little-endian nonce, seven 32-byte
  ciphertext words and a compressed proof, in that order; what is left over is not read.
\<close>

definition split_words :: "nat \<Rightarrow> byte list \<Rightarrow> byte list list" where
  "split_words k bs = map (\<lambda>i. take 32 (drop (32 * i) bs)) [0..<k]"

definition parse_vote_args ::
  "byte list \<Rightarrow> (point \<times> int \<times> byte list list \<times> compressed_proof) option" where
  "parse_vote_args bs = (if length bs < 424 then None else Some
     (\<lparr>pt_x = take 32 bs, pt_y = take 32 (drop 32 bs)\<rparr>,
      be_val 256 (map uint (rev (take 8 (drop 64 bs)))),
      split_words 7 (take 224 (drop 72 bs)),
      \<lparr>cp_a = take 32 (drop 296 bs), cp_b = take 64 (drop 328 bs),
       cp_c = take 32 (drop 392 bs)\<rparr>))"

lemma put_filled:
  "put src (pre @ replicate k 0, length pre) =
     (if length src \<le> k
      then Inr ((pre @ src) @ replicate (k - length src) 0, length (pre @ src))
      else Inl RangeError)"
  by (simp add: put_def buf_set_def)

lemma put_all_filled:
  "length (concat cs) \<le> k \<Longrightarrow>
   put_all cs (pre @ replicate k 0, length pre) =
     Inr ((pre @ concat cs) @ replicate (k - length (concat cs)) 0, length (pre @ concat cs))"
proof (induction cs arbitrary: pre k)
  case (Cons c cs)
  then have "put_all cs ((pre @ c) @ replicate (k - length c) 0, length (pre @ c)) =
     Inr (((pre @ c) @ concat cs) @ replicate (k - length c - length (concat cs)) 0,
       length ((pre @ c) @ concat cs))"
    by (intro Cons.IH) simp
  then show ?case using Cons.prems by (simp add: put_filled)
qed simp

lemma length_concat_same:
  "(\<forall>c \<in> set cs. length c = n) \<Longrightarrow> length (concat cs) = length cs * n"
  by (induction cs) auto

lemma serializeVoteData_concat:
  assumes "le8 nonce = Inr le" "length le = 8" "ct \<noteq> []" "\<forall>c \<in> set ct. length c = n"
  shows "serializeVoteData le8 ct proof ephPk nonce =
    Inr (pt_x ephPk @ pt_y ephPk @ le @ concat ct @ cp_a proof @ cp_b proof @ cp_c proof)"
proof -
  let ?x = "pt_x ephPk" and ?y = "pt_y ephPk" and ?a = "cp_a proof" and ?b = "cp_b proof"
    and ?c = "cp_c proof"
  let ?size = "length ?x + length ?y + 8 + length ct * n + length ?a + length ?b + length ?c"
  let ?R = "\<lambda>k. replicate k (0 :: byte)"
  let ?m = "length ct * n" and ?k = "length ?a + length ?b + length ?c"
  have c0: "at ct 0 = Some (hd ct)" "length (hd ct) = n" using assms(3,4) by (cases ct; simp)+
  have ct: "length (concat ct) = ?m" by (rule length_concat_same [OF assms(4)])
  have x: "put ?x (?R ?size, 0) = Inr (?x @ ?R (length ?y + 8 + ?m + ?k), length ?x)"
    using put_filled [of ?x "[]" ?size] by (simp add: add.assoc)
  have y: "put ?y (?x @ ?R (length ?y + 8 + ?m + ?k), length ?x)
      = Inr ((?x @ ?y) @ ?R (8 + ?m + ?k), length (?x @ ?y))"
    by (simp add: put_filled add.assoc)
  have le: "buf_set ((?x @ ?y) @ ?R (8 + ?m + ?k)) le (length (?x @ ?y))
      = Inr ((?x @ ?y @ le) @ ?R (?m + ?k))"
    using assms(2) by (simp add: buf_set_def add.assoc)
  have off: "length (?x @ ?y) + 8 = length (?x @ ?y @ le)" using assms(2) by simp
  have cts: "put_all ct ((?x @ ?y @ le) @ ?R (?m + ?k), length (?x @ ?y @ le))
      = Inr (((?x @ ?y @ le) @ concat ct) @ ?R ?k, length ((?x @ ?y @ le) @ concat ct))"
    using put_all_filled [of ct "?m + ?k" "?x @ ?y @ le"] ct by simp
  have a: "put ?a (((?x @ ?y @ le) @ concat ct) @ ?R ?k, length ((?x @ ?y @ le) @ concat ct))
      = Inr ((((?x @ ?y @ le) @ concat ct) @ ?a) @ ?R (length ?b + length ?c),
          length (((?x @ ?y @ le) @ concat ct) @ ?a))"
    by (subst put_filled) (simp add: add.assoc)
  have b: "put ?b ((((?x @ ?y @ le) @ concat ct) @ ?a) @ ?R (length ?b + length ?c),
        length (((?x @ ?y @ le) @ concat ct) @ ?a))
      = Inr (((((?x @ ?y @ le) @ concat ct) @ ?a) @ ?b) @ ?R (length ?c),
          length ((((?x @ ?y @ le) @ concat ct) @ ?a) @ ?b))"
    by (subst put_filled) simp
  have c: "put ?c (((((?x @ ?y @ le) @ concat ct) @ ?a) @ ?b) @ ?R (length ?c),
        length ((((?x @ ?y @ le) @ concat ct) @ ?a) @ ?b))
      = Inr ((((((?x @ ?y @ le) @ concat ct) @ ?a) @ ?b) @ ?c) @ ?R 0,
          length (((((?x @ ?y @ le) @ concat ct) @ ?a) @ ?b) @ ?c))"
    by (subst put_filled) simp
  show ?thesis
    unfolding serializeVoteData_def c0 option.case Let_def toBN_def x rbind_Inr y assms(1)
      fst_conv snd_conv le off cts a b c
    by simp
qed

section \<open>Properties\<close>

lemma split_words_concat:
  "(\<forall>c \<in> set cs. length c = 32) \<Longrightarrow> split_words (length cs) (concat cs) = cs"
proof (induction cs)
  case (Cons c cs)
  then show ?case
    by (simp add: split_words_def upt_conv_Cons map_Suc_upt [symmetric] comp_def del: upt_Suc)
qed (simp add: split_words_def)

lemma serializeVoteData_parses:
  assumes "le8_law le8" "0 \<le> nonce" "nonce < 2 ^ 64"
    and "length (pt_x ephPk) = 32" "length (pt_y ephPk) = 32"
    and "length ct = 7" "\<forall>c \<in> set ct. length c = 32"
    and "length (cp_a proof) = 32" "length (cp_b proof) = 64" "length (cp_c proof) = 32"
  shows "\<exists>bs. serializeVoteData le8 ct proof ephPk nonce = Inr bs \<and>
    parse_vote_args bs = Some (ephPk, nonce, ct, proof)"
proof -
  let ?le = "le_bytes 8 nonce"
  let ?bs = "pt_x ephPk @ pt_y ephPk @ ?le @ concat ct @ cp_a proof @ cp_b proof @ cp_c proof"
  have ser: "serializeVoteData le8 ct proof ephPk nonce = Inr ?bs"
    using assms by (intro serializeVoteData_concat) (auto simp: le8_law_def)
  have ct: "length (concat ct) = 224" using length_concat_same [OF assms(7)] assms(6) by simp
  have words: "split_words 7 (concat ct) = ct"
    using split_words_concat [OF assms(7)] assms(6) by simp
  have val: "be_val 256 (map uint (rev ?le)) = nonce"
    using val_le_bytes [of 8 nonce] assms by simp
  have "parse_vote_args ?bs = Some
      (\<lparr>pt_x = pt_x ephPk, pt_y = pt_y ephPk\<rparr>, be_val 256 (map uint (rev ?le)),
       split_words 7 (concat ct),
       \<lparr>cp_a = cp_a proof, cp_b = cp_b proof, cp_c = cp_c proof\<rparr>)"
    using assms ct by (simp add: parse_vote_args_def)
  with ser words val show ?thesis by simp
qed

text \<open>
  The data of a relayed vote is read by the program as what was serialised: for 32-byte
  coordinates, seven 32-byte ciphertext words, a 64-bit nonce and a compressed proof of the
  program's sizes, \<open>serializeVoteData\<close> returns 424 bytes whose fields are the inputs.
\<close>

theorem serializeVoteData_roundtrip:
  assumes "le8_law le8" "0 \<le> nonce" "nonce < 2 ^ 64"
    and "length (pt_x ephPk) = 32" "length (pt_y ephPk) = 32"
    and "length ct = 7" "\<forall>c \<in> set ct. length c = 32"
    and "length (cp_a proof) = 32" "length (cp_b proof) = 64" "length (cp_c proof) = 32"
  shows "\<exists>bs. serializeVoteData le8 ct proof ephPk nonce = Inr bs \<and>
    parse_vote_args bs = Some (ephPk, nonce, ct, proof)"
  using assms by (rule serializeVoteData_parses)

theorem serializeVoteData_roundtrip_witness:
  "\<exists>bs. serializeVoteData (\<lambda>n. Inr (le_bytes 8 n)) (replicate 7 (replicate 32 5))
      \<lparr>cp_a = replicate 32 1, cp_b = replicate 64 2, cp_c = replicate 32 3\<rparr>
      \<lparr>pt_x = replicate 32 8, pt_y = replicate 32 9\<rparr> 77 = Inr bs \<and>
    parse_vote_args bs = Some (\<lparr>pt_x = replicate 32 8, pt_y = replicate 32 9\<rparr>, 77,
      replicate 7 (replicate 32 5),
      \<lparr>cp_a = replicate 32 1, cp_b = replicate 64 2, cp_c = replicate 32 3\<rparr>)"
  by (rule serializeVoteData_roundtrip) (simp_all add: le8_law_def)

text \<open>
  A relayed vote addresses the accounts the poll was created with: the relayer state that
  \<open>createPoll\<close> opens is the one \<open>voteWithRelayer\<close> passes, the poll account is the second
  forwarded account and writable, nothing forwarded signs, the relay carries the program's
  discriminator 4, and the compute limit covers both programs.
\<close>

theorem voteWithRelayer_matches_createPoll:
  assumes "createPoll E cp = Inr c" "voteWithRelayer E p = Inr v" "po_id cp = vr_pollId p"
  shows "map_of (ix_accounts (iwc_instruction v)) ''relayerState''
        = map_of (ix_accounts (iwc_instruction c)) ''relayerState'' \<and>
    map_of (ix_accounts (iwc_instruction v)) ''relayerConfig''
        = map_of (ix_accounts (iwc_instruction c)) ''relayerConfig'' \<and>
    map_of (ix_accounts (iwc_instruction c)) ''poll''
        = Some (am_pubkey (ix_remaining (iwc_instruction v) ! 1)) \<and>
    am_isWritable (ix_remaining (iwc_instruction v) ! 1) \<and>
    (\<forall>m \<in> set (ix_remaining (iwc_instruction v)). \<not> am_isSigner m) \<and>
    ix_args (iwc_instruction v) ! 4 = NumArg 4 \<and>
    iwc_cuLimit v = iwc_cuLimit c + 200000"
  using assms by (auto simp: createPoll_def voteWithRelayer_def relay_def rbind_eq_Inr moot_ix_def)

definition demo_env :: sdk_env where
  "demo_env = \<lparr>se_pda = (\<lambda>seeds prog. take 32 (concat seeds @ prog)),
     se_le8 = (\<lambda>n. Inr (le_bytes 8 n)), se_moot = replicate 32 7, se_relayer = replicate 32 9\<rparr>"

theorem voteWithRelayer_matches_createPoll_witness:
  "\<exists>c v. createPoll demo_env \<lparr>po_payer = [], po_id = 5, po_nChoices = 2, po_descriptionUrl = [],
       po_censusUrl = [], po_tallierKey = \<lparr>pt_x = [], pt_y = []\<rparr>, po_censusRoot = [],
       po_votingStartTime = 0, po_votingEndTime = 1, po_fee = 0, po_feeDestination = [],
       po_nVoters = 1\<rparr> = Inr c \<and>
     voteWithRelayer demo_env \<lparr>vr_relayer = [], vr_msgHash = [],
       vr_ephPk = \<lparr>pt_x = [], pt_y = []\<rparr>, vr_nonce = 1, vr_ciphertext = [[]],
       vr_relayerNuHash = [], vr_pollId = 5, vr_proof = \<lparr>cp_a = [], cp_b = [], cp_c = []\<rparr>,
       vr_relayerProof = \<lparr>cp_a = [], cp_b = [], cp_c = []\<rparr>, vr_rootStateNew = [],
       vr_platformFeeDestination = []\<rparr> = Inr v \<and>
     map_of (ix_accounts (iwc_instruction v)) ''relayerState''
       = map_of (ix_accounts (iwc_instruction c)) ''relayerState'' \<and>
     ix_args (iwc_instruction v) ! 4 = NumArg 4"
proof -
  let ?cp = "\<lparr>po_payer = [], po_id = 5, po_nChoices = 2, po_descriptionUrl = [],
       po_censusUrl = [], po_tallierKey = \<lparr>pt_x = [], pt_y = []\<rparr>, po_censusRoot = [],
       po_votingStartTime = 0, po_votingEndTime = 1, po_fee = 0, po_feeDestination = [],
       po_nVoters = 1\<rparr>"
  let ?pr = "\<lparr>cp_a = [], cp_b = [], cp_c = []\<rparr>"
  let ?p = "\<lparr>vr_relayer = [], vr_msgHash = [], vr_ephPk = \<lparr>pt_x = [], pt_y = []\<rparr>, vr_nonce = 1,
       vr_ciphertext = [[]], vr_relayerNuHash = [], vr_pollId = 5, vr_proof = ?pr,
       vr_relayerProof = ?pr, vr_rootStateNew = [], vr_platformFeeDestination = []\<rparr>"
  have "serializeVoteData (\<lambda>n. Inr (le_bytes 8 n)) [[]] ?pr \<lparr>pt_x = [], pt_y = []\<rparr> 1
      = Inr (le_bytes 8 1)"
    by (subst serializeVoteData_concat [where n = 0]) simp_all
  then obtain v where v: "voteWithRelayer demo_env ?p = Inr v"
    by (simp add: voteWithRelayer_def relay_def findPoll_def findRelayerState_def demo_env_def)
  obtain c where c: "createPoll demo_env ?cp = Inr c"
    by (simp add: createPoll_def findPoll_def findRelayerState_def demo_env_def)
  show ?thesis
    using voteWithRelayer_matches_createPoll [OF c v] c v by auto
qed

end
