(* ===== verification/Proc.thy ===== *)
theory Proc
  imports Prelude
begin

text \<open>
  Event handlers: procedures that read and update a state, may throw, and keep the updates
  made before the throw. \<open>attempt\<close> is \<open>try { .. } catch { .. } finally { .. }\<close>. The contract
  \<open>valid P m Q R\<close> says that from a state in \<open>P\<close> the procedure ends normally in \<open>Q\<close> or
  throws in \<open>R\<close>; its rules follow the text of a handler.
\<close>

named_theorems proc_simps "running procedures"

type_synonym ('s, 'a) proc = "'s \<Rightarrow> 'a res \<times> 's"

definition ret :: "'a \<Rightarrow> ('s, 'a) proc" where
  "ret x = (\<lambda>s. (Inr x, s))"

definition throw :: "js_error \<Rightarrow> ('s, 'a) proc" where
  "throw e = (\<lambda>s. (Inl e, s))"

definition lift :: "'a res \<Rightarrow> ('s, 'a) proc" where
  "lift r = (\<lambda>s. (r, s))"

definition read :: "('s \<Rightarrow> 'a) \<Rightarrow> ('s, 'a) proc" where
  "read f = (\<lambda>s. (Inr (f s), s))"

definition update :: "('s \<Rightarrow> 's) \<Rightarrow> ('s, unit) proc" where
  "update f = (\<lambda>s. (Inr (), f s))"

definition bind :: "('s, 'a) proc \<Rightarrow> ('a \<Rightarrow> ('s, 'b) proc) \<Rightarrow> ('s, 'b) proc" where
  "bind m f = (\<lambda>s. case m s of (Inl e, t) \<Rightarrow> (Inl e, t) | (Inr x, t) \<Rightarrow> f x t)"

definition seq :: "('s, unit) proc \<Rightarrow> ('s, 'b) proc \<Rightarrow> ('s, 'b) proc" where
  "seq m k = bind m (\<lambda>_. k)"

text \<open>\<open>if (b) throw new Error(m)\<close>, and a value that may be absent.\<close>

definition throw_if :: "bool \<Rightarrow> string \<Rightarrow> ('s, unit) proc" where
  "throw_if b m = (if b then throw (Thrown m) else ret ())"

definition need :: "'a option \<Rightarrow> string \<Rightarrow> ('s, 'a) proc" where
  "need x m = (case x of None \<Rightarrow> throw (Thrown m) | Some y \<Rightarrow> ret y)"

definition attempt ::
  "('s, 'a) proc \<Rightarrow> (js_error \<Rightarrow> 's \<Rightarrow> 's) \<Rightarrow> ('s \<Rightarrow> 's) \<Rightarrow> 's \<Rightarrow> 's" where
  "attempt body handler final s = (case body s of
       (Inl e, t) \<Rightarrow> final (handler e t)
     | (Inr _, t) \<Rightarrow> final t)"

lemma run_basic [simp, proc_simps]:
  "ret x s = (Inr x, s)" "throw e s = (Inl e, s)" "lift r s = (r, s)"
  "read f s = (Inr (f s), s)" "update g s = (Inr (), g s)"
  by (simp_all add: ret_def throw_def lift_def read_def update_def)

lemma run_bind [proc_simps]:
  "bind (ret x) f s = f x s"
  "bind (throw e) f s = (Inl e, s)"
  "bind (lift (Inr x)) f s = f x s"
  "bind (lift (Inl e)) f s = (Inl e, s)"
  "bind (read h) f s = f (h s) s"
  "bind (update g) k s = k () (g s)"
  "bind (throw_if b m) k s = (if b then (Inl (Thrown m), s) else k () s)"
  "bind (need None m) f s = (Inl (Thrown m), s)"
  "bind (need (Some x) m) f s = f x s"
  by (simp_all add: bind_def throw_if_def need_def)

lemma run_seq [proc_simps]:
  "seq (update g) k s = k (g s)"
  "seq (throw_if b m) k s = (if b then (Inl (Thrown m), s) else k s)"
  "seq (ret u) k s = k s"
  "seq (lift (Inr u)) k s = k s"
  "seq (lift (Inl e)) k s = (Inl e, s)"
  by (simp_all add: seq_def run_bind)

lemma bind_assoc: "bind (bind m f) g = bind m (\<lambda>x. bind (f x) g)"
  by (rule ext) (simp add: bind_def split: prod.splits sum.splits)

text \<open>Normal completion, read backwards.\<close>

named_theorems proc_ok "normal completion of procedures"

lemma bind_ok [proc_ok]:
  "bind m f s = (Inr y, t) \<longleftrightarrow> (\<exists>x u. m s = (Inr x, u) \<and> f x u = (Inr y, t))"
  by (cases "m s"; cases "fst (m s)") (auto simp: bind_def)

lemma seq_ok [proc_ok]:
  "seq m k s = (Inr y, t) \<longleftrightarrow> (\<exists>u. m s = (Inr (), u) \<and> k u = (Inr y, t))"
  by (simp add: seq_def bind_ok)

lemma basic_ok [proc_ok]:
  "lift r s = (Inr x, t) \<longleftrightarrow> r = Inr x \<and> t = s"
  "need a m s = (Inr x, t) \<longleftrightarrow> a = Some x \<and> t = s"
  "throw_if b m s = (Inr z, t) \<longleftrightarrow> \<not> b \<and> t = s"
  "ret x s = (Inr y, t) \<longleftrightarrow> x = y \<and> t = s"
  "throw e s = (Inr y, t) \<longleftrightarrow> False"
  "read h s = (Inr w, t) \<longleftrightarrow> w = h s \<and> t = s"
  "update g s = (Inr v, t) \<longleftrightarrow> t = g s"
  by (cases a; auto simp: need_def throw_if_def)+

section \<open>Contracts\<close>

definition valid ::
  "('s \<Rightarrow> bool) \<Rightarrow> ('s, 'a) proc \<Rightarrow> ('a \<Rightarrow> 's \<Rightarrow> bool) \<Rightarrow> (js_error \<Rightarrow> 's \<Rightarrow> bool) \<Rightarrow> bool" where
  "valid P m Q R \<longleftrightarrow> (\<forall>s. P s \<longrightarrow> (case m s of (Inl e, t) \<Rightarrow> R e t | (Inr x, t) \<Rightarrow> Q x t))"

named_theorems valid_intros "rules for contracts"

lemma valid_ret [valid_intros]: "(\<And>s. P s \<Longrightarrow> Q x s) \<Longrightarrow> valid P (ret x) Q R"
  by (simp add: valid_def)

lemma valid_throw [valid_intros]: "(\<And>s. P s \<Longrightarrow> R e s) \<Longrightarrow> valid P (throw e) Q R"
  by (simp add: valid_def)

lemma valid_lift [valid_intros]:
  "(\<And>s x. P s \<Longrightarrow> r = Inr x \<Longrightarrow> Q x s) \<Longrightarrow> (\<And>s e. P s \<Longrightarrow> r = Inl e \<Longrightarrow> R e s) \<Longrightarrow>
   valid P (lift r) Q R"
  by (cases r) (simp_all add: valid_def)

lemma valid_read [valid_intros]: "(\<And>s. P s \<Longrightarrow> Q (f s) s) \<Longrightarrow> valid P (read f) Q R"
  by (simp add: valid_def)

lemma valid_update [valid_intros]: "(\<And>s. P s \<Longrightarrow> Q () (g s)) \<Longrightarrow> valid P (update g) Q R"
  by (simp add: valid_def)

lemma valid_throw_if [valid_intros]:
  "(\<And>s. P s \<Longrightarrow> \<not> b \<Longrightarrow> Q () s) \<Longrightarrow> (\<And>s. P s \<Longrightarrow> b \<Longrightarrow> R (Thrown m) s) \<Longrightarrow>
   valid P (throw_if b m) Q R"
  by (simp add: valid_def throw_if_def)

lemma valid_need [valid_intros]:
  "(\<And>s y. P s \<Longrightarrow> x = Some y \<Longrightarrow> Q y s) \<Longrightarrow> (\<And>s. P s \<Longrightarrow> x = None \<Longrightarrow> R (Thrown m) s) \<Longrightarrow>
   valid P (need x m) Q R"
  by (cases x) (simp_all add: valid_def need_def)

lemma valid_bind:
  assumes "valid P m Q' R" "\<And>x. valid (Q' x) (f x) Q R"
  shows "valid P (bind m f) Q R"
  unfolding valid_def bind_def
proof (intro allI impI)
  fix s assume "P s"
  with assms(1) have m: "case m s of (Inl e, t) \<Rightarrow> R e t | (Inr x, t) \<Rightarrow> Q' x t"
    by (simp add: valid_def)
  obtain r t where "m s = (r, t)" by (cases "m s")
  with m assms(2) show "case (case m s of (Inl e, t) \<Rightarrow> (Inl e, t) | (Inr x, t) \<Rightarrow> f x t) of
      (Inl e, t) \<Rightarrow> R e t | (Inr x, t) \<Rightarrow> Q x t"
    by (cases r) (simp_all add: valid_def)
qed

lemma valid_seq:
  "valid P m (\<lambda>_. Q') R \<Longrightarrow> valid Q' k Q R \<Longrightarrow> valid P (seq m k) Q R"
  unfolding seq_def by (rule valid_bind)

text \<open>A procedure keeps what it neither needs nor changes.\<close>

abbreviation keeps :: "('s \<Rightarrow> bool) \<Rightarrow> ('s, 'a) proc \<Rightarrow> bool" where
  "keeps I m \<equiv> valid I m (\<lambda>_. I) (\<lambda>_. I)"

lemma valid_attempt:
  assumes "valid P body Q R"
    and "\<And>x s. Q x s \<Longrightarrow> T (final s)" "\<And>e s. R e s \<Longrightarrow> T (final (handler e s))"
  shows "P s \<Longrightarrow> T (attempt body handler final s)"
proof -
  assume "P s"
  obtain r t where b: "body s = (r, t)" by (cases "body s")
  with assms(1) \<open>P s\<close> have "case r of Inl e \<Rightarrow> R e t | Inr x \<Rightarrow> Q x t"
    unfolding valid_def by (auto split: sum.splits)
  with assms(2,3) b show ?thesis by (cases r) (simp_all add: attempt_def)
qed

text \<open>\<open>run\<close> forgets the result: what a caller that ignores it observes.\<close>

definition run_proc :: "('s, 'a) proc \<Rightarrow> 's \<Rightarrow> 's" where
  "run_proc m s = snd (m s)"

end
