(* ===== verification/Base64.thy ===== *)
theory Base64
  imports Bytes
begin

text \<open>
  \<open>btoa\<close> and \<open>atob\<close> on byte strings, as \<open>helpers/utils.ts\<close> (\<open>u8ToB64\<close>, \<open>b64ToU8\<close>) and
  \<open>frontend/src/blob.ts\<close> use them: three bytes are four six-bit digits, a missing group is
  filled with \<open>=\<close>.
\<close>

definition b64_char :: "nat \<Rightarrow> char" where
  "b64_char n =
     (if n < 26 then char_of (65 + n) else if n < 52 then char_of (71 + n)
      else if n < 62 then char_of (n - 4) else if n = 62 then CHR ''+'' else CHR ''/'')"

definition b64_digit :: "char \<Rightarrow> nat option" where
  "b64_digit c = (let n = of_char c :: nat in
     if 65 \<le> n \<and> n \<le> 90 then Some (n - 65) else if 97 \<le> n \<and> n \<le> 122 then Some (n - 71)
     else if 48 \<le> n \<and> n \<le> 57 then Some (n + 4) else if n = 43 then Some 62
     else if n = 47 then Some 63 else None)"

definition ascii_space :: "char \<Rightarrow> bool" where
  "ascii_space c \<longleftrightarrow> of_char c \<in> {9, 10, 12, 13, 32 :: nat}"

lemma b64_digit_char: "n < 64 \<Longrightarrow> b64_digit (b64_char n) = Some n"
  by (auto simp: b64_digit_def b64_char_def Let_def of_char_of)

lemma b64_char_plain: "n < 64 \<Longrightarrow> b64_char n \<noteq> CHR ''='' \<and> \<not> ascii_space (b64_char n)"
proof -
  assume "n < 64"
  then have "b64_digit (b64_char n) \<noteq> None" by (simp add: b64_digit_char)
  moreover have "b64_digit (CHR ''='') = None" by code_simp
  moreover have "ascii_space c \<Longrightarrow> b64_digit c = None" for c
    by (auto simp: ascii_space_def b64_digit_def Let_def)
  ultimately show ?thesis by metis
qed

fun bytes_sextets :: "byte list \<Rightarrow> nat list" where
  "bytes_sextets [] = []"
| "bytes_sextets [a] = [unat a div 4, unat a mod 4 * 16]"
| "bytes_sextets [a, b] =
     [unat a div 4, unat a mod 4 * 16 + unat b div 16, unat b mod 16 * 4]"
| "bytes_sextets (a # b # c # r) =
     [unat a div 4, unat a mod 4 * 16 + unat b div 16, unat b mod 16 * 4 + unat c div 64,
      unat c mod 64] @ bytes_sextets r"

fun sextets_bytes :: "nat list \<Rightarrow> byte list" where
  "sextets_bytes (w # x # y # z # r) =
     [word_of_nat (w * 4 + x div 16), word_of_nat (x mod 16 * 16 + y div 4),
      word_of_nat (y mod 4 * 64 + z)] @ sextets_bytes r"
| "sextets_bytes [w, x, y] = [word_of_nat (w * 4 + x div 16), word_of_nat (x mod 16 * 16 + y div 4)]"
| "sextets_bytes [w, x] = [word_of_nat (w * 4 + x div 16)]"
| "sextets_bytes _ = []"

lemma unat_byte: "unat (b :: byte) < 256"
  using unsigned_less [of b] by simp

lemma glue: "t < k \<Longrightarrow> (q * k + t) div k = q" "t < k \<Longrightarrow> (q * k + t) mod k = (t :: nat)"
  by (simp_all add: div_add1_eq)

lemma byte_parts: "unat (b :: byte) div 4 < 64" "unat b div 16 < 16" "unat b div 64 < 4"
  using unat_byte [of b] by auto

lemma sextets_of_bytes: "sextets_bytes (bytes_sextets bs) = bs"
proof (induction bs rule: bytes_sextets.induct)
  case (2 a)
  show ?case by simp
next
  case (3 a b)
  show ?case by (simp add: glue byte_parts)
next
  case (4 a b c r)
  then show ?case by (simp add: glue byte_parts)
qed simp

lemma glue_less: "q < m \<Longrightarrow> t < k \<Longrightarrow> q * k + t < m * (k :: nat)"
proof -
  assume "q < m" "t < k"
  then have "q * k + t < Suc q * k" by simp
  also have "\<dots> \<le> m * k" using \<open>q < m\<close> by (intro mult_le_mono1) simp
  finally show ?thesis .
qed

lemma sextets_range: "\<forall>n \<in> set (bytes_sextets bs). n < 64"
proof (induction bs rule: bytes_sextets.induct)
  case (2 a)
  show ?case using glue_less [of "unat a mod 4" 4 0 16] byte_parts(1) [of a] by simp
next
  case (3 a b)
  show ?case
    using glue_less [of "unat a mod 4" 4 "unat b div 16" 16] glue_less [of "unat b mod 16" 16 0 4]
      byte_parts [of a] byte_parts [of b] by simp
next
  case (4 a b c r)
  then show ?case
    using glue_less [of "unat a mod 4" 4 "unat b div 16" 16]
      glue_less [of "unat b mod 16" 16 "unat c div 64" 4]
      byte_parts [of a] byte_parts [of b] byte_parts [of c] by simp
qed simp

lemma length_sextets:
  "length (bytes_sextets bs) mod 4 = (if length bs mod 3 = 0 then 0 else length bs mod 3 + 1)"
  by (induction bs rule: bytes_sextets.induct) (auto simp: mod_simps)

definition u8ToB64 :: "byte list \<Rightarrow> string" where
  "u8ToB64 bs = map b64_char (bytes_sextets bs) @ replicate ((3 - length bs mod 3) mod 3) (CHR ''='')"

text \<open>
  \<open>atob\<close>: white space is dropped, one or two trailing \<open>=\<close> are dropped when the length is a
  multiple of four; then a length of one modulo four or a foreign character is an error.
\<close>

definition drop_pad :: "string \<Rightarrow> string" where
  "drop_pad s =
     (if length s mod 4 \<noteq> 0 then s
      else let n = length (takeWhile (\<lambda>c. c = CHR ''='') (rev s)) in take (length s - min n 2) s)"

definition b64ToU8 :: "string \<Rightarrow> byte list res" where
  "b64ToU8 s = (let t = drop_pad (filter (\<lambda>c. \<not> ascii_space c) s); ds = map b64_digit t in
     if length t mod 4 = 1 \<or> None \<in> set ds then Inl (Thrown ''InvalidCharacterError'')
     else Inr (sextets_bytes (map the ds)))"

lemma drop_pad_pad:
  assumes "CHR ''='' \<notin> set s" "length s mod 4 \<noteq> 1"
  shows "drop_pad (s @ replicate ((4 - length s mod 4) mod 4) (CHR ''='')) = s"
proof -
  have tw: "takeWhile (\<lambda>c. c = CHR ''='') (rev s) = []"
    using assms(1) by (cases s rule: rev_cases) auto
  have "length s mod 4 < 4" by simp
  then consider "length s mod 4 = 0" | "length s mod 4 = 2" | "length s mod 4 = 3"
    using assms(2) by linarith
  then show ?thesis
  proof cases
    case 1
    then show ?thesis using tw by (simp add: drop_pad_def)
  next
    case 2
    then have "(length s + 2) mod 4 = 0" by presburger
    with 2 tw show ?thesis
      by (simp add: drop_pad_def numeral_2_eq_2 takeWhile_tail)
  next
    case 3
    then have "(length s + 1) mod 4 = 0" by presburger
    with 3 tw show ?thesis by (simp add: drop_pad_def)
  qed
qed

lemma b64ToU8_u8ToB64: "b64ToU8 (u8ToB64 bs) = Inr bs"
proof -
  let ?s = "map b64_char (bytes_sextets bs)"
  have pad: "(3 - length bs mod 3) mod 3 = (4 - length ?s mod 4) mod 4"
    using length_sextets [of bs] by (auto split: if_splits)
  have mod: "length ?s mod 4 \<noteq> 1" using length_sextets [of bs] by (auto split: if_splits)
  have plain: "CHR ''='' \<notin> set ?s" "filter (\<lambda>c. \<not> ascii_space c) ?s = ?s"
    using sextets_range [of bs] b64_char_plain by (auto simp: filter_id_conv dest: sym)
  have eqs: "\<not> ascii_space (CHR ''='')" by (simp add: ascii_space_def)
  then have "filter (\<lambda>c. \<not> ascii_space c) (u8ToB64 bs) = u8ToB64 bs"
    by (simp add: u8ToB64_def plain)
  then have t: "drop_pad (filter (\<lambda>c. \<not> ascii_space c) (u8ToB64 bs)) = ?s"
    using drop_pad_pad [OF plain(1) mod] by (simp add: u8ToB64_def pad)
  have ds: "map b64_digit ?s = map Some (bytes_sextets bs)"
    using sextets_range [of bs] by (simp add: b64_digit_char)
  have "map the (map Some (bytes_sextets bs)) = bytes_sextets bs" by (simp add: comp_def)
  with mod show ?thesis
    unfolding b64ToU8_def t Let_def ds by (simp add: sextets_of_bytes image_iff)
qed

end
