(* ===== verification/JsonTags.thy ===== *)
theory JsonTags
  imports Base64
begin

text \<open>
  The tagged JSON of \<open>helpers/utils.ts\<close> (\<open>jsonReplacer\<close>, \<open>jsonReviver\<close>): big integers and
  typed arrays, which JSON cannot hold, become objects with a tag. \<open>json_write\<close> and
  \<open>json_read\<close> are the traversals of \<open>JSON.stringify\<close> (parents first) and \<open>JSON.parse\<close>
  (children first) around them; the text between them is left to \<open>Blob\<close>.
\<close>

text \<open>JavaScript data. Numbers are the integers among them; a typed array is its constructor's
  name and its bytes.\<close>

datatype jsv =
    JNull
  | JBool bool
  | JNum int
  | JStr string
  | JBig int
  | JTyped string "byte list"
  | JArr "jsv list"
  | JObj "(string \<times> jsv) list"

definition TA_TAG :: string where "TA_TAG = ''__typedarray__''"
definition BIGINT_TAG :: string where "BIGINT_TAG = ''__bigint__''"

text \<open>\<open>constructors\<close>, with the \<open>BYTES_PER_ELEMENT\<close> of each. (Names that every object inherits,
  such as \<open>toString\<close>, are not modelled as keys.)\<close>

definition constructors :: "(string \<times> nat) list" where
  "constructors = [(''Uint8Array'', 1), (''Int8Array'', 1), (''Uint16Array'', 2), (''Int16Array'', 2),
     (''Uint32Array'', 4), (''Int32Array'', 4), (''Float32Array'', 4), (''Float64Array'', 8),
     (''BigInt64Array'', 8), (''BigUint64Array'', 8)]"

definition jsonReplacer :: "jsv \<Rightarrow> jsv" where
  "jsonReplacer v = (case v of
       JBig n \<Rightarrow> JObj [(BIGINT_TAG, JStr (to_string 10 n))]
     | JTyped name bytes \<Rightarrow> JObj [(TA_TAG, JStr name), (''data'', JStr (u8ToB64 bytes))]
     | _ \<Rightarrow> v)"

text \<open>\<open>BigInt(x)\<close> on data.\<close>

definition bigint_of_jsv :: "jsv \<Rightarrow> int res" where
  "bigint_of_jsv v = (case v of
       JStr s \<Rightarrow> bigint_of_string s
     | JNum n \<Rightarrow> Inr n
     | JBig n \<Rightarrow> Inr n
     | JBool b \<Rightarrow> Inr (if b then 1 else 0)
     | JNull \<Rightarrow> Inl TypeError
     | _ \<Rightarrow> Inl SyntaxError)"

definition jsonReviver :: "jsv \<Rightarrow> jsv res" where
  "jsonReviver v = (case v of
       JObj kvs \<Rightarrow> (case map_of kvs BIGINT_TAG of
           Some b \<Rightarrow> rbind (bigint_of_jsv b) (\<lambda>n. Inr (JBig n))
         | None \<Rightarrow> (case (map_of kvs TA_TAG, map_of kvs ''data'') of
               (Some (JStr name), Some (JStr data)) \<Rightarrow> (case map_of constructors name of
                   Some bpe \<Rightarrow> rbind (b64ToU8 data) (\<lambda>bytes.
                     Inr (JTyped name (take (length bytes div bpe * bpe) bytes)))
                 | None \<Rightarrow> Inr v)
             | _ \<Rightarrow> Inr v))
     | _ \<Rightarrow> Inr v)"

fun json_write :: "jsv \<Rightarrow> jsv" where
  "json_write (JArr vs) = JArr (map json_write vs)"
| "json_write (JObj kvs) = JObj (map (\<lambda>kv. (fst kv, json_write (snd kv))) kvs)"
| "json_write v = jsonReplacer v"

lemma size_arr: "v \<in> set vs \<Longrightarrow> size v < size (JArr vs)"
  by (induction vs) auto

lemma size_obj: "kv \<in> set kvs \<Longrightarrow> size (snd kv) < size (JObj kvs)"
  by (induction kvs) auto

function json_read :: "jsv \<Rightarrow> jsv res" where
  "json_read v = (case v of
       JArr vs \<Rightarrow> rbind (mapM json_read vs) (\<lambda>us. jsonReviver (JArr us))
     | JObj kvs \<Rightarrow>
         rbind (mapM (\<lambda>kv. rbind (json_read (snd kv)) (\<lambda>u. Inr (fst kv, u))) kvs) (\<lambda>us.
           jsonReviver (JObj us))
     | w \<Rightarrow> jsonReviver w)"
  by pat_completeness auto
termination
  by (relation "measure size") (use size_arr size_obj in auto)

declare json_read.simps [simp del]

text \<open>Data that the tags do not confuse: no object uses a tag as a key, and a typed array has
  a known constructor and whole elements.\<close>

fun json_ok :: "jsv \<Rightarrow> bool" where
  "json_ok (JTyped name bytes) = (case map_of constructors name of
       None \<Rightarrow> False | Some bpe \<Rightarrow> length bytes mod bpe = 0)"
| "json_ok (JArr vs) = (\<forall>v \<in> set vs. json_ok v)"
| "json_ok (JObj kvs) = (map_of kvs BIGINT_TAG = None \<and> map_of kvs TA_TAG = None \<and>
     (\<forall>kv \<in> set kvs. json_ok (snd kv)))"
| "json_ok _ = True"

lemma json_read_simps [simp]:
  "json_read JNull = Inr JNull" "json_read (JBool b) = Inr (JBool b)"
  "json_read (JNum n) = Inr (JNum n)" "json_read (JStr s) = Inr (JStr s)"
  by (subst json_read.simps; simp add: jsonReviver_def)+

lemma read_big: "json_read (jsonReplacer (JBig n)) = Inr (JBig n)"
  by (simp add: jsonReplacer_def json_read.simps jsonReviver_def bigint_of_jsv_def bigint_of_to_string_int)

lemma read_typed:
  assumes "map_of constructors name = Some bpe" "length bytes mod bpe = 0"
  shows "json_read (jsonReplacer (JTyped name bytes)) = Inr (JTyped name bytes)"
proof -
  have "length bytes div bpe * bpe = length bytes" using assms(2) by auto
  moreover have "TA_TAG \<noteq> BIGINT_TAG" "TA_TAG \<noteq> ''data''" "BIGINT_TAG \<noteq> ''data''"
    by (simp_all add: TA_TAG_def BIGINT_TAG_def)
  ultimately show ?thesis
    using assms(1) by (simp add: jsonReplacer_def json_read.simps jsonReviver_def b64ToU8_u8ToB64)
qed

lemma map_of_snd: "map_of (map (\<lambda>kv. (fst kv, f (snd kv))) kvs) k = map_option f (map_of kvs k)"
  by (induction kvs) auto

lemma json_read_write: "json_ok v \<Longrightarrow> json_read (json_write v) = Inr v"
proof (induction v rule: json_write.induct)
  case (1 vs)
  then have "mapM json_read (map json_write vs) = Inr vs"
    by (induction vs) auto
  then show ?case by (simp add: json_read.simps jsonReviver_def)
next
  case (2 kvs)
  then have "\<forall>kv \<in> set kvs. json_read (json_write (snd kv)) = Inr (snd kv)" by simp
  then have "mapM (\<lambda>kv. rbind (json_read (snd kv)) (\<lambda>u. Inr (fst kv, u)))
      (map (\<lambda>kv. (fst kv, json_write (snd kv))) kvs) = Inr kvs"
    by (induction kvs) auto
  with 2 show ?case by (simp add: json_read.simps jsonReviver_def)
qed (auto simp: jsonReplacer_def read_big [unfolded jsonReplacer_def, simplified]
    split: option.splits intro: read_typed [unfolded jsonReplacer_def, simplified])

text \<open>
  \<open>JSON.parse\<close> with the reviver inverts \<open>JSON.stringify\<close> with the replacer on every value
  whose objects do not use the two tags as keys, big integers of either sign and typed arrays
  of every element size included.
\<close>

theorem json_roundtrip: "json_ok v \<Longrightarrow> json_read (json_write v) = Inr v"
  by (rule json_read_write)

theorem json_roundtrip_witness:
  "json_read (json_write (JObj [(''sk'', JBig (- 5)), (''prv'', JTyped ''Uint16Array'' [1, 2])]))
    = Inr (JObj [(''sk'', JBig (- 5)), (''prv'', JTyped ''Uint16Array'' [1, 2])])"
  by (rule json_roundtrip) (simp add: BIGINT_TAG_def TA_TAG_def constructors_def)

end
