(* ===== verification/Blob.thy ===== *)
theory Blob
  imports JsonTags "HOL-Library.Countable"
begin

text \<open>
  Encryption under a passphrase, \<open>frontend/src/blob.ts\<close>. PBKDF2, AES-GCM and the text form of
  JSON trees belong to the platform (\<open>crypto_env\<close>). \<open>vault\<close> is what the keyring relies on:
  a sealed value opens under the passphrase it was sealed with.
\<close>

record 'k crypto_env =
  ce_derive :: "string \<Rightarrow> byte list \<Rightarrow> nat \<Rightarrow> string \<Rightarrow> 'k"
  ce_encrypt :: "'k \<Rightarrow> byte list \<Rightarrow> byte list \<Rightarrow> byte list"
  ce_decrypt :: "'k \<Rightarrow> byte list \<Rightarrow> byte list \<Rightarrow> byte list res"
  ce_text :: "jsv \<Rightarrow> byte list"
  ce_parse :: "byte list \<Rightarrow> jsv res"

record encrypted_blob =
  eb_v :: int
  eb_saltB64 :: string
  eb_ivB64 :: string
  eb_ctB64 :: string

definition pbkdf2 :: "'k crypto_env \<Rightarrow> string \<Rightarrow> byte list \<Rightarrow> 'k" where
  "pbkdf2 C pass salt = ce_derive C pass salt 250000 ''SHA-256''"

definition encryptToBlob ::
  "'k crypto_env \<Rightarrow> string \<Rightarrow> jsv \<Rightarrow> byte list \<times> byte list \<Rightarrow> encrypted_blob" where
  "encryptToBlob C pass obj rnd =
     (let salt = fst rnd; iv = snd rnd; key = pbkdf2 C pass salt;
          pt = ce_text C (json_write obj); ct = ce_encrypt C key iv pt
      in \<lparr>eb_v = 1, eb_saltB64 = u8ToB64 salt, eb_ivB64 = u8ToB64 iv, eb_ctB64 = u8ToB64 ct\<rparr>)"

definition decryptFromBlob :: "'k crypto_env \<Rightarrow> string \<Rightarrow> encrypted_blob \<Rightarrow> jsv res" where
  "decryptFromBlob C pass blob =
     rbind (b64ToU8 (eb_saltB64 blob)) (\<lambda>salt.
     rbind (b64ToU8 (eb_ivB64 blob)) (\<lambda>iv.
     rbind (b64ToU8 (eb_ctB64 blob)) (\<lambda>ct.
     rbind (ce_decrypt C (pbkdf2 C pass salt) iv ct) (\<lambda>pt.
     rbind (ce_parse C pt) json_read))))"

section \<open>The contract\<close>

text \<open>
  Authenticated encryption: decryption inverts encryption under the same key and fails under
  another one. \<open>JSON.parse\<close> inverts \<open>JSON.stringify\<close>.
\<close>

definition crypto_law :: "'k crypto_env \<Rightarrow> bool" where
  "crypto_law C \<longleftrightarrow>
     (\<forall>k iv pt. ce_decrypt C k iv (ce_encrypt C k iv pt) = Inr pt) \<and>
     (\<forall>v. ce_parse C (ce_text C v) = Inr v)"

definition auth_law :: "'k crypto_env \<Rightarrow> bool" where
  "auth_law C \<longleftrightarrow> (\<forall>k k' iv pt. k \<noteq> k' \<longrightarrow> (\<exists>e. ce_decrypt C k' iv (ce_encrypt C k iv pt) = Inl e))"

lemma blob_roundtrip:
  "crypto_law C \<Longrightarrow> json_ok v \<Longrightarrow> decryptFromBlob C p (encryptToBlob C p v r) = Inr v"
  by (simp add: decryptFromBlob_def encryptToBlob_def Let_def b64ToU8_u8ToB64 crypto_law_def
      json_read_write)

lemma blob_wrong_pass:
  "auth_law C \<Longrightarrow> pbkdf2 C p (fst r) \<noteq> pbkdf2 C p' (fst r) \<Longrightarrow>
   \<exists>e. decryptFromBlob C p' (encryptToBlob C p v r) = Inl e"
  unfolding decryptFromBlob_def encryptToBlob_def Let_def auth_law_def
  by (simp add: b64ToU8_u8ToB64) (metis rbind_Inl)

locale vault =
  fixes seal :: "string \<Rightarrow> 'v \<Rightarrow> 'r \<Rightarrow> 'b"
    and unseal :: "string \<Rightarrow> 'b \<Rightarrow> 'v res"
    and fits :: "'v \<Rightarrow> bool"
  assumes open_seal: "fits v \<Longrightarrow> unseal p (seal p v r) = Inr v"
begin

lemma seal_inj: "fits v \<Longrightarrow> fits w \<Longrightarrow> seal p v r = seal p w r' \<Longrightarrow> v = w"
  using open_seal by (metis Inr_inject)

text \<open>A store of sealed values: the last write under a key is what opens.\<close>

lemma open_last_write:
  "fits v \<Longrightarrow> db = (db0(k \<mapsto> seal p v r)) \<Longrightarrow> (\<exists>b. db k = Some b \<and> unseal p b = Inr v)"
  by (simp add: open_seal)

lemma open_other_write:
  "k \<noteq> k' \<Longrightarrow> (\<exists>b. db k = Some b \<and> unseal p b = Inr v) \<Longrightarrow>
   (\<exists>b. (db(k' \<mapsto> c)) k = Some b \<and> unseal p b = Inr v)"
  by auto

end

interpretation blob: vault "encryptToBlob C" "decryptFromBlob C" "\<lambda>v. crypto_law C \<and> json_ok v"
  for C :: "'k crypto_env"
  by unfold_locales (simp add: blob_roundtrip)

text \<open>
  A value sealed under a passphrase opens to itself under that passphrase, whatever the
  salt and the initialisation vector, and no other value seals to the same blob.
\<close>

theorem encryptToBlob_opens:
  assumes "crypto_law C" "json_ok v"
  shows "decryptFromBlob C pass (encryptToBlob C pass v rnd) = Inr v \<and>
    (\<forall>w. json_ok w \<and> encryptToBlob C pass v rnd = encryptToBlob C pass w rnd \<longrightarrow> v = w)"
  using blob.open_seal [of C v] blob.seal_inj [of C v] assms by blast

text \<open>
  An instance: the key is the passphrase, its number is written in unary in front of the
  plain text; the text of a JSON tree is its number in unary.
\<close>

instance jsv :: countable
  by countable_datatype

definition tag_crypto :: "string crypto_env" where
  "tag_crypto = \<lparr>ce_derive = (\<lambda>p salt n h. p),
     ce_encrypt = (\<lambda>k iv pt. replicate (to_nat k) 0 @ [1] @ pt),
     ce_decrypt = (\<lambda>k iv ct. let n = length (takeWhile (\<lambda>b. b = 0) ct) in
       if n = to_nat k then Inr (drop (Suc n) ct) else Inl (Thrown ''OperationError'')),
     ce_text = (\<lambda>v. replicate (to_nat v) 0),
     ce_parse = (\<lambda>bs. Inr (from_nat (length bs)))\<rparr>"

lemma zeros_prefix: "takeWhile (\<lambda>b. b = (0 :: byte)) (replicate n 0 @ 1 # pt) = replicate n 0"
  by (induction n) simp_all

lemma tag_crypto_law: "crypto_law tag_crypto" "auth_law tag_crypto"
  by (simp_all add: crypto_law_def auth_law_def tag_crypto_def zeros_prefix)

theorem encryptToBlob_opens_witness:
  "decryptFromBlob tag_crypto ''pass'' (encryptToBlob tag_crypto ''pass'' (JBig (- 7)) ([1, 2], [3]))
    = Inr (JBig (- 7))"
  using encryptToBlob_opens [OF tag_crypto_law(1), of "JBig (- 7)"] by simp

end
