(* ===== verification/Key.thy ===== *)
theory Key
  imports Bytes
begin

text \<open>
  \<open>helpers/key.ts\<close>: random scalars and Baby Jubjub key pairs. Blake, the pruning of the
  buffer and the scalar multiplication are circomlibjs (\<open>key_env\<close>); random bytes are
  arguments.
\<close>

section \<open>Random scalars\<close>

definition bytes_to_big :: "byte list \<Rightarrow> int" where
  "bytes_to_big bytes = foldl (\<lambda>x b. (push_bit 8 x) OR uint b) 0 bytes"

text \<open>\<open>%\<close> by zero is a \<open>RangeError\<close>.\<close>

definition randomScalar :: "byte list \<Rightarrow> int \<Rightarrow> int res" where
  "randomScalar bytes m =
     (if m - 1 = 0 then Inl RangeError else Inr (bytes_to_big bytes smod (m - 1) + 1))"

lemma bytes_to_big_val: "bytes_to_big bs = be_val 256 (map uint bs)"
proof -
  have "foldl (\<lambda>x b. (push_bit 8 x) OR uint b) a bs = foldl (\<lambda>x d. x * 256 + d) a (map uint bs)" for a
    by (induction bs arbitrary: a) (simp_all add: shift_or_byte)
  then show ?thesis by (simp add: bytes_to_big_def be_val_def)
qed

text \<open>
  C38: for every modulus above one and every 32 random bytes, \<open>randomScalar\<close> returns a scalar
  in \<open>[1, m - 1]\<close>: never zero, never the modulus. A modulus of one is a \<open>RangeError\<close>.
\<close>

theorem randomScalar_range:
  "(1 < m \<longrightarrow> (\<exists>r. randomScalar bytes m = Inr r \<and> 1 \<le> r \<and> r \<le> m - 1)) \<and>
   randomScalar bytes 1 = Inl RangeError"
proof -
  have nn: "0 \<le> bytes_to_big bytes"
    unfolding bytes_to_big_val by (rule be_val_range(1)) (auto simp: digits_ok_def byte_range)
  have "\<exists>r. randomScalar bytes m = Inr r \<and> 1 \<le> r \<and> r \<le> m - 1" if m: "1 < m"
  proof (intro exI conjI)
    show "randomScalar bytes m = Inr (bytes_to_big bytes mod (m - 1) + 1)"
      using nn m by (simp add: randomScalar_def smod_pos)
    have "0 \<le> bytes_to_big bytes mod (m - 1)" "bytes_to_big bytes mod (m - 1) < m - 1"
      using m by simp_all
    then show "1 \<le> bytes_to_big bytes mod (m - 1) + 1" "bytes_to_big bytes mod (m - 1) + 1 \<le> m - 1"
      by linarith+
  qed
  then show ?thesis by (simp add: randomScalar_def)
qed

theorem randomScalar_range_witness:
  "\<exists>r. randomScalar [1, 2] 7 = Inr r \<and> 1 \<le> r \<and> r \<le> 6"
  using randomScalar_range [of 7 "[1, 2]"] by simp

section \<open>Key pairs\<close>

text \<open>
  \<open>ke_digest\<close> is \<open>pruneBuffer(blake512(prv))\<close>, \<open>ke_mulBase sk\<close> the coordinates of
  \<open>mulPointEscalar(Base8, sk)\<close>.
\<close>

record key_env =
  ke_digest :: "byte list \<Rightarrow> byte list"
  ke_mulBase :: "int \<Rightarrow> int \<times> int"

text \<open>\<open>Scalar.fromRprLE(b, 0, 32)\<close>: the first 32 bytes, least significant first.\<close>

definition fromRprLE :: "byte list \<Rightarrow> int" where
  "fromRprLE b = bytes_to_big (rev (take 32 b))"

definition prv2sk :: "key_env \<Rightarrow> byte list \<Rightarrow> int" where
  "prv2sk K prv = drop_bit 3 (fromRprLE (ke_digest K prv))"

definition genBabyJubKeypair :: "key_env \<Rightarrow> byte list \<Rightarrow> byte list \<times> int \<times> (int \<times> int)" where
  "genBabyJubKeypair K random =
     (let prv = random; sk = prv2sk K prv in (prv, sk, ke_mulBase K sk))"

text \<open>What pruning does: it clears the low three bits of the first byte and the top bit of the
  32nd, and sets the bit below.\<close>

definition prune_law :: "key_env \<Rightarrow> bool" where
  "prune_law K \<longleftrightarrow> (\<forall>prv. 32 \<le> length (ke_digest K prv) \<and>
     uint (ke_digest K prv ! 0) mod 8 = 0 \<and>
     64 \<le> uint (ke_digest K prv ! 31) \<and> uint (ke_digest K prv ! 31) < 128)"

lemma fromRprLE_split:
  assumes "32 \<le> length b"
  shows "fromRprLE b = be_val 256 (map uint (rev (take 31 b))) + uint (b ! 31) * 256 ^ 31"
    and "fromRprLE b = be_val 256 (map uint (rev (drop 1 (take 32 b)))) * 256 + uint (b ! 0)"
proof -
  have "take 32 b = take 31 b @ [b ! 31]" using take_Suc_conv_app_nth [of 31 b] assms by simp
  then have "rev (take 32 b) = b ! 31 # rev (take 31 b)" by simp
  then show "fromRprLE b = be_val 256 (map uint (rev (take 31 b))) + uint (b ! 31) * 256 ^ 31"
    using assms by (simp add: fromRprLE_def bytes_to_big_val be_val_Cons)
  have "take 32 b = b ! 0 # drop 1 (take 32 b)" using assms by (cases b) auto
  then have "rev (take 32 b) = rev (drop 1 (take 32 b)) @ [b ! 0]" by (metis rev.simps(2))
  then show "fromRprLE b = be_val 256 (map uint (rev (drop 1 (take 32 b)))) * 256 + uint (b ! 0)"
    by (simp add: fromRprLE_def bytes_to_big_val be_val_def)
qed

text \<open>
  Under the documented pruning, the secret scalar of every private key lies in
  \<open>[2^251, 2^252)\<close> and shifting loses nothing: eight times the scalar is the pruned number.
\<close>

theorem prv2sk_range:
  assumes "prune_law K"
  shows "2 ^ 251 \<le> prv2sk K prv \<and> prv2sk K prv < 2 ^ 252 \<and>
    8 * prv2sk K prv = fromRprLE (ke_digest K prv)"
proof -
  let ?b = "ke_digest K prv" and ?n = "fromRprLE (ke_digest K prv)"
  have len: "32 \<le> length ?b" and b0: "uint (?b ! 0) mod 8 = 0"
    and b31: "64 \<le> uint (?b ! 31)" "uint (?b ! 31) < 128"
    using assms by (simp_all add: prune_law_def)
  let ?r = "be_val 256 (map uint (rev (take 31 ?b)))"
  have r: "0 \<le> ?r" "?r < 256 ^ 31"
    using len be_val_range [of 256 "map uint (rev (take 31 ?b))"] by (auto simp: digits_ok_def byte_range)
  have n: "?n = ?r + uint (?b ! 31) * 256 ^ 31" by (rule fromRprLE_split(1) [OF len])
  have lo: "2 ^ 254 \<le> ?n" using n r b31(1) by simp
  have hi: "?n < 2 ^ 255" using n r b31(2) by simp
  have m: "?n mod 8 = 0"
    unfolding fromRprLE_split(2) [OF len] using b0 by presburger
  have sk: "prv2sk K prv = ?n div 8" by (simp add: prv2sk_def drop_bit_eq_div)
  obtain q where "?n = 8 * q" using m by (auto elim: dvdE simp: mod_eq_0_iff_dvd)
  with lo hi show ?thesis unfolding sk by simp
qed

definition flat_keys :: key_env where
  "flat_keys = \<lparr>ke_digest = (\<lambda>prv. replicate 31 0 @ [64]), ke_mulBase = (\<lambda>sk. (sk, sk))\<rparr>"

theorem prv2sk_range_witness: "2 ^ 251 \<le> prv2sk flat_keys [] \<and> prv2sk flat_keys [] < 2 ^ 252"
proof -
  have "prune_law flat_keys" by (simp add: prune_law_def flat_keys_def nth_append)
  from prv2sk_range [OF this] show ?thesis by simp
qed

end
