(* ===== verification/Keyring.thy ===== *)
theory Keyring
  imports Proc Blob Hex Key
begin

text \<open>
  The keyring of \<open>frontend/src/keyring.tsx\<close>, hook \<open>useKeyring\<close>: accounts under a passphrase,
  the active account, import and removal, and the copy in IndexedDB and in localStorage. The
  platform and the libraries are \<open>kr_env\<close>; salts, random bytes, the clock and the answers of
  the user are its fields.
\<close>

definition KEYRING_DB_KEY :: string where "KEYRING_DB_KEY = ''mootvote:keyring:v1''"
definition ACTIVE_IDX_KEY :: string where "ACTIVE_IDX_KEY = ''mootvote:keyring:active:v1''"

record keypair =
  kp_name :: string
  kp_prv :: "byte list"
  kp_sk :: int
  kp_pub :: "int \<times> int"
  kp_createdAt :: int

datatype import_msg =
    NameEmpty | InvalidHex | KeyTooLong | NameExists string | KeyExists | Imported string

record keyring =
  kr_locked :: bool
  kr_pass :: string
  kr_accounts :: "keypair list"
  kr_active :: int
  kr_hasKeyring :: "bool option"
  kr_importStatus :: "(bool \<times> import_msg) option"
  kr_idb :: "string \<Rightarrow> encrypted_blob option"
  kr_local :: "string \<Rightarrow> string option"
  kr_alerts :: "string list"

record 'k kr_env =
  kv_crypto :: "'k crypto_env"
  kv_keys :: key_env
  kv_random :: "byte list"
  kv_salts :: "byte list \<times> byte list"
  kv_now :: int
  kv_confirm :: "string \<Rightarrow> bool"
  kv_localOk :: bool

section \<open>Accounts as data\<close>

definition keypair_js :: "keypair \<Rightarrow> jsv" where
  "keypair_js a = JObj [(''name'', JStr (kp_name a)), (''prv'', JTyped ''Uint8Array'' (kp_prv a)),
     (''sk'', JBig (kp_sk a)), (''pub'', JArr [JBig (fst (kp_pub a)), JBig (snd (kp_pub a))]),
     (''createdAt'', JNum (kp_createdAt a))]"

definition accounts_js :: "keypair list \<Rightarrow> jsv" where
  "accounts_js as = JArr (map keypair_js as)"

text \<open>The cast of the decrypted value to accounts. (Only the keyring writes the entry; a value
  of another shape is taken as a failure.)\<close>

definition js_keypair :: "jsv \<Rightarrow> keypair res" where
  "js_keypair v = (case v of
       JObj kvs \<Rightarrow>
         (case (map_of kvs ''name'', map_of kvs ''prv'', map_of kvs ''sk'', map_of kvs ''pub'',
                map_of kvs ''createdAt'') of
            (Some (JStr name), Some (JTyped _ prv), Some (JBig sk), Some (JArr [JBig x, JBig y]),
             Some (JNum t)) \<Rightarrow>
               Inr \<lparr>kp_name = name, kp_prv = prv, kp_sk = sk, kp_pub = (x, y), kp_createdAt = t\<rparr>
          | _ \<Rightarrow> Inl TypeError)
     | _ \<Rightarrow> Inl TypeError)"

definition js_accounts :: "jsv \<Rightarrow> keypair list res" where
  "js_accounts v = (case v of JArr vs \<Rightarrow> mapM js_keypair vs | _ \<Rightarrow> Inl TypeError)"

lemma js_keypair_js [simp]: "js_keypair (keypair_js a) = Inr a"
  by (simp add: js_keypair_def keypair_js_def)

lemma js_accounts_js [simp]: "js_accounts (accounts_js as) = Inr as"
proof -
  have "mapM js_keypair (map keypair_js as) = Inr as" by (induction as) simp_all
  then show ?thesis by (simp add: js_accounts_def accounts_js_def)
qed

lemma accounts_json_ok [simp]: "json_ok (accounts_js as)"
  by (simp add: accounts_js_def keypair_js_def BIGINT_TAG_def TA_TAG_def constructors_def)

definition idForAccount :: "keypair \<Rightarrow> string" where
  "idForAccount a = to_string 10 (fst (kp_pub a)) @ '':'' @ to_string 10 (snd (kp_pub a))"

definition keyToLeafHex :: "(int list \<Rightarrow> int) \<Rightarrow> int \<times> int \<Rightarrow> string" where
  "keyToLeafHex P xy = concat (map byte_hex (toBytesBE32Buf (P [fst xy, snd xy])))"

definition genAccount :: "'k kr_env \<Rightarrow> string \<Rightarrow> keypair" where
  "genAccount V name = (case genBabyJubKeypair (kv_keys V) (kv_random V) of
     (prv, sk, pub) \<Rightarrow> \<lparr>kp_name = name, kp_prv = prv, kp_sk = sk, kp_pub = pub,
       kp_createdAt = kv_now V\<rparr>)"

section \<open>Operations\<close>

definition clearImportStatus :: "(keyring, unit) proc" where
  "clearImportStatus = update (kr_importStatus_update (\<lambda>_. None))"

definition setActive :: "'k kr_env \<Rightarrow> int \<Rightarrow> (keyring, unit) proc" where
  "setActive V idx = seq (update (kr_active_update (\<lambda>_. idx)))
     (update (\<lambda>s. if kv_localOk V
        then s\<lparr>kr_local := (kr_local s)(ACTIVE_IDX_KEY \<mapsto> to_string 10 idx)\<rparr> else s))"

definition load_hasKeyring :: "(keyring, unit) proc" where
  "load_hasKeyring = update (\<lambda>s. s\<lparr>kr_hasKeyring := Some (kr_idb s KEYRING_DB_KEY \<noteq> None)\<rparr>)"

text \<open>\<open>Number(localStorage.getItem(..) ?? "0") || 0\<close> for the integers that \<open>setActive\<close> writes;
  what is not a number is zero.\<close>

definition saved_active :: "keyring \<Rightarrow> int" where
  "saved_active s = (case kr_local s ACTIVE_IDX_KEY of
       None \<Rightarrow> 0
     | Some t \<Rightarrow> (case bigint_of_string t of Inl _ \<Rightarrow> 0 | Inr n \<Rightarrow> n))"

definition persist :: "'k kr_env \<Rightarrow> keypair list \<Rightarrow> (keyring, unit) proc" where
  "persist V next = update (\<lambda>s. s\<lparr>
     kr_idb := (kr_idb s)(KEYRING_DB_KEY \<mapsto>
       encryptToBlob (kv_crypto V) (kr_pass s) (accounts_js next) (kv_salts V)),
     kr_accounts := next\<rparr>)"

definition unlock :: "'k kr_env \<Rightarrow> (keyring, bool) proc" where
  "unlock V = bind (read (\<lambda>s. kr_idb s KEYRING_DB_KEY)) (\<lambda>blob. case blob of
       None \<Rightarrow>
         seq (update (\<lambda>s. s\<lparr>kr_idb := (kr_idb s)(KEYRING_DB_KEY \<mapsto>
                encryptToBlob (kv_crypto V) (kr_pass s) (accounts_js []) (kv_salts V))\<rparr>))
        (seq (update (\<lambda>s. s\<lparr>kr_accounts := [], kr_locked := False, kr_hasKeyring := Some True\<rparr>))
        (seq (setActive V 0) (ret True)))
     | Some b \<Rightarrow> bind (read kr_pass) (\<lambda>pass.
         case rbind (decryptFromBlob (kv_crypto V) pass b) js_accounts of
           Inr accs \<Rightarrow>
             seq (update (\<lambda>s. s\<lparr>kr_accounts := accs, kr_locked := False\<rparr>))
            (bind (read saved_active) (\<lambda>saved.
             seq (setActive V (if kv_localOk V
                then min (max 0 saved) (max 0 (int (length accs) - 1)) else 0))
                 (ret True)))
         | Inl e \<Rightarrow>
             seq (update (\<lambda>s. s\<lparr>kr_alerts := kr_alerts s @ [''Wrong passphrase or corrupted keyring'']\<rparr>))
                 (ret False)))"

definition addNew :: "'k kr_env \<Rightarrow> string \<Rightarrow> (keyring, unit) proc" where
  "addNew V name = bind (read kr_accounts) (\<lambda>accounts.
     persist V (accounts @ [genAccount V name]))"

definition lower_hex :: "string \<Rightarrow> bool" where
  "lower_hex s \<longleftrightarrow> s \<noteq> [] \<and>
     list_all (\<lambda>c. let n = of_char c :: nat in 48 \<le> n \<and> n \<le> 57 \<or> 97 \<le> n \<and> n \<le> 102) s"

definition import_fail :: "import_msg \<Rightarrow> (keyring, unit) proc" where
  "import_fail m = update (kr_importStatus_update (\<lambda>_. Some (False, m)))"

definition import_hex :: "string \<Rightarrow> string" where
  "import_hex prvHex = (let hex = toLowerCase (trim prvHex) in
     if take 2 hex = ''0x'' then drop 2 hex else hex)"

definition importPrv :: "'k kr_env \<Rightarrow> string \<Rightarrow> string \<Rightarrow> (keyring, unit) proc" where
  "importPrv V name prvHex = seq clearImportStatus (bind (read kr_accounts) (\<lambda>accounts.
     let hex = import_hex prvHex in
     if length name = 0 then import_fail NameEmpty
     else if \<not> lower_hex hex then import_fail InvalidHex
     else if length hex > 64 \<or> length hex < 1 then import_fail KeyTooLong
     else if list_ex (\<lambda>a. kp_name a = name) accounts then import_fail (NameExists name)
     else bind (lift (hexToBytes32 hex)) (\<lambda>prv.
       if list_ex (\<lambda>a. arraysEqual (kp_prv a) prv) accounts then import_fail KeyExists
       else
         let sk = prv2sk (kv_keys V) prv;
             k = \<lparr>kp_name = name, kp_prv = prv, kp_sk = sk, kp_pub = ke_mulBase (kv_keys V) sk,
                  kp_createdAt = kv_now V\<rparr>
         in seq (persist V (accounts @ [k]))
                (update (kr_importStatus_update (\<lambda>_. Some (True, Imported name)))))))"

definition newline :: string where "newline = [CHR 0x0A]"

definition delete_prompt :: "string \<Rightarrow> string" where
  "delete_prompt name =
     ''Delete key '' @ [CHR 0x22] @ name @ [CHR 0x22] @ ''?'' @ newline @ newline @
     ''This will also orphan any re-voting keys associated with it.'' @ newline @
     ''You may lose the ability to vote in polls tied to this key.'' @ newline @ newline @
     ''This action cannot be undone.''"

definition removeAt :: "'k kr_env \<Rightarrow> nat \<Rightarrow> (keyring, unit) proc" where
  "removeAt V idx = bind (read (\<lambda>s. (kr_accounts s, kr_active s))) (\<lambda>(accounts, active).
     case at accounts idx of
       None \<Rightarrow> throw TypeError
     | Some a \<Rightarrow>
         if \<not> kv_confirm V (delete_prompt (kp_name a)) then ret ()
         else
           let next = take idx accounts @ drop (Suc idx) accounts in
           seq (persist V next)
               (if active \<ge> int (length next)
                then setActive V (max 0 (int (length next) - 1)) else ret ()))"

text \<open>A file offered for download: its name and the tree of its text.\<close>

definition keyring_exportJson :: "keyring \<Rightarrow> string \<times> jsv" where
  "keyring_exportJson s = (''babyjub-keyring.json'', json_write (accounts_js (kr_accounts s)))"

end
