(* ===== verification/KvStore.thy ===== *)
theory KvStore
  imports JsStrings "HOL-Library.AList"
begin

text \<open>
  The contract of a store of values under keys: what a lookup returns after a write and after
  a removal. The re-voting keys (\<open>RevoKeys\<close>) and the saved progress of the tally
  (\<open>TallyPanel\<close>) provide it.
\<close>

locale kv_store =
  fixes get :: "'k \<Rightarrow> 's \<Rightarrow> 'v option"
    and put :: "'k \<Rightarrow> 'v \<Rightarrow> 's \<Rightarrow> 's"
    and del :: "'k \<Rightarrow> 's \<Rightarrow> 's"
  assumes get_put: "get k (put k' v s) = (if k = k' then Some v else get k s)"
    and get_del: "get k (del k' s) = (if k = k' then None else get k s)"
begin

text \<open>After any writes and removals, a lookup finds the last one under its key.\<close>

lemma get_run:
  "get k (foldl (\<lambda>s kv. case snd kv of Some v \<Rightarrow> put (fst kv) v s | None \<Rightarrow> del (fst kv) s) s ops)
   = (case map_of (rev ops) k of Some r \<Rightarrow> r | None \<Rightarrow> get k s)"
proof (induction ops rule: rev_induct)
  case (snoc kv ops)
  then show ?case by (auto simp: get_put get_del split: option.splits)
qed simp

lemma get_put_same: "get k (put k v s) = Some v"
  by (simp add: get_put)

lemma get_put_other: "k \<noteq> k' \<Longrightarrow> get k (put k' v s) = get k s"
  by (simp add: get_put)

end

text \<open>Objects as association lists in insertion order, with string keys.\<close>

type_synonym 'v js_object = "(string \<times> 'v) list"

interpretation obj: kv_store "\<lambda>k m. map_of m k" AList.update AList.delete
  by unfold_locales (simp_all add: update_conv' delete_conv')

section \<open>Decimal prefixes\<close>

text \<open>A key made of a decimal numeral, a colon and a rest determines both.\<close>

lemma split_at_colon:
  assumes "CHR '':'' \<notin> set a" "CHR '':'' \<notin> set b" "a @ CHR '':'' # r = b @ CHR '':'' # s"
  shows "a = b \<and> r = s"
  using assms
proof (induction a arbitrary: b)
  case Nil
  then show ?case by (cases b) auto
next
  case (Cons x a)
  then show ?case by (cases b) auto
qed

lemma digit_not_colon: "0 \<le> d \<Longrightarrow> d < 16 \<Longrightarrow> digit_char d \<noteq> CHR '':''"
  using int_lt_16_cases [of d] by (auto simp: digit_char_def)

lemma no_colon_digits: "digits_ok 16 ds \<Longrightarrow> CHR '':'' \<notin> set (map digit_char ds)"
proof (induction ds)
  case (Cons d ds)
  then have "CHR '':'' \<noteq> digit_char d" "CHR '':'' \<notin> set (map digit_char ds)"
    using digit_not_colon [of d] by (auto dest: sym)
  then show ?case by simp
qed simp

lemma no_colon_to_string: "CHR '':'' \<notin> set (to_string 10 n)"
proof -
  have "digits_ok 16 (min_digits 10 \<bar>n\<bar>)"
    using digits_ok_mono [of 10 _ 16] by (simp add: min_digits_ok)
  then have "CHR '':'' \<notin> set (map digit_char (min_digits 10 \<bar>n\<bar>))" by (rule no_colon_digits)
  moreover have "to_string 10 n = (if n < 0 then [CHR ''-''] else []) @ map digit_char (min_digits 10 \<bar>n\<bar>)"
    by (simp add: to_string_def)
  moreover have "CHR '':'' \<notin> set (if n < 0 then [CHR ''-''] else [])" by simp
  ultimately show ?thesis by (simp only: set_append Un_iff simp_thms)
qed

lemma to_string_inj: "to_string 10 m = to_string 10 n \<Longrightarrow> m = n"
  by (metis Inr_inject bigint_of_to_string_int)

end
