(* ===== verification/TallyPanel.thy ===== *)
theory TallyPanel
  imports TallyProps MootSdk Keyring KvStore
begin

text \<open>
  The panel of the tallier, \<open>frontend/src/components/Tally.tsx\<close>: saved progress, the handler
  that tallies the next batch (fetch, rebuild the tree, count, prove, send, save), finishing,
  resetting and the progress bar. The indexer, the prover, the wallet, the RPC node and the
  browser's store answer through \<open>panel_env\<close>.
\<close>

section \<open>Saved progress\<close>

record tally_store =
  to_pollId :: int
  to_accountId :: string
  to_processedAfterId :: int
  to_processedCount :: int
  to_rootHex :: string
  to_runningMsgHashHex :: string
  to_tallySaltHex :: string
  to_tallyCounts :: "string list"
  to_leaves :: "(int \<times> leaf_data) list"

definition TALLY_DB_KEY :: "int \<Rightarrow> string \<Rightarrow> string" where
  "TALLY_DB_KEY pollId accountId =
     ''mootvote:tally:v1:'' @ to_string 10 pollId @ '':'' @ accountId"

type_synonym tally_idb = "string \<Rightarrow> tally_store option"

definition loadTallyStore :: "int \<times> string \<Rightarrow> tally_idb \<Rightarrow> tally_store option" where
  "loadTallyStore k db = db (TALLY_DB_KEY (fst k) (snd k))"

definition putTallyStore :: "int \<times> string \<Rightarrow> tally_store \<Rightarrow> tally_idb \<Rightarrow> tally_idb" where
  "putTallyStore k s db = db(TALLY_DB_KEY (fst k) (snd k) \<mapsto> s)"

definition saveTallyStore :: "tally_store \<Rightarrow> tally_idb \<Rightarrow> tally_idb" where
  "saveTallyStore s db = putTallyStore (to_pollId s, to_accountId s) s db"

definition resetTallyStore :: "int \<times> string \<Rightarrow> tally_idb \<Rightarrow> tally_idb" where
  "resetTallyStore k db = db(TALLY_DB_KEY (fst k) (snd k) := None)"

lemma TALLY_DB_KEY_inj: "TALLY_DB_KEY p a = TALLY_DB_KEY q b \<longleftrightarrow> p = q \<and> a = b"
proof
  assume "TALLY_DB_KEY p a = TALLY_DB_KEY q b"
  then have "to_string 10 p @ CHR '':'' # a = to_string 10 q @ CHR '':'' # b"
    by (simp add: TALLY_DB_KEY_def)
  from split_at_colon [OF no_colon_to_string no_colon_to_string this]
  show "p = q \<and> a = b" using to_string_inj by blast
qed simp

interpretation tally_db: kv_store loadTallyStore putTallyStore resetTallyStore
  by unfold_locales
    (auto simp: loadTallyStore_def putTallyStore_def resetTallyStore_def TALLY_DB_KEY_inj prod_eq_iff)

section \<open>The panel\<close>

datatype tally_stage = StFetch | StProve | StSend | StDone
datatype tally_flow = FlBatch | FlFinish

record panel =
  pn_store :: "tally_store option"
  pn_err :: "js_error option"
  pn_busy :: bool
  pn_remaining :: "int option"
  pn_stage :: "tally_stage option"
  pn_flow :: "tally_flow option"
  pn_idb :: tally_idb
  pn_sent :: "transaction list"

record votes_page =
  pg_items :: "vote_row list"
  pg_total :: int

record tally_inputs =
  ti_rootOld :: int
  ti_cumulativeMsgHashOld :: int
  ti_tallySaltOld :: int
  ti_tallySaltNew :: int
  ti_tallyOld :: "int list"
  ti_batchLen :: int
  ti_tallierSk :: int
  ti_wit :: wit

text \<open>
  \<open>pa_fetch limit after\<close> is the answer to \<open>GET polls/{id}/votes\<close>: whether the status was ok,
  and the page. \<open>pa_prove\<close> is \<open>groth16.fullProve\<close> with the files of the circuit.
\<close>

record 'mt panel_env =
  pa_tally :: "'mt tally_env"
  pa_sdk :: sdk_env
  pa_wallet :: "pubkey option"
  pa_keypair :: "keypair option"
  pa_pollId :: int
  pa_nChoices :: nat
  pa_votingEnd :: int
  pa_fetch :: "nat \<Rightarrow> int option \<Rightarrow> (bool \<times> votes_page) res"
  pa_salt :: "byte list"
  pa_prove :: "tally_inputs \<Rightarrow> (groth_proof \<times> string list) res"
  pa_blockhash :: "string res"
  pa_send :: "transaction \<Rightarrow> unit res"
  pa_idbSet :: "unit res"
  pa_confirm :: "string \<Rightarrow> bool"

definition tally_accountId :: "'mt panel_env \<Rightarrow> string" where
  "tally_accountId V = (case pa_keypair V of
       None \<Rightarrow> []
     | Some k \<Rightarrow> to_string 16 (fst (kp_pub k)) @ '':'' @ to_string 16 (snd (kp_pub k)))"

definition load_panel :: "'mt panel_env \<Rightarrow> panel \<Rightarrow> panel" where
  "load_panel V s = (if pa_keypair V = None then s
     else s\<lparr>pn_store := loadTallyStore (pa_pollId V, tally_accountId V) (pn_idb s)\<rparr>)"

definition store_after :: "tally_store option \<Rightarrow> int option" where
  "store_after store = map_option to_processedAfterId store"

text \<open>\<open>refreshRemaining\<close> is a closure over the store of the render it belongs to.\<close>

definition refresh_with :: "'mt panel_env \<Rightarrow> tally_store option \<Rightarrow> panel \<Rightarrow> panel" where
  "refresh_with V store s = (case pa_fetch V 100 (store_after store) of
       Inr (True, page) \<Rightarrow> s\<lparr>pn_remaining :=
         Some (pg_total page - (case store of None \<Rightarrow> 0 | Some st \<Rightarrow> to_processedCount st))\<rparr>
     | _ \<Rightarrow> s\<lparr>pn_remaining := None\<rparr>)"

definition refreshRemaining :: "'mt panel_env \<Rightarrow> panel \<Rightarrow> panel" where
  "refreshRemaining V s = refresh_with V (pn_store s) s"

section \<open>The next batch\<close>

definition fetch_batch :: "'mt panel_env \<Rightarrow> tally_store option \<Rightarrow> vote_row list res" where
  "fetch_batch V store = rbind (pa_fetch V MAX_BATCH (store_after store)) (\<lambda>(ok, page).
     if \<not> ok then Inl (Thrown ''votes fetch failed'')
     else if length (pg_items page) = 0 then Inl (Thrown ''No new votes to tally'')
     else Inr (pg_items page))"

text \<open>\<open>Object.entries\<close>: array indices first, in ascending order, then the other keys in the
  order of their insertion.\<close>

definition js_entries :: "(int \<times> 'a) list \<Rightarrow> (int \<times> 'a) list" where
  "js_entries kvs = sort_key fst (filter (\<lambda>kv. fst kv < 2 ^ 32 - 1) kvs)
     @ filter (\<lambda>kv. \<not> fst kv < 2 ^ 32 - 1) kvs"

definition insert_leaf :: "'mt smt \<Rightarrow> 'mt \<Rightarrow> int \<times> leaf_data \<Rightarrow> 'mt res" where
  "insert_leaf S mt kv = (case smt_add S mt (fst kv) (lf_hash (snd kv)) of
       Inr mt' \<Rightarrow> Inr mt'
     | Inl EntryIndexAlreadyExists \<Rightarrow>
         rbind (of_smt (smt_update S mt (fst kv) (lf_hash (snd kv)))) (\<lambda>(proof, mt'). Inr mt')
     | Inl (SmtError e) \<Rightarrow> Inl e)"

definition rebuild_tree :: "'mt smt \<Rightarrow> (int \<times> leaf_data) list \<Rightarrow> 'mt res" where
  "rebuild_tree S leaves = foldM (insert_leaf S) (smt_new S) (js_entries leaves)"

definition hex_field :: "string \<Rightarrow> int res" where
  "hex_field s = bigint_of_string (''0x'' @ s)"

definition start_tally :: "'mt panel_env \<Rightarrow> tally_store option \<Rightarrow> 'mt tstate res" where
  "start_tally V store = (let S = te_smt (pa_tally V) in case store of
       None \<Rightarrow> Inr \<lparr>ts_mt = smt_new S, ts_H = 0, ts_counts = replicate (pa_nChoices V) 0,
                 ts_leaves = [], ts_wit = no_wit\<rparr>
     | Some st \<Rightarrow>
         rbind (rebuild_tree S (to_leaves st)) (\<lambda>mt.
         rbind (hex_field (to_runningMsgHashHex st)) (\<lambda>H.
         rbind (mapM bigint_of_string (to_tallyCounts st)) (\<lambda>counts.
           Inr \<lparr>ts_mt = mt, ts_H = H, ts_counts = counts, ts_leaves = to_leaves st, ts_wit = no_wit\<rparr>))))"

text \<open>\<open>xs[i] ?? 0\<close> for \<open>i < MAX_CHOICES\<close>.\<close>

definition fill_tally :: "int list \<Rightarrow> int list" where
  "fill_tally counts = map (\<lambda>i. case at counts i of None \<Rightarrow> 0 | Some c \<Rightarrow> c) [0..<MAX_CHOICES]"

text \<open>What the later stages need of a counted batch.\<close>

record 'mt counted =
  cn_st :: "'mt tstate"
  cn_rootNew :: int
  cn_saltOld :: int
  cn_saltNew :: int
  cn_tallyOld :: "int list"
  cn_tallyHashNew :: int
  cn_inputs :: tally_inputs

definition count_batch ::
  "'mt panel_env \<Rightarrow> tally_store option \<Rightarrow> int \<Rightarrow> vote_row list \<Rightarrow> 'mt counted res" where
  "count_batch V store tallierSk batch =
     (let E = pa_tally V; S = te_smt E; P = te_P E in
      rbind (start_tally V store) (\<lambda>st0.
      let rootOld = smt_root S (ts_mt st0) in
      rbind (foldM (tally_vote E tallierSk) st0 batch) (\<lambda>st.
      let rootNew = smt_root S (ts_mt st) in
      rbind (case store of None \<Rightarrow> Inr 0 | Some s \<Rightarrow> hex_field (to_tallySaltHex s)) (\<lambda>saltOld.
      rbind (case store of None \<Rightarrow> Inr [] | Some s \<Rightarrow> mapM bigint_of_string (to_tallyCounts s)) (\<lambda>countsOld.
      let saltNew = bytes_to_big (pa_salt V);
          tallyOld = fill_tally countsOld;
          tallyNew = fill_tally (ts_counts st)
      in Inr \<lparr>cn_st = st, cn_rootNew = rootNew, cn_saltOld = saltOld, cn_saltNew = saltNew,
           cn_tallyOld = tallyOld, cn_tallyHashNew = P (saltNew # tallyNew),
           cn_inputs = \<lparr>ti_rootOld = rootOld, ti_cumulativeMsgHashOld = ts_H st0,
             ti_tallySaltOld = saltOld, ti_tallySaltNew = saltNew, ti_tallyOld = tallyOld,
             ti_batchLen = int (length batch), ti_tallierSk = tallierSk,
             ti_wit = pad_wit (ts_wit st)\<rparr>\<rparr>)))))"

text \<open>The proof, with the two public signals that are compared and the one that is not.\<close>

definition prove_batch ::
  "'mt panel_env \<Rightarrow> 'mt counted \<Rightarrow> (groth_proof \<times> int) res" where
  "prove_batch V c =
     rbind (pa_prove V (cn_inputs c)) (\<lambda>(proof, publicSignals).
     rbind (bigint_opt (at publicSignals 1)) (\<lambda>rootNewPub.
     rbind (bigint_opt (at publicSignals 2)) (\<lambda>cumulativeMsgHashNewPub.
     rbind (bigint_opt (at publicSignals 3)) (\<lambda>tallyHashNewPub.
       if rootNewPub \<noteq> cn_rootNew c then Inl (Thrown ''rootNew mismatch'')
       else if tallyHashNewPub \<noteq> cn_tallyHashNew c then Inl (Thrown ''tallyHashNew mismatch'')
       else Inr (proof, cumulativeMsgHashNewPub)))))"

definition wallet_tx :: "tx_ix list \<Rightarrow> string \<Rightarrow> pubkey \<Rightarrow> transaction" where
  "wallet_tx ixs blockhash payer =
     \<lparr>tx_ixs = ixs, tx_recentBlockhash = blockhash, tx_feePayer = payer, tx_signers = []\<rparr>"

definition batch_tx ::
  "'mt panel_env \<Rightarrow> tally_store option \<Rightarrow> pubkey \<Rightarrow> 'mt counted \<Rightarrow> groth_proof \<Rightarrow> int \<Rightarrow> transaction res" where
  "batch_tx V store payer c proof cumulativeMsgHashNew =
     (let E = pa_sdk V; P = te_P (pa_tally V) in
      rbind (compressProof proof) (\<lambda>serialized.
      rbind (if store = None
             then rbind (createTally E (pa_pollId V) payer
                    (toBytesBE32 (P (cn_saltOld c # cn_tallyOld c)))) (\<lambda>ix. Inr [ix])
             else Inr []) (\<lambda>ixs.
      rbind (tallyBatch E (pa_pollId V) payer serialized (toBytesBE32 (cn_rootNew c))
               (toBytesBE32 cumulativeMsgHashNew) (toBytesBE32 (cn_tallyHashNew c))) (\<lambda>ix.
      let ixs = ixs @ [ix] in
      rbind (pa_blockhash V) (\<lambda>blockhash.
        Inr (wallet_tx (cuLimitInstruction ixs # map (\<lambda>x. Call (iwc_instruction x)) ixs)
               blockhash payer))))))"

definition next_store ::
  "'mt panel_env \<Rightarrow> tally_store option \<Rightarrow> vote_row list \<Rightarrow> 'mt counted \<Rightarrow> int \<Rightarrow> tally_store res" where
  "next_store V store batch c cumulativeMsgHashNew =
     rbind (bigint_of_string (vw_id (last batch))) (\<lambda>lastId.
       Inr \<lparr>to_pollId = (case store of None \<Rightarrow> pa_pollId V | Some s \<Rightarrow> to_pollId s),
         to_accountId = (case store of None \<Rightarrow> tally_accountId V | Some s \<Rightarrow> to_accountId s),
         to_processedAfterId = lastId,
         to_processedCount = (case store of None \<Rightarrow> 0 | Some s \<Rightarrow> to_processedCount s)
           + int (length batch),
         to_rootHex = toHex32 (cn_rootNew c),
         to_runningMsgHashHex = toHex32 cumulativeMsgHashNew,
         to_tallySaltHex = toHex32 (cn_saltNew c),
         to_tallyCounts = map (to_string 10) (ts_counts (cn_st c)),
         to_leaves = ts_leaves (cn_st c)\<rparr>)"

definition send_tx :: "'mt panel_env \<Rightarrow> transaction \<Rightarrow> (panel, unit) proc" where
  "send_tx V tx = seq (lift (pa_send V tx)) (update (\<lambda>s. s\<lparr>pn_sent := pn_sent s @ [tx]\<rparr>))"

definition save_store :: "'mt panel_env \<Rightarrow> tally_store \<Rightarrow> (panel, unit) proc" where
  "save_store V st = seq (lift (pa_idbSet V)) (update (\<lambda>s. s\<lparr>pn_idb := saveTallyStore st (pn_idb s)\<rparr>))"

definition set_stage :: "tally_stage \<Rightarrow> (panel, unit) proc" where
  "set_stage g = update (\<lambda>s. s\<lparr>pn_stage := Some g\<rparr>)"

definition begin_flow :: "tally_flow \<Rightarrow> tally_stage \<Rightarrow> (panel, unit) proc" where
  "begin_flow fl g = update (\<lambda>s. s\<lparr>pn_busy := True, pn_err := None, pn_flow := Some fl,
     pn_stage := Some g\<rparr>)"

definition fail_panel :: "js_error \<Rightarrow> panel \<Rightarrow> panel" where
  "fail_panel e s = s\<lparr>pn_err := Some e\<rparr>"

definition end_busy :: "panel \<Rightarrow> panel" where
  "end_busy s = s\<lparr>pn_busy := False\<rparr>"

definition tally_body :: "'mt panel_env \<Rightarrow> (panel, unit) proc" where
  "tally_body V = bind (read (\<lambda>s. (pn_busy s, pn_store s))) (\<lambda>(busy, store).
     if busy then ret () else
     seq (begin_flow FlBatch StFetch)
    (bind (need (pa_wallet V) ''Connect Solana wallet'') (\<lambda>payer.
     bind (need (pa_keypair V) ''No active ZK tallier key'') (\<lambda>keypair.
     bind (lift (fetch_batch V store)) (\<lambda>batch.
     seq (set_stage StProve)
    (bind (lift (count_batch V store (kp_sk keypair) batch)) (\<lambda>c.
     bind (lift (prove_batch V c)) (\<lambda>(proof, H).
     seq (set_stage StSend)
    (bind (lift (batch_tx V store payer c proof H)) (\<lambda>tx.
     seq (send_tx V tx)
    (bind (lift (next_store V store batch c H)) (\<lambda>st.
     seq (save_store V st)
         (update (\<lambda>s. s\<lparr>pn_store := Some st,
            pn_remaining := map_option (\<lambda>r. max 0 (r - int (length batch))) (pn_remaining s),
            pn_stage := Some StDone\<rparr>))))))))))))))"

definition onTallyNext :: "'mt panel_env \<Rightarrow> panel \<Rightarrow> panel" where
  "onTallyNext V = attempt (tally_body V) fail_panel end_busy"

section \<open>Finishing and resetting\<close>

text \<open>\<open>toBigint\<close> of the stored decimal strings; without a store, zeros.\<close>

definition final_counts :: "'mt panel_env \<Rightarrow> tally_store option \<Rightarrow> int list res" where
  "final_counts V store = (case store of
       None \<Rightarrow> Inr (replicate (pa_nChoices V) 0)
     | Some s \<Rightarrow> mapM bigint_of_string (to_tallyCounts s))"

definition finish_ixs ::
  "'mt panel_env \<Rightarrow> tally_store option \<Rightarrow> pubkey \<Rightarrow> instruction_with_cu list res" where
  "finish_ixs V store payer =
     rbind (final_counts V store) (\<lambda>finalCounts.
     rbind (case store of None \<Rightarrow> Inr 0 | Some s \<Rightarrow> hex_field (to_tallySaltHex s)) (\<lambda>finalSalt.
     rbind (if store = None
            then rbind (createTally (pa_sdk V) (pa_pollId V) payer
                   (toBytesBE32 (te_P (pa_tally V) (replicate (MAX_CHOICES + 1) 0)))) (\<lambda>ix. Inr [ix])
            else Inr []) (\<lambda>ixs.
     rbind (finishTally (pa_sdk V) (pa_pollId V) payer finalCounts finalSalt) (\<lambda>ix.
       Inr (ixs @ [ix])))))"

definition finish_body :: "'mt panel_env \<Rightarrow> (panel, unit) proc" where
  "finish_body V = bind (read (\<lambda>s. (pn_busy s, pn_store s))) (\<lambda>(busy, store).
     if busy then ret () else
     seq (begin_flow FlFinish StSend)
    (bind (need (pa_wallet V) ''Connect Solana wallet'') (\<lambda>payer.
     bind (lift (finish_ixs V store payer)) (\<lambda>ixs.
     bind (lift (pa_blockhash V)) (\<lambda>blockhash.
     seq (send_tx V (wallet_tx (map (\<lambda>x. Call (iwc_instruction x)) ixs) blockhash payer))
         (set_stage StDone))))))"

definition onFinishTally :: "'mt panel_env \<Rightarrow> panel \<Rightarrow> panel" where
  "onFinishTally V = attempt (finish_body V) fail_panel end_busy"

definition reset_prompt :: string where
  "reset_prompt = ''Reset tally progress? This will clear your local state.''"

definition onResetTally :: "'mt panel_env \<Rightarrow> panel \<Rightarrow> panel" where
  "onResetTally V s =
     (if pn_store s = None \<or> \<not> pa_confirm V reset_prompt then s
      else refresh_with V (pn_store s) (s\<lparr>
        pn_idb := resetTallyStore (pa_pollId V, tally_accountId V) (pn_idb s),
        pn_store := None, pn_flow := None, pn_stage := None, pn_err := None\<rparr>))"

section \<open>Progress\<close>

definition processed :: "panel \<Rightarrow> int" where
  "processed s = (case pn_store s of None \<Rightarrow> 0 | Some st \<Rightarrow> to_processedCount st)"

text \<open>\<open>Math.round(x)\<close> is \<open>floor(x + 1/2)\<close>; for the quotient of two counts, in integers.\<close>

definition progress_pct :: "panel \<Rightarrow> int" where
  "progress_pct s =
     (let rem = (case pn_remaining s of None \<Rightarrow> 0 | Some r \<Rightarrow> r); total = processed s + rem
      in if total = 0 then 100
         else max 0 (min 100 ((200 * processed s + total) div (2 * total))))"

definition tallyNextEnabled :: "panel \<Rightarrow> bool" where
  "tallyNextEnabled s \<longleftrightarrow> pn_remaining s \<noteq> Some 0"

text \<open>\<open>now_ms\<close> is \<open>Date.now()\<close>, in milliseconds.\<close>

definition finishEnabled :: "'mt panel_env \<Rightarrow> int \<Rightarrow> panel \<Rightarrow> bool" where
  "finishEnabled V now_ms s \<longleftrightarrow> now_ms \<ge> 1000 * pa_votingEnd V \<and> pn_remaining s = Some 0"

end
