(* ===== verification/TallyPanelCorrect.thy ===== *)
theory TallyPanelCorrect
  imports TallyPanel "HOL-Library.Multiset"
begin

text \<open>
  What the tally panel guarantees. \<open>store_inv\<close> ties the saved progress to the abstract
  election: the counts are those of the saved leaves and the saved root is the root of every
  tree with these leaves. A batch that ends without an error keeps it and casts the ballots of
  the page; a batch that fails leaves panel and store as they were.
\<close>

section \<open>Rebuilding\<close>

definition store_leaves :: "tally_store option \<Rightarrow> (int \<times> leaf_data) list" where
  "store_leaves store = (case store of None \<Rightarrow> [] | Some st \<Rightarrow> to_leaves st)"

definition leaves_ok :: "'mt tally_env \<Rightarrow> nat \<Rightarrow> (int \<times> leaf_data) list \<Rightarrow> bool" where
  "leaves_ok E n leaves \<longleftrightarrow> distinct (map fst leaves) \<and>
     (\<forall>(k, l) \<in> set leaves. 0 \<le> k \<and> k < 2 ^ STATE_DEPTH \<and> in_choices n (lf_choice l) \<and>
        lf_hash l = te_P E [lf_choice l, lf_revotingKey l])"

definition hashes :: "(int \<times> leaf_data) list \<Rightarrow> int \<Rightarrow> int option" where
  "hashes leaves = map_option lf_hash \<circ> map_of leaves"

definition store_inv ::
  "'mt tally_env \<Rightarrow> ('mt \<Rightarrow> int \<Rightarrow> int option) \<Rightarrow> nat \<Rightarrow> tally_store option \<Rightarrow> bool" where
  "store_inv E \<alpha> n store = (case store of None \<Rightarrow> True | Some st \<Rightarrow>
     leaves_ok E n (to_leaves st) \<and>
     to_tallyCounts st = map (to_string 10) (tally_of n (to_leaves st)) \<and>
     (\<exists>H. to_runningMsgHashHex st = toHex32 H) \<and> (\<exists>salt. to_tallySaltHex st = toHex32 salt) \<and>
     (\<forall>t. \<alpha> t = hashes (to_leaves st) \<longrightarrow> to_rootHex st = toHex32 (smt_root (te_smt E) t)))"

lemma mset_js_entries: "mset (js_entries kvs) = mset kvs"
  unfolding js_entries_def by (induction kvs) auto

lemma js_entries_facts:
  "set (js_entries kvs) = set kvs" "distinct (map fst (js_entries kvs)) = distinct (map fst kvs)"
  using mset_js_entries [of kvs] by (metis mset_eq_setD, metis mset_eq_imp_distinct_iff mset_map)

lemma insert_leaf_law:
  assumes S: "smt_law S \<alpha>" and "0 \<le> k" "k < 2 ^ STATE_DEPTH" "0 \<le> lf_hash l" "lf_hash l < FP"
  shows "\<exists>t'. insert_leaf S t (k, l) = Inr t' \<and> \<alpha> t' = (\<alpha> t)(k \<mapsto> lf_hash l)"
proof (cases "\<alpha> t k")
  case None
  then obtain t' where "smt_add S t k (lf_hash l) = Inr t'" "\<alpha> t' = (\<alpha> t)(k \<mapsto> lf_hash l)"
    using assms unfolding smt_law_def by metis
  then show ?thesis by (simp add: insert_leaf_def)
next
  case (Some v)
  then have "\<alpha> t k \<noteq> None" by simp
  then obtain p t' where "smt_add S t k (lf_hash l) = Inl EntryIndexAlreadyExists"
      "smt_update S t k (lf_hash l) = Inr (p, t')" "\<alpha> t' = (\<alpha> t)(k \<mapsto> lf_hash l)"
    using assms unfolding smt_law_def by metis
  then show ?thesis by (simp add: insert_leaf_def of_smt_def)
qed

lemma insert_leaves:
  assumes S: "smt_law S \<alpha>"
  shows "distinct (map fst kvs) \<Longrightarrow> \<forall>(k, l) \<in> set kvs. 0 \<le> k \<and> k < 2 ^ STATE_DEPTH \<and>
      0 \<le> lf_hash l \<and> lf_hash l < FP \<Longrightarrow>
    \<exists>t'. foldM (insert_leaf S) t kvs = Inr t' \<and>
      \<alpha> t' = (\<lambda>k. case map_of kvs k of Some l \<Rightarrow> Some (lf_hash l) | None \<Rightarrow> \<alpha> t k)"
proof (induction kvs arbitrary: t)
  case (Cons kv kvs)
  obtain k l where kv: "kv = (k, l)" by (cases kv)
  obtain u where u: "insert_leaf S t (k, l) = Inr u" "\<alpha> u = (\<alpha> t)(k \<mapsto> lf_hash l)"
    using insert_leaf_law [OF S, of k l t] Cons.prems(2) kv by auto
  obtain t' where t': "foldM (insert_leaf S) u kvs = Inr t'"
      "\<alpha> t' = (\<lambda>k. case map_of kvs k of Some l \<Rightarrow> Some (lf_hash l) | None \<Rightarrow> \<alpha> u k)"
    using Cons.IH [of u] Cons.prems by auto
  have "map_of kvs k = None" using Cons.prems(1) kv by (simp add: map_of_eq_None_iff)
  then have "\<alpha> t' = (\<lambda>j. case map_of (kv # kvs) j of Some l \<Rightarrow> Some (lf_hash l) | None \<Rightarrow> \<alpha> t j)"
    using t'(2) u(2) kv by (auto simp: fun_eq_iff split: option.splits)
  with u t' kv show ?case by auto
qed simp

lemma rebuild_tree_ok:
  assumes "smt_law (te_smt E) \<alpha>" "hash_law (te_P E)" "leaves_ok E n leaves"
  shows "\<exists>t. rebuild_tree (te_smt E) leaves = Inr t \<and> \<alpha> t = hashes leaves"
proof -
  let ?e = "js_entries leaves"
  have d: "distinct (map fst ?e)" and s: "set ?e = set leaves"
    using assms(3) js_entries_facts by (auto simp: leaves_ok_def)
  have r: "\<forall>(k, l) \<in> set ?e. 0 \<le> k \<and> k < 2 ^ STATE_DEPTH \<and> 0 \<le> lf_hash l \<and> lf_hash l < FP"
    using assms(2,3) by (auto simp: leaves_ok_def s hash_law_def)
  obtain t where t: "foldM (insert_leaf (te_smt E)) (smt_new (te_smt E)) ?e = Inr t"
      "\<alpha> t = (\<lambda>k. case map_of ?e k of Some l \<Rightarrow> Some (lf_hash l) | None \<Rightarrow> \<alpha> (smt_new (te_smt E)) k)"
    using insert_leaves [OF assms(1) d r] by blast
  have "map_of ?e = map_of leaves"
    using map_of_inject_set [OF d] s assms(3) by (simp add: leaves_ok_def)
  moreover have "\<alpha> (smt_new (te_smt E)) = Map.empty" using assms(1) by (simp add: smt_law_def)
  ultimately have "\<alpha> t = hashes leaves"
    using t(2) by (auto simp: hashes_def fun_eq_iff split: option.splits)
  with t(1) show ?thesis by (simp add: rebuild_tree_def)
qed

lemma hex_field_toHex32: "\<exists>m. hex_field (toHex32 n) = Inr m"
  unfolding hex_field_def toHex32_digits
  by (rule exI, rule bigint_of_hex) (simp_all flip: length_0_conv)

lemma mapM_numerals: "mapM bigint_of_string (map (to_string 10) ns) = Inr ns"
  by (induction ns) (simp_all add: bigint_of_to_string_int)

lemma start_tally_ok:
  assumes S: "smt_law (te_smt E) \<alpha>" and P: "hash_law (te_P E)" and E: "pa_tally V = E"
    and inv: "store_inv E \<alpha> (pa_nChoices V) store"
  shows "\<exists>st. start_tally V store = Inr st \<and> tally_inv E \<alpha> (pa_nChoices V) st \<and>
    ts_wit st = no_wit \<and> ts_leaves st = store_leaves store \<and> \<alpha> (ts_mt st) = hashes (store_leaves store)"
proof (cases store)
  case None
  have "tally_of (pa_nChoices V) [] = replicate (pa_nChoices V) 0"
    by (simp add: tally_of_def map_replicate_trivial)
  with None show ?thesis
    using S E by (simp add: start_tally_def tally_inv_def store_leaves_def hashes_def smt_law_def fun_eq_iff)
next
  case (Some s)
  then have ok: "leaves_ok E (pa_nChoices V) (to_leaves s)" and i: "store_inv E \<alpha> (pa_nChoices V) (Some s)"
    using inv by (simp_all add: store_inv_def)
  obtain t where t: "rebuild_tree (te_smt E) (to_leaves s) = Inr t" "\<alpha> t = hashes (to_leaves s)"
    using rebuild_tree_ok [OF S P ok] by blast
  obtain H where "hex_field (to_runningMsgHashHex s) = Inr H"
    using i hex_field_toHex32 by (fastforce simp: store_inv_def)
  moreover have "mapM bigint_of_string (to_tallyCounts s) = Inr (tally_of (pa_nChoices V) (to_leaves s))"
    using i by (simp add: store_inv_def mapM_numerals)
  ultimately show ?thesis
    using t ok E Some
    by (auto simp: start_tally_def Let_def tally_inv_def store_leaves_def leaves_ok_def hashes_def)
qed

section \<open>Batches\<close>

lemma store_inv_next:
  assumes inv: "tally_inv E \<alpha> n st" and S: "smt_law (te_smt E) \<alpha>"
    and leaves: "to_leaves ns = ts_leaves st"
    and root: "to_rootHex ns = toHex32 (smt_root (te_smt E) (ts_mt st))"
    and counts: "to_tallyCounts ns = map (to_string 10) (ts_counts st)"
    and hex: "to_runningMsgHashHex ns = toHex32 H" "to_tallySaltHex ns = toHex32 salt"
  shows "store_inv E \<alpha> n (Some ns)"
proof -
  have "\<alpha> t = hashes (ts_leaves st) \<Longrightarrow> smt_root (te_smt E) t = smt_root (te_smt E) (ts_mt st)" for t
    using S inv unfolding smt_law_def tally_inv_def hashes_def by metis
  then show ?thesis
    using inv leaves root counts hex
    by (auto simp: store_inv_def leaves_ok_def tally_inv_def)
qed

lemma count_batch_ok:
  assumes S: "smt_law (te_smt E) \<alpha>" and P: "hash_law (te_P E)" and E: "pa_tally V = E"
    and inv: "store_inv E \<alpha> (pa_nChoices V) store"
    and c: "count_batch V store sk batch = Inr c"
  shows "\<exists>mbs. mapM (open_vote E sk) batch = Inr mbs \<and> tally_inv E \<alpha> (pa_nChoices V) (cn_st c) \<and>
      board_of (ts_leaves (cn_st c)) = foldl cast_ballot (board_of (store_leaves store)) (map snd mbs)"
    and "cn_rootNew c = smt_root (te_smt E) (ts_mt (cn_st c))"
    and "\<forall>st. store = Some st \<longrightarrow> to_rootHex st = toHex32 (ti_rootOld (cn_inputs c))"
    and "batch \<noteq> [] \<Longrightarrow> length batch \<le> MAX_BATCH \<Longrightarrow>
      wit_len (ti_wit (cn_inputs c)) MAX_BATCH \<and> wit_empty_ok (ti_wit (cn_inputs c))"
proof -
  obtain st0 where st0: "start_tally V store = Inr st0" "tally_inv E \<alpha> (pa_nChoices V) st0"
      "ts_wit st0 = no_wit" "ts_leaves st0 = store_leaves store" "\<alpha> (ts_mt st0) = hashes (store_leaves store)"
    using start_tally_ok [OF S P E inv] by blast
  obtain st where st: "foldM (tally_vote E sk) st0 batch = Inr st" "cn_st c = st"
      "cn_rootNew c = smt_root (te_smt E) (ts_mt st)"
      "ti_rootOld (cn_inputs c) = smt_root (te_smt E) (ts_mt st0)"
      "ti_wit (cn_inputs c) = pad_wit (ts_wit st)"
    using c st0(1) E by (auto simp: count_batch_def Let_def rbind_eq_Inr)
  show "\<exists>mbs. mapM (open_vote E sk) batch = Inr mbs \<and> tally_inv E \<alpha> (pa_nChoices V) (cn_st c) \<and>
      board_of (ts_leaves (cn_st c)) = foldl cast_ballot (board_of (store_leaves store)) (map snd mbs)"
    using batch_ok [OF S P st0(2) st(1)] st(2) st0(4) by auto
  show "cn_rootNew c = smt_root (te_smt E) (ts_mt (cn_st c))" using st by simp
  show "\<forall>st. store = Some st \<longrightarrow> to_rootHex st = toHex32 (ti_rootOld (cn_inputs c))"
    using inv st0(5) st(4) by (auto simp: store_inv_def store_leaves_def)
  have w0: "wit_len no_wit 0" "wit_empty_ok no_wit"
    by (simp_all add: no_wit_def wit_len_def wit_empty_ok_def)
  show "wit_len (ti_wit (cn_inputs c)) MAX_BATCH \<and> wit_empty_ok (ti_wit (cn_inputs c))"
    if "batch \<noteq> []" "length batch \<le> MAX_BATCH"
    using batch_wit [OF S P st0(2) st(1), of 0] wit_pad [of "length batch" "ts_wit st"] w0 that st0(3) st(5)
    by simp
qed

text \<open>The runs of the handler.\<close>

definition final_panel :: "panel \<Rightarrow> vote_row list \<Rightarrow> tally_store \<Rightarrow> transaction \<Rightarrow> panel" where
  "final_panel s batch ns tx = s\<lparr>pn_store := Some ns, pn_err := None, pn_busy := True,
     pn_remaining := map_option (\<lambda>r. max 0 (r - int (length batch))) (pn_remaining s),
     pn_stage := Some StDone, pn_flow := Some FlBatch, pn_idb := saveTallyStore ns (pn_idb s),
     pn_sent := pn_sent s @ [tx]\<rparr>"

lemma tally_body_ok:
  assumes "tally_body V s = (Inr (), s')" "\<not> pn_busy s"
  shows "\<exists>payer kp batch c pf H tx ns.
    pa_wallet V = Some payer \<and> pa_keypair V = Some kp \<and> fetch_batch V (pn_store s) = Inr batch \<and>
    count_batch V (pn_store s) (kp_sk kp) batch = Inr c \<and> prove_batch V c = Inr (pf, H) \<and>
    batch_tx V (pn_store s) payer c pf H = Inr tx \<and> pa_send V tx = Inr () \<and>
    next_store V (pn_store s) batch c H = Inr ns \<and> s' = final_panel s batch ns tx"
proof -
  from assms obtain payer kp batch c pf H tx ns where
    "pa_wallet V = Some payer" "pa_keypair V = Some kp" "fetch_batch V (pn_store s) = Inr batch"
    "count_batch V (pn_store s) (kp_sk kp) batch = Inr c" "prove_batch V c = Inr (pf, H)"
    "batch_tx V (pn_store s) payer c pf H = Inr tx" "pa_send V tx = Inr ()"
    "next_store V (pn_store s) batch c H = Inr ns" "s' = final_panel s batch ns tx"
    unfolding tally_body_def
    by (auto simp: proc_ok begin_flow_def set_stage_def send_tx_def save_store_def final_panel_def)
  then show ?thesis by blast
qed

text \<open>Until the last assignment, the handler leaves the saved progress alone.\<close>

abbreviation progress_is :: "tally_store option \<Rightarrow> tally_idb \<Rightarrow> panel \<Rightarrow> bool" where
  "progress_is store db s \<equiv> pn_store s = store \<and> pn_idb s = db"

lemma save_last:
  "valid (progress_is store db) (seq (save_store V st) (update g)) (\<lambda>_ _. True) (\<lambda>_. progress_is store db)"
  by (cases "pa_idbSet V") (auto simp: valid_def save_store_def seq_def bind_def)

lemma tally_body_err:
  "valid (progress_is store db) (tally_body V) (\<lambda>_ _. True) (\<lambda>_. progress_is store db)"
proof -
  note step = valid_bind [where Q' = "\<lambda>_. progress_is store db"] valid_seq [where Q' = "progress_is store db"]
  show ?thesis
    unfolding tally_body_def begin_flow_def set_stage_def send_tx_def
    by (rule valid_bind [where Q' = "\<lambda>_. progress_is store db"])
      (auto intro!: valid_intros save_last step split: prod.splits)
qed

section \<open>Properties\<close>

lemma onTallyNext_ok:
  assumes "\<not> pn_busy s" "pn_err (onTallyNext V s) = None"
  shows "\<exists>u. tally_body V s = (Inr (), u) \<and> onTallyNext V s = u\<lparr>pn_busy := False\<rparr>"
  using assms
  by (cases "tally_body V s"; cases "fst (tally_body V s)")
    (auto simp: onTallyNext_def attempt_def fail_panel_def end_busy_def)

text \<open>
  C3: when the handler of \<open>Tally next\<close> ends without an error, it has fetched a page of at most
  the requested size behind the saved position, sent exactly one transaction, and saved a
  progress whose leaves are the board after casting the ballots of the page in order on the
  saved board, whose counts are the result of that board, whose position is the last vote of
  the page; and the saved progress is again one the next run can resume from.
\<close>

theorem tally_next_casts_page:
  assumes "smt_law (te_smt (pa_tally V)) \<alpha>" "hash_law (te_P (pa_tally V))"
    and "store_inv (pa_tally V) \<alpha> (pa_nChoices V) (pn_store s)" "\<not> pn_busy s"
    and "pn_err (onTallyNext V s) = None"
  shows "\<exists>kp page mbs ns tx. let s' = onTallyNext V s;
      bd = foldl cast_ballot (board_of (store_leaves (pn_store s))) (map snd mbs) in
    pa_keypair V = Some kp \<and> pa_fetch V MAX_BATCH (store_after (pn_store s)) = Inr (True, page) \<and>
    mapM (open_vote (pa_tally V) (kp_sk kp)) (pg_items page) = Inr mbs \<and>
    pn_store s' = Some ns \<and> pn_idb s' = saveTallyStore ns (pn_idb s) \<and>
    pn_sent s' = pn_sent s @ [tx] \<and> \<not> pn_busy s' \<and> pn_stage s' = Some StDone \<and>
    board_of (to_leaves ns) = bd \<and>
    to_tallyCounts ns = map (to_string 10) (result (pa_nChoices V) bd) \<and>
    bigint_of_string (vw_id (last (pg_items page))) = Inr (to_processedAfterId ns) \<and>
    to_processedCount ns = processed s + int (length (pg_items page)) \<and>
    store_inv (pa_tally V) \<alpha> (pa_nChoices V) (Some ns)"
proof -
  obtain u where u: "tally_body V s = (Inr (), u)" "onTallyNext V s = u\<lparr>pn_busy := False\<rparr>"
    using onTallyNext_ok [OF assms(4,5)] by blast
  obtain kp batch c pf H tx ns where r: "pa_keypair V = Some kp" "fetch_batch V (pn_store s) = Inr batch"
      "count_batch V (pn_store s) (kp_sk kp) batch = Inr c" "next_store V (pn_store s) batch c H = Inr ns"
      "u = final_panel s batch ns tx"
    using tally_body_ok [OF u(1) assms(4)] by blast
  obtain page where page: "pa_fetch V MAX_BATCH (store_after (pn_store s)) = Inr (True, page)"
      "batch = pg_items page"
    using r(2) by (auto simp: fetch_batch_def rbind_eq_Inr split: if_splits prod.splits)
  note cb = count_batch_ok [OF assms(1,2) refl assms(3) r(3)]
  obtain mbs where mbs: "mapM (open_vote (pa_tally V) (kp_sk kp)) batch = Inr mbs"
      "tally_inv (pa_tally V) \<alpha> (pa_nChoices V) (cn_st c)"
      "board_of (ts_leaves (cn_st c)) = foldl cast_ballot (board_of (store_leaves (pn_store s))) (map snd mbs)"
    using cb(1) by blast
  have ns: "to_leaves ns = ts_leaves (cn_st c)" "to_rootHex ns = toHex32 (cn_rootNew c)"
      "to_tallyCounts ns = map (to_string 10) (ts_counts (cn_st c))"
      "to_runningMsgHashHex ns = toHex32 H" "to_tallySaltHex ns = toHex32 (cn_saltNew c)"
      "bigint_of_string (vw_id (last batch)) = Inr (to_processedAfterId ns)"
      "to_processedCount ns = processed s + int (length batch)"
    using r(4) by (auto simp: next_store_def rbind_eq_Inr processed_def)
  have inv: "store_inv (pa_tally V) \<alpha> (pa_nChoices V) (Some ns)"
    using store_inv_next [OF mbs(2) assms(1) ns(1) _ ns(3-5)] ns(2) cb(2) by simp
  show ?thesis
    using r(1,5) u(2) page mbs(1,3) ns(1,3,6,7) inv result_board_counts [OF mbs(2)]
    by (intro exI [of _ kp] exI [of _ page] exI [of _ mbs] exI [of _ ns] exI [of _ tx])
      (simp add: final_panel_def Let_def)
qed

text \<open>
  C29: when the handler ends with an error, wherever it was thrown, the progress in the panel
  and in the browser's store is the one before it, and the panel is no longer busy: the batch
  can be tried again.
\<close>

theorem tally_next_failure_keeps_progress:
  assumes "\<not> pn_busy s" "pn_err (onTallyNext V s) \<noteq> None"
  shows "pn_store (onTallyNext V s) = pn_store s \<and> pn_idb (onTallyNext V s) = pn_idb s \<and>
    \<not> pn_busy (onTallyNext V s)"
proof (cases "tally_body V s")
  case (Pair r t)
  show ?thesis
  proof (cases r)
    case (Inl e)
    with Pair tally_body_err [of "pn_store s" "pn_idb s" V] show ?thesis
      by (auto simp: valid_def onTallyNext_def attempt_def fail_panel_def end_busy_def split: sum.splits prod.splits)
  next
    case (Inr v)
    then have "pn_err t = None"
      using Pair tally_body_ok [of V s t] assms(1) by (auto simp: final_panel_def)
    with Inr Pair assms(2) show ?thesis by (simp add: onTallyNext_def attempt_def end_busy_def)
  qed
qed

text \<open>
  The circuit input \<open>rootOld\<close> of a resumed batch, the root of the tree rebuilt from the saved
  leaves, is the root that was saved after the last one; and the arrays of the input have
  exactly the size and the empty-leaf zeros the circuit asks for.
\<close>

theorem resumed_inputs_match_saved_root:
  assumes "smt_law (te_smt (pa_tally V)) \<alpha>" "hash_law (te_P (pa_tally V))"
    and "store_inv (pa_tally V) \<alpha> (pa_nChoices V) (Some st)"
    and "count_batch V (Some st) sk batch = Inr c" "batch \<noteq> []" "length batch \<le> MAX_BATCH"
  shows "toHex32 (ti_rootOld (cn_inputs c)) = to_rootHex st \<and>
    wit_len (ti_wit (cn_inputs c)) MAX_BATCH \<and> wit_empty_ok (ti_wit (cn_inputs c))"
  using count_batch_ok(3,4) [OF assms(1,2) refl assms(3,4)] assms(5,6) by simp

text \<open>
  Finishing sends, with the saved salt, exactly the result of the abstract election that
  the saved leaves denote.
\<close>

theorem finish_sends_result:
  assumes "store_inv (pa_tally V) \<alpha> (pa_nChoices V) (Some st)"
  shows "final_counts V (Some st) = Inr (result (pa_nChoices V) (board_of (to_leaves st)))"
  using assms tally_of_result [of "to_leaves st" "pa_nChoices V"]
  by (simp add: final_counts_def store_inv_def leaves_ok_def mapM_numerals)

text \<open>
  A second click while a batch is running does nothing but clear the busy flag: the early
  return stands inside the \<open>try\<close> whose \<open>finally\<close> resets it.
\<close>

theorem busy_guard_clears_busy:
  "onTallyNext V (s\<lparr>pn_busy := True\<rparr>) = s\<lparr>pn_busy := False\<rparr> \<and>
   onFinishTally V (s\<lparr>pn_busy := True\<rparr>) = s\<lparr>pn_busy := False\<rparr>"
  by (simp add: onTallyNext_def onFinishTally_def attempt_def tally_body_def finish_body_def proc_simps
      end_busy_def)

section \<open>An instance\<close>

text \<open>A hash that is constantly zero, a tree that is the map it denotes, and a prover that
  answers with the matching public signals.\<close>

definition zero_env :: "(int \<Rightarrow> int option) tally_env" where
  "zero_env = plain_env\<lparr>te_P := (\<lambda>xs. 0)\<rparr>"

lemma zero_env_law: "smt_law (te_smt zero_env) (\<lambda>t. t)" "hash_law (te_P zero_env)"
  by (simp_all add: zero_env_def plain_env_def map_smt_law hash_law_def FP_def)

definition zero_proof :: groth_proof where
  "zero_proof = \<lparr>pi_a = [''0'', ''0'', ''1''], pi_b = [[''0'', ''0''], [''0'', ''0'']], pi_c = [''0'', ''0'', ''1'']\<rparr>"

definition the_tallier :: keypair where
  "the_tallier = \<lparr>kp_name = ''t'', kp_prv = [], kp_sk = 3, kp_pub = (1, 2), kp_createdAt = 0\<rparr>"

definition zero_panel_env :: "pubkey option \<Rightarrow> (int \<Rightarrow> int option) panel_env" where
  "zero_panel_env wallet = \<lparr>pa_tally = zero_env, pa_sdk = demo_env, pa_wallet = wallet,
     pa_keypair = Some the_tallier, pa_pollId = 5, pa_nChoices = 2, pa_votingEnd = 100,
     pa_fetch = (\<lambda>limit after. Inr (True, \<lparr>pg_items = take limit revote_rows, pg_total = 3\<rparr>)),
     pa_salt = [0, 0, 0, 0, 0, 0, 1, 2], pa_prove = (\<lambda>inputs. Inr (zero_proof, [''0'', ''0'', ''0'', ''0''])),
     pa_blockhash = Inr ''hash'', pa_send = (\<lambda>tx. Inr ()), pa_idbSet = Inr (),
     pa_confirm = (\<lambda>m. True)\<rparr>"

definition zero_panel :: panel where
  "zero_panel = \<lparr>pn_store = None, pn_err = None, pn_busy = False, pn_remaining = Some 3,
     pn_stage = None, pn_flow = None, pn_idb = Map.empty, pn_sent = []\<rparr>"

lemma numeral_zero: "bigint_of_string ''0'' = Inr 0" "bigint_of_string ''3'' = Inr 3"
  by code_simp+

lemma compress_zero: "\<exists>p. compressProof zero_proof = Inr p"
  by (simp add: compressProof_def zero_proof_def negateG1_def at2_def compressG1_def compressG2_def
      bigint_opt_def at_def numeral_zero bigint_of_to_string_int)

lemma open_zero: "open_vote zero_env = open_vote plain_env"
  by (simp add: fun_eq_iff open_vote_def decrypt_vote_def zero_env_def plain_env_def)

lemma zero_count:
  "\<exists>c. count_batch (zero_panel_env (Some payer)) None 3 revote_rows = Inr c \<and>
     cn_rootNew c = 0 \<and> cn_tallyHashNew c = 0"
proof -
  let ?V = "zero_panel_env (Some payer)"
  obtain st0 where st0: "start_tally ?V None = Inr st0" "tally_inv zero_env (\<lambda>t. t) 2 st0"
    using start_tally_ok [OF zero_env_law, of ?V None] by (auto simp: zero_panel_env_def store_inv_def)
  have "\<forall>mb \<in> set revote_ballots. in_choices 2 (bl_choice (snd mb))"
    by (simp add: revote_ballots_def in_choices_def)
  then obtain st where "foldM (tally_vote zero_env 3) st0 revote_rows = Inr st"
    using batch_election [OF zero_env_law st0(2), of 3 revote_rows revote_ballots] open_revote [of 3]
    by (auto simp: open_zero)
  with st0(1) show ?thesis
    by (simp add: count_batch_def zero_panel_env_def Let_def zero_env_def plain_env_def map_smt_def)
qed

lemma zero_run: "\<exists>u. tally_body (zero_panel_env (Some payer)) zero_panel = (Inr (), u) \<and> pn_err u = None"
proof -
  let ?V = "zero_panel_env (Some payer)"
  obtain c where c: "count_batch ?V None 3 revote_rows = Inr c" "cn_rootNew c = 0" "cn_tallyHashNew c = 0"
    using zero_count by blast
  obtain p where p: "compressProof zero_proof = Inr p" using compress_zero ..
  have f: "fetch_batch ?V None = Inr revote_rows"
    by (simp add: fetch_batch_def zero_panel_env_def revote_rows_def MAX_BATCH_def)
  have pr: "prove_batch ?V c = Inr (zero_proof, 0)"
    using c by (simp add: prove_batch_def zero_panel_env_def bigint_opt_def at_def numeral_zero)
  have "\<exists>tx. batch_tx ?V None payer c zero_proof 0 = Inr tx"
    using p by (simp add: batch_tx_def zero_panel_env_def Let_def createTally_def tallyBatch_def findTally_def demo_env_def)
  then obtain tx where tx: "batch_tx ?V None payer c zero_proof 0 = Inr tx" ..
  have "\<exists>ns. next_store ?V None revote_rows c 0 = Inr ns"
    by (simp add: next_store_def revote_rows_def plain_row_def numeral_zero)
  then obtain ns where ns: "next_store ?V None revote_rows c 0 = Inr ns" ..
  have e: "pa_wallet ?V = Some payer" "pa_keypair ?V = Some the_tallier" "kp_sk the_tallier = 3"
      "pa_send ?V tx = Inr ()" "pa_idbSet ?V = Inr ()"
    by (simp_all add: zero_panel_env_def the_tallier_def)
  show ?thesis
    using c(1) f pr tx ns e
    by (simp add: tally_body_def proc_simps zero_panel_def begin_flow_def set_stage_def send_tx_def
        save_store_def bind_def seq_def need_def)
qed

theorem tally_next_casts_page_witness:
  "\<exists>ns. pn_store (onTallyNext (zero_panel_env (Some [])) zero_panel) = Some ns \<and>
    to_processedCount ns = 3"
proof -
  let ?V = "zero_panel_env (Some [])"
  have l: "pa_tally ?V = zero_env" "store_inv (pa_tally ?V) (\<lambda>t. t) (pa_nChoices ?V) (pn_store zero_panel)"
      "\<not> pn_busy zero_panel" "processed zero_panel = 0"
    by (simp_all add: zero_panel_env_def zero_panel_def store_inv_def processed_def)
  have ok: "pn_err (onTallyNext ?V zero_panel) = None"
    using zero_run [of "[]"] by (auto simp: onTallyNext_def attempt_def end_busy_def)
  have f: "pa_fetch ?V MAX_BATCH a = Inr (True, page) \<Longrightarrow> length (pg_items page) = 3" for a page
    by (auto simp: zero_panel_env_def MAX_BATCH_def revote_rows_def)
  from tally_next_casts_page [OF zero_env_law [folded l(1)] l(2,3) ok] f l(4) show ?thesis
    by (fastforce simp: Let_def)
qed

theorem tally_next_failure_keeps_progress_witness:
  "pn_store (onTallyNext (zero_panel_env None) zero_panel) = None \<and>
   \<not> pn_busy (onTallyNext (zero_panel_env None) zero_panel)"
proof -
  have "\<not> pn_busy zero_panel" "pn_store zero_panel = None" by (simp_all add: zero_panel_def)
  moreover have "pn_err (onTallyNext (zero_panel_env None) zero_panel) \<noteq> None"
    by (simp add: onTallyNext_def attempt_def tally_body_def proc_simps zero_panel_def
        begin_flow_def zero_panel_env_def fail_panel_def end_busy_def)
  ultimately show ?thesis using tally_next_failure_keeps_progress by metis
qed

definition zero_store :: tally_store where
  "zero_store = \<lparr>to_pollId = 5, to_accountId = ''1:2'', to_processedAfterId = 3, to_processedCount = 3,
     to_rootHex = toHex32 0, to_runningMsgHashHex = toHex32 0, to_tallySaltHex = toHex32 258,
     to_tallyCounts = map (to_string 10) [1, 0],
     to_leaves = [(5, \<lparr>lf_choice = 1, lf_revotingKey = 88, lf_hash = 0\<rparr>)]\<rparr>"

lemma zero_store_inv: "store_inv zero_env (\<lambda>t. t) 2 (Some zero_store)"
proof -
  have "\<exists>H. toHex32 0 = toHex32 H" "\<exists>H. toHex32 258 = toHex32 H" by blast+
  then show ?thesis
    by (simp add: store_inv_def zero_store_def leaves_ok_def tally_of_def STATE_DEPTH_def in_choices_def
        zero_env_def plain_env_def map_smt_def upt_rec)
qed

theorem resumed_inputs_match_saved_root_witness:
  "\<exists>c. count_batch (zero_panel_env None) (Some zero_store) 3 [plain_row ''4'' [5, 2, 88, 99]] = Inr c \<and>
     toHex32 (ti_rootOld (cn_inputs c)) = toHex32 0"
proof -
  let ?V = "zero_panel_env None" and ?b = "[plain_row ''4'' [5, 2, 88, 99]]"
  have e: "pa_tally ?V = zero_env" "pa_nChoices ?V = 2" by (simp_all add: zero_panel_env_def)
  have i: "store_inv (pa_tally ?V) (\<lambda>t. t) (pa_nChoices ?V) (Some zero_store)"
    using zero_store_inv by (simp add: e)
  obtain st0 where st0: "start_tally ?V (Some zero_store) = Inr st0" "tally_inv zero_env (\<lambda>t. t) 2 st0"
    using start_tally_ok [OF zero_env_law e(1), of "Some zero_store"] zero_store_inv e by auto
  have "open_vote zero_env 3 (plain_row ''4'' [5, 2, 88, 99]) = Inr
      (\<lparr>ms_R = (1, 2), ms_nonce = 7, ms_ct = [5, 2, 88, 99]\<rparr>,
       \<lparr>bl_nu = 5, bl_choice = 2, bl_keyOld = 88, bl_keyNew = 99\<rparr>)"
    unfolding open_zero by (rule open_plain_row) (simp_all add: small_FP)
  then obtain st where st: "foldM (tally_vote zero_env 3) st0 ?b = Inr st"
    using batch_election [OF zero_env_law st0(2), of 3 ?b] by (auto simp: in_choices_def)
  obtain salt where "hex_field (to_tallySaltHex zero_store) = Inr salt"
    using hex_field_toHex32 [of 258] by (auto simp: zero_store_def)
  moreover have "mapM bigint_of_string (to_tallyCounts zero_store) = Inr [1, 0]"
    unfolding zero_store_def using mapM_numerals [of "[1, 0]"] by simp
  ultimately obtain c where c: "count_batch ?V (Some zero_store) 3 ?b = Inr c"
    using st0(1) st e(1) by (simp add: count_batch_def Let_def)
  from resumed_inputs_match_saved_root [OF zero_env_law [folded e(1)] i c] c show ?thesis
    by (auto simp: zero_store_def MAX_BATCH_def)
qed

theorem finish_sends_result_witness:
  "final_counts (zero_panel_env None) (Some zero_store) = Inr (result 2 (board_of (to_leaves zero_store)))"
  using finish_sends_result [of "zero_panel_env None" "\<lambda>t. t" zero_store] zero_store_inv
  by (simp add: zero_panel_env_def)

end
