(* ===== verification/KeyringCorrect.thy ===== *)
theory KeyringCorrect
  imports Keyring
begin

text \<open>
  What the keyring guarantees. \<open>kr_step\<close> is one action of the user in the account drawer (or
  a reload of the page) with the guards of the rendered buttons; \<open>kr_inv\<close> says that the store
  holds the accounts shown and that the active index is one of them.
\<close>

section \<open>Effects of the operations\<close>

lemma setActive_run: "setActive V i s = (Inr (), s\<lparr>kr_active := i,
    kr_local := if kv_localOk V then (kr_local s)(ACTIVE_IDX_KEY \<mapsto> to_string 10 i) else kr_local s\<rparr>)"
  by (simp add: setActive_def proc_simps)

lemma setActive_bind [proc_simps]: "bind (setActive V i) f s = f () (snd (setActive V i s))"
  "seq (setActive V i) k s = k (snd (setActive V i s))"
  by (simp_all add: bind_def seq_def setActive_run)

lemma persist_bind [proc_simps]: "bind (persist V a) f s = f () (snd (persist V a s))"
  "seq (persist V a) k s = k (snd (persist V a s))"
  by (simp_all add: bind_def seq_def persist_def)

definition stored :: "'k crypto_env \<Rightarrow> string \<Rightarrow> keypair list \<Rightarrow> keyring \<Rightarrow> bool" where
  "stored C p as s \<longleftrightarrow> (\<exists>b. kr_idb s KEYRING_DB_KEY = Some b \<and>
     rbind (decryptFromBlob C p b) js_accounts = Inr as)"

lemma stored_write:
  assumes "crypto_law C" "kr_idb s = (idb(KEYRING_DB_KEY \<mapsto> encryptToBlob C p (accounts_js as) r))"
  shows "stored C p as s"
proof -
  obtain b where "kr_idb s KEYRING_DB_KEY = Some b" "decryptFromBlob C p b = Inr (accounts_js as)"
    using blob.open_last_write [of C "accounts_js as" "kr_idb s" idb KEYRING_DB_KEY p r] assms by auto
  then show ?thesis by (simp add: stored_def)
qed

definition kr_inv :: "'k crypto_env \<Rightarrow> keyring \<Rightarrow> bool" where
  "kr_inv C s \<longleftrightarrow> (\<not> kr_locked s \<longrightarrow>
     stored C (kr_pass s) (kr_accounts s) s \<and>
     0 \<le> kr_active s \<and> kr_active s \<le> max 0 (int (length (kr_accounts s)) - 1))"

lemma stored_cong: "kr_idb s = kr_idb t \<Longrightarrow> stored C p as s = stored C p as t"
  by (simp add: stored_def)

section \<open>Steps\<close>

definition reload_page :: "keyring \<Rightarrow> keyring" where
  "reload_page s = s\<lparr>kr_locked := True, kr_pass := [], kr_accounts := [], kr_active := 0,
     kr_hasKeyring := None, kr_importStatus := None\<rparr>"

inductive kr_step :: "'k crypto_env \<Rightarrow> keyring \<Rightarrow> keyring \<Rightarrow> bool" for C where
  step_pass: "kr_locked s \<Longrightarrow> kr_step C s (s\<lparr>kr_pass := p\<rparr>)"
| step_unlock: "kr_locked s \<Longrightarrow> kv_crypto V = C \<Longrightarrow> kr_step C s (run_proc (unlock V) s)"
| step_add: "\<not> kr_locked s \<Longrightarrow> kv_crypto V = C \<Longrightarrow> kr_step C s (run_proc (addNew V name) s)"
| step_import: "\<not> kr_locked s \<Longrightarrow> kv_crypto V = C \<Longrightarrow>
    kr_step C s (run_proc (importPrv V name prvHex) s)"
| step_remove: "\<not> kr_locked s \<Longrightarrow> kv_crypto V = C \<Longrightarrow> kr_step C s (run_proc (removeAt V idx) s)"
| step_use: "\<not> kr_locked s \<Longrightarrow> kv_crypto V = C \<Longrightarrow> idx < length (kr_accounts s) \<Longrightarrow>
    kr_step C s (run_proc (setActive V (int idx)) s)"
| step_clear: "kr_step C s (run_proc clearImportStatus s)"
| step_reload: "kr_step C s (reload_page s)"
| step_load: "kr_step C s (run_proc load_hasKeyring s)"

inductive_cases kr_stepE: "kr_step C s t"

lemma inv_unlock:
  assumes "crypto_law (kv_crypto V)" "kr_locked s"
  shows "kr_inv (kv_crypto V) (run_proc (unlock V) s)"
proof (cases "kr_idb s KEYRING_DB_KEY")
  case None
  then show ?thesis
    using stored_write [OF assms(1)]
    by (simp add: run_proc_def unlock_def proc_simps setActive_run kr_inv_def)
next
  case (Some b)
  then show ?thesis using assms(2)
    by (auto simp: run_proc_def unlock_def proc_simps setActive_run kr_inv_def stored_def
        split: sum.splits)
qed

lemma inv_persist:
  assumes "crypto_law (kv_crypto V)" "kr_inv (kv_crypto V) s" "\<not> kr_locked s"
    "length (kr_accounts s) \<le> length next"
  shows "kr_inv (kv_crypto V) (snd (persist V next s))"
  using assms stored_write [OF assms(1)] by (auto simp: kr_inv_def persist_def)

lemma inv_import_fail: "kr_inv C s \<Longrightarrow> kr_inv C (snd (import_fail m s))"
  by (auto simp: kr_inv_def import_fail_def stored_def)

lemma inv_clear: "kr_inv C s \<Longrightarrow> kr_inv C (snd (clearImportStatus s))"
  by (auto simp: kr_inv_def clearImportStatus_def stored_def)

lemma clear_seq [proc_simps]: "seq clearImportStatus k s = k (snd (clearImportStatus s))"
  by (simp add: clearImportStatus_def proc_simps)

lemma clear_simps [simp]: "kr_locked (snd (clearImportStatus s)) = kr_locked s"
  "kr_accounts (snd (clearImportStatus s)) = kr_accounts s"
  "kr_pass (snd (clearImportStatus s)) = kr_pass s"
  by (simp_all add: clearImportStatus_def)

text \<open>The body of an import after its checks, or the check that failed.\<close>

lemma import_cases:
  "(\<exists>m. importPrv V name prvHex s = import_fail m (snd (clearImportStatus s))) \<or>
   (\<exists>e. importPrv V name prvHex s = (Inl e, snd (clearImportStatus s))) \<or>
   (\<exists>k u. importPrv V name prvHex s = (Inr (), u) \<and> kp_name k = name \<and>
      hexToBytes32 (import_hex prvHex) = Inr (kp_prv k) \<and>
      kp_sk k = prv2sk (kv_keys V) (kp_prv k) \<and> kp_pub k = ke_mulBase (kv_keys V) (kp_sk k) \<and>
      name \<noteq> [] \<and> name \<notin> kp_name ` set (kr_accounts s) \<and> kp_prv k \<notin> kp_prv ` set (kr_accounts s) \<and>
      u = (snd (persist V (kr_accounts s @ [k]) (snd (clearImportStatus s))))\<lparr>
        kr_importStatus := Some (True, Imported name)\<rparr>)"
proof (cases "hexToBytes32 (import_hex prvHex)")
  case (Inl e)
  then show ?thesis by (auto simp: importPrv_def proc_simps Let_def)
next
  case (Inr prv)
  show ?thesis
    by (auto simp: importPrv_def proc_simps Let_def Inr list_ex_iff arraysEqual_eq image_iff
        intro!: exI [of _ "\<lparr>kp_name = name, kp_prv = prv, kp_sk = prv2sk (kv_keys V) prv,
          kp_pub = ke_mulBase (kv_keys V) (prv2sk (kv_keys V) prv), kp_createdAt = kv_now V\<rparr>"])
qed


lemma inv_status: "kr_inv C t \<Longrightarrow> kr_inv C (t\<lparr>kr_importStatus := i\<rparr>)"
  by (simp add: kr_inv_def stored_def)

lemma inv_import:
  assumes "crypto_law (kv_crypto V)" "kr_inv (kv_crypto V) s" "\<not> kr_locked s"
  shows "kr_inv (kv_crypto V) (run_proc (importPrv V name prvHex) s)"
proof -
  let ?c = "snd (clearImportStatus s)"
  have c: "kr_inv (kv_crypto V) ?c" using inv_clear [OF assms(2)] .
  have p: "kr_inv (kv_crypto V) (snd (persist V (kr_accounts s @ [k]) ?c))" for k
    using inv_persist [OF assms(1) c] assms(3) by simp
  show ?thesis
    using import_cases [of V name prvHex s] c p inv_import_fail [OF c]
    by (auto simp: run_proc_def inv_status)
qed

text \<open>The state after a confirmed removal.\<close>

lemma removeAt_run:
  assumes "idx < length (kr_accounts s)" "kv_confirm V (delete_prompt (kp_name (kr_accounts s ! idx)))"
  defines "next \<equiv> take idx (kr_accounts s) @ drop (Suc idx) (kr_accounts s)"
  shows "removeAt V idx s = (Inr (),
    if kr_active s \<ge> int (length next)
    then snd (setActive V (max 0 (int (length next) - 1)) (snd (persist V next s)))
    else snd (persist V next s))"
  using assms(1,2)
  by (simp add: removeAt_def proc_simps at_def Let_def next_def setActive_run)

lemma removeAt_none:
  "\<not> (idx < length (kr_accounts s) \<and> kv_confirm V (delete_prompt (kp_name (kr_accounts s ! idx)))) \<Longrightarrow>
   run_proc (removeAt V idx) s = s"
  by (auto simp: removeAt_def proc_simps at_def run_proc_def)

lemma inv_remove:
  assumes "crypto_law (kv_crypto V)" "kr_inv (kv_crypto V) s" "\<not> kr_locked s"
  shows "kr_inv (kv_crypto V) (run_proc (removeAt V idx) s)"
proof (cases "idx < length (kr_accounts s) \<and> kv_confirm V (delete_prompt (kp_name (kr_accounts s ! idx)))")
  case True
  let ?n = "take idx (kr_accounts s) @ drop (Suc idx) (kr_accounts s)"
  have "stored (kv_crypto V) (kr_pass s) ?n t" if "kr_idb t = kr_idb (snd (persist V ?n s))" for t
    by (rule stored_write [OF assms(1)]) (simp add: that persist_def)
  then show ?thesis
    using True removeAt_run [of idx s V] assms(2,3)
    by (auto simp: run_proc_def setActive_run kr_inv_def persist_def)
next
  case False
  then show ?thesis using removeAt_none assms(2) by metis
qed

lemma inv_step: "kr_step C s t \<Longrightarrow> crypto_law C \<Longrightarrow> kr_inv C s \<Longrightarrow> kr_inv C t"
proof (induction rule: kr_step.induct)
  case (step_unlock s V)
  then show ?case using inv_unlock by auto
next
  case (step_add s V name)
  then show ?case using inv_persist [of V s "kr_accounts s @ [genAccount V name]"]
    by (simp add: run_proc_def addNew_def proc_simps)
next
  case (step_import s V name prvHex)
  then show ?case using inv_import by auto
next
  case (step_remove s V idx)
  then show ?case using inv_remove by auto
next
  case (step_use s V idx)
  then show ?case by (simp add: run_proc_def setActive_run kr_inv_def stored_def)
next
  case (step_clear s)
  then show ?case using inv_clear by (simp add: run_proc_def)
qed (simp_all add: kr_inv_def reload_page_def run_proc_def load_hasKeyring_def stored_def)

lemma inv_steps: "(kr_step C)\<^sup>*\<^sup>* s t \<Longrightarrow> crypto_law C \<Longrightarrow> kr_inv C s \<Longrightarrow> kr_inv C t"
  by (induction rule: rtranclp_induct) (auto intro: inv_step)

lemma stored_unlock:
  assumes "stored (kv_crypto V) p as s" "kr_pass s = p"
  shows "\<exists>t. unlock V s = (Inr True, t) \<and> kr_accounts t = as \<and> \<not> kr_locked t"
proof -
  obtain b where b: "kr_idb s KEYRING_DB_KEY = Some b"
      "rbind (decryptFromBlob (kv_crypto V) p b) js_accounts = Inr as"
    using assms(1) by (auto simp: stored_def)
  then show ?thesis using assms(2) by (simp add: unlock_def proc_simps setActive_run)
qed

section \<open>Properties\<close>

text \<open>
  C27: in every state reachable from a locked keyring by any actions of the user, if the
  keyring is unlocked then the active index is that of an account (or zero when there is
  none), and the store holds exactly the accounts shown: after a reload of the page the same
  passphrase brings them back.
\<close>

theorem keyring_survives_reload:
  assumes "crypto_law C" "kr_locked s" "(kr_step C)\<^sup>*\<^sup>* s t" "\<not> kr_locked t" "kv_crypto V = C"
  shows "0 \<le> kr_active t \<and> kr_active t \<le> max 0 (int (length (kr_accounts t)) - 1) \<and>
    (\<exists>u. unlock V ((reload_page t)\<lparr>kr_pass := kr_pass t\<rparr>) = (Inr True, u) \<and>
      kr_accounts u = kr_accounts t \<and> \<not> kr_locked u)"
proof -
  have "kr_inv C s" using assms(2) by (simp add: kr_inv_def)
  with inv_steps [OF assms(3,1)] have "kr_inv C t" by blast
  then have st: "stored C (kr_pass t) (kr_accounts t) t"
    and "0 \<le> kr_active t" "kr_active t \<le> max 0 (int (length (kr_accounts t)) - 1)"
    using assms(4) by (simp_all add: kr_inv_def)
  moreover have "stored (kv_crypto V) (kr_pass t) (kr_accounts t) ((reload_page t)\<lparr>kr_pass := kr_pass t\<rparr>)"
    using st assms(5) by (simp add: stored_def reload_page_def)
  ultimately show ?thesis
    using stored_unlock [of V "kr_pass t" "kr_accounts t" "(reload_page t)\<lparr>kr_pass := kr_pass t\<rparr>"]
    by simp
qed

text \<open>An empty browser, and an environment in which the user confirms every dialogue.\<close>

definition fresh_keyring :: keyring where
  "fresh_keyring = \<lparr>kr_locked = True, kr_pass = ''pass'', kr_accounts = [], kr_active = 0,
     kr_hasKeyring = Some False, kr_importStatus = None, kr_idb = Map.empty, kr_local = Map.empty,
     kr_alerts = []\<rparr>"

definition yes_env :: "string kr_env" where
  "yes_env = \<lparr>kv_crypto = tag_crypto, kv_keys = flat_keys, kv_random = replicate 32 7,
     kv_salts = ([1], [2]), kv_now = 1000, kv_confirm = (\<lambda>m. True), kv_localOk = True\<rparr>"

definition one_account :: keyring where
  "one_account = run_proc (addNew yes_env ''alice'') (run_proc (unlock yes_env) fresh_keyring)"

lemma one_account_reached: "(kr_step tag_crypto)\<^sup>*\<^sup>* fresh_keyring one_account"
proof -
  have "kr_step tag_crypto fresh_keyring (run_proc (unlock yes_env) fresh_keyring)"
    by (rule step_unlock) (simp_all add: fresh_keyring_def yes_env_def)
  moreover have "kr_step tag_crypto (run_proc (unlock yes_env) fresh_keyring) one_account"
    unfolding one_account_def
    by (rule step_add) (simp_all add: fresh_keyring_def yes_env_def unlock_def proc_simps run_proc_def setActive_run)
  ultimately show ?thesis by (meson rtranclp.rtrancl_into_rtrancl rtranclp.rtrancl_refl)
qed

lemma one_account_state: "\<not> kr_locked one_account" "length (kr_accounts one_account) = 1"
    "kr_active one_account = 0"
  by (simp_all add: one_account_def fresh_keyring_def yes_env_def unlock_def addNew_def proc_simps
      run_proc_def setActive_run persist_def)

theorem keyring_survives_reload_witness:
  "\<exists>u. unlock yes_env ((reload_page one_account)\<lparr>kr_pass := kr_pass one_account\<rparr>) = (Inr True, u) \<and>
     length (kr_accounts u) = 1"
proof -
  have "kr_locked fresh_keyring" "kv_crypto yes_env = tag_crypto"
    by (simp_all add: fresh_keyring_def yes_env_def)
  with keyring_survives_reload [OF tag_crypto_law(1) _ one_account_reached one_account_state(1)]
    one_account_state(2) show ?thesis by fastforce
qed

text \<open>
  A passphrase whose derived key differs from the one the keyring was stored under does
  not unlock it: the user is alerted, and the accounts, the lock and the store stay as they
  were.
\<close>

theorem wrong_passphrase_keeps_keyring:
  assumes "auth_law (kv_crypto V)"
    and "kr_idb s KEYRING_DB_KEY = Some (encryptToBlob (kv_crypto V) p (accounts_js as) r)"
    and "pbkdf2 (kv_crypto V) p (fst r) \<noteq> pbkdf2 (kv_crypto V) (kr_pass s) (fst r)"
  shows "unlock V s = (Inr False, s\<lparr>kr_alerts := kr_alerts s @
    [''Wrong passphrase or corrupted keyring'']\<rparr>)"
proof -
  obtain e where "decryptFromBlob (kv_crypto V) (kr_pass s)
      (encryptToBlob (kv_crypto V) p (accounts_js as) r) = Inl e"
    using blob_wrong_pass [OF assms(1,3)] by blast
  with assms(2) show ?thesis by (simp add: unlock_def proc_simps)
qed

theorem wrong_passphrase_keeps_keyring_witness:
  "let s = fresh_keyring\<lparr>kr_idb := [KEYRING_DB_KEY \<mapsto>
      encryptToBlob tag_crypto ''other'' (accounts_js []) ([], [])]\<rparr> in
   fst (unlock yes_env s) = Inr False \<and> kr_locked (snd (unlock yes_env s))"
  using wrong_passphrase_keeps_keyring [of yes_env "fresh_keyring\<lparr>kr_idb := [KEYRING_DB_KEY \<mapsto>
      encryptToBlob tag_crypto ''other'' (accounts_js []) ([], [])]\<rparr>" "''other''" "[]" "([], [])"]
    tag_crypto_law(2)
  by (simp add: yes_env_def pbkdf2_def tag_crypto_def fresh_keyring_def)

text \<open>
  An import never makes two accounts share a name or a private key; it either leaves the
  accounts as they were or appends one with the requested non-empty name, whose secret and
  public key are derived from the 32 bytes of the hexadecimal text.
\<close>

theorem importPrv_no_duplicates:
  "(let s' = run_proc (importPrv V name prvHex) s; as = kr_accounts s in
    kr_accounts s' = as \<or>
    (\<exists>k. kr_accounts s' = as @ [k] \<and> kp_name k = name \<and> name \<noteq> [] \<and>
      hexToBytes32 (import_hex prvHex) = Inr (kp_prv k) \<and>
      kp_sk k = prv2sk (kv_keys V) (kp_prv k) \<and> kp_pub k = ke_mulBase (kv_keys V) (kp_sk k) \<and>
      kp_name k \<notin> kp_name ` set as \<and> kp_prv k \<notin> kp_prv ` set as))"
  using import_cases [of V name prvHex s]
  by (auto simp: Let_def run_proc_def import_fail_def persist_def)

text \<open>
  Removing an account that stands before the active one (while another stands behind the
  active one) silently makes that other account active: the index is kept while the list
  shifts under it.
\<close>

theorem removeAt_shifts_active:
  assumes "idx < active" "Suc active < length (kr_accounts s)" "kr_active s = int active"
    and "kv_confirm V (delete_prompt (kp_name (kr_accounts s ! idx)))"
  shows "let s' = run_proc (removeAt V idx) s in
    kr_active s' = int active \<and> kr_accounts s' ! active = kr_accounts s ! Suc active"
proof -
  let ?n = "take idx (kr_accounts s) @ drop (Suc idx) (kr_accounts s)"
  have "?n ! active = kr_accounts s ! Suc active"
    using assms(1,2) by (simp add: nth_append min_def)
  then show ?thesis
    using removeAt_run [of idx s V] assms by (simp add: run_proc_def persist_def Let_def)
qed

definition named :: "string \<Rightarrow> keypair" where
  "named n = \<lparr>kp_name = n, kp_prv = [], kp_sk = 0, kp_pub = (0, 0), kp_createdAt = 0\<rparr>"

theorem removeAt_shifts_active_witness:
  "let s = fresh_keyring\<lparr>kr_accounts := [named ''a'', named ''b'', named ''c''], kr_active := 1\<rparr>;
       s' = run_proc (removeAt yes_env 0) s in
   kp_name (kr_accounts s ! nat (kr_active s)) = ''b'' \<and>
   kp_name (kr_accounts s' ! nat (kr_active s')) = ''c''"
  using removeAt_shifts_active [of 0 1
      "fresh_keyring\<lparr>kr_accounts := [named ''a'', named ''b'', named ''c''], kr_active := 1\<rparr>" yes_env]
  by (simp add: Let_def yes_env_def named_def)

end
