(* ===== verification/RevoKeys.thy ===== *)
theory RevoKeys
  imports Proc Blob KvStore Key
begin

text \<open>
  The re-voting keys of \<open>frontend/src/keyring.tsx\<close>, component \<open>RevoKeysProvider\<close>: one secret
  per account and poll, kept in one encrypted entry of IndexedDB. \<open>revo_map\<close> interprets the
  contract of key-value stores on the pure part; the handlers add persistence.
\<close>

definition REVO_DB_KEY :: string where "REVO_DB_KEY = ''mootvote:revo:v1''"

text \<open>\<open>generateForPoll\<close> leaves the title out.\<close>

record revo_key =
  rk_sk :: int
  rk_updatedAt :: int
  rk_title :: "string option"

type_synonym revo_keys = "revo_key js_object js_object"

text \<open>The locked flag and the passphrase are those of the keyring.\<close>

record revo_state =
  rv_locked :: bool
  rv_pass :: string
  rv_loaded :: bool
  rv_map :: revo_keys
  rv_idb :: "string \<Rightarrow> encrypted_blob option"

record 'k revo_env =
  re_crypto :: "'k crypto_env"
  re_salts :: "byte list \<times> byte list"
  re_random :: "byte list"
  re_subOrder :: int
  re_now :: int

section \<open>The map\<close>

definition account_keys :: "revo_keys \<Rightarrow> string \<Rightarrow> revo_key js_object" where
  "account_keys m accountId = (case map_of m accountId of None \<Rightarrow> [] | Some k \<Rightarrow> k)"

definition revo_get :: "string \<times> int \<Rightarrow> revo_keys \<Rightarrow> revo_key option" where
  "revo_get k m = map_of (account_keys m (fst k)) (to_string 10 (snd k))"

definition revo_put :: "string \<times> int \<Rightarrow> revo_key \<Rightarrow> revo_keys \<Rightarrow> revo_keys" where
  "revo_put k rk m = AList.update (fst k)
     (AList.update (to_string 10 (snd k)) rk (account_keys m (fst k))) m"

definition revo_del :: "string \<times> int \<Rightarrow> revo_keys \<Rightarrow> revo_keys" where
  "revo_del k m = AList.update (fst k)
     (AList.delete (to_string 10 (snd k)) (account_keys m (fst k))) m"

lemma account_keys_update:
  "account_keys (AList.update a ks m) b = (if b = a then ks else account_keys m b)"
  by (simp add: account_keys_def update_conv')

interpretation revo_map: kv_store revo_get revo_put revo_del
proof
  fix k k' :: "string \<times> int" and v and m :: revo_keys
  show "revo_get k (revo_put k' v m) = (if k = k' then Some v else revo_get k m)"
    by (auto simp: revo_get_def revo_put_def account_keys_update obj.get_put prod_eq_iff
        dest: to_string_inj)
  show "revo_get k (revo_del k' m) = (if k = k' then None else revo_get k m)"
    by (auto simp: revo_get_def revo_del_def account_keys_update obj.get_del prod_eq_iff
        dest: to_string_inj)
qed

section \<open>As data\<close>

definition revo_key_js :: "revo_key \<Rightarrow> jsv" where
  "revo_key_js rk = JObj ([(''sk'', JBig (rk_sk rk)), (''updatedAt'', JNum (rk_updatedAt rk))]
     @ (case rk_title rk of None \<Rightarrow> [] | Some t \<Rightarrow> [(''title'', JStr t)]))"

definition revo_js :: "revo_keys \<Rightarrow> jsv" where
  "revo_js m = JObj (map (\<lambda>(a, ks). (a, JObj (map (\<lambda>(p, rk). (p, revo_key_js rk)) ks))) m)"

definition js_revo_key :: "jsv \<Rightarrow> revo_key res" where
  "js_revo_key v = (case v of
       JObj kvs \<Rightarrow> (case (map_of kvs ''sk'', map_of kvs ''updatedAt'') of
           (Some (JBig sk), Some (JNum t)) \<Rightarrow> Inr \<lparr>rk_sk = sk, rk_updatedAt = t,
             rk_title = (case map_of kvs ''title'' of Some (JStr s) \<Rightarrow> Some s | _ \<Rightarrow> None)\<rparr>
         | _ \<Rightarrow> Inl TypeError)
     | _ \<Rightarrow> Inl TypeError)"

definition js_entries_of :: "(jsv \<Rightarrow> 'a res) \<Rightarrow> jsv \<Rightarrow> 'a js_object res" where
  "js_entries_of f v = (case v of
       JObj kvs \<Rightarrow> mapM (\<lambda>kv. rbind (f (snd kv)) (\<lambda>u. Inr (fst kv, u))) kvs
     | _ \<Rightarrow> Inl TypeError)"

text \<open>\<open>obj || {}\<close>: a stored \<open>null\<close> is the empty map.\<close>

definition js_revo :: "jsv \<Rightarrow> revo_keys res" where
  "js_revo v = (if v = JNull then Inr [] else js_entries_of (js_entries_of js_revo_key) v)"

lemma js_revo_key_js [simp]: "js_revo_key (revo_key_js rk) = Inr rk"
  by (simp add: js_revo_key_def revo_key_js_def split: option.splits)

lemma js_entries_map: "(\<And>x. f (g x) = Inr x) \<Longrightarrow>
  js_entries_of f (JObj (map (\<lambda>(k, x). (k, g x)) kvs)) = Inr kvs"
  unfolding js_entries_of_def by (simp, induction kvs) auto

lemma js_revo_js [simp]: "js_revo (revo_js m) = Inr m"
  unfolding js_revo_def revo_js_def by (simp add: js_entries_map del: case_prod_beta)

text \<open>Account ids and poll ids are never the two tags of the JSON traversal.\<close>

definition revo_ok :: "revo_keys \<Rightarrow> bool" where
  "revo_ok m \<longleftrightarrow> (\<forall>(a, ks) \<in> set m. a \<noteq> BIGINT_TAG \<and> a \<noteq> TA_TAG \<and>
     (\<forall>(p, rk) \<in> set ks. p \<noteq> BIGINT_TAG \<and> p \<noteq> TA_TAG))"

section \<open>Handlers\<close>

definition reload :: "'k revo_env \<Rightarrow> (revo_state, unit) proc" where
  "reload V = bind (read id) (\<lambda>s.
     if rv_locked s then ret ()
     else case rv_idb s REVO_DB_KEY of
       None \<Rightarrow> update (\<lambda>s. s\<lparr>rv_map := [], rv_loaded := True\<rparr>)
     | Some blob \<Rightarrow> (case rbind (decryptFromBlob (re_crypto V) (rv_pass s) blob) js_revo of
           Inr m \<Rightarrow> update (\<lambda>s. s\<lparr>rv_map := m, rv_loaded := True\<rparr>)
         | Inl e \<Rightarrow> update (\<lambda>s. s\<lparr>rv_map := [], rv_loaded := True\<rparr>)))"

definition revo_persist :: "'k revo_env \<Rightarrow> revo_keys \<Rightarrow> (revo_state, unit) proc" where
  "revo_persist V next = update (\<lambda>s. if rv_locked s then s else
     s\<lparr>rv_idb := (rv_idb s)(REVO_DB_KEY \<mapsto>
         encryptToBlob (re_crypto V) (rv_pass s) (revo_js next) (re_salts V)),
       rv_map := next\<rparr>)"

definition getForPoll :: "revo_state \<Rightarrow> string \<Rightarrow> int \<Rightarrow> revo_key option" where
  "getForPoll s accountId pollId = revo_get (accountId, pollId) (rv_map s)"

definition generateForPoll :: "'k revo_env \<Rightarrow> revo_key res" where
  "generateForPoll V = rbind (randomScalar (re_random V) (re_subOrder V)) (\<lambda>sk.
     Inr \<lparr>rk_sk = sk, rk_updatedAt = re_now V, rk_title = None\<rparr>)"

definition setForPoll :: "'k revo_env \<Rightarrow> string \<Rightarrow> int \<Rightarrow> revo_key \<Rightarrow> (revo_state, unit) proc" where
  "setForPoll V accountId pollId rk = bind (read rv_map) (\<lambda>m.
     revo_persist V (revo_put (accountId, pollId) rk m))"

definition removeForPoll :: "'k revo_env \<Rightarrow> string \<Rightarrow> int \<Rightarrow> (revo_state, unit) proc" where
  "removeForPoll V accountId pollId = bind (read rv_map) (\<lambda>m.
     revo_persist V (revo_del (accountId, pollId) m))"

definition revo_exportJson :: "revo_state \<Rightarrow> string \<times> jsv" where
  "revo_exportJson s = (''revo-keys.json'', json_write (revo_js (rv_map s)))"

definition exportRevo :: "revo_state \<Rightarrow> string \<Rightarrow> string option \<Rightarrow> string \<times> jsv" where
  "exportRevo s accountId filename =
     ((case filename of Some f \<Rightarrow> f
       | None \<Rightarrow> ''revo-keys-'' @ take 8 accountId @ ''.json''),
      json_write (JObj (map (\<lambda>(p, rk). (p, revo_key_js rk)) (account_keys (rv_map s) accountId))))"

section \<open>Properties\<close>

lemma map_of_keys_None: "\<forall>kx \<in> set xs. fst kx \<noteq> k \<Longrightarrow> map_of (map (\<lambda>(a, x). (a, g x)) xs) k = None"
  by (induction xs) auto

lemma revo_key_json_ok [simp]: "json_ok (revo_key_js rk)"
  by (auto simp: revo_key_js_def BIGINT_TAG_def TA_TAG_def split: option.splits)

lemma revo_json_ok: "revo_ok m \<Longrightarrow> json_ok (revo_js m)"
proof -
  assume ok: "revo_ok m"
  have "json_ok (JObj (map (\<lambda>(p, rk). (p, revo_key_js rk)) ks))" if "(a, ks) \<in> set m" for a ks
  proof -
    have "\<forall>kx \<in> set ks. fst kx \<noteq> BIGINT_TAG" "\<forall>kx \<in> set ks. fst kx \<noteq> TA_TAG"
      using ok that by (fastforce simp: revo_ok_def)+
    from map_of_keys_None [OF this(1), of revo_key_js] map_of_keys_None [OF this(2), of revo_key_js]
    show ?thesis by auto
  qed
  moreover have "map_of (map (\<lambda>(a, ks). (a, JObj (map (\<lambda>(p, rk). (p, revo_key_js rk)) ks))) m) k = None"
    if "k = BIGINT_TAG \<or> k = TA_TAG" for k
    using ok that by (intro map_of_keys_None) (auto simp: revo_ok_def)
  ultimately show ?thesis unfolding revo_js_def by auto
qed

lemma revo_persist_run: "revo_persist V next s = (Inr (), if rv_locked s then s else
     s\<lparr>rv_idb := (rv_idb s)(REVO_DB_KEY \<mapsto>
         encryptToBlob (re_crypto V) (rv_pass s) (revo_js next) (re_salts V)), rv_map := next\<rparr>)"
  by (simp add: revo_persist_def)

lemma setForPoll_run: "setForPoll V a p rk s = revo_persist V (revo_put (a, p) rk (rv_map s)) s"
  by (simp add: setForPoll_def proc_simps)

text \<open>
  With an unlocked keyring, storing a key for an account and a poll is seen by a lookup
  for exactly that pair, every other pair keeps its key, and removal undoes it; with a locked
  keyring nothing changes.
\<close>

theorem revo_lookup_after_set:
  "(let s' = run_proc (setForPoll V a p rk) s in
    getForPoll s' b q = (if \<not> rv_locked s \<and> a = b \<and> p = q then Some rk else getForPoll s b q)) \<and>
   (let s' = run_proc (removeForPoll V a p) s in
    getForPoll s' b q = (if \<not> rv_locked s \<and> a = b \<and> p = q then None else getForPoll s b q))"
  by (auto simp: run_proc_def setForPoll_run removeForPoll_def proc_simps revo_persist_run
      getForPoll_def revo_map.get_put revo_map.get_del)

text \<open>
  A key that was stored survives a reload of the page: reading the entry back under the
  same passphrase restores the whole map.
\<close>

theorem revo_survives_reload:
  assumes "crypto_law (re_crypto V)" "re_crypto V' = re_crypto V" "\<not> rv_locked s"
    and "revo_ok (revo_put (a, p) rk (rv_map s))"
  shows "let s' = run_proc (setForPoll V a p rk) s;
       u = run_proc (reload V') (s'\<lparr>rv_map := [], rv_loaded := False\<rparr>)
     in rv_map u = rv_map s' \<and> rv_loaded u \<and> getForPoll u a p = Some rk"
  using assms blob.open_seal [of "re_crypto V" "revo_js (revo_put (a, p) rk (rv_map s))"]
    revo_json_ok [OF assms(4)]
  by (simp add: run_proc_def setForPoll_run revo_persist_run reload_def proc_simps getForPoll_def
      revo_map.get_put_same)

definition revo_env0 :: "string revo_env" where
  "revo_env0 = \<lparr>re_crypto = tag_crypto, re_salts = ([1], [2]), re_random = [9], re_subOrder = 11,
     re_now = 5\<rparr>"

definition revo_open :: revo_state where
  "revo_open = \<lparr>rv_locked = False, rv_pass = ''pass'', rv_loaded = True, rv_map = [],
     rv_idb = Map.empty\<rparr>"

definition revo_key0 :: revo_key where
  "revo_key0 = \<lparr>rk_sk = 42, rk_updatedAt = 5, rk_title = Some ''t''\<rparr>"

theorem revo_survives_reload_witness:
  "getForPoll (run_proc (reload revo_env0)
     ((run_proc (setForPoll revo_env0 ''1:2'' 7 revo_key0) revo_open)\<lparr>rv_map := [], rv_loaded := False\<rparr>))
     ''1:2'' 7 = Some revo_key0"
proof -
  have n: "\<not> rv_locked revo_open" by (simp add: revo_open_def)
  have d: "to_string 10 7 = ''7''" by code_simp
  have "revo_ok (revo_put (''1:2'', 7) revo_key0 (rv_map revo_open))"
    by (simp add: revo_ok_def revo_put_def revo_open_def account_keys_def d BIGINT_TAG_def TA_TAG_def)
  with revo_survives_reload [of revo_env0 revo_env0, OF _ refl n] show ?thesis
    using tag_crypto_law(1) by (simp add: revo_env0_def Let_def)
qed

text \<open>
  An entry that does not decrypt (a changed passphrase, damage) is taken for an empty map,
  and the next key that is stored replaces it: every key the entry held is gone from the
  store.
\<close>

theorem unreadable_keys_are_overwritten:
  assumes "crypto_law (re_crypto V)" "re_crypto V' = re_crypto V" "\<not> rv_locked s"
    and "rv_idb s REVO_DB_KEY = Some blob"
    and "decryptFromBlob (re_crypto V) (rv_pass s) blob = Inl e"
    and "a \<noteq> BIGINT_TAG" "a \<noteq> TA_TAG" "0 \<le> p"
  shows "let s' = run_proc (setForPoll V a p rk) (run_proc (reload V') s) in
    \<exists>b. rv_idb s' REVO_DB_KEY = Some b \<and>
      rbind (decryptFromBlob (re_crypto V) (rv_pass s) b) js_revo = Inr [(a, [(to_string 10 p, rk)])]"
proof -
  have dig: "to_string 10 p \<noteq> BIGINT_TAG" "to_string 10 p \<noteq> TA_TAG"
  proof -
    have "bigint_of_string BIGINT_TAG = Inl SyntaxError" "bigint_of_string TA_TAG = Inl SyntaxError"
      by code_simp+
    then show "to_string 10 p \<noteq> BIGINT_TAG" "to_string 10 p \<noteq> TA_TAG"
      using bigint_of_to_string_int [of p] by (metis Inl_Inr_False)+
  qed
  have put: "revo_put (a, p) rk [] = [(a, [(to_string 10 p, rk)])]"
    by (simp add: revo_put_def account_keys_def)
  have "json_ok (revo_js [(a, [(to_string 10 p, rk)])])"
    using dig assms(6,7) by (intro revo_json_ok) (simp add: revo_ok_def)
  then have "decryptFromBlob (re_crypto V) (rv_pass s) (encryptToBlob (re_crypto V) (rv_pass s)
      (revo_js [(a, [(to_string 10 p, rk)])]) (re_salts V)) = Inr (revo_js [(a, [(to_string 10 p, rk)])])"
    using assms(1) by (simp add: blob.open_seal)
  then show ?thesis
    using assms(2-5) by (simp add: run_proc_def setForPoll_run revo_persist_run reload_def proc_simps put)
qed

theorem unreadable_keys_are_overwritten_witness:
  "let s = revo_open\<lparr>rv_idb := [REVO_DB_KEY \<mapsto>
        encryptToBlob tag_crypto ''old'' (revo_js [(''1:2'', [(''3'', revo_key0)])]) ([], [])]\<rparr>;
       s' = run_proc (setForPoll revo_env0 ''1:2'' 7 revo_key0) (run_proc (reload revo_env0) s)
   in \<exists>b. rv_idb s' REVO_DB_KEY = Some b \<and>
     rbind (decryptFromBlob tag_crypto ''pass'' b) js_revo = Inr [(''1:2'', [(to_string 10 7, revo_key0)])]"
proof -
  let ?b = "encryptToBlob tag_crypto ''old'' (revo_js [(''1:2'', [(''3'', revo_key0)])]) ([], [])"
  obtain e where "decryptFromBlob tag_crypto ''pass'' ?b = Inl e"
    using blob_wrong_pass [OF tag_crypto_law(2), of "''old''" "([], [])" "''pass''"]
    by (auto simp: pbkdf2_def tag_crypto_def)
  moreover have "re_crypto revo_env0 = tag_crypto" by (simp add: revo_env0_def)
  ultimately show ?thesis
    using unreadable_keys_are_overwritten [of revo_env0 revo_env0 "revo_open\<lparr>rv_idb := [REVO_DB_KEY \<mapsto> ?b]\<rparr>" ?b e
        "''1:2''" 7 revo_key0] tag_crypto_law(1)
    by (simp add: revo_open_def BIGINT_TAG_def TA_TAG_def Let_def)
qed

end
