(* ===== verification/Vote.thy ===== *)
theory Vote
  imports RevoKeys Keyring MerkleTree MootSdk
begin

text \<open>
  Casting a vote, \<open>frontend/src/components/Vote.tsx\<close>: the census proof, the two nullifiers,
  the encrypted ballot, the circuit inputs, and the submission through the relayer or by the
  voter's own wallet, with the re-voting key stored at the end. The libraries, the network and
  the wallet answer through \<open>vote_env\<close>.
\<close>

definition CENSUS_DEPTH :: nat where "CENSUS_DEPTH = 40"

record poll_detail =
  pd_poll_id :: string
  pd_census_root :: string
  pd_tallier_key :: "string \<times> string"
  pd_voting_start_time :: int
  pd_voting_end_time :: int
  pd_fee :: string
  pd_platform_fee :: string
  pd_fee_destination :: string
  pd_description_url :: string
  pd_census_url :: string
  pd_tally :: "int list option"
  pd_title :: string
  pd_choices :: "string list"

record vote_inputs =
  vi_censusRoot :: int
  vi_pollId :: int
  vi_nChoices :: int
  vi_revotingKeyNew :: int
  vi_revotingKeyOld :: int
  vi_voterPk :: "int \<times> int"
  vi_sigR :: "int \<times> int"
  vi_sigS :: int
  vi_path :: "int list"
  vi_pathPos :: "int list"
  vi_choice :: int
  vi_ephSk :: int
  vi_tallierPk :: "int \<times> int"
  vi_relayerId :: int
  vi_nonce :: int
  vi_ciphertext :: "int list"

record relay_account =
  ra_is_signer :: bool
  ra_is_writable :: bool
  ra_pubkey :: string

record relay_body =
  rb_msg_hash :: string
  rb_nu :: string
  rb_discriminator :: int
  rb_data :: string
  rb_target_program :: string
  rb_state_id :: string
  rb_cu_limit :: int
  rb_accounts :: "relay_account list"

datatype submission = Relayed relay_body | Direct transaction

text \<open>
  \<open>ve_sign prv m\<close> is \<open>eddsa.signPoseidon\<close> with the point's coordinates as numbers;
  \<open>ve_mul\<close> and \<open>ve_mulBase\<close> are \<open>mulPointEscalar\<close> on a point and on \<open>Base8\<close>;
  \<open>ve_encrypt\<close> is \<open>poseidonEncrypt\<close>. \<open>ve_relay\<close> answers with the signature, or with the
  status and the text of a failure; \<open>ve_nonce\<close> holds two random 32-bit words.
\<close>

record 'k vote_env =
  ve_P :: hash
  ve_sdk :: sdk_env
  ve_revo :: "'k revo_env"
  ve_accounts :: "keypair list"
  ve_active :: int
  ve_poll :: poll_detail
  ve_sign :: "byte list \<Rightarrow> int \<Rightarrow> (int \<times> int) \<times> int"
  ve_mul :: "int \<times> int \<Rightarrow> int \<Rightarrow> int \<times> int"
  ve_mulBase :: "int \<Rightarrow> int \<times> int"
  ve_encrypt :: "int list \<Rightarrow> int \<times> int \<Rightarrow> int \<Rightarrow> int list"
  ve_ephRandom :: "byte list"
  ve_nonce :: "32 word \<times> 32 word"
  ve_census :: "byte list res"
  ve_relayerKey :: "pubkey option res"
  ve_platform :: "pubkey option res"
  ve_wallet :: "pubkey option"
  ve_prove :: "vote_inputs \<Rightarrow> groth_proof res"
  ve_base58 :: "pubkey \<Rightarrow> string"
  ve_pubkey :: "string \<Rightarrow> pubkey res"
  ve_relay :: "relay_body \<Rightarrow> (string, nat \<times> string) sum res"
  ve_blockhash :: "string res"
  ve_send :: "transaction \<Rightarrow> unit res"

datatype vote_stage = VsPrepare | VsDownload | VsProof | VsSubmit | VsDone

record vote_panel =
  vt_selected :: "nat option"
  vt_useRelayer :: bool
  vt_err :: "js_error option"
  vt_busy :: bool
  vt_done :: "string option"
  vt_stage :: "vote_stage option"
  vt_revo :: revo_state
  vt_sent :: "submission list"

text \<open>\<open>now_ms\<close> is \<open>Date.now()\<close>.\<close>

definition vote_disabled :: "'k vote_env \<Rightarrow> bool \<Rightarrow> int \<Rightarrow> vote_panel \<Rightarrow> bool" where
  "vote_disabled V locked now_ms s \<longleftrightarrow>
     vt_busy s \<or> (\<not> vt_useRelayer s \<and> ve_wallet V = None) \<or> locked \<or> vt_selected s = None \<or>
     now_ms < 1000 * pd_voting_start_time (ve_poll V) \<or>
     1000 * pd_voting_end_time (ve_poll V) < now_ms"

section \<open>Preparation\<close>

definition voting_account :: "'k vote_env \<Rightarrow> keypair option" where
  "voting_account V =
     (case (if 0 \<le> ve_active V then at (ve_accounts V) (nat (ve_active V)) else None) of
        Some a \<Rightarrow> Some a
      | None \<Rightarrow> at (ve_accounts V) 0)"

record prepared =
  pp_account :: keypair
  pp_pollId :: int
  pp_oldSec :: int
  pp_newRec :: revo_key
  pp_PK :: "int \<times> int"
  pp_choice :: int

definition prepare_vote :: "'k vote_env \<Rightarrow> revo_state \<Rightarrow> nat \<Rightarrow> prepared res" where
  "prepare_vote V rs selected = (case voting_account V of
       None \<Rightarrow> Inl (Thrown ''No active ZK account'')
     | Some a \<Rightarrow>
         rbind (bigint_of_string (pd_poll_id (ve_poll V))) (\<lambda>pollId.
         let oldSec = (case getForPoll rs (idForAccount a) pollId of None \<Rightarrow> 0 | Some r \<Rightarrow> rk_sk r) in
         rbind (generateForPoll (ve_revo V)) (\<lambda>newRec.
         rbind (bigint_of_string (''0x'' @ fst (pd_tallier_key (ve_poll V)))) (\<lambda>x.
         rbind (bigint_of_string (''0x'' @ snd (pd_tallier_key (ve_poll V)))) (\<lambda>y.
           Inr \<lparr>pp_account = a, pp_pollId = pollId, pp_oldSec = oldSec, pp_newRec = newRec,
             pp_PK = (x, y), pp_choice = int selected + 1\<rparr>)))))"

text \<open>The first index of a value; the search loop stops there.\<close>

definition first_index :: "'a \<Rightarrow> 'a list \<Rightarrow> nat option" where
  "first_index x xs = (let i = length (takeWhile (\<lambda>y. y \<noteq> x) xs) in
     if i < length xs then Some i else None)"

definition census_leaves :: "byte list \<Rightarrow> int list res" where
  "census_leaves buf =
     (if length buf mod 32 \<noteq> 0 then Inl (Thrown ''Bad census file'')
      else chunk_loop 32 (bytes32ToBig buf) (length buf) 0)"

definition census_proof :: "'k vote_env \<Rightarrow> keypair \<Rightarrow> merkle_proof res" where
  "census_proof V a =
     rbind (ve_census V) (\<lambda>buf. rbind (census_leaves buf) (\<lambda>leaves.
       let myLeaf = ve_P V [fst (kp_pub a), snd (kp_pub a)] in
       case first_index myLeaf leaves of
         None \<Rightarrow> Inl (Thrown ''Your key is not in the census'')
       | Some found \<Rightarrow> getMerkleProof (ve_P V) CENSUS_DEPTH leaves found))"

record sealed =
  sl_sigR :: "int \<times> int"
  sl_sigS :: int
  sl_sigHash :: int
  sl_ephSk :: int
  sl_ephPk :: "int \<times> int"
  sl_nonce :: int
  sl_ciphertext :: "int list"

definition nonce_of :: "32 word \<times> 32 word \<Rightarrow> int" where
  "nonce_of u = push_bit 32 (uint (fst u)) OR uint (snd u)"

definition ballot_words :: "hash \<Rightarrow> int \<Rightarrow> int \<Rightarrow> int \<Rightarrow> int \<Rightarrow> int list" where
  "ballot_words P sigHash choice revotingKeyOld revotingKeyNew =
     [P [sigHash], choice, P [revotingKeyOld], P [revotingKeyNew]]"

definition seal_ballot :: "'k vote_env \<Rightarrow> prepared \<Rightarrow> sealed res" where
  "seal_ballot V p =
     (let P = ve_P V; (sigR, sigS) = ve_sign V (kp_prv (pp_account p)) (P [PLATFORM_NAME, pp_pollId p]);
          sigHash = P [sigS, fst sigR, snd sigR] in
      rbind (randomScalar (ve_ephRandom V) (re_subOrder (ve_revo V))) (\<lambda>ephSk.
      let sharedKey = ve_mul V (pp_PK p) ephSk; nonce = nonce_of (ve_nonce V);
          plain = ballot_words P sigHash (pp_choice p) (pp_oldSec p) (rk_sk (pp_newRec p))
      in Inr \<lparr>sl_sigR = sigR, sl_sigS = sigS, sl_sigHash = sigHash, sl_ephSk = ephSk,
           sl_ephPk = ve_mulBase V ephSk, sl_nonce = nonce,
           sl_ciphertext = ve_encrypt V plain sharedKey nonce\<rparr>))"

text \<open>\<open>feeKey\<close> with the top three bits cleared, as a number: below the field modulus.\<close>

definition relayer_id :: "pubkey \<Rightarrow> int res" where
  "relayer_id feeKey = (let buf = (case feeKey of [] \<Rightarrow> [] | b # r \<Rightarrow> (b AND 31) # r) in
     bigint_of_string (''0x'' @ concat (map byte_hex buf)))"

definition chosen_relayer :: "'k vote_env \<Rightarrow> bool \<Rightarrow> int res" where
  "chosen_relayer V useRelayer =
     (if \<not> useRelayer then Inr 0
      else rbind (ve_relayerKey V) (\<lambda>cfg. case cfg of
             None \<Rightarrow> Inl (Thrown ''Relayer not initialized'')
           | Some feeKey \<Rightarrow> relayer_id feeKey))"

definition build_inputs ::
  "'k vote_env \<Rightarrow> prepared \<Rightarrow> merkle_proof \<Rightarrow> sealed \<Rightarrow> int \<Rightarrow> vote_inputs res" where
  "build_inputs V p mp sl relayerId =
     rbind (bigint_of_string (''0x'' @ pd_census_root (ve_poll V))) (\<lambda>censusRoot.
       Inr \<lparr>vi_censusRoot = censusRoot, vi_pollId = pp_pollId p,
         vi_nChoices = int (length (pd_choices (ve_poll V))),
         vi_revotingKeyNew = rk_sk (pp_newRec p), vi_revotingKeyOld = pp_oldSec p,
         vi_voterPk = kp_pub (pp_account p), vi_sigR = sl_sigR sl, vi_sigS = sl_sigS sl,
         vi_path = mp_path mp, vi_pathPos = mp_pathPos mp, vi_choice = pp_choice p,
         vi_ephSk = sl_ephSk sl, vi_tallierPk = pp_PK p, vi_relayerId = relayerId,
         vi_nonce = sl_nonce sl, vi_ciphertext = sl_ciphertext sl\<rparr>)"

section \<open>Submission\<close>

definition point_bytes :: "int \<times> int \<Rightarrow> point" where
  "point_bytes xy = \<lparr>pt_x = toBytesBE32 (fst xy), pt_y = toBytesBE32 (snd xy)\<rparr>"

text \<open>\<open>platform!.feeDestination\<close>: a missing account is a \<open>TypeError\<close>.\<close>

definition platform_fee_destination :: "'k vote_env \<Rightarrow> pubkey res" where
  "platform_fee_destination V = rbind (ve_platform V) (\<lambda>p. case p of
     None \<Rightarrow> Inl TypeError | Some d \<Rightarrow> Inr d)"

definition make_relay_body ::
  "'k vote_env \<Rightarrow> prepared \<Rightarrow> sealed \<Rightarrow> int \<Rightarrow> compressed_proof \<Rightarrow> relay_body res" where
  "make_relay_body V p sl relayerNu proof =
     (let E = ve_sdk V; P = ve_P V; b58 = ve_base58 V;
          msgHash = P ([fst (sl_ephPk sl), snd (sl_ephPk sl), sl_nonce sl] @ sl_ciphertext sl) in
      rbind (serializeVoteData (se_le8 E) (map toBytesBE32 (sl_ciphertext sl)) proof
               (point_bytes (sl_ephPk sl)) (sl_nonce sl)) (\<lambda>data.
      rbind (ve_platform V) (\<lambda>platform.
      rbind (findPoll E (pp_pollId p)) (\<lambda>poll.
      rbind (case platform of None \<Rightarrow> Inl TypeError | Some d \<Rightarrow> Inr d) (\<lambda>dest.
        Inr \<lparr>rb_msg_hash = toHex32 msgHash, rb_nu = toHex32 relayerNu, rb_discriminator = 4,
          rb_data = concat (map byte_hex data), rb_target_program = b58 (se_moot E),
          rb_state_id = to_string 10 (pp_pollId p), rb_cu_limit = 200000,
          rb_accounts =
            [\<lparr>ra_is_signer = False, ra_is_writable = False, ra_pubkey = b58 (PLATFORM_CONFIG E)\<rparr>,
             \<lparr>ra_is_signer = False, ra_is_writable = True, ra_pubkey = b58 poll\<rparr>,
             \<lparr>ra_is_signer = False, ra_is_writable = True, ra_pubkey = b58 dest\<rparr>]\<rparr>)))))"

definition make_direct_tx ::
  "'k vote_env \<Rightarrow> pubkey \<Rightarrow> prepared \<Rightarrow> sealed \<Rightarrow> compressed_proof \<Rightarrow> transaction res" where
  "make_direct_tx V payer p sl proof =
     rbind (platform_fee_destination V) (\<lambda>dest.
     rbind (ve_pubkey V (pd_fee_destination (ve_poll V))) (\<lambda>feeDest.
     rbind (vote (ve_sdk V) \<lparr>vp_payer = payer, vp_ephPk = point_bytes (sl_ephPk sl),
              vp_nonce = sl_nonce sl, vp_ciphertext = map toBytesBE32 (sl_ciphertext sl),
              vp_pollId = pp_pollId p, vp_proof = proof, vp_platformFeeDestination = dest,
              vp_pollFeeDestination = feeDest\<rparr>) (\<lambda>ix.
     rbind (ve_blockhash V) (\<lambda>blockhash.
       Inr \<lparr>tx_ixs = [cuLimitInstruction [ix], Call (iwc_instruction ix)],
         tx_recentBlockhash = blockhash, tx_feePayer = payer, tx_signers = []\<rparr>))))"

text \<open>The error of a relayer that did not accept: its text, or its status.\<close>

definition relayer_error :: "nat \<times> string \<Rightarrow> js_error" where
  "relayer_error st = Thrown (if snd st \<noteq> [] then snd st
     else ''Relayer error ('' @ to_string 10 (int (fst st)) @ '')'')"

definition vs_stage :: "vote_stage \<Rightarrow> (vote_panel, unit) proc" where
  "vs_stage g = update (\<lambda>s. s\<lparr>vt_stage := Some g\<rparr>)"

definition submit_relayed :: "'k vote_env \<Rightarrow> relay_body \<Rightarrow> (vote_panel, unit) proc" where
  "submit_relayed V body = bind (lift (ve_relay V body)) (\<lambda>resp. case resp of
       Inr st \<Rightarrow> throw (relayer_error st)
     | Inl signature \<Rightarrow> update (\<lambda>s. s\<lparr>vt_sent := vt_sent s @ [Relayed body], vt_done := Some signature\<rparr>))"

definition submit_direct :: "'k vote_env \<Rightarrow> transaction \<Rightarrow> (vote_panel, unit) proc" where
  "submit_direct V tx = seq (lift (ve_send V tx)) (update (\<lambda>s. s\<lparr>vt_sent := vt_sent s @ [Direct tx]\<rparr>))"

text \<open>\<open>RK.setForPoll\<close> with the title added to the record.\<close>

definition remember_key :: "'k vote_env \<Rightarrow> prepared \<Rightarrow> (vote_panel, unit) proc" where
  "remember_key V p = update (\<lambda>s. s\<lparr>vt_revo := run_proc (setForPoll (ve_revo V)
     (idForAccount (pp_account p)) (pp_pollId p)
     ((pp_newRec p)\<lparr>rk_title := Some (pd_title (ve_poll V))\<rparr>)) (vt_revo s)\<rparr>)"

definition vote_body :: "'k vote_env \<Rightarrow> (vote_panel, unit) proc" where
  "vote_body V = bind (read id) (\<lambda>s0.
     if vt_busy s0 then ret () else
     seq (update (\<lambda>s. s\<lparr>vt_busy := True, vt_err := None, vt_done := None\<rparr>))
    (seq (throw_if (\<not> vt_useRelayer s0 \<and> ve_wallet V = None)
            ''Connect your Solana wallet to vote without relayer'')
    (bind (need (vt_selected s0) ''Select a choice'') (\<lambda>selected.
     seq (vs_stage VsPrepare)
    (bind (lift (prepare_vote V (vt_revo s0) selected)) (\<lambda>p.
     seq (vs_stage VsDownload)
    (bind (lift (census_proof V (pp_account p))) (\<lambda>mp.
     bind (lift (seal_ballot V p)) (\<lambda>sl.
     bind (lift (chosen_relayer V (vt_useRelayer s0))) (\<lambda>relayerId.
     seq (vs_stage VsProof)
    (bind (lift (build_inputs V p mp sl relayerId)) (\<lambda>inputs.
     bind (lift (ve_prove V inputs)) (\<lambda>proof.
     bind (lift (compressProof proof)) (\<lambda>cp.
     seq (vs_stage VsSubmit)
    (seq (if vt_useRelayer s0
          then bind (lift (make_relay_body V p sl (ve_P V [sl_sigHash sl, relayerId]) cp))
                 (submit_relayed V)
          else bind (need (ve_wallet V) [])
                 (\<lambda>payer. bind (lift (make_direct_tx V payer p sl cp)) (submit_direct V)))
    (seq (remember_key V p) (vs_stage VsDone)))))))))))))))))"

definition onVoteClick :: "'k vote_env \<Rightarrow> vote_panel \<Rightarrow> vote_panel" where
  "onVoteClick V = attempt (vote_body V) (\<lambda>e s. s\<lparr>vt_err := Some e\<rparr>) (\<lambda>s. s\<lparr>vt_busy := False\<rparr>)"

end
