(* ===== verification/VoteCorrect.thy ===== *)
theory VoteCorrect
  imports Vote TallyProps
begin

text \<open>
  A vote between its two ends. \<open>vote_circuit\<close> is \<open>circom/Vote.circom\<close>: the inputs the panel
  hands to the prover satisfy it for a voter of the census. The tallier's decryption of the
  message gives the ballot of the voter, and a voter's later vote replaces the earlier one.
\<close>

section \<open>The circuit\<close>

text \<open>
  The templates of circomlib and zk-kit: EdDSA verification, \<open>LessEqThan(16)\<close>, scalar multiplication
  and the Poseidon cipher. \<open>LessEqThan\<close> and the cipher have constraints of their own, and no output
  where these are violated. \<open>Num2Bits(253)\<close> bounds the ephemeral scalar.
\<close>

record circuit_env =
  vc_P :: hash
  vc_verify :: "int \<times> int \<Rightarrow> int \<times> int \<Rightarrow> int \<Rightarrow> int \<Rightarrow> bool"
  vc_leq16 :: "int \<Rightarrow> int \<Rightarrow> int option"
  vc_mulFix :: "int \<Rightarrow> int \<times> int"
  vc_mulAny :: "int \<times> int \<Rightarrow> int \<Rightarrow> int \<times> int"
  vc_decrypt :: "int list \<Rightarrow> int \<times> int \<Rightarrow> int \<Rightarrow> int list option"

text \<open>The words of a cipher text: the words of the ballot, padded to a multiple of three, and a tag.\<close>

definition VOTE_CT_LEN :: nat where
  "VOTE_CT_LEN = (if LIMBS mod 3 = 0 then LIMBS else LIMBS + (3 - LIMBS mod 3)) + 1"

text \<open>The public outputs \<open>msgHash\<close> and \<open>relayerNuHash\<close>, if every constraint holds.\<close>

definition vote_circuit :: "circuit_env \<Rightarrow> nat \<Rightarrow> vote_inputs \<Rightarrow> (int \<times> int) option" where
  "vote_circuit C DEPTH i =
     (let P = vc_P C;
          sigHash = P [vi_sigS i, fst (vi_sigR i), snd (vi_sigR i)];
          ephPk = vc_mulFix C (vi_ephSk i);
          sharedKey = vc_mulAny C (vi_tallierPk i) (vi_ephSk i);
          plaintext = [P [sigHash], vi_choice i, P [vi_revotingKeyOld i], P [vi_revotingKeyNew i]];
          msgHash = P ([fst ephPk, snd ephPk, vi_nonce i] @ vi_ciphertext i);
          relayerNu = P [sigHash, vi_relayerId i];
          relayerNuHash = (if vi_relayerId i = 0 then 0 else P [relayerNu, msgHash])
      in if length (vi_path i) = DEPTH \<and> length (vi_pathPos i) = DEPTH \<and> length (vi_ciphertext i) = VOTE_CT_LEN \<and>
            merkleInclusion P (P [fst (vi_voterPk i), snd (vi_voterPk i)]) (vi_pathPos i) (vi_path i)
              = Some (vi_censusRoot i) \<and>
            vc_verify C (vi_voterPk i) (vi_sigR i) (vi_sigS i) (P [5579801008792368229, vi_pollId i]) \<and>
            vi_revotingKeyNew i \<noteq> 0 \<and> vi_revotingKeyNew i \<noteq> vi_revotingKeyOld i \<and>
            vi_nChoices i < 2 ^ 16 \<and> vc_leq16 C (vi_choice i) (vi_nChoices i) = Some 1 \<and>
            vi_ephSk i < 2 ^ 253 \<and>
            (case vc_decrypt C (vi_ciphertext i) sharedKey (vi_nonce i) of
               None \<Rightarrow> False | Some decrypted \<Rightarrow> take LIMBS decrypted = plaintext)
         then Some (msgHash, relayerNuHash) else None)"

text \<open>
  The client and the circuit use the same Poseidon, curve and cipher; hashes are field elements;
  signatures verify; \<open>LessEqThan\<close> compares numbers of its width; the cipher makes \<open>CT_LEN\<close> words of
  four field elements, which decrypt to these (and the padding).
\<close>

definition circuit_law :: "circuit_env \<Rightarrow> 'k vote_env \<Rightarrow> keypair \<Rightarrow> bool" where
  "circuit_law C V a \<longleftrightarrow>
     vc_P C = ve_P V \<and> vc_mulFix C = ve_mulBase V \<and> vc_mulAny C = ve_mul V \<and>
     (\<forall>m. vc_verify C (kp_pub a) (fst (ve_sign V (kp_prv a) m)) (snd (ve_sign V (kp_prv a) m)) m) \<and>
     (\<forall>x y. 0 \<le> x \<longrightarrow> x < 2 ^ 16 \<longrightarrow> 0 \<le> y \<longrightarrow> y < 2 ^ 16 \<longrightarrow> vc_leq16 C x y = Some (if x \<le> y then 1 else 0)) \<and>
     hash_law (ve_P V) \<and>
     (\<forall>ws key nonce. length ws = LIMBS \<longrightarrow> (\<forall>w \<in> set ws. 0 \<le> w \<and> w < FP) \<longrightarrow>
        length (ve_encrypt V ws key nonce) = VOTE_CT_LEN \<and>
        (\<exists>pad. vc_decrypt C (ve_encrypt V ws key nonce) key nonce = Some (ws @ pad)))"

text \<open>The poll names the root of the census file it points to.\<close>

definition census_honest :: "'k vote_env \<Rightarrow> bool" where
  "census_honest V \<longleftrightarrow> (\<exists>buf leaves root. ve_census V = Inr buf \<and> census_leaves buf = Inr leaves \<and>
     length leaves \<le> 2 ^ CENSUS_DEPTH \<and> getMerkleRoot (ve_P V) CENSUS_DEPTH leaves = Inr root \<and>
     bigint_of_string (''0x'' @ pd_census_root (ve_poll V)) = Inr root)"

lemma first_index_Some: "first_index x xs = Some i \<Longrightarrow> i < length xs \<and> xs ! i = x"
  using nth_length_takeWhile [of "\<lambda>y. y \<noteq> x" xs] by (auto simp: first_index_def Let_def split: if_splits)

lemma census_proof_checks:
  assumes "census_honest V" "census_proof V a = Inr mp"
    and "bigint_of_string (''0x'' @ pd_census_root (ve_poll V)) = Inr root"
  shows "length (mp_path mp) = CENSUS_DEPTH \<and> length (mp_pathPos mp) = CENSUS_DEPTH \<and>
    merkleInclusion (ve_P V) (ve_P V [fst (kp_pub a), snd (kp_pub a)]) (mp_pathPos mp) (mp_path mp) = Some root"
proof -
  obtain buf leaves where c: "ve_census V = Inr buf" "census_leaves buf = Inr leaves"
      "length leaves \<le> 2 ^ CENSUS_DEPTH" "getMerkleRoot (ve_P V) CENSUS_DEPTH leaves = Inr root"
    using assms(1,3) by (auto simp: census_honest_def)
  let ?x = "ve_P V [fst (kp_pub a), snd (kp_pub a)]"
  obtain i where i: "first_index ?x leaves = Some i" "getMerkleProof (ve_P V) CENSUS_DEPTH leaves i = Inr mp"
    using assms(2) c by (auto simp: census_proof_def Let_def split: option.splits)
  have len: "i < length leaves" "leaves ! i = ?x" using first_index_Some [OF i(1)] by auto
  have "merkleInclusion (ve_P V) (leaves ! i) (mp_pathPos mp) (mp_path mp) = Some root"
    using census_tree.complete [OF len(1) c(3), of "ve_P V"] i(2) c(4) by auto
  moreover have "length (mp_path mp) = CENSUS_DEPTH" "length (mp_pathPos mp) = CENSUS_DEPTH"
    using i(2) len(1) by (auto simp: getMerkleProof_node)
  ultimately show ?thesis using len(2) by simp
qed

lemma randomScalar_bounds:
  assumes "randomScalar bytes m = Inr r" "1 < m" shows "1 \<le> r" "r < m"
proof -
  have "0 \<le> bytes_to_big bytes"
    unfolding bytes_to_big_val by (rule be_val_range(1)) (auto simp: digits_ok_def byte_range)
  then have "r = bytes_to_big bytes mod (m - 1) + 1"
    using assms by (simp add: randomScalar_def smod_pos split: if_splits)
  moreover have "0 \<le> bytes_to_big bytes mod (m - 1)" "bytes_to_big bytes mod (m - 1) < m - 1"
    using assms(2) by simp_all
  ultimately show "1 \<le> r" "r < m" by linarith+
qed

lemma seal_fields:
  assumes "seal_ballot V p = Inr sl"
  shows "randomScalar (ve_ephRandom V) (re_subOrder (ve_revo V)) = Inr (sl_ephSk sl)"
    "sl_ephPk sl = ve_mulBase V (sl_ephSk sl)"
    "sl_sigR sl = fst (ve_sign V (kp_prv (pp_account p)) (ve_P V [PLATFORM_NAME, pp_pollId p]))"
    "sl_sigS sl = snd (ve_sign V (kp_prv (pp_account p)) (ve_P V [PLATFORM_NAME, pp_pollId p]))"
    "sl_sigHash sl = ve_P V [sl_sigS sl, fst (sl_sigR sl), snd (sl_sigR sl)]"
    "sl_ciphertext sl = ve_encrypt V
       (ballot_words (ve_P V) (sl_sigHash sl) (pp_choice p) (pp_oldSec p) (rk_sk (pp_newRec p)))
       (ve_mul V (pp_PK p) (sl_ephSk sl)) (sl_nonce sl)"
  using assms by (auto simp: seal_ballot_def rbind_eq_Inr Let_def split: prod.splits)

lemma input_fields:
  assumes "build_inputs V p mp sl relayerId = Inr i"
  shows "bigint_of_string (''0x'' @ pd_census_root (ve_poll V)) = Inr (vi_censusRoot i)"
    "vi_pollId i = pp_pollId p" "vi_nChoices i = int (length (pd_choices (ve_poll V)))"
    "vi_revotingKeyNew i = rk_sk (pp_newRec p)" "vi_revotingKeyOld i = pp_oldSec p"
    "vi_voterPk i = kp_pub (pp_account p)" "vi_sigR i = sl_sigR sl" "vi_sigS i = sl_sigS sl"
    "vi_path i = mp_path mp" "vi_pathPos i = mp_pathPos mp" "vi_choice i = pp_choice p"
    "vi_ephSk i = sl_ephSk sl" "vi_tallierPk i = pp_PK p" "vi_relayerId i = relayerId"
    "vi_nonce i = sl_nonce sl" "vi_ciphertext i = sl_ciphertext sl"
  using assms by (auto simp: build_inputs_def rbind_eq_Inr)

section \<open>Properties of a vote\<close>

definition sealed_message :: "sealed \<Rightarrow> message" where
  "sealed_message sl = \<lparr>ms_R = sl_ephPk sl, ms_nonce = sl_nonce sl, ms_ct = sl_ciphertext sl\<rparr>"

text \<open>
  C2: for a voter of the census of an honestly published poll, the inputs built by the panel
  satisfy every constraint of the vote circuit. Its public outputs are the message hash of the
  sealed ballot and the hash of the relayer's nullifier, which is zero when no relayer is
  named. (The fresh key must differ from the stored one.)
\<close>

theorem vote_inputs_satisfy_circuit:
  assumes law: "circuit_law C V (pp_account p)" and honest: "census_honest V"
    and sel: "n < length (pd_choices (ve_poll V))" "length (pd_choices (ve_poll V)) < 2 ^ 16"
    and ord: "1 < re_subOrder (ve_revo V)" "re_subOrder (ve_revo V) \<le> 2 ^ 253"
    and p: "prepare_vote V rs n = Inr p" and mp: "census_proof V (pp_account p) = Inr mp"
    and sl: "seal_ballot V p = Inr sl" and inp: "build_inputs V p mp sl relayerId = Inr i"
    and fresh: "rk_sk (pp_newRec p) \<noteq> pp_oldSec p"
  shows "vote_circuit C CENSUS_DEPTH i = Some (msg_hash (ve_P V) (sealed_message sl),
    if relayerId = 0 then 0
    else ve_P V [ve_P V [sl_sigHash sl, relayerId], msg_hash (ve_P V) (sealed_message sl)])"
proof -
  obtain root where root: "bigint_of_string (''0x'' @ pd_census_root (ve_poll V)) = Inr root"
    using honest by (auto simp: census_honest_def)
  note cp = census_proof_checks [OF honest mp root]
  have choice: "pp_choice p = int n + 1" and gen: "generateForPoll (ve_revo V) = Inr (pp_newRec p)"
    using p by (auto simp: prepare_vote_def rbind_eq_Inr Let_def split: option.splits)
  have new: "1 \<le> rk_sk (pp_newRec p)"
    using gen randomScalar_bounds [OF _ ord(1)]
    by (cases "pp_newRec p") (auto simp: generateForPoll_def rbind_eq_Inr)
  note sf = seal_fields [OF sl] and f = input_fields [OF inp]
  have eph: "sl_ephSk sl < 2 ^ 253" using randomScalar_bounds(2) [OF sf(1) ord(1)] ord(2) by simp
  have r: "vi_censusRoot i = root" using f(1) root by simp
  have ver: "vc_verify C (vi_voterPk i) (vi_sigR i) (vi_sigS i) (ve_P V [5579801008792368229, vi_pollId i])"
    using law unfolding circuit_law_def f sf(3,4) PLATFORM_NAME_def by blast
  have leq: "vc_leq16 C (vi_choice i) (vi_nChoices i) = Some 1"
    using law sel unfolding circuit_law_def f choice by simp
  let ?ws = "ballot_words (ve_P V) (sl_sigHash sl) (pp_choice p) (pp_oldSec p) (rk_sk (pp_newRec p))"
  have "hash_law (ve_P V)" using law by (simp add: circuit_law_def)
  then have ws: "length ?ws = LIMBS" "\<forall>w \<in> set ?ws. 0 \<le> w \<and> w < FP"
    using choice sel by (auto simp: ballot_words_def LIMBS_def hash_law_def FP_def)
  then obtain pad where dec: "length (vi_ciphertext i) = VOTE_CT_LEN"
      "vc_decrypt C (vi_ciphertext i) (vc_mulAny C (vi_tallierPk i) (vi_ephSk i)) (vi_nonce i) = Some (?ws @ pad)"
    using law unfolding circuit_law_def f sf(6) by metis
  have P: "vc_P C = ve_P V" "vc_mulFix C = ve_mulBase V" using law by (simp_all add: circuit_law_def)
  show ?thesis
    unfolding vote_circuit_def Let_def
    using cp ver leq dec ws(1) new eph r fresh sel(2)
    by (simp add: P f sf(2) sf(5) [symmetric] ballot_words_def msg_hash_def sealed_message_def LIMBS_def)
qed

text \<open>Diffie-Hellman and the cipher, between the voter's library and the tallier's.\<close>

definition channel_law :: "'k vote_env \<Rightarrow> 'mt tally_env \<Rightarrow> bool" where
  "channel_law V E \<longleftrightarrow>
     (\<forall>a b. ve_mul V (ve_mulBase V a) b = te_mul E (ve_mulBase V b) a) \<and>
     (\<forall>ws key nonce. length ws = LIMBS \<longrightarrow> te_decrypt E (ve_encrypt V ws key nonce) key nonce LIMBS = Inr ws)"

definition voter_ballot :: "hash \<Rightarrow> prepared \<Rightarrow> sealed \<Rightarrow> ballot" where
  "voter_ballot P p sl = \<lparr>bl_nu = P [sl_sigHash sl], bl_choice = pp_choice p,
     bl_keyOld = P [pp_oldSec p], bl_keyNew = P [rk_sk (pp_newRec p)]\<rparr>"

lemma tallier_opens:
  assumes "channel_law V E" "pp_PK p = ve_mulBase V tallierSk" "seal_ballot V p = Inr sl"
  shows "decrypt_vote E tallierSk (sealed_message sl) = Inr (voter_ballot (ve_P V) p sl)"
proof -
  note sf = seal_fields [OF assms(3)]
  let ?ws = "ballot_words (ve_P V) (sl_sigHash sl) (pp_choice p) (pp_oldSec p) (rk_sk (pp_newRec p))"
  have "length ?ws = LIMBS" by (simp add: ballot_words_def LIMBS_def)
  then have "te_decrypt E (sl_ciphertext sl) (te_mul E (sl_ephPk sl) tallierSk) (sl_nonce sl) LIMBS = Inr ?ws"
    using assms(1) unfolding sf(2,6) assms(2) channel_law_def by metis
  then show ?thesis
    by (simp add: decrypt_vote_def sealed_message_def voter_ballot_def ballot_words_def)
qed

text \<open>
  C28: what the tallier decrypts from a sealed ballot is the voter's ballot: the nullifier, the
  selected choice, and the hashes of the old and the new re-voting secret.
\<close>

theorem tallier_reads_ballot:
  assumes "channel_law V E" "pp_PK p = ve_mulBase V tallierSk" "seal_ballot V p = Inr sl"
  shows "decrypt_vote E tallierSk (sealed_message sl) = Inr \<lparr>bl_nu = ve_P V [sl_sigHash sl],
    bl_choice = pp_choice p, bl_keyOld = ve_P V [pp_oldSec p], bl_keyNew = ve_P V [rk_sk (pp_newRec p)]\<rparr>"
  using tallier_opens [OF assms] by (simp add: voter_ballot_def)

lemma prepare_facts:
  assumes "prepare_vote V rs n = Inr p"
  shows "voting_account V = Some (pp_account p)"
    "bigint_of_string (pd_poll_id (ve_poll V)) = Inr (pp_pollId p)"
    "pp_oldSec p = (case getForPoll rs (idForAccount (pp_account p)) (pp_pollId p) of
       None \<Rightarrow> 0 | Some r \<Rightarrow> rk_sk r)"
    "pp_choice p = int n + 1"
  using assms by (auto simp: prepare_vote_def rbind_eq_Inr Let_def split: option.splits)

lemma sealed_sigHash:
  "seal_ballot V p = Inr sl \<Longrightarrow> sl_sigHash sl =
   (let R = ve_sign V (kp_prv (pp_account p)) (ve_P V [PLATFORM_NAME, pp_pollId p])
    in ve_P V [snd R, fst (fst R), snd (fst R)])"
  by (auto simp: seal_ballot_def rbind_eq_Inr Let_def split: prod.splits)

text \<open>
  C25: a voter who votes and votes again in the same poll is counted once, with the last
  choice: the key stored after the first vote authorises the second, both ballots fall on the
  same nullifier index, and the board ends with the second choice and the second key.
\<close>

theorem revote_replaces_vote:
  assumes law: "channel_law V1 E" "channel_law V2 E"
    and same: "voting_account V2 = voting_account V1" "ve_poll V2 = ve_poll V1" "ve_P V2 = ve_P V1"
      "ve_sign V2 = ve_sign V1"
    and zero: "ve_P V1 [0] = HASH0" and open_: "\<not> rv_locked (vt_revo s)"
    and p1: "prepare_vote V1 (vt_revo s) n1 = Inr p1" "seal_ballot V1 p1 = Inr sl1" "pp_oldSec p1 = 0"
    and p2: "prepare_vote V2 (vt_revo (run_proc (remember_key V1 p1) s)) n2 = Inr p2"
      "seal_ballot V2 p2 = Inr sl2"
    and keys: "pp_PK p1 = ve_mulBase V1 tallierSk" "pp_PK p2 = ve_mulBase V2 tallierSk"
  shows "\<exists>b1 b2. decrypt_vote E tallierSk (sealed_message sl1) = Inr b1 \<and>
    decrypt_vote E tallierSk (sealed_message sl2) = Inr b2 \<and>
    foldl cast_ballot Map.empty [b1] = [leaf_index (bl_nu b1) \<mapsto> (int n1 + 1, ve_P V1 [rk_sk (pp_newRec p1)])] \<and>
    foldl cast_ballot Map.empty [b1, b2] = [leaf_index (bl_nu b1) \<mapsto> (int n2 + 1, ve_P V1 [rk_sk (pp_newRec p2)])]"
proof -
  note f1 = prepare_facts [OF p1(1)] and f2 = prepare_facts [OF p2(1)]
  have acc: "pp_account p2 = pp_account p1" using f1(1) f2(1) same(1) by simp
  have pid: "pp_pollId p2 = pp_pollId p1" using f1(2) f2(2) same(2) by simp
  have old: "pp_oldSec p2 = rk_sk (pp_newRec p1)"
    using f2(3) open_
    by (simp add: acc pid remember_key_def run_proc_def setForPoll_run revo_persist_run getForPoll_def
        revo_map.get_put_same)
  have nu: "sl_sigHash sl2 = sl_sigHash sl1"
    using sealed_sigHash [OF p1(2)] sealed_sigHash [OF p2(2)] same acc pid by simp
  let ?b1 = "voter_ballot (ve_P V1) p1 sl1" and ?b2 = "voter_ballot (ve_P V1) p2 sl2"
  have d: "decrypt_vote E tallierSk (sealed_message sl1) = Inr ?b1"
      "decrypt_vote E tallierSk (sealed_message sl2) = Inr ?b2"
    using tallier_opens [OF law(1) keys(1) p1(2)] tallier_opens [OF law(2) keys(2) p2(2)] same(3) by simp_all
  have c1: "cast_ballot Map.empty ?b1 = [leaf_index (bl_nu ?b1) \<mapsto> (int n1 + 1, ve_P V1 [rk_sk (pp_newRec p1)])]"
    using p1(3) zero f1(4) by (simp add: cast_ballot_leaf voter_ballot_def current_def Let_def)
  have c2: "cast_ballot [leaf_index (bl_nu ?b1) \<mapsto> (int n1 + 1, ve_P V1 [rk_sk (pp_newRec p1)])] ?b2
      = [leaf_index (bl_nu ?b1) \<mapsto> (int n2 + 1, ve_P V1 [rk_sk (pp_newRec p2)])]"
    using old nu f2(4) by (simp add: cast_ballot_leaf voter_ballot_def current_def Let_def)
  show ?thesis using d c1 c2 by (intro exI [of _ ?b1] exI [of _ ?b2]) simp
qed

section \<open>An instance\<close>

text \<open>A sum with \<open>HASH0\<close> at \<open>[0]\<close> as the hash, multiplication as the curve, and a cipher that
  sends the plain text, filled up to seven words.\<close>

definition sum_hash :: hash where
  "sum_hash xs = (HASH0 + sum_list xs) mod FP"

lemma sum_hash_zero: "sum_hash [0] = HASH0"
  by (simp add: sum_hash_def HASH0_def FP_def)

lemma sum_hash_range: "0 \<le> sum_hash xs" "sum_hash xs < FP"
  by (simp_all add: sum_hash_def FP_def)

definition the_voter :: keypair where
  "the_voter = \<lparr>kp_name = ''v'', kp_prv = [], kp_sk = 1, kp_pub = (1, 2), kp_createdAt = 0\<rparr>"

definition census_root0 :: int where
  "census_root0 = node sum_hash [sum_hash [1, 2]] CENSUS_DEPTH 0"

definition the_poll :: poll_detail where
  "the_poll = \<lparr>pd_poll_id = ''7'', pd_census_root = toHex32 census_root0, pd_tallier_key = (''3'', ''3''),
     pd_voting_start_time = 0, pd_voting_end_time = 10, pd_fee = ''0'', pd_platform_fee = ''0'',
     pd_fee_destination = [], pd_description_url = [], pd_census_url = [], pd_tally = None,
     pd_title = ''t'', pd_choices = [''yes'', ''no'']\<rparr>"

definition sum_env :: "byte list \<Rightarrow> string vote_env" where
  "sum_env rnd = \<lparr>ve_P = sum_hash, ve_sdk = demo_env, ve_revo = revo_env0\<lparr>re_random := rnd\<rparr>,
     ve_accounts = [the_voter], ve_active = 0, ve_poll = the_poll, ve_sign = (\<lambda>prv m. ((1, 1), m)),
     ve_mul = (\<lambda>pt s. (fst pt * s, snd pt * s)), ve_mulBase = (\<lambda>s. (s, s)),
     ve_encrypt = (\<lambda>ws key nonce. ws @ [0, 0, 0]), ve_ephRandom = [4], ve_nonce = (0, 1),
     ve_census = Inr (toBytesBE32 (sum_hash [1, 2])), ve_relayerKey = Inr None,
     ve_platform = Inr None, ve_wallet = None, ve_prove = (\<lambda>i. Inl TypeError),
     ve_base58 = (\<lambda>k. []), ve_pubkey = (\<lambda>s. Inr []), ve_relay = (\<lambda>b. Inl TypeError),
     ve_blockhash = Inr [], ve_send = (\<lambda>tx. Inr ())\<rparr>"

definition sum_tally :: "(int \<Rightarrow> int option) tally_env" where
  "sum_tally = \<lparr>te_P = sum_hash, te_mul = (\<lambda>pt s. (fst pt * s, snd pt * s)),
     te_decrypt = (\<lambda>ct key nonce k. Inr (take k ct)), te_smt = map_smt\<rparr>"

definition sum_circuit :: circuit_env where
  "sum_circuit = \<lparr>vc_P = sum_hash, vc_verify = (\<lambda>pk R S m. m = S), vc_leq16 = (\<lambda>x y. Some (if x \<le> y then 1 else 0)),
     vc_mulFix = (\<lambda>s. (s, s)), vc_mulAny = (\<lambda>pt s. (fst pt * s, snd pt * s)),
     vc_decrypt = (\<lambda>ct key nonce. Some ct)\<rparr>"

lemma sum_channel: "channel_law (sum_env rnd) sum_tally"
  by (simp add: channel_law_def sum_env_def sum_tally_def LIMBS_def)

lemma sum_circuit_law: "circuit_law sum_circuit (sum_env rnd) a"
  using sum_hash_range by (simp add: circuit_law_def sum_env_def sum_circuit_def hash_law_def sum_hash_zero LIMBS_def VOTE_CT_LEN_def)

lemma sum_numerals: "bigint_of_string ''7'' = Inr 7" "bigint_of_string ''0x3'' = Inr 3"
  by code_simp+

lemma sum_prepare:
  "\<exists>p. prepare_vote (sum_env [r]) rs n = Inr p \<and> pp_PK p = ve_mulBase (sum_env [r]) 3 \<and>
     pp_account p = the_voter \<and> pp_pollId p = 7 \<and> rk_sk (pp_newRec p) = uint r smod 10 + 1 \<and>
     pp_oldSec p = (case getForPoll rs (idForAccount the_voter) 7 of None \<Rightarrow> 0 | Some k \<Rightarrow> rk_sk k)"
  by (simp add: prepare_vote_def sum_env_def voting_account_def the_poll_def sum_numerals generateForPoll_def
      revo_env0_def randomScalar_def bytes_to_big_def)

lemma sum_seal: "\<exists>sl. seal_ballot (sum_env rnd) p = Inr sl"
  by (simp add: seal_ballot_def sum_env_def revo_env0_def randomScalar_def Let_def)

lemma revo_open_empty: "getForPoll revo_open a p = None"
  by (simp add: getForPoll_def revo_get_def revo_open_def account_keys_def)

theorem tallier_reads_ballot_witness:
  "\<exists>p sl. seal_ballot (sum_env [9]) p = Inr sl \<and>
     decrypt_vote sum_tally 3 (sealed_message sl) = Inr \<lparr>bl_nu = sum_hash [sl_sigHash sl],
       bl_choice = pp_choice p, bl_keyOld = sum_hash [pp_oldSec p], bl_keyNew = sum_hash [rk_sk (pp_newRec p)]\<rparr>"
proof -
  obtain p :: prepared where p: "pp_PK p = ve_mulBase (sum_env [9]) 3" using sum_prepare [of 9 revo_open 0] by auto
  obtain sl where sl: "seal_ballot (sum_env [9]) p = Inr sl" using sum_seal by blast
  have "ve_P (sum_env [9]) = sum_hash" by (simp add: sum_env_def)
  with tallier_reads_ballot [OF sum_channel p sl] sl show ?thesis by auto
qed

definition vote_panel0 :: vote_panel where
  "vote_panel0 = \<lparr>vt_selected = Some 0, vt_useRelayer = True, vt_err = None, vt_busy = False,
     vt_done = None, vt_stage = None, vt_revo = revo_open, vt_sent = []\<rparr>"

theorem revote_replaces_vote_witness:
  "\<exists>b1 b2 k. foldl cast_ballot Map.empty [b1, b2] = [leaf_index (bl_nu b1) \<mapsto> (2, k)] \<and> bl_choice b1 = 1"
proof -
  let ?V = "sum_env [9]" and ?W = "sum_env [4]"
  have panel: "vt_revo vote_panel0 = revo_open" "\<not> rv_locked (vt_revo vote_panel0)"
    by (simp_all add: vote_panel0_def revo_open_def)
  obtain p1 where p1: "prepare_vote ?V (vt_revo vote_panel0) 0 = Inr p1" "pp_PK p1 = ve_mulBase ?V 3"
      "pp_oldSec p1 = 0"
    using sum_prepare [of 9 "vt_revo vote_panel0" 0] panel(1) revo_open_empty by auto
  obtain p2 where p2: "prepare_vote ?W (vt_revo (run_proc (remember_key ?V p1) vote_panel0)) 1 = Inr p2"
      "pp_PK p2 = ve_mulBase ?W 3"
    using sum_prepare [of 4 "vt_revo (run_proc (remember_key ?V p1) vote_panel0)" 1] by auto
  obtain sl1 sl2 where sl: "seal_ballot ?V p1 = Inr sl1" "seal_ballot ?W p2 = Inr sl2" using sum_seal by metis
  have same: "voting_account ?W = voting_account ?V" "ve_poll ?W = ve_poll ?V" "ve_P ?W = ve_P ?V"
      "ve_sign ?W = ve_sign ?V" and z: "ve_P ?V [0] = HASH0"
    by (simp_all add: voting_account_def sum_env_def sum_hash_zero)
  obtain b1 b2 where b: "decrypt_vote sum_tally 3 (sealed_message sl1) = Inr b1"
      "foldl cast_ballot Map.empty [b1, b2] = [leaf_index (bl_nu b1) \<mapsto> (int 1 + 1, ve_P ?V [rk_sk (pp_newRec p2)])]"
    using revote_replaces_vote [OF sum_channel sum_channel same z panel(2) p1(1) sl(1) p1(3) p2(1) sl(2) p1(2) p2(2)]
    by blast
  have "bl_choice b1 = 1"
    using b(1) tallier_opens [OF sum_channel p1(2) sl(1)] prepare_facts(4) [OF p1(1)]
    by (auto simp: voter_ballot_def)
  with b(2) show ?thesis by auto
qed

lemma sum_census:
  "census_leaves (toBytesBE32 (sum_hash [1, 2])) = Inr [sum_hash [1, 2]]"
  using be32.chunk_loop_concat [of "[sum_hash [1, 2]]"] be32.length_concat_enc [of "[sum_hash [1, 2]]"]
    sum_hash_range [of "[1, 2]"] by (simp add: census_leaves_def)

lemma node_range: "\<forall>x \<in> set ls. 0 \<le> x \<and> x < FP \<Longrightarrow> 0 \<le> node sum_hash ls d i \<and> node sum_hash ls d i < FP"
  using sum_hash_range by (cases d) auto

lemma sum_honest: "census_honest (sum_env rnd)"
proof -
  have r: "0 \<le> census_root0" "census_root0 < FP"
    unfolding census_root0_def using node_range [of "[sum_hash [1, 2]]"] sum_hash_range by simp_all
  have "getMerkleRoot sum_hash CENSUS_DEPTH [sum_hash [1, 2]] = Inr census_root0"
    by (simp add: getMerkleRoot_node census_root0_def)
  moreover have "(1 :: nat) \<le> 2 ^ CENSUS_DEPTH" by simp
  ultimately show ?thesis
    using sum_census hex_toHex32_id [OF r]
    by (auto simp: census_honest_def sum_env_def the_poll_def)
qed

theorem vote_inputs_satisfy_circuit_witness:
  "\<exists>p mp sl i m. build_inputs (sum_env [9]) p mp sl 0 = Inr i \<and>
     vote_circuit sum_circuit CENSUS_DEPTH i = Some (m, 0)"
proof -
  let ?V = "sum_env [9]"
  obtain p where p: "prepare_vote ?V revo_open 0 = Inr p" "pp_account p = the_voter"
      "rk_sk (pp_newRec p) = 10" "pp_oldSec p = 0"
    using sum_prepare [of 9 revo_open 0] revo_open_empty by (auto simp: smod_pos)
  obtain sl where sl: "seal_ballot ?V p = Inr sl" using sum_seal by blast
  have "first_index (sum_hash [1, 2]) [sum_hash [1, 2]] = Some 0" by (simp add: first_index_def)
  then obtain mp where mp: "census_proof ?V (pp_account p) = Inr mp"
    using sum_census p(2)
    by (auto simp: census_proof_def sum_env_def the_voter_def getMerkleProof_node)
  obtain root where "bigint_of_string (''0x'' @ pd_census_root (ve_poll ?V)) = Inr root"
    using sum_honest [of "[9]"] by (auto simp: census_honest_def)
  then obtain i where i: "build_inputs ?V p mp sl 0 = Inr i" by (simp add: build_inputs_def)
  have n: "0 < length (pd_choices (ve_poll ?V))" "length (pd_choices (ve_poll ?V)) < 2 ^ 16"
      "1 < re_subOrder (ve_revo ?V)" "re_subOrder (ve_revo ?V) \<le> 2 ^ 253"
      "rk_sk (pp_newRec p) \<noteq> pp_oldSec p"
    using p(3,4) by (simp_all add: sum_env_def the_poll_def revo_env0_def)
  have "vote_circuit sum_circuit CENSUS_DEPTH i = Some (msg_hash (ve_P ?V) (sealed_message sl), 0)"
    using vote_inputs_satisfy_circuit [OF sum_circuit_law sum_honest n(1-4) p(1) mp sl i n(5)] by simp
  with i show ?thesis by blast
qed

end
