(* ===== verification/PollCreate.thy ===== *)
theory PollCreate
  imports VoteCorrect
begin

text \<open>
  Creating a poll: \<open>frontend/src/pages/PollCreatePage.tsx\<close> (the form's schema, the census file,
  the submission), with \<open>arweave.ts\<close>, \<open>auth.ts\<close> and \<open>utils.ts\<close> of the frontend. The upload
  network, the census service, the calendar of the browser and the wallet answer through
  \<open>create_env\<close>.
\<close>

section \<open>Lamports\<close>

definition LAMPORTS_PER_SOL :: int where "LAMPORTS_PER_SOL = 1000000000"

text \<open>\<open>s.replace(/0+$/, "")\<close>\<close>

definition trim_zeros :: "string \<Rightarrow> string" where
  "trim_zeros s = rev (dropWhile (\<lambda>c. c = CHR ''0'') (rev s))"

text \<open>\<open>/\<close> and \<open>%\<close> of \<open>BigInt\<close>; the amount is not negative when they are reached.\<close>

definition formatLamportsAsSol :: "int \<Rightarrow> string option" where
  "formatLamportsAsSol lamports =
     (if lamports < 0 then None
      else let whole = to_string 10 (lamports sdiv LAMPORTS_PER_SOL);
               frac = padStart 9 (CHR ''0'') (to_string 10 (lamports smod LAMPORTS_PER_SOL));
               fracTrim = trim_zeros frac
           in Some (if fracTrim \<noteq> [] then whole @ ''.'' @ fracTrim else whole))"

text \<open>The preview under the fee field is computed while rendering; \<open>BigInt\<close> may throw there.\<close>

definition feeSolPreview :: "string \<Rightarrow> string option res" where
  "feeSolPreview feeLamportsStr =
     (if feeLamportsStr = [] then Inr None
      else rbind (bigint_of_string feeLamportsStr) (\<lambda>n. Inr (formatLamportsAsSol n)))"

section \<open>Upload\<close>

definition FREE_LIMIT :: nat where "FREE_LIMIT = 100 * 1024"

record turbo_data =
  td_data :: "byte list"
  td_contentType :: string

datatype funding = OnDemandFunding | ExistingBalanceFunding

text \<open>\<open>upload\<close> is the client's upload with the tags of an item; the calls run concurrently and
  their results come in the order of the items.\<close>

definition turboBatchUpload ::
  "(turbo_data \<Rightarrow> funding \<Rightarrow> string res) \<Rightarrow> bool \<Rightarrow> turbo_data list \<Rightarrow> string list res" where
  "turboBatchUpload upload devnet items =
     (if items = [] then Inr []
      else let anyBigFiles = list_ex (\<lambda>x. length (td_data x) > FREE_LIMIT) items in
           if devnet \<and> anyBigFiles then Inl (Thrown ''Data too large for devnet uploads'')
           else let fundingMode = (if anyBigFiles then OnDemandFunding else ExistingBalanceFunding) in
                mapM (\<lambda>item. rbind (upload item fundingMode) (\<lambda>i. Inr (''https://arweave.net/'' @ i))) items)"

section \<open>Authentication\<close>

definition AUTH_DOMAIN :: int where "AUTH_DOMAIN = 1635087464"

definition makeAuthSig ::
  "hash \<Rightarrow> (byte list \<Rightarrow> int \<Rightarrow> (int \<times> int) \<times> int) \<Rightarrow> int \<Rightarrow> byte list \<Rightarrow> int \<times> int \<Rightarrow> (string \<times> string) list" where
  "makeAuthSig P sign now_ms prv pubXY =
     (let now = now_ms div 1000; sig = sign prv (P [PLATFORM_NAME, AUTH_DOMAIN, now]) in
      [(''X-BJJ-PubX'', toHex32 (fst pubXY)), (''X-BJJ-PubY'', toHex32 (snd pubXY)),
       (''X-BJJ-Ts'', to_string 10 now), (''X-BJJ-Sig-R8X'', to_string 10 (fst (fst sig))),
       (''X-BJJ-Sig-R8Y'', to_string 10 (snd (fst sig))), (''X-BJJ-Sig-S'', to_string 10 (snd sig))])"

section \<open>The form\<close>

definition MAX_POLL_DURATION :: int where "MAX_POLL_DURATION = 365 * 24 * 60 * 60"

datatype tallier_mode = TActive | TManual
datatype census_source = CUpload | CExisting

record poll_form =
  pf_title :: string
  pf_choices :: "string list"
  pf_tallierMode :: tallier_mode
  pf_tallierX :: "string option"
  pf_tallierY :: "string option"
  pf_start :: string
  pf_end :: string
  pf_feeLamports :: string
  pf_censusSource :: census_source
  pf_censusBytes :: "byte list option"
  pf_censusCount :: "int option"
  pf_censusRootHex :: string
  pf_selectedCensusId :: "int option"
  pf_selectedCensusTitle :: "string option"

text \<open>\<open>/^0x?[0-9a-fA-F]*$/\<close>: the zero is required, the \<open>x\<close> is not.\<close>

definition hex_re :: "string \<Rightarrow> bool" where
  "hex_re s = (case s of
       c # r \<Rightarrow> c = CHR ''0'' \<and> all_hex (case r of d # q \<Rightarrow> if d = CHR ''x'' then q else r | [] \<Rightarrow> [])
     | [] \<Rightarrow> False)"

definition root_re :: "string \<Rightarrow> bool" where
  "root_re s \<longleftrightarrow> take 2 s = ''0x'' \<and> length s = 66 \<and> all_hex (drop 2 s)"

definition digits_re :: "string \<Rightarrow> bool" where
  "digits_re s \<longleftrightarrow> s \<noteq> [] \<and> list_all (\<lambda>c. digit_in 10 c \<noteq> None) s"

text \<open>The fields. A value of the type is a string, a list or a byte array as the schema asks.\<close>

definition schemaBase :: "poll_form \<Rightarrow> bool" where
  "schemaBase d \<longleftrightarrow>
     1 \<le> length (pf_title d) \<and> length (pf_title d) \<le> 200 \<and>
     list_all (\<lambda>c. 1 \<le> length c) (pf_choices d) \<and>
     1 \<le> length (pf_choices d) \<and> length (pf_choices d) \<le> MAX_CHOICES \<and>
     1 \<le> length (pf_start d) \<and> 1 \<le> length (pf_end d) \<and> digits_re (pf_feeLamports d) \<and>
     pf_censusBytes d \<noteq> None \<and> (case pf_censusCount d of None \<Rightarrow> True | Some n \<Rightarrow> 0 < n) \<and>
     root_re (pf_censusRootHex d) \<and>
     (case pf_selectedCensusId d of None \<Rightarrow> True | Some n \<Rightarrow> 0 < n)"

text \<open>\<open>date_parse\<close> is \<open>Date.parse\<close>, \<open>None\<close> for \<open>NaN\<close>. The refinement reports one issue.\<close>

definition date_issue :: "(string \<Rightarrow> int option) \<Rightarrow> poll_form \<Rightarrow> string option" where
  "date_issue date_parse d = (case (date_parse (pf_start d), date_parse (pf_end d)) of
       (Some startMs, Some endMs) \<Rightarrow>
         if endMs \<le> startMs then Some ''end_after_start''
         else if endMs - startMs > MAX_POLL_DURATION * 1000 then Some ''poll_duration''
         else None
     | _ \<Rightarrow> Some ''invalid_date'')"

definition tallier_ok :: "poll_form \<Rightarrow> bool" where
  "tallier_ok d = (case pf_tallierMode d of
       TActive \<Rightarrow> True
     | TManual \<Rightarrow> (case (pf_tallierX d, pf_tallierY d) of
           (Some x, Some y) \<Rightarrow> hex_re x \<and> hex_re y | _ \<Rightarrow> False))"

definition form_valid :: "(string \<Rightarrow> int option) \<Rightarrow> poll_form \<Rightarrow> bool" where
  "form_valid date_parse d \<longleftrightarrow> schemaBase d \<and> date_issue date_parse d = None \<and> tallier_ok d"

section \<open>Dates\<close>

fun split_on :: "char \<Rightarrow> string \<Rightarrow> string list" where
  "split_on c [] = [[]]"
| "split_on c (x # s) = (if x = c then [] # split_on c s
     else (case split_on c s of w # ws \<Rightarrow> (x # w) # ws | [] \<Rightarrow> [[x]]))"

text \<open>\<open>Number(s)\<close> for the numerals of a date field; \<open>None\<close> is \<open>NaN\<close>.\<close>

definition js_number :: "string option \<Rightarrow> int option" where
  "js_number s = (case s of None \<Rightarrow> None
     | Some t \<Rightarrow> (case bigint_of_string t of Inr n \<Rightarrow> Some n | Inl _ \<Rightarrow> None))"

text \<open>\<open>x || d\<close> on numbers.\<close>

definition or_else :: "int option \<Rightarrow> int \<Rightarrow> int" where
  "or_else x d = (case x of None \<Rightarrow> d | Some n \<Rightarrow> if n = 0 then d else n)"

text \<open>
  \<open>local_ms y m d hh mm\<close> is \<open>new Date(y, m, d, hh, mm, 0, 0).getTime()\<close>. Without a time part
  \<open>time.split\<close> is a \<open>TypeError\<close>; without a year the result is \<open>NaN\<close>.
\<close>

definition localInputToUnixSeconds ::
  "(int \<Rightarrow> int \<Rightarrow> int \<Rightarrow> int \<Rightarrow> int \<Rightarrow> int) \<Rightarrow> string \<Rightarrow> int option res" where
  "localInputToUnixSeconds local_ms s =
     (let parts = split_on (CHR ''T'') s in
      case (at parts 0, at parts 1) of
        (Some date, Some time) \<Rightarrow>
          let ds = split_on (CHR ''-'') date; ts = split_on (CHR '':'') time;
              y = js_number (at ds 0); m = js_number (at ds 1); dd = js_number (at ds 2);
              hh = js_number (at ts 0); mm = js_number (at ts 1)
          in Inr (map_option (\<lambda>y. local_ms y (or_else m 1 - 1) (or_else dd 1) (or_else hh 0) (or_else mm 0)
                    div 1000) y)
      | _ \<Rightarrow> Inl TypeError)"

text \<open>The inverse, for the default values; the month of \<open>Date\<close> counts from zero.\<close>

definition two_digits :: "int \<Rightarrow> string" where
  "two_digits n = padStart 2 (CHR ''0'') (to_string 10 n)"

definition toLocalInputValue :: "int \<Rightarrow> int \<Rightarrow> int \<Rightarrow> int \<Rightarrow> int \<Rightarrow> string" where
  "toLocalInputValue fullYear month date hours minutes =
     to_string 10 fullYear @ ''-'' @ two_digits (month + 1) @ ''-'' @ two_digits date @ ''T'' @
     two_digits hours @ '':'' @ two_digits minutes"

section \<open>The census file\<close>

definition parseUploadedCensus :: "byte list \<Rightarrow> int list res" where
  "parseUploadedCensus buf =
     (if length buf mod 32 \<noteq> 0 then Inl (Thrown ''census.bin must be multiple of 32 bytes'')
      else chunk_loop 32 (bytes32ToBig buf) (length buf) 0)"

record create_page =
  cp_form :: poll_form
  cp_err :: "js_error option"
  cp_stage :: "nat option"
  cp_open :: bool
  cp_uploaded :: "turbo_data list"
  cp_txs :: "transaction list"

record create_env =
  ce_P :: hash
  ce_sdk :: sdk_env
  ce_account :: "keypair option"
  ce_wallet :: "pubkey option"
  ce_sign :: "byte list \<Rightarrow> int \<Rightarrow> (int \<times> int) \<times> int"
  ce_now :: int
  ce_upload :: "turbo_data \<Rightarrow> funding \<Rightarrow> string res"
  ce_devnet :: bool
  ce_json :: "jsv \<Rightarrow> byte list"
  ce_local_ms :: "int \<Rightarrow> int \<Rightarrow> int \<Rightarrow> int \<Rightarrow> int \<Rightarrow> int"
  ce_idRandom :: "byte list"
  ce_blockhash :: "string res"
  ce_send :: "transaction \<Rightarrow> unit res"
  ce_export :: "int \<Rightarrow> (string \<times> string) list \<Rightarrow> (byte list, string) sum res"

definition set_census :: "byte list \<Rightarrow> int list \<Rightarrow> int \<Rightarrow> poll_form \<Rightarrow> poll_form" where
  "set_census bytes leaves root d = d\<lparr>pf_censusBytes := Some bytes,
     pf_censusCount := Some (int (length leaves)), pf_censusRootHex := ''0x'' @ toHex32 root\<rparr>"

definition onCensusFile :: "create_env \<Rightarrow> byte list \<Rightarrow> (create_page, unit) proc" where
  "onCensusFile V bytes =
     bind (lift (parseUploadedCensus bytes)) (\<lambda>leaves.
     bind (lift (getMerkleRoot (ce_P V) CENSUS_DEPTH leaves)) (\<lambda>root.
       update (\<lambda>s. s\<lparr>cp_form := set_census bytes leaves root (cp_form s)\<rparr>)))"

text \<open>The census service answers with the file, or with the text of an error.\<close>

definition handlePickExisting :: "create_env \<Rightarrow> int \<Rightarrow> string \<Rightarrow> (create_page, unit) proc" where
  "handlePickExisting V picked_id picked_title =
     bind (need (ce_account V) ''Unlock ZK Accounts'') (\<lambda>acct.
     bind (lift (ce_export V picked_id
             (makeAuthSig (ce_P V) (ce_sign V) (ce_now V) (kp_prv acct) (kp_pub acct)))) (\<lambda>r.
     bind (case r of Inr txt \<Rightarrow> throw (Thrown txt) | Inl buf \<Rightarrow> ret buf) (\<lambda>buf.
     seq (throw_if (length buf = 0) ''Census is empty'')
    (bind (lift (parseUploadedCensus buf)) (\<lambda>leaves.
     bind (lift (getMerkleRoot (ce_P V) CENSUS_DEPTH leaves)) (\<lambda>root.
       update (\<lambda>s. s\<lparr>cp_form := (set_census buf leaves root (cp_form s))\<lparr>
           pf_selectedCensusId := Some picked_id, pf_selectedCensusTitle := Some picked_title\<rparr>,
         cp_open := False\<rparr>)))))))"

section \<open>Submission\<close>

definition cleanedChoices :: "poll_form \<Rightarrow> string list" where
  "cleanedChoices d = filter (\<lambda>c. length c > 0) (map trim (pf_choices d))"

definition description :: "poll_form \<Rightarrow> jsv" where
  "description d = JObj [(''title'', JStr (trim (pf_title d))),
     (''choices'', JArr (map JStr (cleanedChoices d)))]"

definition tallier_key_of :: "create_env \<Rightarrow> poll_form \<Rightarrow> point res" where
  "tallier_key_of V d = (case pf_tallierMode d of
       TActive \<Rightarrow> (case ce_account V of
           None \<Rightarrow> Inl (Thrown ''No active ZK account selected'')
         | Some acc \<Rightarrow> Inr \<lparr>pt_x = toBytesBE32 (fst (kp_pub acc)), pt_y = toBytesBE32 (snd (kp_pub acc))\<rparr>)
     | TManual \<Rightarrow> (case (pf_tallierX d, pf_tallierY d) of
           (Some x, Some y) \<Rightarrow> rbind (hexToBytes32 x) (\<lambda>bx. rbind (hexToBytes32 y) (\<lambda>by.
             Inr \<lparr>pt_x = bx, pt_y = by\<rparr>))
         | _ \<Rightarrow> Inl TypeError))"

text \<open>\<open>new BN(NaN)\<close> fails an assertion; \<open>data.censusCount!\<close> of undefined is a \<open>TypeError\<close>.\<close>

definition bn_of :: "int option \<Rightarrow> int res" where
  "bn_of n = (case n of None \<Rightarrow> Inl (Thrown ''Assertion failed'') | Some k \<Rightarrow> Inr k)"

definition create_tx ::
  "create_env \<Rightarrow> pubkey \<Rightarrow> poll_form \<Rightarrow> string \<Rightarrow> string \<Rightarrow> transaction res" where
  "create_tx V payer d descUrl censusUrl =
     rbind (localInputToUnixSeconds (ce_local_ms V) (pf_start d)) (\<lambda>start.
     rbind (localInputToUnixSeconds (ce_local_ms V) (pf_end d)) (\<lambda>end.
     rbind (bigint_of_string (pf_feeLamports d)) (\<lambda>fee.
     rbind (tallier_key_of V d) (\<lambda>tallierKey.
     rbind (randomScalar (ce_idRandom V) (2 ^ 32)) (\<lambda>pid.
     rbind (hexToBytes32 (pf_censusRootHex d)) (\<lambda>censusRoot.
     rbind (bn_of start) (\<lambda>start. rbind (bn_of end) (\<lambda>end.
     rbind (case pf_censusCount d of None \<Rightarrow> Inl TypeError | Some n \<Rightarrow> Inr n) (\<lambda>nVoters.
     rbind (createPoll (ce_sdk V) \<lparr>po_payer = payer, po_id = pid,
              po_nChoices = int (length (cleanedChoices d)), po_descriptionUrl = descUrl,
              po_censusUrl = censusUrl, po_tallierKey = tallierKey, po_censusRoot = censusRoot,
              po_votingStartTime = start, po_votingEndTime = end, po_fee = fee,
              po_feeDestination = payer, po_nVoters = nVoters\<rparr>) (\<lambda>ix.
     rbind (ce_blockhash V) (\<lambda>blockhash.
       Inr \<lparr>tx_ixs = [cuLimitInstruction [ix], Call (iwc_instruction ix)],
         tx_recentBlockhash = blockhash, tx_feePayer = payer, tx_signers = []\<rparr>)))))))))))"

definition submit_body :: "create_env \<Rightarrow> (create_page, unit) proc" where
  "submit_body V =
     seq (update (\<lambda>s. s\<lparr>cp_err := None, cp_stage := Some 0\<rparr>))
    (bind (need (ce_wallet V) ''Connect your Solana wallet first'') (\<lambda>payer.
     bind (read cp_form) (\<lambda>d.
     bind (case pf_censusBytes d of None \<Rightarrow> throw TypeError | Some b \<Rightarrow> ret b) (\<lambda>censusBytes.
     let items = [\<lparr>td_data = ce_json V (description d), td_contentType = ''application/json''\<rparr>,
                  \<lparr>td_data = censusBytes, td_contentType = ''application/octet-stream''\<rparr>] in
     bind (lift (turboBatchUpload (ce_upload V) (ce_devnet V) items)) (\<lambda>urls.
     seq (update (\<lambda>s. s\<lparr>cp_uploaded := cp_uploaded s @ items\<rparr>))
    (seq (update (\<lambda>s. s\<lparr>cp_stage := Some 1\<rparr>))
    (bind (lift (create_tx V payer d (urls ! 0) (urls ! 1))) (\<lambda>tx.
     seq (lift (ce_send V tx))
    (seq (update (\<lambda>s. s\<lparr>cp_txs := cp_txs s @ [tx]\<rparr>))
         (update (\<lambda>s. s\<lparr>cp_stage := Some 2\<rparr>)))))))))))"

definition onSubmit :: "create_env \<Rightarrow> create_page \<Rightarrow> create_page" where
  "onSubmit V = attempt (submit_body V) (\<lambda>e s. s\<lparr>cp_err := Some e\<rparr>) id"

definition create_disabled :: "create_env \<Rightarrow> (string \<Rightarrow> int option) \<Rightarrow> bool \<Rightarrow> poll_form \<Rightarrow> bool" where
  "create_disabled V date_parse isSubmitting d \<longleftrightarrow>
     isSubmitting \<or> \<not> form_valid date_parse d \<or> ce_wallet V = None \<or>
     (pf_tallierMode d = TActive \<and> ce_account V = None)"

section \<open>Properties\<close>

lemma node_field: "hash_law P \<Longrightarrow> 0 \<le> node P ls (Suc d) i \<and> node P ls (Suc d) i < FP"
  by (simp add: hash_law_def)

lemma root_field:
  assumes "hash_law P" "getMerkleRoot P CENSUS_DEPTH leaves = Inr root"
  shows "0 \<le> root" "root < FP"
proof -
  have "leaves \<noteq> []" using assms(2) by (auto simp: getMerkleRoot_def)
  moreover have d: "CENSUS_DEPTH = Suc 39" by (simp add: CENSUS_DEPTH_def)
  ultimately have "root = node P leaves (Suc 39) 0"
    using assms(2) getMerkleRoot_node [of leaves P "Suc 39"] by (simp del: node.simps)
  then show "0 \<le> root" "root < FP" using node_field [OF assms(1), of leaves 39 0] by (simp_all del: node.simps)
qed

lemma submit_ok:
  assumes "cp_err (onSubmit V s) = None"
  shows "\<exists>payer bytes urls tx. ce_wallet V = Some payer \<and> pf_censusBytes (cp_form s) = Some bytes \<and>
    turboBatchUpload (ce_upload V) (ce_devnet V)
      [\<lparr>td_data = ce_json V (description (cp_form s)), td_contentType = ''application/json''\<rparr>,
       \<lparr>td_data = bytes, td_contentType = ''application/octet-stream''\<rparr>] = Inr urls \<and>
    create_tx V payer (cp_form s) (urls ! 0) (urls ! 1) = Inr tx \<and>
    cp_txs (onSubmit V s) = cp_txs s @ [tx]"
proof -
  obtain u where u: "submit_body V s = (Inr (), u)" "onSubmit V s = u"
    using assms by (cases "submit_body V s"; cases "fst (submit_body V s)")
      (auto simp: onSubmit_def attempt_def)
  show ?thesis unfolding u(2) using u(1)
    by (auto simp: submit_body_def proc_ok Let_def split: option.splits)
qed

lemma create_tx_ix:
  assumes "create_tx V payer d descUrl censusUrl = Inr tx"
  shows "\<exists>ix root n. tx_ixs tx ! 1 = Call ix \<and> hexToBytes32 (pf_censusRootHex d) = Inr root \<and>
    pf_censusCount d = Some n \<and> ix_method ix = ''createPoll'' \<and>
    ix_args ix ! 1 = NumArg (int (length (cleanedChoices d))) \<and> ix_args ix ! 3 = StrArg censusUrl \<and>
    ix_args ix ! 5 = BytesArg root \<and> ix_args ix ! 10 = BNArg n"
  using assms
  by (auto simp: create_tx_def rbind_eq_Inr createPoll_def moot_ix_def toBN_def split: option.splits)

text \<open>
  A poll created from an uploaded census file commits to that file: the file that is
  uploaded with the description is the one chosen, and the instruction carries its address,
  the 32 bytes of the Merkle root of its leaves and their number. (With the root so encoded,
  the votes of its members satisfy the circuit.)
\<close>

theorem created_poll_commits_to_census:
  assumes "hash_law (ce_P V)" "onCensusFile V bytes s0 = (Inr (), s)" "cp_err (onSubmit V s) = None"
  shows "\<exists>leaves root urls tx ix. parseUploadedCensus bytes = Inr leaves \<and>
    getMerkleRoot (ce_P V) CENSUS_DEPTH leaves = Inr root \<and>
    turboBatchUpload (ce_upload V) (ce_devnet V)
      [\<lparr>td_data = ce_json V (description (cp_form s)), td_contentType = ''application/json''\<rparr>,
       \<lparr>td_data = bytes, td_contentType = ''application/octet-stream''\<rparr>] = Inr urls \<and>
    cp_txs (onSubmit V s) = cp_txs s @ [tx] \<and> tx_ixs tx ! 1 = Call ix \<and>
    ix_method ix = ''createPoll'' \<and> ix_args ix ! 3 = StrArg (urls ! 1) \<and>
    ix_args ix ! 5 = BytesArg (toBytesBE32 root) \<and> ix_args ix ! 10 = BNArg (int (length leaves))"
proof -
  obtain leaves root where l: "parseUploadedCensus bytes = Inr leaves"
      "getMerkleRoot (ce_P V) CENSUS_DEPTH leaves = Inr root"
      "cp_form s = set_census bytes leaves root (cp_form s0)"
    using assms(2) by (auto simp: onCensusFile_def proc_ok)
  obtain payer bytes' urls tx where s: "pf_censusBytes (cp_form s) = Some bytes'"
      "turboBatchUpload (ce_upload V) (ce_devnet V)
        [\<lparr>td_data = ce_json V (description (cp_form s)), td_contentType = ''application/json''\<rparr>,
         \<lparr>td_data = bytes', td_contentType = ''application/octet-stream''\<rparr>] = Inr urls"
      "create_tx V payer (cp_form s) (urls ! 0) (urls ! 1) = Inr tx"
      "cp_txs (onSubmit V s) = cp_txs s @ [tx]"
    using submit_ok [OF assms(3)] by blast
  have "hexToBytes32 (pf_censusRootHex (cp_form s)) = Inr (toBytesBE32 root)"
    using hex_field_roundtrip root_field [OF assms(1) l(2)] by (simp add: l(3) set_census_def)
  moreover have "bytes' = bytes" "pf_censusCount (cp_form s) = Some (int (length leaves))"
    using s(1) l(3) by (simp_all add: set_census_def)
  ultimately show ?thesis using l(1,2) s(2,4) create_tx_ix [OF s(3)] by auto
qed

lemma parse_census_concat:
  assumes "\<forall>w \<in> set ws. 0 \<le> w \<and> w < FP"
  shows "parseUploadedCensus (concat (map toBytesBE32 ws)) = Inr ws"
proof -
  let ?bs = "concat (map toBytesBE32 ws)"
  have "length ?bs mod 32 = 0" using be32.length_concat_enc [of ws] by simp
  moreover have "chunk_loop 32 (bytes32ToBig ?bs) (length ?bs) 0 = Inr ws"
    using assms by (intro be32.chunk_loop_concat) auto
  ultimately show ?thesis by (simp add: parseUploadedCensus_def)
qed

definition form0 :: "tallier_mode \<Rightarrow> poll_form" where
  "form0 m = \<lparr>pf_title = ''t'', pf_choices = ['' a'', '' ''], pf_tallierMode = m,
     pf_tallierX = Some (replicate 65 (CHR ''0'')), pf_tallierY = Some ''0x1'',
     pf_start = ''2025-01-02T03:04'', pf_end = ''2025-01-03T03:04'', pf_feeLamports = ''5'',
     pf_censusSource = CUpload, pf_censusBytes = Some [], pf_censusCount = None, pf_censusRootHex = [],
     pf_selectedCensusId = None, pf_selectedCensusTitle = None\<rparr>"

definition create0 :: "tallier_mode \<Rightarrow> create_page" where
  "create0 m = \<lparr>cp_form = form0 m, cp_err = None, cp_stage = None, cp_open = False,
     cp_uploaded = [], cp_txs = []\<rparr>"

definition create_env0 :: create_env where
  "create_env0 = \<lparr>ce_P = sum_hash, ce_sdk = demo_env, ce_account = Some the_voter,
     ce_wallet = Some [1], ce_sign = (\<lambda>prv m. ((1, 1), m)), ce_now = 0,
     ce_upload = (\<lambda>d m. Inr (td_contentType d)), ce_devnet = True, ce_json = (\<lambda>v. [1]),
     ce_local_ms = (\<lambda>y m d hh mm. 1000 * (mm + 60 * (hh + 24 * d))), ce_idRandom = [3],
     ce_blockhash = Inr [], ce_send = (\<lambda>tx. Inr ()), ce_export = (\<lambda>i h. Inl TypeError)\<rparr>"

lemma create0_dates:
  "localInputToUnixSeconds (ce_local_ms create_env0) ''2025-01-02T03:04'' = Inr (Some 3064)"
  "localInputToUnixSeconds (ce_local_ms create_env0) ''2025-01-03T03:04'' = Inr (Some 4504)"
  "bigint_of_string ''5'' = Inr 5"
  by code_simp+

text \<open>A census of one leaf, chosen and submitted.\<close>

lemma create0_runs:
  assumes "0 \<le> l" "l < FP"
  shows "\<exists>s. onCensusFile create_env0 (toBytesBE32 l) (create0 TActive) = (Inr (), s) \<and>
    cp_err (onSubmit create_env0 s) = None"
proof -
  let ?V = create_env0
  have p: "parseUploadedCensus (toBytesBE32 l) = Inr [l]"
    using parse_census_concat [of "[l]"] assms by simp
  obtain root where r: "getMerkleRoot sum_hash CENSUS_DEPTH [l] = Inr root"
    using getMerkleRoot_node [of "[l]"] by simp
  have h: "hexToBytes32 (''0x'' @ toHex32 root) = Inr (toBytesBE32 root)"
    using hex_field_roundtrip root_field [OF _ r] by (simp add: hash_law_def sum_hash_range)
  let ?s = "(create0 TActive)\<lparr>cp_form := set_census (toBytesBE32 l) [l] root (form0 TActive)\<rparr>"
  have c: "onCensusFile ?V (toBytesBE32 l) (create0 TActive) = (Inr (), ?s)"
    using p r by (simp add: onCensusFile_def proc_simps create_env0_def create0_def)
  have "\<exists>tx. create_tx ?V [1] (cp_form ?s) d u = Inr tx" for d u
    using create0_dates h
    by (auto simp: create_tx_def set_census_def form0_def tallier_key_of_def randomScalar_def bn_of_def
        createPoll_def findPoll_def findRelayerState_def)
       (auto simp: create_env0_def demo_env_def)
  then obtain tx where "create_tx ?V [1] (cp_form ?s) (''https://arweave.net/'' @ ''application/json'')
      (''https://arweave.net/'' @ ''application/octet-stream'') = Inr tx" by blast
  then have "cp_err (onSubmit ?V ?s) = None"
    by (simp add: onSubmit_def attempt_def submit_body_def proc_simps Let_def create_env0_def
        turboBatchUpload_def FREE_LIMIT_def set_census_def create0_def form0_def be32.enc_length)
  with c show ?thesis by blast
qed

theorem created_poll_commits_to_census_witness:
  "\<exists>s root urls tx ix. getMerkleRoot sum_hash CENSUS_DEPTH [7] = Inr root \<and>
    cp_txs (onSubmit create_env0 s) = cp_txs s @ [tx] \<and> tx_ixs tx ! 1 = Call ix \<and>
    ix_args ix ! 3 = StrArg (urls ! 1) \<and> ix_args ix ! 5 = BytesArg (toBytesBE32 root) \<and>
    ix_args ix ! 10 = BNArg 1"
proof -
  have l: "(0 :: int) \<le> 7" "(7 :: int) < FP" by (simp_all add: FP_def)
  obtain s where s: "onCensusFile create_env0 (toBytesBE32 7) (create0 TActive) = (Inr (), s)"
      "cp_err (onSubmit create_env0 s) = None"
    using create0_runs [OF l] by blast
  have P: "ce_P create_env0 = sum_hash" "hash_law (ce_P create_env0)"
    by (simp_all add: create_env0_def hash_law_def sum_hash_range)
  have "parseUploadedCensus (toBytesBE32 7) = Inr [7]" using parse_census_concat [of "[7]"] l by simp
  with created_poll_commits_to_census [OF P(2) s] P(1) obtain root urls tx ix where
    "getMerkleRoot sum_hash CENSUS_DEPTH [7] = Inr root" "cp_txs (onSubmit create_env0 s) = cp_txs s @ [tx]"
    "tx_ixs tx ! 1 = Call ix" "ix_args ix ! 3 = StrArg (urls ! 1)"
    "ix_args ix ! 5 = BytesArg (toBytesBE32 root)" "ix_args ix ! 10 = BNArg 1" by auto
  then show ?thesis by blast
qed

text \<open>
  The form accepts a manual tallier key of any length, but the submission fails on more
  than 64 digits: it throws only after the description and the census have been uploaded (and
  paid for), and sends no transaction.
\<close>

theorem long_tallier_key_fails_after_upload:
  assumes "pf_tallierMode (cp_form s) = TManual" "pf_tallierX (cp_form s) = Some x"
    and "64 < length (strip_0x x)" "ce_wallet V = Some payer" "pf_censusBytes (cp_form s) = Some bytes"
    and "turboBatchUpload (ce_upload V) (ce_devnet V)
      [\<lparr>td_data = ce_json V (description (cp_form s)), td_contentType = ''application/json''\<rparr>,
       \<lparr>td_data = bytes, td_contentType = ''application/octet-stream''\<rparr>] = Inr urls"
  shows "cp_err (onSubmit V s) \<noteq> None \<and> cp_txs (onSubmit V s) = cp_txs s \<and>
    length (cp_uploaded (onSubmit V s)) = length (cp_uploaded s) + 2"
proof -
  have "tallier_key_of V (cp_form s) \<noteq> Inr k" for k
    using assms(1-3) by (auto simp: tallier_key_of_def hexToBytes32_def rbind_eq_Inr Let_def split: option.splits)
  then have "create_tx V payer (cp_form s) (urls ! 0) (urls ! 1) \<noteq> Inr tx" for tx
    by (auto simp: create_tx_def rbind_eq_Inr)
  then obtain e where "create_tx V payer (cp_form s) (urls ! 0) (urls ! 1) = Inl e"
    by (cases "create_tx V payer (cp_form s) (urls ! 0) (urls ! 1)") auto
  then show ?thesis
    using assms(4-6) by (simp add: onSubmit_def attempt_def submit_body_def proc_simps Let_def)
qed

theorem long_tallier_key_fails_after_upload_witness:
  "cp_err (onSubmit create_env0 (create0 TManual)) \<noteq> None \<and> cp_txs (onSubmit create_env0 (create0 TManual)) = []"
proof -
  have "64 < length (strip_0x (replicate 65 (CHR ''0'')))" by code_simp
  then show ?thesis
    using long_tallier_key_fails_after_upload [where V = create_env0 and s = "create0 TManual" and payer = "[1]"
        and x = "replicate 65 (CHR ''0'')" and bytes = "[]"]
    by (simp add: create0_def form0_def create_env0_def turboBatchUpload_def FREE_LIMIT_def)
qed

end
