(* ===== verification/Paging.thy ===== *)
theory Paging
  imports PollCreate
begin

text \<open>
  Lists read in pages. \<open>keyset\<close> is the contract of the services that list rows behind a cursor
  (\<open>census-service/src/server.rs\<close>, \<open>indexer/src/server.rs\<close>), \<open>pager\<close> that of a page of the
  frontend with its two buttons; together they show the list page by page. The answers of a
  service are values of \<open>http\<close>.
\<close>

datatype 'a http = HOk 'a | HErr string

text \<open>\<open>if (!r.ok) throw new Error(await r.text()); await r.json()\<close>\<close>

definition fetched :: "'a http res \<Rightarrow> ('s, 'a) proc" where
  "fetched r = bind (lift r) (\<lambda>h. case h of HOk x \<Rightarrow> ret x | HErr txt \<Rightarrow> throw (Thrown txt))"

lemma fetched_ok [simp, proc_simps]: "fetched (Inr (HOk x)) = ret x"
  by (rule ext) (simp add: fetched_def run_bind)

lemma fetched_run [proc_simps]:
  "bind (fetched (Inr (HOk x))) f s = f x s"
  "bind (fetched (Inr (HErr t))) f s = (Inl (Thrown t), s)"
  "bind (fetched (Inl e)) f s = (Inl e, s)"
  by (simp_all add: fetched_def bind_assoc run_bind)

text \<open>\<open>x ? .. : ..\<close> on an optional number: zero counts as absent.\<close>

definition truthy :: "int option \<Rightarrow> int option" where
  "truthy x = (if x = Some 0 then None else x)"

section \<open>Rows behind a cursor\<close>

locale keyset =
  fixes L :: "'r list" and after :: "int \<Rightarrow> 'r \<Rightarrow> bool" and rid :: "'r \<Rightarrow> int"
  assumes later: "i < j \<Longrightarrow> j < length L \<Longrightarrow> after (rid (L ! i)) (L ! j)"
    and earlier: "i \<le> j \<Longrightarrow> j < length L \<Longrightarrow> \<not> after (rid (L ! j)) (L ! i)"
    and positive: "r \<in> set L \<Longrightarrow> 0 < rid r"
begin

definition rows_from :: "int option \<Rightarrow> 'r list" where
  "rows_from c = (case c of None \<Rightarrow> L | Some b \<Rightarrow> filter (after b) L)"

definition cursor_at :: "nat \<Rightarrow> nat \<Rightarrow> int option" where
  "cursor_at n k = (if k = 0 then None else Some (rid (L ! (k * n - 1))))"

lemma filter_after: "k < length L \<Longrightarrow> filter (after (rid (L ! k))) L = drop (Suc k) L"
proof -
  assume k: "k < length L"
  have "filter (after (rid (L ! k))) (take (Suc k) L) = []"
    using k earlier by (auto simp: filter_empty_conv in_set_conv_nth)
  moreover have "filter (after (rid (L ! k))) (drop (Suc k) L) = drop (Suc k) L"
    using k later by (auto simp: filter_id_conv in_set_conv_nth)
  ultimately show ?thesis
    by (metis append_take_drop_id filter_append append_Nil)
qed

lemma rows_from_cursor:
  assumes "0 < n" "k * n \<le> length L"
  shows "rows_from (cursor_at n k) = drop (k * n) L"
proof (cases k)
  case (Suc m)
  then have "k * n - 1 < length L" "Suc (k * n - 1) = k * n" using assms by simp_all
  then show ?thesis using filter_after [of "k * n - 1"] Suc by (simp add: rows_from_def cursor_at_def)
qed (simp add: rows_from_def cursor_at_def)

lemma next_cursor:
  assumes "0 < n" "Suc k * n < length L"
  shows "rid (drop (k * n) L ! (n - 1)) = the (cursor_at n (Suc k))" "0 < rid (drop (k * n) L ! (n - 1))"
proof -
  have "k * n + (n - 1) = Suc k * n - 1" "Suc k * n - 1 < length L" using assms by simp_all
  then have d: "drop (k * n) L ! (n - 1) = L ! (Suc k * n - 1)" by (simp add: nth_drop)
  then show "rid (drop (k * n) L ! (n - 1)) = the (cursor_at n (Suc k))" by (simp add: cursor_at_def)
  show "0 < rid (drop (k * n) L ! (n - 1))"
    unfolding d using positive nth_mem \<open>Suc k * n - 1 < length L\<close> by blast
qed

end

text \<open>A table with a primary key of type \<open>BIGSERIAL\<close>, ordered by it.\<close>

definition i64_max :: int where "i64_max = 2 ^ 63 - 1"

definition by_id :: "(int \<times> 'r) list \<Rightarrow> (int \<times> 'r) list" where
  "by_id tbl = map (\<lambda>i. (i, the (map_of tbl i)))
     (sort (remdups (filter (\<lambda>i. 0 < i \<and> i < i64_max) (map fst tbl))))"

lemma by_id_range: "r \<in> set (by_id tbl) \<Longrightarrow> 0 < fst r \<and> fst r < i64_max"
  by (auto simp: by_id_def)

lemma by_id_ordered: "i < j \<Longrightarrow> j < length (by_id tbl) \<Longrightarrow> fst (by_id tbl ! i) < fst (by_id tbl ! j)"
proof -
  assume ij: "i < j" "j < length (by_id tbl)"
  have "sorted_wrt (<) (sort (remdups (filter (\<lambda>i. 0 < i \<and> i < i64_max) (map fst tbl))))"
    by (simp add: strict_sorted_iff)
  with ij show ?thesis by (simp add: by_id_def sorted_wrt_iff_nth_less)
qed

lemma by_id_le: "i \<le> j \<Longrightarrow> j < length (by_id tbl) \<Longrightarrow> fst (by_id tbl ! i) \<le> fst (by_id tbl ! j)"
  using by_id_ordered [of i j tbl] by (cases "i = j") auto

interpretation oldest: keyset "by_id tbl" "\<lambda>c r. c < fst r" fst for tbl :: "(int \<times> 'r) list"
proof
  fix i j assume "i < j" "j < length (by_id tbl)"
  then show "fst (by_id tbl ! i) < fst (by_id tbl ! j)" by (rule by_id_ordered)
next
  fix i j assume "i \<le> j" "j < length (by_id tbl)"
  then show "\<not> fst (by_id tbl ! j) < fst (by_id tbl ! i)" by (simp add: by_id_le not_less)
qed (drule by_id_range, simp)

interpretation newest: keyset "rev (by_id tbl)" "\<lambda>c r. fst r < c" fst for tbl :: "(int \<times> 'r) list"
proof
  fix i j assume "i < j" "j < length (rev (by_id tbl))"
  then show "fst (rev (by_id tbl) ! j) < fst (rev (by_id tbl) ! i)"
    by (simp add: rev_nth by_id_ordered)
next
  fix i j assume "i \<le> j" "j < length (rev (by_id tbl))"
  then show "\<not> fst (rev (by_id tbl) ! i) < fst (rev (by_id tbl) ! j)"
    by (simp add: rev_nth by_id_le not_less)
qed (simp, drule by_id_range, simp)

section \<open>The answers of the services\<close>

record 'r keyset_page =
  ks_items :: "'r list"
  ks_next :: "int option"

text \<open>One row more than the limit is read, to know whether another page follows.\<close>

definition list_before :: "nat \<Rightarrow> (int \<times> 'r) list \<Rightarrow> int option \<Rightarrow> (int \<times> 'r) keyset_page" where
  "list_before limit tbl before =
     (let rows = take (limit + 1) (filter (\<lambda>r. fst r < (case before of None \<Rightarrow> i64_max | Some b \<Rightarrow> b))
                   (rev (by_id tbl)))
      in \<lparr>ks_items = take limit rows,
          ks_next = (if length rows > limit then Some (fst (rows ! (limit - 1))) else None)\<rparr>)"

definition list_after :: "nat \<Rightarrow> (int \<times> 'r) list \<Rightarrow> int option \<Rightarrow> (int \<times> 'r) list \<times> bool" where
  "list_after limit tbl aft =
     (let rows = take (limit + 1) (filter (\<lambda>r. (case aft of None \<Rightarrow> 0 | Some a \<Rightarrow> a + 1) \<le> fst r) (by_id tbl))
      in (take limit rows, length rows > limit))"

definition clamp_censuses :: "int option \<Rightarrow> nat" where
  "clamp_censuses l = (case l of None \<Rightarrow> 50 | Some n \<Rightarrow> if n < 1 \<or> n > 200 then 50 else nat n)"

definition clamp_polls :: "int option \<Rightarrow> nat" where
  "clamp_polls l = nat (min (max (case l of None \<Rightarrow> 50 | Some n \<Rightarrow> n) 1) 500)"

lemma list_before_rows:
  "ks_items (list_before n tbl c) = take n (newest.rows_from tbl c)"
  "ks_next (list_before n tbl c) = (if length (newest.rows_from tbl c) > n
     then Some (fst (newest.rows_from tbl c ! (n - 1))) else None)"
proof -
  have f: "filter (\<lambda>r. fst r < (case c of None \<Rightarrow> i64_max | Some b \<Rightarrow> b)) (rev (by_id tbl))
      = newest.rows_from tbl c"
    using by_id_range [of _ tbl] by (cases c) (auto simp: newest.rows_from_def filter_id_conv rev_filter)
  then show "ks_items (list_before n tbl c) = take n (newest.rows_from tbl c)"
    by (simp add: list_before_def Let_def)
  from f show "ks_next (list_before n tbl c) = (if length (newest.rows_from tbl c) > n
     then Some (fst (newest.rows_from tbl c ! (n - 1))) else None)"
    by (simp add: list_before_def Let_def min_def)
qed

lemma list_after_rows:
  "list_after n tbl c = (take n (oldest.rows_from tbl c), length (oldest.rows_from tbl c) > n)"
proof -
  have f: "filter (\<lambda>r. (case c of None \<Rightarrow> 0 | Some a \<Rightarrow> a + 1) \<le> fst r) (by_id tbl) = oldest.rows_from tbl c"
    by (cases c) (auto simp: oldest.rows_from_def filter_id_conv less_imp_le dest!: by_id_range intro!: filter_cong)
  then show ?thesis by (simp add: list_after_def Let_def)
qed

section \<open>A page with the buttons Next and Prev\<close>

text \<open>\<open>trail\<close> holds the cursors of the pages up to the one shown.\<close>

locale pager =
  fixes ok :: "'s \<Rightarrow> bool" and trail :: "'s \<Rightarrow> int option list" and shown :: "'s \<Rightarrow> 'p"
    and svc :: "int option \<Rightarrow> 'p" and next_of :: "'p \<Rightarrow> int option" and nxt :: "'s \<Rightarrow> 's" and prv :: "'s \<Rightarrow> 's"
  assumes trail_ne: "ok s \<Longrightarrow> trail s \<noteq> []"
    and shown_svc: "ok s \<Longrightarrow> shown s = svc (last (trail s))"
    and nxt: "ok s \<Longrightarrow> next_of (shown s) = Some c \<Longrightarrow> ok (nxt s) \<and> trail (nxt s) = trail s @ [Some c]"
    and prv: "ok s \<Longrightarrow> 1 < length (trail s) \<Longrightarrow> ok (prv s) \<and> trail (prv s) = butlast (trail s)"
begin

lemma prv_steps:
  "ok s \<Longrightarrow> j < length (trail s) \<Longrightarrow>
   ok ((prv ^^ j) s) \<and> trail ((prv ^^ j) s) = take (length (trail s) - j) (trail s)"
proof (induction j)
  case (Suc j)
  then have "ok ((prv ^^ j) s)" "trail ((prv ^^ j) s) = take (length (trail s) - j) (trail s)" by simp_all
  then show ?case using prv [of "(prv ^^ j) s"] Suc.prems
    by (simp add: butlast_take Suc_diff_Suc)
qed simp

end

locale keyset_pager = keyset L after rid + pager ok trail shown svc next_of nxt prv
  for L :: "'r list" and after rid and ok :: "'s \<Rightarrow> bool" and trail and shown :: "'s \<Rightarrow> 'p"
    and svc next_of nxt prv +
  fixes size :: nat and items :: "'p \<Rightarrow> 'r list"
  assumes size_pos: "0 < size"
    and items_svc: "items (svc c) = take size (rows_from c)"
    and next_svc: "next_of (svc c) = (if size < length (rows_from c)
          then Some (rid (rows_from c ! (size - 1))) else None)"
begin

lemma nxt_steps:
  assumes "ok s" "trail s = [None]"
  shows "k = 0 \<or> k * size < length L \<Longrightarrow>
    ok ((nxt ^^ k) s) \<and> trail ((nxt ^^ k) s) = map (cursor_at size) [0..<Suc k]"
proof (induction k)
  case 0
  then show ?case using assms by (simp add: cursor_at_def)
next
  case (Suc k)
  let ?t = "(nxt ^^ k) s"
  have lt: "Suc k * size < length L" using Suc.prems by simp
  then have t: "ok ?t" "trail ?t = map (cursor_at size) [0..<Suc k]" using Suc.IH by simp_all
  have rows: "rows_from (cursor_at size k) = drop (k * size) L"
    using rows_from_cursor [OF size_pos, of k] lt by simp
  have "shown ?t = svc (cursor_at size k)" using shown_svc [OF t(1)] t(2) by simp
  then have "next_of (shown ?t) = cursor_at size (Suc k)"
    using next_cursor [OF size_pos lt] lt by (simp add: next_svc rows) (simp add: cursor_at_def)
  then have "next_of (shown ?t) = Some (the (cursor_at size (Suc k)))"
      "Some (the (cursor_at size (Suc k))) = cursor_at size (Suc k)" by (simp_all add: cursor_at_def)
  with nxt [OF t(1), of "the (cursor_at size (Suc k))"] t(2) show ?case by simp
qed

text \<open>Forward and back: the page shown and whether \<open>Next\<close> is enabled on it.\<close>

lemma page_shown:
  assumes "ok s" "trail s = [None]" "k = 0 \<or> k * size < length L" "j \<le> k"
  shows "items (shown ((prv ^^ j) ((nxt ^^ k) s))) = take size (drop ((k - j) * size) L)"
    and "next_of (shown ((prv ^^ j) ((nxt ^^ k) s))) \<noteq> None \<longleftrightarrow> Suc (k - j) * size < length L"
proof -
  let ?t = "(nxt ^^ k) s"
  note t = nxt_steps [OF assms(1,2,3)]
  have p: "ok ((prv ^^ j) ?t)" "trail ((prv ^^ j) ?t) = map (cursor_at size) [0..<Suc (k - j)]"
    using prv_steps [of ?t j] t assms(4) by (auto simp: take_map Suc_diff_le simp del: upt_Suc)
  have rows: "rows_from (cursor_at size (k - j)) = drop ((k - j) * size) L"
    using assms(3) by (intro rows_from_cursor [OF size_pos])
      (metis diff_is_0_eq' diff_le_self le_zero_eq less_imp_le mult_le_mono1 mult_zero_left order_trans zero_le)
  have sh: "shown ((prv ^^ j) ?t) = svc (cursor_at size (k - j))" using shown_svc [OF p(1)] p(2) by simp
  show "items (shown ((prv ^^ j) ?t)) = take size (drop ((k - j) * size) L)"
    by (simp add: sh items_svc rows)
  show "next_of (shown ((prv ^^ j) ?t)) \<noteq> None \<longleftrightarrow> Suc (k - j) * size < length L"
    by (auto simp: sh next_svc rows)
qed

lemma concat_pages: "0 < n \<Longrightarrow> length xs \<le> m * n \<Longrightarrow> concat (map (\<lambda>k. take n (drop (k * n) xs)) [0..<m]) = xs"
proof (induction m arbitrary: xs)
  case (Suc m)
  have "map (\<lambda>k. take n (drop (k * n) xs)) [0..<Suc m]
      = take n xs # map (\<lambda>k. take n (drop (k * n) (drop n xs))) [0..<m]"
    by (simp add: upt_conv_Cons map_Suc_upt [symmetric] add.commute del: upt_Suc)
  then show ?case using Suc.IH [of "drop n xs"] Suc.prems by simp
qed simp

text \<open>Clicking \<open>Next\<close> as long as it is enabled shows every row, once and in order.\<close>

lemma pages_cover:
  assumes "ok s" "trail s = [None]" "0 < m" "(m - 1) * size < length L \<or> m = 1" "length L \<le> m * size"
  shows "concat (map (\<lambda>k. items (shown ((nxt ^^ k) s))) [0..<m]) = L"
proof -
  have "items (shown ((nxt ^^ k) s)) = take size (drop (k * size) L)" if "k < m" for k
  proof -
    have le: "k * size \<le> (m - 1) * size" using that by (intro mult_le_mono1) simp
    then have "k = 0 \<or> k * size < length L" using assms(4) that le_less_trans [OF le] by auto
    then show ?thesis using page_shown(1) [OF assms(1,2), of k 0] by simp
  qed
  then have eq: "map (\<lambda>k. items (shown ((nxt ^^ k) s))) [0..<m] = map (\<lambda>k. take size (drop (k * size) L)) [0..<m]"
    by simp
  show ?thesis by (simp only: eq concat_pages [OF size_pos assms(5)])
qed

end

end
