(* ===== verification/CensusPages.thy ===== *)
theory CensusPages
  imports Paging
begin

text \<open>
  The pages of the census service: the list of censuses (\<open>pages/CensusesListPage.tsx\<close>), the
  dialog that picks one (\<open>components/ChooseCensusModal.tsx\<close>), a census with its members
  (\<open>pages/CensusDetailPage.tsx\<close>), its creation (\<open>pages/CensusCreatePage.tsx\<close>) and joining it
  (\<open>pages/CensusJoinPage.tsx\<close>). Requests carry the headers of \<open>makeAuthSig\<close>; the answers come
  from the environment.
\<close>

type_synonym headers = "(string \<times> string) list"

record auth_env =
  ae_P :: hash
  ae_sign :: "byte list \<Rightarrow> int \<Rightarrow> (int \<times> int) \<times> int"
  ae_now :: int
  ae_account :: "keypair option"
  ae_locked :: bool

definition auth_headers :: "('e) auth_env_scheme \<Rightarrow> keypair \<Rightarrow> headers" where
  "auth_headers V a = makeAuthSig (ae_P V) (ae_sign V) (ae_now V) (kp_prv a) (kp_pub a)"

definition no_account :: string where
  "no_account = ''Unlock ZK Accounts and select an account''"

section \<open>The list of censuses\<close>

definition CENSUS_PAGE_LIMIT :: int where "CENSUS_PAGE_LIMIT = 20"

record census_item =
  ci_title :: string
  ci_description :: "string option"
  ci_is_creator :: bool

type_synonym list_out = "(int \<times> census_item) keyset_page"

text \<open>The query string: absent parameters are \<open>None\<close>.\<close>

record census_query =
  cq_limit :: "int option"
  cq_before :: "int option"
  cq_creator_only :: bool

record census_env = auth_env +
  ce_censuses :: "census_query \<Rightarrow> headers \<Rightarrow> list_out http res"

record census_list =
  cl_page :: "list_out option"
  cl_loading :: bool
  cl_err :: "js_error option"
  cl_stack :: "int option list"
  cl_before :: "int option"

definition cl_load_body :: "census_env \<Rightarrow> int option \<Rightarrow> (census_list, unit) proc" where
  "cl_load_body V before =
     seq (update (\<lambda>s. s\<lparr>cl_loading := True, cl_err := None\<rparr>))
      (case ae_account V of
         None \<Rightarrow> update (\<lambda>s. s\<lparr>cl_page := None\<rparr>)
       | Some acct \<Rightarrow>
           bind (fetched (ce_censuses V \<lparr>cq_limit = Some CENSUS_PAGE_LIMIT, cq_before = truthy before,
                   cq_creator_only = False\<rparr> (auth_headers V acct))) (\<lambda>out.
             update (\<lambda>s. s\<lparr>cl_page := Some out, cl_before := ks_next out\<rparr>)))"

definition cl_load :: "census_env \<Rightarrow> int option \<Rightarrow> census_list \<Rightarrow> census_list" where
  "cl_load V before = attempt (cl_load_body V before) (\<lambda>e s. s\<lparr>cl_err := Some e\<rparr>)
     (\<lambda>s. s\<lparr>cl_loading := False\<rparr>)"

text \<open>The effect that runs when the keyring is unlocked or the account changes.\<close>

definition cl_open :: "census_env \<Rightarrow> census_list \<Rightarrow> census_list" where
  "cl_open V s = (let s' = s\<lparr>cl_stack := [], cl_before := None, cl_page := None\<rparr>
                  in if ae_locked V then s' else cl_load V None s')"

definition cl_canPrev :: "census_list \<Rightarrow> bool" where
  "cl_canPrev s \<longleftrightarrow> length (cl_stack s) > 0"

definition page_next :: "'r keyset_page option \<Rightarrow> int option" where
  "page_next p = (case p of None \<Rightarrow> None | Some q \<Rightarrow> truthy (ks_next q))"

definition cl_canNext :: "census_list \<Rightarrow> bool" where
  "cl_canNext s \<longleftrightarrow> page_next (cl_page s) \<noteq> None"

definition cl_onNext :: "census_env \<Rightarrow> census_list \<Rightarrow> census_list" where
  "cl_onNext V s = cl_load V (cl_before s) (s\<lparr>cl_stack := cl_stack s @ [cl_before s]\<rparr>)"

definition top_or_null :: "int option list \<Rightarrow> int option" where
  "top_or_null s = (if s = [] then None else last s)"

definition cl_onPrev :: "census_env \<Rightarrow> census_list \<Rightarrow> census_list" where
  "cl_onPrev V s = (let st = butlast (cl_stack s)
                    in cl_load V (top_or_null st) (s\<lparr>cl_stack := st\<rparr>))"

section \<open>Choosing a census\<close>

record census_modal =
  cm_list :: "list_out option"
  cm_loading :: bool
  cm_err :: "js_error option"
  cm_q :: string
  cm_before :: "int option"
  cm_stack :: "int option list"
  cm_picking :: "int option"

definition cm_load_body :: "census_env \<Rightarrow> int option \<Rightarrow> (census_modal, unit) proc" where
  "cm_load_body V cursor =
     seq (update (\<lambda>s. s\<lparr>cm_loading := True, cm_err := None\<rparr>))
      (case ae_account V of
         None \<Rightarrow> ret ()
       | Some acct \<Rightarrow>
           bind (fetched (ce_censuses V \<lparr>cq_limit = None, cq_before = truthy cursor,
                   cq_creator_only = True\<rparr> (auth_headers V acct))) (\<lambda>out.
             update (\<lambda>s. s\<lparr>cm_list := Some out\<rparr>)))"

definition cm_load :: "census_env \<Rightarrow> int option \<Rightarrow> census_modal \<Rightarrow> census_modal" where
  "cm_load V cursor = attempt (cm_load_body V cursor) (\<lambda>e s. s\<lparr>cm_err := Some e\<rparr>)
     (\<lambda>s. s\<lparr>cm_loading := False\<rparr>)"

text \<open>The effect on \<open>before\<close> loads again when it has changed.\<close>

definition cm_setBefore :: "census_env \<Rightarrow> int option \<Rightarrow> census_modal \<Rightarrow> census_modal" where
  "cm_setBefore V b s = (if b = cm_before s then s else cm_load V b (s\<lparr>cm_before := b\<rparr>))"

definition cm_canPrev :: "census_modal \<Rightarrow> bool" where
  "cm_canPrev s \<longleftrightarrow> length (cm_stack s) > 0"

definition cm_onNext :: "census_env \<Rightarrow> census_modal \<Rightarrow> census_modal" where
  "cm_onNext V s = (case page_next (cm_list s) of
       None \<Rightarrow> s
     | Some b \<Rightarrow> cm_setBefore V (Some b) (s\<lparr>cm_stack := cm_stack s @ [Some b]\<rparr>))"

definition cm_onPrev :: "census_env \<Rightarrow> census_modal \<Rightarrow> census_modal" where
  "cm_onPrev V s = (if \<not> cm_canPrev s then s
     else let st = butlast (cm_stack s) in cm_setBefore V (top_or_null st) (s\<lparr>cm_stack := st\<rparr>))"

text \<open>The substring test of \<open>String.includes\<close>.\<close>

definition includes_str :: "string \<Rightarrow> string \<Rightarrow> bool" where
  "includes_str t s \<longleftrightarrow> list_ex (\<lambda>i. take (length s) (drop i t) = s) [0..<Suc (length t)]"

definition cm_shown :: "census_modal \<Rightarrow> (int \<times> census_item) list" where
  "cm_shown s =
     (let items = (case cm_list s of None \<Rightarrow> [] | Some l \<Rightarrow> ks_items l) in
      if trim (cm_q s) = [] then items
      else filter (\<lambda>i. includes_str (toLowerCase (ci_title (snd i))) (toLowerCase (trim (cm_q s)))) items)"

text \<open>\<open>pickingId\<close> is never cleared: after a failed pick every row stays disabled.\<close>

definition cm_pick :: "unit res \<Rightarrow> int \<Rightarrow> census_modal \<Rightarrow> census_modal" where
  "cm_pick onPick it =
     attempt (seq (update (\<lambda>s. s\<lparr>cm_err := None, cm_picking := Some it\<rparr>)) (lift onPick))
       (\<lambda>e s. s\<lparr>cm_err := Some e\<rparr>) id"

definition cm_row_disabled :: "census_modal \<Rightarrow> bool" where
  "cm_row_disabled s \<longleftrightarrow> cm_picking s \<noteq> None"

section \<open>The lists show every census\<close>

text \<open>
  \<open>GET /censuses\<close> of the census service: the censuses of the caller and, unless only those are
  asked for, the ones the caller is a member of.
\<close>

definition visible :: "(int \<Rightarrow> bool) \<Rightarrow> bool \<Rightarrow> (int \<times> census_item) list \<Rightarrow> (int \<times> census_item) list" where
  "visible member creator_only tbl =
     filter (\<lambda>c. ci_is_creator (snd c) \<or> (\<not> creator_only \<and> member (fst c))) tbl"

definition list_censuses ::
  "(int \<Rightarrow> bool) \<Rightarrow> (int \<times> census_item) list \<Rightarrow> census_query \<Rightarrow> list_out" where
  "list_censuses member tbl q =
     list_before (clamp_censuses (cq_limit q)) (visible member (cq_creator_only q) tbl) (cq_before q)"

definition census_served ::
  "census_env \<Rightarrow> keypair \<Rightarrow> (int \<Rightarrow> bool) \<Rightarrow> (int \<times> census_item) list \<Rightarrow> census_env" where
  "census_served V a member tbl = V\<lparr>ae_account := Some a,
     ce_censuses := (\<lambda>q h. Inr (HOk (list_censuses member tbl q)))\<rparr>"

definition page_items :: "'r keyset_page option \<Rightarrow> 'r list" where
  "page_items p = (case p of None \<Rightarrow> [] | Some q \<Rightarrow> ks_items q)"

lemma page_next_before:
  "page_next (Some (list_before n tbl c)) = (if n < length (newest.rows_from tbl c)
     then Some (fst (newest.rows_from tbl c ! (n - 1))) else None)"
proof (cases "n < length (newest.rows_from tbl c)")
  case True
  then have "newest.rows_from tbl c ! (n - 1) \<in> set (by_id tbl)"
    using nth_mem [of "n - 1" "newest.rows_from tbl c"]
    by (cases c) (auto simp: newest.rows_from_def)
  then have "fst (newest.rows_from tbl c ! (n - 1)) \<noteq> 0" using by_id_range by fastforce
  with True show ?thesis by (simp add: page_next_def list_before_rows truthy_def)
qed (simp add: page_next_def list_before_rows truthy_def)

lemma page_next_truthy: "page_next p = Some c \<Longrightarrow> c \<noteq> 0 \<and> (\<exists>q. p = Some q \<and> ks_next q = Some c)"
  by (auto simp: page_next_def truthy_def split: option.splits if_splits)

definition cl_svc :: "(int \<Rightarrow> bool) \<Rightarrow> (int \<times> census_item) list \<Rightarrow> int option \<Rightarrow> list_out option" where
  "cl_svc member tbl c = Some (list_before 20 (visible member False tbl) c)"

definition cl_ok :: "(int \<Rightarrow> bool) \<Rightarrow> (int \<times> census_item) list \<Rightarrow> census_list \<Rightarrow> bool" where
  "cl_ok member tbl s \<longleftrightarrow> Some 0 \<notin> set (cl_stack s) \<and>
     cl_page s = cl_svc member tbl (last (None # cl_stack s)) \<and>
     cl_before s = ks_next (the (cl_page s))"

lemma cl_load_served:
  "c \<noteq> Some 0 \<Longrightarrow> cl_load (census_served V a member tbl) c s =
    s\<lparr>cl_loading := False, cl_err := None, cl_page := cl_svc member tbl c,
      cl_before := ks_next (the (cl_svc member tbl c))\<rparr>"
  by (simp add: cl_load_def attempt_def cl_load_body_def proc_simps census_served_def list_censuses_def
      cl_svc_def truthy_def clamp_censuses_def CENSUS_PAGE_LIMIT_def)

lemma served_locked [simp]: "ae_locked (census_served V a member tbl) = ae_locked V"
  by (simp add: census_served_def)

lemma top_butlast: "Some z \<notin> set st \<Longrightarrow> top_or_null (butlast st) \<noteq> Some z"
  by (metis in_set_butlastD last_in_set option.distinct(1) top_or_null_def)

lemma last_top: "last (None # st) = top_or_null st"
  by (simp add: top_or_null_def)

interpretation census_pages: keyset_pager "rev (by_id (visible member False tbl))" "\<lambda>c r. fst r < c" fst
    "cl_ok member tbl" "\<lambda>s. None # cl_stack s" cl_page "cl_svc member tbl" page_next
    "cl_onNext (census_served V a member tbl)" "cl_onPrev (census_served V a member tbl)" 20 page_items
  for member tbl V a
proof
  fix s c assume s: "cl_ok member tbl s" "page_next (cl_page s) = Some c"
  then have c: "c \<noteq> 0" "cl_before s = Some c" using page_next_truthy by (fastforce simp: cl_ok_def)+
  then have n: "cl_onNext (census_served V a member tbl) s = s\<lparr>cl_stack := cl_stack s @ [Some c],
      cl_loading := False, cl_err := None, cl_page := cl_svc member tbl (Some c),
      cl_before := ks_next (the (cl_svc member tbl (Some c)))\<rparr>"
    by (simp add: cl_onNext_def cl_load_served)
  show "cl_ok member tbl (cl_onNext (census_served V a member tbl) s) \<and>
      None # cl_stack (cl_onNext (census_served V a member tbl) s) = (None # cl_stack s) @ [Some c]"
    unfolding n using s(1) c(1) by (auto simp: cl_ok_def)
next
  fix s assume s: "cl_ok member tbl s" "1 < length (None # cl_stack s)"
  then have "top_or_null (butlast (cl_stack s)) \<noteq> Some 0" by (simp add: cl_ok_def top_butlast)
  then show "cl_ok member tbl (cl_onPrev (census_served V a member tbl) s) \<and>
      None # cl_stack (cl_onPrev (census_served V a member tbl) s) = butlast (None # cl_stack s)"
    using s by (auto simp: cl_onPrev_def Let_def cl_load_served cl_ok_def last_top [symmetric]
        dest: in_set_butlastD)
next
  show "page_items (cl_svc member tbl c) = take 20 (newest.rows_from (visible member False tbl) c)" for c
    by (simp add: page_items_def cl_svc_def list_before_rows)
  show "page_next (cl_svc member tbl c) = (if 20 < length (newest.rows_from (visible member False tbl) c)
      then Some (fst (newest.rows_from (visible member False tbl) c ! (20 - 1))) else None)" for c
    by (simp add: cl_svc_def page_next_before)
qed (simp_all add: cl_ok_def)

definition cm_svc :: "(int \<Rightarrow> bool) \<Rightarrow> (int \<times> census_item) list \<Rightarrow> int option \<Rightarrow> list_out option" where
  "cm_svc member tbl c = Some (list_before 50 (visible member True tbl) c)"

text \<open>The cursors of the dialog grow older, so that its effect runs at every click.\<close>

definition older :: "int option \<Rightarrow> int option \<Rightarrow> bool" where
  "older x y \<longleftrightarrow> y \<noteq> None \<and> y \<noteq> Some 0 \<and> (x = None \<or> the y < the x)"

definition cm_ok :: "(int \<Rightarrow> bool) \<Rightarrow> (int \<times> census_item) list \<Rightarrow> census_modal \<Rightarrow> bool" where
  "cm_ok member tbl s \<longleftrightarrow> sorted_wrt older (None # cm_stack s) \<and>
     cm_before s = last (None # cm_stack s) \<and> cm_list s = cm_svc member tbl (cm_before s)"

lemma cm_load_served:
  "c \<noteq> Some 0 \<Longrightarrow> cm_load (census_served V a member tbl) c s =
    s\<lparr>cm_loading := False, cm_err := None, cm_list := cm_svc member tbl c\<rparr>"
  by (simp add: cm_load_def attempt_def cm_load_body_def proc_simps census_served_def list_censuses_def
      cm_svc_def truthy_def clamp_censuses_def)

lemma older_trans: "older x y \<Longrightarrow> older y z \<Longrightarrow> older x z"
  by (auto simp: older_def)

lemma sorted_snoc: "sorted_wrt P (xs @ [x]) \<longleftrightarrow> sorted_wrt P xs \<and> (\<forall>y \<in> set xs. P y x)"
  by (simp add: sorted_wrt_append)

lemma older_extend:
  assumes "sorted_wrt older t" "t \<noteq> []" "older (last t) y"
  shows "sorted_wrt older (t @ [y])"
proof -
  have t: "t = butlast t @ [last t]" using assms(2) by simp
  then have "\<forall>x \<in> set (butlast t). older x (last t)" using assms(1) sorted_snoc [of older "butlast t" "last t"] by simp
  then have "\<forall>x \<in> set (butlast t @ [last t]). older x y" using older_trans assms(3) by auto
  with assms(1) t show ?thesis by (simp only: sorted_snoc)
qed

lemma older_next:
  assumes "page_next (Some (list_before n tbl b)) = Some c" "0 < n"
  shows "older b (Some c)"
proof -
  let ?R = "newest.rows_from tbl b"
  have "n < length ?R" "c = fst (?R ! (n - 1))" using assms(1) by (auto simp: page_next_before split: if_splits)
  then have "?R ! (n - 1) \<in> set ?R" "c = fst (?R ! (n - 1))" using assms(2) by simp_all
  then show ?thesis using by_id_range [of "?R ! (n - 1)" tbl]
    by (cases b) (auto simp: newest.rows_from_def older_def)
qed

lemma older_neq: "older x y \<Longrightarrow> y \<noteq> x \<and> y \<noteq> Some 0"
  by (auto simp: older_def)

lemma older_prev:
  assumes "sorted_wrt older (None # st)" "st \<noteq> []"
  shows "sorted_wrt older (None # butlast st)" "last (None # butlast st) \<noteq> last (None # st)"
    "last (None # butlast st) \<noteq> Some 0"
proof -
  let ?t = "None # butlast st"
  have s: "sorted_wrt older ?t" "\<forall>x \<in> set ?t. older x (last st)"
    using assms sorted_snoc [of older ?t "last st"] by simp_all
  then show "sorted_wrt older ?t" by simp
  have m: "last ?t \<in> set ?t" by (rule last_in_set) simp
  with s have "older (last ?t) (last st)" by blast
  then show "last ?t \<noteq> last (None # st)" using assms(2) older_neq by fastforce
  have "Some 0 \<notin> set st" using assms(1) older_neq by auto
  then show "last ?t \<noteq> Some 0" unfolding last_top by (rule top_butlast)
qed

interpretation modal_pages: keyset_pager "rev (by_id (visible member True tbl))" "\<lambda>c r. fst r < c" fst
    "cm_ok member tbl" "\<lambda>s. None # cm_stack s" cm_list "cm_svc member tbl" page_next
    "cm_onNext (census_served V a member tbl)" "cm_onPrev (census_served V a member tbl)" 50 page_items
  for member tbl V a
proof
  fix s c assume s: "cm_ok member tbl s" "page_next (cm_list s) = Some c"
  then have o: "sorted_wrt older (None # cm_stack s @ [Some c])" "Some c \<noteq> cm_before s"
    using older_extend [of "None # cm_stack s"] older_neq older_next [of 50 "visible member True tbl" "cm_before s" c]
    by (auto simp: cm_ok_def cm_svc_def)
  have "Some c \<noteq> Some 0" using s(2) page_next_truthy by blast
  then have n: "cm_onNext (census_served V a member tbl) s = s\<lparr>cm_stack := cm_stack s @ [Some c],
      cm_before := Some c, cm_loading := False, cm_err := None, cm_list := cm_svc member tbl (Some c)\<rparr>"
    using s(2) o(2) by (simp add: cm_onNext_def cm_setBefore_def cm_load_served)
  show "cm_ok member tbl (cm_onNext (census_served V a member tbl) s) \<and>
      None # cm_stack (cm_onNext (census_served V a member tbl) s) = (None # cm_stack s) @ [Some c]"
    unfolding n using s(1) o(1) by (simp add: cm_ok_def)
next
  fix s assume s: "cm_ok member tbl s" "1 < length (None # cm_stack s)"
  let ?st = "butlast (cm_stack s)"
  have o: "sorted_wrt older (None # ?st)" "last (None # ?st) \<noteq> cm_before s" "last (None # ?st) \<noteq> Some 0"
    using older_prev [of "cm_stack s"] s by (auto simp: cm_ok_def)
  then have n: "cm_onPrev (census_served V a member tbl) s = s\<lparr>cm_stack := ?st, cm_before := last (None # ?st),
      cm_loading := False, cm_err := None, cm_list := cm_svc member tbl (last (None # ?st))\<rparr>"
    using s(2) by (simp only: cm_onPrev_def cm_canPrev_def cm_setBefore_def Let_def last_top) (simp add: cm_load_served)
  show "cm_ok member tbl (cm_onPrev (census_served V a member tbl) s) \<and>
      None # cm_stack (cm_onPrev (census_served V a member tbl) s) = butlast (None # cm_stack s)"
    unfolding n using s o(1) by (simp add: cm_ok_def)
next
  show "page_items (cm_svc member tbl c) = take 50 (newest.rows_from (visible member True tbl) c)" for c
    by (simp add: page_items_def cm_svc_def list_before_rows)
  show "page_next (cm_svc member tbl c) = (if 50 < length (newest.rows_from (visible member True tbl) c)
      then Some (fst (newest.rows_from (visible member True tbl) c ! (50 - 1))) else None)" for c
    by (simp add: cm_svc_def page_next_before)
qed (simp_all add: cm_ok_def)

section \<open>A census and its members\<close>

definition MEMBER_PAGE_LIMIT :: nat where "MEMBER_PAGE_LIMIT = 20"

record member_row =
  mr_name :: string
  mr_pub :: "(string \<times> string) option"
  mr_joined :: bool
  mr_invite :: "string option"

record member_page =
  mp_title :: string
  mp_description :: "string option"
  mp_is_creator :: bool
  mp_items :: "(int \<times> member_row) list"
  mp_any_left :: bool

record invite =
  in_member_id :: int
  in_name :: string
  in_token :: string

record member_env = auth_env +
  me_members :: "int \<Rightarrow> nat \<Rightarrow> int option \<Rightarrow> headers option \<Rightarrow> member_page http res"
  me_add :: "int \<Rightarrow> string \<Rightarrow> headers \<Rightarrow> invite http res"
  me_delete :: "int \<Rightarrow> int \<Rightarrow> headers \<Rightarrow> unit http res"
  me_confirm :: "string \<Rightarrow> bool"
  me_cid :: int

record census_detail =
  cd_page :: "member_page option"
  cd_loading :: bool
  cd_err :: "js_error option"
  cd_stack :: "int list"
  cd_addName :: string
  cd_addBusy :: bool
  cd_addErr :: "js_error option"
  cd_addInvite :: "invite option"
  cd_removingId :: "int option"

definition cd_load_body :: "member_env \<Rightarrow> int option \<Rightarrow> (census_detail, unit) proc" where
  "cd_load_body V aft =
     seq (update (\<lambda>s. s\<lparr>cd_loading := True, cd_err := None\<rparr>))
     (bind (fetched (me_members V (me_cid V) MEMBER_PAGE_LIMIT (truthy aft)
              (map_option (auth_headers V) (ae_account V)))) (\<lambda>page.
       update (\<lambda>s. s\<lparr>cd_page := Some page\<rparr>)))"

definition cd_load :: "member_env \<Rightarrow> int option \<Rightarrow> census_detail \<Rightarrow> census_detail" where
  "cd_load V aft = attempt (cd_load_body V aft) (\<lambda>e s. s\<lparr>cd_err := Some e\<rparr>)
     (\<lambda>s. s\<lparr>cd_loading := False\<rparr>)"

definition cd_open :: "member_env \<Rightarrow> census_detail \<Rightarrow> census_detail" where
  "cd_open V s = cd_load V None (s\<lparr>cd_page := None\<rparr>)"

text \<open>Reading the last item of an empty page is a \<open>TypeError\<close>.\<close>

definition cd_next :: "member_env \<Rightarrow> (census_detail, unit) proc" where
  "cd_next V = bind (read cd_page) (\<lambda>p.
     case p of None \<Rightarrow> throw TypeError
     | Some page \<Rightarrow> (case rev (mp_items page) of
           [] \<Rightarrow> throw TypeError
         | r # _ \<Rightarrow> seq (update (\<lambda>s. s\<lparr>cd_stack := cd_stack s @ [fst r]\<rparr>))
                       (update (cd_load V (Some (fst r))))))"

definition top_of :: "int list \<Rightarrow> int option" where
  "top_of s = (if s = [] then None else Some (last s))"

definition cd_prev :: "member_env \<Rightarrow> census_detail \<Rightarrow> census_detail" where
  "cd_prev V s = (let st = butlast (cd_stack s) in cd_load V (top_of st) (s\<lparr>cd_stack := st\<rparr>))"

definition new_member :: "invite \<Rightarrow> int \<times> member_row" where
  "new_member i = (in_member_id i, \<lparr>mr_name = in_name i, mr_pub = None, mr_joined = False,
     mr_invite = Some (in_token i)\<rparr>)"

text \<open>The page object itself is changed: appended to while there is room, else it has a successor.\<close>

definition grow_page :: "invite \<Rightarrow> member_page \<Rightarrow> member_page" where
  "grow_page i p =
     (if length (mp_items p) < MEMBER_PAGE_LIMIT then p\<lparr>mp_items := mp_items p @ [new_member i]\<rparr>
      else if \<not> mp_any_left p then p\<lparr>mp_any_left := True\<rparr> else p)"

definition add_body :: "member_env \<Rightarrow> (census_detail, unit) proc" where
  "add_body V =
     seq (update (\<lambda>s. s\<lparr>cd_addErr := None, cd_addInvite := None, cd_addBusy := True\<rparr>))
    (bind (need (ae_account V) no_account) (\<lambda>acct.
     bind (read (\<lambda>s. trim (cd_addName s))) (\<lambda>name.
     seq (throw_if (name = []) ''Enter a name'')
    (bind (fetched (me_add V (me_cid V) name (auth_headers V acct))) (\<lambda>invite.
     seq (update (\<lambda>s. s\<lparr>cd_addInvite := Some invite, cd_addName := []\<rparr>))
    (bind (read cd_page) (\<lambda>p. case p of
         None \<Rightarrow> throw TypeError
       | Some page \<Rightarrow> update (\<lambda>s. s\<lparr>cd_page := Some (grow_page invite page)\<rparr>))))))))"

definition onAddMember :: "member_env \<Rightarrow> census_detail \<Rightarrow> census_detail" where
  "onAddMember V = attempt (add_body V) (\<lambda>e s. s\<lparr>cd_addErr := Some e\<rparr>) (\<lambda>s. s\<lparr>cd_addBusy := False\<rparr>)"

text \<open>The prompt of the confirmation names the member.\<close>

definition remove_body :: "member_env \<Rightarrow> int \<Rightarrow> string \<Rightarrow> (census_detail, unit) proc" where
  "remove_body V memberId memberName =
     (if \<not> me_confirm V memberName then ret () else
      seq (update (\<lambda>s. s\<lparr>cd_removingId := Some memberId\<rparr>))
     (bind (need (ae_account V) no_account) (\<lambda>acct.
      seq (fetched (me_delete V (me_cid V) memberId (auth_headers V acct)))
     (update (\<lambda>s. case cd_page s of
         Some p \<Rightarrow> (if length (mp_items p) = 1 \<and> fst (hd (mp_items p)) = memberId
                    then cd_prev V s else cd_load V (top_of (cd_stack s)) s)
       | None \<Rightarrow> cd_load V (top_of (cd_stack s)) s)))))"

definition onRemoveMember :: "member_env \<Rightarrow> int \<Rightarrow> string \<Rightarrow> census_detail \<Rightarrow> census_detail" where
  "onRemoveMember V memberId name =
     attempt (remove_body V memberId name) (\<lambda>e s. s\<lparr>cd_err := Some e\<rparr>) (\<lambda>s. s\<lparr>cd_removingId := None\<rparr>)"

text \<open>The link of an invitation, and the state of the button that copies it.\<close>

datatype copy_status = CIdle | CCopied | CError

definition invite_url :: "string \<Rightarrow> int \<Rightarrow> string \<Rightarrow> string" where
  "invite_url origin cid token = origin @ ''/census/'' @ to_string 10 cid @ ''/join/'' @ token"

definition handleCopy :: "unit res \<Rightarrow> copy_status \<Rightarrow> copy_status" where
  "handleCopy clipboard = attempt (seq (lift clipboard) (update (\<lambda>_. CCopied))) (\<lambda>e _. CError) id"

definition copy_timeout :: "copy_status \<Rightarrow> copy_status" where
  "copy_timeout s = (if s = CCopied then CIdle else s)"

section \<open>Creating and joining a census\<close>

record census_form =
  cf_title :: string
  cf_description :: "string option"
  cf_members :: "string list"

definition census_form_valid :: "census_form \<Rightarrow> bool" where
  "census_form_valid d \<longleftrightarrow> 1 \<le> length (cf_title d) \<and> length (cf_title d) \<le> 200 \<and>
     (case cf_description d of None \<Rightarrow> True | Some x \<Rightarrow> length x \<le> 2000) \<and>
     list_all (\<lambda>m. 1 \<le> length m) (cf_members d)"

text \<open>The body of the request: blank descriptions become \<open>null\<close>, blank members are dropped.\<close>

definition census_body :: "census_form \<Rightarrow> census_form" where
  "census_body d = \<lparr>cf_title = trim (cf_title d),
     cf_description = (case cf_description d of None \<Rightarrow> None
        | Some x \<Rightarrow> if trim x = [] then None else Some (trim x)),
     cf_members = filter (\<lambda>m. m \<noteq> []) (map trim (cf_members d))\<rparr>"

record ccreate_env = auth_env +
  cc_post :: "census_form \<Rightarrow> headers \<Rightarrow> int http res"

record ccreate_page =
  cc_err :: "js_error option"
  cc_stage :: "nat option"
  cc_nav :: "int option"

definition census_submit_body :: "ccreate_env \<Rightarrow> census_form \<Rightarrow> (ccreate_page, unit) proc" where
  "census_submit_body V d =
     seq (update (\<lambda>s. s\<lparr>cc_err := None, cc_stage := Some 0\<rparr>))
    (bind (need (if ae_locked V then None else ae_account V) no_account) (\<lambda>acct.
     seq (update (\<lambda>s. s\<lparr>cc_stage := Some 1\<rparr>))
    (bind (lift (cc_post V (census_body d) (auth_headers V acct))) (\<lambda>r.
     bind (case r of HErr t \<Rightarrow> throw (Thrown (''create failed: '' @ t)) | HOk c \<Rightarrow> ret c) (\<lambda>cid.
       update (\<lambda>s. s\<lparr>cc_stage := Some 2, cc_nav := Some cid\<rparr>))))))"

definition census_onSubmit :: "ccreate_env \<Rightarrow> census_form \<Rightarrow> ccreate_page \<Rightarrow> ccreate_page" where
  "census_onSubmit V d = attempt (census_submit_body V d) (\<lambda>e s. s\<lparr>cc_err := Some e\<rparr>) id"

definition census_canSubmit :: "('e) auth_env_scheme \<Rightarrow> bool" where
  "census_canSubmit V \<longleftrightarrow> \<not> ae_locked V \<and> ae_account V \<noteq> None"

definition census_disabled :: "('e) auth_env_scheme \<Rightarrow> census_form \<Rightarrow> bool \<Rightarrow> bool" where
  "census_disabled V d isSubmitting \<longleftrightarrow> \<not> census_form_valid d \<or> \<not> census_canSubmit V \<or> isSubmitting"

datatype join_stage = JNone | JChecking | JSigning | JSubmitting | JJoined

record preflight =
  pre_member_id :: int
  pre_name :: string
  pre_census_title :: string

record join_env = auth_env +
  je_preflight :: "int \<Rightarrow> string \<Rightarrow> preflight http res"
  je_claim :: "int \<Rightarrow> int \<Rightarrow> string \<Rightarrow> headers \<Rightarrow> unit http res"
  je_cid :: int
  je_token :: string

record join_page =
  jp_pf :: "preflight option"
  jp_stage :: join_stage
  jp_err :: "js_error option"
  jp_nav :: bool

definition join_check :: "join_env \<Rightarrow> join_page \<Rightarrow> join_page" where
  "join_check V = attempt
     (seq (update (\<lambda>s. s\<lparr>jp_stage := JChecking\<rparr>))
      (bind (fetched (je_preflight V (je_cid V) (je_token V))) (\<lambda>j.
        update (\<lambda>s. s\<lparr>jp_pf := Some j, jp_stage := JNone\<rparr>))))
     (\<lambda>e s. s\<lparr>jp_err := Some e\<rparr>) id"

definition bind_body :: "join_env \<Rightarrow> (join_page, unit) proc" where
  "bind_body V =
     seq (update (\<lambda>s. s\<lparr>jp_err := None, jp_stage := JSigning\<rparr>))
    (bind (case ae_account V of None \<Rightarrow> throw TypeError | Some a \<Rightarrow> ret a) (\<lambda>acct.
     seq (update (\<lambda>s. s\<lparr>jp_stage := JSubmitting\<rparr>))
    (bind (read jp_pf) (\<lambda>pf. case pf of None \<Rightarrow> throw TypeError
       | Some p \<Rightarrow> seq (fetched (je_claim V (je_cid V) (pre_member_id p) (je_token V) (auth_headers V acct)))
           (update (\<lambda>s. s\<lparr>jp_stage := JJoined, jp_nav := True\<rparr>))))))"

definition onBind :: "join_env \<Rightarrow> join_page \<Rightarrow> join_page" where
  "onBind V = attempt (bind_body V) (\<lambda>e s. s\<lparr>jp_err := Some e, jp_stage := JNone\<rparr>) id"

definition join_disabled :: "join_env \<Rightarrow> join_page \<Rightarrow> bool" where
  "join_disabled V s \<longleftrightarrow> ae_locked V \<or> ae_account V = None \<or> jp_stage s \<noteq> JNone"

end
