(* ===== verification/CensusCorrect.thy ===== *)
theory CensusCorrect
  imports CensusPages
begin

text \<open>
  The lists of censuses and of members show every row of the service exactly once, newest or
  oldest first; a page that failed to load leaves the list of censuses out of step.
\<close>

section \<open>The members of a census\<close>

text \<open>\<open>GET /census/{id}/members\<close> for a caller who may read the census.\<close>

definition list_members ::
  "member_page \<Rightarrow> (int \<times> member_row) list \<Rightarrow> nat \<Rightarrow> int option \<Rightarrow> member_page" where
  "list_members head tbl limit aft =
     (let r = list_after (clamp_censuses (Some (int limit))) tbl aft
      in head\<lparr>mp_items := fst r, mp_any_left := snd r\<rparr>)"

definition members_served :: "member_env \<Rightarrow> member_page \<Rightarrow> (int \<times> member_row) list \<Rightarrow> member_env" where
  "members_served V head tbl = V\<lparr>me_members := (\<lambda>cid limit aft h. Inr (HOk (list_members head tbl limit aft)))\<rparr>"

definition cd_svc :: "member_page \<Rightarrow> (int \<times> member_row) list \<Rightarrow> int option \<Rightarrow> member_page option" where
  "cd_svc head tbl aft = Some (list_members head tbl 20 aft)"

definition member_items :: "member_page option \<Rightarrow> (int \<times> member_row) list" where
  "member_items p = (case p of None \<Rightarrow> [] | Some q \<Rightarrow> mp_items q)"

text \<open>The button is enabled when rows are left; the cursor is the last row shown.\<close>

definition member_next :: "member_page option \<Rightarrow> int option" where
  "member_next p = (case p of None \<Rightarrow> None
     | Some q \<Rightarrow> if mp_any_left q \<and> mp_items q \<noteq> [] then Some (fst (last (mp_items q))) else None)"

definition cd_ok :: "member_page \<Rightarrow> (int \<times> member_row) list \<Rightarrow> census_detail \<Rightarrow> bool" where
  "cd_ok head tbl s \<longleftrightarrow> cd_page s = cd_svc head tbl (last (None # map Some (cd_stack s)))"

lemma members_truthy: "cd_svc head tbl (truthy c) = cd_svc head tbl c"
proof -
  have "oldest.rows_from tbl None = oldest.rows_from tbl (Some 0)"
    using by_id_range [of _ tbl] by (auto simp: oldest.rows_from_def filter_id_conv dest!: by_id_range)
  then show ?thesis by (simp add: cd_svc_def list_members_def list_after_rows truthy_def)
qed

lemma cd_load_served:
  "cd_load (members_served V head tbl) c s =
    s\<lparr>cd_loading := False, cd_err := None, cd_page := cd_svc head tbl c\<rparr>"
proof -
  have "me_members (members_served V head tbl) i MEMBER_PAGE_LIMIT (truthy c) h = Inr (HOk (the (cd_svc head tbl c)))" for i h
    using members_truthy [of head tbl c] by (simp add: members_served_def cd_svc_def MEMBER_PAGE_LIMIT_def)
  then show ?thesis
    by (simp add: cd_load_def attempt_def cd_load_body_def proc_simps) (simp add: cd_svc_def)
qed

lemma cd_svc_rows:
  "member_items (cd_svc head tbl c) = take 20 (oldest.rows_from tbl c)"
  "member_next (cd_svc head tbl c) = (if 20 < length (oldest.rows_from tbl c)
     then Some (fst (oldest.rows_from tbl c ! (20 - 1))) else None)"
proof -
  show i: "member_items (cd_svc head tbl c) = take 20 (oldest.rows_from tbl c)"
    by (simp add: cd_svc_def member_items_def list_members_def list_after_rows clamp_censuses_def Let_def)
  have "last (take 20 xs) = xs ! 19" "xs \<noteq> []" if "20 < length xs" for xs :: "(int \<times> member_row) list"
  proof -
    show "xs \<noteq> []" using that by auto
    then have ne: "take 20 xs \<noteq> []" by simp
    show "last (take 20 xs) = xs ! 19" using that by (subst last_conv_nth [OF ne]) simp
  qed
  then show "member_next (cd_svc head tbl c) = (if 20 < length (oldest.rows_from tbl c)
     then Some (fst (oldest.rows_from tbl c ! (20 - 1))) else None)"
    by (simp add: cd_svc_def member_next_def list_members_def list_after_rows clamp_censuses_def Let_def)
qed

lemma cd_next_run:
  assumes "member_next (cd_page s) = Some c"
  shows "run_proc (cd_next V) s = cd_load V (Some c) (s\<lparr>cd_stack := cd_stack s @ [c]\<rparr>)"
proof -
  obtain p where p: "cd_page s = Some p" "mp_items p \<noteq> []" "fst (last (mp_items p)) = c"
    using assms by (auto simp: member_next_def split: option.splits if_splits)
  then obtain ys r where "mp_items p = ys @ [r]" "fst r = c" by (metis append_butlast_last_id)
  then show ?thesis using p by (simp add: cd_next_def run_proc_def proc_simps)
qed

interpretation member_pages: keyset_pager "by_id tbl" "\<lambda>c r. c < fst r" fst "cd_ok head tbl"
    "\<lambda>s. None # map Some (cd_stack s)" cd_page "cd_svc head tbl" member_next
    "run_proc (cd_next (members_served V head tbl))" "cd_prev (members_served V head tbl)" 20 member_items
  for head tbl V
proof
  fix s c assume "cd_ok head tbl s" "member_next (cd_page s) = Some c"
  then show "cd_ok head tbl (run_proc (cd_next (members_served V head tbl)) s) \<and>
      None # map Some (cd_stack (run_proc (cd_next (members_served V head tbl)) s)) =
      (None # map Some (cd_stack s)) @ [Some c]"
    by (simp add: cd_next_run cd_load_served cd_ok_def)
next
  fix s assume "cd_ok head tbl s" "1 < length (None # map Some (cd_stack s))"
  moreover have "last (None # map Some (butlast (cd_stack s))) = top_of (butlast (cd_stack s))"
    by (simp add: top_of_def last_map)
  ultimately show "cd_ok head tbl (cd_prev (members_served V head tbl) s) \<and>
      None # map Some (cd_stack (cd_prev (members_served V head tbl) s)) = butlast (None # map Some (cd_stack s))"
    by (simp add: cd_prev_def Let_def cd_load_served cd_ok_def map_butlast)
qed (simp_all add: cd_ok_def cd_svc_rows)

section \<open>Properties\<close>

text \<open>
  After the list of censuses is opened, \<open>k\<close> clicks on Next followed by \<open>j\<close> on Prev show the
  page \<open>k - j\<close> of the censuses that the caller created or belongs to, newest first, twenty at a
  time, and Next is enabled exactly when a census is left.
\<close>

theorem census_list_shows_page:
  assumes "\<not> ae_locked V" "k = 0 \<or> k * 20 < length (by_id (visible member False tbl))" "j \<le> k"
  shows "let W = census_served V a member tbl; L = rev (by_id (visible member False tbl));
      s = (cl_onPrev W ^^ j) ((cl_onNext W ^^ k) (cl_open W s0)) in
    page_items (cl_page s) = take 20 (drop ((k - j) * 20) L) \<and>
    (cl_canNext s \<longleftrightarrow> Suc (k - j) * 20 < length L)"
proof -
  have o: "cl_ok member tbl (cl_open (census_served V a member tbl) s0)"
      "None # cl_stack (cl_open (census_served V a member tbl) s0) = [None]"
    using assms(1) by (simp_all add: cl_open_def Let_def cl_ok_def cl_load_served)
  show ?thesis unfolding Let_def cl_canNext_def
    using census_pages.page_shown [OF o, of k j V a] assms(2,3) by (simp only: length_rev)
qed

definition item0 :: census_item where
  "item0 = \<lparr>ci_title = ''t'', ci_description = None, ci_is_creator = True\<rparr>"

definition table0 :: "(int \<times> census_item) list" where
  "table0 = map (\<lambda>i. (int i, item0)) [1..<26]"

definition list_env0 :: census_env where
  "list_env0 = \<lparr>ae_P = sum_hash, ae_sign = (\<lambda>prv m. ((1, 1), m)), ae_now = 0, ae_account = None,
     ae_locked = False, ce_censuses = (\<lambda>q h. Inl TypeError)\<rparr>"

definition list0 :: census_list where
  "list0 = \<lparr>cl_page = None, cl_loading = False, cl_err = None, cl_stack = [], cl_before = None\<rparr>"

lemma table0_ids: "map fst (by_id (visible (\<lambda>_. False) False table0)) = map int [1..<26]"
  by code_simp

theorem census_list_shows_page_witness:
  "let W = census_served list_env0 the_voter (\<lambda>_. False) table0; s = cl_onNext W (cl_open W list0) in
    map fst (page_items (cl_page s)) = [5, 4, 3, 2, 1] \<and> \<not> cl_canNext s"
proof -
  let ?T = "by_id (visible (\<lambda>_. False) False table0)"
  let ?W = "census_served list_env0 the_voter (\<lambda>_. False) table0"
  let ?s = "cl_onNext ?W (cl_open ?W list0)"
  have l: "length ?T = 25" using arg_cong [OF table0_ids, of length] by simp
  have "\<not> ae_locked list_env0" by (simp add: list_env0_def)
  from census_list_shows_page [OF this, of 1 "\<lambda>_. False" table0 0 the_voter list0]
  have s: "page_items (cl_page ?s) = take 20 (drop 20 (rev ?T)) \<and> \<not> cl_canNext ?s"
    by (simp add: l Let_def)
  have "map fst (take 20 (drop 20 (rev ?T))) = take 20 (drop 20 (rev (map int [1..<26])))"
    by (simp only: take_map drop_map rev_map flip: table0_ids)
  also have "\<dots> = [5, 4, 3, 2, 1]" by code_simp
  finally show ?thesis using s by simp
qed

text \<open>
  Clicking Next while it is enabled shows every member of a census exactly once, in the
  order of their ids: the pages, joined, are the table.
\<close>

theorem member_pages_show_every_member:
  assumes "0 < m" "(m - 1) * 20 < length (by_id tbl) \<or> m = 1" "length (by_id tbl) \<le> m * 20"
  shows "let W = members_served V head tbl; s = (\<lambda>k. (run_proc (cd_next W) ^^ k) (cd_open W s0)) in
    cd_stack s0 = [] \<longrightarrow> concat (map (\<lambda>k. member_items (cd_page (s k))) [0..<m]) = by_id tbl"
proof -
  have o: "cd_ok head tbl (cd_open (members_served V head tbl) s0)"
      "None # map Some (cd_stack (cd_open (members_served V head tbl) s0)) = [None]" if "cd_stack s0 = []"
    using that by (simp_all add: cd_open_def cd_load_served cd_ok_def)
  show ?thesis unfolding Let_def using member_pages.pages_cover [OF o assms] by blast
qed

definition head0 :: member_page where
  "head0 = \<lparr>mp_title = ''c'', mp_description = None, mp_is_creator = True, mp_items = [], mp_any_left = False\<rparr>"

definition member_env0 :: member_env where
  "member_env0 = \<lparr>ae_P = sum_hash, ae_sign = (\<lambda>prv m. ((1, 1), m)), ae_now = 0, ae_account = Some the_voter,
     ae_locked = False, me_members = (\<lambda>c l a h. Inl TypeError), me_add = (\<lambda>c n h. Inl TypeError),
     me_delete = (\<lambda>c i h. Inl TypeError), me_confirm = (\<lambda>n. True), me_cid = 1\<rparr>"

definition detail0 :: census_detail where
  "detail0 = \<lparr>cd_page = None, cd_loading = False, cd_err = None, cd_stack = [], cd_addName = [],
     cd_addBusy = False, cd_addErr = None, cd_addInvite = None, cd_removingId = None\<rparr>"

definition members0 :: "(int \<times> member_row) list" where
  "members0 = map (\<lambda>i. (int i, \<lparr>mr_name = [], mr_pub = None, mr_joined = False, mr_invite = None\<rparr>)) [1..<26]"

lemma members0_ids: "map fst (by_id members0) = map int [1..<26]"
  by code_simp

theorem member_pages_show_every_member_witness:
  "let W = members_served member_env0 head0 members0; s = cd_open W detail0 in
    map fst (member_items (cd_page s) @ member_items (cd_page (run_proc (cd_next W) s))) = map int [1..<26]"
proof -
  have l: "length (by_id members0) = 25" using arg_cong [OF members0_ids, of length] by simp
  have "[0..<2] = [0, Suc 0]" by (simp add: eval_nat_numeral)
  moreover have "cd_stack detail0 = []" by (simp add: detail0_def)
  ultimately show ?thesis
    using member_pages_show_every_member [where m = 2 and tbl = members0 and V = member_env0 and head = head0 and ?s0.0 = detail0]
    by (simp add: l Let_def members0_ids del: map_append)
qed

text \<open>
  The list of censuses after a page failed to load. The old page stays, with the error and
  the cursor already pushed; trying Next again then shows the next page, but Prev from it
  shows that same page once more instead of the one before.
\<close>

theorem failed_next_repeats_page:
  assumes "cl_ok member tbl s" "cl_canNext s"
    and "ae_account V = Some a" "\<forall>q h. ce_censuses V q h = Inl e"
  shows "let W = census_served V a member tbl; t = cl_onNext V s; u = cl_onNext W t; p = cl_onPrev W u in
    cl_page t = cl_page s \<and> cl_err t = Some e \<and> length (cl_stack t) = Suc (length (cl_stack s)) \<and>
    cl_page u = cl_page (cl_onNext W s) \<and> cl_page p = cl_page u"
proof -
  obtain c where c: "page_next (cl_page s) = Some c" using assms(2) by (auto simp: cl_canNext_def)
  then have b: "c \<noteq> 0" "cl_before s = Some c"
    using page_next_truthy assms(1) by (fastforce simp: cl_ok_def)+
  have t: "cl_onNext V s = s\<lparr>cl_stack := cl_stack s @ [Some c], cl_loading := False, cl_err := Some e\<rparr>"
    using assms(3,4) b by (simp add: cl_onNext_def cl_load_def attempt_def cl_load_body_def proc_simps)
  show ?thesis
    using b by (simp add: Let_def t) (simp add: cl_onNext_def cl_onPrev_def cl_load_served top_or_null_def Let_def butlast_append)
qed

theorem failed_next_repeats_page_witness:
  "let V = list_env0\<lparr>ae_account := Some the_voter\<rparr>; W = census_served V the_voter (\<lambda>_. False) table0;
     u = cl_onNext W (cl_onNext V (cl_open W list0)) in cl_page (cl_onPrev W u) = cl_page u"
proof -
  let ?V = "list_env0\<lparr>ae_account := Some the_voter\<rparr>"
  let ?W = "census_served ?V the_voter (\<lambda>_. False) table0"
  have l: "length (by_id (visible (\<lambda>_. False) False table0)) = 25"
    using arg_cong [OF table0_ids, of length] by simp
  have o: "cl_ok (\<lambda>_. False) table0 (cl_open ?W list0)" "None # cl_stack (cl_open ?W list0) = [None]"
    by (simp_all add: cl_open_def Let_def cl_ok_def cl_load_served list_env0_def)
  have "cl_canNext (cl_open ?W list0)"
    using census_pages.page_shown(2) [OF o, of 0 0] by (simp add: l cl_canNext_def)
  from failed_next_repeats_page [OF o(1) this, of ?V the_voter TypeError] show ?thesis
    by (simp add: list_env0_def Let_def)
qed

end
