(* ===== verification/Ui.thy ===== *)
theory Ui
  imports Proc "HOL-Library.Word"
begin

text \<open>
  What a component renders, and what a user can do with it. The markup of a component is a value
  of type \<open>ui\<close> that keeps the texts, the controls with the condition under which they are
  enabled and their handlers, the conditions under which a part is shown, and those classes that
  depend on the state; elements and classes that are always the same are left out. A handler is
  a constructor of the component's own type of events. Shared components:
  \<open>components/StepperCard.tsx\<close>, \<open>ErrorBox.tsx\<close>, \<open>ConnectSolana.tsx\<close>, \<open>UnlockToView.tsx\<close>,
  \<open>Help.tsx\<close> and \<open>btn.ts\<close>.
\<close>

section \<open>Rendered components\<close>

text \<open>\<open>Label k\<close> is \<open>t(k)\<close>; \<open>Click b e us\<close> a button, enabled if \<open>b\<close>; \<open>Pick b e us\<close> a radio
  button or check box, checked if \<open>b\<close>; \<open>Field s f\<close> a field of value \<open>s\<close> that sends \<open>f x\<close> when
  it is changed to \<open>x\<close>; \<open>Upload f\<close> a field for a file; \<open>Err\<close> the text of an error.\<close>

datatype 'e ui =
    Words string
  | Label string
  | Err js_error
  | Group "'e ui list"
  | Styled string "'e ui list"
  | Click bool 'e "'e ui list"
  | Pick bool 'e "'e ui list"
  | Field string "string \<Rightarrow> 'e"
  | Upload "8 word list \<Rightarrow> 'e"
  | Link string "'e ui list"

text \<open>\<open>b && u\<close>\<close>

definition shown_if :: "bool \<Rightarrow> 'e ui list \<Rightarrow> 'e ui list" where
  "shown_if b us = (if b then us else [])"

text \<open>The events that the user can cause: an enabled button among them, but not a disabled one.\<close>

fun offers :: "'e \<Rightarrow> 'e ui \<Rightarrow> bool" where
  "offers e (Words s) \<longleftrightarrow> False"
| "offers e (Label s) \<longleftrightarrow> False"
| "offers e (Err x) \<longleftrightarrow> False"
| "offers e (Group us) \<longleftrightarrow> list_ex (offers e) us"
| "offers e (Styled c us) \<longleftrightarrow> list_ex (offers e) us"
| "offers e (Click b f us) \<longleftrightarrow> b \<and> e = f"
| "offers e (Pick b f us) \<longleftrightarrow> e = f"
| "offers e (Field s f) \<longleftrightarrow> (\<exists>x. e = f x)"
| "offers e (Upload f) \<longleftrightarrow> (\<exists>bs. e = f bs)"
| "offers e (Link h us) \<longleftrightarrow> False"

text \<open>The texts that are shown.\<close>

fun displays :: "string \<Rightarrow> 'e ui \<Rightarrow> bool" where
  "displays k (Words s) \<longleftrightarrow> False"
| "displays k (Label s) \<longleftrightarrow> k = s"
| "displays k (Err x) \<longleftrightarrow> False"
| "displays k (Group us) \<longleftrightarrow> list_ex (displays k) us"
| "displays k (Styled c us) \<longleftrightarrow> list_ex (displays k) us"
| "displays k (Click b f us) \<longleftrightarrow> list_ex (displays k) us"
| "displays k (Pick b f us) \<longleftrightarrow> list_ex (displays k) us"
| "displays k (Field s f) \<longleftrightarrow> False"
| "displays k (Upload f) \<longleftrightarrow> False"
| "displays k (Link h us) \<longleftrightarrow> list_ex (displays k) us"

lemma list_ex_when [simp]: "list_ex P (shown_if b us) \<longleftrightarrow> b \<and> list_ex P us"
  by (simp add: shown_if_def)

text \<open>A component inside another: its events are sent through \<open>f\<close>.\<close>

lemma offers_map_ui: "offers e (map_ui f u) \<longleftrightarrow> (\<exists>e'. e = f e' \<and> offers e' u)"
  by (induction u) (auto simp: list_ex_iff)

lemma displays_map_ui [simp]: "displays k (map_ui f u) = displays k u"
  by (induction u) (auto simp: list_ex_iff)

lemma list_ex_upt [simp]: "list_ex P (map f [0..<n]) \<longleftrightarrow> (\<exists>i<n. P (f i))"
  by (auto simp: list_ex_iff)

lemma list_ex_map [simp]: "list_ex P (map f xs) \<longleftrightarrow> (\<exists>x \<in> set xs. P (f x))"
  by (auto simp: list_ex_iff)

section \<open>Shared components\<close>

definition ErrorBox :: "'e ui \<Rightarrow> 'e ui" where
  "ErrorBox text = Group [text]"

definition err_box :: "js_error option \<Rightarrow> 'e ui list" where
  "err_box err = (case err of None \<Rightarrow> [] | Some e \<Rightarrow> [ErrorBox (Err e)])"

lemma err_box_offers [simp]: "\<not> list_ex (offers e) (err_box err)"
  by (simp add: err_box_def ErrorBox_def split: option.splits)

definition ConnectSolana :: "'w option \<Rightarrow> 'e ui" where
  "ConnectSolana publicKey = Group (shown_if (publicKey = None) [Label ''connect_solana''])"

definition UnlockToView :: "'e ui" where
  "UnlockToView = Group [Label ''unlock_to_view'']"

text \<open>\<open>Help\<close> opens and closes itself; it has no handler of its user.\<close>

definition Help :: "bool \<Rightarrow> 'e \<Rightarrow> 'e ui list \<Rightarrow> 'e ui" where
  "Help is_open toggle content = Group (Click True toggle [Words ''?''] # shown_if is_open content)"

definition btn :: "bool \<Rightarrow> string" where
  "btn enabled = (if enabled
     then ''bg-neutral-900 dark:bg-neutral-900 border dark:border-gray-300 hover:bg-neutral-700 dark:hover:bg-neutral-800''
     else ''bg-gray-300 dark:bg-gray-500 cursor-not-allowed'')"

text \<open>The two buttons under a list.\<close>

definition prev_next :: "bool \<Rightarrow> 'e \<Rightarrow> bool \<Rightarrow> 'e \<Rightarrow> 'e ui list" where
  "prev_next canPrev prev canNext nxt = [Click canPrev prev [Label ''pagination.prev''],
     Click canNext nxt [Label ''pagination.next'']]"

text \<open>\<open>errors f\<close> is the message that react-hook-form has for a field.\<close>

definition form_error :: "string \<Rightarrow> (string \<Rightarrow> string option) \<Rightarrow> string \<Rightarrow> 'e ui list" where
  "form_error prefix errors field = (case errors field of None \<Rightarrow> [] | Some m \<Rightarrow> [Label (prefix @ m)])"

section \<open>The progress bar\<close>

datatype step_state = Todo | Done | StepActive | StepError

text \<open>\<open>keys.findIndex\<close>, minus one when nothing is found.\<close>

definition find_index :: "'k \<Rightarrow> 'k list \<Rightarrow> int" where
  "find_index k ks = (case List.find (\<lambda>i. ks ! i = k) [0..<length ks] of None \<Rightarrow> -1 | Some i \<Rightarrow> int i)"

definition stateForIndex :: "'k list \<Rightarrow> 'k option \<Rightarrow> 'k option \<Rightarrow> bool \<Rightarrow> nat \<Rightarrow> step_state" where
  "stateForIndex steps currentKey finalKey failed i =
     (let currentIdx = (case currentKey of None \<Rightarrow> -1 | Some k \<Rightarrow> find_index k steps) in
      if failed \<and> currentKey = Some (steps ! i) then StepError
      else if currentIdx < 0 then Todo
      else if int i < currentIdx then Done
      else if int i = currentIdx then
        (if i = length steps - 1 \<or> (finalKey \<noteq> None \<and> currentKey = finalKey) then Done else StepActive)
      else Todo)"

definition step_class :: "step_state \<Rightarrow> string" where
  "step_class st = (case st of
     Done \<Rightarrow> ''bg-green-500/70''
   | StepActive \<Rightarrow> ''bg-purple-500/80 animate-pulse''
   | StepError \<Rightarrow> ''bg-red-500/70''
   | Todo \<Rightarrow> ''bg-neutral-200 dark:bg-neutral-800'')"

definition StepperCard ::
  "('k \<times> 'e ui option) list \<Rightarrow> 'k option \<Rightarrow> 'k option \<Rightarrow> 'e ui option \<Rightarrow> 'e ui \<Rightarrow> 'e ui" where
  "StepperCard steps currentKey finalKey errorText action = Group ([action]
     @ map (\<lambda>i. Group (Styled (step_class (stateForIndex (map fst steps) currentKey finalKey (errorText \<noteq> None) i)) []
           # (case snd (steps ! i) of None \<Rightarrow> [] | Some label \<Rightarrow> [label]))) [0..<length steps]
     @ (case errorText of None \<Rightarrow> [] | Some text \<Rightarrow> [ErrorBox text]))"

text \<open>The steps and the error are texts: the only events of a card are those of its action.\<close>

definition inert :: "'e ui option \<Rightarrow> bool" where
  "inert u \<longleftrightarrow> (case u of None \<Rightarrow> True | Some v \<Rightarrow> \<forall>e. \<not> offers e v)"

lemma inert_simps [simp]: "inert None" "inert (Some (Label k))" "inert (Some (Words s))" "inert (Some (Err x))"
  by (simp_all add: inert_def)

lemma offers_stepper:
  assumes "list_all (\<lambda>s. inert (snd s)) steps" "inert text"
  shows "offers e (StepperCard steps cur fin text action) \<longleftrightarrow> offers e action"
proof -
  have "\<not> list_ex (offers e) (case snd (steps ! i) of None \<Rightarrow> [] | Some label \<Rightarrow> [label])" if "i < length steps" for i
    using assms(1) that by (auto simp: list_all_length inert_def split: option.splits)
  moreover have "\<not> list_ex (offers e) (case text of None \<Rightarrow> [] | Some t \<Rightarrow> [ErrorBox t])"
    using assms(2) by (auto simp: inert_def ErrorBox_def split: option.splits)
  ultimately show ?thesis by (auto simp: StepperCard_def list_ex_iff)
qed

lemma form_error_offers [simp]: "\<not> list_ex (offers e) (form_error pre errors f)"
  by (simp add: form_error_def split: option.splits)

lemma offers_connect [simp]: "\<not> offers e (ConnectSolana w)" "\<not> offers e UnlockToView"
  by (simp_all add: ConnectSolana_def UnlockToView_def)

lemma shows_stepper: "displays k action \<Longrightarrow> displays k (StepperCard steps cur fin text action)"
  by (simp add: StepperCard_def)

end
