(* ===== verification/PollPages.thy ===== *)
theory PollPages
  imports CensusPages Ui "HOL-Library.Product_Lexorder"
begin

text \<open>
  The pages of the polls: the list with its filters (\<open>pages/PollListPage.tsx\<close>), a poll with its
  clock, tabs and results (\<open>pages/PollDetailPage.tsx\<close>), and the label of a poll's status
  (\<open>components/PollStatus.tsx\<close>). The indexer answers through the environment.
\<close>

section \<open>The list of polls\<close>

datatype role = AllRoles | Voter | Tallier
datatype status_filter = AllStatuses | Active | Upcoming | Ended

record poll_item =
  pi_poll_id :: string
  pi_start :: int
  pi_end :: int
  pi_title :: string
  pi_choices :: "string list"

type_synonym poll_page = "(int \<times> poll_item) keyset_page"

definition POLLS_PAGE_LIMIT :: int where "POLLS_PAGE_LIMIT = 20"

record poll_query =
  pq_limit :: "int option"
  pq_role :: "string option"
  pq_tallier :: "string option"
  pq_voter_leaf :: "string option"
  pq_status :: "string option"
  pq_before :: "int option"

record polls_env = auth_env +
  po_polls :: "poll_query \<Rightarrow> poll_page http res"

record poll_list =
  pl_role :: role
  pl_status :: status_filter
  pl_page :: "poll_page option"
  pl_loading :: bool
  pl_err :: "js_error option"
  pl_before :: "int option"
  pl_stack :: "int option list"

definition hex64 :: "int \<Rightarrow> string" where
  "hex64 n = padStart 64 (CHR ''0'') (to_string 16 n)"

definition status_param :: "status_filter \<Rightarrow> string option" where
  "status_param st = (case st of AllStatuses \<Rightarrow> None | Active \<Rightarrow> Some ''Active''
     | Upcoming \<Rightarrow> Some ''Upcoming'' | Ended \<Rightarrow> Some ''Ended'')"

text \<open>The digits of \<open>toString(16)\<close> are lower case already.\<close>

definition polls_query :: "hash \<Rightarrow> keypair \<Rightarrow> role \<Rightarrow> status_filter \<Rightarrow> int option \<Rightarrow> poll_query" where
  "polls_query P acc r st before =
     \<lparr>pq_limit = Some POLLS_PAGE_LIMIT,
      pq_role = (case r of AllRoles \<Rightarrow> None | Voter \<Rightarrow> Some ''voter'' | Tallier \<Rightarrow> Some ''tallier''),
      pq_tallier = (if r = Tallier \<or> r = AllRoles
        then Some (hex64 (fst (kp_pub acc)) @ hex64 (snd (kp_pub acc))) else None),
      pq_voter_leaf = (if r = Voter \<or> r = AllRoles then Some (keyToLeafHex P (kp_pub acc)) else None),
      pq_status = status_param st, pq_before = truthy before\<rparr>"

definition pl_load_body :: "polls_env \<Rightarrow> (poll_list, unit) proc" where
  "pl_load_body V =
     seq (update (\<lambda>s. s\<lparr>pl_err := None, pl_loading := True\<rparr>))
      (case ae_account V of
         None \<Rightarrow> update (\<lambda>s. s\<lparr>pl_page := None\<rparr>)
       | Some acc \<Rightarrow>
           bind (read (\<lambda>s. polls_query (ae_P V) acc (pl_role s) (pl_status s) (pl_before s))) (\<lambda>q.
           bind (fetched (po_polls V q)) (\<lambda>p.
             update (\<lambda>s. s\<lparr>pl_page := Some p\<rparr>))))"

definition pl_load :: "polls_env \<Rightarrow> poll_list \<Rightarrow> poll_list" where
  "pl_load V = attempt (pl_load_body V) (\<lambda>e s. s\<lparr>pl_err := Some e\<rparr>) (\<lambda>s. s\<lparr>pl_loading := False\<rparr>)"

text \<open>The effect: it loads again when the filters or the cursor have changed.\<close>

definition pl_effect :: "polls_env \<Rightarrow> (poll_list \<Rightarrow> poll_list) \<Rightarrow> poll_list \<Rightarrow> poll_list" where
  "pl_effect V f s = (let s' = f s in
     if ae_locked V \<or> (pl_role s', pl_status s', pl_before s') = (pl_role s, pl_status s, pl_before s)
     then s' else pl_load V s')"

definition pl_open :: "polls_env \<Rightarrow> poll_list \<Rightarrow> poll_list" where
  "pl_open V s = (if ae_locked V then s else pl_load V s)"

definition pl_canNext :: "poll_list \<Rightarrow> bool" where
  "pl_canNext s \<longleftrightarrow> page_next (pl_page s) \<noteq> None"

definition pl_canPrev :: "poll_list \<Rightarrow> bool" where
  "pl_canPrev s \<longleftrightarrow> pl_stack s \<noteq> []"

text \<open>\<open>next\<close> is enabled only on a page; \<open>prev\<close> only with a cursor on the stack.\<close>

definition pl_next :: "polls_env \<Rightarrow> poll_list \<Rightarrow> poll_list" where
  "pl_next V s = (case pl_page s of
       None \<Rightarrow> s\<lparr>pl_stack := pl_stack s @ [pl_before s]\<rparr>
     | Some p \<Rightarrow> pl_effect V (\<lambda>s. s\<lparr>pl_stack := pl_stack s @ [pl_before s], pl_before := ks_next p\<rparr>) s)"

definition pl_prev :: "polls_env \<Rightarrow> poll_list \<Rightarrow> poll_list" where
  "pl_prev V = pl_effect V (\<lambda>s. s\<lparr>pl_stack := butlast (pl_stack s), pl_before := top_or_null (pl_stack s)\<rparr>)"

definition pl_reset :: "poll_list \<Rightarrow> poll_list" where
  "pl_reset s = s\<lparr>pl_stack := [], pl_before := None\<rparr>"

definition pl_choose_role :: "polls_env \<Rightarrow> role \<Rightarrow> poll_list \<Rightarrow> poll_list" where
  "pl_choose_role V r = pl_effect V (\<lambda>s. pl_reset (s\<lparr>pl_role := r\<rparr>))"

definition pl_choose_status :: "polls_env \<Rightarrow> status_filter \<Rightarrow> poll_list \<Rightarrow> poll_list" where
  "pl_choose_status V st = pl_effect V (\<lambda>s. pl_reset (s\<lparr>pl_status := st\<rparr>))"

section \<open>Clock and status of a poll\<close>

text \<open>Labels are the keys of the translation with their numbers.\<close>

datatype time_diff = TDays int int | THours int int | TMinutes int | TSeconds int
datatype status_label = StartsIn time_diff | EndsIn time_diff | EndedAgo time_diff

definition formatTimeDiff :: "int \<Rightarrow> time_diff" where
  "formatTimeDiff sec =
     (let s = max 1 sec; d = s div 86400; h = s mod 86400 div 3600; m = s mod 3600 div 60
      in if d > 0 then TDays d h else if h > 0 then THours h m else if m > 0 then TMinutes m else TSeconds s)"

text \<open>\<open>Math.floor(a - nowMs / 1000)\<close> and \<open>Math.floor(nowMs / 1000 - a)\<close>, on milliseconds.\<close>

definition pollStatus :: "int \<Rightarrow> int \<Rightarrow> int \<Rightarrow> status_label" where
  "pollStatus nowMs startSec endSec =
     (if nowMs < 1000 * startSec then StartsIn (formatTimeDiff ((1000 * startSec - nowMs) div 1000))
      else if nowMs < 1000 * endSec then EndsIn (formatTimeDiff ((1000 * endSec - nowMs) div 1000))
      else EndedAgo (formatTimeDiff ((nowMs - 1000 * endSec) div 1000)))"

datatype status_colour = Blue | Emerald | Neutral

definition pollStatusMeta :: "int \<Rightarrow> int \<Rightarrow> int \<Rightarrow> status_label \<times> status_colour" where
  "pollStatusMeta nowMs startSec endSec =
     (let label = pollStatus nowMs startSec endSec; startMs = startSec * 1000; endMs = endSec * 1000
      in if nowMs < startMs then (label, Blue) else if nowMs < endMs then (label, Emerald) else (label, Neutral))"

record poll_clock =
  pc_label :: status_label
  pc_isOver :: bool
  pc_isActive :: bool

definition usePollClock :: "int \<Rightarrow> int \<Rightarrow> int \<Rightarrow> poll_clock" where
  "usePollClock nowMs startSec endSec =
     (let now = nowMs div 1000; isBefore = now < startSec; isOver = now \<ge> endSec;
          secs = (if isBefore then startSec - now else if isOver then now - endSec else endSec - now);
          label = (if isBefore then StartsIn (formatTimeDiff secs)
            else if isOver then EndedAgo (formatTimeDiff secs) else EndsIn (formatTimeDiff secs))
      in \<lparr>pc_label = label, pc_isOver = isOver, pc_isActive = (\<not> isBefore \<and> \<not> isOver)\<rparr>)"

section \<open>A poll\<close>

datatype tab = Overview | VoteTab | TallyTab | Results

record detail_env = auth_env +
  de_poll :: "poll_detail http res"
  de_is_voter :: "string \<Rightarrow> string http res"

record detail_page =
  dp_poll :: "poll_detail option"
  dp_isVoter :: bool
  dp_err :: "js_error option"
  dp_tab :: tab

definition dp_load :: "detail_env \<Rightarrow> detail_page \<Rightarrow> detail_page" where
  "dp_load V = attempt
     (seq (update (\<lambda>s. s\<lparr>dp_err := None\<rparr>))
      (bind (fetched (de_poll V)) (\<lambda>p. update (\<lambda>s. s\<lparr>dp_poll := Some p\<rparr>))))
     (\<lambda>e s. s\<lparr>dp_err := Some e\<rparr>) id"

text \<open>\<open>replace(/^0x/, "")\<close>.\<close>

definition drop_0x :: "string \<Rightarrow> string" where
  "drop_0x s = (if take 2 s = ''0x'' then drop 2 s else s)"

definition isTallier :: "('e) auth_env_scheme \<Rightarrow> detail_page \<Rightarrow> bool" where
  "isTallier V s = (case dp_poll s of None \<Rightarrow> False
     | Some poll \<Rightarrow> if ae_locked V then False
         else (case ae_account V of None \<Rightarrow> False
            | Some acc \<Rightarrow>
                toLowerCase (hex64 (fst (kp_pub acc))) = toLowerCase (drop_0x (fst (pd_tallier_key poll))) \<and>
                toLowerCase (hex64 (snd (kp_pub acc))) = toLowerCase (drop_0x (snd (pd_tallier_key poll)))))"

definition dp_checkVoter :: "detail_env \<Rightarrow> detail_page \<Rightarrow> detail_page" where
  "dp_checkVoter V = attempt
     (seq (update (\<lambda>s. s\<lparr>dp_err := None\<rparr>))
      (if ae_locked V then ret () else
       bind (case ae_account V of None \<Rightarrow> throw TypeError | Some a \<Rightarrow> ret a) (\<lambda>acc.
       bind (fetched (de_is_voter V (keyToLeafHex (ae_P V) (kp_pub acc)))) (\<lambda>text.
         update (\<lambda>s. s\<lparr>dp_isVoter := (text = ''true'')\<rparr>)))))
     (\<lambda>e s. s\<lparr>dp_err := Some e\<rparr>) id"

definition dp_clock :: "int \<Rightarrow> detail_page \<Rightarrow> poll_clock" where
  "dp_clock nowMs s = (case dp_poll s of None \<Rightarrow> usePollClock nowMs 0 0
     | Some p \<Rightarrow> usePollClock nowMs (pd_voting_start_time p) (pd_voting_end_time p))"

text \<open>The effect that chooses the first tab, and the tabs that are disabled.\<close>

definition default_tab :: "bool \<Rightarrow> bool \<Rightarrow> detail_page \<Rightarrow> tab" where
  "default_tab tallier over s = (case dp_poll s of None \<Rightarrow> dp_tab s
     | Some poll \<Rightarrow> if pd_tally poll \<noteq> None \<or> (dp_isVoter s \<and> over) then Results
         else if tallier then TallyTab else if dp_isVoter s then VoteTab else Overview)"

definition tab_disabled :: "bool \<Rightarrow> bool \<Rightarrow> poll_clock \<Rightarrow> detail_page \<Rightarrow> tab \<Rightarrow> bool" where
  "tab_disabled locked tallier clock s t =
     (let hasTally = (case dp_poll s of None \<Rightarrow> False | Some p \<Rightarrow> pd_tally p \<noteq> None) in
      case t of Overview \<Rightarrow> False
      | VoteTab \<Rightarrow> locked \<or> hasTally \<or> \<not> dp_isVoter s \<or> \<not> pc_isActive clock
      | TallyTab \<Rightarrow> locked \<or> hasTally \<or> \<not> tallier
      | Results \<Rightarrow> \<not> pc_isOver clock)"

definition click_tab :: "bool \<Rightarrow> tab \<Rightarrow> detail_page \<Rightarrow> detail_page" where
  "click_tab disabled t s = (if disabled then s else s\<lparr>dp_tab := t\<rparr>)"

section \<open>Results\<close>

record result_bar =
  rb_label :: string
  rb_count :: int
  rb_idx :: nat

record results =
  rs_pairs :: "result_bar list"
  rs_total :: int
  rs_max :: int

text \<open>The stable sort by falling count and then by index.\<close>

definition bar_key :: "result_bar \<Rightarrow> int \<times> nat" where
  "bar_key b = (- rb_count b, rb_idx b)"

definition results_data :: "string list \<Rightarrow> int list \<Rightarrow> results" where
  "results_data choices tally =
     (let bars = map (\<lambda>i. \<lparr>rb_label = choices ! i,
            rb_count = (case at tally i of None \<Rightarrow> 0 | Some c \<Rightarrow> c), rb_idx = i\<rparr>) [0..<length choices];
          pairs = sort_key bar_key bars
      in \<lparr>rs_pairs = pairs, rs_total = max 0 (sum_list (map rb_count pairs)),
          rs_max = foldl max 1 (map rb_count pairs)\<rparr>)"

text \<open>\<open>Math.round(100 * a / b)\<close>, in exact arithmetic.\<close>

definition percent :: "int \<Rightarrow> int \<Rightarrow> int" where
  "percent a b = (200 * a + b) div (2 * b)"

definition bar_pct :: "results \<Rightarrow> result_bar \<Rightarrow> int" where
  "bar_pct d p = (if rs_total d = 0 then 0 else percent (rb_count p) (rs_total d))"

definition bar_width :: "results \<Rightarrow> result_bar \<Rightarrow> int" where
  "bar_width d p = percent (rb_count p) (rs_max d)"

end
