(* ===== verification/PollCorrect.thy ===== *)
theory PollCorrect
  imports PollPages "HOL-Library.Multiset"
begin

text \<open>
  The list of polls shows every matching poll once, the tally tab opens for exactly the tallier
  of a poll, and the bars of the results are the counts in falling order.
\<close>

section \<open>The pages of the polls\<close>

text \<open>
  \<open>GET /polls\<close> of the indexer: the rows of the given tallier or voter and status, behind the
  cursor. The keys are compared as the hexadecimal text of their bytes.
\<close>

record poll_row = poll_item +
  pr_tallier :: string
  pr_voters :: "string list"

definition poll_matches :: "int \<Rightarrow> poll_query \<Rightarrow> poll_row \<Rightarrow> bool" where
  "poll_matches now q r \<longleftrightarrow>
     (pq_tallier q = Some (pr_tallier r) \<or>
      (case pq_voter_leaf q of None \<Rightarrow> False | Some v \<Rightarrow> v \<in> set (pr_voters r))) \<and>
     (pq_status q = Some ''Active'' \<longrightarrow> pi_start r \<le> now \<and> now < pi_end r) \<and>
     (pq_status q = Some ''Upcoming'' \<longrightarrow> now < pi_start r) \<and>
     (pq_status q = Some ''Ended'' \<longrightarrow> pi_end r \<le> now)"

definition matching :: "int \<Rightarrow> (int \<times> poll_row) list \<Rightarrow> poll_query \<Rightarrow> (int \<times> poll_item) list" where
  "matching now tbl q = map (\<lambda>r. (fst r, poll_item.truncate (snd r))) (filter (\<lambda>r. poll_matches now q (snd r)) tbl)"

definition list_polls :: "int \<Rightarrow> (int \<times> poll_row) list \<Rightarrow> poll_query \<Rightarrow> poll_page http" where
  "list_polls now tbl q =
     (if pq_tallier q = None \<and> pq_voter_leaf q = None then HErr ''provide tallier and/or voter_leaf''
      else HOk (list_before (clamp_polls (pq_limit q)) (matching now tbl q) (pq_before q)))"

definition polls_served ::
  "polls_env \<Rightarrow> keypair \<Rightarrow> int \<Rightarrow> (int \<times> poll_row) list \<Rightarrow> polls_env" where
  "polls_served V a now tbl = V\<lparr>ae_account := Some a, ae_locked := False,
     po_polls := (\<lambda>q. Inr (list_polls now tbl q))\<rparr>"

definition polls_of ::
  "polls_env \<Rightarrow> keypair \<Rightarrow> int \<Rightarrow> (int \<times> poll_row) list \<Rightarrow> role \<Rightarrow> status_filter \<Rightarrow> (int \<times> poll_item) list" where
  "polls_of V a now tbl r st = matching now tbl (polls_query (ae_P V) a r st None)"

definition pl_svc ::
  "polls_env \<Rightarrow> keypair \<Rightarrow> int \<Rightarrow> (int \<times> poll_row) list \<Rightarrow> role \<Rightarrow> status_filter \<Rightarrow> int option \<Rightarrow> poll_page option" where
  "pl_svc V a now tbl r st c = Some (list_before 20 (polls_of V a now tbl r st) c)"

definition pl_ok ::
  "polls_env \<Rightarrow> keypair \<Rightarrow> int \<Rightarrow> (int \<times> poll_row) list \<Rightarrow> role \<Rightarrow> status_filter \<Rightarrow> poll_list \<Rightarrow> bool" where
  "pl_ok V a now tbl r st s \<longleftrightarrow> pl_role s = r \<and> pl_status s = st \<and>
     sorted_wrt older (pl_stack s @ [pl_before s]) \<and> pl_before s \<noteq> Some 0 \<and> Some 0 \<notin> set (pl_stack s) \<and>
     pl_page s = pl_svc V a now tbl r st (pl_before s)"

lemma matching_before: "matching now tbl (q\<lparr>pq_before := c, pq_limit := l\<rparr>) = matching now tbl q"
  by (simp add: matching_def poll_matches_def)

lemma pl_load_served:
  assumes "pl_role s = r" "pl_status s = st" "pl_before s \<noteq> Some 0"
  shows "pl_load (polls_served V a now tbl) s =
    s\<lparr>pl_err := None, pl_loading := False, pl_page := pl_svc V a now tbl r st (pl_before s)\<rparr>"
proof -
  let ?q = "polls_query (ae_P V) a r st (pl_before s)"
  have "?q = polls_query (ae_P V) a r st None\<lparr>pq_before := pl_before s, pq_limit := Some 20\<rparr>"
    using assms(3) by (simp add: polls_query_def truthy_def POLLS_PAGE_LIMIT_def)
  then have m: "matching now tbl ?q = polls_of V a now tbl r st" by (simp only: polls_of_def matching_before)
  have "list_polls now tbl ?q = HOk (list_before 20 (matching now tbl ?q) (pl_before s))"
    using assms(3) by (cases r) (simp_all add: list_polls_def polls_query_def clamp_polls_def POLLS_PAGE_LIMIT_def truthy_def)
  with m have "list_polls now tbl ?q = HOk (the (pl_svc V a now tbl r st (pl_before s)))" by (simp add: pl_svc_def)
  then show ?thesis using assms(1,2)
    by (simp add: pl_load_def attempt_def pl_load_body_def proc_simps polls_served_def) (simp add: pl_svc_def)
qed

interpretation poll_pages: keyset_pager "rev (by_id (polls_of V a now tbl r st))" "\<lambda>c r. fst r < c" fst
    "pl_ok V a now tbl r st" "\<lambda>s. pl_stack s @ [pl_before s]" pl_page "pl_svc V a now tbl r st" page_next
    "pl_next (polls_served V a now tbl)" "pl_prev (polls_served V a now tbl)" 20 page_items
  for V a now tbl r st
proof
  let ?W = "polls_served V a now tbl"
  have u: "\<not> ae_locked ?W" by (simp add: polls_served_def)
  {
    fix s c assume s: "pl_ok V a now tbl r st s" "page_next (pl_page s) = Some c"
    then have "older (pl_before s) (Some c)" using older_next [of 20 _ "pl_before s" c] by (simp add: pl_ok_def pl_svc_def)
    then have o: "sorted_wrt older (pl_stack s @ [pl_before s, Some c])" "Some c \<noteq> pl_before s" "c \<noteq> 0"
      using older_extend [of "pl_stack s @ [pl_before s]" "Some c"] s(1) older_neq by (auto simp: pl_ok_def)
    obtain p where p: "pl_page s = Some p" "ks_next p = Some c" using s(2) page_next_truthy by blast
    have "pl_next ?W s = pl_load ?W (s\<lparr>pl_stack := pl_stack s @ [pl_before s], pl_before := Some c\<rparr>)"
      using p o(2) u by (simp add: pl_next_def pl_effect_def)
    then show "pl_ok V a now tbl r st (pl_next ?W s) \<and>
        pl_stack (pl_next ?W s) @ [pl_before (pl_next ?W s)] = (pl_stack s @ [pl_before s]) @ [Some c]"
      using s(1) o by (auto simp: pl_load_served [where r = r and st = st] pl_ok_def)
  next
    fix s assume s: "pl_ok V a now tbl r st s" "1 < length (pl_stack s @ [pl_before s])"
    then obtain t b where t: "pl_stack s = t @ [b]" by (cases "pl_stack s" rule: rev_cases) auto
    have "sorted_wrt older ((t @ [b]) @ [pl_before s])" using s(1) by (simp add: pl_ok_def t)
    then have "sorted_wrt older (t @ [b])" "older b (pl_before s)" by (auto simp only: sorted_snoc set_append set_simps)
    then have o: "sorted_wrt older (t @ [b])" "b \<noteq> pl_before s" "b \<noteq> Some 0" "Some 0 \<notin> set t"
      using s(1) older_neq [of b "pl_before s"] t by (auto simp: pl_ok_def)
    have "pl_prev ?W s = pl_load ?W (s\<lparr>pl_stack := t, pl_before := b\<rparr>)"
      using t o(2) u by (simp add: pl_prev_def pl_effect_def top_or_null_def)
    then show "pl_ok V a now tbl r st (pl_prev ?W s) \<and>
        pl_stack (pl_prev ?W s) @ [pl_before (pl_prev ?W s)] = butlast (pl_stack s @ [pl_before s])"
      using s(1) o t by (simp add: pl_load_served [where r = r and st = st] pl_ok_def butlast_append)
  next
    show "page_items (pl_svc V a now tbl r st c) = take 20 (newest.rows_from (polls_of V a now tbl r st) c)" for c
      by (simp add: page_items_def pl_svc_def list_before_rows)
    show "page_next (pl_svc V a now tbl r st c) = (if 20 < length (newest.rows_from (polls_of V a now tbl r st) c)
        then Some (fst (newest.rows_from (polls_of V a now tbl r st) c ! (20 - 1))) else None)" for c
      by (simp add: pl_svc_def page_next_before)
  }
qed (simp_all add: pl_ok_def)

section \<open>Properties\<close>

text \<open>
  Choosing a role in the list of polls and then clicking Next \<open>k\<close> times and Prev \<open>j\<close> times
  shows the page \<open>k - j\<close> of the polls that match the role, the account and the status, newest
  first, and Next is enabled exactly when a poll is left.
\<close>

theorem poll_list_shows_page:
  assumes "pl_role s0 \<noteq> r" "L = rev (by_id (polls_of V a now tbl r (pl_status s0)))"
    and "k = 0 \<or> k * 20 < length L" "j \<le> k"
  shows "let W = polls_served V a now tbl; s = (pl_prev W ^^ j) ((pl_next W ^^ k) (pl_choose_role W r s0)) in
    page_items (pl_page s) = take 20 (drop ((k - j) * 20) L) \<and>
    (pl_canNext s \<longleftrightarrow> Suc (k - j) * 20 < length L)"
proof -
  let ?W = "polls_served V a now tbl"
  have "pl_choose_role ?W r s0 = pl_load ?W (pl_reset (s0\<lparr>pl_role := r\<rparr>))"
    using assms(1) by (simp add: pl_choose_role_def pl_effect_def pl_reset_def polls_served_def)
  then have o: "pl_ok V a now tbl r (pl_status s0) (pl_choose_role ?W r s0)"
      "pl_stack (pl_choose_role ?W r s0) @ [pl_before (pl_choose_role ?W r s0)] = [None]"
    by (simp_all add: pl_reset_def pl_load_served [where r = r and st = "pl_status s0"] pl_ok_def)
  show ?thesis unfolding Let_def pl_canNext_def assms(2)
    using poll_pages.page_shown [OF o] assms(3,4) unfolding assms(2) by blast
qed

definition poll0 :: poll_row where
  "poll0 = \<lparr>pi_poll_id = ''7'', pi_start = 0, pi_end = 10, pi_title = ''t'', pi_choices = [''a''],
     pr_tallier = hex64 1 @ hex64 2, pr_voters = []\<rparr>"

definition polls_env0 :: polls_env where
  "polls_env0 = \<lparr>ae_P = sum_hash, ae_sign = (\<lambda>prv m. ((1, 1), m)), ae_now = 0, ae_account = None,
     ae_locked = False, po_polls = (\<lambda>q. Inl TypeError)\<rparr>"

definition poll_list0 :: poll_list where
  "poll_list0 = \<lparr>pl_role = AllRoles, pl_status = AllStatuses, pl_page = None, pl_loading = False,
     pl_err = None, pl_before = None, pl_stack = []\<rparr>"

theorem poll_list_shows_page_witness:
  "let s = pl_choose_role (polls_served polls_env0 the_voter 5 [(1, poll0), (2, poll0)]) Tallier poll_list0 in
    map fst (page_items (pl_page s)) = [2, 1] \<and> \<not> pl_canNext s"
proof -
  let ?L = "rev (by_id (polls_of polls_env0 the_voter 5 [(1, poll0), (2, poll0)] Tallier (pl_status poll_list0)))"
  have m: "polls_of polls_env0 the_voter 5 [(1, poll0), (2, poll0)] Tallier (pl_status poll_list0)
      = [(1, poll_item.truncate poll0), (2, poll_item.truncate poll0)]"
    by (simp add: polls_of_def matching_def poll_matches_def polls_query_def poll0_def the_voter_def
        poll_list0_def status_param_def)
  have L: "map fst ?L = [2, 1]" unfolding m by (simp add: by_id_def i64_max_def)
  have "length ?L = 2" using arg_cong [OF L, of length] by simp
  then show ?thesis
    using poll_list_shows_page [of poll_list0 Tallier ?L polls_env0 the_voter 5 "[(1, poll0), (2, poll0)]" 0 0] L
    by (simp add: Let_def poll_list0_def)
qed

lemma hex64_toHex32: "0 \<le> n \<Longrightarrow> n < FP \<Longrightarrow> hex64 n = toHex32 n"
  unfolding hex64_def toHex32_digits using FP_lt_256 by (intro padStart_to_string) auto

lemma lower_digit: "0 \<le> d \<Longrightarrow> d < 16 \<Longrightarrow> lower_char (digit_char d) = digit_char d"
  using int_lt_16_cases [of d] by (auto simp: lower_char_def digit_char_def)

lemma lower_toHex32 [simp]: "toLowerCase (toHex32 n) = toHex32 n"
proof -
  have "digits_ok 16 (be_digits 16 64 n)" by simp
  then show ?thesis by (simp add: toHex32_digits toLowerCase_def digits_ok_def lower_digit)
qed

lemma drop_0x_toHex32 [simp]: "drop_0x (toHex32 n) = toHex32 n" "drop_0x (CHR ''0'' # CHR ''x'' # s) = s"
proof -
  have "radix_prefix (toHex32 n) \<noteq> Some 16"
    unfolding toHex32_digits by (rule radix_prefix_hex) simp
  then have "take 2 (toHex32 n) \<noteq> ''0x''"
    by (cases "toHex32 n" rule: remdups_adj.cases) (auto simp: radix_prefix_def)
  then show "drop_0x (toHex32 n) = toHex32 n" by (simp add: drop_0x_def)
qed (simp add: drop_0x_def)

text \<open>
  The tally tab is offered to exactly the account whose public key is the tallier's key of
  the poll, whether the indexer writes its coordinates with or without \<open>0x\<close>; never while the
  keyring is locked, nor after the tally.
\<close>

theorem tally_tab_for_tallier:
  assumes "dp_poll s = Some poll" "ae_account V = Some acc" "pd_tally poll = None"
    and "0 \<le> x" "x < FP" "0 \<le> y" "y < FP"
    and "fst (kp_pub acc) \<in> {0..<FP}" "snd (kp_pub acc) \<in> {0..<FP}"
    and "pd_tallier_key poll = (pre @ toHex32 x, pre @ toHex32 y)" "pre \<in> {[], ''0x''}"
  shows "\<not> tab_disabled (ae_locked V) (isTallier V s) clock s TallyTab \<longleftrightarrow>
    \<not> ae_locked V \<and> kp_pub acc = (x, y)"
proof -
  have "drop_0x (pre @ toHex32 n) = toHex32 n" for n using assms(11) by auto
  then show ?thesis using assms(1-10)
    by (auto simp: tab_disabled_def isTallier_def hex64_toHex32 toHex32_inj prod_eq_iff)
qed

definition detail_env0 :: detail_env where
  "detail_env0 = \<lparr>ae_P = sum_hash, ae_sign = (\<lambda>prv m. ((1, 1), m)), ae_now = 0, ae_account = Some the_voter,
     ae_locked = False, de_poll = Inl TypeError, de_is_voter = (\<lambda>l. Inl TypeError)\<rparr>"

definition detail_page0 :: "poll_detail \<Rightarrow> detail_page" where
  "detail_page0 p = \<lparr>dp_poll = Some p, dp_isVoter = False, dp_err = None, dp_tab = Overview\<rparr>"

theorem tally_tab_for_tallier_witness:
  "let p = the_poll\<lparr>pd_tallier_key := (toHex32 1, toHex32 2)\<rparr> in
    \<not> tab_disabled False (isTallier detail_env0 (detail_page0 p)) (usePollClock 0 0 0) (detail_page0 p) TallyTab"
  using tally_tab_for_tallier [of "detail_page0 (the_poll\<lparr>pd_tallier_key := (toHex32 1, toHex32 2)\<rparr>)"
      "the_poll\<lparr>pd_tallier_key := (toHex32 1, toHex32 2)\<rparr>" detail_env0 the_voter 1 2 "[]" "usePollClock 0 0 0"]
  by (simp add: detail_page0_def detail_env0_def the_poll_def the_voter_def FP_def)

lemma sum_counts: "sum_list (map (\<lambda>i. if i < length xs then xs ! i else 0) [0..<n]) = sum_list (take n (xs :: int list))"
  by (induction n) (simp_all add: take_Suc_conv_app_nth)

lemma foldl_max: "(m :: int) \<le> foldl max m xs \<and> (\<forall>x \<in> set xs. x \<le> foldl max m xs)"
  by (induction xs arbitrary: m) (auto, (meson max.boundedE)+)

lemma percent_range: "0 \<le> a \<Longrightarrow> a \<le> b \<Longrightarrow> 0 < b \<Longrightarrow> 0 \<le> percent a b \<and> percent a b \<le> 100"
proof -
  assume "0 \<le> a" "a \<le> b" "0 < b"
  then have "0 \<le> (200 * a + b) div (2 * b)" "(200 * a + b) div (2 * b) \<le> (201 * b) div (2 * b)"
    using zdiv_mono1 [of "200 * a + b" "201 * b" "2 * b"] pos_imp_zdiv_nonneg_iff [of "2 * b" "200 * a + b"]
    by linarith+
  moreover have "(201 * b) div (2 * b) = 100" using \<open>0 < b\<close> by simp
  ultimately show ?thesis by (simp add: percent_def)
qed

lemma bar_order:
  assumes "distinct (map rb_idx bars)"
  shows "sorted_wrt (\<lambda>a b. rb_count b < rb_count a \<or> (rb_count a = rb_count b \<and> rb_idx a < rb_idx b))
    (sort_key bar_key bars)"
proof -
  have "distinct (map bar_key bars)"
    using assms by (auto simp: distinct_map inj_on_def bar_key_def)
  then have "distinct (map bar_key (sort_key bar_key bars))"
    by (simp add: distinct_map)
  then have "sorted_wrt (<) (map bar_key (sort_key bar_key bars))"
    by (simp add: strict_sorted_iff)
  then show ?thesis unfolding sorted_wrt_map
    by (rule sorted_wrt_mono_rel [rotated]) (auto simp: bar_key_def)
qed

text \<open>
  The bars of the results are the choices with their counts, each once, by falling count
  and, among equal counts, in the order of the ballot; the total is the sum of the counts, and
  no bar is wider than the whole.
\<close>

theorem results_bars:
  assumes "\<forall>c \<in> set tally. 0 \<le> c"
  shows "let d = results_data choices tally in
    mset (rs_pairs d) = mset (map (\<lambda>i. \<lparr>rb_label = choices ! i,
      rb_count = (if i < length tally then tally ! i else 0), rb_idx = i\<rparr>) [0..<length choices]) \<and>
    sorted_wrt (\<lambda>a b. rb_count b < rb_count a \<or> (rb_count a = rb_count b \<and> rb_idx a < rb_idx b)) (rs_pairs d) \<and>
    rs_total d = sum_list (take (length choices) tally) \<and>
    (\<forall>p \<in> set (rs_pairs d). 0 \<le> bar_width d p \<and> bar_width d p \<le> 100)"
proof -
  let ?bar = "\<lambda>i. \<lparr>rb_label = choices ! i, rb_count = (if i < length tally then tally ! i else 0), rb_idx = i\<rparr>"
  let ?bars = "map ?bar [0..<length choices]"
  have at_count: "(case at tally i of None \<Rightarrow> 0 | Some c \<Rightarrow> c) = (if i < length tally then tally ! i else 0)" for i
    by (simp add: at_def)
  have pairs: "rs_pairs (results_data choices tally) = sort_key bar_key ?bars"
    by (simp only: results_data_def at_count Let_def) simp
  have "sum_list (map rb_count (sort_key bar_key ?bars)) = sum_list (map rb_count ?bars)"
    by (simp only: mset_map mset_sort flip: sum_mset_sum_list)
  also have "\<dots> = sum_list (take (length choices) tally)" by (simp add: comp_def sum_counts)
  finally have total: "rs_total (results_data choices tally) = max 0 (sum_list (take (length choices) tally))"
    by (simp only: results_data_def at_count Let_def) simp
  have "0 \<le> sum_list (take (length choices) tally)" using assms by (auto intro!: sum_list_nonneg dest: in_set_takeD)
  moreover have "0 \<le> bar_width (results_data choices tally) p \<and> bar_width (results_data choices tally) p \<le> 100"
    if "p \<in> set ?bars" for p
  proof -
    have "rs_max (results_data choices tally) = foldl max 1 (map rb_count (sort_key bar_key ?bars))"
      by (simp only: results_data_def at_count Let_def) simp
    then have "rb_count p \<le> rs_max (results_data choices tally)" "0 < rs_max (results_data choices tally)"
      using that foldl_max [of 1 "map rb_count (sort_key bar_key ?bars)"] by auto
    moreover have "0 \<le> rb_count p" using that assms by auto
    ultimately show ?thesis by (simp add: bar_width_def percent_range)
  qed
  ultimately show ?thesis
    using bar_order [of ?bars] by (simp add: Let_def pairs total comp_def)
qed

theorem results_bars_witness:
  "let d = results_data [''a'', ''b'', ''c''] [1, 4] in map rb_idx (rs_pairs d) = [1, 0, 2] \<and> rs_total d = 5"
proof -
  have p: "rs_pairs (results_data [''a'', ''b'', ''c''] [1, 4]) = [\<lparr>rb_label = ''b'', rb_count = 4, rb_idx = 1\<rparr>,
      \<lparr>rb_label = ''a'', rb_count = 1, rb_idx = 0\<rparr>, \<lparr>rb_label = ''c'', rb_count = 0, rb_idx = 2\<rparr>]"
    by code_simp
  show ?thesis using results_bars [of "[1, 4]" "[''a'', ''b'', ''c'']"] by (simp add: Let_def p)
qed

end
