(* ===== verification/Events.thy ===== *)
theory Events
  imports JsStrings
begin

text \<open>
  Event extraction from transaction logs, \<open>ts-sdk/src/events.ts\<close>: a stack machine over log
  lines that follows program invocations and decodes the data lines our program wrote itself.
  The reference is the tree of invocations a runtime logs (\<open>call\<close>); the two regular
  expressions are recognisers on strings.
\<close>

section \<open>The code\<close>

definition base58_char :: "char \<Rightarrow> bool" where
  "base58_char c \<longleftrightarrow> c \<in> set ''123456789ABCDEFGHJKLMNPQRSTUVWXYZabcdefghijkmnopqrstuvwxyz''"

definition strip_prefix :: "string \<Rightarrow> string \<Rightarrow> string option" where
  "strip_prefix p s = (if take (length p) s = p then Some (drop (length p) s) else None)"

text \<open>\<open>^Program ([1-9A-HJ-NP-Za-km-z]+)\<close>: the program id and what follows it.\<close>

definition program_line :: "string \<Rightarrow> (string \<times> string) option" where
  "program_line log = (case strip_prefix ''Program '' log of
       None \<Rightarrow> None
     | Some s \<Rightarrow> let i = takeWhile base58_char s in
         if i = [] then None else Some (i, dropWhile base58_char s))"

definition digits_bracket :: "string \<Rightarrow> bool" where
  "digits_bracket s \<longleftrightarrow> s \<noteq> [] \<and> last s = CHR '']'' \<and> butlast s \<noteq> [] \<and>
     list_all (\<lambda>c. digit_in 10 c \<noteq> None) (butlast s)"

definition invoke_re :: "string \<Rightarrow> string option" where
  "invoke_re log = (case program_line log of
       None \<Rightarrow> None
     | Some (i, r) \<Rightarrow> (case strip_prefix '' invoke ['' r of
         None \<Rightarrow> None
       | Some d \<Rightarrow> if digits_bracket d then Some i else None))"

definition success_re :: "string \<Rightarrow> bool" where
  "success_re log = (case program_line log of
       None \<Rightarrow> False
     | Some (i, r) \<Rightarrow> r = '' success'' \<or> r = '' failed'')"

text \<open>
  \<open>decode\<close> is Anchor's event coder: the name and the data of a recognised event. The stack is
  kept with its top at the head.
\<close>

fun getEvents_loop ::
  "(string \<Rightarrow> (string \<times> 'e) option) \<Rightarrow> string \<Rightarrow> string \<Rightarrow> string list \<Rightarrow> string list \<Rightarrow> 'e list
   \<Rightarrow> 'e list" where
  "getEvents_loop decode programId eventName [] stack results = results"
| "getEvents_loop decode programId eventName (log # logs) stack results =
     (case invoke_re log of
       Some i \<Rightarrow> getEvents_loop decode programId eventName logs (i # stack) results
     | None \<Rightarrow>
         if success_re log then getEvents_loop decode programId eventName logs (tl stack) results
         else case strip_prefix ''Program data: '' log of
           Some payload \<Rightarrow>
             if at stack 0 = Some programId then
               (case decode payload of
                  Some (name, data) \<Rightarrow>
                    if name = eventName
                    then getEvents_loop decode programId eventName logs stack (results @ [data])
                    else getEvents_loop decode programId eventName logs stack results
                | None \<Rightarrow> getEvents_loop decode programId eventName logs stack results)
             else getEvents_loop decode programId eventName logs stack results
         | None \<Rightarrow> getEvents_loop decode programId eventName logs stack results)"

definition getEvents ::
  "(string \<Rightarrow> (string \<times> 'e) option) \<Rightarrow> string \<Rightarrow> string \<Rightarrow> string list \<Rightarrow> 'e list" where
  "getEvents decode programId eventName logs =
     getEvents_loop decode programId eventName logs [] []"

definition getVoteEvents :: "(string \<Rightarrow> (string \<times> 'e) option) \<Rightarrow> string \<Rightarrow> string list \<Rightarrow> 'e list" where
  "getVoteEvents decode programId logs = getEvents decode programId ''voteEvent'' logs"

section \<open>Reference: the tree of invocations\<close>

text \<open>A call says whether it succeeded; either way its last line ends it. (Where the runtime gives a
  reason behind \<open>failed\<close>, the expression does not match; but such a failure ends the transaction.)\<close>

datatype item = Line string | Data string | Sub call
  and call = Invoke string nat bool "item list"

definition invoke_line :: "string \<Rightarrow> nat \<Rightarrow> string" where
  "invoke_line i d = ''Program '' @ i @ '' invoke ['' @ to_string 10 (int d) @ '']''"

definition end_line :: "string \<Rightarrow> bool \<Rightarrow> string" where
  "end_line i ok = ''Program '' @ i @ (if ok then '' success'' else '' failed'')"

primrec render_item :: "item \<Rightarrow> string list" and render :: "call \<Rightarrow> string list" where
  "render_item (Line s) = [s]"
| "render_item (Data s) = [''Program data: '' @ s]"
| "render_item (Sub c) = render c"
| "render (Invoke i d ok its) =
     invoke_line i d # concat (map render_item its) @ [end_line i ok]"

text \<open>The payloads written directly by a program, in the order of the log.\<close>

primrec own_item :: "string \<Rightarrow> bool \<Rightarrow> item \<Rightarrow> string list"
  and own :: "string \<Rightarrow> call \<Rightarrow> string list" where
  "own_item p here (Line s) = []"
| "own_item p here (Data s) = (if here then [s] else [])"
| "own_item p here (Sub c) = own p c"
| "own p (Invoke i d ok its) = concat (map (own_item p (i = p)) its)"

definition program_id :: "string \<Rightarrow> bool" where
  "program_id i \<longleftrightarrow> i \<noteq> [] \<and> list_all base58_char i"

text \<open>A line that is neither an invocation, nor an end, nor data.\<close>

definition plain :: "string \<Rightarrow> bool" where
  "plain s \<longleftrightarrow> invoke_re s = None \<and> \<not> success_re s \<and> strip_prefix ''Program data: '' s = None"

primrec wf_item :: "item \<Rightarrow> bool" and wf_call :: "call \<Rightarrow> bool" where
  "wf_item (Line s) = plain s"
| "wf_item (Data s) = True"
| "wf_item (Sub c) = wf_call c"
| "wf_call (Invoke i d ok its) = (program_id i \<and> list_all wf_item its)"

definition matching :: "(string \<Rightarrow> (string \<times> 'e) option) \<Rightarrow> string \<Rightarrow> string list \<Rightarrow> 'e list" where
  "matching decode eventName ss = List.map_filter (\<lambda>s. case decode s of
       Some (name, data) \<Rightarrow> if name = eventName then Some data else None
     | None \<Rightarrow> None) ss"

section \<open>The recognisers on rendered lines\<close>

lemma strip_prefix_append [simp]: "strip_prefix p (p @ s) = Some s"
  by (simp add: strip_prefix_def)

lemma not_base58 [simp]: "\<not> base58_char (CHR '' '')" "\<not> base58_char (CHR '':'')"
  by (simp_all add: base58_char_def)

lemma program_line_id:
  assumes "program_id i" "s = [] \<or> \<not> base58_char (hd s)"
  shows "program_line (''Program '' @ i @ s) = Some (i, s)"
proof -
  have "takeWhile base58_char (i @ s) = i" "dropWhile base58_char (i @ s) = s"
    using assms by (cases s; auto simp: program_id_def list_all_iff takeWhile_append
        dropWhile_append)+
  then show ?thesis
    using assms strip_prefix_append [of "''Program ''" "i @ s"]
    by (simp only: program_line_def option.case Let_def) (simp add: program_id_def)
qed

lemma digits_bracket_string: "digits_bracket (to_string 10 (int d) @ '']'')"
  using min_digits_ok [of 10 "int d"]
  by (auto simp: digits_bracket_def to_string_def list_all_iff digits_ok_def)

lemma invoke_re_invoke:
  assumes "program_id i"
  shows "invoke_re (''Program '' @ i @ '' invoke ['' @ to_string 10 (int d) @ '']'') = Some i"
proof -
  have "program_line (''Program '' @ i @ ('' invoke ['' @ to_string 10 (int d) @ '']''))
      = Some (i, '' invoke ['' @ to_string 10 (int d) @ '']'')"
    by (rule program_line_id [OF assms]) simp
  then show ?thesis
    using digits_bracket_string [of d]
      strip_prefix_append [of "'' invoke [''" "to_string 10 (int d) @ '']''"]
    by (simp only: invoke_re_def option.case prod.case if_True)
qed

lemma end_line_re:
  assumes "program_id i"
  shows "invoke_re (end_line i ok) = None" "success_re (end_line i ok)"
proof -
  let ?e = "if ok then '' success'' else '' failed''"
  have "program_line (''Program '' @ i @ ?e) = Some (i, ?e)"
    by (rule program_line_id [OF assms]) simp
  then show "invoke_re (end_line i ok) = None" "success_re (end_line i ok)"
    by (simp_all only: end_line_def invoke_re_def success_re_def option.case prod.case)
      (simp_all add: strip_prefix_def)
qed

lemma data_line:
  "invoke_re (''Program data: '' @ s) = None" "\<not> success_re (''Program data: '' @ s)"
proof -
  have "program_line (''Program '' @ ''data'' @ ('': '' @ s)) = Some (''data'', '': '' @ s)"
    by (rule program_line_id) (simp_all add: program_id_def base58_char_def)
  then have "program_line (''Program data: '' @ s) = Some (''data'', '': '' @ s)" by simp
  then show "invoke_re (''Program data: '' @ s) = None" "\<not> success_re (''Program data: '' @ s)"
    by (simp_all only: invoke_re_def success_re_def option.case prod.case)
      (simp_all add: strip_prefix_def)
qed

section \<open>The loop on rendered logs\<close>

lemma matching_append [simp]: "matching d e (xs @ ys) = matching d e xs @ matching d e ys"
  by (simp add: matching_def map_filter_def)

lemma matching_Nil [simp]: "matching d e [] = []"
  by (simp add: matching_def)

lemma loop_data:
  "getEvents_loop dec pid ev ((''Program data: '' @ s) # rest) (i # stk) res =
   getEvents_loop dec pid ev rest (i # stk)
     (res @ matching dec ev (if i = pid then [s] else []))"
proof -
  have strip: "strip_prefix ''Program data: '' (''Program data: '' @ s) = Some s"
    by (rule strip_prefix_append)
  show ?thesis
    by (simp only: getEvents_loop.simps data_line option.case if_False strip at_simps
        option.inject)
      (auto simp: matching_def map_filter_def split: option.splits)
qed

lemma loop_line:
  "plain s \<Longrightarrow> getEvents_loop dec pid ev (s # rest) stk res = getEvents_loop dec pid ev rest stk res"
  by (simp add: plain_def)

lemma loop_invoke:
  assumes "program_id i"
  shows "getEvents_loop dec pid ev (invoke_line i d # rest) stk res =
    getEvents_loop dec pid ev rest (i # stk) res"
  by (simp only: invoke_line_def getEvents_loop.simps invoke_re_invoke [OF assms] option.case)

lemma loop_end:
  assumes "program_id i"
  shows "getEvents_loop dec pid ev (end_line i ok # rest) (j # stk) res =
    getEvents_loop dec pid ev rest stk res"
  by (simp only: getEvents_loop.simps end_line_re [OF assms] option.case if_True list.sel)

lemma loop_items:
  assumes "\<And>it rest res. it \<in> set its \<Longrightarrow>
      getEvents_loop dec pid ev (render_item it @ rest) stk res =
      getEvents_loop dec pid ev rest stk (res @ matching dec ev (own_item pid b it))"
  shows "getEvents_loop dec pid ev (concat (map render_item its) @ rest) stk res =
    getEvents_loop dec pid ev rest stk (res @ matching dec ev (concat (map (own_item pid b) its)))"
  using assms
proof (induction its arbitrary: rest res)
  case (Cons it its)
  have "getEvents_loop dec pid ev (render_item it @ (concat (map render_item its) @ rest)) stk res
      = getEvents_loop dec pid ev (concat (map render_item its) @ rest) stk
          (res @ matching dec ev (own_item pid b it))"
    using Cons.prems by simp
  with Cons show ?case by simp
qed simp

lemma loop_render:
  "wf_item it \<Longrightarrow> getEvents_loop dec pid ev (render_item it @ rest) (i # stk) res =
     getEvents_loop dec pid ev rest (i # stk) (res @ matching dec ev (own_item pid (i = pid) it))"
  "wf_call c \<Longrightarrow> getEvents_loop dec pid ev (render c @ rest') stk' res' =
     getEvents_loop dec pid ev rest' stk' (res' @ matching dec ev (own pid c))"
proof (induction it and c arbitrary: rest i stk res and rest' stk' res')
  case (Line s)
  then show ?case by (simp add: loop_line del: getEvents_loop.simps)
next
  case (Data s)
  then show ?case using loop_data [of dec pid ev s rest i stk res] by simp
next
  case (Sub c)
  then show ?case by simp
next
  case (Invoke i d ok its)
  then have i: "program_id i" and wf: "\<And>it. it \<in> set its \<Longrightarrow> wf_item it"
    by (simp_all add: list_all_iff)
  have "getEvents_loop dec pid ev
      (concat (map render_item its) @ (end_line i ok # rest')) (i # stk') res'
    = getEvents_loop dec pid ev (end_line i ok # rest') (i # stk')
        (res' @ matching dec ev (concat (map (own_item pid (i = pid)) its)))"
    by (rule loop_items) (use Invoke.IH wf in blast)
  then show ?case
    by (simp only: render.simps append_Cons append_assoc append_Nil loop_invoke [OF i]
        loop_end [OF i] own.simps)
qed

section \<open>Properties\<close>

text \<open>
  C34: on the log of any tree of program invocations, whether they end with success or with failure,
  \<open>getEvents\<close> returns exactly the events of the requested name that our program wrote itself, in
  order: data lines of programs that call it or that it calls are not taken for its events.
\<close>

theorem getEvents_own:
  assumes "wf_call c"
  shows "getEvents decode programId eventName (render c)
    = matching decode eventName (own programId c)"
  using loop_render(2) [OF assms, of decode programId eventName "[]" "[]" "[]"]
  by (simp add: getEvents_def)

theorem getEvents_own_witness:
  "getEvents (\<lambda>s. Some (''voteEvent'', s)) ''Moot'' ''voteEvent''
      (render (Invoke ''Re1ay'' 1 True [Data ''a'', Sub (Invoke ''Moot'' 2 False [Data ''b'']), Data ''c'']))
    = matching (\<lambda>s. Some (''voteEvent'', s)) ''voteEvent''
        (own ''Moot'' (Invoke ''Re1ay'' 1 True [Data ''a'', Sub (Invoke ''Moot'' 2 False [Data ''b'']),
           Data ''c'']))"
  by (rule getEvents_own) (simp add: program_id_def base58_char_def)

end
