(* ===== verification/Drawer.thy ===== *)
theory Drawer
  imports KeyringCorrect RevoKeys
begin

text \<open>
  The account drawer, \<open>frontend/src/components/AccountDrawer.tsx\<close>, and the button that opens
  it: the fields of the panel, its buttons over the keyring, and the list of re-voting keys of
  the active account. A click of the panel is a run of keyring steps.
\<close>

record drawer =
  dw_newName :: string
  dw_importName :: string
  dw_importPrv :: string
  dw_confirmPass :: string
  dw_alerts :: "string list"
  dw_kr :: keyring

definition on_kr :: "(keyring, 'a) proc \<Rightarrow> (drawer, 'a) proc" where
  "on_kr m = (\<lambda>d. case m (dw_kr d) of (r, k) \<Rightarrow> (r, d\<lparr>dw_kr := k\<rparr>))"

definition creating :: "keyring \<Rightarrow> bool" where
  "creating k \<longleftrightarrow> kr_hasKeyring k = Some False"

definition close_effect :: "bool \<Rightarrow> (drawer, unit) proc" where
  "close_effect opened = (if opened then ret () else
     seq (on_kr clearImportStatus)
         (update (\<lambda>d. d\<lparr>dw_newName := [], dw_importName := [], dw_importPrv := []\<rparr>)))"

definition show_alert :: "string \<Rightarrow> (drawer, unit) proc" where
  "show_alert m = update (dw_alerts_update (\<lambda>as. as @ [m]))"

definition unlock_click :: "'k kr_env \<Rightarrow> (drawer, unit) proc" where
  "unlock_click V = bind (read id) (\<lambda>d. let k = dw_kr d in
     if creating k \<and> length (kr_pass k) < 4
     then show_alert ''Use a passphrase at least 4 characters long.''
     else if creating k \<and> kr_pass k \<noteq> dw_confirmPass d
     then show_alert ''Passphrases do not match.''
     else bind (on_kr (unlock V)) (\<lambda>_. ret ()))"

definition acct_name :: "string \<Rightarrow> nat \<Rightarrow> string" where
  "acct_name newName n = (if newName = [] then ''acct-'' @ to_string 10 (int n + 1) else newName)"

definition new_click :: "'k kr_env \<Rightarrow> (drawer, unit) proc" where
  "new_click V = bind (read id) (\<lambda>d.
     on_kr (addNew V (acct_name (dw_newName d) (length (kr_accounts (dw_kr d))))))"

definition import_click :: "'k kr_env \<Rightarrow> (drawer, unit) proc" where
  "import_click V = bind (read id) (\<lambda>d. on_kr (importPrv V (dw_importName d) (dw_importPrv d)))"

definition use_click :: "'k kr_env \<Rightarrow> nat \<Rightarrow> (drawer, unit) proc" where
  "use_click V i = on_kr (setActive V (int i))"

definition delete_click :: "'k kr_env \<Rightarrow> nat \<Rightarrow> (drawer, unit) proc" where
  "delete_click V i = on_kr (removeAt V i)"

text \<open>A card: name, whether it is the active one, the public key and the private key.\<close>

definition account_card :: "keyring \<Rightarrow> nat \<Rightarrow> keypair \<Rightarrow> string \<times> bool \<times> string \<times> string \<times> string" where
  "account_card k i a = (kp_name a, int i = kr_active k,
     ''pkX: 0x'' @ to_string 16 (fst (kp_pub a)), ''pkY: 0x'' @ to_string 16 (snd (kp_pub a)),
     ''0x'' @ concat (map byte_hex (kp_prv a)))"

text \<open>\<open>None\<close> is the translated default label.\<close>

definition zk_label :: "keyring \<Rightarrow> string option" where
  "zk_label k = (if kr_locked k \<or> kr_accounts k = [] then None
     else Some (kp_name (if 0 \<le> kr_active k \<and> kr_active k < int (length (kr_accounts k))
       then kr_accounts k ! nat (kr_active k) else kr_accounts k ! 0)))"

definition active_account :: "keyring \<Rightarrow> keypair option" where
  "active_account k = (if kr_active k < 0 then None else at (kr_accounts k) (nat (kr_active k)))"

section \<open>Re-voting keys of the active account\<close>

text \<open>\<open><\<close> on strings, by code units.\<close>

fun js_less :: "string \<Rightarrow> string \<Rightarrow> bool" where
  "js_less _ [] = False"
| "js_less [] (y # ys) = True"
| "js_less (x # xs) (y # ys) =
     ((of_char x :: nat) < of_char y \<or> x = y \<and> js_less xs ys)"

text \<open>An entry compared as a whole is first turned into text.\<close>

definition entry_text :: "string \<Rightarrow> string" where
  "entry_text k = k @ '',[object Object]''"

definition revo_cmp :: "string \<times> revo_key \<Rightarrow> string \<times> revo_key \<Rightarrow> int" where
  "revo_cmp a b = (if js_less (fst b) (fst a) then 1
     else if js_less (entry_text (fst a)) (entry_text (fst b)) then -1 else 0)"

primrec insert_by :: "('a \<Rightarrow> 'a \<Rightarrow> int) \<Rightarrow> 'a \<Rightarrow> 'a list \<Rightarrow> 'a list" where
  "insert_by cmp x [] = [x]"
| "insert_by cmp x (y # ys) = (if cmp x y \<le> 0 then x # y # ys else y # insert_by cmp x ys)"

definition sort_by :: "('a \<Rightarrow> 'a \<Rightarrow> int) \<Rightarrow> 'a list \<Rightarrow> 'a list" where
  "sort_by cmp xs = foldr (insert_by cmp) xs []"

definition revo_entries :: "revo_keys \<Rightarrow> keypair \<Rightarrow> (string \<times> revo_key) list" where
  "revo_entries m acct = sort_by revo_cmp (account_keys m (idForAccount acct))"

definition exportRevo :: "revo_keys \<Rightarrow> string \<Rightarrow> string option \<Rightarrow> string \<times> jsv" where
  "exportRevo m accountId filename = (
     (case filename of Some f \<Rightarrow> f | None \<Rightarrow> ''revo-keys-'' @ take 8 accountId @ ''.json''),
     json_write (JObj (map (\<lambda>(p, rk). (p, revo_key_js rk)) (account_keys m accountId))))"

definition export_revo_click :: "keyring \<Rightarrow> revo_keys \<Rightarrow> (string \<times> jsv) option" where
  "export_revo_click k m = (case active_account k of None \<Rightarrow> None
     | Some a \<Rightarrow> Some (exportRevo m (idForAccount a) (Some (''revo-keys-'' @ kp_name a @ ''.json''))))"

text \<open>The prompt is translated text over the poll and its title.\<close>

definition revo_delete_click ::
  "'k revo_env \<Rightarrow> (int \<Rightarrow> string option \<Rightarrow> bool) \<Rightarrow> string \<Rightarrow> string \<times> revo_key \<Rightarrow> (revo_state, unit) proc" where
  "revo_delete_click V ask accountId e = bind (lift (bigint_of_string (fst e))) (\<lambda>pollId.
     if ask pollId (rk_title (snd e)) then removeForPoll V accountId pollId else ret ())"

text \<open>The order of the list. The comparison of whole entries agrees with that of their keys
  when these are numerals: the comma that follows a key is smaller than every digit.\<close>

lemma js_less_irrefl [simp]: "\<not> js_less a a"
  by (induction a) auto

lemma js_less_trans: "js_less a b \<Longrightarrow> js_less b c \<Longrightarrow> js_less a c"
proof (induction a b arbitrary: c rule: js_less.induct)
  case (2 y ys)
  then show ?case by (cases c) auto
next
  case (3 x xs y ys)
  then show ?case by (cases c) auto
qed simp

lemma js_less_total: "a = b \<or> js_less a b \<or> js_less b a"
proof (induction a b rule: js_less.induct)
  case (1 a)
  then show ?case by (cases a) auto
next
  case (3 x xs y ys)
  have "(of_char x :: nat) < of_char y \<or> x = y \<or> (of_char y :: nat) < of_char x"
    using of_char_eq_iff [of x y, where ?'a = nat] by linarith
  then show ?case using 3 by auto
qed simp

definition above_comma :: "string \<Rightarrow> bool" where
  "above_comma k \<longleftrightarrow> (\<forall>c \<in> set k. (of_char CHR '','' :: nat) < of_char c)"

lemma js_less_text: "above_comma b \<Longrightarrow> js_less a b \<Longrightarrow> js_less (entry_text a) (entry_text b)"
  unfolding entry_text_def above_comma_def
  by (induction a b rule: js_less.induct) auto

lemma revo_cmp_neg: "above_comma (fst a) \<Longrightarrow> above_comma (fst b) \<Longrightarrow> fst a \<noteq> fst b \<Longrightarrow>
    revo_cmp a b = (if js_less (fst a) (fst b) then -1 else 1)"
  using js_less_total [of "fst a" "fst b"] js_less_trans [of "fst a" "fst b" "fst a"]
  by (auto simp: revo_cmp_def js_less_text)

lemma set_insert_by [simp]: "set (insert_by cmp x ys) = insert x (set ys)"
  by (induction ys) auto

lemma distinct_insert_by: "distinct (x # ys) \<Longrightarrow> distinct (insert_by cmp x ys)"
  by (induction ys) auto

lemma insert_by_sorted:
  assumes "sorted_wrt (\<lambda>a b. js_less (fst a) (fst b)) ys" "above_comma (fst x)"
    and "\<forall>y \<in> set ys. above_comma (fst y) \<and> fst y \<noteq> fst x"
  shows "sorted_wrt (\<lambda>a b. js_less (fst a) (fst b)) (insert_by revo_cmp x ys)"
  using assms
proof (induction ys)
  case (Cons y ys)
  then have c: "revo_cmp x y = (if js_less (fst x) (fst y) then -1 else 1)"
    using revo_cmp_neg [of x y] by auto
  show ?case
  proof (cases "js_less (fst x) (fst y)")
    case True
    then show ?thesis using Cons.prems c js_less_trans [OF True] by auto
  next
    case False
    then have "js_less (fst y) (fst x)" using Cons.prems js_less_total [of "fst x" "fst y"] by auto
    then show ?thesis using Cons c False by auto
  qed
qed simp

lemma sort_by_sorted:
  assumes "distinct (map fst es)" "\<forall>e \<in> set es. above_comma (fst e)"
  shows "set (sort_by revo_cmp es) = set es \<and> distinct (sort_by revo_cmp es) \<and>
    sorted_wrt (\<lambda>a b. js_less (fst a) (fst b)) (sort_by revo_cmp es)"
  using assms unfolding sort_by_def
proof (induction es)
  case (Cons e es)
  let ?r = "foldr (insert_by revo_cmp) es []"
  from Cons have r: "set ?r = set es" "distinct ?r" "sorted_wrt (\<lambda>a b. js_less (fst a) (fst b)) ?r"
    and fresh: "\<forall>y \<in> set es. fst y \<noteq> fst e" by (auto simp: image_iff)
  have "distinct (insert_by revo_cmp e ?r)"
    by (rule distinct_insert_by) (use r fresh in auto)
  moreover have "sorted_wrt (\<lambda>a b. js_less (fst a) (fst b)) (insert_by revo_cmp e ?r)"
    by (rule insert_by_sorted) (use r fresh Cons.prems in auto)
  ultimately show ?case using r by simp
qed simp

section \<open>The drawer over the keyring\<close>

text \<open>One event of the panel; the buttons shown depend on the lock, and the cards on the
  accounts.\<close>

inductive drawer_step :: "'k crypto_env \<Rightarrow> drawer \<Rightarrow> drawer \<Rightarrow> bool" for C where
  dw_pass: "kr_locked (dw_kr d) \<Longrightarrow> drawer_step C d (d\<lparr>dw_kr := (dw_kr d)\<lparr>kr_pass := p\<rparr>\<rparr>)"
| dw_confirm: "kr_locked (dw_kr d) \<Longrightarrow> drawer_step C d (d\<lparr>dw_confirmPass := p\<rparr>)"
| dw_fields: "\<not> kr_locked (dw_kr d) \<Longrightarrow>
    drawer_step C d (d\<lparr>dw_newName := n, dw_importName := i, dw_importPrv := q\<rparr>)"
| dw_unlock: "kr_locked (dw_kr d) \<Longrightarrow> kv_crypto V = C \<Longrightarrow> drawer_step C d (run_proc (unlock_click V) d)"
| dw_new: "\<not> kr_locked (dw_kr d) \<Longrightarrow> kv_crypto V = C \<Longrightarrow> drawer_step C d (run_proc (new_click V) d)"
| dw_import: "\<not> kr_locked (dw_kr d) \<Longrightarrow> kv_crypto V = C \<Longrightarrow>
    drawer_step C d (run_proc (import_click V) d)"
| dw_use: "\<not> kr_locked (dw_kr d) \<Longrightarrow> kv_crypto V = C \<Longrightarrow> i < length (kr_accounts (dw_kr d)) \<Longrightarrow>
    drawer_step C d (run_proc (use_click V i) d)"
| dw_delete: "\<not> kr_locked (dw_kr d) \<Longrightarrow> kv_crypto V = C \<Longrightarrow> i < length (kr_accounts (dw_kr d)) \<Longrightarrow>
    drawer_step C d (run_proc (delete_click V i) d)"
| dw_toggle: "drawer_step C d (run_proc (close_effect opened) d)"
| dw_load: "drawer_step C d (run_proc (on_kr load_hasKeyring) d)"
| dw_reload: "drawer_step C d (d\<lparr>dw_kr := reload_page (dw_kr d), dw_confirmPass := [],
    dw_newName := [], dw_importName := [], dw_importPrv := []\<rparr>)"

lemma run_on_kr [simp]: "run_proc (on_kr m) d = d\<lparr>dw_kr := run_proc m (dw_kr d)\<rparr>"
  by (simp add: run_proc_def on_kr_def split: prod.split)

lemma run_bind_ret: "run_proc (bind m (\<lambda>_. ret ())) s = run_proc m s"
  by (simp add: run_proc_def bind_def split: prod.split sum.split)

lemma run_bind_read: "run_proc (bind (read f) g) s = run_proc (g (f s)) s"
  by (simp add: run_proc_def run_bind)

lemmas run_click = run_bind_ret run_bind_read

lemma run_show_alert: "run_proc (show_alert m) d = d\<lparr>dw_alerts := dw_alerts d @ [m]\<rparr>"
  by (simp add: run_proc_def show_alert_def)

lemma run_if: "run_proc (if b then m else k) d = (if b then run_proc m d else run_proc k d)"
  by simp

lemma run_unlock_click: "run_proc (unlock_click V) d =
  (if creating (dw_kr d) \<and> length (kr_pass (dw_kr d)) < 4
   then d\<lparr>dw_alerts := dw_alerts d @ [''Use a passphrase at least 4 characters long.'']\<rparr>
   else if creating (dw_kr d) \<and> kr_pass (dw_kr d) \<noteq> dw_confirmPass d
   then d\<lparr>dw_alerts := dw_alerts d @ [''Passphrases do not match.'']\<rparr>
   else d\<lparr>dw_kr := run_proc (unlock V) (dw_kr d)\<rparr>)"
  by (simp only: unlock_click_def run_click Let_def run_if run_show_alert run_on_kr id_apply)

lemma run_close_effect: "dw_kr (run_proc (close_effect opened) d) =
  (if opened then dw_kr d else run_proc clearImportStatus (dw_kr d))"
  by (simp add: close_effect_def run_proc_def seq_def bind_def on_kr_def clearImportStatus_def)

lemma drawer_step_keyring:
  "drawer_step C d d' \<Longrightarrow> dw_kr d' = dw_kr d \<or> kr_step C (dw_kr d) (dw_kr d')"
proof (induction rule: drawer_step.induct)
  case (dw_unlock d V)
  then show ?case using kr_step.step_unlock [of "dw_kr d" V C] by (simp add: run_unlock_click)
next
  case (dw_new d V)
  then show ?case using kr_step.step_add [of "dw_kr d" V C] by (simp add: new_click_def run_click)
next
  case (dw_import d V)
  then show ?case using kr_step.step_import [of "dw_kr d" V C]
    by (simp add: import_click_def run_click)
next
  case (dw_use d V i)
  then show ?case using kr_step.step_use [of "dw_kr d" V C i] by (simp add: use_click_def)
next
  case (dw_delete d V i)
  then show ?case using kr_step.step_remove [of "dw_kr d" V C i] by (simp add: delete_click_def)
next
  case (dw_toggle d opened)
  then show ?case using kr_step.step_clear [of C "dw_kr d"] by (simp add: run_close_effect)
qed (auto intro: kr_step.intros)

lemma drawer_steps_keyring: "(drawer_step C)\<^sup>*\<^sup>* d d' \<Longrightarrow> (kr_step C)\<^sup>*\<^sup>* (dw_kr d) (dw_kr d')"
proof (induction rule: rtranclp_induct)
  case (step d' d'')
  then show ?case using drawer_step_keyring [of C d' d''] by (auto intro: rtranclp.rtrancl_into_rtrancl)
qed simp

section \<open>Properties\<close>

text \<open>
  C39: whatever the user does in the drawer (fields, buttons, opening and closing it, reloading
  the page), every event is a step of the keyring or none of its business; so, when the
  drawer is unlocked, the store holds exactly the accounts on its cards, one card is marked as
  the active one when there is any, and the button above shows the name on that card.
\<close>

theorem drawer_shows_stored_accounts:
  assumes "crypto_law C" "kr_locked (dw_kr d)" "(drawer_step C)\<^sup>*\<^sup>* d d'" "\<not> kr_locked (dw_kr d')"
  shows "(kr_step C)\<^sup>*\<^sup>* (dw_kr d) (dw_kr d') \<and>
    stored C (kr_pass (dw_kr d')) (kr_accounts (dw_kr d')) (dw_kr d') \<and>
    zk_label (dw_kr d') = map_option kp_name (active_account (dw_kr d')) \<and>
    (active_account (dw_kr d') = None \<longleftrightarrow> kr_accounts (dw_kr d') = [])"
proof -
  have steps: "(kr_step C)\<^sup>*\<^sup>* (dw_kr d) (dw_kr d')" using assms(3) by (rule drawer_steps_keyring)
  moreover have "kr_inv C (dw_kr d)" using assms(2) by (simp add: kr_inv_def)
  ultimately have "kr_inv C (dw_kr d')" using assms(1) inv_steps by blast
  then have "stored C (kr_pass (dw_kr d')) (kr_accounts (dw_kr d')) (dw_kr d')" "0 \<le> kr_active (dw_kr d')"
    and "kr_accounts (dw_kr d') \<noteq> [] \<Longrightarrow> kr_active (dw_kr d') < int (length (kr_accounts (dw_kr d')))"
    using assms(4) by (auto simp: kr_inv_def max_def split: if_splits)
  with steps assms(4) show ?thesis
    by (cases "kr_accounts (dw_kr d') = []")
      (simp_all add: zk_label_def active_account_def at_def nat_less_iff)
qed

definition drawer_of :: "keyring \<Rightarrow> drawer" where
  "drawer_of k = \<lparr>dw_newName = [], dw_importName = [], dw_importPrv = [], dw_confirmPass = [],
     dw_alerts = [], dw_kr = k\<rparr>"

text \<open>The user types a passphrase twice, creates the keyring and adds an account.\<close>

definition typed :: drawer where
  "typed = (drawer_of fresh_keyring)\<lparr>dw_confirmPass := ''pass''\<rparr>"

definition drawer_run :: drawer where
  "drawer_run = run_proc (new_click yes_env) (run_proc (unlock_click yes_env) typed)"

lemma typed_unlocked: "run_proc (unlock_click yes_env) typed =
    typed\<lparr>dw_kr := run_proc (unlock yes_env) fresh_keyring\<rparr>"
  by (simp add: run_unlock_click typed_def drawer_of_def creating_def fresh_keyring_def)

lemma drawer_run_state: "\<not> kr_locked (dw_kr (run_proc (unlock_click yes_env) typed))"
    "\<not> kr_locked (dw_kr drawer_run)" "map kp_name (kr_accounts (dw_kr drawer_run)) = [''acct-1'']"
    "kr_active (dw_kr drawer_run) = 0"
proof -
  have d: "to_string 10 1 = ''1''" by code_simp
  show "\<not> kr_locked (dw_kr (run_proc (unlock_click yes_env) typed))"
    "\<not> kr_locked (dw_kr drawer_run)" "map kp_name (kr_accounts (dw_kr drawer_run)) = [''acct-1'']"
    "kr_active (dw_kr drawer_run) = 0"
    by (simp_all add: drawer_run_def typed_unlocked new_click_def run_click)
      (simp_all add: run_proc_def unlock_def proc_simps setActive_run fresh_keyring_def addNew_def
        persist_def acct_name_def genAccount_def typed_def drawer_of_def d split: prod.split)
qed

theorem drawer_shows_stored_accounts_witness:
  "zk_label (dw_kr drawer_run) = Some ''acct-1'' \<and>
   stored tag_crypto (kr_pass (dw_kr drawer_run)) (kr_accounts (dw_kr drawer_run)) (dw_kr drawer_run)"
proof -
  have l: "kr_locked (dw_kr typed)" by (simp add: typed_def drawer_of_def fresh_keyring_def)
  have c: "kv_crypto yes_env = tag_crypto" by (simp add: yes_env_def)
  have "drawer_step tag_crypto typed (run_proc (unlock_click yes_env) typed)"
    "drawer_step tag_crypto (run_proc (unlock_click yes_env) typed) drawer_run"
    using dw_unlock [OF l c] dw_new [OF drawer_run_state(1) c] by (simp_all add: drawer_run_def)
  then have "(drawer_step tag_crypto)\<^sup>*\<^sup>* typed drawer_run"
    by (meson rtranclp.rtrancl_into_rtrancl rtranclp.rtrancl_refl)
  from drawer_shows_stored_accounts [OF tag_crypto_law(1) l this drawer_run_state(2)]
  show ?thesis using drawer_run_state(3,4)
    by (cases "kr_accounts (dw_kr drawer_run)") (auto simp: active_account_def)
qed

text \<open>
  In a browser without a keyring, the button creates one exactly when the look-up of the
  store has not come back yet, or the passphrase has at least four characters and was typed
  twice. So a click before the look-up has come back seals a new keyring under any passphrase,
  the empty one included; afterwards a refused passphrase only alerts.
\<close>

theorem new_keyring_passphrase:
  assumes "kr_idb (dw_kr d) KEYRING_DB_KEY = None" "kr_locked (dw_kr d)"
  shows "let d' = run_proc (unlock_click V) d in
    (kr_idb (dw_kr d') KEYRING_DB_KEY \<noteq> None \<longleftrightarrow>
      (kr_hasKeyring (dw_kr d) = Some False \<longrightarrow>
        4 \<le> length (kr_pass (dw_kr d)) \<and> kr_pass (dw_kr d) = dw_confirmPass d)) \<and>
    (if kr_idb (dw_kr d') KEYRING_DB_KEY = None
     then dw_kr d' = dw_kr d \<and> length (dw_alerts d') = Suc (length (dw_alerts d))
     else \<not> kr_locked (dw_kr d') \<and> kr_accounts (dw_kr d') = [] \<and> dw_alerts d' = dw_alerts d)"
proof -
  let ?k = "run_proc (unlock V) (dw_kr d)"
  have "kr_idb ?k KEYRING_DB_KEY \<noteq> None" "\<not> kr_locked ?k" "kr_accounts ?k = []"
    using assms(1) by (simp_all add: run_proc_def unlock_def proc_simps setActive_run)
  then show ?thesis using assms(1)
    unfolding Let_def run_unlock_click creating_def by auto
qed

theorem new_keyring_passphrase_witness:
  "let d = drawer_of (fresh_keyring\<lparr>kr_pass := [], kr_hasKeyring := None\<rparr>) in
   kr_idb (dw_kr (run_proc (unlock_click yes_env) d)) KEYRING_DB_KEY \<noteq> None"
  using new_keyring_passphrase [of "drawer_of (fresh_keyring\<lparr>kr_pass := [], kr_hasKeyring := None\<rparr>)" yes_env]
  by (simp add: drawer_of_def fresh_keyring_def Let_def)

text \<open>
  The default label counts the accounts, so it can be taken: after accounts made with blank
  labels, deleting any but the last of them and making a new one with a blank label gives two
  accounts of the same name, which an import refuses.
\<close>

theorem default_name_repeats:
  assumes "map kp_name (kr_accounts (dw_kr d)) = map (acct_name []) [0..<n]" "Suc i < n"
    and "dw_newName d = []"
    and "kv_confirm V (delete_prompt (acct_name [] i))"
  shows "\<not> distinct (map kp_name
    (kr_accounts (dw_kr (run_proc (new_click V) (run_proc (delete_click V i) d)))))"
proof -
  let ?as = "kr_accounts (dw_kr d)"
  let ?n = "take i ?as @ drop (Suc i) ?as"
  have len: "length ?as = n" using arg_cong [OF assms(1), of length] by simp
  have nth: "kp_name (?as ! j) = acct_name [] j" if "j < n" for j
    using arg_cong [OF assms(1), of "\<lambda>xs. xs ! j"] that len by simp
  have "?as ! (n - 1) \<in> set (drop (Suc i) ?as)"
    using assms(2) len
    by (auto simp: in_set_conv_nth Suc_diff_Suc numeral_2_eq_2 intro!: exI [of _ "n - Suc (Suc i)"])
  then have last: "acct_name [] (n - 1) \<in> kp_name ` set ?n"
    using nth [of "n - 1"] assms(2) by (metis One_nat_def Un_iff diff_Suc_less image_eqI less_trans
        set_append zero_less_Suc)
  have "kr_accounts (run_proc (removeAt V i) (dw_kr d)) = ?n"
    using removeAt_run [of i "dw_kr d" V] assms(2,4) nth [of i] len
    by (simp add: run_proc_def setActive_run persist_def)
  moreover have "length ?n = n - 1" using assms(2) len by simp
  ultimately have "map kp_name (kr_accounts (dw_kr (run_proc (new_click V) (run_proc (delete_click V i) d))))
      = map kp_name ?n @ [acct_name [] (n - 1)]"
    using assms(3) by (simp add: new_click_def run_click delete_click_def)
      (simp add: run_proc_def addNew_def proc_simps persist_def genAccount_def split: prod.split)
  then show ?thesis using last by (simp only: distinct_append list.set_map distinct.simps) auto
qed

theorem default_name_repeats_witness:
  "let d = drawer_of (fresh_keyring\<lparr>kr_accounts := [named (acct_name [] 0), named (acct_name [] 1)]\<rparr>) in
   \<not> distinct (map kp_name
     (kr_accounts (dw_kr (run_proc (new_click yes_env) (run_proc (delete_click yes_env 0) d)))))"
  using default_name_repeats [of "drawer_of (fresh_keyring\<lparr>kr_accounts := [named (acct_name [] 0), named (acct_name [] 1)]\<rparr>)" 2 0 yes_env]
  by (simp add: drawer_of_def named_def yes_env_def upt_rec Let_def)

end
