(* ===== verification/Scripts.thy ===== *)
theory Scripts
  imports PollCreate CensusPages KeyringCorrect
begin

text \<open>
  The command-line programs under \<open>scripts/\<close> and the helpers of \<open>helpers/utils.ts\<close> that send
  their transactions. A program is a procedure over what it leaves behind: printed lines,
  files, transactions sent. The connection, the compilation of messages and the reading of
  public keys are \<open>script_env\<close>. The files of \<open>genExample.ts\<close> are followed into the pages that
  read them.
\<close>

section \<open>The world of a script\<close>

datatype file_data = FText string | FBytes "byte list"

record ver_tx =
  vt_payer :: pubkey
  vt_blockhash :: string
  vt_ixs :: "tx_ix list"
  vt_signers :: "pubkey list"

datatype sent_tx = SentTx "tx_ix list" "pubkey list" | SentVersioned ver_tx

record script =
  sp_out :: "string list"
  sp_err :: "string list"
  sp_exit :: "nat option"
  sp_files :: "string \<Rightarrow> file_data option"
  sp_asked :: nat
  sp_sent :: "sent_tx list"

text \<open>\<open>sv_latest n\<close> is the answer to the n-th request for the latest blockhash;
  \<open>sv_transfer\<close> is \<open>SystemProgram.transfer\<close>; \<open>sv_key\<close> is \<open>new PublicKey(..)\<close> and
  \<open>sv_show_key\<close> its \<open>toString\<close>.\<close>

record script_env =
  sv_sdk :: sdk_env
  sv_payer :: pubkey
  sv_latest :: "nat \<Rightarrow> (string \<times> int) res"
  sv_send :: "sent_tx \<Rightarrow> string res"
  sv_confirm :: "string \<times> int \<times> string \<Rightarrow> unit res"
  sv_transfer :: "pubkey \<Rightarrow> pubkey \<Rightarrow> int \<Rightarrow> instruction"
  sv_key :: "string option \<Rightarrow> pubkey res"
  sv_show_key :: "pubkey \<Rightarrow> string"
  sv_keys :: key_env
  sv_random :: "nat \<Rightarrow> byte list"
  sv_P :: hash

definition print_line :: "string \<Rightarrow> (script, unit) proc" where
  "print_line l = update (sp_out_update (\<lambda>ls. ls @ [l]))"

definition print_error :: "string \<Rightarrow> (script, unit) proc" where
  "print_error l = update (sp_err_update (\<lambda>ls. ls @ [l]))"

definition write_file :: "string \<Rightarrow> file_data \<Rightarrow> (script, unit) proc" where
  "write_file name d = update (sp_files_update (\<lambda>fs. fs(name \<mapsto> d)))"

definition getLatestBlockhash :: "script_env \<Rightarrow> (script, string \<times> int) proc" where
  "getLatestBlockhash E = bind (read sp_asked) (\<lambda>n.
     seq (update (sp_asked_update Suc)) (lift (sv_latest E n)))"

section \<open>Sending\<close>

definition toVersionedTx ::
  "script_env \<Rightarrow> tx_ix list \<Rightarrow> pubkey \<Rightarrow> (script, ver_tx \<times> (string \<times> int)) proc" where
  "toVersionedTx E ixs payerKey = bind (getLatestBlockhash E) (\<lambda>latest.
     ret (\<lparr>vt_payer = payerKey, vt_blockhash = fst latest, vt_ixs = ixs, vt_signers = []\<rparr>, latest))"

definition sendAndConfirmVersionedTx ::
  "script_env \<Rightarrow> transaction \<Rightarrow> pubkey list \<Rightarrow> pubkey \<Rightarrow> (script, string) proc" where
  "sendAndConfirmVersionedTx E tx signers payerKey =
     bind (toVersionedTx E (tx_ixs tx) payerKey) (\<lambda>(verTx, latest).
     let signed = verTx\<lparr>vt_signers := signers\<rparr> in
     bind (lift (sv_send E (SentVersioned signed))) (\<lambda>signature.
     seq (update (sp_sent_update (\<lambda>ts. ts @ [SentVersioned signed])))
    (bind (lift (sv_confirm E (fst latest, snd latest, signature))) (\<lambda>_. ret signature))))"

definition sendAndConfirmTransaction ::
  "script_env \<Rightarrow> tx_ix list \<Rightarrow> pubkey list \<Rightarrow> (script, unit) proc" where
  "sendAndConfirmTransaction E ixs signers =
     bind (lift (sv_send E (SentTx ixs signers))) (\<lambda>_.
       update (sp_sent_update (\<lambda>ts. ts @ [SentTx ixs signers])))"

definition disperse :: "script_env \<Rightarrow> pubkey list \<Rightarrow> pubkey \<Rightarrow> int \<Rightarrow> (script, unit) proc" where
  "disperse E toPubkeys fromKeypair amount = sendAndConfirmTransaction E
     (map (\<lambda>to. Call (sv_transfer E fromKeypair to amount)) toPubkeys) [fromKeypair]"

definition transfer :: "script_env \<Rightarrow> pubkey \<Rightarrow> pubkey \<Rightarrow> int \<Rightarrow> (script, unit) proc" where
  "transfer E from to lamports = sendAndConfirmTransaction E
     [Call (sv_transfer E from to lamports)] [from]"

text \<open>\<open>toBigint\<close>: a \<open>BN\<close> goes through its hexadecimal numeral, which for a negative number
  starts with a sign and is no numeral after \<open>0x\<close>.\<close>

datatype bn_or_bigint = IsBigint int | IsBN int

definition toBigint :: "bn_or_bigint \<Rightarrow> int res" where
  "toBigint v = (case v of IsBigint n \<Rightarrow> Inr n | IsBN n \<Rightarrow> bigint_of_string (''0x'' @ to_string 16 n))"

section \<open>Programs\<close>

definition exit_with :: "nat \<Rightarrow> (script, unit) proc" where
  "exit_with n = update (sp_exit_update (\<lambda>_. Some n))"

definition send_ix :: "script_env \<Rightarrow> instruction_with_cu \<Rightarrow> (script, unit) proc" where
  "send_ix E ix = bind (getLatestBlockhash E) (\<lambda>b.
     bind (sendAndConfirmVersionedTx E (toTransaction [ix] (fst b) (sv_payer E)) [sv_payer E] (sv_payer E))
       (\<lambda>signature. print_line (''Transaction signature: '' @ signature)))"

definition error_text :: "js_error \<Rightarrow> string" where
  "error_text e = (case e of Thrown m \<Rightarrow> ''Error: '' @ m | TypeError \<Rightarrow> ''TypeError''
     | RangeError \<Rightarrow> ''RangeError'' | SyntaxError \<Rightarrow> ''SyntaxError'' | UndefinedArg \<Rightarrow> ''TypeError'')"

text \<open>\<open>catch (e)\<close> with the expectation that the account exists already.\<close>

definition expect_in_use :: "(script, unit) proc \<Rightarrow> (script, unit) proc" where
  "expect_in_use m = (\<lambda>s. case m s of
       (Inl e, t) \<Rightarrow> (if includes_str (error_text e) ''already in use'' then (Inr (), t)
                      else (Inl (Thrown ''AssertionError''), t))
     | r \<Rightarrow> r)"

text \<open>\<open>argv\<close> holds the interpreter and the script before the arguments. \<open>usage\<close> is an
  early exit, after which nothing runs.\<close>

definition moot_initialize_main :: "script_env \<Rightarrow> string list \<Rightarrow> (script, unit) proc" where
  "moot_initialize_main E argv =
     (if length argv < 2 + 1
      then seq (print_error ''Usage: initialize <fee>'') (exit_with 1)
      else bind (lift (bigint_opt (at argv 2))) (\<lambda>fee.
        expect_in_use (send_ix E
          (initialize (sv_sdk E) (sv_payer E) (sv_payer E) fee (sv_payer E)))))"

text \<open>An endpoint that was not given is \<open>undefined\<close>, and Anchor cannot encode it.\<close>

definition relayer_initialize_main :: "script_env \<Rightarrow> string list \<Rightarrow> (script, unit) proc" where
  "relayer_initialize_main E argv =
     (if length argv < 2 + 2
      then seq (print_error ''Usage: initialize <fee> <feeKey> <endpoint>'') (exit_with 1)
      else bind (lift (bigint_opt (at argv 2))) (\<lambda>fee.
        bind (lift (sv_key E (at argv 3))) (\<lambda>feeKey.
        expect_in_use (case at argv 4 of
            None \<Rightarrow> throw UndefinedArg
          | Some endpoint \<Rightarrow> send_ix E (relayer_initialize (sv_sdk E)
              \<lparr>ri_payer = sv_payer E, ri_admin = sv_payer E, ri_relayerEndpoint = endpoint,
               ri_relayerFeeKey = feeKey, ri_fee = fee\<rparr>)))))"

definition relayer_update_main :: "script_env \<Rightarrow> pubkey \<Rightarrow> string list \<Rightarrow> (script, unit) proc" where
  "relayer_update_main E systemProgram argv =
     (if length argv < 2 + 3
      then seq (print_error ''Usage: updateConfig <fee> <feeKey> <endpoint>'') (exit_with 1)
      else bind (lift (bigint_opt (at argv 2))) (\<lambda>fee.
        bind (lift (sv_key E (at argv 3))) (\<lambda>feeKey.
          send_ix E (relayer_updateConfig (sv_sdk E) systemProgram
              \<lparr>ru_payer = sv_payer E, ru_oldAdmin = sv_payer E, ru_newAdmin = sv_payer E,
               ru_relayerEndpoint = argv ! 4, ru_relayerFeeKey = feeKey, ru_fee = fee\<rparr>))))"

record relayer_config_view =
  rcv_admin :: pubkey
  rcv_fee :: int
  rcv_endpoint :: string
  rcv_feeKey :: pubkey

definition fetchConfig_main ::
  "script_env \<Rightarrow> (string \<Rightarrow> byte list \<Rightarrow> relayer_config_view res) \<Rightarrow>
   (pubkey \<Rightarrow> byte list option option) \<Rightarrow> (script, unit) proc" where
  "fetchConfig_main E decode accounts =
     bind (lift (fetchRelayerConfig (sv_sdk E) decode accounts)) (\<lambda>config. case config of
         None \<Rightarrow> print_error ''config not initialized''
       | Some c \<Rightarrow>
           seq (print_line (''Admin: '' @ sv_show_key E (rcv_admin c)))
          (seq (print_line (''Fee: '' @ to_string 10 (rcv_fee c)))
          (seq (print_line (''Relayer endpoint: '' @ rcv_endpoint c))
               (print_line (''Relayer fee key: '' @ sv_show_key E (rcv_feeKey c))))))"

definition bytesToHex :: "byte list \<Rightarrow> string" where
  "bytesToHex bs = concat (map byte_hex bs)"

definition genKey_main :: "script_env \<Rightarrow> (script, unit) proc" where
  "genKey_main E = (case genBabyJubKeypair (sv_keys E) (sv_random E 0) of (prv, sk, pub) \<Rightarrow>
     print_line (''Private key: 0x'' @ bytesToHex prv @ [CHR 0x0A] @ ''Public key: 0x'' @
       to_string 16 (fst pub) @ '' 0x'' @ to_string 16 (snd pub)))"

section \<open>The example election\<close>

definition EXAMPLE_DEPTH :: nat where "EXAMPLE_DEPTH = 40"
definition N_VOTERS :: nat where "N_VOTERS = 3"

definition voter_file :: "nat \<Rightarrow> string" where
  "voter_file i = ''example/voter'' @ to_string 10 (int i + 1) @ ''_prv.txt''"

text \<open>Voter \<open>i\<close> takes the i-th random bytes; the key file is written before the leaf is
  pushed.\<close>

primrec voter_loop :: "script_env \<Rightarrow> nat \<Rightarrow> nat \<Rightarrow> int list \<Rightarrow> (script, int list) proc" where
  "voter_loop E 0 i census = ret census"
| "voter_loop E (Suc k) i census =
     (case genBabyJubKeypair (sv_keys E) (sv_random E i) of (prv, sk, pub) \<Rightarrow>
       seq (write_file (voter_file i) (FText (''0x'' @ bytesToHex prv)))
           (voter_loop E k (Suc i) (census @ [sv_P E [fst pub, snd pub]])))"

definition genExample_main :: "script_env \<Rightarrow> (script, unit) proc" where
  "genExample_main E =
     bind (voter_loop E N_VOTERS 0 []) (\<lambda>census.
     seq (write_file ''example/tallier_prv.txt''
            (FText (''0x'' @ bytesToHex (fst (genBabyJubKeypair (sv_keys E) (sv_random E N_VOTERS))))))
    (seq (write_file ''example/census.bin'' (FBytes (concat (map toBytesBE32Buf census))))
    (bind (lift (getMerkleRoot (sv_P E) EXAMPLE_DEPTH census)) (\<lambda>root.
     seq (write_file ''example/census_root.txt'' (FText (''0x'' @ to_string 16 root)))
         (print_line ''Wrote example setup to example/ directory'')))))"

section \<open>The verifying keys\<close>

record vkey =
  vk_alpha_1 :: "string list"
  vk_beta_2 :: "string list list"
  vk_gamma_2 :: "string list list"
  vk_delta_2 :: "string list list"
  vk_IC :: "string list list"

text \<open>An array in a template literal: its elements, joined by commas.\<close>

fun join_comma :: "string list \<Rightarrow> string" where
  "join_comma [] = []"
| "join_comma [x] = x"
| "join_comma (x # xs) = x @ '','' @ join_comma xs"

definition print_bytes :: "byte list \<Rightarrow> string" where
  "print_bytes bs = join_comma (map (\<lambda>b. to_string 10 (uint b)) bs)"

definition nl :: string where "nl = [CHR 0x0A]"

definition vk_field :: "string \<Rightarrow> byte list \<Rightarrow> string" where
  "vk_field name bs = ''    '' @ name @ '': ['' @ print_bytes bs @ ''],'' @ nl"

text \<open>\<open>parsed\<close> is what \<open>JSON.parse\<close> made of the file.\<close>

definition formatVk :: "vkey res \<Rightarrow> string res" where
  "formatVk parsed = rbind parsed (\<lambda>vk.
     rbind (serG1 (map Some (vk_alpha_1 vk))) (\<lambda>alpha. rbind (serG2 (vk_beta_2 vk)) (\<lambda>beta.
     rbind (serG2 (vk_gamma_2 vk)) (\<lambda>gamma. rbind (serG2 (vk_delta_2 vk)) (\<lambda>delta.
     rbind (mapM (\<lambda>p. serG1 (map Some p)) (vk_IC vk)) (\<lambda>ic. Inr (
       ''Groth16Verifyingkey {'' @ nl @
       ''    nr_pubinputs: '' @ to_string 10 (int (length (vk_IC vk)) - 1) @ '','' @ nl @
       vk_field ''vk_alpha_g1'' alpha @ vk_field ''vk_beta_g2'' beta @
       vk_field ''vk_gamme_g2'' gamma @ vk_field ''vk_delta_g2'' delta @
       ''    vk_ic: &['' @ join_comma (map (\<lambda>x. nl @ ''        ['' @ print_bytes x @ '']'') ic) @
       nl @ ''    ],'' @ nl @ ''};'')))))))"

definition exportVk_main :: "(string \<Rightarrow> vkey res) \<Rightarrow> (script, unit) proc" where
  "exportVk_main parse_file =
     bind (lift (formatVk (parse_file ''./build/Vote/groth16_vkey.json''))) (\<lambda>v.
     seq (print_line (''pub const VK_VOTE: Groth16Verifyingkey = '' @ v)) (seq (print_line [])
    (bind (lift (formatVk (parse_file ''./build/Tally/groth16_vkey.json''))) (\<lambda>t.
     seq (print_line (''pub const VK_TALLY: Groth16Verifyingkey = '' @ t)) (seq (print_line [])
    (bind (lift (formatVk (parse_file ''./build/Relay/groth16_vkey.json''))) (\<lambda>r.
     print_line (''pub const VK_RELAY: Groth16Verifyingkey = '' @ r))))))))"

section \<open>The key files\<close>

definition hex_digits :: "byte list \<Rightarrow> int list" where
  "hex_digits bs = be_digits 16 (2 * length bs) (be_val 256 (map uint bs))"

lemma bytesToHex_digits: "bytesToHex bs = map digit_char (hex_digits bs)"
proof -
  have "map byte_hex bs = map (map digit_char) (map (be_digits 16 2) (map uint bs))"
    by (simp add: byte_hex_digits del: be_digits.simps)
  then have "bytesToHex bs = map digit_char (concat (map (be_digits 16 2) (map uint bs)))"
    by (simp only: bytesToHex_def map_concat)
  also have "map uint bs = be_digits 256 (length bs) (be_val 256 (map uint bs))"
    by (subst be_digits_be_val [symmetric]) (simp_all add: digits_ok_def byte_range)
  finally show ?thesis by (simp only: be_digits_256_16 hex_digits_def)
qed

lemma hex_digits_ok [simp]: "digits_ok 16 (hex_digits bs)" "length (hex_digits bs) = 2 * length bs"
  by (simp_all add: hex_digits_def)

lemma digit_char_plain:
  assumes "0 \<le> d" "d < 16"
  shows "\<not> js_space (digit_char d)" "lower_char (digit_char d) = digit_char d"
    "let n = of_char (digit_char d) :: nat in 48 \<le> n \<and> n \<le> 57 \<or> 97 \<le> n \<and> n \<le> 102"
  using int_lt_16_cases [OF assms]
  by (auto simp: digit_char_def js_space_def lower_char_def Let_def)

lemma import_hex_file:
  assumes "bs \<noteq> []"
  shows "import_hex (''0x'' @ bytesToHex bs) = bytesToHex bs" "lower_hex (bytesToHex bs)"
proof -
  have ds: "0 \<le> d \<and> d < 16" if "d \<in> set (hex_digits bs)" for d
    using that hex_digits_ok(1) [of bs] by (auto simp: digits_ok_def)
  have ne: "hex_digits bs \<noteq> []"
    using assms hex_digits_ok(2) [of bs] by (cases "hex_digits bs") auto
  have x: "\<not> js_space (CHR ''0'')" "lower_char (CHR ''0'') = CHR ''0''" "lower_char (CHR ''x'') = CHR ''x''"
    by (simp_all add: js_space_def lower_char_def)
  have l: "\<not> js_space (last (bytesToHex bs))" "bytesToHex bs \<noteq> []"
  proof -
    have "last (bytesToHex bs) = digit_char (last (hex_digits bs))"
      unfolding bytesToHex_digits using ne by (rule last_map)
    moreover have "0 \<le> last (hex_digits bs) \<and> last (hex_digits bs) < 16"
      by (rule ds) (rule last_in_set [OF ne])
    ultimately show "\<not> js_space (last (bytesToHex bs))" using digit_char_plain(1) by metis
    show "bytesToHex bs \<noteq> []" unfolding bytesToHex_digits using ne by (simp only: map_is_Nil_conv not_False_eq_True)
  qed
  have "trim (''0x'' @ bytesToHex bs) = ''0x'' @ bytesToHex bs"
    by (rule trim_id, rule disjI2) (simp only: last_appendR l list.sel(1) x(1) simp_thms append.simps last_ConsR list.distinct)
  moreover have "toLowerCase (''0x'' @ bytesToHex bs) = ''0x'' @ bytesToHex bs"
    using ds digit_char_plain(2) x(2,3) by (simp add: toLowerCase_def bytesToHex_digits)
  ultimately show "import_hex (''0x'' @ bytesToHex bs) = bytesToHex bs"
    by (simp add: import_hex_def Let_def)
  show "lower_hex (bytesToHex bs)"
    using ds digit_char_plain(3) ne by (auto simp: lower_hex_def bytesToHex_digits list_all_iff)
qed

lemma strip_0x_plain: "digits_ok 16 ds \<Longrightarrow> strip_0x (map digit_char ds) = map digit_char ds"
  "strip_0x (''0x'' @ s) = s"
  using radix_prefix_hex [of ds] by (auto simp: strip_0x_def) (simp add: radix_prefix_def)+

lemma be_val_hex_digits: "be_val 16 (hex_digits bs) = be_val 256 (map uint bs)"
proof -
  have "(16 :: int) ^ (2 * length bs) = 256 ^ length (map uint bs)" by (simp add: power_mult)
  moreover have "digits_ok 256 (map uint bs)" by (simp add: digits_ok_def byte_range)
  ultimately show ?thesis
    using be_val_range [of 256 "map uint bs"] by (simp only: hex_digits_def be_val_be_digits) simp
qed

lemma hexToBytes32_file: "length bs = 32 \<Longrightarrow> hexToBytes32 (bytesToHex bs) = Inr bs"
  by (simp add: hexToBytes32_iff bytesToHex_digits strip_0x_plain be_val_hex_digits)

lemma hexToBytes32_root:
  assumes "0 \<le> n" "n < FP"
  shows "hexToBytes32 (''0x'' @ to_string 16 n) = Inr (toBytesBE32 n)"
proof -
  have "n < 16 ^ 64" using assms FP_lt_256 by (simp add: power_mult [of 16 2 32, simplified])
  then have "length (min_digits 16 n) \<le> 64" using assms(1) by (intro length_min_digits) simp_all
  moreover have "read_digits 16 (map digit_char (min_digits 16 n)) = Some (min_digits 16 n)"
    using assms(1) by (simp add: min_digits_ok)
  moreover have "to_string 16 n = map digit_char (min_digits 16 n)"
    using assms(1) by (simp add: to_string_def)
  ultimately show ?thesis using assms
    by (simp only: hexToBytes32_iff strip_0x_plain)
      (simp add: toBytesBE32_def val_toBytesBE32Buf be_val_min_digits)
qed

section \<open>The example files\<close>

definition voter_key :: "script_env \<Rightarrow> nat \<Rightarrow> int \<times> int" where
  "voter_key E i = ke_mulBase (sv_keys E) (prv2sk (sv_keys E) (sv_random E i))"

definition voter_leaf :: "script_env \<Rightarrow> nat \<Rightarrow> int" where
  "voter_leaf E i = sv_P E [fst (voter_key E i), snd (voter_key E i)]"

definition voter_text :: "script_env \<Rightarrow> nat \<Rightarrow> string" where
  "voter_text E i = ''0x'' @ bytesToHex (sv_random E i)"

primrec put_voters :: "script_env \<Rightarrow> nat \<Rightarrow> nat \<Rightarrow> (string \<Rightarrow> file_data option) \<Rightarrow> (string \<Rightarrow> file_data option)" where
  "put_voters E 0 i fs = fs"
| "put_voters E (Suc k) i fs = put_voters E k (Suc i) (fs(voter_file i \<mapsto> FText (voter_text E i)))"

lemma voter_loop_run: "voter_loop E k i c s =
    (Inr (c @ map (voter_leaf E) [i..<i + k]), s\<lparr>sp_files := put_voters E k i (sp_files s)\<rparr>)"
proof (induction k arbitrary: i c s)
  case (Suc k)
  have "[i..<i + Suc k] = i # [Suc i..<Suc i + k]" by (simp add: upt_conv_Cons)
  then show ?case using Suc
    by (simp add: genBabyJubKeypair_def write_file_def proc_simps voter_leaf_def voter_key_def
        voter_text_def Let_def fun_upd_def del: upt_Suc)
qed simp

lemma voter_file_inj: "voter_file i = voter_file j \<Longrightarrow> i = j"
proof -
  assume "voter_file i = voter_file j"
  then have "to_string 10 (int i + 1) = to_string 10 (int j + 1)" by (simp add: voter_file_def)
  then show ?thesis using to_string_inj by fastforce
qed

lemma put_voters_other: "(\<And>j. i \<le> j \<Longrightarrow> voter_file j \<noteq> f) \<Longrightarrow> put_voters E k i fs f = fs f"
  by (induction k arbitrary: i fs) auto

lemma put_voters_file: "i \<le> j \<Longrightarrow> j < i + k \<Longrightarrow>
    put_voters E k i fs (voter_file j) = Some (FText (voter_text E j))"
proof (induction k arbitrary: i fs)
  case (Suc k)
  show ?case
  proof (cases "i = j")
    case True
    have "put_voters E k (Suc i) (fs(voter_file i \<mapsto> FText (voter_text E i))) (voter_file j)
        = (fs(voter_file i \<mapsto> FText (voter_text E i))) (voter_file j)"
      by (rule put_voters_other) (use True voter_file_inj in force)
    then show ?thesis using True by simp
  next
    case False
    then show ?thesis using Suc by simp
  qed
qed simp

lemma voter_file_neq: "voter_file i \<noteq> ''example/tallier_prv.txt''" "voter_file i \<noteq> ''example/census.bin''"
    "voter_file i \<noteq> ''example/census_root.txt''"
  by (simp_all add: voter_file_def)

definition example_leaves :: "script_env \<Rightarrow> int list" where
  "example_leaves E = map (voter_leaf E) [0..<N_VOTERS]"

lemma genExample_run:
  "\<exists>t root. genExample_main E s = (Inr (), t) \<and> getMerkleRoot (sv_P E) EXAMPLE_DEPTH (example_leaves E) = Inr root \<and>
    sp_files t ''example/census.bin'' = Some (FBytes (concat (map toBytesBE32Buf (example_leaves E)))) \<and>
    sp_files t ''example/census_root.txt'' = Some (FText (''0x'' @ to_string 16 root)) \<and>
    (\<forall>i < N_VOTERS. sp_files t (voter_file i) = Some (FText (voter_text E i)))"
proof -
  let ?ls = "example_leaves E"
  have "?ls \<noteq> []" by (simp add: example_leaves_def N_VOTERS_def)
  then have r: "getMerkleRoot (sv_P E) EXAMPLE_DEPTH ?ls = Inr (node (sv_P E) ?ls EXAMPLE_DEPTH 0)"
    by (rule getMerkleRoot_node)
  have l: "voter_loop E N_VOTERS 0 [] s = (Inr ?ls, s\<lparr>sp_files := put_voters E N_VOTERS 0 (sp_files s)\<rparr>)"
    unfolding voter_loop_run example_leaves_def by (simp only: append_Nil add_0)
  have v: "put_voters E N_VOTERS 0 fs (voter_file i) = Some (FText (voter_text E i))" if "i < N_VOTERS" for fs i
    using that by (intro put_voters_file) simp_all
  show ?thesis
    unfolding genExample_main_def bind_def [of "voter_loop E N_VOTERS 0 []"] l
    by (simp add: write_file_def print_line_def proc_simps r v voter_file_neq)
qed

section \<open>Properties\<close>

lemma import_voter_file:
  assumes "length bs = 32" "name \<noteq> []" "kr_accounts k = []"
  shows "kr_accounts (run_proc (importPrv V name (''0x'' @ bytesToHex bs)) k) =
    [\<lparr>kp_name = name, kp_prv = bs, kp_sk = prv2sk (kv_keys V) bs,
      kp_pub = ke_mulBase (kv_keys V) (prv2sk (kv_keys V) bs), kp_createdAt = kv_now V\<rparr>]"
proof -
  have bs: "bs \<noteq> []" using assms(1) by auto
  have len: "length (bytesToHex bs) = 64" using assms(1) by (simp add: bytesToHex_digits)
  show ?thesis
    unfolding importPrv_def import_hex_file(1) [OF bs]
    by (simp add: run_proc_def proc_simps Let_def import_hex_file(2) [OF bs] assms len
        hexToBytes32_file persist_def)
qed

text \<open>
  C40: the files of the example fit together and fit the pages that read them. The poll page
  accepts the census file, counts three voters, and computes the very root the script printed;
  each key file, imported into an empty keyring, gives the account whose leaf stands in the
  census at the place of the voter.
\<close>

theorem example_fits_the_pages:
  assumes "hash_law (sv_P E)" "ce_P W = sv_P E" "kv_keys V = sv_keys E"
    and "\<forall>i < N_VOTERS. length (sv_random E i) = 32" "name \<noteq> []" "kr_accounts k = []"
  shows "\<exists>t bin rootText page leaves. genExample_main E s = (Inr (), t) \<and>
    sp_files t ''example/census.bin'' = Some (FBytes bin) \<and>
    sp_files t ''example/census_root.txt'' = Some (FText rootText) \<and>
    onCensusFile W bin p = (Inr (), page) \<and> pf_censusCount (cp_form page) = Some 3 \<and>
    parseUploadedCensus bin = Inr leaves \<and>
    (\<exists>b. hexToBytes32 rootText = Inr b \<and> hexToBytes32 (pf_censusRootHex (cp_form page)) = Inr b) \<and>
    (\<forall>i < N_VOTERS. \<exists>txt a. sp_files t (voter_file i) = Some (FText txt) \<and>
      kr_accounts (run_proc (importPrv V name txt) k) = [a] \<and>
      sv_P E [fst (kp_pub a), snd (kp_pub a)] = leaves ! i)"
proof -
  let ?ls = "example_leaves E"
  have range: "0 \<le> x \<and> x < FP" if "x \<in> set ?ls" for x
    using that assms(1) by (auto simp: example_leaves_def voter_leaf_def hash_law_def)
  have parse: "parseUploadedCensus (concat (map toBytesBE32Buf ?ls)) = Inr ?ls"
    using parse_census_concat [of ?ls] range by (simp add: toBytesBE32_def [abs_def])
  obtain t root where t: "genExample_main E s = (Inr (), t)"
      "getMerkleRoot (sv_P E) EXAMPLE_DEPTH ?ls = Inr root"
      "sp_files t ''example/census.bin'' = Some (FBytes (concat (map toBytesBE32Buf ?ls)))"
      "sp_files t ''example/census_root.txt'' = Some (FText (''0x'' @ to_string 16 root))"
      "\<forall>i < N_VOTERS. sp_files t (voter_file i) = Some (FText (voter_text E i))"
    using genExample_run [of E s] by blast
  have d: "EXAMPLE_DEPTH = CENSUS_DEPTH" by (simp add: EXAMPLE_DEPTH_def CENSUS_DEPTH_def)
  have root: "0 \<le> root" "root < FP" using root_field [OF assms(1)] t(2) by (auto simp: d)
  let ?page = "p\<lparr>cp_form := set_census (concat (map toBytesBE32Buf ?ls)) ?ls root (cp_form p)\<rparr>"
  have page: "onCensusFile W (concat (map toBytesBE32Buf ?ls)) p = (Inr (), ?page)"
    using t(2) assms(2) by (simp add: onCensusFile_def proc_simps parse d)
  have voter: "\<exists>txt a. sp_files t (voter_file i) = Some (FText txt) \<and>
      kr_accounts (run_proc (importPrv V name txt) k) = [a] \<and>
      sv_P E [fst (kp_pub a), snd (kp_pub a)] = ?ls ! i" if "i < N_VOTERS" for i
    using that t(5) assms(3-6) import_voter_file [of "sv_random E i" name k V]
    by (auto simp: voter_text_def example_leaves_def voter_leaf_def voter_key_def)
  show ?thesis
    using t(1,3,4) page parse voter hex_field_roundtrip [OF root] hexToBytes32_root [OF root]
    by (intro exI [of _ t] exI [of _ "concat (map toBytesBE32Buf ?ls)"]
        exI [of _ "''0x'' @ to_string 16 root"] exI [of _ ?page] exI [of _ ?ls])
      (simp add: set_census_def example_leaves_def N_VOTERS_def)
qed

definition script_env0 :: script_env where
  "script_env0 = \<lparr>sv_sdk = demo_env, sv_payer = [1], sv_latest = (\<lambda>n. Inr (''hash'', 9)),
     sv_send = (\<lambda>tx. Inr ''sig''), sv_confirm = (\<lambda>x. Inr ()),
     sv_transfer = (\<lambda>from to n. \<lparr>ix_program = [], ix_method = ''transfer'', ix_args = [BNArg n],
       ix_accounts = [(''from'', from), (''to'', to)], ix_remaining = []\<rparr>),
     sv_key = (\<lambda>s. case s of None \<Rightarrow> Inl TypeError | Some t \<Rightarrow> Inr (bytes_of_string t)),
     sv_show_key = (\<lambda>k. ''key''), sv_keys = flat_keys,
     sv_random = (\<lambda>n. replicate 32 (of_nat n)), sv_P = sum_hash\<rparr>"

definition no_script :: script where
  "no_script = \<lparr>sp_out = [], sp_err = [], sp_exit = None, sp_files = Map.empty, sp_asked = 0, sp_sent = []\<rparr>"

theorem example_fits_the_pages_witness:
  "\<exists>t bin page. genExample_main script_env0 no_script = (Inr (), t) \<and>
    sp_files t ''example/census.bin'' = Some (FBytes bin) \<and>
    onCensusFile create_env0 bin (create0 TActive) = (Inr (), page) \<and>
    pf_censusCount (cp_form page) = Some 3"
proof -
  have "hash_law (sv_P script_env0)" "ce_P create_env0 = sv_P script_env0" "kv_keys yes_env = sv_keys script_env0"
    by (simp_all add: script_env0_def create_env0_def yes_env_def hash_law_def sum_hash_range)
  moreover have "\<forall>i < N_VOTERS. length (sv_random script_env0 i) = 32" by (simp add: script_env0_def)
  moreover have "kr_accounts fresh_keyring = []" by (simp add: fresh_keyring_def)
  ultimately show ?thesis
    using example_fits_the_pages [of script_env0 create_env0 yes_env "''me''" fresh_keyring no_script "create0 TActive"]
    by blast
qed

text \<open>
  The program that initialises the relayer asks for three arguments but counts two: without
  an endpoint it passes the usage check and ends in a failed assertion, having sent nothing and
  printed nothing.
\<close>

theorem missing_endpoint_passes_usage:
  assumes "length argv = 4" "bigint_of_string (argv ! 2) = Inr fee" "sv_key E (Some (argv ! 3)) = Inr k"
  shows "relayer_initialize_main E argv s = (Inl (Thrown ''AssertionError''), s)"
proof -
  have "\<not> includes_str ''TypeError'' ''already in use''" by code_simp
  then show ?thesis using assms
    by (simp add: relayer_initialize_main_def at_def bigint_opt_def proc_simps expect_in_use_def error_text_def)
qed

theorem missing_endpoint_passes_usage_witness:
  "relayer_initialize_main script_env0 [''node'', ''initialize'', ''5'', ''k''] no_script
     = (Inl (Thrown ''AssertionError''), no_script)"
proof -
  have "bigint_of_string ''5'' = Inr 5" by code_simp
  then show ?thesis
    using missing_endpoint_passes_usage [of "[''node'', ''initialize'', ''5'', ''k'']" 5 script_env0 "bytes_of_string ''k''" no_script]
    by (simp add: script_env0_def)
qed

end
