(* ===== verification/Pcg.thy ===== *)
theory Pcg
  imports Bytes
begin

text \<open>
  The generator of the benchmark, \<open>smt-circom/js-bench/pcg.ts\<close>: 128-bit arithmetic on
  \<open>BigInt\<close> with masks. It is compared with the same generator on machine words.
\<close>

unbundle bit_operations_syntax

definition MASK64 :: int where "MASK64 = push_bit 64 1 - 1"
definition MASK128 :: int where "MASK128 = push_bit 128 1 - 1"
definition MULTIPLIER :: int where "MULTIPLIER = 0x2360ED051FC65DA44385DF649FCCF645"

definition rotR64 :: "int \<Rightarrow> nat \<Rightarrow> int" where
  "rotR64 x rot = (let r = rot mod 64; xx = x AND MASK64 in
     if r = 0 then xx
     else (drop_bit r xx OR (push_bit (64 - r) xx AND MASK64)) AND MASK64)"

definition pcg_new :: "int \<Rightarrow> int" where
  "pcg_new state = (state OR 1) AND MASK128"

text \<open>The number returned and the next state.\<close>

definition nextU64 :: "int \<Rightarrow> int \<times> int" where
  "nextU64 state = (let s = (state * MULTIPLIER) AND MASK128; rot = nat (drop_bit 122 s);
       hi = drop_bit 64 s AND MASK64; lo = s AND MASK64; xsl = (hi XOR lo) AND MASK64
     in (rotR64 xsl rot, s))"

text \<open>The eight bytes of \<open>writeU64LE\<close>, at their offset.\<close>

primrec le_bytes_loop :: "nat \<Rightarrow> int \<Rightarrow> int list" where
  "le_bytes_loop 0 x = []"
| "le_bytes_loop (Suc k) x = (x AND 0xff) # le_bytes_loop k (drop_bit 8 x)"

definition writeU64LE :: "int list \<Rightarrow> nat \<Rightarrow> int \<Rightarrow> int list" where
  "writeU64LE dst off v = take off dst @ le_bytes_loop 8 (v AND MASK64) @ drop (off + 8) dst"

function fill_words :: "int list \<Rightarrow> nat \<Rightarrow> int \<Rightarrow> int list \<times> nat \<times> int" where
  "fill_words dest i s =
     (if i + 8 \<le> length dest
      then (let (v, s') = nextU64 s in fill_words (writeU64LE dest i v) (i + 8) s')
      else (dest, i, s))"
  by pat_completeness auto

lemma length_le_bytes_loop [simp]: "length (le_bytes_loop k x) = k"
  by (induction k arbitrary: x) simp_all

lemma length_writeU64LE [simp]: "off + 8 \<le> length dst \<Longrightarrow> length (writeU64LE dst off v) = length dst"
  by (simp add: writeU64LE_def)

termination fill_words
  by (relation "measure (\<lambda>(dest, i, s). length dest - i)") auto

declare fill_words.simps [simp del]

text \<open>The rest takes the first bytes of one more number.\<close>

definition fillBytes :: "int list \<Rightarrow> int \<Rightarrow> int list \<times> int" where
  "fillBytes dest s = (let (dest, i, s) = fill_words dest 0 s; rem = length dest - i in
     if rem > 0 then (let (v, s') = nextU64 s; tmp = writeU64LE (replicate 8 0) 0 v
                      in (take i dest @ take rem tmp @ drop (i + rem) dest, s'))
     else (dest, s))"

section \<open>On machine words\<close>

definition mcg_step :: "128 word \<Rightarrow> 128 word" where
  "mcg_step s = s * word_of_int MULTIPLIER"

definition xsl_rr :: "128 word \<Rightarrow> 64 word" where
  "xsl_rr s = word_rotr (unat (drop_bit 122 s)) (ucast (drop_bit 64 s) XOR ucast s)"

lemma masks: "MASK64 = mask 64" "MASK128 = mask 128"
  by (simp_all add: MASK64_def MASK128_def mask_eq_exp_minus_1 push_bit_eq_mult)

lemma mod_64_sum: "n < 64 \<Longrightarrow> (n + r) mod 64 = (if r mod 64 + n < 64 then r mod 64 + n else n + r mod 64 - 64)"
  for n r :: nat
  using mod_less_divisor [of 64 r] by (simp add: mod_add_right_eq [of n r 64, symmetric] le_mod_geq add.commute)

lemma rotR64_word: "rotR64 (uint x) r = uint (word_rotr r (x :: 64 word))"
proof -
  have "bit (rotR64 (uint x) r) n \<longleftrightarrow> bit (uint (word_rotr r x)) n" for n
  proof (cases "n < 64")
    case True
    then show ?thesis
      using mod_64_sum [of n r] by (auto simp: rotR64_def masks bit_simps Let_def)
  qed (auto simp: rotR64_def masks bit_simps Let_def)
  then show ?thesis by (intro bit_eqI)
qed

lemma uint_mask128: "n AND MASK128 = uint (word_of_int n :: 128 word)"
  by (simp add: masks take_bit_eq_mask [symmetric] uint_word_of_int_eq)

text \<open>
  The generator on masked big integers is the generator on machine words: from the state of
  a 128-bit word it returns the 64-bit number and the state of the word computation (wrapping
  multiplication, xor of the halves, rotation by the top six bits).
\<close>

theorem nextU64_on_words:
  "nextU64 (uint s) = (uint (xsl_rr (mcg_step s)), uint (mcg_step s))"
proof -
  have s: "(uint s * MULTIPLIER) AND MASK128 = uint (mcg_step s)"
    by (simp add: uint_mask128 mcg_step_def)
  have "(drop_bit 64 (uint w) AND MASK64 XOR uint w AND MASK64) AND MASK64
      = uint ((ucast (drop_bit 64 w) XOR ucast w) :: 64 word)" for w :: "128 word"
    by (rule bit_eqI) (auto simp: masks bit_simps)
  moreover have "nat (drop_bit 122 (uint w)) = unat (drop_bit 122 w)" for w :: "128 word"
    by (metis drop_bit_nat_eq nat_uint_eq unat_drop_bit_eq)
  ultimately show ?thesis
    by (simp add: nextU64_def Let_def s rotR64_word xsl_rr_def)
qed

section \<open>Filling\<close>

text \<open>The numbers drawn, one after the other.\<close>

definition pcg_next :: "int \<Rightarrow> int" where
  "pcg_next s = snd (nextU64 s)"

primrec draws :: "nat \<Rightarrow> int \<Rightarrow> int list" where
  "draws 0 s = []"
| "draws (Suc k) s = (let (v, s') = nextU64 s in v # draws k s')"

definition le8 :: "int \<Rightarrow> int list" where
  "le8 v = le_bytes_loop 8 (v AND MASK64)"

lemma length_le8 [simp]: "length (le8 v) = 8"
  by (simp add: le8_def)

lemma fill_words_run:
  "fill_words dest i s = (take i dest @ concat (map le8 (draws ((length dest - i) div 8) s))
      @ drop (i + 8 * ((length dest - i) div 8)) dest,
    i + 8 * ((length dest - i) div 8), (pcg_next ^^ ((length dest - i) div 8)) s)"
  if "i \<le> length dest"
  using that
proof (induction dest i s rule: fill_words.induct)
  case (1 dest i s)
  show ?case
  proof (cases "i + 8 \<le> length dest")
    case True
    obtain v s' where n: "nextU64 s = (v, s')" by fastforce
    let ?d = "writeU64LE dest i v" and ?k = "(length dest - (i + 8)) div 8"
    have k: "(length dest - i) div 8 = Suc ?k" using True le_div_geq [of 8 "length dest - i"] by simp
    have d: "take (i + 8) ?d = take i dest @ le8 v" "drop (i + (8 + m)) ?d = drop (i + (8 + m)) dest" for m
      using True by (simp_all add: writeU64LE_def le8_def ac_simps)
    have "fill_words ?d (i + 8) s' = (take (i + 8) ?d @ concat (map le8 (draws ?k s')) @ drop (i + 8 + 8 * ?k) ?d,
        i + 8 + 8 * ?k, (pcg_next ^^ ?k) s')"
      using "1.IH" [OF True, of "(v, s')" v s'] n True by simp
    then show ?thesis using True n
      by (subst fill_words.simps) (simp add: k d funpow_Suc_right add.assoc pcg_next_def del: funpow.simps(2))
  next
    case False
    then have "(length dest - i) div 8 = 0" by simp
    then show ?thesis using False "1.prems" by (subst fill_words.simps) simp
  qed
qed

lemma draws_Suc: "draws (Suc k) s = draws k s @ [fst (nextU64 ((pcg_next ^^ k) s))]"
  by (induction k arbitrary: s) (simp_all add: funpow_Suc_right case_prod_beta pcg_next_def del: funpow.simps(2))

text \<open>
  \<open>fillBytes\<close> fills a buffer of any length with the little-endian bytes of the numbers
  drawn, in order, cut off at its end; it draws one number for every eight bytes begun.
\<close>

lemma fillBytes_bytes:
  "fillBytes dest s =
    (take (length dest) (concat (map le8 (draws ((length dest + 7) div 8) s))),
     (pcg_next ^^ ((length dest + 7) div 8)) s)"
proof -
  let ?n = "length dest"
  define k where "k = ?n div 8"
  have len: "length (concat (map le8 (draws m s))) = 8 * m" for m
    by (induction m arbitrary: s) (simp_all add: case_prod_beta)
  have run: "fill_words dest 0 s = (concat (map le8 (draws k s)) @ drop (8 * k) dest, 8 * k, (pcg_next ^^ k) s)"
    using fill_words_run [of 0 dest s] by (simp add: k_def)
  show ?thesis
  proof (cases "?n = 8 * k")
    case True
    then have "(?n + 7) div 8 = k" by simp
    then show ?thesis by (simp add: fillBytes_def run True len)
  next
    case False
    then have k: "(?n + 7) div 8 = Suc k" "8 * k < ?n" "?n \<le> 8 * k + 8" unfolding k_def by presburger+
    have tmp: "writeU64LE (replicate 8 0) 0 v = le8 v" for v by (simp add: writeU64LE_def le8_def)
    obtain v u where v: "nextU64 ((pcg_next ^^ k) s) = (v, u)" by fastforce
    have "take ?n (concat (map le8 (draws (Suc k) s))) = concat (map le8 (draws k s)) @ take (?n - 8 * k) (le8 v)"
      unfolding draws_Suc using k(2) v by (simp add: len del: draws.simps)
    moreover have "(pcg_next ^^ Suc k) s = u" using v by (simp add: pcg_next_def)
    ultimately show ?thesis unfolding k(1) using k(2)
      by (simp add: fillBytes_def run len v tmp del: draws.simps funpow.simps)
  qed
qed

section \<open>The pairs of the benchmark\<close>

text \<open>\<open>out.subarray(1)\<close> is filled in place; the first byte stays zero.\<close>

definition randomBytes32FirstZero :: "int \<Rightarrow> int list \<times> int" where
  "randomBytes32FirstZero s = (case fillBytes (replicate 31 0) s of (bs, s') \<Rightarrow> (0 # bs, s'))"

definition bytesToBigIntBE :: "int list \<Rightarrow> int" where
  "bytesToBigIntBE bytes = foldl (\<lambda>x b. push_bit 8 x OR b) 0 bytes"

primrec randomPairs :: "nat \<Rightarrow> int \<Rightarrow> (int \<times> int) list \<times> int" where
  "randomPairs 0 s = ([], s)"
| "randomPairs (Suc n) s = (let (k, s1) = randomBytes32FirstZero s; (v, s2) = randomBytes32FirstZero s1;
       (ps, s3) = randomPairs n s2
     in ((bytesToBigIntBE k, bytesToBigIntBE v) # ps, s3))"

lemma le_bytes_ok: "digits_ok 256 (le_bytes_loop k x)"
proof (induction k arbitrary: x)
  case (Suc k)
  have "x AND 0xff = x mod 256" using take_bit_eq_mask [of 8 x] by (simp add: mask_eq_exp_minus_1 take_bit_eq_mod)
  then show ?case using Suc by simp
qed simp

lemma length_fillBytes [simp]: "length (fst (fillBytes dest s)) = length dest"
proof -
  have "length (concat (map le8 (draws k s))) = 8 * k" for k
    by (induction k arbitrary: s) (simp_all add: case_prod_beta)
  then show ?thesis by (simp add: fillBytes_bytes)
qed

lemma digits_ok_take: "digits_ok b ds \<Longrightarrow> digits_ok b (take n ds)"
  by (auto simp: digits_ok_def dest: in_set_takeD)

lemma fillBytes_ok: "digits_ok 256 (fst (fillBytes dest s))"
proof -
  have "digits_ok 256 (concat (map le8 vs))" for vs
    by (induction vs) (simp_all add: le8_def le_bytes_ok)
  then have "digits_ok 256 (concat (map le8 (draws ((length dest + 7) div 8) s)))" by blast
  then show ?thesis unfolding fillBytes_bytes fst_conv by (rule digits_ok_take)
qed

lemma bytesToBigIntBE_val: "digits_ok 256 bs \<Longrightarrow> bytesToBigIntBE bs = be_val 256 bs"
proof -
  assume ok: "digits_ok 256 bs"
  have "foldl (\<lambda>x b. push_bit 8 x OR b) a bs = foldl (\<lambda>x d. x * 256 + d) a bs" for a
    using ok
  proof (induction bs arbitrary: a)
    case (Cons b bs)
    then have "push_bit 8 a OR b = a * 256 + b" using shift_or_byte [of a "word_of_int b"] by simp
    then show ?case using Cons by simp
  qed simp
  then show ?thesis by (simp add: bytesToBigIntBE_def be_val_def)
qed

lemma random_in_field: "0 \<le> bytesToBigIntBE (fst (randomBytes32FirstZero s)) \<and>
    bytesToBigIntBE (fst (randomBytes32FirstZero s)) < FP"
proof -
  let ?bs = "fst (fillBytes (replicate 31 0) s)"
  have v: "bytesToBigIntBE (0 # ?bs) = be_val 256 ?bs"
    using fillBytes_ok [of "replicate 31 0" s] by (simp add: bytesToBigIntBE_val be_val_Cons)
  have "256 ^ 31 < FP" by (simp add: FP_def)
  then show ?thesis
    using be_val_range [OF fillBytes_ok [of "replicate 31 0" s]] v
    by (simp add: randomBytes32FirstZero_def case_prod_beta)
qed

text \<open>
  The keys and values that the benchmark inserts into the tree are field elements, whatever
  the state of the generator: 31 random bytes after a zero byte stay below the modulus.
\<close>

theorem benchmark_pairs_in_field:
  "list_all (\<lambda>(k, v). 0 \<le> k \<and> k < FP \<and> 0 \<le> v \<and> v < FP) (fst (randomPairs n s)) \<and>
   length (fst (randomPairs n s)) = n"
  by (induction n arbitrary: s) (simp_all add: case_prod_beta Let_def random_in_field)

end
