(* ===== verification/Shell.thy ===== *)
theory Shell
  imports JsStrings
begin

text \<open>
  The small stateful parts of the page frame: \<open>ThemeToggle.tsx\<close> (the theme and its copy in
  localStorage), \<open>LanguageSelect.tsx\<close> (the label of the selector), the memoised libraries of
  \<open>circomMemo.ts\<close>, and the routes of \<open>App.tsx\<close>.
\<close>

section \<open>Theme\<close>

text \<open>The header and the menu of the narrow layout each mount a button with a state of its own;
  the page has one class and one stored value.\<close>

record theme_page =
  th_class_dark :: bool
  th_stored :: "string option"

definition theme_initial :: "bool option \<Rightarrow> theme_page \<Rightarrow> string" where
  "theme_initial prefersDark s = (case th_stored s of
       Some t \<Rightarrow> if t = ''dark'' \<or> t = ''light'' then t
                 else if prefersDark = Some True then ''dark'' else ''light''
     | None \<Rightarrow> if prefersDark = Some True then ''dark'' else ''light'')"

definition theme_effect :: "string \<Rightarrow> theme_page \<Rightarrow> theme_page" where
  "theme_effect theme s = \<lparr>th_class_dark = (theme = ''dark''), th_stored = Some theme\<rparr>"

definition theme_click :: "string \<Rightarrow> string" where
  "theme_click theme = (if theme = ''dark'' then ''light'' else ''dark'')"

definition theme_icon_sun :: "string \<Rightarrow> bool" where
  "theme_icon_sun theme \<longleftrightarrow> theme = ''dark''"

text \<open>A click sets the state of the button and runs its effect when the state changed.\<close>

definition click_button :: "string \<times> theme_page \<Rightarrow> string \<times> theme_page" where
  "click_button ts = (let t = theme_click (fst ts) in (t, theme_effect t (snd ts)))"

lemma theme_initial_valid: "theme_initial p s \<in> {''dark'', ''light''}"
  by (auto simp: theme_initial_def split: option.splits)

lemma theme_survives_reload:
  "theme \<in> {''dark'', ''light''} \<Longrightarrow> theme_initial p (theme_effect theme s) = theme"
  by (auto simp: theme_initial_def theme_effect_def)

section \<open>Language\<close>

definition LANGS :: "(string \<times> string) list" where
  "LANGS = [(''en'', ''EN''), (''ru'', ''RU'')]"

definition upper_char :: "char \<Rightarrow> char" where
  "upper_char c = (let n = (of_char c :: nat) in if 97 \<le> n \<and> n \<le> 122 then char_of (n - 32) else c)"

definition lang_code :: "string option \<Rightarrow> string option \<Rightarrow> string" where
  "lang_code resolved language = (let pick = (\<lambda>o'. case o' of Some s \<Rightarrow> if s = [] then None else Some s | None \<Rightarrow> None);
       l = (case pick resolved of Some s \<Rightarrow> s | None \<Rightarrow> (case pick language of Some s \<Rightarrow> s | None \<Rightarrow> ''en''))
     in takeWhile (\<lambda>c. c \<noteq> CHR ''-'') l)"

definition lang_short :: "string \<Rightarrow> string" where
  "lang_short cur = (case map_of LANGS cur of Some s \<Rightarrow> s | None \<Rightarrow> map upper_char cur)"

section \<open>Memoised libraries\<close>

text \<open>\<open>getPoseidon\<close>, \<open>getBabyjub\<close> and \<open>getEddsa\<close>: the first call builds the object, later ones
  return it. \<open>build n\<close> is the object of the n-th construction.\<close>

definition memo_get :: "(nat \<Rightarrow> 'a) \<Rightarrow> 'a option \<times> nat \<Rightarrow> 'a \<times> ('a option \<times> nat)" where
  "memo_get build s = (case s of
       (Some p, n) \<Rightarrow> (p, s)
     | (None, n) \<Rightarrow> (build n, (Some (build n), Suc n)))"

lemma memo_get_stable: "memo_get build (snd (memo_get build s)) = (fst (memo_get build s), snd (memo_get build s))"
  by (auto simp: memo_get_def split: prod.splits option.splits)

section \<open>Routes\<close>

datatype page = Home | PollList | PollCreate | PollDetail string | CensusList | CensusCreate
  | CensusDetail string | CensusJoin string string | NotFound

text \<open>The router ranks fixed segments above parameters; a path is given by its segments.\<close>

fun route :: "string list \<Rightarrow> page" where
  "route [] = Home"
| "route [a] = (if a = ''polls'' then PollList else if a = ''censuses'' then CensusList else NotFound)"
| "route [a, b] =
     (if a = ''polls'' then (if b = ''new'' then PollCreate else PollDetail b)
      else if a = ''census'' then (if b = ''new'' then CensusCreate else CensusDetail b)
      else NotFound)"
| "route [a, b, c, d] = (if a = ''census'' \<and> c = ''join'' then CensusJoin b d else NotFound)"
| "route _ = NotFound"

end
