(* ===== verification/Chain.thy ===== *)
theory Chain
  imports MootSdk
begin

text \<open>
  The ledger under the two on-chain programs: accounts with lamports and typed data, the clock
  and the event log, the errors of both programs, checked arithmetic (the release profile of
  the workspace sets \<open>overflow-checks\<close>), the transfers of \<open>utils.rs\<close>, and the account
  constraints of Anchor that the programs use. Poseidon, the decompression of proofs, the
  Groth16 verifier and the rent are \<open>chain_env\<close>. A failed instruction leaves no trace: a
  handler returns an error or the new ledger.
\<close>

type_synonym u64 = "64 word"
type_synonym u256 = "byte list"

text \<open>The error codes of \<open>error.rs\<close> of both programs, and what Anchor and the runtime raise.\<close>

datatype chain_error =
    InvalidProof | PoseidonError | IncorrectTally | BadTime | ProofDecompressionError
  | RelayerMsgHashMismatch | PollTooLong
  | RelayerNotAllowed | RelayerNotFunded | ProgramNotAllowed
  | InsufficientFunds | ArithmeticPanic | AccountInUse | AccountNotInitialized | ConstraintSeeds
  | AccountDidNotSerialize | ConstraintAddress | ConstraintHasOne | ConstraintClose | NotSigner | RequireViolated | BadInstruction

type_synonym 'a outcome = "chain_error + 'a"

definition obind :: "'a outcome \<Rightarrow> ('a \<Rightarrow> 'b outcome) \<Rightarrow> 'b outcome" where
  "obind m f = (case m of Inl e \<Rightarrow> Inl e | Inr x \<Rightarrow> f x)"

definition require :: "bool \<Rightarrow> chain_error \<Rightarrow> unit outcome" where
  "require b e = (if b then Inr () else Inl e)"

definition some_or :: "'a option \<Rightarrow> chain_error \<Rightarrow> 'a outcome" where
  "some_or x e = (case x of None \<Rightarrow> Inl e | Some y \<Rightarrow> Inr y)"

named_theorems outcome_simps "successful outcomes, read backwards"

lemma obind_simps [simp]: "obind (Inl e) f = Inl e" "obind (Inr x) f = f x"
  by (simp_all add: obind_def)

lemma obind_ok [outcome_simps]: "obind m f = Inr y \<longleftrightarrow> (\<exists>x. m = Inr x \<and> f x = Inr y)"
  by (cases m) auto

lemma require_ok [outcome_simps]: "require b e = Inr u \<longleftrightarrow> b"
  by (auto simp: require_def)

lemma require_simps [simp]: "b \<Longrightarrow> require b e = Inr ()" "\<not> b \<Longrightarrow> require b e = Inl e"
  by (simp_all add: require_def)

lemma some_or_ok [outcome_simps]: "some_or x e = Inr y \<longleftrightarrow> x = Some y"
  by (auto simp: some_or_def split: option.splits)

lemma some_or_simps [simp]: "some_or (Some x) e = Inr x" "some_or None e = Inl e"
  by (simp_all add: some_or_def)

section \<open>Checked arithmetic\<close>

definition checked_add :: "u64 \<Rightarrow> u64 \<Rightarrow> u64 outcome" where
  "checked_add x y = (if uint x + uint y < 2 ^ 64 then Inr (x + y) else Inl ArithmeticPanic)"

definition checked_mul :: "u64 \<Rightarrow> u64 \<Rightarrow> u64 outcome" where
  "checked_mul x y = (if uint x * uint y < 2 ^ 64 then Inr (x * y) else Inl ArithmeticPanic)"

definition checked_sub :: "u64 \<Rightarrow> u64 \<Rightarrow> u64 outcome" where
  "checked_sub x y = (if y \<le> x then Inr (x - y) else Inl ArithmeticPanic)"

lemma uint_add_no_wrap: "uint x + uint y < 2 ^ 64 \<Longrightarrow> uint (x + y) = uint x + uint y" for x y :: u64
  using uint_add_lem [of x y] by simp

lemma checked_add_ok [outcome_simps]:
  "checked_add x y = Inr z \<longleftrightarrow> uint x + uint y < 2 ^ 64 \<and> z = x + y"
  by (auto simp: checked_add_def)

lemma checked_mul_ok [outcome_simps]:
  "checked_mul x y = Inr z \<longleftrightarrow> uint x * uint y < 2 ^ 64 \<and> z = x * y"
  by (auto simp: checked_mul_def)

lemma checked_sub_ok [outcome_simps]: "checked_sub x y = Inr z \<longleftrightarrow> y \<le> x \<and> z = x - y"
  by (auto simp: checked_sub_def)

lemma uint_sub_no_wrap: "y \<le> x \<Longrightarrow> uint (x - y) = uint x - uint y" for x y :: u64
  by (simp add: uint_sub_lem word_le_def)

section \<open>Accounts\<close>

record platform_config =
  pc_admin :: pubkey
  pc_feeDestination :: pubkey
  pc_fee :: u64

record poll_account =
  pl_id :: u64
  pl_nChoices :: byte
  pl_tallierKey :: point
  pl_censusRoot :: u256
  pl_cumulative :: u256
  pl_start :: u64
  pl_end :: u64
  pl_platformFee :: u64
  pl_fee :: u64
  pl_feeDestination :: pubkey
  pl_descriptionUrl :: string
  pl_censusUrl :: string
  pl_tally :: "u64 list"

record tally_account =
  ta_hash :: u256
  ta_cumulative :: u256
  ta_root :: u256

record relayer_config =
  rc_admin :: pubkey
  rc_fee :: u64
  rc_endpoint :: string
  rc_feeKey :: pubkey

record relayer_state =
  rs_root :: u256
  rs_fee :: u64
  rs_msgLimit :: u64
  rs_endTime :: u64

text \<open>The type of an account is its discriminator.\<close>

datatype account_data =
    DPlatform platform_config | DPoll poll_account | DTally tally_account
  | DRelayerConfig relayer_config | DRelayerState relayer_state

datatype chain_event =
    VoteEvent u64 point u64 "u256 list" u256
  | CreatePollEvent u64 byte point u256 u64 u64 u64 u64 pubkey u64 string string
  | FinishTallyEvent u64 "u64 list"

record chain =
  ch_lam :: "pubkey \<Rightarrow> u64"
  ch_data :: "pubkey \<Rightarrow> account_data option"
  ch_size :: "pubkey \<Rightarrow> nat"
  ch_now :: u64
  ch_events :: "chain_event list"

datatype vkey_id = VK_VOTE | VK_TALLY | VK_RELAY

record chain_env =
  cx_sdk :: sdk_env
  cx_hashv :: "u256 list \<Rightarrow> u256 option"
  cx_decompress :: "compressed_proof \<Rightarrow> compressed_proof option"
  cx_verify :: "vkey_id \<Rightarrow> compressed_proof \<Rightarrow> u256 list \<Rightarrow> bool"
  cx_rent :: "nat \<Rightarrow> u64"

section \<open>Transfers\<close>

definition set_lam :: "pubkey \<Rightarrow> u64 \<Rightarrow> chain \<Rightarrow> chain" where
  "set_lam a x ch = ch\<lparr>ch_lam := (ch_lam ch)(a := x)\<rparr>"

text \<open>\<open>transfer\<close> moves lamports of an account that the program owns.\<close>

definition transfer_lam :: "pubkey \<Rightarrow> pubkey \<Rightarrow> u64 \<Rightarrow> chain \<Rightarrow> chain outcome" where
  "transfer_lam a b x ch =
     (if x \<le> ch_lam ch a
      then let ch' = set_lam a (ch_lam ch a - x) ch in
        obind (checked_add (ch_lam ch' b) x) (\<lambda>y. Inr (set_lam b y ch'))
      else Inl InsufficientFunds)"

text \<open>\<open>system_transfer\<close> calls the system program, which also fails on insufficient funds.\<close>

definition system_transfer :: "pubkey \<Rightarrow> pubkey \<Rightarrow> u64 \<Rightarrow> chain \<Rightarrow> chain outcome" where
  "system_transfer = transfer_lam"

text \<open>Anchor's \<open>init\<close>: the address must be free; the payer brings it to the rent of its
  space, which stays the size of its data. \<open>close\<close>: all lamports go to the receiver, the data is gone.\<close>

definition init_account ::
  "chain_env \<Rightarrow> pubkey \<Rightarrow> pubkey \<Rightarrow> nat \<Rightarrow> account_data \<Rightarrow> chain \<Rightarrow> chain outcome" where
  "init_account X payer a space d ch =
     obind (require (ch_data ch a = None) AccountInUse) (\<lambda>_.
     obind (if ch_lam ch a < cx_rent X space
            then system_transfer payer a (cx_rent X space - ch_lam ch a) ch else Inr ch) (\<lambda>ch.
       Inr (ch\<lparr>ch_data := (ch_data ch)(a \<mapsto> d), ch_size := (ch_size ch)(a := space)\<rparr>)))"

definition close_account :: "pubkey \<Rightarrow> pubkey \<Rightarrow> chain \<Rightarrow> chain outcome" where
  "close_account a to ch = obind (require (a \<noteq> to) ConstraintClose) (\<lambda>_.
     obind (transfer_lam a to (ch_lam ch a) ch) (\<lambda>ch.
       Inr (ch\<lparr>ch_data := (ch_data ch)(a := None)\<rparr>)))"

definition set_data :: "pubkey \<Rightarrow> account_data \<Rightarrow> chain \<Rightarrow> chain" where
  "set_data a d ch = ch\<lparr>ch_data := (ch_data ch)(a \<mapsto> d)\<rparr>"

definition emit :: "chain_event \<Rightarrow> chain \<Rightarrow> chain" where
  "emit e ch = ch\<lparr>ch_events := ch_events ch @ [e]\<rparr>"

text \<open>\<open>Account<T>\<close>: the account exists and has the discriminator of \<open>T\<close>.\<close>

definition get_platform :: "chain \<Rightarrow> pubkey \<Rightarrow> platform_config outcome" where
  "get_platform ch a = (case ch_data ch a of Some (DPlatform c) \<Rightarrow> Inr c | _ \<Rightarrow> Inl AccountNotInitialized)"

definition get_poll :: "chain \<Rightarrow> pubkey \<Rightarrow> poll_account outcome" where
  "get_poll ch a = (case ch_data ch a of Some (DPoll c) \<Rightarrow> Inr c | _ \<Rightarrow> Inl AccountNotInitialized)"

definition get_tally :: "chain \<Rightarrow> pubkey \<Rightarrow> tally_account outcome" where
  "get_tally ch a = (case ch_data ch a of Some (DTally c) \<Rightarrow> Inr c | _ \<Rightarrow> Inl AccountNotInitialized)"

definition get_relayer_config :: "chain \<Rightarrow> pubkey \<Rightarrow> relayer_config outcome" where
  "get_relayer_config ch a = (case ch_data ch a of Some (DRelayerConfig c) \<Rightarrow> Inr c | _ \<Rightarrow> Inl AccountNotInitialized)"

definition get_relayer_state :: "chain \<Rightarrow> pubkey \<Rightarrow> relayer_state outcome" where
  "get_relayer_state ch a = (case ch_data ch a of Some (DRelayerState c) \<Rightarrow> Inr c | _ \<Rightarrow> Inl AccountNotInitialized)"

lemma get_ok [outcome_simps]:
  "get_platform ch a = Inr pc \<longleftrightarrow> ch_data ch a = Some (DPlatform pc)"
  "get_poll ch a = Inr p \<longleftrightarrow> ch_data ch a = Some (DPoll p)"
  "get_tally ch a = Inr t \<longleftrightarrow> ch_data ch a = Some (DTally t)"
  "get_relayer_config ch a = Inr rc \<longleftrightarrow> ch_data ch a = Some (DRelayerConfig rc)"
  "get_relayer_state ch a = Inr rs \<longleftrightarrow> ch_data ch a = Some (DRelayerState rs)"
  by (auto simp: get_platform_def get_poll_def get_tally_def get_relayer_config_def
      get_relayer_state_def split: option.splits account_data.splits)

definition le64 :: "u64 \<Rightarrow> byte list" where
  "le64 x = le_bytes 8 (uint x)"

definition poll_seeds :: "u64 \<Rightarrow> byte list list" where
  "poll_seeds i = [bytes_of_string ''POLL'', le64 i]"

definition tally_seeds :: "u64 \<Rightarrow> pubkey \<Rightarrow> byte list list" where
  "tally_seeds i owner = [bytes_of_string ''TALLY'', le64 i, owner]"

definition state_seeds :: "pubkey \<Rightarrow> u64 \<Rightarrow> byte list list" where
  "state_seeds target i = [bytes_of_string ''RELAYER_STATE'', target, le64 i]"

section \<open>32-byte numbers\<close>

definition u64_to_u256_be :: "u64 \<Rightarrow> u256" where
  "u64_to_u256_be x = replicate 24 0 @ rev (le64 x)"

definition u8_to_u256_be :: "byte \<Rightarrow> u256" where
  "u8_to_u256_be x = replicate 31 0 @ [x]"

definition zero32 :: u256 where "zero32 = replicate 32 0"

definition check_proof ::
  "chain_env \<Rightarrow> vkey_id \<Rightarrow> compressed_proof \<Rightarrow> u256 list \<Rightarrow> unit outcome" where
  "check_proof X vk proof inputs = obind (some_or (cx_decompress X proof) ProofDecompressionError)
     (\<lambda>p. require (cx_verify X vk p inputs) InvalidProof)"

lemma check_proof_ok [outcome_simps]: "check_proof X vk proof inputs = Inr u \<longleftrightarrow>
    (\<exists>p. cx_decompress X proof = Some p \<and> cx_verify X vk p inputs)"
  by (auto simp: check_proof_def outcome_simps)

section \<open>Conservation\<close>

text \<open>Two balances agree outside a finite set and have the same sum over it.\<close>

definition conserves :: "(pubkey \<Rightarrow> u64) \<Rightarrow> (pubkey \<Rightarrow> u64) \<Rightarrow> bool" where
  "conserves l l' \<longleftrightarrow> (\<exists>T. finite T \<and> (\<forall>a. a \<notin> T \<longrightarrow> l a = l' a) \<and>
     (\<Sum>a\<in>T. uint (l a)) = (\<Sum>a\<in>T. uint (l' a)))"

lemma conserves_refl [simp]: "conserves l l"
  unfolding conserves_def by (rule exI [of _ "{}"]) simp

lemma sum_outside:
  assumes "finite U" "T \<subseteq> U" "\<forall>a. a \<notin> T \<longrightarrow> l a = (l' a :: u64)"
    and "(\<Sum>a\<in>T. uint (l a)) = (\<Sum>a\<in>T. uint (l' a))"
  shows "(\<Sum>a\<in>U. uint (l a)) = (\<Sum>a\<in>U. uint (l' a))"
proof -
  have "(\<Sum>a\<in>U - T. uint (l a)) = (\<Sum>a\<in>U - T. uint (l' a))"
    using assms(3) by (intro sum.cong) auto
  then show ?thesis using assms by (simp add: sum.subset_diff [of T U])
qed

lemma conserves_trans: "conserves l m \<Longrightarrow> conserves m n \<Longrightarrow> conserves l n"
proof -
  assume "conserves l m" "conserves m n"
  then obtain T U where T: "finite T" "\<forall>a. a \<notin> T \<longrightarrow> l a = m a" "(\<Sum>a\<in>T. uint (l a)) = (\<Sum>a\<in>T. uint (m a))"
    and U: "finite U" "\<forall>a. a \<notin> U \<longrightarrow> m a = n a" "(\<Sum>a\<in>U. uint (m a)) = (\<Sum>a\<in>U. uint (n a))"
    unfolding conserves_def by auto
  have "(\<Sum>a\<in>T \<union> U. uint (l a)) = (\<Sum>a\<in>T \<union> U. uint (m a))"
    "(\<Sum>a\<in>T \<union> U. uint (m a)) = (\<Sum>a\<in>T \<union> U. uint (n a))"
    using sum_outside [of "T \<union> U" T l m] sum_outside [of "T \<union> U" U m n] T U by auto
  then show ?thesis unfolding conserves_def using T U by (intro exI [of _ "T \<union> U"]) auto
qed

lemma transfer_conserves:
  assumes "transfer_lam a b x ch = Inr ch'"
  shows "conserves (ch_lam ch) (ch_lam ch')"
proof -
  let ?l = "ch_lam ch" and ?m = "(ch_lam ch)(a := ch_lam ch a - x)"
  have x: "x \<le> ?l a" and b: "uint (?m b) + uint x < 2 ^ 64" and ch': "ch_lam ch' = ?m(b := ?m b + x)"
    using assms by (auto simp: transfer_lam_def set_lam_def Let_def outcome_simps split: if_splits)
  have u: "uint (?l a - x) = uint (?l a) - uint x" using x by (rule uint_sub_no_wrap)
  have v: "uint (?m b + x) = uint (?m b) + uint x" using b by (rule uint_add_no_wrap)
  show ?thesis
  proof (cases "a = b")
    case True
    then show ?thesis unfolding conserves_def ch' by (intro exI [of _ "{a}"]) simp
  next
    case False
    then have "(\<Sum>c\<in>{a, b}. uint (?l c)) = (\<Sum>c\<in>{a, b}. uint ((?m(b := ?m b + x)) c))"
      using u v by simp
    then show ?thesis unfolding conserves_def ch' by (intro exI [of _ "{a, b}"]) auto
  qed
qed

lemma transfer_frame:
  "transfer_lam a b x ch = Inr ch' \<Longrightarrow>
   ch_data ch' = ch_data ch \<and> ch_now ch' = ch_now ch \<and> ch_events ch' = ch_events ch"
  by (auto simp: transfer_lam_def set_lam_def Let_def outcome_simps split: if_splits)

lemma init_account_ok:
  assumes "init_account X payer a space d ch = Inr ch'"
  shows "ch_data ch a = None" "ch_data ch' = (ch_data ch)(a \<mapsto> d)" "ch_now ch' = ch_now ch"
    "ch_events ch' = ch_events ch" "conserves (ch_lam ch) (ch_lam ch')"
  using assms transfer_conserves transfer_frame
  by (fastforce simp: init_account_def system_transfer_def outcome_simps split: if_splits)+

lemma close_account_ok:
  assumes "close_account a to ch = Inr ch'"
  shows "ch_data ch' = (ch_data ch)(a := None)" "ch_now ch' = ch_now ch"
    "ch_events ch' = ch_events ch" "conserves (ch_lam ch) (ch_lam ch')"
  using assms transfer_conserves transfer_frame
  by (fastforce simp: close_account_def outcome_simps)+

end
