(* ===== verification/MootProgram.thy ===== *)
theory MootProgram
  imports Chain
begin

text \<open>
  The voting program, \<open>programs/mootvote/src/instructions\<close>: one handler per instruction, with
  the account constraints of its \<open>Accounts\<close> struct in their order. Signers are the
  arguments that the struct declares as \<open>Signer\<close>.
\<close>

text \<open>Sizes: one byte of discriminator, \<open>INIT_SPACE\<close>, and for a poll its lists.\<close>

definition PLATFORM_SPACE :: nat where "PLATFORM_SPACE = 1 + 72"
definition TALLY_SPACE :: nat where "TALLY_SPACE = 1 + 96"
definition RELAYER_STATE_SPACE :: nat where "RELAYER_STATE_SPACE = 1 + 56"

definition poll_space :: "byte \<Rightarrow> string \<Rightarrow> string \<Rightarrow> nat" where
  "poll_space nChoices descriptionUrl censusUrl =
     1 + 213 + (8 * unat nChoices + length descriptionUrl + length censusUrl)"

definition pda :: "chain_env \<Rightarrow> byte list list \<Rightarrow> pubkey" where
  "pda X seeds = se_pda (cx_sdk X) seeds (se_moot (cx_sdk X))"

section \<open>Configuration\<close>

definition do_initialize ::
  "chain_env \<Rightarrow> pubkey \<Rightarrow> pubkey \<Rightarrow> pubkey \<Rightarrow> u64 \<Rightarrow> pubkey \<Rightarrow> chain \<Rightarrow> chain outcome" where
  "do_initialize X payer platform_config admin fee fee_destination ch =
     obind (require (platform_config = pda X [bytes_of_string ''PLATFORM_CONFIG'']) ConstraintSeeds) (\<lambda>_.
     init_account X payer platform_config PLATFORM_SPACE
       (DPlatform \<lparr>pc_admin = admin, pc_feeDestination = fee_destination, pc_fee = fee\<rparr>) ch)"

definition do_update_config ::
  "pubkey \<Rightarrow> pubkey \<Rightarrow> pubkey \<Rightarrow> u64 \<Rightarrow> pubkey \<Rightarrow> chain \<Rightarrow> chain outcome" where
  "do_update_config signer platform_config admin fee fee_destination ch =
     obind (get_platform ch platform_config) (\<lambda>c.
     obind (require (pc_admin c = signer) ConstraintHasOne) (\<lambda>_. Inr (set_data platform_config
       (DPlatform \<lparr>pc_admin = admin, pc_feeDestination = fee_destination, pc_fee = fee\<rparr>) ch)))"

section \<open>Creating a poll\<close>

definition MSG_LIMIT :: u64 where "MSG_LIMIT = 3"
definition MAX_POLL_DURATION :: u64 where "MAX_POLL_DURATION = 365 * 24 * 60 * 60"
definition N_RELAYERS :: u64 where "N_RELAYERS = 1"

record create_poll_args =
  cr_id :: u64
  cr_nChoices :: byte
  cr_descriptionUrl :: string
  cr_censusUrl :: string
  cr_tallierKey :: point
  cr_censusRoot :: u256
  cr_start :: u64
  cr_end :: u64
  cr_fee :: u64
  cr_feeDestination :: pubkey
  cr_nVoters :: u64

text \<open>\<open>(relayer_config.fee + platform_config.fee) * MSG_LIMIT * N_RELAYERS * n_voters\<close>.\<close>

definition deposit :: "u64 \<Rightarrow> u64 \<Rightarrow> u64 \<Rightarrow> u64 outcome" where
  "deposit relayer_fee platform_fee n_voters =
     obind (checked_add relayer_fee platform_fee) (\<lambda>f. obind (checked_mul f MSG_LIMIT) (\<lambda>f.
     obind (checked_mul f N_RELAYERS) (\<lambda>f. checked_mul f n_voters)))"

text \<open>The program of the relayer is called for its state account (\<open>create_relayer_state.rs\<close>);
  \<open>signed_by\<close> is the program whose address \<open>ZK_RELAYER_SIGNER\<close> signs.\<close>

definition HASH_0_0 :: u256 where
  "HASH_0_0 = [32, 152, 245, 251, 158, 35, 158, 171, 60, 234, 195, 242, 123, 129, 228, 129, 220, 49,
     36, 213, 95, 254, 213, 35, 168, 57, 238, 132, 70, 182, 72, 100]"

definition ALLOWED_PROGRAMS :: "chain_env \<Rightarrow> pubkey list" where
  "ALLOWED_PROGRAMS X = [se_moot (cx_sdk X)]"

definition relayer_pda :: "chain_env \<Rightarrow> byte list list \<Rightarrow> pubkey" where
  "relayer_pda X seeds = se_pda (cx_sdk X) seeds (se_relayer (cx_sdk X))"

definition create_relayer_state ::
  "chain_env \<Rightarrow> pubkey \<Rightarrow> pubkey \<Rightarrow> pubkey \<Rightarrow> pubkey \<Rightarrow> pubkey \<Rightarrow> u64 \<Rightarrow> u64 \<Rightarrow> u64 \<Rightarrow> chain \<Rightarrow> chain outcome" where
  "create_relayer_state X payer relayer_config relayer_state signed_by target_program state_id
       msg_limit end_time ch =
     obind (get_relayer_config ch relayer_config) (\<lambda>rc.
     obind (require (relayer_state = relayer_pda X (state_seeds target_program state_id)) ConstraintSeeds) (\<lambda>_.
     obind (require (signed_by = target_program) NotSigner) (\<lambda>_.
     obind (require (target_program \<in> set (ALLOWED_PROGRAMS X)) ProgramNotAllowed) (\<lambda>_.
       init_account X payer relayer_state RELAYER_STATE_SPACE
         (DRelayerState \<lparr>rs_root = HASH_0_0, rs_fee = rc_fee rc, rs_msgLimit = msg_limit,
            rs_endTime = end_time\<rparr>) ch))))"

definition new_poll :: "create_poll_args \<Rightarrow> u64 \<Rightarrow> poll_account" where
  "new_poll a platform_fee = \<lparr>pl_id = cr_id a, pl_nChoices = cr_nChoices a,
     pl_tallierKey = cr_tallierKey a, pl_censusRoot = cr_censusRoot a, pl_cumulative = zero32,
     pl_start = cr_start a, pl_end = cr_end a, pl_platformFee = platform_fee, pl_fee = cr_fee a,
     pl_feeDestination = cr_feeDestination a, pl_descriptionUrl = cr_descriptionUrl a,
     pl_censusUrl = cr_censusUrl a, pl_tally = []\<rparr>"

definition create_poll_event :: "create_poll_args \<Rightarrow> u64 \<Rightarrow> chain_event" where
  "create_poll_event a platform_fee = CreatePollEvent (cr_id a) (cr_nChoices a) (cr_tallierKey a)
     (cr_censusRoot a) (cr_start a) (cr_end a) platform_fee (cr_fee a) (cr_feeDestination a)
     (cr_nVoters a) (cr_descriptionUrl a) (cr_censusUrl a)"

definition do_create_poll ::
  "chain_env \<Rightarrow> pubkey \<Rightarrow> pubkey \<Rightarrow> pubkey \<Rightarrow> pubkey \<Rightarrow> pubkey \<Rightarrow> create_poll_args \<Rightarrow> chain \<Rightarrow> chain outcome" where
  "do_create_poll X payer platform_config poll relayer_config relayer_state a ch =
     obind (get_platform ch platform_config) (\<lambda>pc.
     obind (require (poll = pda X (poll_seeds (cr_id a))) ConstraintSeeds) (\<lambda>_.
     obind (init_account X payer poll (poll_space (cr_nChoices a) (cr_descriptionUrl a) (cr_censusUrl a))
              (DPoll (new_poll a (pc_fee pc))) ch) (\<lambda>ch.
     obind (get_relayer_config ch relayer_config) (\<lambda>rc.
     obind (require (0 < cr_nChoices a) RequireViolated) (\<lambda>_.
     obind (require (cr_start a < cr_end a \<and> cr_end a - cr_start a \<le> MAX_POLL_DURATION) PollTooLong) (\<lambda>_.
     obind (deposit (rc_fee rc) (pc_fee pc) (cr_nVoters a)) (\<lambda>d.
     obind (system_transfer payer poll d ch) (\<lambda>ch.
     obind (create_relayer_state X payer relayer_config relayer_state (se_moot (cx_sdk X))
              (se_moot (cx_sdk X)) (cr_id a) MSG_LIMIT (cr_end a) ch) (\<lambda>ch.
       Inr (emit (create_poll_event a (pc_fee pc)) ch))))))))))"

section \<open>Voting\<close>

record ballot_args =
  ba_ephPk :: point
  ba_nonce :: u64
  ba_ciphertext :: "u256 list"
  ba_proof :: compressed_proof

definition ballot_preimage :: "ballot_args \<Rightarrow> u256 list" where
  "ballot_preimage b = [pt_x (ba_ephPk b), pt_y (ba_ephPk b), u64_to_u256_be (ba_nonce b)] @ ba_ciphertext b"

definition vote_inputs :: "poll_account \<Rightarrow> u256 \<Rightarrow> u256 \<Rightarrow> u256 \<Rightarrow> u256 list" where
  "vote_inputs p msg_hash relayer_nu_hash relayer_id =
     [msg_hash, relayer_nu_hash, pl_censusRoot p, u64_to_u256_be (pl_id p), u8_to_u256_be (pl_nChoices p),
      pt_x (pl_tallierKey p), pt_y (pl_tallierKey p), relayer_id]"

definition vote_common ::
  "chain_env \<Rightarrow> pubkey \<Rightarrow> ballot_args \<Rightarrow> u256 \<Rightarrow> u256 \<Rightarrow> u256 option \<Rightarrow> chain \<Rightarrow> chain outcome" where
  "vote_common X poll b relayer_nu_hash relayer_id msg_hash_from_relayer ch =
     obind (get_poll ch poll) (\<lambda>p.
     obind (require (pl_start p \<le> ch_now ch \<and> ch_now ch \<le> pl_end p) BadTime) (\<lambda>_.
     obind (some_or (cx_hashv X (ballot_preimage b)) PoseidonError) (\<lambda>msg_hash.
     obind (case msg_hash_from_relayer of None \<Rightarrow> Inr ()
            | Some h \<Rightarrow> require (msg_hash = h) RelayerMsgHashMismatch) (\<lambda>_.
     obind (check_proof X VK_VOTE (ba_proof b) (vote_inputs p msg_hash relayer_nu_hash relayer_id)) (\<lambda>_.
     obind (some_or (cx_hashv X [pl_cumulative p, msg_hash]) PoseidonError) (\<lambda>h.
       Inr (emit (VoteEvent (pl_id p) (ba_ephPk b) (ba_nonce b) (ba_ciphertext b) msg_hash)
         (set_data poll (DPoll (p\<lparr>pl_cumulative := h\<rparr>)) ch))))))))"

text \<open>The accounts that both ways to vote share: configuration, poll, receiver of the platform fee.\<close>

definition check_common ::
  "chain \<Rightarrow> pubkey \<Rightarrow> pubkey \<Rightarrow> pubkey \<Rightarrow> (platform_config \<times> poll_account) outcome" where
  "check_common ch platform_config poll platform_fee_destination =
     obind (get_platform ch platform_config) (\<lambda>pc. obind (get_poll ch poll) (\<lambda>p.
     obind (require (platform_fee_destination = pc_feeDestination pc) ConstraintAddress) (\<lambda>_. Inr (pc, p))))"

definition do_vote ::
  "chain_env \<Rightarrow> pubkey \<Rightarrow> pubkey \<Rightarrow> pubkey \<Rightarrow> pubkey \<Rightarrow> pubkey \<Rightarrow> ballot_args \<Rightarrow> chain \<Rightarrow> chain outcome" where
  "do_vote X payer poll_fee_destination platform_config poll platform_fee_destination b ch =
     obind (check_common ch platform_config poll platform_fee_destination) (\<lambda>(pc, p).
     obind (require (poll_fee_destination = pl_feeDestination p) ConstraintAddress) (\<lambda>_.
     obind (system_transfer payer poll_fee_destination (pl_fee p) ch) (\<lambda>ch.
     obind (system_transfer payer platform_fee_destination (pl_platformFee p) ch) (\<lambda>ch.
       vote_common X poll b zero32 zero32 None ch))))"

text \<open>\<open>state_signed\<close>: the account of the relayer state signs, which only the relayer program can do.\<close>

definition do_vote_with_relayer ::
  "chain_env \<Rightarrow> pubkey \<Rightarrow> pubkey \<Rightarrow> bool \<Rightarrow> pubkey \<Rightarrow> pubkey \<Rightarrow> pubkey \<Rightarrow> u256 \<Rightarrow> u256 \<Rightarrow> u256 \<Rightarrow>
   ballot_args \<Rightarrow> chain \<Rightarrow> chain outcome" where
  "do_vote_with_relayer X relayer relayer_state state_signed platform_config poll
       platform_fee_destination relayer_nu_hash msg_hash relayer_id b ch =
     obind (get_relayer_state ch relayer_state) (\<lambda>rs.
     obind (check_common ch platform_config poll platform_fee_destination) (\<lambda>(pc, p).
     obind (require state_signed NotSigner) (\<lambda>_.
     obind (require (relayer_state = relayer_pda X (state_seeds (se_moot (cx_sdk X)) (pl_id p))) ConstraintSeeds) (\<lambda>_.
     obind (transfer_lam poll relayer (rs_fee rs) ch) (\<lambda>ch.
     obind (transfer_lam poll platform_fee_destination (pc_fee pc) ch) (\<lambda>ch.
       vote_common X poll b relayer_nu_hash relayer_id (Some msg_hash) ch))))))"

section \<open>Tallying\<close>

text \<open>\<open>init_if_needed\<close>: an existing tally account is used as it is; either way its data is
  replaced.\<close>

definition do_create_tally ::
  "chain_env \<Rightarrow> pubkey \<Rightarrow> pubkey \<Rightarrow> u64 \<Rightarrow> u256 \<Rightarrow> chain \<Rightarrow> chain outcome" where
  "do_create_tally X payer tally poll_id initial_tally_hash ch =
     (let d = DTally \<lparr>ta_hash = initial_tally_hash, ta_cumulative = zero32, ta_root = zero32\<rparr> in
      obind (require (tally = pda X (tally_seeds poll_id payer)) ConstraintSeeds) (\<lambda>_.
      if ch_data ch tally = None then init_account X payer tally TALLY_SPACE d ch
      else obind (get_tally ch tally) (\<lambda>_. Inr (set_data tally d ch))))"

definition tally_batch_inputs :: "tally_account \<Rightarrow> u256 \<Rightarrow> u256 \<Rightarrow> u256 \<Rightarrow> u256 list" where
  "tally_batch_inputs t root_new cumulative_msg_hash_new tally_hash_new =
     [ta_hash t, root_new, cumulative_msg_hash_new, tally_hash_new, ta_root t, ta_cumulative t]"

definition do_tally_batch ::
  "chain_env \<Rightarrow> pubkey \<Rightarrow> compressed_proof \<Rightarrow> u256 \<Rightarrow> u256 \<Rightarrow> u256 \<Rightarrow> chain \<Rightarrow> chain outcome" where
  "do_tally_batch X tally proof root_new cumulative_msg_hash_new tally_hash_new ch =
     obind (get_tally ch tally) (\<lambda>t.
     obind (check_proof X VK_TALLY proof
              (tally_batch_inputs t root_new cumulative_msg_hash_new tally_hash_new)) (\<lambda>_.
       Inr (set_data tally (DTally \<lparr>ta_hash = tally_hash_new, ta_cumulative = cumulative_msg_hash_new,
         ta_root = root_new\<rparr>) ch)))"

definition PROGRAM_MAX_CHOICES :: nat where "PROGRAM_MAX_CHOICES = 11"

text \<open>\<open>MAX_CHOICES - poll.n_choices as usize\<close> panics below zero.\<close>

definition tally_preimage :: "byte \<Rightarrow> u64 list \<Rightarrow> u64 \<Rightarrow> u256 list outcome" where
  "tally_preimage n_choices tally tally_salt =
     (if unat n_choices \<le> PROGRAM_MAX_CHOICES
      then Inr (u64_to_u256_be tally_salt # map u64_to_u256_be tally
             @ replicate (PROGRAM_MAX_CHOICES - unat n_choices) zero32)
      else Inl ArithmeticPanic)"

text \<open>The receiver of the rent does not sign, and nothing ties the tally account to the poll.\<close>

definition do_finish_tally ::
  "chain_env \<Rightarrow> pubkey \<Rightarrow> pubkey \<Rightarrow> pubkey \<Rightarrow> u64 list \<Rightarrow> u64 \<Rightarrow> chain \<Rightarrow> chain outcome" where
  "do_finish_tally X payer tally_acc poll tally tally_salt ch =
     obind (get_tally ch tally_acc) (\<lambda>t. obind (get_poll ch poll) (\<lambda>p.
     obind (require (pl_end p < ch_now ch) BadTime) (\<lambda>_.
     obind (require (length tally = unat (pl_nChoices p)) IncorrectTally) (\<lambda>_.
     obind (require (ta_cumulative t = pl_cumulative p) IncorrectTally) (\<lambda>_.
     obind (tally_preimage (pl_nChoices p) tally tally_salt) (\<lambda>preimage.
     obind (some_or (cx_hashv X preimage) PoseidonError) (\<lambda>h.
     obind (require (h = ta_hash t) IncorrectTally) (\<lambda>_.
       close_account tally_acc payer (emit (FinishTallyEvent (pl_id p) tally)
         (set_data poll (DPoll (p\<lparr>pl_tally := tally\<rparr>)) ch))))))))))"

text \<open>Neither the owner nor anybody else has to sign.\<close>

definition do_close_tally :: "chain_env \<Rightarrow> pubkey \<Rightarrow> pubkey \<Rightarrow> u64 \<Rightarrow> chain \<Rightarrow> chain outcome" where
  "do_close_tally X owner tally poll_id ch =
     obind (get_tally ch tally) (\<lambda>t.
     obind (require (tally = pda X (tally_seeds poll_id owner)) ConstraintSeeds) (\<lambda>_.
       close_account tally owner ch))"

definition do_withdraw_poll :: "chain_env \<Rightarrow> pubkey \<Rightarrow> pubkey \<Rightarrow> chain \<Rightarrow> chain outcome" where
  "do_withdraw_poll X fee_destination poll ch =
     obind (get_poll ch poll) (\<lambda>p.
     obind (require (pl_feeDestination p = fee_destination) ConstraintHasOne) (\<lambda>_.
     obind (require (pl_end p \<le> ch_now ch) BadTime) (\<lambda>_.
     obind (checked_sub (ch_lam ch poll) (cx_rent X (ch_size ch poll))) (\<lambda>x.
       transfer_lam poll fee_destination x ch))))"

end
