(* ===== verification/RelayerProgram.thy ===== *)
theory RelayerProgram
  imports MootProgram
begin

text \<open>
  The relayer program, \<open>programs/zk-relayer/src/instructions\<close> (\<open>create_relayer_state\<close> is with
  its caller in \<open>MootProgram\<close>). A relayed message is followed into the voting program; the
  only instruction that the SDK and the relayer service relay is \<open>vote_with_relayer\<close>, and
  the model of \<open>relay\<close> is for its discriminator.
\<close>

text \<open>\<open>INIT_SPACE\<close> of the configuration is 76, and \<open>added_space\<close> counts the relayer again.\<close>

definition relayer_config_space :: "string \<Rightarrow> nat" where
  "relayer_config_space endpoint = 1 + 76 + (36 + length endpoint)"

definition relayer_do_initialize ::
  "chain_env \<Rightarrow> pubkey \<Rightarrow> pubkey \<Rightarrow> string \<Rightarrow> pubkey \<Rightarrow> pubkey \<Rightarrow> u64 \<Rightarrow> chain \<Rightarrow> chain outcome" where
  "relayer_do_initialize X payer relayer_config endpoint fee_key admin fee ch =
     obind (require (relayer_config = relayer_pda X [bytes_of_string ''RELAYER_CONFIG'']) ConstraintSeeds) (\<lambda>_.
     init_account X payer relayer_config (relayer_config_space endpoint)
       (DRelayerConfig \<lparr>rc_admin = admin, rc_fee = fee, rc_endpoint = endpoint, rc_feeKey = fee_key\<rparr>) ch)"

definition abs_diff :: "nat \<Rightarrow> nat \<Rightarrow> nat" where
  "abs_diff a b = (if a < b then b - a else a - b)"

text \<open>The account is not reallocated: a configuration that does not fit its data any more cannot
  be written back.\<close>

definition relayer_config_len :: "string \<Rightarrow> nat" where
  "relayer_config_len endpoint = 1 + 32 + 8 + 4 + length endpoint + 32"

definition relayer_do_update_config ::
  "chain_env \<Rightarrow> pubkey \<Rightarrow> pubkey \<Rightarrow> pubkey \<Rightarrow> string \<Rightarrow> pubkey \<Rightarrow> pubkey \<Rightarrow> u64 \<Rightarrow> chain \<Rightarrow> chain outcome" where
  "relayer_do_update_config X payer signer relayer_config endpoint fee_key admin fee ch =
     obind (get_relayer_config ch relayer_config) (\<lambda>rc.
     obind (require (rc_admin rc = signer) ConstraintHasOne) (\<lambda>_.
     obind (checked_sub (cx_rent X (abs_diff (length (rc_endpoint rc)) (length endpoint))) (cx_rent X 0)) (\<lambda>rent_diff.
     obind (if length (rc_endpoint rc) < length endpoint
            then system_transfer payer relayer_config rent_diff ch
            else transfer_lam relayer_config payer rent_diff ch) (\<lambda>ch.
     obind (require (relayer_config_len endpoint \<le> ch_size ch relayer_config) AccountDidNotSerialize) (\<lambda>_.
       Inr (set_data relayer_config (DRelayerConfig
         \<lparr>rc_admin = admin, rc_fee = fee, rc_endpoint = endpoint, rc_feeKey = fee_key\<rparr>) ch))))))"

section \<open>Relaying a vote\<close>

text \<open>The key of the relayer without its top three bits, so that it is a field element.\<close>

definition relayer_id_of :: "pubkey \<Rightarrow> u256" where
  "relayer_id_of key = (case key of [] \<Rightarrow> [] | b # bs \<Rightarrow> (b AND 31) # bs)"

record relay_args =
  ra_stateId :: u64
  ra_proof :: compressed_proof
  ra_rootNew :: u256
  ra_msgHash :: u256
  ra_nuHash :: u256
  ra_data :: "byte list"

definition relay_inputs :: "relayer_state \<Rightarrow> relay_args \<Rightarrow> u256 list" where
  "relay_inputs rs a = [rs_root rs, ra_rootNew a, ra_nuHash a, ra_msgHash a, u64_to_u256_be (rs_msgLimit rs)]"

text \<open>The call of the voting program: \<open>full_data\<close> is the discriminator, the three hashes and
  the relayed data, and the accounts are the relayer, its state and the forwarded ones, of which the
  voting program looks at the first three.\<close>

definition invoke_vote ::
  "chain_env \<Rightarrow> pubkey \<Rightarrow> pubkey \<Rightarrow> pubkey list \<Rightarrow> u256 \<Rightarrow> u256 \<Rightarrow> u256 \<Rightarrow> byte list \<Rightarrow> chain \<Rightarrow> chain outcome" where
  "invoke_vote X relayer relayer_state forwarded nu_hash msg_hash relayer_id data ch =
     (case (parse_vote_args data, forwarded) of
        (Some (ephPk, nonce, ciphertext, proof), platform_config # poll # platform_fee_destination # extra) \<Rightarrow>
          do_vote_with_relayer X relayer relayer_state True platform_config poll platform_fee_destination
            nu_hash msg_hash relayer_id
            \<lparr>ba_ephPk = ephPk, ba_nonce = word_of_int nonce, ba_ciphertext = ciphertext, ba_proof = proof\<rparr> ch
      | _ \<Rightarrow> Inl BadInstruction)"

definition relay_vote ::
  "chain_env \<Rightarrow> bool \<Rightarrow> pubkey \<Rightarrow> pubkey \<Rightarrow> pubkey \<Rightarrow> pubkey \<Rightarrow> pubkey list \<Rightarrow> relay_args \<Rightarrow> chain \<Rightarrow> chain outcome" where
  "relay_vote X relayer_signed relayer relayer_config relayer_state target_program forwarded a ch =
     obind (require relayer_signed NotSigner) (\<lambda>_.
     obind (get_relayer_config ch relayer_config) (\<lambda>rc.
     obind (require (relayer = rc_feeKey rc) ConstraintAddress) (\<lambda>_.
     obind (get_relayer_state ch relayer_state) (\<lambda>rs.
     obind (require (relayer_state = relayer_pda X (state_seeds target_program (ra_stateId a))) ConstraintSeeds) (\<lambda>_.
     obind (require (target_program \<in> set (ALLOWED_PROGRAMS X)) ProgramNotAllowed) (\<lambda>_.
     obind (check_proof X VK_RELAY (ra_proof a) (relay_inputs rs a)) (\<lambda>_.
     let ch = set_data relayer_state (DRelayerState (rs\<lparr>rs_root := ra_rootNew a\<rparr>)) ch;
         balance_before = ch_lam ch relayer in
     obind (invoke_vote X relayer relayer_state forwarded (ra_nuHash a) (ra_msgHash a)
              (relayer_id_of relayer) (ra_data a) ch) (\<lambda>ch.
     obind (require (balance_before < ch_lam ch relayer \<and>
              rs_fee rs \<le> ch_lam ch relayer - balance_before) RelayerNotFunded) (\<lambda>_.
       Inr ch)))))))))"

end
