(* ===== verification/ProgramCorrect.thy ===== *)
theory ProgramCorrect
  imports RelayerProgram
begin

text \<open>
  What the two programs guarantee together. \<open>chain_step\<close> is one successful instruction of
  either program, a plain transfer, or the passing of time; the invariants are proved by rule
  induction over it.
\<close>

inductive chain_step :: "chain_env \<Rightarrow> chain \<Rightarrow> chain \<Rightarrow> bool" for X where
  cs_initialize: "do_initialize X payer cfg admin fee dest ch = Inr ch' \<Longrightarrow> chain_step X ch ch'"
| cs_update: "do_update_config signer cfg admin fee dest ch = Inr ch' \<Longrightarrow> chain_step X ch ch'"
| cs_create: "do_create_poll X payer cfg poll rcfg rstate a ch = Inr ch' \<Longrightarrow> chain_step X ch ch'"
| cs_vote: "do_vote X payer dest cfg poll pdest b ch = Inr ch' \<Longrightarrow> chain_step X ch ch'"
| cs_relay: "relay_vote X sg relayer rcfg rstate target fwd ra ch = Inr ch' \<Longrightarrow> chain_step X ch ch'"
| cs_create_tally: "do_create_tally X payer tally i h ch = Inr ch' \<Longrightarrow> chain_step X ch ch'"
| cs_batch: "do_tally_batch X tally proof r c h ch = Inr ch' \<Longrightarrow> chain_step X ch ch'"
| cs_finish: "do_finish_tally X payer tally poll counts salt ch = Inr ch' \<Longrightarrow> chain_step X ch ch'"
| cs_close: "do_close_tally X owner tally i ch = Inr ch' \<Longrightarrow> chain_step X ch ch'"
| cs_withdraw: "do_withdraw_poll X dest poll ch = Inr ch' \<Longrightarrow> chain_step X ch ch'"
| cs_relayer_init: "relayer_do_initialize X payer cfg ep key admin fee ch = Inr ch' \<Longrightarrow> chain_step X ch ch'"
| cs_relayer_update: "relayer_do_update_config X payer signer cfg ep key admin fee ch = Inr ch' \<Longrightarrow>
    chain_step X ch ch'"
| cs_transfer: "system_transfer a b x ch = Inr ch' \<Longrightarrow> chain_step X ch ch'"
| cs_time: "ch_now ch \<le> now \<Longrightarrow> chain_step X ch (ch\<lparr>ch_now := now\<rparr>)"

inductive_cases chain_stepE: "chain_step X ch ch'"

section \<open>What a step does\<close>

definition poll_at :: "chain \<Rightarrow> pubkey \<Rightarrow> poll_account option" where
  "poll_at ch a = (case ch_data ch a of Some (DPoll p) \<Rightarrow> Some p | _ \<Rightarrow> None)"

definition msgs_of :: "u64 \<Rightarrow> chain_event list \<Rightarrow> u256 list" where
  "msgs_of i es = concat (map (\<lambda>e. case e of VoteEvent j pk n ct h \<Rightarrow> if j = i then [h] else [] | _ \<Rightarrow> []) es)"

lemma msgs_of_simps [simp]: "msgs_of i [] = []"
  "msgs_of i (es @ [e]) = msgs_of i es @ msgs_of i [e]"
  "msgs_of i [VoteEvent j pk n ct h] = (if j = i then [h] else [])"
  "msgs_of i [FinishTallyEvent j t] = []" "msgs_of i [create_poll_event a f] = []"
  by (simp_all add: msgs_of_def create_poll_event_def)

lemma poll_at_eq: "poll_at ch a = Some p \<longleftrightarrow> ch_data ch a = Some (DPoll p)"
  by (auto simp: poll_at_def split: option.splits account_data.splits)

lemma emit_simps [simp]: "poll_at (emit e ch) = poll_at ch" "ch_now (emit e ch) = ch_now ch"
  "ch_events (emit e ch) = ch_events ch @ [e]" "ch_data (emit e ch) = ch_data ch" "ch_lam (emit e ch) = ch_lam ch"
  by (simp_all add: emit_def poll_at_def fun_eq_iff)

lemma set_data_simps [simp]: "ch_now (set_data a d ch) = ch_now ch" "ch_events (set_data a d ch) = ch_events ch"
  "ch_data (set_data a d ch) = (ch_data ch)(a \<mapsto> d)" "ch_lam (set_data a d ch) = ch_lam ch"
  "poll_at (set_data a (DPoll p) ch) = (poll_at ch)(a \<mapsto> p)"
  by (simp_all add: set_data_def poll_at_def fun_eq_iff)

text \<open>A quiet change keeps every poll and emits no vote.\<close>

definition quiet :: "chain \<Rightarrow> chain \<Rightarrow> bool" where
  "quiet ch ch' \<longleftrightarrow> poll_at ch' = poll_at ch \<and> ch_events ch' = ch_events ch \<and> ch_now ch' = ch_now ch"

lemma quiet_refl [simp]: "quiet ch ch"
  by (simp add: quiet_def)

lemma quiet_trans: "quiet a b \<Longrightarrow> quiet b c \<Longrightarrow> quiet a c"
  by (simp add: quiet_def)

lemma quiet_transfer: "transfer_lam a b x ch = Inr ch' \<Longrightarrow> quiet ch ch'"
  by (auto simp: quiet_def poll_at_def fun_eq_iff dest!: transfer_frame)

lemma quiet_data:
  assumes "ch_data ch' = (ch_data ch)(a := d)" "ch_events ch' = ch_events ch" "ch_now ch' = ch_now ch"
    and "poll_at ch a = None" "\<And>p. d \<noteq> Some (DPoll p)"
  shows "quiet ch ch'"
  using assms by (auto simp: quiet_def poll_at_def fun_eq_iff split: option.splits account_data.splits)

lemma poll_at_None: "ch_data ch a = None \<Longrightarrow> poll_at ch a = None"
  "ch_data ch a = Some (DTally t) \<Longrightarrow> poll_at ch a = None"
  "ch_data ch a = Some (DPlatform c) \<Longrightarrow> poll_at ch a = None"
  "ch_data ch a = Some (DRelayerConfig rc) \<Longrightarrow> poll_at ch a = None"
  "ch_data ch a = Some (DRelayerState rs) \<Longrightarrow> poll_at ch a = None"
  by (simp_all add: poll_at_def)

lemma quiet_init:
  "init_account X payer a space d ch = Inr ch' \<Longrightarrow> (\<And>p. d \<noteq> DPoll p) \<Longrightarrow> quiet ch ch'"
  using init_account_ok [of X payer a space d ch ch'] by (intro quiet_data [of ch' ch a "Some d"]) (auto intro: poll_at_None)

lemma quiet_close:
  "close_account a to ch = Inr ch' \<Longrightarrow> ch_data ch a = Some (DTally t) \<Longrightarrow> quiet ch ch'"
  using close_account_ok [of a to ch ch'] by (intro quiet_data [of ch' ch a None]) (auto intro: poll_at_None)

lemma quiet_set:
  "poll_at ch a = None \<Longrightarrow> (\<And>p. d \<noteq> DPoll p) \<Longrightarrow> quiet ch (set_data a d ch)"
  by (rule quiet_data) (auto simp: set_data_def)

text \<open>A vote: one poll gets a new running hash, one event.\<close>

definition votes :: "chain_env \<Rightarrow> pubkey \<Rightarrow> chain \<Rightarrow> chain \<Rightarrow> bool" where
  "votes X poll ch ch' \<longleftrightarrow> (\<exists>p b m h. poll_at ch poll = Some p \<and>
     pl_start p \<le> ch_now ch \<and> ch_now ch \<le> pl_end p \<and> ch_now ch' = ch_now ch \<and>
     cx_hashv X (ballot_preimage b) = Some m \<and> cx_hashv X [pl_cumulative p, m] = Some h \<and>
     poll_at ch' = (poll_at ch)(poll \<mapsto> p\<lparr>pl_cumulative := h\<rparr>) \<and>
     ch_events ch' = ch_events ch @ [VoteEvent (pl_id p) (ba_ephPk b) (ba_nonce b) (ba_ciphertext b) m])"

definition creates_poll :: "chain_env \<Rightarrow> pubkey \<Rightarrow> create_poll_args \<Rightarrow> u64 \<Rightarrow> chain \<Rightarrow> chain \<Rightarrow> bool" where
  "creates_poll X poll a f ch ch' \<longleftrightarrow> ch_data ch poll = None \<and> poll = pda X (poll_seeds (cr_id a)) \<and>
     0 < cr_nChoices a \<and> cr_start a < cr_end a \<and>
     poll_at ch' = (poll_at ch)(poll \<mapsto> new_poll a f) \<and> ch_now ch' = ch_now ch \<and>
     ch_events ch' = ch_events ch @ [create_poll_event a f]"

definition creates :: "chain_env \<Rightarrow> pubkey \<Rightarrow> chain \<Rightarrow> chain \<Rightarrow> bool" where
  "creates X poll ch ch' \<longleftrightarrow> (\<exists>a f. creates_poll X poll a f ch ch')"

definition finishes :: "chain_env \<Rightarrow> pubkey \<Rightarrow> pubkey \<Rightarrow> u64 list \<Rightarrow> u64 \<Rightarrow> chain \<Rightarrow> chain \<Rightarrow> bool" where
  "finishes X tally poll counts salt ch ch' \<longleftrightarrow> (\<exists>t p pre. ch_data ch tally = Some (DTally t) \<and>
     poll_at ch poll = Some p \<and> pl_end p < ch_now ch \<and> ch_now ch' = ch_now ch \<and>
     length counts = unat (pl_nChoices p) \<and> ta_cumulative t = pl_cumulative p \<and>
     tally_preimage (pl_nChoices p) counts salt = Inr pre \<and> cx_hashv X pre = Some (ta_hash t) \<and>
     poll_at ch' = (poll_at ch)(poll \<mapsto> p\<lparr>pl_tally := counts\<rparr>) \<and>
     ch_events ch' = ch_events ch @ [FinishTallyEvent (pl_id p) counts])"

lemma vote_common_ok:
  assumes "vote_common X poll b nu rid hm ch = Inr ch'"
  shows "votes X poll ch ch'"
proof -
  obtain p m h where "ch_data ch poll = Some (DPoll p)" "pl_start p \<le> ch_now ch" "ch_now ch \<le> pl_end p"
      "cx_hashv X (ballot_preimage b) = Some m" "cx_hashv X [pl_cumulative p, m] = Some h"
      "ch' = emit (VoteEvent (pl_id p) (ba_ephPk b) (ba_nonce b) (ba_ciphertext b) m)
         (set_data poll (DPoll (p\<lparr>pl_cumulative := h\<rparr>)) ch)"
    using assms by (auto simp: vote_common_def outcome_simps)
  then show ?thesis
    unfolding votes_def by (intro exI [of _ p] exI [of _ b]) (auto simp: poll_at_eq)
qed

lemma quiet_before: "quiet ch ch1 \<Longrightarrow> votes X poll ch1 ch2 \<Longrightarrow> votes X poll ch ch2"
  by (simp add: quiet_def votes_def)

lemma paid_vote:
  "transfer_lam a b x ch = Inr ch1 \<Longrightarrow> transfer_lam c d y ch1 = Inr ch2 \<Longrightarrow>
   vote_common X poll v nu rid hm ch2 = Inr ch' \<Longrightarrow> votes X poll ch ch'"
  by (rule quiet_before [OF quiet_trans [OF quiet_transfer quiet_transfer] vote_common_ok])

lemma vote_step: "do_vote X payer dest cfg poll pdest b ch = Inr ch' \<Longrightarrow> votes X poll ch ch'"
  by (auto simp: do_vote_def outcome_simps system_transfer_def intro: paid_vote)

lemma vote_with_relayer_step:
  "do_vote_with_relayer X relayer rstate sg cfg poll pdest nu mh rid b ch = Inr ch' \<Longrightarrow> votes X poll ch ch'"
  by (auto simp: do_vote_with_relayer_def outcome_simps intro: paid_vote)

lemma invoke_vote_step:
  assumes "invoke_vote X relayer rstate fwd nu mh rid data ch = Inr ch'"
  shows "\<exists>poll. votes X poll ch ch'"
proof -
  obtain pk n ct pr cfg poll pdest where "parse_vote_args data = Some (pk, n, ct, pr)" "\<exists>extra. fwd = cfg # poll # pdest # extra"
    using assms by (auto simp: invoke_vote_def split: option.splits list.splits prod.splits)
  then show ?thesis using assms vote_with_relayer_step by (fastforce simp: invoke_vote_def)
qed

lemma relay_step: "relay_vote X sg relayer rcfg rstate target fwd ra ch = Inr ch' \<Longrightarrow> \<exists>poll. votes X poll ch ch'"
proof -
  assume r: "relay_vote X sg relayer rcfg rstate target fwd ra ch = Inr ch'"
  then obtain rs ch1 where "ch_data ch rstate = Some (DRelayerState rs)"
      "ch1 = set_data rstate (DRelayerState (rs\<lparr>rs_root := ra_rootNew ra\<rparr>)) ch"
      "invoke_vote X relayer rstate fwd (ra_nuHash ra) (ra_msgHash ra) (relayer_id_of relayer) (ra_data ra) ch1 = Inr ch'"
    by (auto simp: relay_vote_def Let_def outcome_simps)
  moreover from this have "quiet ch ch1" by (auto intro: quiet_set poll_at_None)
  ultimately show ?thesis using invoke_vote_step quiet_before by blast
qed

lemma create_poll_creates:
  assumes "do_create_poll X payer cfg poll rcfg rstate a ch = Inr ch'"
  shows "\<exists>f. creates_poll X poll a f ch ch'"
proof -
  obtain pc :: platform_config and ch1 ch2 ch3 d where s: "emit (create_poll_event a (pc_fee pc)) ch3 = ch'"
      "create_relayer_state X payer rcfg rstate (se_moot (cx_sdk X)) (se_moot (cx_sdk X)) (cr_id a)
         MSG_LIMIT (cr_end a) ch2 = Inr ch3"
      "transfer_lam payer poll d ch1 = Inr ch2"
      "init_account X payer poll (poll_space (cr_nChoices a) (cr_descriptionUrl a) (cr_censusUrl a))
         (DPoll (new_poll a (pc_fee pc))) ch = Inr ch1"
      "poll = pda X (poll_seeds (cr_id a))" "0 < cr_nChoices a" "cr_start a < cr_end a"
    using assms unfolding do_create_poll_def outcome_simps system_transfer_def sum.inject
    by blast
  note i = init_account_ok [OF s(4)]
  have "quiet ch2 ch3"
    using s(2) by (auto simp: create_relayer_state_def outcome_simps intro: quiet_init)
  then have q: "quiet ch1 ch3" using quiet_transfer [OF s(3)] quiet_trans by blast
  have "poll_at ch1 = (poll_at ch)(poll \<mapsto> new_poll a (pc_fee pc))"
    by (auto simp: poll_at_def i(2) fun_eq_iff)
  then show ?thesis
    unfolding creates_poll_def using s(5-7) i q s(1) [symmetric]
    by (intro exI [of _ "pc_fee pc"]) (simp add: quiet_def)
qed

lemma create_poll_step: "do_create_poll X payer cfg poll rcfg rstate a ch = Inr ch' \<Longrightarrow> creates X poll ch ch'"
  using create_poll_creates unfolding creates_def by blast

lemma finish_step:
  assumes "do_finish_tally X payer tally poll counts salt ch = Inr ch'"
  shows "finishes X tally poll counts salt ch ch'"
proof -
  obtain t p pre where s: "ch_data ch tally = Some (DTally t)" "ch_data ch poll = Some (DPoll p)"
      "pl_end p < ch_now ch" "length counts = unat (pl_nChoices p)" "ta_cumulative t = pl_cumulative p"
      "tally_preimage (pl_nChoices p) counts salt = Inr pre" "cx_hashv X pre = Some (ta_hash t)"
      "close_account tally payer (emit (FinishTallyEvent (pl_id p) counts)
         (set_data poll (DPoll (p\<lparr>pl_tally := counts\<rparr>)) ch)) = Inr ch'"
    using assms by (auto simp: do_finish_tally_def outcome_simps)
  let ?c = "emit (FinishTallyEvent (pl_id p) counts) (set_data poll (DPoll (p\<lparr>pl_tally := counts\<rparr>)) ch)"
  have "ch_data ?c tally = Some (DTally t)" using s(1,2) by auto
  with s(8) have "quiet ?c ch'" by (rule quiet_close)
  then show ?thesis
    unfolding finishes_def using s
    by (intro exI [of _ t] exI [of _ p] exI [of _ pre]) (simp add: quiet_def poll_at_eq)
qed

lemma other_steps:
  "do_initialize X payer cfg admin fee dest ch = Inr ch' \<Longrightarrow> quiet ch ch'"
  "do_update_config signer cfg admin fee dest ch = Inr ch' \<Longrightarrow> quiet ch ch'"
  "do_create_tally X payer tally i h ch = Inr ch' \<Longrightarrow> quiet ch ch'"
  "do_tally_batch X tally proof r c h ch = Inr ch' \<Longrightarrow> quiet ch ch'"
  "do_close_tally X owner tally i ch = Inr ch' \<Longrightarrow> quiet ch ch'"
  "do_withdraw_poll X dest poll ch = Inr ch' \<Longrightarrow> quiet ch ch'"
  "relayer_do_initialize X payer cfg ep key admin fee ch = Inr ch' \<Longrightarrow> quiet ch ch'"
  "relayer_do_update_config X payer signer cfg ep key admin fee ch = Inr ch' \<Longrightarrow> quiet ch ch'"
proof -
  show "do_initialize X payer cfg admin fee dest ch = Inr ch' \<Longrightarrow> quiet ch ch'"
    by (auto simp: do_initialize_def outcome_simps intro: quiet_init)
  show "do_update_config signer cfg admin fee dest ch = Inr ch' \<Longrightarrow> quiet ch ch'"
    by (auto simp: do_update_config_def outcome_simps intro: quiet_set poll_at_None)
  show "do_create_tally X payer tally i h ch = Inr ch' \<Longrightarrow> quiet ch ch'"
    by (auto simp: do_create_tally_def outcome_simps Let_def intro: quiet_init quiet_set poll_at_None split: if_splits)
  show "do_tally_batch X tally proof r c h ch = Inr ch' \<Longrightarrow> quiet ch ch'"
    by (auto simp: do_tally_batch_def outcome_simps intro: quiet_set poll_at_None)
  show "do_close_tally X owner tally i ch = Inr ch' \<Longrightarrow> quiet ch ch'"
    by (auto simp: do_close_tally_def outcome_simps intro: quiet_close)
  show "do_withdraw_poll X dest poll ch = Inr ch' \<Longrightarrow> quiet ch ch'"
    by (auto simp: do_withdraw_poll_def outcome_simps intro: quiet_transfer)
  show "relayer_do_initialize X payer cfg ep key admin fee ch = Inr ch' \<Longrightarrow> quiet ch ch'"
    by (auto simp: relayer_do_initialize_def outcome_simps intro: quiet_init)
  assume "relayer_do_update_config X payer signer cfg ep key admin fee ch = Inr ch'"
  then obtain rc diff ch1 d where u: "ch_data ch cfg = Some (DRelayerConfig rc)"
      "(if length (rc_endpoint rc) < length ep then transfer_lam payer cfg diff ch
        else transfer_lam cfg payer diff ch) = Inr ch1" "set_data cfg (DRelayerConfig d) ch1 = ch'"
    unfolding relayer_do_update_config_def outcome_simps system_transfer_def sum.inject by blast
  then have "quiet ch ch1" "ch_data ch1 = ch_data ch"
    by (auto split: if_splits dest: quiet_transfer transfer_frame)
  moreover from this u(1) have "quiet ch1 (set_data cfg (DRelayerConfig d) ch1)"
    by (intro quiet_set) (auto intro: poll_at_None)
  ultimately show "quiet ch ch'" using u(3) quiet_trans by blast
qed

lemma step_cases:
  assumes "chain_step X ch ch'"
  shows "quiet ch ch' \<or> (\<exists>poll. creates X poll ch ch') \<or> (\<exists>poll. votes X poll ch ch') \<or>
    (\<exists>tally poll counts salt. finishes X tally poll counts salt ch ch') \<or>
    (\<exists>now \<ge> ch_now ch. ch' = ch\<lparr>ch_now := now\<rparr>)"
  using assms
proof (cases rule: chain_step.cases)
  case cs_create
  then show ?thesis using create_poll_step by blast
next
  case cs_vote
  then show ?thesis using vote_step by blast
next
  case cs_relay
  then show ?thesis using relay_step by blast
next
  case cs_finish
  then show ?thesis using finish_step by blast
next
  case cs_transfer
  then show ?thesis using quiet_transfer by (simp add: system_transfer_def)
next
  case cs_time
  then show ?thesis by blast
qed (auto dest: other_steps)

section \<open>The running hash\<close>

definition chain_hash :: "chain_env \<Rightarrow> u256 list \<Rightarrow> u256 option" where
  "chain_hash X ms = foldl (\<lambda>h m. case h of None \<Rightarrow> None | Some h \<Rightarrow> cx_hashv X [h, m]) (Some zero32) ms"

lemma chain_hash_snoc: "chain_hash X (ms @ [m]) = (case chain_hash X ms of None \<Rightarrow> None | Some h \<Rightarrow> cx_hashv X [h, m])"
  by (simp add: chain_hash_def)

text \<open>A poll stands at the address of its number, its running hash is that of the votes in the
  log, and a result is only there after the end, with one count per choice and at most eleven
  choices.\<close>

definition poll_ok :: "chain_env \<Rightarrow> chain \<Rightarrow> pubkey \<Rightarrow> poll_account \<Rightarrow> bool" where
  "poll_ok X ch a p \<longleftrightarrow> a = pda X (poll_seeds (pl_id p)) \<and>
     chain_hash X (msgs_of (pl_id p) (ch_events ch)) = Some (pl_cumulative p) \<and>
     0 < pl_nChoices p \<and> pl_start p < pl_end p \<and>
     (pl_tally p \<noteq> [] \<longrightarrow> pl_end p < ch_now ch \<and> length (pl_tally p) = unat (pl_nChoices p) \<and>
        unat (pl_nChoices p) \<le> PROGRAM_MAX_CHOICES)"

definition chain_inv :: "chain_env \<Rightarrow> chain \<Rightarrow> bool" where
  "chain_inv X ch \<longleftrightarrow> (\<forall>a p. poll_at ch a = Some p \<longrightarrow> poll_ok X ch a p) \<and>
     (\<forall>i. poll_at ch (pda X (poll_seeds i)) = None \<longrightarrow> msgs_of i (ch_events ch) = [])"

lemma inv_votes:
  assumes "chain_inv X ch" "votes X poll ch ch'"
  shows "chain_inv X ch'"
proof -
  obtain p :: poll_account and b :: ballot_args and m h where v: "poll_at ch poll = Some p" "ch_now ch \<le> pl_end p" "ch_now ch' = ch_now ch"
      "cx_hashv X [pl_cumulative p, m] = Some h"
      "poll_at ch' = (poll_at ch)(poll \<mapsto> p\<lparr>pl_cumulative := h\<rparr>)"
      "ch_events ch' = ch_events ch @ [VoteEvent (pl_id p) (ba_ephPk b) (ba_nonce b) (ba_ciphertext b) m]"
    using assms(2) unfolding votes_def by blast
  have p: "poll_ok X ch poll p" using assms(1) v(1) by (simp add: chain_inv_def)
  have "poll_ok X ch' a q" if q: "poll_at ch' a = Some q" for a q
  proof (cases "a = poll")
    case True
    then have "q = p\<lparr>pl_cumulative := h\<rparr>" using q v(5) by simp
    moreover have "poll_ok X ch' a (p\<lparr>pl_cumulative := h\<rparr>)"
      using p v(3,4,6) True by (simp add: poll_ok_def chain_hash_snoc)
    ultimately show ?thesis by (simp only:)
  next
    case False
    then have old: "poll_ok X ch a q" using q v(5) assms(1) by (simp add: chain_inv_def)
    then have "pl_id p \<noteq> pl_id q" using p False by (auto simp: poll_ok_def)
    then show ?thesis using old v(3,6) by (simp add: poll_ok_def)
  qed
  moreover have "msgs_of i (ch_events ch') = []" if "poll_at ch' (pda X (poll_seeds i)) = None" for i
  proof -
    have "poll_at ch (pda X (poll_seeds i)) = None" "pda X (poll_seeds i) \<noteq> poll"
      using that v(5) by (auto split: if_splits)
    then show ?thesis using assms(1) p v(6) by (auto simp: chain_inv_def poll_ok_def)
  qed
  ultimately show ?thesis by (simp add: chain_inv_def)
qed

lemma inv_creates:
  assumes "chain_inv X ch" "creates X poll ch ch'"
  shows "chain_inv X ch'"
proof -
  obtain a :: create_poll_args and f where c: "ch_data ch poll = None" "poll = pda X (poll_seeds (cr_id a))" "0 < cr_nChoices a"
      "cr_start a < cr_end a" "poll_at ch' = (poll_at ch)(poll \<mapsto> new_poll a f)" "ch_now ch' = ch_now ch"
      "ch_events ch' = ch_events ch @ [create_poll_event a f]"
    using assms(2) unfolding creates_def creates_poll_def by blast
  have none: "poll_at ch poll = None" using c(1) by (rule poll_at_None)
  then have "msgs_of (cr_id a) (ch_events ch) = []" using assms(1) c(2) by (simp add: chain_inv_def)
  then have "poll_ok X ch' poll (new_poll a f)"
    using c by (simp add: poll_ok_def new_poll_def chain_hash_def)
  moreover have "poll_ok X ch' b q" if "poll_at ch b = Some q" for b q
    using that assms(1) c(6,7) by (simp add: chain_inv_def poll_ok_def)
  moreover have "msgs_of i (ch_events ch') = []" if "poll_at ch' (pda X (poll_seeds i)) = None" for i
    using that assms(1) c(5,7) none by (auto simp: chain_inv_def split: if_splits)
  ultimately show ?thesis using c(5) by (auto simp: chain_inv_def split: if_splits)
qed

lemma inv_finishes:
  assumes "chain_inv X ch" "finishes X tally poll counts salt ch ch'"
  shows "chain_inv X ch'"
proof -
  obtain t :: tally_account and p :: poll_account and pre where f: "poll_at ch poll = Some p" "pl_end p < ch_now ch" "ch_now ch' = ch_now ch"
      "length counts = unat (pl_nChoices p)" "tally_preimage (pl_nChoices p) counts salt = Inr pre"
      "poll_at ch' = (poll_at ch)(poll \<mapsto> p\<lparr>pl_tally := counts\<rparr>)"
      "ch_events ch' = ch_events ch @ [FinishTallyEvent (pl_id p) counts]"
    using assms(2) unfolding finishes_def by blast
  have "unat (pl_nChoices p) \<le> PROGRAM_MAX_CHOICES"
    using f(5) by (auto simp: tally_preimage_def split: if_splits)
  then have "poll_ok X ch' poll (p\<lparr>pl_tally := counts\<rparr>)"
    using assms(1) f by (auto simp: chain_inv_def poll_ok_def)
  moreover have "poll_ok X ch' a q" if "poll_at ch a = Some q" for a q
    using that assms(1) f(3,7) by (simp add: chain_inv_def poll_ok_def)
  moreover have "msgs_of i (ch_events ch') = []" if "poll_at ch' (pda X (poll_seeds i)) = None" for i
    using that assms(1) f(1,6,7) by (auto simp: chain_inv_def split: if_splits)
  ultimately show ?thesis using f(6) by (auto simp: chain_inv_def split: if_splits)
qed

lemma inv_chain_step: "chain_step X ch ch' \<Longrightarrow> chain_inv X ch \<Longrightarrow> chain_inv X ch'"
proof (drule step_cases, elim disjE exE conjE)
  show "chain_inv X ch \<Longrightarrow> quiet ch ch' \<Longrightarrow> chain_inv X ch'"
    by (simp add: quiet_def chain_inv_def poll_ok_def)
  show "chain_inv X ch \<Longrightarrow> ch_now ch \<le> now \<Longrightarrow> ch' = ch\<lparr>ch_now := now\<rparr> \<Longrightarrow> chain_inv X ch'" for now
    by (auto simp: chain_inv_def poll_ok_def poll_at_def) (metis order_less_le_trans)+
qed (auto intro: inv_votes inv_creates inv_finishes)

lemma inv_chain_steps: "(chain_step X)\<^sup>*\<^sup>* ch ch' \<Longrightarrow> chain_inv X ch \<Longrightarrow> chain_inv X ch'"
  by (induction rule: rtranclp_induct) (auto intro: inv_chain_step)

definition no_polls :: "chain \<Rightarrow> bool" where
  "no_polls ch \<longleftrightarrow> (\<forall>a. poll_at ch a = None) \<and> ch_events ch = []"

lemma no_polls_inv: "no_polls ch \<Longrightarrow> chain_inv X ch"
  by (simp add: no_polls_def chain_inv_def)

section \<open>What never changes\<close>

text \<open>The terms of a poll: all but its running hash and its result.\<close>

definition terms :: "poll_account \<Rightarrow> poll_account" where
  "terms p = p\<lparr>pl_cumulative := [], pl_tally := []\<rparr>"

lemma step_terms:
  assumes "chain_step X ch ch'" "poll_at ch a = Some p"
  shows "\<exists>p'. poll_at ch' a = Some p' \<and> terms p' = terms p"
  using step_cases [OF assms(1)]
proof (elim disjE exE conjE)
  fix poll assume "creates X poll ch ch'"
  then have "poll_at ch poll = None" "\<And>b. b \<noteq> poll \<Longrightarrow> poll_at ch' b = poll_at ch b"
    by (auto simp: creates_def creates_poll_def poll_at_None(1))
  with assms(2) have "poll_at ch' a = Some p" by (metis option.distinct(1))
  then show ?thesis by blast
next
  fix now assume "ch' = ch\<lparr>ch_now := now\<rparr>"
  then show ?thesis using assms(2) by (simp add: poll_at_def)
qed (use assms(2) in \<open>auto simp: quiet_def votes_def finishes_def terms_def\<close>)

lemma terms_eq: "terms p = terms q \<Longrightarrow> pl_id p = pl_id q \<and> pl_end p = pl_end q"
proof -
  assume "terms p = terms q"
  then have "pl_id (terms p) = pl_id (terms q) \<and> pl_end (terms p) = pl_end (terms q)" by simp
  then show ?thesis by (simp add: terms_def)
qed

lemma step_now: "chain_step X ch ch' \<Longrightarrow> ch_now ch \<le> ch_now ch'"
  by (drule step_cases) (auto simp: quiet_def creates_def creates_poll_def votes_def finishes_def)

text \<open>After its end, a poll gets no more votes.\<close>

lemma closed_step:
  assumes "chain_step X ch ch'" "chain_inv X ch" "poll_at ch a = Some p" "pl_end p < ch_now ch"
  shows "msgs_of (pl_id p) (ch_events ch') = msgs_of (pl_id p) (ch_events ch)"
  using step_cases [OF assms(1)]
proof (elim disjE exE conjE)
  fix poll assume "votes X poll ch ch'"
  then obtain q :: poll_account and b :: ballot_args and m where q: "poll_at ch poll = Some q" "ch_now ch \<le> pl_end q"
      "ch_events ch' = ch_events ch @ [VoteEvent (pl_id q) (ba_ephPk b) (ba_nonce b) (ba_ciphertext b) m]"
    unfolding votes_def by blast
  have "pl_id q \<noteq> pl_id p"
  proof
    assume "pl_id q = pl_id p"
    moreover have "poll = pda X (poll_seeds (pl_id q))" "a = pda X (poll_seeds (pl_id p))"
      using q(1) assms(2,3) by (simp_all add: chain_inv_def poll_ok_def)
    ultimately have "poll = a" by simp
    then show False using q(1,2) assms(3,4) by simp
  qed
  then show ?thesis using q(3) by simp
qed (auto simp: quiet_def creates_def creates_poll_def finishes_def)

lemma closed_steps:
  assumes "(chain_step X)\<^sup>*\<^sup>* ch ch'" "chain_inv X ch" "poll_at ch a = Some p" "pl_end p < ch_now ch"
  shows "msgs_of (pl_id p) (ch_events ch') = msgs_of (pl_id p) (ch_events ch) \<and>
    (\<exists>p'. poll_at ch' a = Some p' \<and> terms p' = terms p) \<and> ch_now ch \<le> ch_now ch'"
  using assms(1)
proof (induction rule: rtranclp_induct)
  case base
  then show ?case using assms(3) by simp
next
  case (step y z)
  then obtain p' where p': "poll_at y a = Some p'" "terms p' = terms p" by blast
  then have eq: "pl_id p' = pl_id p" "pl_end p' = pl_end p"
    using terms_eq by blast+
  have "chain_inv X y" using inv_chain_steps [OF step.hyps(1) assms(2)] .
  moreover have "pl_end p' < ch_now y" using assms(4) step.IH eq(2) by (metis order_less_le_trans)
  ultimately show ?case
    using closed_step [OF step.hyps(2) _ p'(1)] step_terms [OF step.hyps(2) p'(1)] step_now [OF step.hyps(2)]
      step.IH eq p'(2) by (metis order_trans)
qed

end
