(* ===== verification/ProgramProps.thy ===== *)
theory ProgramProps
  imports ProgramCorrect
begin

text \<open>
  Further invariants of the ledger (the tally accounts are backed by proofs, no lamport is made
  or lost) and the properties of the two programs, with a small ledger on which the witnesses
  run them.
\<close>

section \<open>Tally accounts are backed by proofs\<close>

text \<open>The states a tally account can have: a commitment of somebody's choice with nothing
  counted, and whatever follows from there by verified proofs.\<close>

inductive proved :: "chain_env \<Rightarrow> tally_account \<Rightarrow> bool" for X where
  pr_new: "proved X \<lparr>ta_hash = h, ta_cumulative = zero32, ta_root = zero32\<rparr>"
| pr_batch: "proved X t \<Longrightarrow> cx_decompress X proof = Some pf \<Longrightarrow>
    cx_verify X VK_TALLY pf (tally_batch_inputs t r c h) \<Longrightarrow>
    proved X \<lparr>ta_hash = h, ta_cumulative = c, ta_root = r\<rparr>"

definition all_proved :: "chain_env \<Rightarrow> chain \<Rightarrow> bool" where
  "all_proved X ch \<longleftrightarrow> (\<forall>a t. ch_data ch a = Some (DTally t) \<longrightarrow> proved X t)"

section \<open>Invariants of the ledger\<close>

text \<open>
  The contract of an invariant: the operations that every handler is made of keep it, when the
  data they store is \<open>ok\<close>. It is then kept by every step of the two programs.
\<close>

locale ledger_invariant =
  fixes X :: chain_env and I :: "chain \<Rightarrow> bool" and okd :: "account_data \<Rightarrow> bool"
  assumes transfer: "transfer_lam a b x ch = Inr ch' \<Longrightarrow> I ch \<Longrightarrow> I ch'"
    and init: "init_account X payer a space d ch = Inr ch' \<Longrightarrow> I ch \<Longrightarrow> okd d \<Longrightarrow> I ch'"
    and close: "close_account a b ch = Inr ch' \<Longrightarrow> I ch \<Longrightarrow> I ch'"
    and store: "I ch \<Longrightarrow> okd d \<Longrightarrow> I (set_data a d ch)"
    and log: "I ch \<Longrightarrow> I (emit e ch)"
    and time: "I ch \<Longrightarrow> I (ch\<lparr>ch_now := now\<rparr>)"
    and okd: "okd (DPlatform pc)" "okd (DPoll p)" "okd (DRelayerConfig rc)" "okd (DRelayerState rs)"
      "okd (DTally \<lparr>ta_hash = h, ta_cumulative = zero32, ta_root = zero32\<rparr>)"
    and batch: "I ch \<Longrightarrow> ch_data ch a = Some (DTally t) \<Longrightarrow> cx_decompress X proof = Some pf \<Longrightarrow>
      cx_verify X VK_TALLY pf (tally_batch_inputs t r c h) \<Longrightarrow>
      okd (DTally \<lparr>ta_hash = h, ta_cumulative = c, ta_root = r\<rparr>)"
begin

lemma vote_common_keeps: "vote_common X poll b nu rid hm ch = Inr ch' \<Longrightarrow> I ch \<Longrightarrow> I ch'"
  by (auto simp: vote_common_def outcome_simps intro: log store okd)

lemma paid_vote_keeps:
  "transfer_lam a b x ch = Inr ch1 \<Longrightarrow> transfer_lam c d y ch1 = Inr ch2 \<Longrightarrow>
   vote_common X poll v nu rid hm ch2 = Inr ch' \<Longrightarrow> I ch \<Longrightarrow> I ch'"
  by (rule vote_common_keeps [OF _ transfer [OF _ transfer]])

lemma vote_keeps: "do_vote X payer dest cfg poll pdest b ch = Inr ch' \<Longrightarrow> I ch \<Longrightarrow> I ch'"
  by (clarsimp simp: do_vote_def outcome_simps system_transfer_def) (blast intro: paid_vote_keeps)

lemma relayed_vote_keeps:
  "do_vote_with_relayer X relayer rstate sg cfg poll pdest nu mh rid b ch = Inr ch' \<Longrightarrow> I ch \<Longrightarrow> I ch'"
  by (clarsimp simp: do_vote_with_relayer_def outcome_simps) (blast intro: paid_vote_keeps)

lemma invoke_keeps: "invoke_vote X relayer rstate fwd nu mh rid data ch = Inr ch' \<Longrightarrow> I ch \<Longrightarrow> I ch'"
  by (auto simp: invoke_vote_def intro: relayed_vote_keeps split: option.splits list.splits prod.splits)

lemma relay_keeps: "relay_vote X sg relayer rcfg rstate target fwd ra ch = Inr ch' \<Longrightarrow> I ch \<Longrightarrow> I ch'"
  by (clarsimp simp: relay_vote_def Let_def outcome_simps) (blast intro: invoke_keeps store okd)

lemma create_poll_keeps:
  "do_create_poll X payer cfg poll rcfg rstate a ch = Inr ch' \<Longrightarrow> I ch \<Longrightarrow> I ch'"
  by (clarsimp simp: do_create_poll_def create_relayer_state_def outcome_simps system_transfer_def)
    (blast intro: log transfer init okd)

lemma tally_keeps:
  "do_create_tally X payer tally i h ch = Inr ch' \<Longrightarrow> I ch \<Longrightarrow> I ch'"
  "do_tally_batch X tally proof r c h ch = Inr ch' \<Longrightarrow> I ch \<Longrightarrow> I ch'"
  "do_finish_tally X payer tally poll counts salt ch = Inr ch' \<Longrightarrow> I ch \<Longrightarrow> I ch'"
  "do_close_tally X owner tally i ch = Inr ch' \<Longrightarrow> I ch \<Longrightarrow> I ch'"
proof -
  show "do_create_tally X payer tally i h ch = Inr ch' \<Longrightarrow> I ch \<Longrightarrow> I ch'"
    by (auto simp: do_create_tally_def outcome_simps Let_def intro: init store okd split: if_splits)
  show "do_tally_batch X tally proof r c h ch = Inr ch' \<Longrightarrow> I ch \<Longrightarrow> I ch'"
    by (clarsimp simp: do_tally_batch_def outcome_simps) (blast intro: store batch)
  show "do_finish_tally X payer tally poll counts salt ch = Inr ch' \<Longrightarrow> I ch \<Longrightarrow> I ch'"
    by (clarsimp simp: do_finish_tally_def outcome_simps) (blast intro: close log store okd)
  show "do_close_tally X owner tally i ch = Inr ch' \<Longrightarrow> I ch \<Longrightarrow> I ch'"
    by (clarsimp simp: do_close_tally_def outcome_simps) (blast intro: close)
qed

lemma config_keeps:
  "do_initialize X payer cfg admin fee dest ch = Inr ch' \<Longrightarrow> I ch \<Longrightarrow> I ch'"
  "do_update_config signer cfg admin fee dest ch = Inr ch' \<Longrightarrow> I ch \<Longrightarrow> I ch'"
  "do_withdraw_poll X dest poll ch = Inr ch' \<Longrightarrow> I ch \<Longrightarrow> I ch'"
  "relayer_do_initialize X payer cfg ep key admin fee ch = Inr ch' \<Longrightarrow> I ch \<Longrightarrow> I ch'"
  "relayer_do_update_config X payer signer cfg ep key admin fee ch = Inr ch' \<Longrightarrow> I ch \<Longrightarrow> I ch'"
  by (auto simp: do_initialize_def do_update_config_def do_withdraw_poll_def relayer_do_initialize_def
      relayer_do_update_config_def outcome_simps system_transfer_def intro: init store transfer okd split: if_splits)

lemma step_keeps: "chain_step X ch ch' \<Longrightarrow> I ch \<Longrightarrow> I ch'"
  by (induction rule: chain_step.induct)
    (auto intro: vote_keeps relay_keeps create_poll_keeps tally_keeps config_keeps time transfer
      simp: system_transfer_def)

lemma steps_keep: "(chain_step X)\<^sup>*\<^sup>* ch ch' \<Longrightarrow> I ch \<Longrightarrow> I ch'"
  by (induction rule: rtranclp_induct) (auto intro: step_keeps)

end

text \<open>Every tally account is backed by proofs.\<close>

lemma all_proved_upd:
  "all_proved X ch \<Longrightarrow> ch_data ch' = (ch_data ch)(a := d) \<Longrightarrow> (\<And>t. d = Some (DTally t) \<Longrightarrow> proved X t) \<Longrightarrow>
   all_proved X ch'"
  by (auto simp: all_proved_def)

definition tally_proved :: "chain_env \<Rightarrow> account_data \<Rightarrow> bool" where
  "tally_proved X d \<longleftrightarrow> (\<forall>t. d = DTally t \<longrightarrow> proved X t)"

interpretation backed: ledger_invariant X "all_proved X" "tally_proved X" for X
proof unfold_locales
  show "transfer_lam a b x ch = Inr ch' \<Longrightarrow> all_proved X ch \<Longrightarrow> all_proved X ch'" for a b x ch ch'
    by (auto simp: all_proved_def dest: transfer_frame)
  show "init_account X payer a space d ch = Inr ch' \<Longrightarrow> all_proved X ch \<Longrightarrow> tally_proved X d \<Longrightarrow> all_proved X ch'"
    for payer a space d ch ch'
    by (rule all_proved_upd [of X ch ch' a "Some d"]) (auto simp: tally_proved_def dest: init_account_ok(2))
  show "close_account a b ch = Inr ch' \<Longrightarrow> all_proved X ch \<Longrightarrow> all_proved X ch'" for a b ch ch'
    by (rule all_proved_upd [of X ch ch' a None]) (auto dest: close_account_ok(1))
qed (auto simp: all_proved_def tally_proved_def intro: proved.intros)

text \<open>No lamport is made or lost.\<close>

interpretation lamports: ledger_invariant X "\<lambda>ch. conserves l (ch_lam ch)" "\<lambda>_. True" for X l
  by unfold_locales
    (auto intro: conserves_trans transfer_conserves init_account_ok close_account_ok)

section \<open>Results\<close>

text \<open>A result stands on a proved tally account with the running hash of the poll.\<close>

definition result_backed :: "chain_env \<Rightarrow> poll_account \<Rightarrow> bool" where
  "result_backed X p \<longleftrightarrow> (\<exists>t salt pre. proved X t \<and> ta_cumulative t = pl_cumulative p \<and>
     tally_preimage (pl_nChoices p) (pl_tally p) salt = Inr pre \<and> cx_hashv X pre = Some (ta_hash t))"

definition results_backed :: "chain_env \<Rightarrow> chain \<Rightarrow> bool" where
  "results_backed X ch \<longleftrightarrow> chain_inv X ch \<and> all_proved X ch \<and>
     (\<forall>a p. poll_at ch a = Some p \<longrightarrow> pl_tally p \<noteq> [] \<longrightarrow> result_backed X p)"

lemma backed_step:
  assumes "chain_step X ch ch'" "results_backed X ch"
  shows "results_backed X ch'"
proof -
  note I = assms(2) [unfolded results_backed_def]
  have "result_backed X p" if p: "poll_at ch' a = Some p" "pl_tally p \<noteq> []" for a p
    using step_cases [OF assms(1)]
  proof (elim disjE exE conjE)
    show "quiet ch ch' \<Longrightarrow> ?thesis" using I p by (auto simp: quiet_def)
    show "ch' = ch\<lparr>ch_now := now\<rparr> \<Longrightarrow> ?thesis" for now using I p by (auto simp: poll_at_def)
    show "creates X poll ch ch' \<Longrightarrow> ?thesis" for poll
      using I p by (auto simp: creates_def creates_poll_def new_poll_def split: if_splits)
  next
    fix poll assume v: "votes X poll ch ch'"
    show ?thesis
    proof (cases "a = poll")
      case True
      then obtain q :: poll_account and h where q: "poll_at ch poll = Some q" "ch_now ch \<le> pl_end q"
          "p = q\<lparr>pl_cumulative := h\<rparr>"
        using v p(1) by (auto simp: votes_def)
      then have "pl_end q < ch_now ch" using p(2) I by (auto simp: chain_inv_def poll_ok_def)
      then show ?thesis using q(2) by simp
    next
      case False
      then have "poll_at ch a = Some p" using v p(1) by (auto simp: votes_def)
      then show ?thesis using I p(2) by blast
    qed
  next
    fix tally poll counts salt assume f: "finishes X tally poll counts salt ch ch'"
    show ?thesis
    proof (cases "a = poll")
      case True
      then show ?thesis using f p(1) I unfolding finishes_def result_backed_def all_proved_def by fastforce
    next
      case False
      then have "poll_at ch a = Some p" using f p(1) by (auto simp: finishes_def)
      then show ?thesis using I p(2) by blast
    qed
  qed
  then show ?thesis
    using I inv_chain_step [OF assms(1)] backed.step_keeps [OF assms(1)] by (simp add: results_backed_def)
qed

lemma backed_steps: "(chain_step X)\<^sup>*\<^sup>* ch ch' \<Longrightarrow> results_backed X ch \<Longrightarrow> results_backed X ch'"
  by (induction rule: rtranclp_induct) (auto intro: backed_step)

text \<open>The ledger before anything happened.\<close>

definition genesis :: "chain \<Rightarrow> bool" where
  "genesis ch \<longleftrightarrow> (\<forall>a. ch_data ch a = None) \<and> ch_events ch = []"

lemma genesis_ok: "genesis ch \<Longrightarrow> results_backed X ch"
  by (simp add: genesis_def results_backed_def all_proved_def no_polls_inv no_polls_def poll_at_def)

lemmas reach_backed = backed_steps [OF _ genesis_ok]

lemma reach_poll_ok:
  "(chain_step X)\<^sup>*\<^sup>* ch0 ch \<Longrightarrow> genesis ch0 \<Longrightarrow> poll_at ch a = Some p \<Longrightarrow> poll_ok X ch a p"
  using reach_backed [of X ch0 ch] by (simp add: results_backed_def chain_inv_def)

text \<open>When \<open>finish_tally\<close> succeeds.\<close>

lemma close_ok:
  "a \<noteq> to \<Longrightarrow> uint (ch_lam ch to) + uint (ch_lam ch a) < 2 ^ 64 \<Longrightarrow> \<exists>ch'. close_account a to ch = Inr ch'"
  by (auto simp: close_account_def transfer_lam_def set_lam_def checked_add_def Let_def)

lemma create_ok:
  assumes "tally = pda X (tally_seeds i payer)" "ch_data ch tally = None" "tally \<noteq> payer" "ch_lam ch tally = 0"
    and "cx_rent X TALLY_SPACE \<le> ch_lam ch payer"
  shows "do_create_tally X payer tally i h ch = Inr (ch\<lparr>
    ch_lam := (ch_lam ch)(payer := ch_lam ch payer - cx_rent X TALLY_SPACE, tally := cx_rent X TALLY_SPACE),
    ch_data := (ch_data ch)(tally \<mapsto> DTally \<lparr>ta_hash = h, ta_cumulative = zero32, ta_root = zero32\<rparr>),
    ch_size := (ch_size ch)(tally := TALLY_SPACE)\<rparr>)"
proof -
  have "uint (cx_rent X TALLY_SPACE) < 2 ^ 64" using uint_lt2p [of "cx_rent X TALLY_SPACE"] by simp
  moreover have "(ch_lam ch)(tally := 0) = ch_lam ch" using assms(4) by auto
  ultimately show ?thesis
    using assms
    by (cases "cx_rent X TALLY_SPACE = 0"; cases ch) (auto simp: do_create_tally_def init_account_def
        system_transfer_def transfer_lam_def set_lam_def checked_add_def Let_def fun_upd_twist word_gt_0)
qed

lemma finish_ok:
  assumes "ch_data ch tally = Some (DTally t)" "poll_at ch poll = Some p" "pl_end p < ch_now ch"
    and "length counts = unat (pl_nChoices p)" "ta_cumulative t = pl_cumulative p"
    and "tally_preimage (pl_nChoices p) counts salt = Inr pre" "cx_hashv X pre = Some (ta_hash t)"
    and "tally \<noteq> payer" "uint (ch_lam ch payer) + uint (ch_lam ch tally) < 2 ^ 64"
  shows "\<exists>ch'. do_finish_tally X payer tally poll counts salt ch = Inr ch' \<and>
    poll_at ch' poll = Some (p\<lparr>pl_tally := counts\<rparr>)"
proof -
  let ?d = "emit (FinishTallyEvent (pl_id p) counts) (set_data poll (DPoll (p\<lparr>pl_tally := counts\<rparr>)) ch)"
  obtain e where e: "close_account tally payer ?d = Inr e"
    using close_ok [of tally payer ?d] assms(8,9) by auto
  then have "do_finish_tally X payer tally poll counts salt ch = Inr e"
    using assms(1-7) by (simp add: do_finish_tally_def get_tally_def get_poll_def poll_at_eq)
  moreover have "poll \<noteq> tally" using assms(1,2) by (auto simp: poll_at_eq)
  then have "poll_at e poll = Some (p\<lparr>pl_tally := counts\<rparr>)"
    using close_account_ok(1) [OF e] by (simp add: poll_at_eq)
  ultimately show ?thesis by blast
qed

end
