(* ===== verification/SmallLedger.thy ===== *)
theory SmallLedger
  imports ProgramProps
begin

text \<open>
  A small ledger on which the witnesses run the programs: both configurations, a poll with two
  choices, one vote, and after its end a tally by one batch. The hash is a sum in one byte, and
  every proof is accepted.
\<close>

definition small_hash :: "u256 list \<Rightarrow> u256 option" where
  "small_hash xs = Some (replicate 31 0 @ [foldl (\<lambda>h x. 5 * h + foldl (+) 1 x) 7 xs])"

definition small_env :: chain_env where
  "small_env = \<lparr>cx_sdk = demo_env, cx_hashv = small_hash, cx_decompress = Some,
     cx_verify = (\<lambda>_ _ _. True), cx_rent = of_nat\<rparr>"

abbreviation small_key :: "byte \<Rightarrow> pubkey" where "small_key b \<equiv> replicate 32 b"

definition small_start :: chain where
  "small_start = \<lparr>ch_lam = (\<lambda>a. if a = small_key 1 then 1000000 else 0), ch_data = (\<lambda>_. None), ch_size = (\<lambda>_. 0),
     ch_now = 50, ch_events = []\<rparr>"

definition small_cfg :: pubkey where
  "small_cfg = pda small_env [bytes_of_string ''PLATFORM_CONFIG'']"

definition small_rcfg :: pubkey where
  "small_rcfg = relayer_pda small_env [bytes_of_string ''RELAYER_CONFIG'']"

definition small_state :: pubkey where
  "small_state = relayer_pda small_env (state_seeds (se_moot demo_env) 5)"

definition small_poll :: pubkey where "small_poll = pda small_env (poll_seeds 5)"
definition small_tally :: pubkey where "small_tally = pda small_env (tally_seeds 5 (small_key 1))"

definition small_args :: create_poll_args where
  "small_args = \<lparr>cr_id = 5, cr_nChoices = 2, cr_descriptionUrl = ''d'', cr_censusUrl = ''c'',
     cr_tallierKey = \<lparr>pt_x = zero32, pt_y = zero32\<rparr>, cr_censusRoot = zero32, cr_start = 10,
     cr_end = 100, cr_fee = 3, cr_feeDestination = small_key 2, cr_nVoters = 4\<rparr>"

definition small_ballot :: ballot_args where
  "small_ballot = \<lparr>ba_ephPk = \<lparr>pt_x = zero32, pt_y = zero32\<rparr>, ba_nonce = 9,
     ba_ciphertext = replicate 7 zero32, ba_proof = \<lparr>cp_a = [], cp_b = [], cp_c = []\<rparr>\<rparr>"

definition small_init :: "chain outcome" where
  "small_init =
     obind (do_initialize small_env (small_key 1) small_cfg (small_key 1) 2 (small_key 3) small_start)
       (relayer_do_initialize small_env (small_key 1) small_rcfg ''http'' (small_key 4) (small_key 1) 6)"

definition small_open :: "chain outcome" where
  "small_open = obind small_init
     (do_create_poll small_env (small_key 1) small_cfg small_poll small_rcfg small_state small_args)"

definition small_voted :: "chain outcome" where
  "small_voted = obind small_open
     (do_vote small_env (small_key 1) (small_key 2) small_cfg small_poll (small_key 3) small_ballot)"

definition at_time :: "u64 \<Rightarrow> chain \<Rightarrow> chain" where
  "at_time t ch = ch\<lparr>ch_now := t\<rparr>"

definition small_done :: "chain outcome" where
  "small_done = obind small_voted (\<lambda>ch.
     obind (do_create_tally small_env (small_key 1) small_tally 5 zero32 (at_time 101 ch)) (\<lambda>ch.
     obind (do_tally_batch small_env small_tally (ba_proof small_ballot) zero32
              (replicate 31 0 @ [215]) (replicate 31 0 @ [172]) ch)
       (do_finish_tally small_env (small_key 1) small_tally small_poll [1, 0] 8)))"

lemma small_steps:
  "small_open = Inr ch \<Longrightarrow> (chain_step small_env)\<^sup>*\<^sup>* small_start ch"
  "small_voted = Inr ch \<Longrightarrow> (chain_step small_env)\<^sup>*\<^sup>* small_start ch"
  "small_voted = Inr ch \<Longrightarrow> (chain_step small_env)\<^sup>*\<^sup>* small_start (at_time 101 ch)"
  "small_done = Inr ch \<Longrightarrow> (chain_step small_env)\<^sup>*\<^sup>* small_start ch"
  "small_open = Inr ch \<Longrightarrow> (chain_step small_env)\<^sup>*\<^sup>* small_start (at_time 101 ch)"
proof -
  show o: "(chain_step small_env)\<^sup>*\<^sup>* small_start ch" if r: "small_open = Inr ch" for ch
  proof -
    obtain c1 c2 where "chain_step small_env small_start c1" "chain_step small_env c1 c2" "chain_step small_env c2 ch"
      using r cs_initialize cs_relayer_init cs_create unfolding small_open_def small_init_def outcome_simps by metis
    then show ?thesis by (blast intro: rtranclp.rtrancl_into_rtrancl)
  qed
  show "(chain_step small_env)\<^sup>*\<^sup>* small_start (at_time 101 ch)" if r: "small_open = Inr ch"
  proof -
    have "(case small_open of Inl _ \<Rightarrow> False | Inr c \<Rightarrow> ch_now c = 50)" by code_simp
    then have "ch_now ch = 50" unfolding r by simp
    then have "ch_now ch \<le> 101" by simp
    then show ?thesis
      using o [OF r] unfolding at_time_def by (blast intro: rtranclp.rtrancl_into_rtrancl cs_time)
  qed
  show v: "(chain_step small_env)\<^sup>*\<^sup>* small_start ch" if "small_voted = Inr ch" for ch
    using that unfolding small_voted_def outcome_simps
    by (metis o cs_vote rtranclp.rtrancl_into_rtrancl)
  show t: "(chain_step small_env)\<^sup>*\<^sup>* small_start (at_time 101 ch)" if "small_voted = Inr ch" for ch
  proof -
    have "(case small_voted of Inl _ \<Rightarrow> False | Inr c \<Rightarrow> ch_now c = 50)" by code_simp
    then have "ch_now ch = 50" unfolding that by simp
    then have "ch_now ch \<le> 101" by simp
    then show ?thesis
      using v [OF that] unfolding at_time_def by (blast intro: rtranclp.rtrancl_into_rtrancl cs_time)
  qed
  show "small_done = Inr ch \<Longrightarrow> (chain_step small_env)\<^sup>*\<^sup>* small_start ch"
    unfolding small_done_def outcome_simps
    by (metis t cs_create_tally cs_batch cs_finish rtranclp.rtrancl_into_rtrancl)
qed

lemma small_genesis: "genesis small_start"
  by (simp add: genesis_def small_start_def)

lemma small_voted_run: "\<exists>ch p. small_voted = Inr ch \<and> poll_at ch small_poll = Some p \<and> pl_end p = 100 \<and>
    pl_id p = 5 \<and> length (msgs_of 5 (ch_events ch)) = 1"
proof -
  have "(case small_voted of Inl _ \<Rightarrow> False | Inr c \<Rightarrow> length (msgs_of 5 (ch_events c)) = 1 \<and>
     map_option (\<lambda>p. (pl_end p, pl_id p)) (poll_at c small_poll) = Some (100, 5))" by code_simp
  then show ?thesis by (auto split: sum.splits)
qed

lemma small_done_run: "\<exists>ch p. small_done = Inr ch \<and> poll_at ch small_poll = Some p \<and> pl_tally p = [1, 0]"
proof -
  have "(case small_done of Inl _ \<Rightarrow> False | Inr c \<Rightarrow> map_option pl_tally (poll_at c small_poll) = Some [1, 0])"
    by code_simp
  then show ?thesis by (auto split: sum.splits)
qed

lemma small_open_run: "\<exists>ch p. small_open = Inr ch \<and> poll_at ch small_poll = Some p \<and> pl_end p = 100 \<and>
    pl_nChoices p = 2 \<and> msgs_of (pl_id p) (ch_events ch) = [] \<and> ch_data ch small_tally = None \<and>
    ch_lam ch small_tally = 0 \<and> cx_rent small_env TALLY_SPACE \<le> ch_lam ch (small_key 1)"
proof -
  have "(case small_open of Inl _ \<Rightarrow> False | Inr c \<Rightarrow>
     map_option (\<lambda>p. (pl_end p, pl_nChoices p, msgs_of (pl_id p) (ch_events c))) (poll_at c small_poll)
       = Some (100, 2, []) \<and> Option.is_none (ch_data c small_tally) \<and> ch_lam c small_tally = 0 \<and>
     cx_rent small_env TALLY_SPACE \<le> ch_lam c (small_key 1))" by code_simp
  then show ?thesis by (auto simp: Option.is_none_def split: sum.splits)
qed

definition large_open :: "chain outcome" where
  "large_open = obind small_init (do_create_poll small_env (small_key 1) small_cfg small_poll small_rcfg
     small_state (small_args\<lparr>cr_nChoices := 12\<rparr>))"

end
