(* ===== verification/ProgramClaims.thy ===== *)
theory ProgramClaims
  imports SmallLedger
begin

text \<open>
  The properties of the two programs. The witnesses run them on the small ledger.
\<close>

section \<open>Votes\<close>

text \<open>
  C10: in every state the programs can reach, each poll stands at the address of its number, and
  its running hash is the hash chain over exactly the messages of the poll's \<open>VoteEvent\<close>s in the
  order of the log. So the tallier, who reads the log, and the chain agree on the votes.
\<close>

theorem cumulative_hash_commits_to_votes:
  assumes "genesis ch0" "(chain_step X)\<^sup>*\<^sup>* ch0 ch" "poll_at ch a = Some p"
  shows "a = pda X (poll_seeds (pl_id p)) \<and>
    chain_hash X (msgs_of (pl_id p) (ch_events ch)) = Some (pl_cumulative p)"
  using reach_poll_ok [OF assms(2,1,3)] by (simp add: poll_ok_def)

theorem cumulative_hash_commits_to_votes_witness:
  "\<exists>ch p. (chain_step small_env)\<^sup>*\<^sup>* small_start ch \<and> poll_at ch small_poll = Some p \<and>
     length (msgs_of 5 (ch_events ch)) = 1 \<and>
     chain_hash small_env (msgs_of 5 (ch_events ch)) = Some (pl_cumulative p)"
proof -
  obtain ch and p :: poll_account where c: "small_voted = Inr ch" "poll_at ch small_poll = Some p"
      "pl_id p = 5" "length (msgs_of 5 (ch_events ch)) = 1"
    using small_voted_run by blast
  show ?thesis
    using cumulative_hash_commits_to_votes [OF small_genesis small_steps(2) [OF c(1)] c(2)] small_steps(2) [OF c(1)] c
    by auto
qed

text \<open>
  C13: once the end of a poll is past, nothing that any instruction does can change it but its
  result: there are no more votes, and the poll keeps its terms and its running hash.
\<close>

theorem closed_poll_is_final:
  assumes "genesis ch0" "(chain_step X)\<^sup>*\<^sup>* ch0 ch" "(chain_step X)\<^sup>*\<^sup>* ch ch'"
    and "poll_at ch a = Some p" "pl_end p < ch_now ch"
  shows "msgs_of (pl_id p) (ch_events ch') = msgs_of (pl_id p) (ch_events ch) \<and>
    (\<exists>counts. poll_at ch' a = Some (p\<lparr>pl_tally := counts\<rparr>))"
proof -
  note I = reach_backed [OF assms(2,1)]
  then have inv: "chain_inv X ch" "chain_inv X ch'"
    using inv_chain_steps [OF assms(3)] by (auto simp: results_backed_def)
  obtain p' where p': "poll_at ch' a = Some p'" "terms p' = terms p"
      "msgs_of (pl_id p) (ch_events ch') = msgs_of (pl_id p) (ch_events ch)"
    using closed_steps [OF assms(3) inv(1) assms(4,5)] by blast
  have "chain_hash X (msgs_of (pl_id q) (ch_events c)) = Some (pl_cumulative q)"
    if "chain_inv X c" "poll_at c a = Some q" for c q
    using that by (simp add: chain_inv_def poll_ok_def)
  from this [OF inv(1) assms(4)] this [OF inv(2) p'(1)] have "pl_cumulative p' = pl_cumulative p"
    using p'(3) terms_eq [OF p'(2)] by simp
  then have "p' = p\<lparr>pl_tally := pl_tally p'\<rparr>"
    using p'(2) by (cases p; cases p') (simp add: terms_def)
  then show ?thesis using p' by metis
qed

theorem closed_poll_is_final_witness:
  "\<exists>ch ch' p. (chain_step small_env)\<^sup>*\<^sup>* small_start ch \<and> (chain_step small_env)\<^sup>*\<^sup>* ch ch' \<and>
     poll_at ch small_poll = Some p \<and> pl_end p < ch_now ch \<and>
     msgs_of 5 (ch_events ch') = msgs_of 5 (ch_events ch)"
proof -
  obtain ch and p :: poll_account where c: "small_voted = Inr ch" "poll_at ch small_poll = Some p"
      "pl_end p = 100" "pl_id p = 5"
    using small_voted_run by blast
  let ?c = "at_time 101 ch" and ?d = "at_time 102 (at_time 101 ch)"
  have "chain_step small_env ?c ?d"
    unfolding at_time_def by (rule cs_time) simp
  then have s: "(chain_step small_env)\<^sup>*\<^sup>* ?c ?d" by blast
  have p: "poll_at ?c small_poll = Some p" "pl_end p < ch_now ?c"
    using c by (simp_all add: at_time_def poll_at_def)
  show ?thesis
    using closed_poll_is_final [OF small_genesis small_steps(3) [OF c(1)] s p] small_steps(3) [OF c(1)] s p c(4)
    by auto
qed

section \<open>Results\<close>

text \<open>
  C9: a result on the chain was published after the end, has one count for every choice, and
  opens the commitment of a tally account that counted exactly the votes of the poll: its
  running hash is that of the poll's events, and each of its batches carries a proof that the
  verifier accepted, starting from the empty tally root and the zero hash.
\<close>

theorem published_result_is_proved:
  assumes "genesis ch0" "(chain_step X)\<^sup>*\<^sup>* ch0 ch" "poll_at ch a = Some p" "pl_tally p \<noteq> []"
  shows "pl_end p < ch_now ch \<and> length (pl_tally p) = unat (pl_nChoices p) \<and>
    (\<exists>t salt pre. proved X t \<and> tally_preimage (pl_nChoices p) (pl_tally p) salt = Inr pre \<and>
       cx_hashv X pre = Some (ta_hash t) \<and>
       chain_hash X (msgs_of (pl_id p) (ch_events ch)) = Some (ta_cumulative t))"
proof -
  have "poll_ok X ch a p" using assms(1-3) reach_poll_ok by blast
  moreover have "result_backed X p"
    using reach_backed [OF assms(2,1)] assms(3,4) unfolding results_backed_def by blast
  ultimately show ?thesis using assms(4) by (fastforce simp: poll_ok_def result_backed_def)
qed

theorem published_result_is_proved_witness:
  "\<exists>ch p t. (chain_step small_env)\<^sup>*\<^sup>* small_start ch \<and> poll_at ch small_poll = Some p \<and>
     pl_tally p = [1, 0] \<and> proved small_env t \<and>
     chain_hash small_env (msgs_of (pl_id p) (ch_events ch)) = Some (ta_cumulative t)"
proof -
  obtain ch and p :: poll_account where c: "small_done = Inr ch" "poll_at ch small_poll = Some p"
      "pl_tally p = [1, 0]"
    using small_done_run by blast
  note s = small_steps(4) [OF c(1)]
  have "pl_tally p \<noteq> []" using c(3) by simp
  from published_result_is_proved [OF small_genesis s c(2) this] show ?thesis using s c by blast
qed

text \<open>The Poseidon call takes up to twelve field elements, each of 32 bytes.\<close>

definition field_bytes :: "u256 \<Rightarrow> bool" where
  "field_bytes x \<longleftrightarrow> length x = 32 \<and> be_val 256 (map uint x) < FP"

definition hashes_fields :: "chain_env \<Rightarrow> bool" where
  "hashes_fields X \<longleftrightarrow> (\<forall>xs. xs \<noteq> [] \<longrightarrow> length xs \<le> 12 \<longrightarrow> (\<forall>x \<in> set xs. field_bytes x) \<longrightarrow> cx_hashv X xs \<noteq> None)"

lemma field_u64: "field_bytes (u64_to_u256_be w)"
proof -
  have "digits_ok 256 (map uint (rev (le64 w)))"
    using uint_lt2p [where ?'a = 8] by (auto simp: digits_ok_def)
  from be_val_range(2) [OF this] show ?thesis by (simp add: field_bytes_def u64_to_u256_be_def le64_def FP_def)
qed

lemma field_zero: "field_bytes zero32"
  using be_val_zeros [of 256 32 "[]"] by (simp add: field_bytes_def zero32_def FP_def)

lemma tally_hashed:
  assumes "hashes_fields X" "length counts = unat n" "tally_preimage n counts salt = Inr pre"
  shows "\<exists>h. cx_hashv X pre = Some h"
proof -
  have "pre = u64_to_u256_be salt # map u64_to_u256_be counts @ replicate (PROGRAM_MAX_CHOICES - unat n) zero32"
      "unat n \<le> PROGRAM_MAX_CHOICES"
    using assms(3) by (auto simp: tally_preimage_def split: if_splits)
  then have "pre \<noteq> []" "length pre \<le> 12" "\<forall>x \<in> set pre. field_bytes x"
    using assms(2) by (auto simp: field_u64 field_zero PROGRAM_MAX_CHOICES_def)
  then show ?thesis using assms(1) by (auto simp: hashes_fields_def)
qed

text \<open>
  C35: the proofs say nothing when there is nothing to prove. For a poll without votes, anybody
  who can pay the rent of a tally account publishes any counts whatever: \<open>create_tally\<close> takes
  every commitment, the running hash of the new account is already that of the poll, and
  \<open>finish_tally\<close> asks for no batch. (The hypothesis on the hash is that the Poseidon call does not
  fail on up to twelve field elements.)
\<close>

theorem result_without_votes_is_forged:
  assumes reach: "genesis ch0" "(chain_step X)\<^sup>*\<^sup>* ch0 ch"
    and p: "poll_at ch poll = Some p" "pl_end p < ch_now ch" "msgs_of (pl_id p) (ch_events ch) = []"
    and counts: "length counts = unat (pl_nChoices p)" "length counts \<le> PROGRAM_MAX_CHOICES"
    and tally: "tally = pda X (tally_seeds i forger)" "ch_data ch tally = None" "tally \<noteq> forger"
      "ch_lam ch tally = 0" "cx_rent X TALLY_SPACE \<le> ch_lam ch forger"
    and hash: "hashes_fields X"
  shows "\<exists>h ch1 ch2. do_create_tally X forger tally i h ch = Inr ch1 \<and>
    do_finish_tally X forger tally poll counts salt ch1 = Inr ch2 \<and>
    poll_at ch2 poll = Some (p\<lparr>pl_tally := counts\<rparr>)"
proof -
  have cum: "pl_cumulative p = zero32"
    using reach_poll_ok [OF reach(2,1) p(1)] p(3) by (simp add: poll_ok_def chain_hash_def)
  obtain pre where pre: "tally_preimage (pl_nChoices p) counts salt = Inr pre"
    using counts by (auto simp: tally_preimage_def)
  obtain h where h: "cx_hashv X pre = Some h" using tally_hashed [OF hash counts(1) pre] by blast
  let ?r = "cx_rent X TALLY_SPACE" and ?f = "ch_lam ch forger"
  define t where "t = \<lparr>ta_hash = h, ta_cumulative = zero32, ta_root = zero32\<rparr>"
  define c where "c = ch\<lparr>ch_lam := (ch_lam ch)(forger := ?f - ?r, tally := ?r),
    ch_data := (ch_data ch)(tally \<mapsto> DTally t), ch_size := (ch_size ch)(tally := TALLY_SPACE)\<rparr>"
  have create: "do_create_tally X forger tally i h ch = Inr c"
    using create_ok [OF tally] by (simp add: c_def t_def)
  have "uint (?f - ?r) + uint ?r < 2 ^ 64"
    using uint_sub_no_wrap [OF tally(5)] uint_lt2p [of ?f] by simp
  moreover have "poll_at c poll = Some p" "ch_now c = ch_now ch" "ch_data c tally = Some (DTally t)"
    using p(1) tally(2) by (auto simp: c_def poll_at_def)
  ultimately show ?thesis
    using finish_ok [of c tally t poll p counts salt pre X forger] create p(2) counts(1) cum pre h tally(3)
    by (fastforce simp: t_def c_def)
qed

theorem result_without_votes_is_forged_witness:
  "\<exists>ch h ch1 ch2 p. (chain_step small_env)\<^sup>*\<^sup>* small_start ch \<and> poll_at ch small_poll = Some p \<and>
     do_create_tally small_env (small_key 1) small_tally 5 h ch = Inr ch1 \<and>
     do_finish_tally small_env (small_key 1) small_tally small_poll [1000, 7] 0 ch1 = Inr ch2 \<and>
     poll_at ch2 small_poll = Some (p\<lparr>pl_tally := [1000, 7]\<rparr>)"
proof -
  obtain ch and p :: poll_account where c: "small_open = Inr ch" "poll_at ch small_poll = Some p"
      "pl_end p = 100" "pl_nChoices p = 2" "msgs_of (pl_id p) (ch_events ch) = []"
      "ch_data ch small_tally = None" "ch_lam ch small_tally = 0"
      "cx_rent small_env TALLY_SPACE \<le> ch_lam ch (small_key 1)"
    using small_open_run by blast
  let ?c = "at_time 101 ch"
  have d: "poll_at ?c small_poll = Some p" "pl_end p < ch_now ?c" "msgs_of (pl_id p) (ch_events ?c) = []"
      "ch_data ?c small_tally = None" "ch_lam ?c small_tally = 0"
      "cx_rent small_env TALLY_SPACE \<le> ch_lam ?c (small_key 1)"
    using c by (simp_all add: at_time_def poll_at_def)
  have n: "length [1000, 7 :: u64] = unat (pl_nChoices p)" "length [1000, 7 :: u64] \<le> PROGRAM_MAX_CHOICES"
    using c(4) by (simp_all add: PROGRAM_MAX_CHOICES_def)
  have t: "small_tally = pda small_env (tally_seeds 5 (small_key 1))" "small_tally \<noteq> small_key 1"
    by (rule small_tally_def) code_simp
  have h: "hashes_fields small_env" by (simp add: hashes_fields_def small_env_def small_hash_def)
  show ?thesis
    using result_without_votes_is_forged [OF small_genesis small_steps(5) [OF c(1)] d(1-3) n t(1) d(4) t(2) d(5,6) h]
      small_steps(5) [OF c(1)] d(1) by blast
qed

text \<open>
  C36: \<open>create_poll\<close> sets no upper bound on the number of choices, but \<open>finish_tally\<close> can
  only hash eleven counts and panics beyond: such a poll never gets a result.
\<close>

theorem too_many_choices_never_finish:
  assumes "genesis ch0" "(chain_step X)\<^sup>*\<^sup>* ch0 ch" "poll_at ch poll = Some p"
    and "PROGRAM_MAX_CHOICES < unat (pl_nChoices p)"
  shows "pl_tally p = [] \<and> (\<exists>e. do_finish_tally X payer tally poll counts salt ch = Inl e)"
proof -
  have "pl_tally p = []" using reach_poll_ok [OF assms(2,1,3)] assms(4) by (auto simp: poll_ok_def)
  moreover have "do_finish_tally X payer tally poll counts salt ch \<noteq> Inr ch'" for ch'
  proof
    assume "do_finish_tally X payer tally poll counts salt ch = Inr ch'"
    from finish_step [OF this] show False
      using assms(3,4) by (auto simp: finishes_def tally_preimage_def)
  qed
  ultimately show ?thesis by (cases "do_finish_tally X payer tally poll counts salt ch") auto
qed

theorem too_many_choices_never_finish_witness:
  "\<exists>ch p. large_open = Inr ch \<and> poll_at ch small_poll = Some p \<and> pl_nChoices p = 12 \<and> pl_tally p = []"
proof -
  have "(case large_open of Inl _ \<Rightarrow> False | Inr c \<Rightarrow> map_option pl_nChoices (poll_at c small_poll) = Some 12)"
    by code_simp
  then obtain ch and p :: poll_account where c: "large_open = Inr ch" "poll_at ch small_poll = Some p"
      "pl_nChoices p = 12"
    by (auto split: sum.splits)
  obtain c1 c2 where "chain_step small_env small_start c1" "chain_step small_env c1 c2" "chain_step small_env c2 ch"
    using c(1) cs_initialize cs_relayer_init cs_create unfolding large_open_def small_init_def outcome_simps by metis
  then have "(chain_step small_env)\<^sup>*\<^sup>* small_start ch"
    by (blast intro: rtranclp.rtrancl_into_rtrancl)
  from too_many_choices_never_finish [OF small_genesis this c(2)] c show ?thesis
    by (auto simp: PROGRAM_MAX_CHOICES_def)
qed

section \<open>Money\<close>

text \<open>
  C22: no instruction makes or destroys lamports: over any run the balances change only on a
  finite set of accounts, and their sum over it is the same.
\<close>

theorem lamports_are_conserved:
  assumes "(chain_step X)\<^sup>*\<^sup>* ch ch'"
  shows "\<exists>T. finite T \<and> (\<forall>a. a \<notin> T \<longrightarrow> ch_lam ch a = ch_lam ch' a) \<and>
    (\<Sum>a\<in>T. uint (ch_lam ch a)) = (\<Sum>a\<in>T. uint (ch_lam ch' a))"
proof -
  have "conserves (ch_lam ch) (ch_lam ch')" by (rule lamports.steps_keep [OF assms conserves_refl])
  then show ?thesis unfolding conserves_def .
qed

theorem lamports_are_conserved_witness:
  "\<exists>ch T. (chain_step small_env)\<^sup>*\<^sup>* small_start ch \<and> ch_lam ch (small_key 2) = 3 \<and> finite T \<and>
     (\<forall>a. a \<notin> T \<longrightarrow> ch_lam small_start a = ch_lam ch a) \<and>
     (\<Sum>a\<in>T. uint (ch_lam small_start a)) = (\<Sum>a\<in>T. uint (ch_lam ch a))"
proof -
  have "(case small_voted of Inl _ \<Rightarrow> False | Inr c \<Rightarrow> ch_lam c (small_key 2) = 3)" by code_simp
  then obtain ch where c: "small_voted = Inr ch" "ch_lam ch (small_key 2) = 3" by (auto split: sum.splits)
  note s = small_steps(2) [OF c(1)]
  show ?thesis using lamports_are_conserved [OF s] s c(2) by blast
qed

text \<open>What a vote moves, and that it moves nothing else.\<close>

lemma transfer_from:
  "transfer_lam a b x ch = Inr ch' \<Longrightarrow> c \<noteq> b \<Longrightarrow> ch_lam ch' c \<le> ch_lam ch c"
  using word_sub_le [of x "ch_lam ch a"]
  by (auto simp: transfer_lam_def set_lam_def Let_def outcome_simps split: if_splits)

lemma transfer_zero: "transfer_lam a b 0 ch = Inr ch' \<Longrightarrow> ch_lam ch' = ch_lam ch"
  by (auto simp: transfer_lam_def set_lam_def Let_def outcome_simps split: if_splits)

lemma vote_common_lam: "vote_common X poll b nu rid hm ch = Inr ch' \<Longrightarrow> ch_lam ch' = ch_lam ch"
  by (auto simp: vote_common_def outcome_simps)

definition small_relay_args :: relay_args where
  "small_relay_args = \<lparr>ra_stateId = 5, ra_proof = ba_proof small_ballot, ra_rootNew = zero32,
     ra_msgHash = the (small_hash (ballot_preimage small_ballot)), ra_nuHash = zero32,
     ra_data = replicate 64 0 @ le64 9 @ replicate 352 0\<rparr>"

definition small_relay :: "u64 \<Rightarrow> chain outcome" where
  "small_relay fee = obind small_open (\<lambda>ch.
     let rs = \<lparr>rs_root = zero32, rs_fee = fee, rs_msgLimit = 3, rs_endTime = 100\<rparr> in
     relay_vote small_env True (small_key 4) small_rcfg small_state (se_moot demo_env)
       [small_cfg, small_poll, small_key 3] small_relay_args (set_data small_state (DRelayerState rs) ch))"

text \<open>
  C37: a relay for free never succeeds: the relayer program asks that the balance of the relayer
  has grown, strictly, so with a fee of zero in the relayer state every relayed vote fails
  (unless the relayer itself receives the platform fee).
\<close>

theorem free_relay_fails:
  assumes "ch_data ch rstate = Some (DRelayerState rs)" "rs_fee rs = 0"
    and "ch_data ch cfg = Some (DPlatform pc)" "pc_feeDestination pc \<noteq> relayer"
  shows "\<exists>e. relay_vote X sg relayer rcfg rstate target [cfg, poll, dest] ra ch = Inl e"
proof -
  have "relay_vote X sg relayer rcfg rstate target [cfg, poll, dest] ra ch \<noteq> Inr ch'" for ch'
  proof
    let ?ch = "set_data rstate (DRelayerState (rs\<lparr>rs_root := ra_rootNew ra\<rparr>)) ch"
    assume "relay_vote X sg relayer rcfg rstate target [cfg, poll, dest] ra ch = Inr ch'"
    then have inv: "invoke_vote X relayer rstate [cfg, poll, dest] (ra_nuHash ra) (ra_msgHash ra)
          (relayer_id_of relayer) (ra_data ra) ?ch = Inr ch'" and more: "ch_lam ch relayer < ch_lam ch' relayer"
      using assms(1) by (auto simp: relay_vote_def Let_def outcome_simps)
    have ne: "cfg \<noteq> rstate" using assms(1,3) by auto
    obtain b where "do_vote_with_relayer X relayer rstate True cfg poll dest (ra_nuHash ra) (ra_msgHash ra)
        (relayer_id_of relayer) b ?ch = Inr ch'"
      using inv by (auto simp: invoke_vote_def split: option.splits prod.splits)
    then obtain ch1 ch2 where t: "transfer_lam poll relayer 0 ?ch = Inr ch1" "transfer_lam poll dest (pc_fee pc) ch1 = Inr ch2"
        "vote_common X poll b (ra_nuHash ra) (relayer_id_of relayer) (Some (ra_msgHash ra)) ch2 = Inr ch'"
        "dest = pc_feeDestination pc"
      using assms ne by (auto simp: do_vote_with_relayer_def check_common_def outcome_simps)
    have "ch_lam ch' relayer \<le> ch_lam ch relayer"
      using transfer_zero [OF t(1)] transfer_from [OF t(2), of relayer] vote_common_lam [OF t(3)] t(4) assms(4) by simp
    with more show False by simp
  qed
  then show ?thesis by (cases "relay_vote X sg relayer rcfg rstate target [cfg, poll, dest] ra ch") auto
qed

theorem free_relay_fails_witness:
  "\<exists>ch e. (case small_relay 6 of Inl _ \<Rightarrow> False | Inr _ \<Rightarrow> True) \<and>
     relay_vote small_env True (small_key 4) small_rcfg small_state (se_moot demo_env)
       [small_cfg, small_poll, small_key 3] small_relay_args ch = Inl e"
proof -
  have "(case small_open of Inl _ \<Rightarrow> False | Inr c \<Rightarrow> (case ch_data c small_cfg of
      Some (DPlatform pc) \<Rightarrow> pc_feeDestination pc \<noteq> small_key 4 | _ \<Rightarrow> False) \<and> small_cfg \<noteq> small_state)"
    by code_simp
  then obtain c :: chain and pc where c: "ch_data c small_cfg = Some (DPlatform pc)" "pc_feeDestination pc \<noteq> small_key 4"
      "small_cfg \<noteq> small_state"
    by (auto split: sum.splits option.splits account_data.splits)
  let ?rs = "\<lparr>rs_root = zero32, rs_fee = 0, rs_msgLimit = 3, rs_endTime = 100\<rparr>"
  have "(case small_relay 6 of Inl _ \<Rightarrow> False | Inr _ \<Rightarrow> True)" by code_simp
  moreover have "ch_data (set_data small_state (DRelayerState ?rs) c) small_state = Some (DRelayerState ?rs)"
      "ch_data (set_data small_state (DRelayerState ?rs) c) small_cfg = Some (DPlatform pc)"
    using c by simp_all
  moreover have "rs_fee ?rs = 0" by simp
  ultimately show ?thesis using free_relay_fails c(2) by blast
qed

text \<open>
  Nobody has to sign \<open>close_tally\<close>: the tally account of any tallier, with all the batches
  proved so far, can be closed by anybody at any time (its rent goes to the tallier).
\<close>

theorem anybody_closes_tally:
  assumes "ch_data ch tally = Some (DTally t)" "tally = pda X (tally_seeds i owner)" "tally \<noteq> owner"
    and "uint (ch_lam ch owner) + uint (ch_lam ch tally) < 2 ^ 64"
  shows "\<exists>ch'. do_close_tally X owner tally i ch = Inr ch' \<and> ch_data ch' tally = None"
proof -
  obtain ch' where "close_account tally owner ch = Inr ch'" using close_ok assms(3,4) by blast
  then show ?thesis
    using assms(1,2) close_account_ok(1) by (fastforce simp: do_close_tally_def get_tally_def)
qed

text \<open>The configuration of the relayer program is never reallocated: an endpoint more than 36
  characters longer than the first one cannot be stored, although the rent for it is taken.\<close>

lemma transfer_size: "transfer_lam a b x ch = Inr ch' \<Longrightarrow> ch_size ch' = ch_size ch"
  by (auto simp: transfer_lam_def set_lam_def Let_def outcome_simps split: if_splits)

theorem long_endpoint_fails:
  assumes "ch_size ch cfg = relayer_config_space endpoint0" "length endpoint0 + 36 < length endpoint"
  shows "relayer_do_update_config X payer signer cfg endpoint key admin fee ch \<noteq> Inr ch'"
  using assms transfer_size
  by (fastforce simp: relayer_do_update_config_def outcome_simps system_transfer_def relayer_config_space_def
      relayer_config_len_def split: if_splits)

end
