(* ===== verification/ProgramExec.thy ===== *)
theory ProgramExec
  imports ProgramProps
begin

text \<open>
  Transactions: what the two programs do with the instructions that the SDKs build
  (\<open>#[program]\<close> of both \<open>lib.rs\<close>). Anchor finds the handler by its name, reads the
  arguments in their order, and the accounts by their names; accounts declared as \<open>Signer\<close>
  must have signed. A transaction is atomic. \<open>relay\<close> is for the discriminator of
  \<open>vote_with_relayer\<close>, the only one the SDK uses.
\<close>

definition acc :: "instruction \<Rightarrow> string \<Rightarrow> pubkey outcome" where
  "acc ix n = some_or (map_of (ix_accounts ix) n) BadInstruction"

definition signer :: "pubkey list \<Rightarrow> instruction \<Rightarrow> string \<Rightarrow> pubkey outcome" where
  "signer S ix n = obind (acc ix n) (\<lambda>a. obind (require (a \<in> set S) NotSigner) (\<lambda>_. Inr a))"

definition u64_arg :: "int \<Rightarrow> u64 outcome" where
  "u64_arg n = (if 0 \<le> n \<and> n < 2 ^ 64 then Inr (word_of_int n) else Inl BadInstruction)"

definition u8_arg :: "int \<Rightarrow> byte outcome" where
  "u8_arg n = (if 0 \<le> n \<and> n < 256 then Inr (word_of_int n) else Inl BadInstruction)"

fun u64_args :: "int list \<Rightarrow> u64 list outcome" where
  "u64_args [] = Inr []"
| "u64_args (n # ns) = obind (u64_arg n) (\<lambda>w. obind (u64_args ns) (\<lambda>ws. Inr (w # ws)))"

section \<open>The voting program\<close>

definition exec_initialize :: "chain_env \<Rightarrow> pubkey list \<Rightarrow> instruction \<Rightarrow> chain \<Rightarrow> chain outcome" where
  "exec_initialize X S ix ch = (case ix_args ix of [KeyArg admin, BNArg fee, KeyArg dest] \<Rightarrow>
       obind (signer S ix ''payer'') (\<lambda>payer. obind (acc ix ''platformConfig'') (\<lambda>cfg.
       obind (u64_arg fee) (\<lambda>fee. do_initialize X payer cfg admin fee dest ch)))
     | _ \<Rightarrow> Inl BadInstruction)"

definition exec_update_config :: "pubkey list \<Rightarrow> instruction \<Rightarrow> chain \<Rightarrow> chain outcome" where
  "exec_update_config S ix ch = (case ix_args ix of [KeyArg admin, BNArg fee, KeyArg dest] \<Rightarrow>
       obind (signer S ix ''admin'') (\<lambda>a. obind (acc ix ''platformConfig'') (\<lambda>cfg.
       obind (u64_arg fee) (\<lambda>fee. do_update_config a cfg admin fee dest ch)))
     | _ \<Rightarrow> Inl BadInstruction)"

definition exec_create_poll :: "chain_env \<Rightarrow> pubkey list \<Rightarrow> instruction \<Rightarrow> chain \<Rightarrow> chain outcome" where
  "exec_create_poll X S ix ch = (case ix_args ix of
       [BNArg i, NumArg nChoices, StrArg descriptionUrl, StrArg censusUrl, PointArg kx ky, BytesArg root,
        BNArg start, BNArg stop, BNArg fee, KeyArg dest, BNArg nVoters] \<Rightarrow>
       obind (signer S ix ''payer'') (\<lambda>payer. obind (acc ix ''platformConfig'') (\<lambda>cfg.
       obind (acc ix ''poll'') (\<lambda>poll. obind (acc ix ''relayerConfig'') (\<lambda>rcfg.
       obind (acc ix ''relayerState'') (\<lambda>rstate.
       obind (u64_arg i) (\<lambda>i. obind (u8_arg nChoices) (\<lambda>nChoices.
       obind (u64_arg start) (\<lambda>start. obind (u64_arg stop) (\<lambda>stop. obind (u64_arg fee) (\<lambda>fee.
       obind (u64_arg nVoters) (\<lambda>nVoters.
         do_create_poll X payer cfg poll rcfg rstate \<lparr>cr_id = i, cr_nChoices = nChoices,
           cr_descriptionUrl = descriptionUrl, cr_censusUrl = censusUrl,
           cr_tallierKey = \<lparr>pt_x = kx, pt_y = ky\<rparr>, cr_censusRoot = root, cr_start = start,
           cr_end = stop, cr_fee = fee, cr_feeDestination = dest, cr_nVoters = nVoters\<rparr> ch)))))))))))
     | _ \<Rightarrow> Inl BadInstruction)"

definition exec_vote :: "chain_env \<Rightarrow> pubkey list \<Rightarrow> instruction \<Rightarrow> chain \<Rightarrow> chain outcome" where
  "exec_vote X S ix ch = (case ix_args ix of
       [PointArg x y, BNArg nonce, BytesListArg ct, ProofArg proof] \<Rightarrow>
       obind (signer S ix ''payer'') (\<lambda>payer. obind (acc ix ''pollFeeDestination'') (\<lambda>dest.
       obind (acc ix ''voteCommon.platformConfig'') (\<lambda>cfg. obind (acc ix ''voteCommon.poll'') (\<lambda>poll.
       obind (acc ix ''voteCommon.platformFeeDestination'') (\<lambda>pdest.
       obind (u64_arg nonce) (\<lambda>nonce. obind (require (length ct = 7) BadInstruction) (\<lambda>_.
         do_vote X payer dest cfg poll pdest
           \<lparr>ba_ephPk = \<lparr>pt_x = x, pt_y = y\<rparr>, ba_nonce = nonce, ba_ciphertext = ct, ba_proof = proof\<rparr> ch)))))))
     | _ \<Rightarrow> Inl BadInstruction)"

definition exec_create_tally :: "chain_env \<Rightarrow> pubkey list \<Rightarrow> instruction \<Rightarrow> chain \<Rightarrow> chain outcome" where
  "exec_create_tally X S ix ch = (case ix_args ix of [BNArg i, BytesArg h] \<Rightarrow>
       obind (signer S ix ''payer'') (\<lambda>payer. obind (acc ix ''tally'') (\<lambda>tally.
       obind (u64_arg i) (\<lambda>i. do_create_tally X payer tally i h ch)))
     | _ \<Rightarrow> Inl BadInstruction)"

definition exec_tally_batch :: "chain_env \<Rightarrow> instruction \<Rightarrow> chain \<Rightarrow> chain outcome" where
  "exec_tally_batch X ix ch = (case ix_args ix of [ProofArg proof, BytesArg r, BytesArg c, BytesArg h] \<Rightarrow>
       obind (acc ix ''tally'') (\<lambda>tally. do_tally_batch X tally proof r c h ch)
     | _ \<Rightarrow> Inl BadInstruction)"

definition exec_finish_tally :: "chain_env \<Rightarrow> instruction \<Rightarrow> chain \<Rightarrow> chain outcome" where
  "exec_finish_tally X ix ch = (case ix_args ix of [BNListArg counts, BNArg salt] \<Rightarrow>
       obind (acc ix ''payer'') (\<lambda>payer. obind (acc ix ''tally'') (\<lambda>tally. obind (acc ix ''poll'') (\<lambda>poll.
       obind (u64_args counts) (\<lambda>counts. obind (u64_arg salt) (\<lambda>salt.
         do_finish_tally X payer tally poll counts salt ch)))))
     | _ \<Rightarrow> Inl BadInstruction)"

definition exec_close_tally :: "chain_env \<Rightarrow> instruction \<Rightarrow> chain \<Rightarrow> chain outcome" where
  "exec_close_tally X ix ch = (case ix_args ix of [BNArg i] \<Rightarrow>
       obind (acc ix ''owner'') (\<lambda>owner. obind (acc ix ''tally'') (\<lambda>tally.
       obind (u64_arg i) (\<lambda>i. do_close_tally X owner tally i ch)))
     | _ \<Rightarrow> Inl BadInstruction)"

definition exec_withdraw_poll :: "chain_env \<Rightarrow> instruction \<Rightarrow> chain \<Rightarrow> chain outcome" where
  "exec_withdraw_poll X ix ch = (case ix_args ix of [] \<Rightarrow>
       obind (acc ix ''feeDestination'') (\<lambda>dest. obind (acc ix ''poll'') (\<lambda>poll. do_withdraw_poll X dest poll ch))
     | _ \<Rightarrow> Inl BadInstruction)"

definition exec_moot :: "chain_env \<Rightarrow> pubkey list \<Rightarrow> instruction \<Rightarrow> chain \<Rightarrow> chain outcome" where
  "exec_moot X S ix ch =
     (if ix_method ix = ''initialize'' then exec_initialize X S ix ch
      else if ix_method ix = ''updateConfig'' then exec_update_config S ix ch
      else if ix_method ix = ''createPoll'' then exec_create_poll X S ix ch
      else if ix_method ix = ''vote'' then exec_vote X S ix ch
      else if ix_method ix = ''createTally'' then exec_create_tally X S ix ch
      else if ix_method ix = ''tallyBatch'' then exec_tally_batch X ix ch
      else if ix_method ix = ''finishTally'' then exec_finish_tally X ix ch
      else if ix_method ix = ''closeTally'' then exec_close_tally X ix ch
      else if ix_method ix = ''withdrawPoll'' then exec_withdraw_poll X ix ch
      else Inl BadInstruction)"

section \<open>The relayer program\<close>

definition exec_relayer_initialize :: "chain_env \<Rightarrow> pubkey list \<Rightarrow> instruction \<Rightarrow> chain \<Rightarrow> chain outcome" where
  "exec_relayer_initialize X S ix ch = (case ix_args ix of [RelayerArg ep key, KeyArg admin, BNArg fee] \<Rightarrow>
       obind (signer S ix ''payer'') (\<lambda>payer. obind (acc ix ''relayerConfig'') (\<lambda>cfg.
       obind (u64_arg fee) (\<lambda>fee. relayer_do_initialize X payer cfg ep key admin fee ch)))
     | _ \<Rightarrow> Inl BadInstruction)"

definition exec_relayer_update :: "chain_env \<Rightarrow> pubkey list \<Rightarrow> instruction \<Rightarrow> chain \<Rightarrow> chain outcome" where
  "exec_relayer_update X S ix ch = (case ix_args ix of [RelayerArg ep key, KeyArg admin, BNArg fee] \<Rightarrow>
       obind (signer S ix ''payer'') (\<lambda>payer. obind (signer S ix ''admin'') (\<lambda>a.
       obind (acc ix ''relayerConfig'') (\<lambda>cfg. obind (u64_arg fee) (\<lambda>fee.
         relayer_do_update_config X payer a cfg ep key admin fee ch))))
     | _ \<Rightarrow> Inl BadInstruction)"

definition VOTE_WITH_RELAYER :: int where "VOTE_WITH_RELAYER = 4"

definition exec_relay :: "chain_env \<Rightarrow> pubkey list \<Rightarrow> instruction \<Rightarrow> chain \<Rightarrow> chain outcome" where
  "exec_relay X S ix ch = (case ix_args ix of
       [BNArg i, ProofArg proof, BytesArg root, BytesArg msgHash, NumArg disc, BytesArg nuHash, BytesArg data] \<Rightarrow>
       obind (acc ix ''relayer'') (\<lambda>relayer. obind (acc ix ''relayerConfig'') (\<lambda>rcfg.
       obind (acc ix ''relayerState'') (\<lambda>rstate. obind (acc ix ''targetProgram'') (\<lambda>target.
       obind (u64_arg i) (\<lambda>i. obind (require (disc = VOTE_WITH_RELAYER) BadInstruction) (\<lambda>_.
         relay_vote X (relayer \<in> set S) relayer rcfg rstate target (map am_pubkey (ix_remaining ix))
           \<lparr>ra_stateId = i, ra_proof = proof, ra_rootNew = root, ra_msgHash = msgHash,
            ra_nuHash = nuHash, ra_data = data\<rparr> ch))))))
     | _ \<Rightarrow> Inl BadInstruction)"

definition exec_relayer :: "chain_env \<Rightarrow> pubkey list \<Rightarrow> instruction \<Rightarrow> chain \<Rightarrow> chain outcome" where
  "exec_relayer X S ix ch =
     (if ix_method ix = ''initialize'' then exec_relayer_initialize X S ix ch
      else if ix_method ix = ''updateConfig'' then exec_relayer_update X S ix ch
      else if ix_method ix = ''relay'' then exec_relay X S ix ch
      else Inl BadInstruction)"

section \<open>Transactions\<close>

definition exec_ix :: "chain_env \<Rightarrow> pubkey list \<Rightarrow> tx_ix \<Rightarrow> chain \<Rightarrow> chain outcome" where
  "exec_ix X S t ch = (case t of
       SetComputeUnitLimit n \<Rightarrow> Inr ch
     | Call ix \<Rightarrow>
         if ix_program ix = se_moot (cx_sdk X) then exec_moot X S ix ch
         else if ix_program ix = se_relayer (cx_sdk X) then exec_relayer X S ix ch
         else Inl BadInstruction)"

fun exec_ixs :: "chain_env \<Rightarrow> pubkey list \<Rightarrow> tx_ix list \<Rightarrow> chain \<Rightarrow> chain outcome" where
  "exec_ixs X S [] ch = Inr ch"
| "exec_ixs X S (t # ts) ch = obind (exec_ix X S t ch) (exec_ixs X S ts)"

text \<open>The fee payer signs in any case.\<close>

definition exec_tx :: "chain_env \<Rightarrow> transaction \<Rightarrow> chain \<Rightarrow> chain outcome" where
  "exec_tx X tx = exec_ixs X (tx_feePayer tx # tx_signers tx) (tx_ixs tx)"

text \<open>A transaction that succeeds is a run of steps, so the invariants of the ledger hold after it.\<close>

lemmas exec_defs = exec_initialize_def exec_update_config_def exec_create_poll_def exec_vote_def
  exec_create_tally_def exec_tally_batch_def exec_finish_tally_def exec_close_tally_def
  exec_withdraw_poll_def exec_relayer_initialize_def exec_relayer_update_def exec_relay_def

lemma handler_step:
  "exec_initialize X S ix ch = Inr ch' \<Longrightarrow> chain_step X ch ch'"
  "exec_update_config S ix ch = Inr ch' \<Longrightarrow> chain_step X ch ch'"
  "exec_create_poll X S ix ch = Inr ch' \<Longrightarrow> chain_step X ch ch'"
  "exec_vote X S ix ch = Inr ch' \<Longrightarrow> chain_step X ch ch'"
  "exec_create_tally X S ix ch = Inr ch' \<Longrightarrow> chain_step X ch ch'"
  "exec_tally_batch X ix ch = Inr ch' \<Longrightarrow> chain_step X ch ch'"
  "exec_finish_tally X ix ch = Inr ch' \<Longrightarrow> chain_step X ch ch'"
  "exec_close_tally X ix ch = Inr ch' \<Longrightarrow> chain_step X ch ch'"
  "exec_withdraw_poll X ix ch = Inr ch' \<Longrightarrow> chain_step X ch ch'"
  "exec_relayer_initialize X S ix ch = Inr ch' \<Longrightarrow> chain_step X ch ch'"
  "exec_relayer_update X S ix ch = Inr ch' \<Longrightarrow> chain_step X ch ch'"
  "exec_relay X S ix ch = Inr ch' \<Longrightarrow> chain_step X ch ch'"
  unfolding exec_defs
  by (auto simp: obind_ok split: list.splits arg.splits intro: chain_step.intros)

lemma exec_ix_step: "exec_ix X S t ch = Inr ch' \<Longrightarrow> (chain_step X)\<^sup>*\<^sup>* ch ch'"
  by (auto simp: exec_ix_def exec_moot_def exec_relayer_def dest: handler_step split: tx_ix.splits if_splits)

lemma exec_ixs_steps: "exec_ixs X S ts ch = Inr ch' \<Longrightarrow> (chain_step X)\<^sup>*\<^sup>* ch ch'"
  by (induction ts arbitrary: ch) (auto simp: obind_ok dest!: exec_ix_step intro: rtranclp_trans)

lemma exec_tx_steps: "exec_tx X tx ch = Inr ch' \<Longrightarrow> (chain_step X)\<^sup>*\<^sup>* ch ch'"
  by (simp add: exec_tx_def exec_ixs_steps)

lemma exec_ixs_append: "exec_ixs X S (ts @ us) ch = obind (exec_ixs X S ts ch) (exec_ixs X S us)"
  by (induction ts arbitrary: ch) (auto simp: obind_def split: sum.splits)

lemma exec_method:
  "exec_ix X S (SetComputeUnitLimit n) ch = Inr ch"
  "ix_program ix = se_moot (cx_sdk X) \<Longrightarrow> exec_ix X S (Call ix) ch = exec_moot X S ix ch"
  "ix_program ix = se_relayer (cx_sdk X) \<Longrightarrow> se_relayer (cx_sdk X) \<noteq> se_moot (cx_sdk X) \<Longrightarrow>
   exec_ix X S (Call ix) ch = exec_relayer X S ix ch"
  by (simp_all add: exec_ix_def)

end
