(* ===== verification/SdkOnChain.thy ===== *)
theory SdkOnChain
  imports ProgramExec SmallLedger PollCreate
begin

text \<open>
  The SDK against the programs: a relayed vote built by the SDK and a poll created by the page,
  followed through their execution on the ledger.
\<close>

lemma u64_arg_ok: "0 \<le> n \<Longrightarrow> n < 2 ^ 64 \<Longrightarrow> u64_arg n = Inr (word_of_int n)"
  by (simp add: u64_arg_def)

lemma uint_u64: "0 \<le> n \<Longrightarrow> n < 2 ^ 64 \<Longrightarrow> uint (word_of_int n :: u64) = n"
  by (simp add: unsigned_of_int take_bit_int_eq_self)

lemma le64_of_int: "0 \<le> n \<Longrightarrow> n < 2 ^ 64 \<Longrightarrow> le64 (word_of_int n) = le_bytes 8 n"
  by (simp add: le64_def uint_u64)

lemma findPoll_pda:
  assumes "le8_law (se_le8 (cx_sdk X))" "0 \<le> i" "i < 2 ^ 64"
  shows "findPoll (cx_sdk X) i = Inr (pda X (poll_seeds (word_of_int i)))"
  using assms by (simp add: findPoll_def toBN_def le8_law_def pda_def poll_seeds_def le64_of_int)

lemma findTally_pda:
  assumes "le8_law (se_le8 (cx_sdk X))" "0 \<le> i" "i < 2 ^ 64"
  shows "findTally (cx_sdk X) i owner = Inr (pda X (tally_seeds (word_of_int i) owner))"
  using assms by (simp add: findTally_def toBN_def le8_law_def pda_def tally_seeds_def le64_of_int)

lemma findRelayerState_pda:
  assumes "le8_law (se_le8 (cx_sdk X))" "0 \<le> i" "i < 2 ^ 64"
  shows "findRelayerState (cx_sdk X) t i = Inr (relayer_pda X (state_seeds t (word_of_int i)))"
  using assms by (simp add: findRelayerState_def toBN_def le8_law_def relayer_pda_def state_seeds_def le64_of_int)

section \<open>A relayed vote\<close>

text \<open>The vote that a relayed vote becomes.\<close>

definition votes_as :: "chain_env \<Rightarrow> pubkey \<Rightarrow> ballot_args \<Rightarrow> u256 \<Rightarrow> chain \<Rightarrow> chain \<Rightarrow> bool" where
  "votes_as X poll b m ch ch' \<longleftrightarrow> (\<exists>p h. poll_at ch poll = Some p \<and>
     pl_start p \<le> ch_now ch \<and> ch_now ch \<le> pl_end p \<and>
     cx_hashv X (ballot_preimage b) = Some m \<and> cx_hashv X [pl_cumulative p, m] = Some h \<and>
     poll_at ch' = (poll_at ch)(poll \<mapsto> p\<lparr>pl_cumulative := h\<rparr>) \<and>
     ch_events ch' = ch_events ch @ [VoteEvent (pl_id p) (ba_ephPk b) (ba_nonce b) (ba_ciphertext b) m])"

lemma vote_common_as:
  "vote_common X poll b nu rid (Some m) ch = Inr ch' \<Longrightarrow> votes_as X poll b m ch ch'"
  by (auto simp: vote_common_def votes_as_def outcome_simps poll_at_eq)

lemma quiet_votes_as: "quiet ch ch1 \<Longrightarrow> votes_as X poll b m ch1 ch2 \<Longrightarrow> votes_as X poll b m ch ch2"
  by (simp add: quiet_def votes_as_def)

lemma relayed_as:
  assumes "do_vote_with_relayer X relayer rstate sg cfg poll pdest nu m rid b ch = Inr ch'"
  shows "votes_as X poll b m ch ch'"
proof -
  obtain ch1 ch2 x y where t: "transfer_lam poll relayer x ch = Inr ch1"
      "transfer_lam poll pdest y ch1 = Inr ch2" "vote_common X poll b nu rid (Some m) ch2 = Inr ch'"
    using assms by (auto simp: do_vote_with_relayer_def outcome_simps)
  show ?thesis
    by (rule quiet_votes_as [OF quiet_trans [OF quiet_transfer quiet_transfer] vote_common_as]) (rule t)+
qed

lemma relay_as:
  assumes "relay_vote X sg relayer rcfg rstate target [cfg, poll, pdest] a ch = Inr ch'"
    and "parse_vote_args (ra_data a) = Some (pk, n, ct, pr)"
  shows "votes_as X poll \<lparr>ba_ephPk = pk, ba_nonce = word_of_int n, ba_ciphertext = ct, ba_proof = pr\<rparr>
    (ra_msgHash a) ch ch'"
proof -
  obtain rs ch1 where r: "ch_data ch rstate = Some (DRelayerState rs)"
      "ch1 = set_data rstate (DRelayerState (rs\<lparr>rs_root := ra_rootNew a\<rparr>)) ch"
      "invoke_vote X relayer rstate [cfg, poll, pdest] (ra_nuHash a) (ra_msgHash a) (relayer_id_of relayer)
         (ra_data a) ch1 = Inr ch'"
    using assms(1) by (auto simp: relay_vote_def Let_def outcome_simps)
  then have "quiet ch ch1" by (auto intro: quiet_set poll_at_None)
  with r(3) assms(2) show ?thesis using relayed_as quiet_votes_as by (fastforce simp: invoke_vote_def)
qed

definition sdk_vote_ok :: "vote_with_relayer_params \<Rightarrow> bool" where
  "sdk_vote_ok p \<longleftrightarrow> 0 \<le> vr_nonce p \<and> vr_nonce p < 2 ^ 64 \<and> 0 \<le> vr_pollId p \<and> vr_pollId p < 2 ^ 64 \<and>
     length (pt_x (vr_ephPk p)) = 32 \<and> length (pt_y (vr_ephPk p)) = 32 \<and> length (vr_ciphertext p) = 7 \<and>
     (\<forall>c \<in> set (vr_ciphertext p). length c = 32) \<and> length (cp_a (vr_proof p)) = 32 \<and>
     length (cp_b (vr_proof p)) = 64 \<and> length (cp_c (vr_proof p)) = 32"

text \<open>
  C12: a relayed vote, from the SDK to the log. When the instruction that \<open>voteWithRelayer\<close> builds
  is executed, the poll of the given number is open, and its log ends with the \<open>VoteEvent\<close> of
  exactly the given ephemeral key, nonce and ciphertext, whose message hash is both the
  Poseidon hash of these and the one the relayer named; the running hash of the poll takes it in.
\<close>

theorem sdk_relayed_vote_lands:
  assumes "voteWithRelayer (cx_sdk X) p = Inr ix" "le8_law (se_le8 (cx_sdk X))" "sdk_vote_ok p"
    and "se_relayer (cx_sdk X) \<noteq> se_moot (cx_sdk X)"
    and "exec_ix X [vr_relayer p] (Call (iwc_instruction ix)) ch = Inr ch'"
  shows "\<exists>poll q h. poll = pda X (poll_seeds (word_of_int (vr_pollId p))) \<and> poll_at ch poll = Some q \<and>
    pl_start q \<le> ch_now ch \<and> ch_now ch \<le> pl_end q \<and>
    cx_hashv X ([pt_x (vr_ephPk p), pt_y (vr_ephPk p), u64_to_u256_be (word_of_int (vr_nonce p))]
      @ vr_ciphertext p) = Some (vr_msgHash p) \<and>
    cx_hashv X [pl_cumulative q, vr_msgHash p] = Some h \<and>
    poll_at ch' = (poll_at ch)(poll \<mapsto> q\<lparr>pl_cumulative := h\<rparr>) \<and>
    ch_events ch' = ch_events ch @ [VoteEvent (pl_id q) (vr_ephPk p) (word_of_int (vr_nonce p))
      (vr_ciphertext p) (vr_msgHash p)]"
proof -
  let ?E = "cx_sdk X" and ?poll = "pda X (poll_seeds (word_of_int (vr_pollId p)))"
  obtain data where d: "serializeVoteData (se_le8 ?E) (vr_ciphertext p) (vr_proof p) (vr_ephPk p) (vr_nonce p) = Inr data"
      "parse_vote_args data = Some (vr_ephPk p, vr_nonce p, vr_ciphertext p, vr_proof p)"
    using serializeVoteData_parses [OF assms(2), of "vr_nonce p" "vr_ephPk p" "vr_ciphertext p" "vr_proof p"]
      assms(3) by (auto simp: sdk_vote_ok_def)
  have poll: "findPoll ?E (vr_pollId p) = Inr ?poll"
    using findPoll_pda [OF assms(2)] assms(3) by (simp add: sdk_vote_ok_def)
  obtain rstate where st: "findRelayerState ?E (se_moot ?E) (vr_pollId p) = Inr rstate"
    using findRelayerState_pda [OF assms(2)] assms(3) by (simp add: sdk_vote_ok_def)
  let ?acc = "[PLATFORM_CONFIG ?E, ?poll, vr_platformFeeDestination p]"
  define i where "i = iwc_instruction ix"
  have "ix_method i = ''relay'' \<and> ix_program i = se_relayer ?E \<and>
      ix_args i = [BNArg (vr_pollId p), ProofArg (vr_relayerProof p), BytesArg (vr_rootStateNew p),
        BytesArg (vr_msgHash p), NumArg 4, BytesArg (vr_relayerNuHash p), BytesArg data] \<and>
      ix_accounts i = [(''relayer'', vr_relayer p), (''relayerConfig'', RELAYER_CONFIG ?E),
        (''relayerState'', rstate), (''targetProgram'', se_moot ?E)] \<and>
      map am_pubkey (ix_remaining i) = ?acc"
    using assms(1) d(1) poll st by (auto simp: i_def voteWithRelayer_def relay_def toBN_def)
  then obtain a where "relay_vote X True (vr_relayer p) (RELAYER_CONFIG ?E) rstate (se_moot ?E) ?acc a ch = Inr ch'"
      "ra_data a = data" "ra_msgHash a = vr_msgHash p"
    using assms(4,5)
    by (auto simp: i_def exec_ix_def exec_relayer_def exec_relay_def acc_def signer_def obind_ok)
  then show ?thesis using relay_as d(2) by (fastforce simp: votes_as_def ballot_preimage_def)
qed

definition small_relayed :: vote_with_relayer_params where
  "small_relayed = \<lparr>vr_relayer = small_key 4, vr_msgHash = the (small_hash (ballot_preimage small_ballot)),
     vr_ephPk = ba_ephPk small_ballot, vr_nonce = 9, vr_ciphertext = ba_ciphertext small_ballot,
     vr_relayerNuHash = zero32, vr_pollId = 5,
     vr_proof = \<lparr>cp_a = small_key 0, cp_b = replicate 64 0, cp_c = small_key 0\<rparr>,
     vr_relayerProof = \<lparr>cp_a = [], cp_b = [], cp_c = []\<rparr>, vr_rootStateNew = zero32,
     vr_platformFeeDestination = small_key 3\<rparr>"

theorem sdk_relayed_vote_lands_witness:
  "\<exists>ch ix ch' e. small_open = Inr ch \<and> voteWithRelayer demo_env small_relayed = Inr ix \<and>
     exec_ix small_env [small_key 4] (Call (iwc_instruction ix)) ch = Inr ch' \<and>
     ch_events ch' = ch_events ch @ [VoteEvent e (ba_ephPk small_ballot) 9 (ba_ciphertext small_ballot)
       (vr_msgHash small_relayed)]"
proof -
  have "(case small_open of Inl _ \<Rightarrow> False | Inr ch \<Rightarrow>
     (case voteWithRelayer demo_env small_relayed of Inl _ \<Rightarrow> False | Inr ix \<Rightarrow>
     (case exec_ix small_env [small_key 4] (Call (iwc_instruction ix)) ch of Inl _ \<Rightarrow> False | Inr ch' \<Rightarrow> True)))"
    by code_simp
  then obtain ch ix ch' where r: "small_open = Inr ch" "voteWithRelayer demo_env small_relayed = Inr ix"
      "exec_ix small_env [small_key 4] (Call (iwc_instruction ix)) ch = Inr ch'"
    by (auto split: sum.splits)
  have e: "cx_sdk small_env = demo_env" "vr_relayer small_relayed = small_key 4"
    by (simp_all add: small_env_def small_relayed_def)
  have l: "le8_law (se_le8 (cx_sdk small_env))" "sdk_vote_ok small_relayed"
      "se_relayer (cx_sdk small_env) \<noteq> se_moot (cx_sdk small_env)"
    by (simp add: le8_law_def e demo_env_def) code_simp+
  from sdk_relayed_vote_lands [OF _ l(1,2,3), of ix ch ch'] r e show ?thesis
    by (fastforce simp: small_relayed_def)
qed

section \<open>What a relayed vote pays\<close>

lemma transfer_exact:
  assumes "transfer_lam a b x ch = Inr ch'"
  shows "uint (ch_lam ch' c) = uint (ch_lam ch c) + (if c = b then uint x else 0) - (if c = a then uint x else 0)"
proof -
  let ?l = "ch_lam ch" and ?m = "(ch_lam ch)(a := ch_lam ch a - x)"
  have x: "x \<le> ?l a" and b: "uint (?m b) + uint x < 2 ^ 64" and ch': "ch_lam ch' = ?m(b := ?m b + x)"
    using assms by (auto simp: transfer_lam_def set_lam_def Let_def outcome_simps split: if_splits)
  have "uint (?l a - x) = uint (?l a) - uint x" using x by (rule uint_sub_no_wrap)
  moreover have "uint (?m b + x) = uint (?m b) + uint x" using b by (rule uint_add_no_wrap)
  ultimately show ?thesis by (auto simp: ch')
qed

definition relay_pays :: "pubkey \<Rightarrow> pubkey \<Rightarrow> pubkey \<Rightarrow> u64 \<Rightarrow> u64 \<Rightarrow> chain \<Rightarrow> chain \<Rightarrow> bool" where
  "relay_pays poll relayer dest fee platform_fee ch ch' \<longleftrightarrow>
     (\<forall>a. uint (ch_lam ch' a) = uint (ch_lam ch a) + (if a = relayer then uint fee else 0) +
        (if a = dest then uint platform_fee else 0) - (if a = poll then uint fee + uint platform_fee else 0))"

lemma relayed_vote_pays:
  assumes "do_vote_with_relayer X relayer rstate sg cfg poll dest nu mh rid b ch = Inr ch'"
  shows "\<exists>rs pc. ch_data ch rstate = Some (DRelayerState rs) \<and> ch_data ch cfg = Some (DPlatform pc) \<and>
    dest = pc_feeDestination pc \<and> relay_pays poll relayer dest (rs_fee rs) (pc_fee pc) ch ch'"
proof -
  obtain rs pc ch1 ch2 where r: "ch_data ch rstate = Some (DRelayerState rs)" "ch_data ch cfg = Some (DPlatform pc)"
      "dest = pc_feeDestination pc" "transfer_lam poll relayer (rs_fee rs) ch = Inr ch1"
      "transfer_lam poll dest (pc_fee pc) ch1 = Inr ch2" "vote_common X poll b nu rid (Some mh) ch2 = Inr ch'"
    using assms by (auto simp: do_vote_with_relayer_def check_common_def outcome_simps)
  have "ch_lam ch' = ch_lam ch2" using r(6) by (auto simp: vote_common_def outcome_simps)
  then show ?thesis using r(1-3) transfer_exact [OF r(4)] transfer_exact [OF r(5)] by (simp add: relay_pays_def)
qed

text \<open>
  C23: what a relayed vote pays. When a \<open>relay\<close> instruction is carried out, its relayer has signed
  and is the one of the configuration; the first three forwarded accounts are the platform's
  configuration, an open poll, to which one vote is added, and the platform's receiver of fees; the
  poll pays the fee of the relayer state to the relayer and the platform's fee to that receiver, to
  the lamport, and no other balance changes; and the relayer has gained at least its fee, and
  something.
\<close>

theorem relay_pays_the_relayer:
  assumes "exec_ix X S (Call ix) ch = Inr ch'" "ix_method ix = ''relay''" "ix_program ix = se_relayer (cx_sdk X)"
    and "se_relayer (cx_sdk X) \<noteq> se_moot (cx_sdk X)"
  shows "\<exists>relayer rcfg rc rstate rs cfg pc poll extra. acc ix ''relayer'' = Inr relayer \<and> relayer \<in> set S \<and>
    acc ix ''relayerConfig'' = Inr rcfg \<and> ch_data ch rcfg = Some (DRelayerConfig rc) \<and> relayer = rc_feeKey rc \<and>
    acc ix ''relayerState'' = Inr rstate \<and> ch_data ch rstate = Some (DRelayerState rs) \<and>
    map am_pubkey (ix_remaining ix) = cfg # poll # pc_feeDestination pc # extra \<and>
    ch_data ch cfg = Some (DPlatform pc) \<and> votes X poll ch ch' \<and>
    relay_pays poll relayer (pc_feeDestination pc) (rs_fee rs) (pc_fee pc) ch ch' \<and>
    uint (ch_lam ch relayer) + max 1 (uint (rs_fee rs)) \<le> uint (ch_lam ch' relayer)"
proof -
  have "exec_relay X S ix ch = Inr ch'" using assms by (simp add: exec_method exec_relayer_def)
  then obtain relayer rcfg rstate target ra where i: "acc ix ''relayer'' = Inr relayer" "acc ix ''relayerConfig'' = Inr rcfg"
      "acc ix ''relayerState'' = Inr rstate"
      "relay_vote X (relayer \<in> set S) relayer rcfg rstate target (map am_pubkey (ix_remaining ix)) ra ch = Inr ch'"
    by (auto simp: exec_relay_def obind_ok split: list.splits arg.splits)
  then obtain rc rs ch1 where r: "relayer \<in> set S" "ch_data ch rcfg = Some (DRelayerConfig rc)" "relayer = rc_feeKey rc"
      "ch_data ch rstate = Some (DRelayerState rs)" "ch1 = set_data rstate (DRelayerState (rs\<lparr>rs_root := ra_rootNew ra\<rparr>)) ch"
      "invoke_vote X relayer rstate (map am_pubkey (ix_remaining ix)) (ra_nuHash ra) (ra_msgHash ra) (relayer_id_of relayer)
        (ra_data ra) ch1 = Inr ch'"
      "ch_lam ch relayer < ch_lam ch' relayer" "rs_fee rs \<le> ch_lam ch' relayer - ch_lam ch relayer"
    by (auto simp: relay_vote_def Let_def outcome_simps)
  then obtain b cfg poll dest extra where v: "map am_pubkey (ix_remaining ix) = cfg # poll # dest # extra"
      "do_vote_with_relayer X relayer rstate True cfg poll dest (ra_nuHash ra) (ra_msgHash ra) (relayer_id_of relayer) b ch1 = Inr ch'"
    by (auto simp: invoke_vote_def split: option.splits list.splits prod.splits)
  obtain pc where pc: "ch_data ch1 cfg = Some (DPlatform pc)" "dest = pc_feeDestination pc"
      "relay_pays poll relayer dest (rs_fee rs) (pc_fee pc) ch1 ch'"
    using relayed_vote_pays [OF v(2)] r(5) by auto
  have q: "quiet ch ch1" using r(4,5) by (auto intro: quiet_set poll_at_None)
  have "ch_data ch cfg = Some (DPlatform pc)" using pc(1) r(5) by (auto split: if_splits)
  moreover have "relay_pays poll relayer (pc_feeDestination pc) (rs_fee rs) (pc_fee pc) ch ch'"
    using pc(2,3) r(5) by (simp add: relay_pays_def)
  moreover have "votes X poll ch ch'" using quiet_before [OF q vote_with_relayer_step [OF v(2)]] .
  moreover have "uint (ch_lam ch relayer) + max 1 (uint (rs_fee rs)) \<le> uint (ch_lam ch' relayer)"
    using r(7,8) uint_sub_no_wrap [of "ch_lam ch relayer" "ch_lam ch' relayer"] by (simp add: word_le_def word_less_def)
  ultimately show ?thesis using i(1-3) r(1-4) v(1) [unfolded pc(2)]
    by - (rule exI [of _ relayer], rule exI [of _ rcfg], rule exI [of _ rc], rule exI [of _ rstate], rule exI [of _ rs],
      rule exI [of _ cfg], rule exI [of _ pc], rule exI [of _ poll], rule exI [of _ extra], intro conjI; assumption)
qed

theorem relay_pays_the_relayer_witness:
  "\<exists>ch ix ch'. small_open = Inr ch \<and> voteWithRelayer demo_env small_relayed = Inr ix \<and>
     exec_ix small_env [small_key 4] (Call (iwc_instruction ix)) ch = Inr ch' \<and>
     uint (ch_lam ch (small_key 4)) < uint (ch_lam ch' (small_key 4))"
proof -
  have "(case small_open of Inl _ \<Rightarrow> False | Inr ch \<Rightarrow>
     (case voteWithRelayer demo_env small_relayed of Inl _ \<Rightarrow> False | Inr ix \<Rightarrow>
     (case exec_ix small_env [small_key 4] (Call (iwc_instruction ix)) ch of Inl _ \<Rightarrow> False | Inr ch' \<Rightarrow> 
       ix_method (iwc_instruction ix) = ''relay'' \<and> ix_program (iwc_instruction ix) = se_relayer demo_env \<and>
       acc (iwc_instruction ix) ''relayer'' = Inr (small_key 4))))"
    by code_simp
  then obtain ch ix ch' where r: "small_open = Inr ch" "voteWithRelayer demo_env small_relayed = Inr ix"
      "exec_ix small_env [small_key 4] (Call (iwc_instruction ix)) ch = Inr ch'"
      "ix_method (iwc_instruction ix) = ''relay''" "ix_program (iwc_instruction ix) = se_relayer demo_env"
      "acc (iwc_instruction ix) ''relayer'' = Inr (small_key 4)"
    by (auto split: sum.splits)
  have "cx_sdk small_env = demo_env" "se_relayer demo_env \<noteq> se_moot demo_env"
    by (simp add: small_env_def) code_simp
  then show ?thesis using relay_pays_the_relayer [OF r(3,4)] r by (fastforce simp: r(6))
qed

section \<open>A poll from the page to the chain\<close>

lemma u8_arg_uint: "u8_arg n = Inr w \<Longrightarrow> uint w = n"
  by (auto simp: u8_arg_def unsigned_of_int take_bit_int_eq_self split: if_splits)

lemma u64_arg_uint: "u64_arg n = Inr w \<Longrightarrow> uint w = n"
  by (auto simp: u64_arg_def uint_u64 split: if_splits)

lemma exec_create_poll_creates:
  assumes "createPoll (cx_sdk X) p = Inr ix" "exec_moot X S (iwc_instruction ix) ch = Inr ch'"
  shows "\<exists>a f poll. creates_poll X poll a f ch ch' \<and> cr_censusRoot a = po_censusRoot p \<and>
    cr_censusUrl a = po_censusUrl p \<and> cr_descriptionUrl a = po_descriptionUrl p \<and>
    cr_tallierKey a = po_tallierKey p \<and> uint (cr_nChoices a) = po_nChoices p \<and>
    uint (cr_nVoters a) = po_nVoters p \<and> uint (cr_start a) = po_votingStartTime p \<and>
    uint (cr_end a) = po_votingEndTime p"
proof -
  obtain poll rstate where i: "iwc_instruction ix = \<lparr>ix_program = se_moot (cx_sdk X), ix_method = ''createPoll'',
      ix_args = [BNArg (po_id p), NumArg (po_nChoices p), StrArg (po_descriptionUrl p),
        StrArg (po_censusUrl p), PointArg (pt_x (po_tallierKey p)) (pt_y (po_tallierKey p)),
        BytesArg (po_censusRoot p), BNArg (po_votingStartTime p), BNArg (po_votingEndTime p),
        BNArg (po_fee p), KeyArg (po_feeDestination p), BNArg (po_nVoters p)],
      ix_accounts = [(''payer'', po_payer p), (''poll'', poll), (''platformConfig'', PLATFORM_CONFIG (cx_sdk X)),
        (''relayerConfig'', RELAYER_CONFIG (cx_sdk X)), (''relayerState'', rstate)], ix_remaining = []\<rparr>"
    using assms(1) by (auto simp: createPoll_def rbind_eq_Inr moot_ix_def toBN_def)
  obtain pid n start stop fee voters where w: "u8_arg (po_nChoices p) = Inr n"
      "u64_arg (po_votingStartTime p) = Inr start" "u64_arg (po_votingEndTime p) = Inr stop"
      "u64_arg (po_nVoters p) = Inr voters"
      "do_create_poll X (po_payer p) (PLATFORM_CONFIG (cx_sdk X)) poll (RELAYER_CONFIG (cx_sdk X)) rstate
         \<lparr>cr_id = pid, cr_nChoices = n, cr_descriptionUrl = po_descriptionUrl p, cr_censusUrl = po_censusUrl p,
          cr_tallierKey = po_tallierKey p,
          cr_censusRoot = po_censusRoot p, cr_start = start, cr_end = stop, cr_fee = fee,
          cr_feeDestination = po_feeDestination p, cr_nVoters = voters\<rparr> ch = Inr ch'"
  proof -
    have k: "\<lparr>pt_x = pt_x (po_tallierKey p), pt_y = pt_y (po_tallierKey p)\<rparr> = po_tallierKey p"
      by simp
    have "exec_create_poll X S (iwc_instruction ix) ch = Inr ch'"
      using assms(2) unfolding exec_moot_def i by simp
    then show ?thesis
      unfolding exec_create_poll_def i acc_def signer_def
      by (clarsimp simp: obind_ok k) (rule that)
  qed
  let ?a = "\<lparr>cr_id = pid, cr_nChoices = n, cr_descriptionUrl = po_descriptionUrl p,
      cr_censusUrl = po_censusUrl p, cr_tallierKey = po_tallierKey p, cr_censusRoot = po_censusRoot p,
      cr_start = start, cr_end = stop, cr_fee = fee, cr_feeDestination = po_feeDestination p,
      cr_nVoters = voters\<rparr>"
  obtain f where "creates_poll X poll ?a f ch ch'" using create_poll_creates [OF w(5)] ..
  then show ?thesis
    using u8_arg_uint [OF w(1)] u64_arg_uint [OF w(2)] u64_arg_uint [OF w(3)] u64_arg_uint [OF w(4)]
    by (intro exI [of _ ?a] exI [of _ f] exI [of _ poll]) simp
qed

text \<open>
  From the census file to the chain. When the transaction of a submission without error is
  executed, the poll is on the chain, open for votes, with the Merkle root of the file's leaves,
  the address at which exactly this file was uploaded, one choice for each cleaned choice of
  the form, an empty running hash and no result.
\<close>

lemma submitted_poll_lands:
  assumes "hash_law (ce_P V)" "cp_err (onSubmit V s) = None"
    and l: "parseUploadedCensus bytes = Inr leaves" "getMerkleRoot (ce_P V) CENSUS_DEPTH leaves = Inr root"
      "cp_form s = set_census bytes leaves root d"
    and "ce_sdk V = cx_sdk X" "exec_tx X (last (cp_txs (onSubmit V s))) ch = Inr ch'"
  shows "\<exists>urls a p. turboBatchUpload (ce_upload V) (ce_devnet V)
      [\<lparr>td_data = ce_json V (description (cp_form s)), td_contentType = ''application/json''\<rparr>,
       \<lparr>td_data = bytes, td_contentType = ''application/octet-stream''\<rparr>] = Inr urls \<and>
    poll_at ch a = None \<and> poll_at ch' a = Some p \<and> a = pda X (poll_seeds (pl_id p)) \<and>
    pl_censusRoot p = toBytesBE32 root \<and> pl_censusUrl p = urls ! 1 \<and> pl_descriptionUrl p = urls ! 0 \<and>
    unat (pl_nChoices p) = length (cleanedChoices (cp_form s)) \<and> 0 < unat (pl_nChoices p) \<and>
    pl_cumulative p = zero32 \<and> pl_tally p = [] \<and> pl_start p < pl_end p"
proof -
  obtain payer bytes' urls tx where s: "pf_censusBytes (cp_form s) = Some bytes'"
      "turboBatchUpload (ce_upload V) (ce_devnet V)
        [\<lparr>td_data = ce_json V (description (cp_form s)), td_contentType = ''application/json''\<rparr>,
         \<lparr>td_data = bytes', td_contentType = ''application/octet-stream''\<rparr>] = Inr urls"
      "create_tx V payer (cp_form s) (urls ! 0) (urls ! 1) = Inr tx"
      "cp_txs (onSubmit V s) = cp_txs s @ [tx]"
    using submit_ok [OF assms(2)] by blast
  have b: "bytes' = bytes" using s(1) l(3) by (simp add: set_census_def)
  have "hexToBytes32 (pf_censusRootHex (cp_form s)) = Inr (toBytesBE32 root)"
    using hex_field_roundtrip root_field [OF assms(1) l(2)] by (simp add: l(3) set_census_def)
  then obtain p ix where p: "createPoll (cx_sdk X) p = Inr ix" "po_censusRoot p = toBytesBE32 root"
      "po_censusUrl p = urls ! 1" "po_descriptionUrl p = urls ! 0"
      "po_nChoices p = int (length (cleanedChoices (cp_form s)))"
      "tx_ixs tx = [cuLimitInstruction [ix], Call (iwc_instruction ix)]"
    using s(3) assms(6) by (auto simp: create_tx_def rbind_eq_Inr split: option.splits)
  have m: "ix_program (iwc_instruction ix) = se_moot (cx_sdk X)"
    using p(1) by (auto simp: createPoll_def rbind_eq_Inr moot_ix_def)
  have "exec_moot X (tx_feePayer tx # tx_signers tx) (iwc_instruction ix) ch = Inr ch'"
    using assms(7) by (simp add: s(4) exec_tx_def p(6) cuLimitInstruction_def exec_method m obind_ok)
  from exec_create_poll_creates [OF p(1) this] obtain a f poll where c: "creates_poll X poll a f ch ch'"
      "cr_censusRoot a = toBytesBE32 root" "cr_censusUrl a = urls ! 1" "cr_descriptionUrl a = urls ! 0"
      "uint (cr_nChoices a) = po_nChoices p"
    using p(2-4) by metis
  have n: "unat (cr_nChoices a) = length (cleanedChoices (cp_form s))" "0 < unat (cr_nChoices a)"
    using c(1,5) p(5) by (simp_all add: unat_eq_nat_uint creates_poll_def word_less_def)
  show ?thesis
    using s(2) c(1-4) n unfolding b
    by (intro exI [of _ urls] exI [of _ poll] exI [of _ "new_poll a f"])
      (auto simp: creates_poll_def new_poll_def poll_at_None word_gt_0)
qed

text \<open>A page that creates a poll with one choice and one voter, on the small ledger.\<close>

definition page_params :: "point \<Rightarrow> u256 \<Rightarrow> create_poll_params" where
  "page_params k r = \<lparr>po_payer = [1], po_id = 4, po_nChoices = 1, po_descriptionUrl = ''https://arweave.net/application/json'',
     po_censusUrl = ''https://arweave.net/application/octet-stream'',
     po_tallierKey = k, po_censusRoot = r, po_votingStartTime = 3064, po_votingEndTime = 4504, po_fee = 5,
     po_feeDestination = [1], po_nVoters = 1\<rparr>"

definition page_ledger :: "chain outcome" where
  "page_ledger = obind small_init (\<lambda>c. Inr (set_lam [1] 1000000 c))"

lemma page_tx:
  assumes "0 \<le> l" "l < FP"
  shows "\<exists>s k r ix. onCensusFile create_env0 (toBytesBE32 l) (create0 TActive) = (Inr (), s) \<and>
    cp_err (onSubmit create_env0 s) = None \<and> createPoll demo_env (page_params k r) = Inr ix \<and>
    tx_feePayer (last (cp_txs (onSubmit create_env0 s))) = [1] \<and>
    tx_signers (last (cp_txs (onSubmit create_env0 s))) = [] \<and>
    tx_ixs (last (cp_txs (onSubmit create_env0 s))) = [cuLimitInstruction [ix], Call (iwc_instruction ix)]"
proof -
  let ?V = create_env0
  obtain s where s: "onCensusFile ?V (toBytesBE32 l) (create0 TActive) = (Inr (), s)" "cp_err (onSubmit ?V s) = None"
    using create0_runs [OF assms] by blast
  obtain leaves root where f: "parseUploadedCensus (toBytesBE32 l) = Inr leaves"
      "cp_form s = set_census (toBytesBE32 l) leaves root (form0 TActive)"
    using s(1) by (auto simp: onCensusFile_def proc_ok create0_def)
  have "leaves = [l]" using f(1) parse_census_concat [of "[l]"] assms by simp
  obtain payer bytes urls tx where t: "ce_wallet ?V = Some payer" "pf_censusBytes (cp_form s) = Some bytes"
      "turboBatchUpload (ce_upload ?V) (ce_devnet ?V)
        [\<lparr>td_data = ce_json ?V (description (cp_form s)), td_contentType = ''application/json''\<rparr>,
         \<lparr>td_data = bytes, td_contentType = ''application/octet-stream''\<rparr>] = Inr urls"
      "create_tx ?V payer (cp_form s) (urls ! 0) (urls ! 1) = Inr tx" "cp_txs (onSubmit ?V s) = cp_txs s @ [tx]"
    using submit_ok [OF s(2)] by blast
  have "bytes = toBytesBE32 l" using t(2) f(2) by (simp add: set_census_def)
  then have "length bytes = 32" by (simp add: be32.enc_length)
  then have "urls = [''https://arweave.net/'' @ ''application/json'', ''https://arweave.net/'' @ ''application/octet-stream'']"
    using t(3) by (simp add: turboBatchUpload_def FREE_LIMIT_def create_env0_def Let_def)
  moreover have ch: "cleanedChoices (cp_form s) = [''a'']"
    unfolding f(2) by code_simp
  ultimately have "create_tx ?V [1] (cp_form s) ''https://arweave.net/application/json''
      ''https://arweave.net/application/octet-stream'' = Inr tx" "ce_sdk ?V = demo_env"
    using t(1,4) by (simp_all add: create_env0_def)
  moreover have "randomScalar (ce_idRandom ?V) (2 ^ 32) = Inr 4" by code_simp
  moreover have "pf_start (cp_form s) = ''2025-01-02T03:04''" "pf_end (cp_form s) = ''2025-01-03T03:04''"
      "pf_feeLamports (cp_form s) = ''5''" "pf_censusCount (cp_form s) = Some 1"
    using f(2) \<open>leaves = [l]\<close> by (simp_all add: set_census_def form0_def)
  ultimately show ?thesis
    using s t(5) create0_dates ch
    by (clarsimp simp: create_tx_def rbind_eq_Inr bn_of_def) (unfold page_params_def, blast)
qed

lemma page_exec: "(case page_ledger of Inl _ \<Rightarrow> False | Inr ch \<Rightarrow>
   (case createPoll demo_env (page_params k r) of Inl _ \<Rightarrow> False | Inr ix \<Rightarrow>
   (case exec_ixs small_env [[1]] [cuLimitInstruction [ix], Call (iwc_instruction ix)] ch of
      Inl _ \<Rightarrow> False | Inr ch' \<Rightarrow> True)))"
  by code_simp

lemma page_runs: "\<exists>s ch ch'. onCensusFile create_env0 (toBytesBE32 7) (create0 TActive) = (Inr (), s) \<and>
  cp_err (onSubmit create_env0 s) = None \<and> exec_tx small_env (last (cp_txs (onSubmit create_env0 s))) ch = Inr ch'"
proof -
  have l: "(0 :: int) \<le> 7" "(7 :: int) < FP" by (simp_all add: FP_def)
  obtain s k r ix where s: "onCensusFile create_env0 (toBytesBE32 7) (create0 TActive) = (Inr (), s)"
      "cp_err (onSubmit create_env0 s) = None" "createPoll demo_env (page_params k r) = Inr ix"
      "tx_feePayer (last (cp_txs (onSubmit create_env0 s))) = [1]"
      "tx_ixs (last (cp_txs (onSubmit create_env0 s))) = [cuLimitInstruction [ix], Call (iwc_instruction ix)]"
      "tx_signers (last (cp_txs (onSubmit create_env0 s))) = []"
    using page_tx [OF l] by blast
  obtain ch ch' where e: "exec_ixs small_env [[1]] [cuLimitInstruction [ix], Call (iwc_instruction ix)] ch = Inr ch'"
    using page_exec [of k r] s(3) by (auto split: sum.splits)
  have "exec_tx small_env (last (cp_txs (onSubmit create_env0 s))) ch = Inr ch'"
    unfolding exec_tx_def s(4,5,6) by (rule e)
  then show ?thesis using s(1,2) by blast
qed

end
