(* ===== verification/TallyOnChain.thy ===== *)
theory TallyOnChain
  imports SdkOnChain TallyPanelCorrect
begin

text \<open>
  The tally panel against the program: the transaction of a batch leaves the tally account
  committed to the saved progress, and when every vote of the poll has been counted, the
  transaction of \<open>Finish\<close> is executed and puts the result of the election on the chain.
\<close>

section \<open>Encodings\<close>

text \<open>The two Poseidons, \<open>circomlibjs\<close> in the browser and the system call on the chain, agree.\<close>

definition poseidon_law :: "chain_env \<Rightarrow> hash \<Rightarrow> bool" where
  "poseidon_law X P \<longleftrightarrow> (\<forall>xs. xs \<noteq> [] \<longrightarrow> length xs \<le> 12 \<longrightarrow> (\<forall>x \<in> set xs. 0 \<le> x \<and> x < FP) \<longrightarrow>
     cx_hashv X (map toBytesBE32 xs) = Some (toBytesBE32 (P xs)))"

lemma be_digits_zero [simp]: "be_digits b k 0 = replicate k 0"
  by (induction k) (simp_all add: replicate_append_same)

lemma be_digits_small:
  "0 \<le> n \<Longrightarrow> n < b ^ k \<Longrightarrow> 0 < b \<Longrightarrow> be_digits b (j + k) n = replicate j 0 @ be_digits b k n"
proof (induction k arbitrary: n)
  case 0
  then have "n = 0" by simp
  then show ?case by simp
next
  case (Suc k)
  then have "n div b < b ^ k" by (intro int_div_less_pow) simp_all
  with Suc show ?case by (simp add: pos_imp_zdiv_nonneg_iff)
qed

lemma u64_be: "u64_to_u256_be w = toBytesBE32 (uint w)"
proof -
  have b: "uint w < 256 ^ 8" using uint_lt2p [of w] by simp
  have "256 ^ 8 < FP" by (simp add: FP_def)
  then have "uint w mod FP = uint w" using b by (simp add: mod_pos_pos_trivial)
  moreover have "be_digits 256 32 (uint w) = replicate 24 0 @ be_digits 256 8 (uint w)"
    using be_digits_small [of "uint w" 256 8 24] b by simp
  ultimately show ?thesis
    by (simp add: u64_to_u256_be_def le64_def le_bytes_def toBytesBE32_def toBytesBE32Buf_digits rev_map)
qed

lemma zero32_be: "zero32 = toBytesBE32 0"
  using u64_be [of 0] by (simp add: u64_to_u256_be_def le64_def le_bytes_def zero32_def) code_simp

lemma hex_field_value: "0 \<le> n \<Longrightarrow> n < FP \<Longrightarrow> hex_field (toHex32 n) = Inr n"
  by (simp only: hex_field_def hex_toHex32_id)

section \<open>A batch\<close>

text \<open>The tally account of the wallet commits to the saved progress: counts with their salt,
  running hash, root.\<close>

definition tally_addr :: "chain_env \<Rightarrow> 'mt panel_env \<Rightarrow> pubkey \<Rightarrow> pubkey" where
  "tally_addr X V payer = pda X (tally_seeds (word_of_int (pa_pollId V)) payer)"

definition poll_addr :: "chain_env \<Rightarrow> 'mt panel_env \<Rightarrow> pubkey" where
  "poll_addr X V = pda X (poll_seeds (word_of_int (pa_pollId V)))"

definition in_sync :: "chain_env \<Rightarrow> 'mt panel_env \<Rightarrow> pubkey \<Rightarrow> tally_store \<Rightarrow> chain \<Rightarrow> bool" where
  "in_sync X V payer st ch \<longleftrightarrow> (\<exists>root H salt counts. to_rootHex st = toHex32 root \<and> 0 \<le> root \<and> root < FP \<and>
     to_runningMsgHashHex st = toHex32 H \<and> 0 \<le> H \<and> H < FP \<and> to_tallySaltHex st = toHex32 salt \<and> 0 \<le> salt \<and> salt < 2 ^ 64 \<and>
     to_tallyCounts st = map (to_string 10) counts \<and>
     ch_data ch (tally_addr X V payer) = Some (DTally
       \<lparr>ta_hash = toBytesBE32 (te_P (pa_tally V) (salt # fill_tally counts)),
        ta_cumulative = toBytesBE32 H, ta_root = toBytesBE32 root\<rparr>))"

text \<open>Public signals are decimal field elements.\<close>

definition prove_law :: "'mt panel_env \<Rightarrow> bool" where
  "prove_law V \<longleftrightarrow> (\<forall>inp pf sigs. pa_prove V inp = Inr (pf, sigs) \<longrightarrow>
     (\<forall>g \<in> set sigs. \<exists>n. bigint_of_string g = Inr n \<and> 0 \<le> n \<and> n < FP))"

text \<open>Roots are field elements, and the root of the empty tree is zero.\<close>

definition root_law :: "'mt panel_env \<Rightarrow> bool" where
  "root_law V \<longleftrightarrow> smt_root (te_smt (pa_tally V)) (smt_new (te_smt (pa_tally V))) = 0 \<and> (\<forall>t. 0 \<le> smt_root (te_smt (pa_tally V)) t \<and> smt_root (te_smt (pa_tally V)) t < FP)"

text \<open>The SDK and the addresses of the program.\<close>

definition sdk_law :: "chain_env \<Rightarrow> 'mt panel_env \<Rightarrow> bool" where
  "sdk_law X V \<longleftrightarrow> pa_sdk V = cx_sdk X \<and> le8_law (se_le8 (cx_sdk X)) \<and> 0 \<le> pa_pollId V \<and> pa_pollId V < 2 ^ 64"

lemma exec_tallyBatch:
  assumes "sdk_law X V" "tallyBatch (pa_sdk V) (pa_pollId V) payer pr r c h = Inr ix"
  shows "exec_ix X S (Call (iwc_instruction ix)) ch = do_tally_batch X (tally_addr X V payer) pr r c h ch"
proof -
  have "iwc_instruction ix = \<lparr>ix_program = se_moot (cx_sdk X), ix_method = ''tallyBatch'',
      ix_args = [ProofArg pr, BytesArg r, BytesArg c, BytesArg h],
      ix_accounts = [(''tally'', tally_addr X V payer)], ix_remaining = []\<rparr>"
    using assms findTally_pda [of X "pa_pollId V" payer]
    by (auto simp: sdk_law_def tallyBatch_def rbind_eq_Inr moot_ix_def tally_addr_def)
  then show ?thesis by (simp add: exec_method exec_moot_def exec_tally_batch_def acc_def obind_def)
qed

lemma tally_batch_data:
  "do_tally_batch X tally pr r c h ch = Inr ch' \<Longrightarrow>
   ch_data ch' tally = Some (DTally \<lparr>ta_hash = h, ta_cumulative = c, ta_root = r\<rparr>)"
  by (auto simp: do_tally_batch_def outcome_simps)

lemma batch_tx_exec:
  assumes "sdk_law X V" "batch_tx V store payer c pf H = Inr tx" "exec_tx X tx ch = Inr ch'"
  shows "ch_data ch' (tally_addr X V payer) = Some (DTally \<lparr>ta_hash = toBytesBE32 (cn_tallyHashNew c),
    ta_cumulative = toBytesBE32 H, ta_root = toBytesBE32 (cn_rootNew c)\<rparr>)"
proof -
  obtain pr ix where b: "tallyBatch (pa_sdk V) (pa_pollId V) payer pr (toBytesBE32 (cn_rootNew c))
      (toBytesBE32 H) (toBytesBE32 (cn_tallyHashNew c)) = Inr ix"
      "last (tx_ixs tx) = Call (iwc_instruction ix)" "tx_ixs tx \<noteq> []"
    using assms(2) by (auto simp: batch_tx_def wallet_tx_def Let_def rbind_eq_Inr)
  then have l: "tx_ixs tx = butlast (tx_ixs tx) @ [Call (iwc_instruction ix)]"
    using append_butlast_last_id by metis
  obtain ch1 where "exec_ix X (tx_feePayer tx # tx_signers tx) (Call (iwc_instruction ix)) ch1 = Inr ch'"
    using assms(3) unfolding exec_tx_def by (subst (asm) l) (auto simp: exec_ixs_append obind_ok)
  then show ?thesis by (intro tally_batch_data) (simp add: exec_tallyBatch [OF assms(1) b(1)])
qed

lemma salt_range: "0 \<le> bytes_to_big bs \<and> bytes_to_big bs < 256 ^ length bs"
proof -
  have "digits_ok 256 (map uint bs)" by (auto simp: digits_ok_def byte_range)
  then show ?thesis
    unfolding bytes_to_big_val using be_val_range [of 256 "map uint bs"] by simp
qed

lemma next_in_sync:
  assumes "sdk_law X V" "root_law V" "length (pa_salt V) = 8" "count_batch V store sk batch = Inr c"
    and "next_store V store batch c H = Inr ns" "0 \<le> H" "H < FP"
    and "batch_tx V store payer c pf H = Inr tx" "exec_tx X tx ch = Inr ch'"
  shows "in_sync X V payer ns ch'"
proof -
  have ns: "to_rootHex ns = toHex32 (cn_rootNew c)" "to_runningMsgHashHex ns = toHex32 H"
      "to_tallySaltHex ns = toHex32 (cn_saltNew c)" "to_tallyCounts ns = map (to_string 10) (ts_counts (cn_st c))"
    using assms(5) by (auto simp: next_store_def rbind_eq_Inr)
  have c: "cn_saltNew c = bytes_to_big (pa_salt V)"
      "cn_tallyHashNew c = te_P (pa_tally V) (cn_saltNew c # fill_tally (ts_counts (cn_st c)))"
      "cn_rootNew c = smt_root (te_smt (pa_tally V)) (ts_mt (cn_st c))"
    using assms(4) by (auto simp: count_batch_def Let_def rbind_eq_Inr)
  have "0 \<le> cn_saltNew c" "cn_saltNew c < 2 ^ 64" "0 \<le> cn_rootNew c" "cn_rootNew c < FP"
    using salt_range [of "pa_salt V"] assms(2,3) c(1,3) by (simp_all add: root_law_def)
  then show ?thesis
    using ns batch_tx_exec [OF assms(1,8,9)] c(2) assms(6,7) unfolding in_sync_def
    by (intro exI [of _ "cn_rootNew c"] exI [of _ H] exI [of _ "cn_saltNew c"]
        exI [of _ "ts_counts (cn_st c)"]) simp
qed

text \<open>
  C11: when a click on \<open>Tally next\<close> ends without an error and its transaction is executed, the
  tally account of the wallet commits to the progress just saved: the hash of its salt and
  counts, its running hash and its root.
\<close>

theorem tally_next_syncs_chain:
  assumes "sdk_law X V" "prove_law V" "root_law V" "pa_wallet V = Some payer" "length (pa_salt V) = 8"
    and "\<not> pn_busy s" "pn_err (onTallyNext V s) = None"
    and "exec_tx X (last (pn_sent (onTallyNext V s))) ch = Inr ch'"
  shows "\<exists>st. pn_store (onTallyNext V s) = Some st \<and> in_sync X V payer st ch'"
proof -
  obtain u where u: "tally_body V s = (Inr (), u)" "onTallyNext V s = u\<lparr>pn_busy := False\<rparr>"
    using onTallyNext_ok [OF assms(6,7)] by blast
  obtain kp :: keypair and batch c pf H tx ns where r: "count_batch V (pn_store s) (kp_sk kp) batch = Inr c"
      "batch_tx V (pn_store s) payer c pf H = Inr tx" "next_store V (pn_store s) batch c H = Inr ns"
      "u = final_panel s batch ns tx" "prove_batch V c = Inr (pf, H)"
    using tally_body_ok [OF u(1) assms(6)] unfolding assms(4) option.inject by blast
  obtain sigs where "pa_prove V (cn_inputs c) = Inr (pf, sigs)" "bigint_opt (at sigs 2) = Inr H"
    using r(5) by (auto simp: prove_batch_def rbind_eq_Inr split: if_splits)
  moreover from this obtain g where "g \<in> set sigs" "bigint_of_string g = Inr H"
    by (auto simp: bigint_opt_def at_def split: if_splits intro: that [OF nth_mem])
  ultimately have H: "0 \<le> H" "H < FP" using assms(2) unfolding prove_law_def by fastforce+
  have "exec_tx X tx ch = Inr ch'" using assms(8) by (simp add: u(2) r(4) final_panel_def)
  from next_in_sync [OF assms(1,3,5) r(1,3) H r(2) this] show ?thesis
    by (simp add: u(2) r(4) final_panel_def)
qed

section \<open>Finishing\<close>

text \<open>The running hash of a list of message hashes, in the browser and on the chain.\<close>

definition running_hash :: "hash \<Rightarrow> int list \<Rightarrow> int" where
  "running_hash P hs = foldl (\<lambda>h m. P [h, m]) 0 hs"

lemma running_hash_range: "hash_law P \<Longrightarrow> 0 \<le> running_hash P hs \<and> running_hash P hs < FP"
  by (cases hs rule: rev_cases) (auto simp: running_hash_def hash_law_def FP_def)

lemma chain_hash_running:
  assumes "poseidon_law X P" "hash_law P" "\<forall>h \<in> set hs. 0 \<le> h \<and> h < FP"
  shows "chain_hash X (map toBytesBE32 hs) = Some (toBytesBE32 (running_hash P hs))"
  using assms(3)
proof (induction hs rule: rev_induct)
  case Nil
  then show ?case by (simp add: chain_hash_def running_hash_def zero32_be)
next
  case (snoc h hs)
  have "cx_hashv X (map toBytesBE32 [running_hash P hs, h]) = Some (toBytesBE32 (P [running_hash P hs, h]))"
    using assms(1) running_hash_range [OF assms(2), of hs] snoc.prems unfolding poseidon_law_def
    by (auto simp del: list.map)
  moreover have "running_hash P (hs @ [h]) = P [running_hash P hs, h]" by (simp add: running_hash_def)
  ultimately show ?case using snoc by (simp add: chain_hash_snoc)
qed

lemma fill_tally_pad:
  "length counts \<le> MAX_CHOICES \<Longrightarrow> fill_tally counts = counts @ replicate (MAX_CHOICES - length counts) 0"
  by (rule nth_equalityI) (auto simp: fill_tally_def nth_append at_def)

lemma tally_preimage_be:
  assumes "length counts = unat n" "length counts \<le> MAX_CHOICES"
    and "\<forall>c \<in> set counts. 0 \<le> c \<and> c < 2 ^ 64" "0 \<le> salt" "salt < 2 ^ 64"
  shows "tally_preimage n (map word_of_int counts) (word_of_int salt) =
    Inr (map toBytesBE32 (salt # fill_tally counts))"
proof -
  have "map u64_to_u256_be (map word_of_int counts) = map toBytesBE32 counts"
    using assms(3) by (auto simp: u64_be uint_u64)
  moreover have "PROGRAM_MAX_CHOICES = MAX_CHOICES" by (simp add: PROGRAM_MAX_CHOICES_def MAX_CHOICES_def)
  ultimately show ?thesis
    using assms fill_tally_pad [OF assms(2)]
    by (simp add: tally_preimage_def u64_be uint_u64 zero32_be)
qed

lemma u64_args_ok: "\<forall>c \<in> set cs. 0 \<le> c \<and> c < 2 ^ 64 \<Longrightarrow> u64_args cs = Inr (map word_of_int cs)"
  by (induction cs) (simp_all add: u64_arg_ok)

lemma tally_of_bound: "c \<in> set (tally_of n leaves) \<Longrightarrow> 0 \<le> c \<and> c \<le> int (length leaves)"
  by (auto simp: tally_of_def)

lemma exec_finishTally:
  assumes "sdk_law X V" "finishTally (pa_sdk V) (pa_pollId V) payer counts salt = Inr ix"
    and "\<forall>c \<in> set counts. 0 \<le> c \<and> c < 2 ^ 64" "0 \<le> salt" "salt < 2 ^ 64"
  shows "exec_ix X S (Call (iwc_instruction ix)) ch =
    do_finish_tally X payer (tally_addr X V payer) (poll_addr X V) (map word_of_int counts) (word_of_int salt) ch"
proof -
  have "iwc_instruction ix = \<lparr>ix_program = se_moot (cx_sdk X), ix_method = ''finishTally'',
      ix_args = [BNListArg counts, BNArg salt],
      ix_accounts = [(''payer'', payer), (''tally'', tally_addr X V payer), (''poll'', poll_addr X V)],
      ix_remaining = []\<rparr>"
    using assms(1,2) findTally_pda [of X "pa_pollId V" payer] findPoll_pda [of X "pa_pollId V"]
    by (auto simp: sdk_law_def finishTally_def rbind_eq_Inr moot_ix_def tally_addr_def poll_addr_def toBN_def map_idI)
  then show ?thesis
    using assms(3-5) by (simp add: exec_method exec_moot_def exec_finish_tally_def acc_def u64_args_ok u64_arg_ok)
qed

text \<open>The saved progress counted the messages \<open>hs\<close>, in this order.\<close>

definition counted :: "hash \<Rightarrow> tally_store \<Rightarrow> int list \<Rightarrow> bool" where
  "counted P st hs \<longleftrightarrow> (\<forall>h \<in> set hs. 0 \<le> h \<and> h < FP) \<and> to_runningMsgHashHex st = toHex32 (running_hash P hs)"

lemma finish_run:
  assumes "\<not> pn_busy s" "pa_wallet V = Some payer" "finish_ixs V (pn_store s) payer = Inr [ix]"
    and "pa_blockhash V = Inr bh" "\<And>tx. pa_send V tx = Inr ()"
  shows "\<exists>tx. pn_sent (onFinishTally V s) = pn_sent s @ [tx] \<and> tx_ixs tx = [Call (iwc_instruction ix)] \<and>
    pn_err (onFinishTally V s) = None"
  using assms by (simp add: onFinishTally_def attempt_def finish_body_def proc_simps begin_flow_def set_stage_def
      send_tx_def wallet_tx_def end_busy_def seq_def bind_def need_def)

theorem finish_publishes_result:
  assumes laws: "sdk_law X V" "poseidon_law X (te_P (pa_tally V))" "hash_law (te_P (pa_tally V))"
    and panel: "pn_store s = Some st" "\<not> pn_busy s" "pa_wallet V = Some payer" "pa_blockhash V = Inr bh"
      "\<And>tx. pa_send V tx = Inr ()" "store_inv (pa_tally V) \<alpha> (pa_nChoices V) (Some st)"
      "int (length (to_leaves st)) < 2 ^ 64"
    and chain: "genesis ch0" "(chain_step X)\<^sup>*\<^sup>* ch0 ch" "poll_at ch (poll_addr X V) = Some p"
      "pl_end p < ch_now ch" "unat (pl_nChoices p) = pa_nChoices V" "pa_nChoices V \<le> MAX_CHOICES"
    and sync: "in_sync X V payer st ch" "counted (te_P (pa_tally V)) st hs"
      "msgs_of (pl_id p) (ch_events ch) = map toBytesBE32 hs"
    and money: "tally_addr X V payer \<noteq> payer"
      "uint (ch_lam ch payer) + uint (ch_lam ch (tally_addr X V payer)) < 2 ^ 64"
  shows "\<exists>tx ch'. pn_sent (onFinishTally V s) = pn_sent s @ [tx] \<and> pn_err (onFinishTally V s) = None \<and>
    exec_tx X tx ch = Inr ch' \<and> poll_at ch' (poll_addr X V) = Some (p\<lparr>pl_tally :=
      map word_of_int (result (pa_nChoices V) (board_of (to_leaves st)))\<rparr>)"
proof -
  let ?P = "te_P (pa_tally V)" and ?n = "pa_nChoices V"
  define counts where "counts = tally_of ?n (to_leaves st)"
  have res: "counts = result ?n (board_of (to_leaves st))"
    using panel(6) tally_of_result by (simp add: counts_def store_inv_def leaves_ok_def)
  have st: "to_tallyCounts st = map (to_string 10) counts"
    using panel(6) by (simp add: store_inv_def counts_def)
  have cb: "\<forall>c \<in> set counts. 0 \<le> c \<and> c < 2 ^ 64"
    using panel(7) tally_of_bound unfolding counts_def by (meson order_le_less_trans)
  have len: "length counts = unat (pl_nChoices p)" "length counts \<le> MAX_CHOICES"
    using chain(5,6) by (simp_all add: counts_def)
  obtain root H salt cs where y: "to_runningMsgHashHex st = toHex32 H" "0 \<le> H" "H < FP"
      "to_tallySaltHex st = toHex32 salt" "0 \<le> salt" "salt < 2 ^ 64" "to_tallyCounts st = map (to_string 10) cs"
      "ch_data ch (tally_addr X V payer) = Some (DTally \<lparr>ta_hash = toBytesBE32 (?P (salt # fill_tally cs)),
        ta_cumulative = toBytesBE32 H, ta_root = toBytesBE32 root\<rparr>)"
    using sync(1) by (auto simp: in_sync_def)
  have cs: "cs = counts" using st y(7) mapM_numerals by (metis sum.inject(2))
  have H: "H = running_hash ?P hs"
    using sync(2) toHex32_inj [of H "running_hash ?P hs"] y(2,3) y(1) running_hash_range [OF laws(3), of hs]
    by (simp add: counted_def)
  have "chain_hash X (map toBytesBE32 hs) = Some (pl_cumulative p)"
    using reach_poll_ok [OF chain(2,1,3)] sync(3) by (simp add: poll_ok_def)
  then have cum: "pl_cumulative p = toBytesBE32 H"
    using chain_hash_running [OF laws(2,3), of hs] sync(2) H by (simp add: counted_def)
  have sFP: "salt < FP" using y(6) by (simp add: FP_def)
  have f: "fill_tally counts = counts @ replicate (MAX_CHOICES - length counts) 0"
    using fill_tally_pad [OF len(2)] .
  let ?t = "\<lparr>ta_hash = toBytesBE32 (?P (salt # fill_tally counts)), ta_cumulative = toBytesBE32 H,
    ta_root = toBytesBE32 root\<rparr>"
  have hash: "cx_hashv X (map toBytesBE32 (salt # fill_tally counts)) = Some (ta_hash ?t)"
  proof -
    have "\<forall>x \<in> set (salt # fill_tally counts). 0 \<le> x \<and> x < FP"
      using cb y(5,6) by (force simp: f FP_def)
    moreover have "length (salt # fill_tally counts) \<le> 12" by (simp add: fill_tally_def MAX_CHOICES_def)
    ultimately show ?thesis using laws(2) unfolding poseidon_law_def by (auto simp del: list.map)
  qed
  have len2: "length (map word_of_int counts :: u64 list) = unat (pl_nChoices p)" using len(1) by simp
  have cum2: "ta_cumulative ?t = pl_cumulative p" by (simp add: cum)
  obtain ch' where ch': "do_finish_tally X payer (tally_addr X V payer) (poll_addr X V)
      (map word_of_int counts) (word_of_int salt) ch = Inr ch'"
      "poll_at ch' (poll_addr X V) = Some (p\<lparr>pl_tally := map word_of_int counts\<rparr>)"
    using finish_ok [OF y(8) [unfolded cs] chain(3,4) len2 cum2 tally_preimage_be [OF len cb y(5,6)] hash money]
    by blast
  obtain ix where ix: "finishTally (pa_sdk V) (pa_pollId V) payer counts salt = Inr ix"
    using laws(1) findTally_pda [of X "pa_pollId V" payer] findPoll_pda [of X "pa_pollId V"]
    by (auto simp: sdk_law_def finishTally_def)
  have "hex_field (to_tallySaltHex st) = Inr salt" using hex_field_value [OF y(5) sFP] y(4) by simp
  then have "finish_ixs V (pn_store s) payer = Inr [ix]"
    using ix st by (simp add: finish_ixs_def final_counts_def panel(1) mapM_numerals)
  from finish_run [OF panel(2,3) this panel(4,5)] obtain tx where tx: "pn_sent (onFinishTally V s) = pn_sent s @ [tx]"
      "tx_ixs tx = [Call (iwc_instruction ix)]" "pn_err (onFinishTally V s) = None" by blast
  have "exec_tx X tx ch = Inr ch'"
    using exec_finishTally [OF laws(1) ix cb y(5,6)] ch'(1) by (simp add: exec_tx_def tx(2) obind_def)
  then show ?thesis using tx ch'(2) res by blast
qed

section \<open>An instance\<close>

text \<open>The hash that is constantly zero, on both sides; the small ledger under it, with one vote,
  after the end of the poll, and with a tally account.\<close>

definition zero_x :: chain_env where
  "zero_x = small_env\<lparr>cx_hashv := (\<lambda>_. Some zero32)\<rparr>"

definition zero_voted :: "chain outcome" where
  "zero_voted =
     obind (do_initialize zero_x (small_key 1) small_cfg (small_key 1) 2 (small_key 3) small_start) (\<lambda>ch.
     obind (relayer_do_initialize zero_x (small_key 1) small_rcfg ''http'' (small_key 4) (small_key 1) 6 ch) (\<lambda>ch.
     obind (do_create_poll zero_x (small_key 1) small_cfg small_poll small_rcfg small_state small_args ch)
       (do_vote zero_x (small_key 1) (small_key 2) small_cfg small_poll (small_key 3) small_ballot)))"

definition zero_tallied :: "chain outcome" where
  "zero_tallied = obind zero_voted
     (\<lambda>ch. do_create_tally zero_x (small_key 1) small_tally 5 zero32 (at_time 101 ch))"

lemma zero_steps:
  assumes "zero_tallied = Inr ch" shows "(chain_step zero_x)\<^sup>*\<^sup>* small_start ch"
proof -
  obtain c where c: "zero_voted = Inr c" "do_create_tally zero_x (small_key 1) small_tally 5 zero32 (at_time 101 c) = Inr ch"
    using assms unfolding zero_tallied_def obind_ok by blast
  obtain c1 c2 c3 where s: "chain_step zero_x small_start c1" "chain_step zero_x c1 c2"
      "chain_step zero_x c2 c3" "chain_step zero_x c3 c"
    using c(1) cs_initialize cs_relayer_init cs_create cs_vote unfolding zero_voted_def obind_ok by metis
  have "(case zero_voted of Inl _ \<Rightarrow> False | Inr c \<Rightarrow> ch_now c = 50)" by code_simp
  then have "ch_now c = 50" unfolding c(1) by simp
  then have "ch_now c \<le> 101" by simp
  then have "chain_step zero_x c (at_time 101 c)" unfolding at_time_def by (rule cs_time)
  moreover have "chain_step zero_x (at_time 101 c) ch" using c(2) by (rule cs_create_tally)
  moreover have "(chain_step zero_x)\<^sup>*\<^sup>* small_start c2"
    using s(1,2) by (blast intro: rtranclp.rtrancl_into_rtrancl)
  then have "(chain_step zero_x)\<^sup>*\<^sup>* small_start c"
    using s(3,4) by (blast intro: rtranclp.rtrancl_into_rtrancl)
  ultimately show ?thesis by (blast intro: rtranclp.rtrancl_into_rtrancl)
qed

lemma zero_facts: "(case zero_tallied of Inl _ \<Rightarrow> False | Inr c \<Rightarrow>
     map_option (\<lambda>p. (pl_end p, pl_nChoices p, pl_id p)) (poll_at c small_poll) = Some (100, 2, 5) \<and> ch_now c = 101 \<and>
     msgs_of 5 (ch_events c) = [zero32] \<and> uint (ch_lam c (small_key 1)) + uint (ch_lam c small_tally) < 2 ^ 64 \<and>
     (case ch_data c small_tally of Some (DTally t) \<Rightarrow> ta_hash t = zero32 \<and> ta_cumulative t = zero32 \<and> ta_root t = zero32
      | _ \<Rightarrow> False))"
  by code_simp

lemma zero_laws:
  "sdk_law zero_x (zero_panel_env w)" "prove_law (zero_panel_env w)" "root_law (zero_panel_env w)"
  "poseidon_law zero_x (te_P (pa_tally (zero_panel_env w)))" "hash_law (te_P (pa_tally (zero_panel_env w)))"
proof -
  show "sdk_law zero_x (zero_panel_env w)"
    by (simp add: sdk_law_def zero_x_def small_env_def zero_panel_env_def demo_env_def le8_law_def)
  show "prove_law (zero_panel_env w)"
    by (auto simp: prove_law_def zero_panel_env_def numeral_zero FP_def)
  show "root_law (zero_panel_env w)"
    by (simp add: root_law_def zero_panel_env_def zero_env_def plain_env_def map_smt_def FP_def)
  show "poseidon_law zero_x (te_P (pa_tally (zero_panel_env w)))"
    by (simp add: poseidon_law_def zero_x_def zero_panel_env_def zero_env_def zero32_be)
  show "hash_law (te_P (pa_tally (zero_panel_env w)))"
    using zero_env_law by (simp add: zero_panel_env_def)
qed

lemma zero_addr:
  "tally_addr zero_x (zero_panel_env w) (small_key 1) = small_tally"
  "poll_addr zero_x (zero_panel_env w) = small_poll"
  by (simp_all add: tally_addr_def poll_addr_def small_tally_def small_poll_def zero_panel_env_def pda_def
      zero_x_def)

theorem finish_publishes_result_witness:
  "\<exists>ch p tx ch'. zero_tallied = Inr ch \<and> poll_at ch small_poll = Some p \<and>
     exec_tx zero_x tx ch = Inr ch' \<and> poll_at ch' small_poll = Some (p\<lparr>pl_tally := [1, 0]\<rparr>)"
proof -
  let ?V = "zero_panel_env (Some (small_key 1))" and ?s = "zero_panel\<lparr>pn_store := Some zero_store\<rparr>"
  obtain ch and p :: poll_account and t where c: "zero_tallied = Inr ch" "poll_at ch small_poll = Some p" "pl_end p = 100"
      "pl_nChoices p = 2" "pl_id p = 5" "ch_now ch = 101" "msgs_of 5 (ch_events ch) = [zero32]"
      "uint (ch_lam ch (small_key 1)) + uint (ch_lam ch small_tally) < 2 ^ 64"
      "ch_data ch small_tally = Some (DTally t)" "ta_hash t = zero32" "ta_cumulative t = zero32" "ta_root t = zero32"
    using zero_facts by (auto split: sum.splits option.splits account_data.splits)
  have t: "t = \<lparr>ta_hash = zero32, ta_cumulative = zero32, ta_root = zero32\<rparr>" using c(10-12) by simp
  have st: "to_rootHex zero_store = toHex32 0" "to_runningMsgHashHex zero_store = toHex32 0"
      "to_tallySaltHex zero_store = toHex32 258" "to_tallyCounts zero_store = map (to_string 10) [1, 0]"
      "length (to_leaves zero_store) = 1"
    by (simp_all add: zero_store_def)
  have P: "te_P (pa_tally ?V) = (\<lambda>_. 0)" by (simp add: zero_panel_env_def zero_env_def)
  have sync: "in_sync zero_x ?V (small_key 1) zero_store ch"
    unfolding in_sync_def zero_addr st(1-4) P using c(9) unfolding t
    by (intro exI [of _ 0] exI [of _ 258] exI [of _ "[1, 0]"]) (simp add: zero32_be FP_def)
  have cnt: "counted (te_P (pa_tally ?V)) zero_store [0]"
    by (simp add: counted_def running_hash_def P st FP_def)
  have inv: "store_inv (pa_tally ?V) (\<lambda>t. t) (pa_nChoices ?V) (Some zero_store)"
    using zero_store_inv by (simp add: zero_panel_env_def)
  have ne: "small_tally \<noteq> small_key 1" by code_simp
  have panel: "pn_store ?s = Some zero_store" "\<not> pn_busy ?s" "pa_wallet ?V = Some (small_key 1)"
      "pa_blockhash ?V = Inr ''hash''" "\<And>tx. pa_send ?V tx = Inr ()" "int (length (to_leaves zero_store)) < 2 ^ 64"
    by (simp_all add: zero_panel_def zero_panel_env_def st)
  have poll: "poll_at ch (poll_addr zero_x ?V) = Some p" "pl_end p < ch_now ch"
      "unat (pl_nChoices p) = pa_nChoices ?V" "pa_nChoices ?V \<le> MAX_CHOICES"
      "msgs_of (pl_id p) (ch_events ch) = map toBytesBE32 [0]"
    unfolding zero_addr using c by (simp_all add: zero_panel_env_def MAX_CHOICES_def zero32_be)
  have "result 2 (board_of (to_leaves zero_store)) = [1, 0]"
    using tally_of_result [of "to_leaves zero_store" 2] by (simp add: zero_store_def tally_of_def upt_rec)
  then have r: "map word_of_int (result (pa_nChoices ?V) (board_of (to_leaves zero_store))) = [1, 0 :: u64]"
    by (simp add: zero_panel_env_def)
  have money: "tally_addr zero_x ?V (small_key 1) \<noteq> small_key 1"
      "uint (ch_lam ch (small_key 1)) + uint (ch_lam ch (tally_addr zero_x ?V (small_key 1))) < 2 ^ 64"
    unfolding zero_addr using ne c(8) by auto
  from finish_publishes_result [OF zero_laws(1,4,5) panel(1-5) inv panel(6) small_genesis zero_steps [OF c(1)]
      poll(1-4) sync cnt poll(5) money] c(1,2) show ?thesis
    unfolding zero_addr r by blast
qed

lemma zero_batch_exec: "(case zero_voted of Inl _ \<Rightarrow> False | Inr ch \<Rightarrow>
    (case createTally demo_env 5 (small_key 1) zero32 of Inl _ \<Rightarrow> False | Inr ix1 \<Rightarrow>
    (case tallyBatch demo_env 5 (small_key 1) pr zero32 zero32 zero32 of Inl _ \<Rightarrow> False | Inr ix2 \<Rightarrow>
    (case exec_ixs zero_x [small_key 1] [cuLimitInstruction [ix1, ix2], Call (iwc_instruction ix1),
         Call (iwc_instruction ix2)] ch of Inl _ \<Rightarrow> False | Inr ch' \<Rightarrow> True))))"
  by code_simp

theorem tally_next_syncs_chain_witness:
  "\<exists>ch ch' st. zero_voted = Inr ch \<and>
     exec_tx zero_x (last (pn_sent (onTallyNext (zero_panel_env (Some (small_key 1))) zero_panel))) ch = Inr ch' \<and>
     in_sync zero_x (zero_panel_env (Some (small_key 1))) (small_key 1) st ch'"
proof -
  let ?V = "zero_panel_env (Some (small_key 1))"
  obtain u where u: "tally_body ?V zero_panel = (Inr (), u)" "pn_err u = None" using zero_run by blast
  then have ok: "pn_err (onTallyNext ?V zero_panel) = None" and s: "\<not> pn_busy zero_panel"
      and sent: "pn_sent (onTallyNext ?V zero_panel) = pn_sent u"
    by (simp_all add: onTallyNext_def attempt_def end_busy_def zero_panel_def)
  obtain kp :: keypair and batch c pf H tx ns where r: "count_batch ?V (pn_store zero_panel) (kp_sk kp) batch = Inr c"
      "prove_batch ?V c = Inr (pf, H)" "batch_tx ?V (pn_store zero_panel) (small_key 1) c pf H = Inr tx"
      "u = final_panel zero_panel batch ns tx"
    using tally_body_ok [OF u(1) s] by (auto simp: zero_panel_env_def)
  have z: "cn_rootNew c = 0" "cn_tallyHashNew c = 0" "H = 0"
    using r(2) by (auto simp: prove_batch_def zero_panel_env_def bigint_opt_def at_def numeral_zero split: if_splits)
  have V: "pn_store zero_panel = None" "pa_sdk ?V = demo_env" "pa_pollId ?V = 5" "te_P (pa_tally ?V) = (\<lambda>_. 0)"
    by (simp_all add: zero_panel_def zero_panel_env_def zero_env_def)
  obtain pr ix1 ix2 where i: "createTally demo_env 5 (small_key 1) zero32 = Inr ix1"
      "tallyBatch demo_env 5 (small_key 1) pr zero32 zero32 zero32 = Inr ix2"
      "tx_ixs tx = [cuLimitInstruction [ix1, ix2], Call (iwc_instruction ix1), Call (iwc_instruction ix2)]"
      "tx_feePayer tx = small_key 1" "tx_signers tx = []"
    using r(3) unfolding batch_tx_def V z zero32_be by (auto simp: wallet_tx_def Let_def rbind_eq_Inr)
  obtain ch ch' where e: "zero_voted = Inr ch" "exec_ixs zero_x [small_key 1] (tx_ixs tx) ch = Inr ch'"
    using zero_batch_exec [of pr] i(1-3) by (auto split: sum.splits)
  have "pn_sent u = [tx]" by (simp add: r(4) final_panel_def zero_panel_def)
  then have x: "exec_tx zero_x (last (pn_sent (onTallyNext ?V zero_panel))) ch = Inr ch'"
    using e(2) by (simp add: sent exec_tx_def i(4,5))
  have "pa_wallet ?V = Some (small_key 1)" "length (pa_salt ?V) = 8" by (simp_all add: zero_panel_env_def)
  from tally_next_syncs_chain [OF zero_laws(1-3) this s ok x] obtain st where
    st: "pn_store (onTallyNext ?V zero_panel) = Some st" "in_sync zero_x ?V (small_key 1) st ch'" by blast
  show ?thesis using e(1) x st(2) by blast
qed

end
