(* ===== verification/TallyCircuit.thy ===== *)
theory TallyCircuit
  imports TallyPanel
begin

text \<open>
  The tally circuit, \<open>circom/Tally.circom\<close>. A template is a function from its input signals to
  its output signals, \<open>None\<close> where a constraint is violated; a signal that is assigned with
  \<open><--\<close>, and hence chosen by the prover, is an argument. Signals are representatives of the
  field of \<open>FP\<close> elements. The templates of circomlib and zk-kit are parameters.
\<close>

section \<open>Templates from libraries\<close>

text \<open>
  \<open>LessThan(16)\<close> and the decryption have constraints of their own (the comparator decomposes its
  difference into 17 bits), and no output where these are violated.
\<close>

text \<open>
  \<open>LessThan(16)\<close> of circomlib: the difference, moved up by \<open>2 ^ 16\<close>, has 17 bits, and the output is
  the negation of the highest.
\<close>

definition less_than16 :: "int \<Rightarrow> int \<Rightarrow> int option" where
  "less_than16 x y = (let d = (x + 2 ^ 16 - y) mod FP in if d < 2 ^ 17 then Some (1 - d div 2 ^ 16) else None)"

lemma less_than16_small:
  assumes "0 \<le> x" "x < 2 ^ 16" "0 \<le> y" "y < 2 ^ 16"
  shows "less_than16 x y = Some (if x < y then 1 else 0)"
proof -
  have "(x + 2 ^ 16 - y) mod FP = x + 2 ^ 16 - y" using assms by (simp add: FP_def)
  moreover have "(x + 2 ^ 16 - y) div 2 ^ 16 = (if x < y then 0 else 1)" using assms by auto
  ultimately show ?thesis using assms by (simp add: less_than16_def Let_def)
qed

text \<open>The inputs of \<open>SMTVerifier\<close> and \<open>SMTProcessor\<close>.\<close>

record smt_verifier_in =
  sv_enabled :: int
  sv_root :: int
  sv_siblings :: "int list"
  sv_oldKey :: int
  sv_oldValue :: int
  sv_isOld0 :: int
  sv_key :: int
  sv_value :: int
  sv_fnc :: int

record smt_processor_in =
  sp_oldRoot :: int
  sp_siblings :: "int list"
  sp_oldKey :: int
  sp_oldValue :: int
  sp_isOld0 :: int
  sp_newKey :: int
  sp_newValue :: int
  sp_fnc :: "int \<times> int"

record circuit_lib =
  tc_perm :: "int list \<Rightarrow> int list"
  tc_isZero :: "int \<Rightarrow> int"
  tc_isEqual :: "int \<Rightarrow> int \<Rightarrow> int"
  tc_lessThan16 :: "int \<Rightarrow> int \<Rightarrow> int option"
  tc_ecdh :: "int \<Rightarrow> int \<times> int \<Rightarrow> int \<times> int"
  tc_decrypt :: "int \<times> int \<Rightarrow> int \<Rightarrow> int list \<Rightarrow> int list option"
  tc_smtVerifier :: "smt_verifier_in \<Rightarrow> bool"
  tc_smtProcessor :: "smt_processor_in \<Rightarrow> int option"

text \<open>\<open>PoseidonHasher\<close> of the repository: the permutation on the inputs behind a zero.\<close>

definition PoseidonHasher :: "(int list \<Rightarrow> int list) \<Rightarrow> int list \<Rightarrow> int" where
  "PoseidonHasher perm inputs = perm (0 # inputs) ! 0"

abbreviation tc_H :: "circuit_lib \<Rightarrow> int list \<Rightarrow> int" where
  "tc_H C \<equiv> PoseidonHasher (tc_perm C)"

section \<open>One vote\<close>

definition PAD :: nat where
  "PAD = (if LIMBS mod 3 = 0 then LIMBS else LIMBS + (3 - LIMBS mod 3))"

definition CT_LEN :: nat where "CT_LEN = PAD + 1"

definition TallyChoice :: "circuit_lib \<Rightarrow> int \<Rightarrow> int \<Rightarrow> int \<Rightarrow> int \<Rightarrow> int \<Rightarrow> int" where
  "TallyChoice C enabled choiceOld choiceNew choiceNumber tallyOld =
     (let isOldChoice = tc_isEqual C choiceOld choiceNumber;
          isNewChoice = tc_isEqual C choiceNew choiceNumber
      in (tallyOld + enabled * (isNewChoice - isOldChoice)) mod FP)"

text \<open>What the arrays hold for one vote.\<close>

record tally_entry =
  en_ephPk :: "int \<times> int"
  en_nonce :: int
  en_ciphertext :: "int list"
  en_siblings :: "int list"
  en_choiceOld :: int
  en_revotingKeyOld :: int
  en_noAux :: int
  en_auxKey :: int
  en_auxValue :: int
  en_wasLeafEmpty :: int

text \<open>
  \<open>split\<close> is the prover's assignment to \<open>nuLo\<close> and \<open>nuHi\<close>; the constraint on them is the
  equation below. (The comment behind it says that a later template bounds \<open>nuLo\<close> to \<open>DEPTH\<close>
  bits; the strict decomposition of circomlib has as many bits as the field.)
\<close>

type_synonym tally_acc = "int \<times> int \<times> int list"

definition TallySingle ::
  "circuit_lib \<Rightarrow> nat \<Rightarrow> nat \<Rightarrow> (int \<Rightarrow> int \<times> int) \<Rightarrow> int \<Rightarrow> int \<Rightarrow> tally_entry \<Rightarrow> tally_acc \<Rightarrow> tally_acc option" where
  "TallySingle C depth max_choices split tallierSk enabled e = (\<lambda>(rootOld, cumulativeMsgHashOld, tallyOld).
     (case tc_decrypt C (tc_ecdh C tallierSk (en_ephPk e)) (en_nonce e) (en_ciphertext e) of
        None \<Rightarrow> None
      | Some decrypted \<Rightarrow>
     let H = tc_H C;
         msgHash = H ([fst (en_ephPk e), snd (en_ephPk e), en_nonce e] @ en_ciphertext e);
         nu = decrypted ! 0;
         choice = decrypted ! 1;
         revotingKeyOldFromMsg = decrypted ! 2;
         revotingKeyNew = decrypted ! 3;
         leafOld = H [en_choiceOld e, en_revotingKeyOld e];
         leafNew = H [choice, revotingKeyNew];
         revotingKeyMatches = tc_isEqual C revotingKeyOldFromMsg (en_revotingKeyOld e);
         isVoteValid = (enabled * revotingKeyMatches) mod FP;
         (nuLo, nuHi) = split nu;
         cumulativeMsgHash = H [cumulativeMsgHashOld, msgHash]
     in if length (en_ciphertext e) = CT_LEN \<and> length (en_siblings e) = depth \<and>
           (nu - (nuLo + nuHi * 2 ^ depth)) mod FP = 0 \<and>
           (en_wasLeafEmpty e * en_choiceOld e) mod FP = 0 \<and>
           (en_wasLeafEmpty e * (en_revotingKeyOld e - H [0])) mod FP = 0 \<and>
           tc_smtVerifier C \<lparr>sv_enabled = enabled, sv_root = rootOld, sv_siblings = en_siblings e,
             sv_oldKey = en_auxKey e, sv_oldValue = en_auxValue e, sv_isOld0 = en_noAux e,
             sv_key = nuLo, sv_value = leafOld, sv_fnc = en_wasLeafEmpty e\<rparr>
        then (case tc_smtProcessor C \<lparr>sp_oldRoot = rootOld, sp_siblings = en_siblings e,
               sp_oldKey = en_auxKey e, sp_oldValue = en_auxValue e, sp_isOld0 = en_noAux e,
               sp_newKey = nuLo, sp_newValue = leafNew,
               sp_fnc = ((isVoteValid * en_wasLeafEmpty e) mod FP,
                         (isVoteValid * (1 - en_wasLeafEmpty e)) mod FP)\<rparr> of
               None \<Rightarrow> None
             | Some rootNew \<Rightarrow> Some (rootNew,
                 (cumulativeMsgHashOld + enabled * (cumulativeMsgHash - cumulativeMsgHashOld)) mod FP,
                 map (\<lambda>t. TallyChoice C isVoteValid (en_choiceOld e) choice (int t + 1) (tallyOld ! t))
                   [0..<max_choices]))
        else None))"

section \<open>A batch\<close>

definition entry :: "wit \<Rightarrow> nat \<Rightarrow> tally_entry" where
  "entry w i = \<lparr>en_ephPk = w_ephPk w ! i, en_nonce = w_nonces w ! i, en_ciphertext = w_ciphertext w ! i,
     en_siblings = w_siblings w ! i, en_choiceOld = w_choicesOld w ! i,
     en_revotingKeyOld = w_revotingKeyOld w ! i, en_noAux = w_noAux w ! i, en_auxKey = w_auxKey w ! i,
     en_auxValue = w_auxValue w ! i, en_wasLeafEmpty = w_wasLeafEmpty w ! i\<rparr>"

text \<open>The loop over the votes; the hints are chosen for each of them.\<close>

primrec tally_loop ::
  "circuit_lib \<Rightarrow> nat \<Rightarrow> nat \<Rightarrow> (nat \<Rightarrow> int \<Rightarrow> int \<times> int) \<Rightarrow> int \<Rightarrow> int \<Rightarrow> nat \<Rightarrow> tally_entry list \<Rightarrow>
   tally_acc \<Rightarrow> tally_acc option" where
  "tally_loop C depth max_choices split tallierSk batchLen i [] acc = Some acc"
| "tally_loop C depth max_choices split tallierSk batchLen i (e # es) acc =
     (case tc_lessThan16 C (int i) batchLen of
        None \<Rightarrow> None
      | Some enabled \<Rightarrow>
     (case TallySingle C depth max_choices (split i) tallierSk enabled e acc of
        None \<Rightarrow> None
      | Some acc' \<Rightarrow> tally_loop C depth max_choices split tallierSk batchLen (Suc i) es acc'))"

text \<open>The outputs \<open>tallyHashOld\<close>, \<open>rootNew\<close>, \<open>cumulativeMsgHashNew\<close>, \<open>tallyHashNew\<close>.\<close>

definition Tally ::
  "circuit_lib \<Rightarrow> nat \<Rightarrow> nat \<Rightarrow> nat \<Rightarrow> (nat \<Rightarrow> int \<Rightarrow> int \<times> int) \<Rightarrow> tally_inputs \<Rightarrow>
   (int \<times> int \<times> int \<times> int) option" where
  "Tally C depth max_choices max_batch split i =
     (let H = tc_H C; isFirstBatch = tc_isZero C (ti_cumulativeMsgHashOld i)
      in if length (ti_tallyOld i) = max_choices \<and> wit_len (ti_wit i) max_batch \<and>
            list_all (\<lambda>x. (isFirstBatch * x) mod FP = 0) (ti_tallyOld i)
         then (case tally_loop C depth max_choices split (ti_tallierSk i) (ti_batchLen i) 0
                 (map (entry (ti_wit i)) [0..<max_batch])
                 (ti_rootOld i, ti_cumulativeMsgHashOld i, ti_tallyOld i) of
              None \<Rightarrow> None
            | Some (rootNew, cumulativeMsgHashNew, tallyNew) \<Rightarrow>
                Some (H (ti_tallySaltOld i # ti_tallyOld i), rootNew, cumulativeMsgHashNew,
                      H (ti_tallySaltNew i # tallyNew)))
         else None)"

text \<open>The hints that the witness generator computes, and the parameters of \<open>circuits.json\<close>.\<close>

definition nu_split :: "nat \<Rightarrow> int \<Rightarrow> int \<times> int" where
  "nu_split depth nu = (nu AND (push_bit depth 1 - 1), drop_bit depth nu)"

definition main_tally :: "circuit_lib \<Rightarrow> tally_inputs \<Rightarrow> (int \<times> int \<times> int \<times> int) option" where
  "main_tally C = Tally C 64 11 6 (\<lambda>_. nu_split 64)"

end
