(* ===== verification/TallyCircuitCorrect.thy ===== *)
theory TallyCircuitCorrect
  imports TallyCircuit TallyPanelCorrect
begin

text \<open>
  The inputs that the panel makes against the circuit. The circuit accepts the counting of the
  ballots under any assignment of nullifier indices, because its constraint on the index binds
  nothing; with the hints of the witness generator this is the election that the panel counts.
\<close>

section \<open>Contracts\<close>

text \<open>
  The proofs of the tree library satisfy the templates of circomlib: a proof for inserting is a
  proof that the key is absent, a proof for updating one of the old value; a disabled verifier
  accepts, and the processor without a function returns the old root.
\<close>

definition sv_of :: "circom_proof \<Rightarrow> int \<Rightarrow> int \<Rightarrow> int \<Rightarrow> int \<Rightarrow> int \<Rightarrow> smt_verifier_in" where
  "sv_of p root isOld0 k v fnc = \<lparr>sv_enabled = 1, sv_root = root, sv_siblings = cp_siblings p,
     sv_oldKey = cp_oldKey p, sv_oldValue = cp_oldValue p, sv_isOld0 = isOld0, sv_key = k, sv_value = v,
     sv_fnc = fnc\<rparr>"

definition sp_of :: "circom_proof \<Rightarrow> int \<Rightarrow> int \<Rightarrow> int \<Rightarrow> int \<Rightarrow> int \<times> int \<Rightarrow> smt_processor_in" where
  "sp_of p root isOld0 k v fnc = \<lparr>sp_oldRoot = root, sp_siblings = cp_siblings p,
     sp_oldKey = cp_oldKey p, sp_oldValue = cp_oldValue p, sp_isOld0 = isOld0, sp_newKey = k,
     sp_newValue = v, sp_fnc = fnc\<rparr>"

abbreviation old0 :: "circom_proof \<Rightarrow> int" where
  "old0 p \<equiv> (if cp_isOld0 p then 1 else 0)"

definition smt_circuit_law :: "circuit_lib \<Rightarrow> 'mt smt \<Rightarrow> ('mt \<Rightarrow> int \<Rightarrow> int option) \<Rightarrow> bool" where
  "smt_circuit_law C S \<alpha> \<longleftrightarrow>
     (\<forall>t k v p t'. 0 \<le> k \<longrightarrow> k < 2 ^ STATE_DEPTH \<longrightarrow> 0 \<le> v \<longrightarrow> v < FP \<longrightarrow>
        (\<alpha> t k = None \<longrightarrow> smt_addProof S t k v = Inr (p, t') \<longrightarrow>
           length (cp_siblings p) = STATE_DEPTH \<and>
           (\<forall>x. tc_smtVerifier C (sv_of p (smt_root S t) (old0 p) k x 1)) \<and>
           tc_smtProcessor C (sp_of p (smt_root S t) (old0 p) k v (1, 0)) = Some (smt_root S t')) \<and>
        (\<forall>u. \<alpha> t k = Some u \<longrightarrow> smt_update S t k v = Inr (p, t') \<longrightarrow>
           length (cp_siblings p) = STATE_DEPTH \<and>
           tc_smtVerifier C (sv_of p (smt_root S t) (old0 p) k u 0) \<and>
           tc_smtProcessor C (sp_of p (smt_root S t) (old0 p) k v (0, 1)) = Some (smt_root S t'))) \<and>
     (\<forall>t k p. 0 \<le> k \<longrightarrow> k < 2 ^ STATE_DEPTH \<longrightarrow> smt_gen S t k = Inr p \<longrightarrow>
        (let isOld0 = (if cp_fnc p = 1 \<and> cp_oldValue p = 0 then 1 else 0) in
         length (cp_siblings p) = STATE_DEPTH \<and>
         (\<alpha> t k = None \<longrightarrow> (\<forall>x. tc_smtVerifier C (sv_of p (smt_root S t) isOld0 k x 1))) \<and>
         (\<forall>u. \<alpha> t k = Some u \<longrightarrow> tc_smtVerifier C (sv_of p (smt_root S t) isOld0 k u 0)))) \<and>
     (\<forall>i. sv_enabled i = 0 \<longrightarrow> tc_smtVerifier C i) \<and>
     (\<forall>i. sp_fnc i = (0, 0) \<longrightarrow> tc_smtProcessor C i = Some (sp_oldRoot i))"

text \<open>The comparators on numbers of their width, the same Poseidon, curve and cipher on both
  sides; a decrypted message consists of field elements.\<close>

definition circuit_lib_law :: "circuit_lib \<Rightarrow> 'mt tally_env \<Rightarrow> bool" where
  "circuit_lib_law C E \<longleftrightarrow>
     tc_H C = te_P E \<and> te_P E [0] = HASH0 \<and>
     (\<forall>x. 0 \<le> x \<longrightarrow> x < FP \<longrightarrow> tc_isZero C x = (if x = 0 then 1 else 0)) \<and>
     (\<forall>x y. 0 \<le> x \<longrightarrow> x < FP \<longrightarrow> 0 \<le> y \<longrightarrow> y < FP \<longrightarrow> tc_isEqual C x y = (if x = y then 1 else 0)) \<and>
     (\<forall>x y. 0 \<le> x \<longrightarrow> x < 2 ^ 16 \<longrightarrow> 0 \<le> y \<longrightarrow> y < 2 ^ 16 \<longrightarrow> tc_lessThan16 C x y = Some (if x < y then 1 else 0)) \<and>
     (\<forall>sk R. tc_ecdh C sk R = te_mul E R sk) \<and>
     (\<forall>ct key nonce ws. length ct = CT_LEN \<longrightarrow> te_decrypt E ct key nonce LIMBS = Inr ws \<longrightarrow>
        length ws = LIMBS \<and> (\<forall>x \<in> set ws. 0 \<le> x \<and> x < FP) \<and>
        (\<exists>pad. tc_decrypt C key nonce ct = Some (ws @ pad)))"

section \<open>The constraint on the index\<close>

text \<open>\<open>2 ^ 64\<close> is invertible in the field, so every \<open>nuLo\<close> has a \<open>nuHi\<close>.\<close>

definition INV64 :: int where
  "INV64 = 16662651760482593750343275155358532940078388361286693648211298903031153094221"

lemma INV64: "FP dvd 1 - INV64 * 2 ^ 64"
  by (simp add: FP_def INV64_def)

lemma inverse_hint:
  fixes m :: int
  assumes "m dvd 1 - d * c"
  shows "(nu - (lo + ((nu - lo) * d mod m) * c)) mod m = 0"
proof -
  let ?q = "(nu - lo) * d"
  have "nu - (lo + (?q mod m) * c) = (nu - lo) * (1 - d * c) + m * (?q div m * c)"
    by (simp add: minus_mult_div_eq_mod [symmetric] algebra_simps)
  then show ?thesis using assms by simp
qed

lemma any_index:
  "0 \<le> (nu - lo) * INV64 mod FP" "(nu - lo) * INV64 mod FP < FP"
  "(nu - (lo + ((nu - lo) * INV64 mod FP) * 2 ^ 64)) mod FP = 0"
  using inverse_hint [OF INV64] by (simp_all add: FP_def)

text \<open>The prover claims the index \<open>k\<close> for the nullifier \<open>nu\<close>.\<close>

definition claim_index :: "int \<Rightarrow> int \<Rightarrow> int \<times> int" where
  "claim_index k nu = (leaf_index k, (nu - leaf_index k) * INV64 mod FP)"

definition good_split :: "(int \<Rightarrow> int \<times> int) \<Rightarrow> int \<Rightarrow> int \<Rightarrow> bool" where
  "good_split split nu k \<longleftrightarrow> (\<exists>hi. split nu = (leaf_index k, hi) \<and> (nu - (leaf_index k + hi * 2 ^ 64)) mod FP = 0)"

lemma good_claim: "good_split (claim_index k) nu k"
  using any_index(3) by (simp add: good_split_def claim_index_def)

lemma good_nu_split: "good_split (nu_split 64) nu nu"
proof -
  have "nu_split 64 nu = (leaf_index nu, nu div 2 ^ 64)"
    by (simp add: nu_split_def leaf_index_def STATE_DEPTH_def drop_bit_eq_div)
  moreover have "nu - (leaf_index nu + nu div 2 ^ 64 * 2 ^ 64) = 0"
    by (simp only: leaf_index_mod) (simp add: minus_div_mult_eq_mod [symmetric])
  ultimately show ?thesis by (simp add: good_split_def)
qed

section \<open>One vote\<close>

definition new_entry :: "message \<Rightarrow> circom_proof \<Rightarrow> int \<times> int \<Rightarrow> int \<Rightarrow> tally_entry" where
  "new_entry m p old wasLeafEmpty = \<lparr>en_ephPk = ms_R m, en_nonce = ms_nonce m, en_ciphertext = ms_ct m,
     en_siblings = cp_siblings p, en_choiceOld = fst old, en_revotingKeyOld = snd old, en_noAux = old0 p,
     en_auxKey = cp_oldKey p, en_auxValue = cp_oldValue p, en_wasLeafEmpty = wasLeafEmpty\<rparr>"

text \<open>The constraints that hold for an entry whether it is enabled or not.\<close>

definition entry_ok :: "circuit_lib \<Rightarrow> (int \<Rightarrow> int \<times> int) \<Rightarrow> int \<Rightarrow> tally_entry \<Rightarrow> bool" where
  "entry_ok C split sk e \<longleftrightarrow>
     (\<exists>nu rest lo hi. tc_decrypt C (tc_ecdh C sk (en_ephPk e)) (en_nonce e) (en_ciphertext e) = Some (nu # rest) \<and>
        3 \<le> length rest \<and> split nu = (lo, hi) \<and> (nu - (lo + hi * 2 ^ 64)) mod FP = 0) \<and>
     length (en_ciphertext e) = CT_LEN \<and> length (en_siblings e) = 64 \<and>
     (en_wasLeafEmpty e * en_choiceOld e) mod FP = 0 \<and>
     (en_wasLeafEmpty e * (en_revotingKeyOld e - tc_H C [0])) mod FP = 0"

lemma single_eval:
  assumes "entry_ok C split sk e"
    and "tc_decrypt C (tc_ecdh C sk (en_ephPk e)) (en_nonce e) (en_ciphertext e) =
      Some ([nu, choice, keyOld, keyNew] @ pad)"
    and "fst (split nu) = lo" "(en * tc_isEqual C keyOld (en_revotingKeyOld e)) mod FP = v"
    and "tc_smtVerifier C \<lparr>sv_enabled = en, sv_root = r, sv_siblings = en_siblings e, sv_oldKey = en_auxKey e,
      sv_oldValue = en_auxValue e, sv_isOld0 = en_noAux e, sv_key = lo,
      sv_value = tc_H C [en_choiceOld e, en_revotingKeyOld e], sv_fnc = en_wasLeafEmpty e\<rparr>"
    and "tc_smtProcessor C \<lparr>sp_oldRoot = r, sp_siblings = en_siblings e, sp_oldKey = en_auxKey e,
      sp_oldValue = en_auxValue e, sp_isOld0 = en_noAux e, sp_newKey = lo, sp_newValue = tc_H C [choice, keyNew],
      sp_fnc = ((v * en_wasLeafEmpty e) mod FP, (v * (1 - en_wasLeafEmpty e)) mod FP)\<rparr> = Some r'"
  shows "TallySingle C 64 n split sk en e (r, c, t) = Some (r',
    (c + en * (tc_H C [c, tc_H C ([fst (en_ephPk e), snd (en_ephPk e), en_nonce e] @ en_ciphertext e)] - c)) mod FP,
    map (\<lambda>j. TallyChoice C v (en_choiceOld e) choice (int j + 1) (t ! j)) [0..<n])"
proof -
  obtain hi where s: "split nu = (lo, hi)" "(nu - (lo + hi * 2 ^ 64)) mod FP = 0"
    using assms(1-3) by (auto simp: entry_ok_def)
  have "([nu, choice, keyOld, keyNew] @ pad) ! 1 = choice" "([nu, choice, keyOld, keyNew] @ pad) ! 2 = keyOld"
      "([nu, choice, keyOld, keyNew] @ pad) ! 3 = keyNew"
    by (simp_all add: eval_nat_numeral)
  then show ?thesis using assms(1,2,4-6) s by (simp add: TallySingle_def entry_ok_def Let_def)
qed

lemma single_off:
  assumes ok: "entry_ok C split sk e" and law: "smt_circuit_law C S \<alpha>"
    and field: "0 \<le> c" "c < FP" "\<forall>x \<in> set t. 0 \<le> x \<and> x < FP"
  shows "TallySingle C 64 (length t) split sk 0 e (r, c, t) = Some (r, c, t)"
proof -
  obtain nu choice keyOld keyNew pad where ws: "tc_decrypt C (tc_ecdh C sk (en_ephPk e)) (en_nonce e)
      (en_ciphertext e) = Some ([nu, choice, keyOld, keyNew] @ pad)"
    using ok by (fastforce simp: entry_ok_def numeral_3_eq_3 Suc_le_length_iff)
  have off: "\<And>i. sv_enabled i = 0 \<Longrightarrow> tc_smtVerifier C i"
      "\<And>i. sp_fnc i = (0, 0) \<Longrightarrow> tc_smtProcessor C i = Some (sp_oldRoot i)"
    using law by (simp_all add: smt_circuit_law_def)
  have "map (\<lambda>j. TallyChoice C 0 (en_choiceOld e) choice (int j + 1) (t ! j)) [0..<length t] = t"
    using field(3) by (intro nth_equalityI) (simp_all add: TallyChoice_def)
  with single_eval [OF ok ws refl, of 0 0 r r "length t" c t] off field(1,2) show ?thesis by simp
qed

section \<open>Counts in the field\<close>

lemma tally_of_update:
  "i < n \<Longrightarrow> tally_of n (AList.update k l leaves) ! i = tally_of n leaves ! i
     - (if fst (old_leaf leaves k) = int i + 1 then 1 else 0) + (if lf_choice l = int i + 1 then 1 else 0)"
  using filter_update_count [of "\<lambda>x. lf_choice x = int i + 1" k l leaves]
  by (auto simp: tally_of_def old_leaf_def split: option.splits)

lemma fill_tally_nth:
  "t < MAX_CHOICES \<Longrightarrow> fill_tally counts ! t = (if t < length counts then counts ! t else 0)"
  by (simp add: fill_tally_def at_def)

lemma length_fill_tally [simp]: "length (fill_tally counts) = MAX_CHOICES"
  by (simp add: fill_tally_def)

lemma leaves_bound:
  fixes leaves :: "(int \<times> leaf_data) list"
  assumes "distinct (map fst leaves)" "\<forall>(k, l) \<in> set leaves. 0 \<le> k \<and> k < 2 ^ STATE_DEPTH"
  shows "int (length leaves) \<le> 2 ^ 64"
proof -
  have "fst ` set leaves \<subseteq> {0..<2 ^ 64 :: int}" using assms(2) by (auto simp: STATE_DEPTH_def)
  then have "card (fst ` set leaves) \<le> card {0..<2 ^ 64 :: int}" by (rule card_mono [rotated]) simp
  moreover have "card (fst ` set leaves) = length leaves" using assms(1) by (metis distinct_card length_map set_map)
  ultimately show ?thesis by simp
qed

lemma tally_of_field:
  assumes "int (length leaves) \<le> 2 ^ 64" "c \<in> set (tally_of n leaves)"
  shows "0 \<le> c \<and> c < FP"
proof -
  obtain P where "c = int (length (filter P leaves))" using assms(2) by (auto simp: tally_of_def)
  then have "0 \<le> c" "c \<le> 2 ^ 64" using assms(1) length_filter_le [of P leaves] by linarith+
  then show ?thesis by (simp add: FP_def)
qed

lemma fill_tally_field:
  assumes "length counts \<le> MAX_CHOICES" "\<forall>c \<in> set counts. 0 \<le> c \<and> c < FP"
  shows "\<forall>x \<in> set (fill_tally counts). 0 \<le> x \<and> x < FP"
  using assms FP_pos by (auto simp: in_set_conv_nth [of _ "fill_tally counts"] fill_tally_nth)

lemma choices_step:
  assumes law: "circuit_lib_law C E" and n: "n \<le> MAX_CHOICES"
    and ch: "in_choices n (fst (old_leaf leaves k))" "in_choices n (lf_choice l)"
    and len: "int (length (AList.update k l leaves)) \<le> 2 ^ 64"
  shows "map (\<lambda>j. TallyChoice C 1 (fst (old_leaf leaves k)) (lf_choice l) (int j + 1)
      (fill_tally (tally_of n leaves) ! j)) [0..<MAX_CHOICES] = fill_tally (tally_of n (AList.update k l leaves))"
proof (rule nth_equalityI)
  fix j assume "j < length (map (\<lambda>j. TallyChoice C 1 (fst (old_leaf leaves k)) (lf_choice l) (int j + 1)
      (fill_tally (tally_of n leaves) ! j)) [0..<MAX_CHOICES])"
  then have j: "j < MAX_CHOICES" by simp
  have "int MAX_CHOICES < FP" by (simp add: MAX_CHOICES_def FP_def)
  then have eq: "tc_isEqual C x (int j + 1) = (if x = int j + 1 then 1 else 0)" if "in_choices n x" for x
    using law that n j unfolding circuit_lib_law_def in_choices_def by simp
  let ?d = "(if lf_choice l = int j + 1 then 1 else 0) - (if fst (old_leaf leaves k) = int j + 1 then 1 else 0 :: int)"
  have "(fill_tally (tally_of n leaves) ! j + ?d) mod FP = fill_tally (tally_of n (AList.update k l leaves)) ! j"
  proof (cases "j < n")
    case True
    then have "tally_of n (AList.update k l leaves) ! j \<in> set (tally_of n (AList.update k l leaves))" by simp
    from tally_of_field [OF len this] tally_of_update [OF True, of k l leaves] show ?thesis
      using True j by (simp add: fill_tally_nth)
  next
    case False
    then show ?thesis using ch j by (simp add: fill_tally_nth in_choices_def)
  qed
  then show "map (\<lambda>j. TallyChoice C 1 (fst (old_leaf leaves k)) (lf_choice l) (int j + 1)
      (fill_tally (tally_of n leaves) ! j)) [0..<MAX_CHOICES] ! j =
    fill_tally (tally_of n (AList.update k l leaves)) ! j"
    using j eq [OF ch(1)] eq [OF ch(2)] by (simp add: TallyChoice_def)
qed simp

section \<open>A counted vote satisfies the circuit\<close>

definition tally_circuit_law :: "circuit_lib \<Rightarrow> 'mt tally_env \<Rightarrow> ('mt \<Rightarrow> int \<Rightarrow> int option) \<Rightarrow> bool" where
  "tally_circuit_law C E \<alpha> \<longleftrightarrow> smt_law (te_smt E) \<alpha> \<and> hash_law (te_P E) \<and> circuit_lib_law C E \<and>
     smt_circuit_law C (te_smt E) \<alpha>"

definition field_keys :: "(int \<times> leaf_data) list \<Rightarrow> bool" where
  "field_keys leaves \<longleftrightarrow> (\<forall>(k, l) \<in> set leaves. 0 \<le> lf_revotingKey l \<and> lf_revotingKey l < FP)"

definition acc_of :: "'mt tally_env \<Rightarrow> 'mt tstate \<Rightarrow> tally_acc" where
  "acc_of E st = (smt_root (te_smt E) (ts_mt st), ts_H st, fill_tally (ts_counts st))"

lemma decrypt_circuit:
  assumes "circuit_lib_law C E" "decrypt_vote E sk m = Inr b" "length (ms_ct m) = CT_LEN"
  shows "\<exists>pad. tc_decrypt C (tc_ecdh C sk (ms_R m)) (ms_nonce m) (ms_ct m) =
      Some ([bl_nu b, bl_choice b, bl_keyOld b, bl_keyNew b] @ pad)"
    and "0 \<le> bl_keyOld b \<and> bl_keyOld b < FP" "0 \<le> bl_keyNew b \<and> bl_keyNew b < FP"
proof -
  obtain ws where ws: "te_decrypt E (ms_ct m) (te_mul E (ms_R m) sk) (ms_nonce m) LIMBS = Inr ws"
    using assms(2) by (auto simp: decrypt_vote_def rbind_eq_Inr)
  with assms(1,3) have l: "length ws = LIMBS" "\<forall>x \<in> set ws. 0 \<le> x \<and> x < FP"
      "\<exists>pad. tc_decrypt C (tc_ecdh C sk (ms_R m)) (ms_nonce m) (ms_ct m) = Some (ws @ pad)"
    unfolding circuit_lib_law_def by metis+
  have "ws = [bl_nu b, bl_choice b, bl_keyOld b, bl_keyNew b]"
    using assms(2) ws l(1) by (auto simp: decrypt_vote_def LIMBS_def split: list.splits)
  with l show "\<exists>pad. tc_decrypt C (tc_ecdh C sk (ms_R m)) (ms_nonce m) (ms_ct m) =
      Some ([bl_nu b, bl_choice b, bl_keyOld b, bl_keyNew b] @ pad)"
    and "0 \<le> bl_keyOld b \<and> bl_keyOld b < FP" "0 \<le> bl_keyNew b \<and> bl_keyNew b < FP"
    by auto
qed

lemma old_leaf_key: "field_keys leaves \<Longrightarrow> 0 \<le> snd (old_leaf leaves k) \<and> snd (old_leaf leaves k) < FP"
  by (auto simp: field_keys_def old_leaf_def HASH0_range dest!: map_of_SomeD split: option.splits)

lemma new_entry_ok:
  assumes "circuit_lib_law C E" "decrypt_vote E sk m = Inr b" "length (ms_ct m) = CT_LEN"
    and "good_split split (bl_nu b) k" "length (cp_siblings p) = 64" "w = 0 \<or> old = (0, HASH0)"
  shows "entry_ok C split sk (new_entry m p old w)"
proof -
  have "tc_H C [0] = HASH0" using assms(1) by (simp add: circuit_lib_law_def)
  then show ?thesis
    using assms(3-6) decrypt_circuit(1) [OF assms(1-3)] by (auto simp: entry_ok_def new_entry_def good_split_def)
qed

lemma add_or_update_circuit:
  assumes "tally_circuit_law C E \<alpha>" "0 \<le> k" "k < 2 ^ STATE_DEPTH" "0 \<le> v" "v < FP"
    and "add_or_update (te_smt E) t k v = Inr (p, t', w)"
  shows "length (cp_siblings p) = 64"
    and "w = (if \<alpha> t k = None then 1 else 0)"
    and "\<alpha> t k = None \<Longrightarrow> tc_smtVerifier C (sv_of p (smt_root (te_smt E) t) (old0 p) k x 1)"
    and "\<alpha> t k = Some u \<Longrightarrow> tc_smtVerifier C (sv_of p (smt_root (te_smt E) t) (old0 p) k u 0)"
    and "tc_smtProcessor C (sp_of p (smt_root (te_smt E) t) (old0 p) k v (w, 1 - w)) = Some (smt_root (te_smt E) t')"
proof -
  have S: "smt_law (te_smt E) \<alpha>" and L: "smt_circuit_law C (te_smt E) \<alpha>"
    using assms(1) by (simp_all add: tally_circuit_law_def)
  have "\<exists>p t'. add_or_update (te_smt E) t k v = Inr (p, t', if \<alpha> t k = None then 1 else 0)"
    using add_or_update_law [OF S assms(2-5)] by blast
  with assms(6) show w: "w = (if \<alpha> t k = None then 1 else 0)" by auto
  consider (new) "\<alpha> t k = None" "w = 1" "smt_addProof (te_smt E) t k v = Inr (p, t')"
    | (old) u where "\<alpha> t k = Some u" "w = 0" "smt_update (te_smt E) t k v = Inr (p, t')"
    using assms(6) w
    by (auto simp: add_or_update_def of_smt_def rbind_eq_Inr split: sum.splits smt_error.splits if_splits)
  note cases = this
  have "length (cp_siblings p) = 64 \<and> (\<alpha> t k = None \<longrightarrow> tc_smtVerifier C (sv_of p (smt_root (te_smt E) t) (old0 p) k x 1)) \<and>
      (\<alpha> t k = Some u \<longrightarrow> tc_smtVerifier C (sv_of p (smt_root (te_smt E) t) (old0 p) k u 0)) \<and>
      tc_smtProcessor C (sp_of p (smt_root (te_smt E) t) (old0 p) k v (w, 1 - w)) = Some (smt_root (te_smt E) t')"
    using cases
  proof cases
    case new
    then show ?thesis using L assms(2-5) unfolding smt_circuit_law_def STATE_DEPTH_def by auto
  next
    case (old u')
    then show ?thesis using L assms(2-5) unfolding smt_circuit_law_def STATE_DEPTH_def by auto
  qed
  then show "length (cp_siblings p) = 64"
    "\<alpha> t k = None \<Longrightarrow> tc_smtVerifier C (sv_of p (smt_root (te_smt E) t) (old0 p) k x 1)"
    "\<alpha> t k = Some u \<Longrightarrow> tc_smtVerifier C (sv_of p (smt_root (te_smt E) t) (old0 p) k u 0)"
    "tc_smtProcessor C (sp_of p (smt_root (te_smt E) t) (old0 p) k v (w, 1 - w)) = Some (smt_root (te_smt E) t')"
    by blast+
qed

lemma field_keys_update:
  "field_keys leaves \<Longrightarrow> 0 \<le> lf_revotingKey l \<Longrightarrow> lf_revotingKey l < FP \<Longrightarrow> field_keys (AList.update k l leaves)"
  using set_update_sub [of k l leaves] by (fastforce simp: field_keys_def)

lemma isEqual_law:
  "circuit_lib_law C E \<Longrightarrow> 0 \<le> x \<and> x < FP \<Longrightarrow> 0 \<le> y \<and> y < FP \<Longrightarrow> tc_isEqual C x y = (if x = y then 1 else 0)"
  by (simp add: circuit_lib_law_def)

text \<open>
  What one vote does, with any nullifier index \<open>k\<close> that the prover claims for it: the circuit
  takes the entry that the panel would push for it, and ends where the panel would end.
\<close>

definition step_ok ::
  "circuit_lib \<Rightarrow> 'mt tally_env \<Rightarrow> (int \<Rightarrow> int \<times> int) \<Rightarrow> int \<Rightarrow> (message \<times> ballot) \<times> int \<Rightarrow>
   'mt tstate \<Rightarrow> 'mt tstate \<Rightarrow> bool" where
  "step_ok C E split sk = (\<lambda>((m, b), k) st st'. \<exists>p old w. ts_wit st' = push_wit (ts_wit st) m p old w \<and>
     field_keys (ts_leaves st') \<and> ts_H st' = te_P E [ts_H st, msg_hash (te_P E) m] \<and>
     (\<forall>s. good_split s (bl_nu b) k \<longrightarrow> entry_ok C s sk (new_entry m p old w)) \<and>
     TallySingle C 64 MAX_CHOICES split sk 1 (new_entry m p old w) (acc_of E st) = Some (acc_of E st'))"

lemma accepted_step:
  assumes law: "tally_circuit_law C E \<alpha>" and inv: "tally_inv E \<alpha> n st" "tally_inv E \<alpha> n st'"
    and n: "n \<le> MAX_CHOICES" and keys: "field_keys (ts_leaves st)"
    and b: "decrypt_vote E sk m = Inr b" "length (ms_ct m) = CT_LEN" "good_split split (bl_nu b) k"
    and acc: "snd (old_leaf (ts_leaves st) (leaf_index k)) = bl_keyOld b"
    and st': "count_vote E st (m, b\<lparr>bl_nu := k\<rparr>) = Inr st'"
  shows "step_ok C E split sk ((m, b), k) st st'"
proof -
  let ?k = "leaf_index k" and ?v = "te_P E [bl_choice b, bl_keyNew b]" and ?old = "old_leaf (ts_leaves st) (leaf_index k)"
    and ?l = "\<lparr>lf_choice = bl_choice b, lf_revotingKey = bl_keyNew b, lf_hash = te_P E [bl_choice b, bl_keyNew b]\<rparr>"
  have L: "circuit_lib_law C E" and P: "hash_law (te_P E)" using law by (simp_all add: tally_circuit_law_def)
  have H: "tc_H C = te_P E" using L by (simp add: circuit_lib_law_def)
  obtain p mt w where au: "add_or_update (te_smt E) (ts_mt st) ?k ?v = Inr (p, mt, w)"
      and s: "ts_mt st' = mt" "ts_H st' = te_P E [ts_H st, msg_hash (te_P E) m]"
        "ts_leaves st' = AList.update ?k ?l (ts_leaves st)" "ts_wit st' = push_wit (ts_wit st) m p ?old w"
    using st' acc by (auto simp: count_vote_def Let_def rbind_eq_Inr)
  have v: "0 \<le> ?v" "?v < FP" "0 \<le> ts_H st'" "ts_H st' < FP" using P s(2) by (simp_all add: hash_law_def)
  note au' = add_or_update_circuit [OF law leaf_index_range v(1,2) au]
  note d = decrypt_circuit [OF L b(1,2)]
  have a: "\<alpha> (ts_mt st) ?k = map_option lf_hash (map_of (ts_leaves st) ?k)"
    using inv(1) by (simp add: tally_inv_def)
  have w: "w = (if map_of (ts_leaves st) ?k = None then 1 else 0)" using au'(2) a by simp
  have oks: "good_split s (bl_nu b) k \<Longrightarrow> entry_ok C s sk (new_entry m p ?old w)" for s
    using new_entry_ok [OF L b(1,2) _ au'(1)] w by (simp add: old_leaf_None)
  note ok = oks [OF b(3)]
  obtain pad where pad: "tc_decrypt C (tc_ecdh C sk (ms_R m)) (ms_nonce m) (ms_ct m) =
      Some ([bl_nu b, bl_choice b, bl_keyOld b, bl_keyNew b] @ pad)" using d(1) by blast
  have eq: "tc_isEqual C (bl_keyOld b) (snd ?old) = 1"
    using isEqual_law [OF L d(2) old_leaf_key [OF keys, of ?k]] acc by simp
  have lo: "fst (split (bl_nu b)) = ?k" using b(3) by (auto simp: good_split_def)
  have leaf: "map_of (ts_leaves st) ?k = Some u \<Longrightarrow> lf_hash u = te_P E [fst ?old, snd ?old]" for u
    using inv(1) by (auto simp: tally_inv_def old_leaf_def dest!: map_of_SomeD)
  have ver: "tc_smtVerifier C (sv_of p (smt_root (te_smt E) (ts_mt st)) (old0 p) ?k (te_P E [fst ?old, snd ?old]) w)"
    using au'(3,4) a w leaf by (cases "map_of (ts_leaves st) ?k") auto
  have len: "int (length (AList.update ?k ?l (ts_leaves st))) \<le> 2 ^ 64"
    using inv(2) unfolding tally_inv_def s(3) by (intro leaves_bound) auto
  have c: "ts_counts st = tally_of n (ts_leaves st)" "ts_counts st' = tally_of n (AList.update ?k ?l (ts_leaves st))"
    using inv s(3) by (simp_all add: tally_inv_def)
  have "in_choices n (lf_choice ?l)"
    using inv(2) map_of_SomeD [of "ts_leaves st'" ?k ?l] by (auto simp: tally_inv_def s(3) update_conv')
  note ch = choices_step [OF L n old_leaf_choice [OF inv(1)] this len]
  have w01: "w mod FP = w" "(1 - w) mod FP = 1 - w" "1 mod FP = 1" by (simp_all add: w FP_def)
  have "TallySingle C 64 MAX_CHOICES split sk 1 (new_entry m p ?old w) (acc_of E st) = Some (acc_of E st')"
    using single_eval [OF ok, of "bl_nu b" "bl_choice b" "bl_keyOld b" "bl_keyNew b" pad ?k 1 1
        "smt_root (te_smt E) (ts_mt st)" "smt_root (te_smt E) mt" MAX_CHOICES "ts_H st" "fill_tally (ts_counts st)"]
      pad lo eq ver au'(5) v(3,4) ch w01
    by (simp add: new_entry_def H sv_of_def sp_of_def s msg_hash_def acc_of_def c)
  moreover have "field_keys (ts_leaves st')" using field_keys_update [OF keys] d(3) by (simp add: s(3))
  ultimately show ?thesis using s(2,4) oks unfolding step_ok_def prod.case by blast
qed

lemma rejected_step:
  assumes law: "tally_circuit_law C E \<alpha>" and inv: "tally_inv E \<alpha> n st"
    and n: "n \<le> MAX_CHOICES" and keys: "field_keys (ts_leaves st)"
    and b: "decrypt_vote E sk m = Inr b" "length (ms_ct m) = CT_LEN" "good_split split (bl_nu b) k"
    and rej: "snd (old_leaf (ts_leaves st) (leaf_index k)) \<noteq> bl_keyOld b"
    and st': "count_vote E st (m, b\<lparr>bl_nu := k\<rparr>) = Inr st'"
  shows "step_ok C E split sk ((m, b), k) st st'"
proof -
  let ?k = "leaf_index k" and ?old = "old_leaf (ts_leaves st) (leaf_index k)" and ?r = "smt_root (te_smt E) (ts_mt st)"
  have L: "circuit_lib_law C E" and P: "hash_law (te_P E)" and S: "smt_circuit_law C (te_smt E) \<alpha>"
    using law by (simp_all add: tally_circuit_law_def)
  have H: "tc_H C = te_P E" using L by (simp add: circuit_lib_law_def)
  obtain p0 where g: "smt_gen (te_smt E) (ts_mt st) ?k = Inr p0"
    using st' rej by (auto simp: count_vote_def Let_def rbind_eq_Inr of_smt_def split: sum.splits smt_error.splits)
  define p where "p = p0\<lparr>cp_isOld0 := cp_fnc p0 = 1 \<and> cp_oldValue p0 = 0\<rparr>"
  define w where "w = (if map_of (ts_leaves st) ?k = None then 1 else 0 :: int)"
  have s: "st' = st\<lparr>ts_H := te_P E [ts_H st, msg_hash (te_P E) m], ts_wit := push_wit (ts_wit st) m p ?old w\<rparr>"
    using st' rej g by (auto simp: count_vote_def Let_def of_smt_def p_def w_def)
  have v: "0 \<le> ts_H st'" "ts_H st' < FP" using P s by (simp_all add: hash_law_def)
  have a: "\<alpha> (ts_mt st) ?k = map_option lf_hash (map_of (ts_leaves st) ?k)"
    using inv by (simp add: tally_inv_def)
  have leaf: "map_of (ts_leaves st) ?k = Some u \<Longrightarrow> lf_hash u = te_P E [fst ?old, snd ?old]" for u
    using inv by (auto simp: tally_inv_def old_leaf_def dest!: map_of_SomeD)
  have sib: "length (cp_siblings p) = 64"
    and ver: "tc_smtVerifier C (sv_of p ?r (old0 p) ?k (te_P E [fst ?old, snd ?old]) w)"
    using S g leaf_index_range [of k] a leaf
    by (cases "map_of (ts_leaves st) ?k";
        auto simp: smt_circuit_law_def Let_def p_def w_def STATE_DEPTH_def sv_of_def)+
  note d = decrypt_circuit [OF L b(1,2)]
  have oks: "good_split s (bl_nu b) k \<Longrightarrow> entry_ok C s sk (new_entry m p ?old w)" for s
    using new_entry_ok [OF L b(1,2) _ sib] by (simp add: w_def old_leaf_None)
  obtain pad where pad: "tc_decrypt C (tc_ecdh C sk (ms_R m)) (ms_nonce m) (ms_ct m) =
      Some ([bl_nu b, bl_choice b, bl_keyOld b, bl_keyNew b] @ pad)" using d(1) by blast
  have eq: "tc_isEqual C (bl_keyOld b) (snd ?old) = 0"
    using isEqual_law [OF L d(2) old_leaf_key [OF keys, of ?k]] rej by simp
  have lo: "fst (split (bl_nu b)) = ?k" using b(3) by (auto simp: good_split_def)
  have off: "\<And>i. sp_fnc i = (0, 0) \<Longrightarrow> tc_smtProcessor C i = Some (sp_oldRoot i)"
    using S by (simp add: smt_circuit_law_def)
  have len: "int (length (ts_leaves st)) \<le> 2 ^ 64"
    using inv unfolding tally_inv_def by (intro leaves_bound) auto
  have "\<forall>x \<in> set (fill_tally (ts_counts st)). 0 \<le> x \<and> x < FP"
    using inv n tally_of_field [OF len] by (intro fill_tally_field) (auto simp: tally_inv_def)
  then have ch: "map (\<lambda>j. TallyChoice C 0 (fst ?old) (bl_choice b) (int j + 1) (fill_tally (ts_counts st) ! j))
      [0..<MAX_CHOICES] = fill_tally (ts_counts st)"
    by (intro nth_equalityI) (simp_all add: TallyChoice_def)
  have "TallySingle C 64 MAX_CHOICES split sk 1 (new_entry m p ?old w) (acc_of E st) = Some (acc_of E st')"
    using single_eval [OF oks [OF b(3)], of "bl_nu b" "bl_choice b" "bl_keyOld b" "bl_keyNew b" pad ?k 1 0
        ?r ?r MAX_CHOICES "ts_H st" "fill_tally (ts_counts st)"] pad lo eq ver off v ch
    by (simp add: new_entry_def H sv_of_def s msg_hash_def acc_of_def)
  then show ?thesis using oks keys unfolding step_ok_def prod.case s
    by (intro exI [of _ p] exI [of _ ?old] exI [of _ w]) simp
qed

lemma count_step:
  assumes "tally_circuit_law C E \<alpha>" "tally_inv E \<alpha> n st" "n \<le> MAX_CHOICES" "field_keys (ts_leaves st)"
    and "decrypt_vote E sk m = Inr b" "length (ms_ct m) = CT_LEN" "good_split split (bl_nu b) k"
    and "count_vote E st (m, b\<lparr>bl_nu := k\<rparr>) = Inr st'"
  shows "step_ok C E split sk ((m, b), k) st st'" "tally_inv E \<alpha> n st'"
proof -
  have "smt_law (te_smt E) \<alpha>" "hash_law (te_P E)" using assms(1) by (simp_all add: tally_circuit_law_def)
  then show i: "tally_inv E \<alpha> n st'" using count_vote_inv [OF assms(2) _ _ assms(8)] by blast
  show "step_ok C E split sk ((m, b), k) st st'"
    using accepted_step [OF assms(1,2) i assms(3-7) _ assms(8)] rejected_step [OF assms(1-7) _ assms(8)] by blast
qed

section \<open>A batch satisfies the circuit\<close>

lemma entry_push:
  "wit_len w k \<Longrightarrow> j \<le> k \<Longrightarrow> entry (push_wit w m p old e) j = (if j = k then new_entry m p old e else entry w j)"
  by (auto simp: entry_def push_wit_def new_entry_def wit_len_def nth_append)

lemma push_last_at: "length xs = Suc q \<Longrightarrow> i \<le> Suc q \<Longrightarrow> push_last xs ! i = xs ! min i q"
  by (simp add: push_last_nth nth_append min_def)

lemma entry_pad_once: "wit_len w (Suc q) \<Longrightarrow> i \<le> Suc q \<Longrightarrow> entry (pad_once w) i = entry w (min i q)"
  by (simp add: entry_def pad_once_def wit_len_def push_last_at)

lemma entry_pad:
  "0 < k \<Longrightarrow> k \<le> MAX_BATCH \<Longrightarrow> wit_len w k \<Longrightarrow> j < MAX_BATCH \<Longrightarrow> entry (pad_wit w) j = entry w (min j (k - 1))"
proof (induction w arbitrary: k rule: pad_wit.induct)
  case (1 w)
  have len: "length (w_ephPk w) = k" using 1(4) by (simp add: wit_len_def)
  show ?case
  proof (cases "k < MAX_BATCH")
    case True
    with len have "pad_wit w = pad_wit (pad_once w)" by (subst pad_wit.simps) simp
    moreover have "wit_len (pad_once w) (Suc k)" using wit_pad_once 1 by auto
    moreover have "entry (pad_once w) (min j k) = entry w (min j (k - 1))"
      using 1(2,4) entry_pad_once [of w "k - 1" "min j k"] by (simp add: min.assoc min.absorb2)
    ultimately show ?thesis using 1(1) [of "Suc k"] 1(5) True len by simp
  next
    case False
    with len have "pad_wit w = w" by (subst pad_wit.simps) simp
    with False 1 show ?thesis by (simp add: min_def)
  qed
qed

lemma wit_pad_len: "0 < k \<Longrightarrow> k \<le> MAX_BATCH \<Longrightarrow> wit_len w k \<Longrightarrow> wit_len (pad_wit w) MAX_BATCH"
proof (induction w arbitrary: k rule: pad_wit.induct)
  case (1 w)
  have len: "length (w_ephPk w) = k" using 1(4) by (simp add: wit_len_def)
  show ?case
  proof (cases "k < MAX_BATCH")
    case True
    with len have "pad_wit w = pad_wit (pad_once w)" by (subst pad_wit.simps) simp
    then show ?thesis using 1(1) [of "Suc k"] 1(2,4) wit_pad_once [of k w] True len by simp
  next
    case False
    with len have "pad_wit w = w" by (subst pad_wit.simps) simp
    with False 1 show ?thesis by simp
  qed
qed

lemma run_H: "foldM (count_vote E) st ys = Inr st' \<Longrightarrow> ys = [] \<and> ts_H st' = ts_H st \<or> (\<exists>zs. ts_H st' = te_P E zs)"
proof (induction ys arbitrary: st)
  case (Cons y ys)
  then obtain u where u: "count_vote E st y = Inr u" "foldM (count_vote E) u ys = Inr st'" by (auto simp: rbind_eq_Inr)
  have "\<exists>zs. ts_H u = te_P E zs" using u(1) by (cases y) (auto simp: count_vote_def Let_def rbind_eq_Inr split: if_splits)
  with Cons.IH [OF u(2)] show ?case by auto
qed simp

lemma loop_append:
  "tally_loop C d n split sk bl i (es @ fs) a = (case tally_loop C d n split sk bl i es a of
     None \<Rightarrow> None | Some a' \<Rightarrow> tally_loop C d n split sk bl (i + length es) fs a')"
  by (induction es arbitrary: i a) (auto split: option.splits)

text \<open>A ballot under the index that the prover claims for it.\<close>

definition relabel :: "(message \<times> ballot) \<times> int \<Rightarrow> message \<times> ballot" where
  "relabel x = (fst (fst x), (snd (fst x))\<lparr>bl_nu := snd x\<rparr>)"

definition opened :: "'mt tally_env \<Rightarrow> int \<Rightarrow> message \<times> ballot \<Rightarrow> bool" where
  "opened E sk mb \<longleftrightarrow> decrypt_vote E sk (fst mb) = Inr (snd mb) \<and> length (ms_ct (fst mb)) = CT_LEN"

lemma loop_run:
  assumes law: "tally_circuit_law C E \<alpha>" and n: "n \<le> MAX_CHOICES"
  shows "tally_inv E \<alpha> n st \<Longrightarrow> field_keys (ts_leaves st) \<Longrightarrow> wit_len (ts_wit st) i \<Longrightarrow>
    \<forall>x \<in> set xs. opened E sk (fst x) \<Longrightarrow> foldM (count_vote E) st (map relabel xs) = Inr st' \<Longrightarrow>
    \<forall>j < length xs. good_split (split (i + j)) (bl_nu (snd (fst (xs ! j)))) (snd (xs ! j)) \<and>
      tc_lessThan16 C (int (i + j)) bl = Some 1 \<Longrightarrow>
    wit_len (ts_wit st') (i + length xs) \<and> tally_inv E \<alpha> n st' \<and> field_keys (ts_leaves st') \<and>
    (\<forall>j < i. entry (ts_wit st') j = entry (ts_wit st) j) \<and>
    (\<forall>j < length xs. \<forall>s. good_split s (bl_nu (snd (fst (xs ! j)))) (snd (xs ! j)) \<longrightarrow>
       entry_ok C s sk (entry (ts_wit st') (i + j))) \<and>
    tally_loop C 64 MAX_CHOICES split sk bl i (map (entry (ts_wit st')) [i..<i + length xs]) (acc_of E st) =
      Some (acc_of E st')"
proof (induction xs arbitrary: st i)
  case (Cons x xs)
  obtain m b k where x: "x = ((m, b), k)" by (metis surj_pair)
  have "relabel x = (m, b\<lparr>bl_nu := k\<rparr>)" by (simp add: x relabel_def)
  then obtain u where u: "count_vote E st (m, b\<lparr>bl_nu := k\<rparr>) = Inr u" "foldM (count_vote E) u (map relabel xs) = Inr st'"
    using Cons.prems(5) by (auto simp: rbind_eq_Inr)
  have b: "decrypt_vote E sk m = Inr b" "length (ms_ct m) = CT_LEN" using Cons.prems(4) by (simp_all add: x opened_def)
  have s0: "good_split (split i) (bl_nu b) k" "tc_lessThan16 C (int i) bl = Some 1"
    using Cons.prems(6) [rule_format, of 0] by (simp_all add: x)
  note cs = count_step [OF law Cons.prems(1) n Cons.prems(2) b s0(1) u(1)]
  obtain p old w where st: "ts_wit u = push_wit (ts_wit st) m p old w" "field_keys (ts_leaves u)"
      "\<And>s. good_split s (bl_nu b) k \<Longrightarrow> entry_ok C s sk (new_entry m p old w)"
      "TallySingle C 64 MAX_CHOICES (split i) sk 1 (new_entry m p old w) (acc_of E st) = Some (acc_of E u)"
    using cs(1) unfolding step_ok_def prod.case by blast
  have len: "wit_len (ts_wit u) (Suc i)"
    using Cons.prems(3) by (simp add: st(1) wit_len_def push_wit_def)
  have e: "entry (ts_wit u) j = (if j = i then new_entry m p old w else entry (ts_wit st) j)" if "j \<le> i" for j
    using entry_push [OF Cons.prems(3) that] by (simp add: st(1))
  have nxt: "\<forall>j < length xs. good_split (split (Suc i + j)) (bl_nu (snd (fst (xs ! j)))) (snd (xs ! j)) \<and>
      tc_lessThan16 C (int (Suc i + j)) bl = Some 1"
  proof (intro allI impI)
    fix j assume "j < length xs"
    then show "good_split (split (Suc i + j)) (bl_nu (snd (fst (xs ! j)))) (snd (xs ! j)) \<and>
        tc_lessThan16 C (int (Suc i + j)) bl = Some 1"
      using Cons.prems(6) [rule_format, of "Suc j"] by simp
  qed
  have o: "\<forall>x \<in> set xs. opened E sk (fst x)" using Cons.prems(4) by simp
  note IH = Cons.IH [OF cs(2) st(2) len o u(2) nxt]
  have ei: "entry (ts_wit st') j = (if j = i then new_entry m p old w else entry (ts_wit st) j)" if "j \<le> i" for j
    using IH e that by simp
  have ok: "entry_ok C s sk (entry (ts_wit st') (i + j))"
    if "j < length (x # xs)" "good_split s (bl_nu (snd (fst ((x # xs) ! j)))) (snd ((x # xs) ! j))" for j s
    using that IH ei st(3) by (cases j) (auto simp: x)
  have "[i..<i + length (x # xs)] = i # [Suc i..<Suc i + length xs]" by (simp add: upt_conv_Cons del: upt_Suc)
  then have loop: "tally_loop C 64 MAX_CHOICES split sk bl i (map (entry (ts_wit st')) [i..<i + length (x # xs)])
      (acc_of E st) = Some (acc_of E st')"
    using IH ei [of i] s0(2) st(4) by simp
  have "wit_len (ts_wit st') (i + length (x # xs))" using IH by simp
  moreover have "\<forall>j < i. entry (ts_wit st') j = entry (ts_wit st) j" using ei by simp
  ultimately show ?case using IH ok loop by blast
qed simp

text \<open>The padding of a batch is switched off.\<close>

lemma loop_off:
  assumes law: "smt_circuit_law C S \<alpha>" and field: "0 \<le> c" "c < FP" "\<forall>x \<in> set t. 0 \<le> x \<and> x < FP"
    and len: "length t = MAX_CHOICES"
  shows "(\<And>j. j < length es \<Longrightarrow> entry_ok C (split (i + j)) sk (es ! j) \<and> tc_lessThan16 C (int (i + j)) bl = Some 0) \<Longrightarrow>
    tally_loop C 64 MAX_CHOICES split sk bl i es (r, c, t) = Some (r, c, t)"
proof (induction es arbitrary: i)
  case (Cons e es)
  have "entry_ok C (split i) sk e" "tc_lessThan16 C (int i) bl = Some 0" using Cons.prems [of 0] by simp_all
  moreover have "tally_loop C 64 MAX_CHOICES split sk bl (Suc i) es (r, c, t) = Some (r, c, t)"
  proof (rule Cons.IH)
    fix j assume "j < length es"
    then show "entry_ok C (split (Suc i + j)) sk (es ! j) \<and> tc_lessThan16 C (int (Suc i + j)) bl = Some 0"
      using Cons.prems [of "Suc j"] by simp
  qed
  ultimately show ?case using single_off [OF _ law field, of "split i" sk e r] len by simp
qed simp

text \<open>The inputs for a batch that started in \<open>st0\<close> and ended in \<open>st\<close>.\<close>

definition batch_inputs ::
  "'mt tally_env \<Rightarrow> int \<Rightarrow> int \<Rightarrow> int \<Rightarrow> nat \<Rightarrow> 'mt tstate \<Rightarrow> 'mt tstate \<Rightarrow> tally_inputs" where
  "batch_inputs E sk saltOld saltNew len st0 st = \<lparr>ti_rootOld = smt_root (te_smt E) (ts_mt st0),
     ti_cumulativeMsgHashOld = ts_H st0, ti_tallySaltOld = saltOld, ti_tallySaltNew = saltNew,
     ti_tallyOld = fill_tally (ts_counts st0), ti_batchLen = int len, ti_tallierSk = sk,
     ti_wit = pad_wit (ts_wit st)\<rparr>"

definition start_ok :: "'mt tally_env \<Rightarrow> ('mt \<Rightarrow> int \<Rightarrow> int option) \<Rightarrow> nat \<Rightarrow> 'mt tstate \<Rightarrow> bool" where
  "start_ok E \<alpha> n st0 \<longleftrightarrow> tally_inv E \<alpha> n st0 \<and> field_keys (ts_leaves st0) \<and> n \<le> MAX_CHOICES \<and>
     ts_wit st0 = no_wit \<and> 0 \<le> ts_H st0 \<and> ts_H st0 < FP \<and>
     (ts_H st0 = 0 \<longrightarrow> (\<forall>x \<in> set (ts_counts st0). x = 0))"

lemma counts_field:
  "tally_inv E \<alpha> n st \<Longrightarrow> n \<le> MAX_CHOICES \<Longrightarrow> \<forall>x \<in> set (fill_tally (ts_counts st)). 0 \<le> x \<and> x < FP"
proof -
  assume i: "tally_inv E \<alpha> n st" "n \<le> MAX_CHOICES"
  then have "int (length (ts_leaves st)) \<le> 2 ^ 64" unfolding tally_inv_def by (intro leaves_bound) auto
  from tally_of_field [OF this] i show ?thesis by (intro fill_tally_field) (auto simp: tally_inv_def)
qed

lemma tally_accepts:
  assumes law: "tally_circuit_law C E \<alpha>" and start: "start_ok E \<alpha> n st0"
    and xs: "xs \<noteq> []" "length xs \<le> MAX_BATCH" "\<forall>x \<in> set xs. opened E sk (fst x)"
    and run: "foldM (count_vote E) st0 (map relabel xs) = Inr st"
    and split: "\<And>j. j < MAX_BATCH \<Longrightarrow> good_split (split j)
      (bl_nu (snd (fst (xs ! min j (length xs - 1))))) (snd (xs ! min j (length xs - 1)))"
  shows "Tally C 64 MAX_CHOICES MAX_BATCH split (batch_inputs E sk saltOld saltNew (length xs) st0 st) =
    Some (te_P E (saltOld # fill_tally (ts_counts st0)), smt_root (te_smt E) (ts_mt st), ts_H st,
      te_P E (saltNew # fill_tally (ts_counts st)))"
proof -
  let ?l = "length xs" and ?w = "pad_wit (ts_wit st)"
  have inv: "tally_inv E \<alpha> n st0" "field_keys (ts_leaves st0)" "n \<le> MAX_CHOICES" "wit_len (ts_wit st0) 0"
    using start by (simp_all add: start_ok_def no_wit_def wit_len_def)
  have L: "circuit_lib_law C E" "smt_circuit_law C (te_smt E) \<alpha>" using law by (simp_all add: tally_circuit_law_def)
  have H: "tc_H C = te_P E" using L(1) by (simp add: circuit_lib_law_def)
  have lt: "tc_lessThan16 C (int j) (int ?l) = Some (if j < ?l then 1 else 0)" if "j < MAX_BATCH" for j
    using L(1) xs(2) that unfolding circuit_lib_law_def MAX_BATCH_def by simp
  have "\<forall>j < ?l. good_split (split (0 + j)) (bl_nu (snd (fst (xs ! j)))) (snd (xs ! j)) \<and>
      tc_lessThan16 C (int (0 + j)) (int ?l) = Some 1"
  proof (intro allI impI)
    fix j assume j: "j < ?l"
    then have "j < MAX_BATCH" "min j (?l - 1) = j" using xs(2) by simp_all
    then show "good_split (split (0 + j)) (bl_nu (snd (fst (xs ! j)))) (snd (xs ! j)) \<and>
        tc_lessThan16 C (int (0 + j)) (int ?l) = Some 1"
      using split [of j] lt [of j] j by simp
  qed
  note run' = loop_run [OF law inv(3,1,2,4) xs(3) run this]
  have pos: "0 < ?l" using xs(1) by simp
  have wl: "wit_len (ts_wit st) ?l" using run' by simp
  have wp: "wit_len ?w MAX_BATCH" by (rule wit_pad_len [OF pos xs(2) wl])
  have e: "entry ?w j = entry (ts_wit st) (min j (?l - 1))" if "j < MAX_BATCH" for j
    by (rule entry_pad [OF pos xs(2) wl that])
  have first: "map (entry ?w) [0..<?l] = map (entry (ts_wit st)) [0..<?l]"
    using e xs(2) by (intro map_cong) (auto simp: min_def)
  obtain r c t where a: "acc_of E st = (r, c, t)" by (metis surj_pair)
  have h: "0 \<le> ts_H st" "ts_H st < FP" using run_H [OF run] start law
    by (auto simp: start_ok_def tally_circuit_law_def hash_law_def)
  have rest: "tally_loop C 64 MAX_CHOICES split sk (int ?l) ?l (map (entry ?w) [?l..<MAX_BATCH]) (acc_of E st)
      = Some (acc_of E st)"
    unfolding acc_of_def
  proof (rule loop_off [OF L(2) h])
    show "\<forall>x \<in> set (fill_tally (ts_counts st)). 0 \<le> x \<and> x < FP" using counts_field run' inv(3) by blast
    fix j assume "j < length (map (entry ?w) [?l..<MAX_BATCH])"
    then have j: "?l + j < MAX_BATCH" by simp
    then show "entry_ok C (split (?l + j)) sk (map (entry ?w) [?l..<MAX_BATCH] ! j) \<and>
        tc_lessThan16 C (int (?l + j)) (int ?l) = Some 0"
      using run' split [OF j] e [OF j] lt [OF j] pos by simp
  qed simp
  have head: "tally_loop C 64 MAX_CHOICES split sk (int ?l) 0 (map (entry ?w) [0..<?l]) (acc_of E st0) = Some (acc_of E st)"
    unfolding first using run' by simp
  have "[0..<MAX_BATCH] = [0..<?l] @ [?l..<MAX_BATCH]" using xs(2) upt_add_eq_append [of 0 ?l "MAX_BATCH - ?l"] by simp
  then have "tally_loop C 64 MAX_CHOICES split sk (int ?l) 0 (map (entry ?w) [0..<MAX_BATCH]) (acc_of E st0) = Some (acc_of E st)"
    using head rest by (simp add: loop_append)
  moreover have "list_all (\<lambda>x. (tc_isZero C (ts_H st0) * x) mod FP = 0) (fill_tally (ts_counts st0))"
  proof (cases "ts_H st0 = 0")
    case True
    then have "\<forall>x \<in> set (ts_counts st0). x = 0" using start by (simp add: start_ok_def)
    then have "\<forall>x \<in> set (fill_tally (ts_counts st0)). x = 0"
      by (auto simp: fill_tally_def at_def split: if_splits)
    then show ?thesis by (auto simp: list_all_iff)
  next
    case False
    then have "tc_isZero C (ts_H st0) = 0" using L(1) start by (simp add: circuit_lib_law_def start_ok_def)
    then show ?thesis by (simp add: list_all_iff)
  qed
  ultimately show ?thesis using wp by (simp add: Tally_def batch_inputs_def acc_of_def H Let_def)
qed

end
