(* ===== verification/TallyCircuitClaims.thy ===== *)
theory TallyCircuitClaims
  imports TallyCircuitCorrect VoteCorrect
begin

text \<open>
  The properties of the tally circuit: it accepts what the panel counts, its running hash is
  forced by the messages of the batch, and the nullifier indices of the ballots are the
  prover's to choose.
\<close>

lemma fold_open:
  "foldM (tally_vote E sk) st rows = Inr st' \<Longrightarrow>
   \<exists>mbs. mapM (open_vote E sk) rows = Inr mbs \<and> foldM (count_vote E) st mbs = Inr st'"
proof (induction rows arbitrary: st)
  case (Cons r rows)
  then obtain u where u: "tally_vote E sk st r = Inr u" "foldM (tally_vote E sk) u rows = Inr st'"
    by (auto simp: rbind_eq_Inr)
  obtain mb where mb: "open_vote E sk r = Inr mb" "count_vote E st mb = Inr u"
    using u(1) by (auto simp: tally_vote_open rbind_eq_Inr)
  with Cons.IH [OF u(2)] show ?case by auto
qed simp

lemma mapM_opened:
  "mapM (open_vote E sk) rows = Inr mbs \<Longrightarrow> \<forall>v \<in> set rows. \<forall>m. read_vote v = Inr m \<longrightarrow> length (ms_ct m) = CT_LEN \<Longrightarrow>
   length mbs = length rows \<and> (\<forall>mb \<in> set mbs. opened E sk mb)"
proof (induction rows arbitrary: mbs)
  case (Cons r rows)
  then obtain mb zs where z: "open_vote E sk r = Inr mb" "mapM (open_vote E sk) rows = Inr zs" "mbs = mb # zs"
    by (auto simp: rbind_eq_Inr)
  have "opened E sk mb" using z(1) Cons.prems(2) by (auto simp: open_vote_def opened_def rbind_eq_Inr)
  with Cons.IH [OF z(2)] Cons.prems(2) z(3) show ?case by simp
qed simp

lemma count_ballots:
  assumes S: "smt_law (te_smt E) \<alpha>" and P: "hash_law (te_P E)"
  shows "tally_inv E \<alpha> n st \<Longrightarrow> \<forall>mb \<in> set mbs. in_choices n (bl_choice (snd mb)) \<Longrightarrow>
    \<exists>st'. foldM (count_vote E) st mbs = Inr st' \<and> tally_inv E \<alpha> n st' \<and>
      board_of (ts_leaves st') = foldl cast_ballot (board_of (ts_leaves st)) (map snd mbs) \<and>
      ts_H st' = foldl (\<lambda>h m. te_P E [h, msg_hash (te_P E) m]) (ts_H st) (map fst mbs)"
proof (induction mbs arbitrary: st)
  case (Cons mb mbs)
  obtain m b where mb: "mb = (m, b)" by (cases mb)
  obtain u where u: "count_vote E st (m, b) = Inr u"
      "board_of (ts_leaves u) = cast_ballot (board_of (ts_leaves st)) b"
      "ts_H u = te_P E [ts_H st, msg_hash (te_P E) m]"
    using count_vote_board [OF Cons.prems(1) S P, of b m] Cons.prems(2) mb by auto
  have "tally_inv E \<alpha> n u" using count_vote_inv [OF Cons.prems(1) S P u(1)] .
  from Cons.IH [OF this] Cons.prems(2) u mb show ?case by auto
qed simp

section \<open>Completeness\<close>

lemma own_index: "relabel (mb, bl_nu (snd mb)) = mb"
  by (simp add: relabel_def)

text \<open>What a store must satisfy for the circuit: its keys and its running hash are field
  elements, and the hash is not zero (which is what the circuit takes the first batch by).\<close>

definition store_field :: "tally_store option \<Rightarrow> bool" where
  "store_field store = (case store of None \<Rightarrow> True
     | Some st \<Rightarrow> field_keys (to_leaves st) \<and> (\<exists>H. 0 < H \<and> H < FP \<and> to_runningMsgHashHex st = toHex32 H))"

lemma start_tally_field:
  assumes "tally_circuit_law C (pa_tally V) \<alpha>" "store_inv (pa_tally V) \<alpha> (pa_nChoices V) store"
    and "store_field store" "pa_nChoices V \<le> MAX_CHOICES" "start_tally V store = Inr st0"
  shows "start_ok (pa_tally V) \<alpha> (pa_nChoices V) st0"
proof -
  have l: "smt_law (te_smt (pa_tally V)) \<alpha>" "hash_law (te_P (pa_tally V))"
    using assms(1) by (simp_all add: tally_circuit_law_def)
  have i: "tally_inv (pa_tally V) \<alpha> (pa_nChoices V) st0" "ts_wit st0 = no_wit" "ts_leaves st0 = store_leaves store"
    using start_tally_ok [OF l refl assms(2)] assms(5) by auto
  show ?thesis
  proof (cases store)
    case None
    then show ?thesis using i assms(4,5)
      by (auto simp: start_ok_def start_tally_def store_leaves_def field_keys_def Let_def)
  next
    case (Some st)
    then obtain H where H: "0 < H" "H < FP" "to_runningMsgHashHex st = toHex32 H" "field_keys (to_leaves st)"
      using assms(3) by (auto simp: store_field_def)
    then have "hex_field (to_runningMsgHashHex st) = Inr H" by (simp only: hex_field_def hex_toHex32_id)
    then have "ts_H st0 = H" using assms(5) Some by (auto simp: start_tally_def Let_def rbind_eq_Inr)
    then show ?thesis using i H Some assms(4) by (simp add: start_ok_def store_leaves_def)
  qed
qed

lemma counted_batch_accepted:
  assumes "tally_circuit_law C (pa_tally V) \<alpha>" "store_inv (pa_tally V) \<alpha> (pa_nChoices V) store"
    and "store_field store" "pa_nChoices V \<le> MAX_CHOICES"
    and "count_batch V store sk batch = Inr c" "batch \<noteq> []" "length batch \<le> MAX_BATCH"
    and "\<forall>v \<in> set batch. \<forall>m. read_vote v = Inr m \<longrightarrow> length (ms_ct m) = CT_LEN"
  shows "main_tally C (cn_inputs c) = Some (te_P (pa_tally V) (cn_saltOld c # cn_tallyOld c), cn_rootNew c,
    ts_H (cn_st c), cn_tallyHashNew c)"
proof -
  let ?E = "pa_tally V"
  have l: "smt_law (te_smt ?E) \<alpha>" "hash_law (te_P ?E)" using assms(1) by (simp_all add: tally_circuit_law_def)
  obtain st0 where st0: "start_tally V store = Inr st0" "tally_inv ?E \<alpha> (pa_nChoices V) st0"
    using start_tally_ok [OF l refl assms(2)] by blast
  note start = start_tally_field [OF assms(1-4) st0(1)]
  obtain st countsOld where c: "foldM (tally_vote ?E sk) st0 batch = Inr st" "cn_st c = st"
      "cn_rootNew c = smt_root (te_smt ?E) (ts_mt st)" "cn_tallyOld c = fill_tally countsOld"
      "cn_tallyHashNew c = te_P ?E (cn_saltNew c # fill_tally (ts_counts st))"
      "(case store of None \<Rightarrow> Inr [] | Some s \<Rightarrow> mapM bigint_of_string (to_tallyCounts s)) = Inr countsOld"
      "cn_inputs c = \<lparr>ti_rootOld = smt_root (te_smt ?E) (ts_mt st0), ti_cumulativeMsgHashOld = ts_H st0,
         ti_tallySaltOld = cn_saltOld c, ti_tallySaltNew = cn_saltNew c, ti_tallyOld = fill_tally countsOld,
         ti_batchLen = int (length batch), ti_tallierSk = sk, ti_wit = pad_wit (ts_wit st)\<rparr>"
    using assms(5) st0(1) by (auto simp: count_batch_def Let_def rbind_eq_Inr)
  have old: "fill_tally countsOld = fill_tally (ts_counts st0)"
  proof (cases store)
    case None
    then have "ts_counts st0 = replicate (pa_nChoices V) 0" "countsOld = []"
      using st0(1) c(6) by (auto simp: start_tally_def Let_def)
    then show ?thesis by (simp add: fill_tally_def at_def)
  next
    case (Some s)
    then show ?thesis using st0(1) c(6) by (auto simp: start_tally_def Let_def rbind_eq_Inr)
  qed
  obtain mbs where mbs: "mapM (open_vote ?E sk) batch = Inr mbs" "foldM (count_vote ?E) st0 mbs = Inr st"
    using fold_open [OF c(1)] by blast
  define xs where "xs = map (\<lambda>mb. (mb, bl_nu (snd mb))) mbs"
  have o: "length mbs = length batch" "\<forall>mb \<in> set mbs. opened ?E sk mb"
    using mapM_opened [OF mbs(1) assms(8)] by auto
  have x: "xs \<noteq> []" "length xs \<le> MAX_BATCH" "\<forall>x \<in> set xs. opened ?E sk (fst x)" "map relabel xs = mbs"
      "length xs = length batch"
    using o assms(6,7) by (auto simp: xs_def own_index comp_def)
  have split: "good_split (nu_split 64) (bl_nu (snd (fst (xs ! min j (length xs - 1)))))
      (snd (xs ! min j (length xs - 1)))" for j
  proof -
    have "min j (length xs - 1) < length mbs" using x(1) by (cases mbs) (auto simp: xs_def)
    then show ?thesis using good_nu_split by (simp add: xs_def)
  qed
  have run: "foldM (count_vote ?E) st0 (map relabel xs) = Inr st" using mbs(2) by (simp only: x(4))
  have inp: "cn_inputs c = batch_inputs ?E sk (cn_saltOld c) (cn_saltNew c) (length xs) st0 st"
    by (simp add: c(7) batch_inputs_def old x(5))
  have par: "main_tally C = Tally C 64 MAX_CHOICES MAX_BATCH (\<lambda>_. nu_split 64)"
    by (simp add: main_tally_def MAX_CHOICES_def MAX_BATCH_def fun_eq_iff)
  from tally_accepts [OF assms(1) start x(1-3) run split, of "cn_saltOld c" "cn_saltNew c"]
  show ?thesis unfolding par inp by (simp add: c(2-5) old)
qed

text \<open>
  C5: whatever batch the panel counts without an error, the inputs that it gives to the prover
  satisfy every constraint of the tally circuit (with the hints of the witness generator), and
  the public outputs are the values that the panel computed itself and compares: the commitment
  to the old counts, the new root, the running hash, the commitment to the new counts.
\<close>

theorem counted_batch_satisfies_circuit:
  assumes "tally_circuit_law C (pa_tally V) \<alpha>" "store_inv (pa_tally V) \<alpha> (pa_nChoices V) store"
    and "store_field store" "pa_nChoices V \<le> MAX_CHOICES"
    and "count_batch V store sk batch = Inr c" "batch \<noteq> []" "length batch \<le> MAX_BATCH"
    and "\<forall>v \<in> set batch. \<forall>m. read_vote v = Inr m \<longrightarrow> length (ms_ct m) = CT_LEN"
  shows "main_tally C (cn_inputs c) = Some (te_P (pa_tally V) (cn_saltOld c # cn_tallyOld c), cn_rootNew c,
    ts_H (cn_st c), cn_tallyHashNew c)"
  using assms by (rule counted_batch_accepted)

section \<open>What a proof says\<close>

text \<open>The message hashes of the first \<open>k\<close> entries.\<close>

definition entry_hash :: "circuit_lib \<Rightarrow> tally_entry \<Rightarrow> int" where
  "entry_hash C e = tc_H C ([fst (en_ephPk e), snd (en_ephPk e), en_nonce e] @ en_ciphertext e)"

lemma single_hash:
  "TallySingle C d n split sk en e (r, c, t) = Some (r', c', t') \<Longrightarrow>
   c' = (c + en * (tc_H C [c, entry_hash C e] - c)) mod FP"
  by (auto simp: TallySingle_def entry_hash_def Let_def split: option.splits if_splits prod.splits)

lemma loop_hash:
  assumes H: "\<And>xs. 0 \<le> tc_H C xs \<and> tc_H C xs < FP"
    and lt: "\<And>j x. j < N \<Longrightarrow> tc_lessThan16 C (int j) bl = Some x \<Longrightarrow> x = (if j < len then 1 else 0)"
  shows "tally_loop C d n split sk bl i es (r, c, t) = Some (r', c', t') \<Longrightarrow> i + length es \<le> N \<Longrightarrow> 0 \<le> c \<Longrightarrow> c < FP \<Longrightarrow>
    c' = foldl (\<lambda>h e. tc_H C [h, entry_hash C e]) c (take (len - i) es)"
proof (induction es arbitrary: i r c t)
  case (Cons e es)
  obtain x r1 c1 t1 where s: "tc_lessThan16 C (int i) bl = Some x"
      "TallySingle C d n (split i) sk x e (r, c, t) = Some (r1, c1, t1)"
      "tally_loop C d n split sk bl (Suc i) es (r1, c1, t1) = Some (r', c', t')"
    using Cons.prems(1) by (auto split: option.splits)
  have c1: "c1 = (if i < len then tc_H C [c, entry_hash C e] else c)"
    using single_hash [OF s(2)] lt [OF _ s(1)] H Cons.prems(2-4) by (simp split: if_splits)
  from Cons.IH [OF s(3)] c1 H Cons.prems(2-4)
  have "c' = foldl (\<lambda>h e. tc_H C [h, entry_hash C e]) c1 (take (len - Suc i) es)" by simp
  then show ?case using c1 Suc_diff_Suc [of i len] by (cases "i < len") (simp_all flip: Suc_diff_Suc)
qed simp

text \<open>The length that a prover claims: a field element from \<open>0\<close> to \<open>2 ^ 16\<close>, or a negative one.\<close>

definition claimed_len :: "int \<Rightarrow> nat" where
  "claimed_len b = (if b mod FP \<le> 2 ^ 16 then nat (b mod FP) else 0)"

lemma less_than16_claimed:
  assumes "less_than16 0 b \<noteq> None" "less_than16 (int j) b = Some x" "j < 2 ^ 16"
  shows "x = (if j < claimed_len b then 1 else 0)"
proof -
  let ?c = "b mod FP"
  have c: "0 \<le> ?c" "?c < FP" by (simp_all add: FP_def)
  have m: "(int k + 2 ^ 16 - b) mod FP = (int k + 2 ^ 16 - ?c) mod FP" for k by (simp add: mod_diff_right_eq)
  have d0: "(2 ^ 16 - ?c) mod FP < 2 ^ 17" using assms(1) m [of 0] by (auto simp: less_than16_def Let_def split: if_splits)
  have dj: "(int j + 2 ^ 16 - ?c) mod FP < 2 ^ 17" "x = 1 - (int j + 2 ^ 16 - ?c) mod FP div 2 ^ 16"
    using assms(2) m [of j] by (auto simp: less_than16_def Let_def split: if_splits)
  show ?thesis
  proof (cases "?c \<le> 2 ^ 16")
    case True
    then have e: "(int j + 2 ^ 16 - ?c) mod FP = int j + 2 ^ 16 - ?c" using c(1) assms(3) by (intro mod_pos_pos_trivial) (simp_all add: FP_def)
    have "int j < 2 ^ 16" using assms(3) by simp
    with c(1) have "int j - ?c < 2 ^ 16" by linarith
    then have "(int j + 2 ^ 16 - ?c) div 2 ^ 16 = (if int j < ?c then 0 else 1)"
      using True c(1) assms(3) int_div_pos_eq [of "int j + 2 ^ 16 - ?c" "2 ^ 16" 1 "int j - ?c"] by auto
    then show ?thesis using True dj(2) c(1) unfolding e by (auto simp: claimed_len_def)
  next
    case False
    have wrap: "(y - ?c) mod FP = y - ?c + FP" if "0 \<le> y" "y < ?c" for y
    proof -
      have "(y - ?c) mod FP = (y - ?c + FP) mod FP" by simp
      also have "\<dots> = y - ?c + FP" using that c by (intro mod_pos_pos_trivial) linarith+
      finally show ?thesis .
    qed
    have big: "?c > FP - 2 ^ 16" using d0 wrap [of "2 ^ 16"] False by simp
    then have "int j + 2 ^ 16 < ?c" using assms(3) by (simp add: FP_def)
    then have e: "(int j + 2 ^ 16 - ?c) mod FP = int j + 2 ^ 16 - ?c + FP" by (intro wrap) simp_all
    have "0 \<le> int j - ?c + FP" using c(2) by linarith
    moreover have "int j - ?c + FP < 2 ^ 16" using dj(1) unfolding e by simp
    ultimately have "(int j + 2 ^ 16 - ?c + FP) div 2 ^ 16 = 1"
      by (intro int_div_pos_eq [where r = "int j - ?c + FP"]) linarith+
    then show ?thesis using False dj(2) unfolding e by (simp add: claimed_len_def)
  qed
qed

definition less_than_law :: "circuit_lib \<Rightarrow> bool" where
  "less_than_law C \<longleftrightarrow> (\<forall>x y. tc_lessThan16 C x y = less_than16 x y)"

text \<open>
  C6: no prover can lie about the messages: in every accepted witness, with whatever hints and
  whatever private inputs, the new running hash is the hash chain from the old one over exactly the
  first messages of the batch, as many as the length that the prover claims (none where the claimed
  length is a negative field element; all that there are where it is beyond the batch), and the
  first output is the commitment to the old counts.
\<close>

theorem accepted_batch_hashes_messages:
  assumes "Tally C depth max_choices max_batch split i = Some (h, root, cum, h')"
    and "circuit_lib_law C E" "hash_law (te_P E)" "less_than_law C" "max_batch \<le> 2 ^ 16"
    and "0 \<le> ti_cumulativeMsgHashOld i" "ti_cumulativeMsgHashOld i < FP"
  shows "h = te_P E (ti_tallySaltOld i # ti_tallyOld i) \<and>
    cum = foldl (\<lambda>h e. te_P E [h, entry_hash C e]) (ti_cumulativeMsgHashOld i)
      (map (entry (ti_wit i)) [0..<min (claimed_len (ti_batchLen i)) max_batch])"
proof -
  let ?es = "map (entry (ti_wit i)) [0..<max_batch]" and ?len = "claimed_len (ti_batchLen i)"
  have H: "tc_H C = te_P E" using assms(2) by (simp add: circuit_lib_law_def)
  have range: "0 \<le> tc_H C xs \<and> tc_H C xs < FP" for xs using assms(3) by (simp add: H hash_law_def)
  obtain t where t: "tally_loop C depth max_choices split (ti_tallierSk i) (ti_batchLen i) 0 ?es
      (ti_rootOld i, ti_cumulativeMsgHashOld i, ti_tallyOld i) = Some (root, cum, t)"
    using assms(1) by (auto simp: Tally_def Let_def split: if_splits option.splits prod.splits)
  have lt: "x = (if j < ?len then 1 else 0)"
    if "j < max_batch" "tc_lessThan16 C (int j) (ti_batchLen i) = Some x" for j x
  proof -
    have "?es = entry (ti_wit i) 0 # map (entry (ti_wit i)) [1..<max_batch]" using that(1) by (simp add: upt_rec)
    then have "tc_lessThan16 C 0 (ti_batchLen i) \<noteq> None" using t by (auto split: option.splits)
    with that assms(4,5) show ?thesis by (intro less_than16_claimed) (auto simp: less_than_law_def)
  qed
  have "cum = foldl (\<lambda>h e. tc_H C [h, entry_hash C e]) (ti_cumulativeMsgHashOld i) (take ?len ?es)"
    using loop_hash [where N = max_batch and len = ?len, OF range lt t] assms(6,7) by simp
  moreover have "take ?len ?es = map (entry (ti_wit i)) [0..<min ?len max_batch]"
    by (simp add: take_map take_upt min_def)
  moreover have "h = te_P E (ti_tallySaltOld i # ti_tallyOld i)"
    using assms(1) by (auto simp: Tally_def Let_def H split: if_splits option.splits prod.splits)
  ultimately show ?thesis by (simp add: H)
qed

section \<open>What a proof does not say\<close>

text \<open>
  C7: the index at which a ballot is counted is the prover's choice. For any assignment of
  indices to the ballots of a batch there are inputs with the same messages, and hints, that
  the circuit accepts, and the proof then commits to the result of the election in which every
  ballot had the assigned index: two ballots of one voter can be counted as two votes. (The
  constraint on \<open>nuLo\<close> and \<open>nuHi\<close> is one linear equation in the field.)
\<close>

theorem prover_chooses_indices:
  assumes law: "tally_circuit_law C E \<alpha>" and start: "start_ok E \<alpha> n st0"
    and xs: "xs \<noteq> []" "length xs \<le> MAX_BATCH"
    and ballots: "\<forall>x \<in> set xs. opened E sk (fst x) \<and> in_choices n (bl_choice (snd (fst x)))"
  shows "\<exists>split i root. Tally C 64 MAX_CHOICES MAX_BATCH split i = Some
      (te_P E (saltOld # fill_tally (ts_counts st0)), root,
       foldl (\<lambda>h m. te_P E [h, msg_hash (te_P E) m]) (ts_H st0) (map (fst \<circ> fst) xs),
       te_P E (saltNew # fill_tally (result n
         (foldl cast_ballot (board_of (ts_leaves st0)) (map (\<lambda>((m, b), k). b\<lparr>bl_nu := k\<rparr>) xs))))) \<and>
    ti_rootOld i = smt_root (te_smt E) (ts_mt st0) \<and> ti_cumulativeMsgHashOld i = ts_H st0"
proof -
  have S: "smt_law (te_smt E) \<alpha>" and P: "hash_law (te_P E)" using law by (simp_all add: tally_circuit_law_def)
  have inv: "tally_inv E \<alpha> n st0" using start by (simp add: start_ok_def)
  have c: "\<forall>mb \<in> set (map relabel xs). in_choices n (bl_choice (snd mb))" using ballots by (auto simp: relabel_def)
  obtain st where st: "foldM (count_vote E) st0 (map relabel xs) = Inr st" "tally_inv E \<alpha> n st"
      "board_of (ts_leaves st) = foldl cast_ballot (board_of (ts_leaves st0)) (map snd (map relabel xs))"
      "ts_H st = foldl (\<lambda>h m. te_P E [h, msg_hash (te_P E) m]) (ts_H st0) (map fst (map relabel xs))"
    using count_ballots [OF S P inv c] by blast
  let ?split = "\<lambda>j. claim_index (snd (xs ! min j (length xs - 1)))"
  have o: "\<forall>x \<in> set xs. opened E sk (fst x)" using ballots by blast
  note acc = tally_accepts [OF law start xs o st(1) good_claim, of saltOld saltNew]
  have f: "snd \<circ> relabel = (\<lambda>((m, b), k). b\<lparr>bl_nu := k\<rparr>)" "fst \<circ> relabel = fst \<circ> fst"
    by (auto simp: relabel_def fun_eq_iff)
  have "ts_H st = foldl (\<lambda>h m. te_P E [h, msg_hash (te_P E) m]) (ts_H st0) (map (fst \<circ> fst) xs)"
      "ts_counts st = result n (foldl cast_ballot (board_of (ts_leaves st0)) (map (\<lambda>((m, b), k). b\<lparr>bl_nu := k\<rparr>) xs))"
    using result_board_counts [OF st(2)] st(3,4) by (simp_all add: f)
  then show ?thesis using acc
    by (intro exI [of _ ?split] exI [of _ "batch_inputs E sk saltOld saltNew (length xs) st0 st"]
        exI [of _ "smt_root (te_smt E) (ts_mt st)"]) (simp add: batch_inputs_def)
qed

section \<open>An instance\<close>

text \<open>A tree with proofs of the right length whose root says nothing, templates to match, the
  sum as the hash and a cipher that sends the plain text.\<close>

definition wide_proof :: circom_proof where
  "wide_proof = \<lparr>cp_fnc = 1, cp_isOld0 = True, cp_oldKey = 0, cp_oldValue = 0, cp_siblings = replicate 64 0\<rparr>"

definition wide_smt :: "(int \<Rightarrow> int option) smt" where
  "wide_smt = \<lparr>smt_new = Map.empty,
     smt_add = (\<lambda>t k v. if t k = None then Inr (t(k \<mapsto> v)) else Inl EntryIndexAlreadyExists),
     smt_addProof = (\<lambda>t k v. if t k = None then Inr (wide_proof, t(k \<mapsto> v))
       else Inl EntryIndexAlreadyExists),
     smt_update = (\<lambda>t k v. Inr (wide_proof, t(k \<mapsto> v))),
     smt_gen = (\<lambda>t k. Inr wide_proof),
     smt_root = (\<lambda>t. 0)\<rparr>"

definition wide_env :: "(int \<Rightarrow> int option) tally_env" where
  "wide_env = \<lparr>te_P = sum_hash, te_mul = (\<lambda>R s. R),
     te_decrypt = (\<lambda>ct shared nonce k. if list_all (\<lambda>x. 0 \<le> x \<and> x < FP) ct then Inr (take k ct) else Inl TypeError),
     te_smt = wide_smt\<rparr>"

definition wide_lib :: circuit_lib where
  "wide_lib = \<lparr>tc_perm = (\<lambda>xs. [sum_hash (tl xs)]), tc_isZero = (\<lambda>x. if x = 0 then 1 else 0),
     tc_isEqual = (\<lambda>x y. if x = y then 1 else 0), tc_lessThan16 = less_than16,
     tc_ecdh = (\<lambda>sk R. R), tc_decrypt = (\<lambda>key nonce ct. Some ct),
     tc_smtVerifier = (\<lambda>i. True), tc_smtProcessor = (\<lambda>i. Some (sp_oldRoot i))\<rparr>"

lemma CT_LEN_eq: "CT_LEN = 7"
  by (simp add: CT_LEN_def PAD_def LIMBS_def)

lemma wide_law: "tally_circuit_law wide_lib wide_env (\<lambda>t. t)"
proof -
  have P: "hash_law sum_hash" by (simp add: hash_law_def sum_hash_range)
  moreover have "tc_H wide_lib = sum_hash" by (simp add: wide_lib_def PoseidonHasher_def fun_eq_iff)
  moreover have "\<exists>pad. ct = take 4 ct @ pad" for ct :: "int list" by (metis append_take_drop_id)
  ultimately have "circuit_lib_law wide_lib wide_env"
    by (auto simp: circuit_lib_law_def wide_env_def sum_hash_zero list_all_iff CT_LEN_eq LIMBS_def less_than16_small dest: in_set_takeD
        split: if_splits) (auto simp: wide_lib_def less_than16_small)
  moreover have "smt_law wide_smt (\<lambda>t. t)" by (auto simp: smt_law_def wide_smt_def)
  moreover have "smt_circuit_law wide_lib wide_smt (\<lambda>t. t)"
    by (auto simp: smt_circuit_law_def wide_lib_def wide_smt_def wide_proof_def STATE_DEPTH_def sp_of_def Let_def)
  ultimately show ?thesis using P by (simp add: tally_circuit_law_def wide_env_def)
qed

text \<open>Two ballots of one voter, both under the key of an empty leaf, for the choices 2 and 1.\<close>

definition wide_message :: "int \<Rightarrow> message" where
  "wide_message c = \<lparr>ms_R = (1, 2), ms_nonce = 7, ms_ct = [5, c, HASH0, 77, 0, 0, 0]\<rparr>"

definition wide_ballot :: "int \<Rightarrow> ballot" where
  "wide_ballot c = \<lparr>bl_nu = 5, bl_choice = c, bl_keyOld = HASH0, bl_keyNew = 77\<rparr>"

definition wide_rows :: "vote_row list" where
  "wide_rows = [plain_row ''1'' [5, 2, HASH0, 77, 0, 0, 0], plain_row ''2'' [5, 1, HASH0, 77, 0, 0, 0]]"

lemma opened_wide: "0 \<le> c \<Longrightarrow> c < 1000 \<Longrightarrow> opened wide_env sk (wide_message c, wide_ballot c)"
  using HASH0_range
  by (simp add: opened_def wide_message_def wide_ballot_def decrypt_vote_def wide_env_def CT_LEN_eq LIMBS_def small_FP)

lemma read_wide_row: "0 \<le> c \<Longrightarrow> c < 1000 \<Longrightarrow> read_vote (plain_row i [5, c, HASH0, 77, 0, 0, 0]) = Inr (wide_message c)"
proof -
  assume c: "0 \<le> c" "c < 1000"
  have n: "bigint_of_string ''0x1'' = Inr 1" "bigint_of_string ''0x2'' = Inr 2" "bigint_of_string ''7'' = Inr 7"
    by code_simp+
  have "read_words (concat (map toHex32 [5, c, HASH0, 77, 0, 0, 0])) = Inr [5, c, HASH0, 77, 0, 0, 0]"
    by (rule read_words_toHex32) (use c HASH0_range in \<open>auto simp: small_FP\<close>)
  with n show ?thesis by (simp add: read_vote_def plain_row_def wide_message_def)
qed

lemma wide_start: "start_ok wide_env (\<lambda>t. t) 2 (empty_start 2)"
  by (simp add: start_ok_def tally_inv_def empty_start_def tally_of_def map_replicate_trivial fun_eq_iff field_keys_def
      MAX_CHOICES_def FP_def)

text \<open>The two ballots under the indices 5 and 6 count as two votes.\<close>

theorem prover_chooses_indices_witness:
  "\<exists>split i h root cum. Tally wide_lib 64 MAX_CHOICES MAX_BATCH split i =
    Some (h, root, cum, sum_hash (0 # fill_tally [1, 1]))"
proof -
  let ?xs = "[((wide_message 2, wide_ballot 2), 5), ((wide_message 1, wide_ballot 1), 6 :: int)]"
  have x: "?xs \<noteq> []" "length ?xs \<le> MAX_BATCH" by (simp_all add: MAX_BATCH_def)
  have b: "\<forall>x \<in> set ?xs. opened wide_env 3 (fst x) \<and> in_choices 2 (bl_choice (snd (fst x)))"
    by (simp add: opened_wide in_choices_def) (simp add: wide_ballot_def)
  have bd: "foldl cast_ballot (board_of (ts_leaves (empty_start 2))) (map (\<lambda>((m, b), k). b\<lparr>bl_nu := k\<rparr>) ?xs) =
      [5 \<mapsto> (2, 77), 6 \<mapsto> (1, 77)]"
    by (simp add: cast_ballot_def board_of_def empty_start_def current_def wide_ballot_def fun_eq_iff)
  have "result 2 [5 \<mapsto> (2, 77), 6 \<mapsto> (1, 77)] = [1, 1]"
  proof -
    have "{k. \<exists>r. [5 \<mapsto> (2, 77), 6 \<mapsto> (1, 77)] k = Some (1 :: int, r :: int)} = {6 :: int}"
      "{k. \<exists>r. [5 \<mapsto> (2, 77), 6 \<mapsto> (1, 77)] k = Some (2 :: int, r :: int)} = {5 :: int}"
      by (auto split: if_splits)
    then show ?thesis by (simp add: result_def upt_rec)
  qed
  moreover have "te_P wide_env = sum_hash" by (simp add: wide_env_def)
  ultimately show ?thesis
    using prover_chooses_indices [OF wide_law wide_start x b, of 0 0] unfolding bd by metis
qed

lemma wide_run: "\<exists>st. foldM (count_vote wide_env) (empty_start 2)
    [(wide_message 2, wide_ballot 2), (wide_message 1, wide_ballot 1)] = Inr st"
proof -
  have S: "smt_law (te_smt wide_env) (\<lambda>t. t)" "hash_law (te_P wide_env)"
    using wide_law by (simp_all add: tally_circuit_law_def)
  have i: "tally_inv wide_env (\<lambda>t. t) 2 (empty_start 2)" using wide_start by (simp add: start_ok_def)
  have c: "\<forall>mb \<in> set [(wide_message 2, wide_ballot 2), (wide_message 1, wide_ballot 1)].
      in_choices 2 (bl_choice (snd mb))"
    by (simp add: in_choices_def wide_ballot_def)
  show ?thesis using count_ballots [OF S i c] by blast
qed

theorem accepted_batch_hashes_messages_witness:
  "\<exists>i h root cum h'. Tally wide_lib 64 11 6 (\<lambda>_. nu_split 64) i = Some (h, root, cum, h') \<and>
     cum = foldl (\<lambda>h e. sum_hash [h, entry_hash wide_lib e]) 0 (map (entry (ti_wit i)) [0..<2])"
proof -
  let ?xs = "[((wide_message 2, wide_ballot 2), 5), ((wide_message 1, wide_ballot 1), 5 :: int)]"
  have x: "?xs \<noteq> []" "length ?xs \<le> MAX_BATCH" "\<forall>x \<in> set ?xs. opened wide_env 3 (fst x)"
    by (simp_all add: MAX_BATCH_def opened_wide)
  have "map relabel ?xs = [(wide_message 2, wide_ballot 2), (wide_message 1, wide_ballot 1)]"
    by (simp add: relabel_def wide_ballot_def)
  then obtain st where st: "foldM (count_vote wide_env) (empty_start 2) (map relabel ?xs) = Inr st"
    using wide_run by auto
  have "good_split (nu_split 64) (bl_nu (snd (fst (?xs ! min j (length ?xs - 1))))) (snd (?xs ! min j (length ?xs - 1)))" for j
  proof -
    have "min j (length ?xs - 1) = 0 \<or> min j (length ?xs - 1) = 1" by auto
    then show ?thesis using good_nu_split [of 5] by (auto simp: wide_ballot_def)
  qed
  note acc = tally_accepts [OF wide_law wide_start x st this, of 0 0]
  let ?i = "batch_inputs wide_env 3 0 0 (length ?xs) (empty_start 2) st"
  have L: "circuit_lib_law wide_lib wide_env" "hash_law (te_P wide_env)" using wide_law by (simp_all add: tally_circuit_law_def)
  have n: "less_than_law wide_lib" "MAX_BATCH \<le> 2 ^ 16" "0 \<le> ti_cumulativeMsgHashOld ?i"
      "ti_cumulativeMsgHashOld ?i < FP" "ti_cumulativeMsgHashOld ?i = 0" "claimed_len (ti_batchLen ?i) = 2"
    by (simp_all add: MAX_BATCH_def batch_inputs_def empty_start_def FP_def less_than_law_def wide_lib_def claimed_len_def)
  have P: "te_P wide_env = sum_hash" "MAX_CHOICES = 11" "MAX_BATCH = 6" "min 2 (6 :: nat) = 2"
    by (simp_all add: wide_env_def MAX_CHOICES_def MAX_BATCH_def)
  from accepted_batch_hashes_messages [OF acc L n(1-4)] acc show ?thesis
    unfolding n(5,6) P by blast
qed

lemma wide_open: "mapM (open_vote wide_env sk) wide_rows =
    Inr [(wide_message 2, wide_ballot 2), (wide_message 1, wide_ballot 1)]"
  using opened_wide [of 2 sk] opened_wide [of 1 sk]
  by (simp add: wide_rows_def open_vote_def read_wide_row opened_def)

theorem counted_batch_satisfies_circuit_witness:
  "\<exists>c. count_batch (zero_panel_env None\<lparr>pa_tally := wide_env\<rparr>) None 3 wide_rows = Inr c \<and>
     main_tally wide_lib (cn_inputs c) = Some (sum_hash (0 # cn_tallyOld c), 0, ts_H (cn_st c), cn_tallyHashNew c)"
proof -
  let ?V = "zero_panel_env None\<lparr>pa_tally := wide_env\<rparr>"
  have e: "pa_tally ?V = wide_env" "pa_nChoices ?V = 2" by (simp_all add: zero_panel_env_def)
  have law: "tally_circuit_law wide_lib (pa_tally ?V) (\<lambda>t. t)" using wide_law e by simp
  have i: "store_inv (pa_tally ?V) (\<lambda>t. t) (pa_nChoices ?V) None" "store_field None" "pa_nChoices ?V \<le> MAX_CHOICES"
    by (simp_all add: store_inv_def store_field_def e MAX_CHOICES_def)
  have s: "start_tally ?V None = Inr (empty_start 2)"
    by (simp add: start_tally_def e empty_start_def) (simp add: wide_env_def wide_smt_def)
  obtain st where "foldM (count_vote wide_env) (empty_start 2)
      [(wide_message 2, wide_ballot 2), (wide_message 1, wide_ballot 1)] = Inr st"
    using wide_run by blast
  then have "foldM (tally_vote wide_env 3) (empty_start 2) wide_rows = Inr st"
    using wide_open [of 3] by (auto simp: wide_rows_def tally_vote_open rbind_eq_Inr)
  then obtain c where c: "count_batch ?V None 3 wide_rows = Inr c" using s e by (auto simp: count_batch_def Let_def)
  have r: "wide_rows \<noteq> []" "length wide_rows \<le> MAX_BATCH" by (simp_all add: wide_rows_def MAX_BATCH_def)
  have ct: "\<forall>v \<in> set wide_rows. \<forall>m. read_vote v = Inr m \<longrightarrow> length (ms_ct m) = CT_LEN"
    by (simp add: wide_rows_def read_wide_row) (simp add: wide_message_def CT_LEN_eq)
  have z: "cn_rootNew c = 0" "cn_saltOld c = 0" "te_P wide_env = sum_hash"
    using c s e by (auto simp: count_batch_def rbind_eq_Inr Let_def wide_env_def wide_smt_def)
  from counted_batch_satisfies_circuit [OF law i c r ct] c show ?thesis by (simp add: e z)
qed

end
