(* ===== verification/TallyUi.thy ===== *)
theory TallyUi
  imports TallyPanel Ui
begin

text \<open>
  What the panel of the tallier renders (the rest of \<open>components/Tally.tsx\<close>), what runs when it
  appears, and what a click does with the effects that follow it.
\<close>

datatype tally_event = EvRefresh | EvTallyNext | EvFinish | EvReset

section \<open>Rendering\<close>

definition batchSteps :: "(tally_stage \<times> tally_event ui option) list" where
  "batchSteps = [(StFetch, Some (Label ''tally.stage.fetching_votes'')),
     (StProve, Some (Label ''tally.stage.generating_proof'')), (StSend, Some (Label ''loading.sending_tx'')),
     (StDone, Some (Label ''tally.stage.submitted''))]"

definition finishSteps :: "(tally_stage \<times> tally_event ui option) list" where
  "finishSteps = [(StSend, Some (Label ''loading.sending_tx'')), (StDone, Some (Label ''tally.stage.finished''))]"

text \<open>\<open>now_ms\<close> is \<open>Date.now()\<close> at the time of rendering.\<close>

definition tally_ui :: "'mt panel_env \<Rightarrow> int \<Rightarrow> panel \<Rightarrow> tally_event ui" where
  "tally_ui V now_ms s =
     (let rem = (case pn_remaining s of None \<Rightarrow> 0 | Some r \<Rightarrow> r); total = processed s + rem;
          enabled = (\<not> pn_busy s \<and> pa_wallet V \<noteq> None); err = map_option Err (pn_err s)
      in Group ([Group [Styled (''width: '' @ to_string 10 (progress_pct s) @ ''%'') [],
            Click (\<not> pn_busy s) EvRefresh [Label ''tally.refresh_remaining''],
            Words (to_string 10 (processed s) @ ''/'' @ to_string 10 total)]]
        @ shown_if (tallyNextEnabled s)
            [StepperCard batchSteps (if pn_flow s = Some FlBatch then pn_stage s else None) (Some StDone) err
               (Styled (btn enabled) [Click enabled EvTallyNext [Label ''tally.tally_next'']])]
        @ shown_if (finishEnabled V now_ms s)
            [StepperCard finishSteps
               (if pn_flow s = Some FlFinish \<and> (pn_stage s = Some StSend \<or> pn_stage s = Some StDone)
                then pn_stage s else None) (Some StDone) err
               (Styled (btn enabled) [Click enabled EvFinish [Label ''tally.finish'']])]
        @ shown_if (pn_store s \<noteq> None)
            [Group [Click (\<not> pn_busy s) EvReset [Label ''tally.reset'']]]))"

lemma inert_steps [simp]: "list_all (\<lambda>s. inert (snd s)) batchSteps" "list_all (\<lambda>s. inert (snd s)) finishSteps"
    "inert (map_option Err e)"
  by (simp_all add: batchSteps_def finishSteps_def inert_def split: option.splits)

lemma offers_tally_ui [simp]:
  "offers EvTallyNext (tally_ui V now s) \<longleftrightarrow> tallyNextEnabled s \<and> \<not> pn_busy s \<and> pa_wallet V \<noteq> None"
  "offers EvFinish (tally_ui V now s) \<longleftrightarrow> finishEnabled V now s \<and> \<not> pn_busy s \<and> pa_wallet V \<noteq> None"
  "offers EvReset (tally_ui V now s) \<longleftrightarrow> pn_store s \<noteq> None \<and> \<not> pn_busy s"
  "offers EvRefresh (tally_ui V now s) \<longleftrightarrow> \<not> pn_busy s"
  by (auto simp: tally_ui_def Let_def offers_stepper)

section \<open>Effects\<close>

text \<open>The panel appears: the states of \<open>useState\<close>; then the store is loaded and the rest counted,
  again when the store has been set.\<close>

definition fresh_panel :: "tally_idb \<Rightarrow> panel" where
  "fresh_panel db = \<lparr>pn_store = None, pn_err = None, pn_busy = False, pn_remaining = None,
     pn_stage = None, pn_flow = None, pn_idb = db, pn_sent = []\<rparr>"

definition settle :: "'mt panel_env \<Rightarrow> panel \<Rightarrow> panel \<Rightarrow> panel" where
  "settle V s s' = (if pn_store s' = pn_store s then s' else refreshRemaining V s')"

definition mount_panel :: "'mt panel_env \<Rightarrow> tally_idb \<Rightarrow> panel" where
  "mount_panel V db = (let s = refreshRemaining V (fresh_panel db) in settle V s (load_panel V s))"

text \<open>A click, and the effect of \<open>refreshRemaining\<close> on a new store.\<close>

definition tally_fire :: "'mt panel_env \<Rightarrow> tally_event \<Rightarrow> panel \<Rightarrow> panel" where
  "tally_fire V e s = settle V s (case e of
     EvRefresh \<Rightarrow> refreshRemaining V s
   | EvTallyNext \<Rightarrow> onTallyNext V s
   | EvFinish \<Rightarrow> onFinishTally V s
   | EvReset \<Rightarrow> onResetTally V s)"

lemma refresh_keeps [simp]:
  "pn_store (refreshRemaining V s) = pn_store s" "pn_idb (refreshRemaining V s) = pn_idb s"
  "pn_busy (refreshRemaining V s) = pn_busy s" "pn_sent (refreshRemaining V s) = pn_sent s"
  "pn_err (refreshRemaining V s) = pn_err s"
  by (auto simp: refreshRemaining_def refresh_with_def split: sum.splits prod.splits bool.splits)

lemma settle_keeps [simp]:
  "pn_store (settle V s s') = pn_store s'" "pn_idb (settle V s s') = pn_idb s'"
  "pn_busy (settle V s s') = pn_busy s'" "pn_sent (settle V s s') = pn_sent s'" "pn_err (settle V s s') = pn_err s'"
  by (simp_all add: settle_def)

lemma mount_empty:
  assumes "pa_keypair V \<noteq> None" "db (TALLY_DB_KEY (pa_pollId V) (tally_accountId V)) = None"
  shows "mount_panel V db = refreshRemaining V (fresh_panel db)"
  using assms by (simp add: mount_panel_def Let_def settle_def load_panel_def loadTallyStore_def fresh_panel_def)

end
