(* ===== verification/TallyLive.thy ===== *)
theory TallyLive
  imports TallyOnChain TallyCircuitClaims ProgramClaims TallyUi
begin

text \<open>
  The tally from the first click to the result. With an indexer that serves the votes, a prover
  that proves what the circuit accepts and a verifier that takes its proofs, every click on
  \<open>Tally next\<close> counts a page and brings panel and chain to the next common state, and after
  the last page \<open>Finish\<close> publishes the result of the election.
\<close>

section \<open>The services\<close>

text \<open>\<open>list_votes\<close> of the indexer, on the rows of one poll: the votes behind the cursor in the
  order of their numbers.\<close>

definition ordered :: "(int \<times> vote_row) list \<Rightarrow> (int \<times> vote_row) list" where
  "ordered tbl = sort_key fst tbl"

definition list_votes :: "(int \<times> vote_row) list \<Rightarrow> nat option \<Rightarrow> int option \<Rightarrow> votes_page" where
  "list_votes tbl limit after =
     (let limit = min 1000 (max 1 (case limit of None \<Rightarrow> 100 | Some l \<Rightarrow> l));
          after = (case after of None \<Rightarrow> 0 | Some a \<Rightarrow> a)
      in \<lparr>pg_items = map snd (take limit (filter (\<lambda>r. after < fst r) (ordered tbl))),
          pg_total = int (length tbl)\<rparr>)"

definition votes_served :: "'mt panel_env \<Rightarrow> (int \<times> vote_row) list \<Rightarrow> bool" where
  "votes_served V tbl \<longleftrightarrow> distinct (map fst tbl) \<and>
     (\<forall>(i, v) \<in> set tbl. 0 < i \<and> vw_id v = to_string 10 i) \<and>
     (\<forall>limit after. pa_fetch V limit after = Inr (True, list_votes tbl (Some limit) after))"

text \<open>The wallet, the node and the browser's store answer.\<close>

definition panel_ready :: "'mt panel_env \<Rightarrow> keypair \<Rightarrow> pubkey \<Rightarrow> bool" where
  "panel_ready V kp payer \<longleftrightarrow> pa_wallet V = Some payer \<and> pa_keypair V = Some kp \<and>
     (\<exists>bh. pa_blockhash V = Inr bh) \<and> (\<forall>tx. pa_send V tx = Inr ()) \<and> pa_idbSet V = Inr () \<and>
     length (pa_salt V) = 8"

text \<open>The prover proves what the circuit accepts, and the verifier of the chain takes the proof
  for the public signals of the circuit: its outputs, then its public inputs.\<close>

definition honest_prover :: "circuit_lib \<Rightarrow> chain_env \<Rightarrow> 'mt panel_env \<Rightarrow> bool" where
  "honest_prover C X V \<longleftrightarrow> (\<forall>i h r c h'. main_tally C i = Some (h, r, c, h') \<longrightarrow>
     (let signals = [h, r, c, h', ti_rootOld i, ti_cumulativeMsgHashOld i]
      in \<exists>pf p p'. pa_prove V i = Inr (pf, map (to_string 10) signals) \<and> compressProof pf = Inr p \<and>
         cx_decompress X p = Some p' \<and> cx_verify X VK_TALLY p' (map toBytesBE32 signals)))"

definition tally_world :: "circuit_lib \<Rightarrow> chain_env \<Rightarrow> 'mt panel_env \<Rightarrow> ('mt \<Rightarrow> int \<Rightarrow> int option) \<Rightarrow>
    keypair \<Rightarrow> pubkey \<Rightarrow> bool" where
  "tally_world C X V \<alpha> kp payer \<longleftrightarrow> tally_circuit_law C (pa_tally V) \<alpha> \<and> root_law V \<and>
     poseidon_law X (te_P (pa_tally V)) \<and> sdk_law X V \<and> honest_prover C X V \<and> panel_ready V kp payer \<and>
     pa_nChoices V \<le> MAX_CHOICES \<and> tally_addr X V payer \<noteq> payer"

section \<open>Paging\<close>

lemma ordered_sorted: "distinct (map fst tbl) \<Longrightarrow> sorted_wrt (<) (map fst (ordered tbl))"
proof -
  assume d: "distinct (map fst tbl)"
  have "mset (map fst (ordered tbl)) = mset (map fst tbl)" by (simp add: ordered_def)
  then have "distinct (map fst (ordered tbl))" using d mset_eq_imp_distinct_iff by blast
  moreover have "sorted (map fst (ordered tbl))" by (simp add: ordered_def)
  ultimately show ?thesis by (simp add: strict_sorted_iff)
qed

lemma behind:
  fixes L :: "(int \<times> 'a) list"
  assumes "sorted_wrt (<) (map fst L)" "k < length L"
  shows "filter (\<lambda>r. fst (L ! k) < fst r) L = drop (Suc k) L"
proof -
  have lt: "fst (L ! i) < fst (L ! j)" if "i < j" "j < length L" for i j
    using sorted_wrt_nth_less [OF assms(1), of i j] that by simp
  have "\<not> fst (L ! k) < fst r" if r: "r \<in> set (take (Suc k) L)" for r
  proof -
    obtain i where "i \<le> k" "r = L ! i" using r unfolding in_set_conv_nth by (metis less_Suc_eq_le length_take min_less_iff_conj nth_take)
    then show ?thesis using lt [of i k] assms(2) by (cases "i = k") auto
  qed
  then have "filter (\<lambda>r. fst (L ! k) < fst r) (take (Suc k) L) = []" by (simp add: filter_empty_conv)
  moreover have "fst (L ! k) < fst r" if r: "r \<in> set (drop (Suc k) L)" for r
  proof -
    obtain i where "i < length L - Suc k" "r = L ! (Suc k + i)" using r unfolding in_set_conv_nth by (auto simp: nth_drop)
    then show ?thesis using lt [of k "Suc k + i"] by simp
  qed
  then have "filter (\<lambda>r. fst (L ! k) < fst r) (drop (Suc k) L) = drop (Suc k) L" by (simp add: filter_id_conv)
  ultimately show ?thesis using append_take_drop_id [of "Suc k" L] filter_append by (metis append_Nil)
qed

lemma next_page:
  assumes served: "votes_served V tbl" and k: "k \<le> length tbl"
    and after: "store_after store = (if k = 0 then None else Some (fst (ordered tbl ! (k - 1))))"
  shows "pa_fetch V MAX_BATCH (store_after store) =
    Inr (True, \<lparr>pg_items = map snd (take MAX_BATCH (drop k (ordered tbl))), pg_total = int (length tbl)\<rparr>)"
proof -
  have len: "length (ordered tbl) = length tbl" and set: "set (ordered tbl) = set tbl" by (simp_all add: ordered_def)
  have "filter (\<lambda>r. (case store_after store of None \<Rightarrow> 0 | Some a \<Rightarrow> a) < fst r) (ordered tbl) = drop k (ordered tbl)"
  proof (cases k)
    case 0
    then show ?thesis using served after set by (auto simp: filter_id_conv votes_served_def)
  next
    case (Suc q)
    then show ?thesis
      using behind [OF ordered_sorted, of tbl q] served after k len by (simp add: votes_served_def)
  qed
  then show ?thesis using served by (simp add: votes_served_def list_votes_def Let_def MAX_BATCH_def)
qed

section \<open>What a batch computes\<close>

lemma count_vote_keys:
  assumes "circuit_lib_law C E" "opened E sk mb" "field_keys (ts_leaves st)" "count_vote E st mb = Inr u"
  shows "field_keys (ts_leaves u)"
proof -
  obtain m b where mb: "mb = (m, b)" by (cases mb)
  note d = decrypt_circuit [OF assms(1), of sk m b]
  show ?thesis
    using assms d mb field_keys_update [OF assms(3)]
    by (auto simp: count_vote_def Let_def rbind_eq_Inr opened_def split: if_splits)
qed

lemma count_votes_keys:
  "circuit_lib_law C E \<Longrightarrow> \<forall>mb \<in> set mbs. opened E sk mb \<Longrightarrow> field_keys (ts_leaves st) \<Longrightarrow>
   foldM (count_vote E) st mbs = Inr u \<Longrightarrow> field_keys (ts_leaves u)"
  by (induction mbs arbitrary: st) (auto simp: rbind_eq_Inr intro: count_vote_keys)

lemma fold_opened:
  "mapM (open_vote E sk) rows = Inr mbs \<Longrightarrow> foldM (tally_vote E sk) st rows = foldM (count_vote E) st mbs"
proof (induction rows arbitrary: st mbs)
  case (Cons r rows)
  then obtain mb zs where z: "open_vote E sk r = Inr mb" "mapM (open_vote E sk) rows = Inr zs" "mbs = mb # zs"
    by (auto simp: rbind_eq_Inr)
  then show ?case using Cons.IH [OF z(2)] by (simp add: tally_vote_open)
qed simp

text \<open>The progress of the panel when \<open>k\<close> votes are counted.\<close>

definition step_hashes :: "hash \<Rightarrow> (message \<times> ballot) list \<Rightarrow> int list" where
  "step_hashes P mbs = map (\<lambda>mb. msg_hash P (fst mb)) mbs"

definition store_at ::
  "'mt panel_env \<Rightarrow> ('mt \<Rightarrow> int \<Rightarrow> int option) \<Rightarrow> (message \<times> ballot) list \<Rightarrow> nat \<Rightarrow> tally_store option \<Rightarrow> bool" where
  "store_at V \<alpha> mbs k store \<longleftrightarrow> store_inv (pa_tally V) \<alpha> (pa_nChoices V) store \<and> field_keys (store_leaves store) \<and>
     board_of (store_leaves store) = foldl cast_ballot Map.empty (map snd (take k mbs)) \<and>
     (case store of None \<Rightarrow> k = 0
      | Some st \<Rightarrow> 0 < k \<and> counted (te_P (pa_tally V)) st (step_hashes (te_P (pa_tally V)) (take k mbs)) \<and>
          (\<exists>salt. 0 \<le> salt \<and> salt < 2 ^ 64 \<and> to_tallySaltHex st = toHex32 salt))"

text \<open>The votes of a poll that a tallier can count: they open under the key, their choices are on
  the ballot paper, and their running hashes do not vanish.\<close>

definition votes_ok :: "'mt panel_env \<Rightarrow> int \<Rightarrow> vote_row list \<Rightarrow> (message \<times> ballot) list \<Rightarrow> bool" where
  "votes_ok V sk rows mbs \<longleftrightarrow> mapM (open_vote (pa_tally V) sk) rows = Inr mbs \<and>
     (\<forall>mb \<in> set mbs. opened (pa_tally V) sk mb \<and> in_choices (pa_nChoices V) (bl_choice (snd mb))) \<and>
     (\<forall>k \<le> length mbs. 0 < k \<longrightarrow> running_hash (te_P (pa_tally V)) (step_hashes (te_P (pa_tally V)) (take k mbs)) \<noteq> 0)"

lemma mapM_list_all2: "mapM f xs = Inr ys \<longleftrightarrow> list_all2 (\<lambda>x y. f x = Inr y) xs ys"
  by (induction xs arbitrary: ys) (auto simp: rbind_eq_Inr list_all2_Cons1)

lemma mapM_slice: "mapM f xs = Inr ys \<Longrightarrow> mapM f (take i (drop k xs)) = Inr (take i (drop k ys))"
  by (simp add: mapM_list_all2 list_all2_takeI list_all2_dropI)

lemma mapM_elem: "mapM f xs = Inr ys \<Longrightarrow> x \<in> set xs \<Longrightarrow> \<exists>y \<in> set ys. f x = Inr y"
  by (induction xs arbitrary: ys) (auto simp: rbind_eq_Inr)

lemma running_hash_append:
  "running_hash P (hs @ gs) = foldl (\<lambda>h m. P [h, m]) (running_hash P hs) gs"
  by (simp add: running_hash_def)

lemma store_fields:
  assumes "store_at V \<alpha> mbs k (Some st)" "hash_law (te_P (pa_tally V))"
    and "votes_ok V sk rows mbs" "k \<le> length mbs"
  shows "to_runningMsgHashHex st = toHex32 (running_hash (te_P (pa_tally V)) (step_hashes (te_P (pa_tally V)) (take k mbs)))"
    and "store_field (Some st)"
    and "hex_field (to_runningMsgHashHex st) = Inr (running_hash (te_P (pa_tally V)) (step_hashes (te_P (pa_tally V)) (take k mbs)))"
proof -
  let ?h = "running_hash (te_P (pa_tally V)) (step_hashes (te_P (pa_tally V)) (take k mbs))"
  show r: "to_runningMsgHashHex st = toHex32 ?h" using assms(1) by (simp add: store_at_def counted_def)
  have "?h \<noteq> 0" using assms(1,3,4) by (simp add: votes_ok_def store_at_def)
  then have h: "0 < ?h" "?h < FP" using running_hash_range [OF assms(2)] by (auto simp: order.strict_iff_order)
  then show "store_field (Some st)" using assms(1) r by (auto simp: store_field_def store_at_def store_leaves_def)
  show "hex_field (to_runningMsgHashHex st) = Inr ?h" using hex_field_value [of ?h] h r by simp
qed

lemma start_at:
  assumes law: "tally_circuit_law C (pa_tally V) \<alpha>" and at: "store_at V \<alpha> mbs k store"
    and ok: "votes_ok V sk rows mbs" "k \<le> length mbs"
  shows "\<exists>st0. start_tally V store = Inr st0 \<and> tally_inv (pa_tally V) \<alpha> (pa_nChoices V) st0 \<and>
    ts_leaves st0 = store_leaves store \<and>
    ts_H st0 = running_hash (te_P (pa_tally V)) (step_hashes (te_P (pa_tally V)) (take k mbs)) \<and>
    (store = None \<longrightarrow> ts_mt st0 = smt_new (te_smt (pa_tally V)))"
proof -
  have l: "smt_law (te_smt (pa_tally V)) \<alpha>" "hash_law (te_P (pa_tally V))"
    using law by (simp_all add: tally_circuit_law_def)
  obtain st0 where st0: "start_tally V store = Inr st0" "tally_inv (pa_tally V) \<alpha> (pa_nChoices V) st0"
      "ts_leaves st0 = store_leaves store"
    using start_tally_ok [OF l refl, of store] at by (auto simp: store_at_def)
  show ?thesis
  proof (cases store)
    case None
    then have "k = 0" using at by (simp add: store_at_def)
    then show ?thesis using st0 None
      by (auto simp: start_tally_def Let_def running_hash_def step_hashes_def)
  next
    case (Some st)
    then show ?thesis using st0 store_fields(3) [OF at [unfolded Some] l(2) ok]
      by (auto simp: start_tally_def Let_def rbind_eq_Inr)
  qed
qed

text \<open>A page of the votes is counted without an error, and the circuit accepts it.\<close>

lemma count_page:
  fixes rows :: "vote_row list"
  assumes law: "tally_circuit_law C (pa_tally V) \<alpha>" and n: "pa_nChoices V \<le> MAX_CHOICES"
    and at: "store_at V \<alpha> mbs k store" and ok: "votes_ok V sk rows mbs" "k < length mbs"
    and batch: "batch = take MAX_BATCH (drop k rows)" "k' = k + length batch"
  shows "\<exists>c. count_batch V store sk batch = Inr c \<and>
    main_tally C (cn_inputs c) = Some (te_P (pa_tally V) (cn_saltOld c # cn_tallyOld c), cn_rootNew c,
      ts_H (cn_st c), cn_tallyHashNew c) \<and>
    ts_H (cn_st c) = running_hash (te_P (pa_tally V)) (step_hashes (te_P (pa_tally V)) (take k' mbs)) \<and>
    tally_inv (pa_tally V) \<alpha> (pa_nChoices V) (cn_st c) \<and> field_keys (ts_leaves (cn_st c)) \<and>
    board_of (ts_leaves (cn_st c)) = foldl cast_ballot Map.empty (map snd (take k' mbs)) \<and>
    ti_cumulativeMsgHashOld (cn_inputs c) =
      running_hash (te_P (pa_tally V)) (step_hashes (te_P (pa_tally V)) (take k mbs)) \<and>
    (store = None \<longrightarrow> ti_rootOld (cn_inputs c) = smt_root (te_smt (pa_tally V)) (smt_new (te_smt (pa_tally V)))) \<and>
    (\<forall>st. store = Some st \<longrightarrow> hex_field (to_tallySaltHex st) = Inr (cn_saltOld c))"
proof -
  let ?E = "pa_tally V" and ?P = "te_P (pa_tally V)" and ?ms = "take MAX_BATCH (drop k mbs)"
  have l: "smt_law (te_smt ?E) \<alpha>" "hash_law ?P" "circuit_lib_law C ?E"
    using law by (simp_all add: tally_circuit_law_def)
  have ms: "mapM (open_vote ?E sk) batch = Inr ?ms" "mapM (open_vote ?E sk) rows = Inr mbs"
    using ok(1) mapM_slice by (auto simp: votes_ok_def batch)
  have len: "length rows = length mbs" using ms(2) by (simp add: mapM_list_all2 list_all2_lengthD)
  have b: "\<forall>mb \<in> set ?ms. opened ?E sk mb \<and> in_choices (pa_nChoices V) (bl_choice (snd mb))"
    using ok(1) set_take_subset set_drop_subset unfolding votes_ok_def by (metis subsetD)
  have tk: "take k' mbs = take k mbs @ ?ms" using len ok(2) by (simp add: batch take_add min_def)
  obtain st0 where st0: "start_tally V store = Inr st0" "tally_inv ?E \<alpha> (pa_nChoices V) st0"
      "ts_leaves st0 = store_leaves store" "ts_H st0 = running_hash ?P (step_hashes ?P (take k mbs))"
      "store = None \<longrightarrow> ts_mt st0 = smt_new (te_smt ?E)"
    using start_at [OF law at ok(1)] ok(2) by auto
  obtain st where st: "foldM (tally_vote ?E sk) st0 batch = Inr st" "tally_inv ?E \<alpha> (pa_nChoices V) st"
      "board_of (ts_leaves st) = foldl cast_ballot (board_of (ts_leaves st0)) (map snd ?ms)"
      "ts_H st = foldl (\<lambda>h m. ?P [h, msg_hash ?P m]) (ts_H st0) (map fst ?ms)"
    using batch_election [OF l(1,2) st0(2) ms(1)] b by blast
  have keys: "field_keys (ts_leaves st)"
    using count_votes_keys [OF l(3), of ?ms sk st0 st] b at st0(3) st(1) fold_opened [OF ms(1), of st0]
    by (simp add: store_at_def)
  have H: "ts_H st = running_hash ?P (step_hashes ?P (take k' mbs))"
    unfolding st(4) st0(4) tk step_hashes_def map_append running_hash_append
    by (simp add: foldl_map comp_def)
  obtain saltOld countsOld where old: "(case store of None \<Rightarrow> Inr 0 | Some s \<Rightarrow> hex_field (to_tallySaltHex s)) = Inr saltOld"
      "(case store of None \<Rightarrow> Inr [] | Some s \<Rightarrow> mapM bigint_of_string (to_tallyCounts s)) = Inr countsOld"
  proof (cases store)
    case (Some s)
    then obtain salt where "0 \<le> salt" "salt < 2 ^ 64" "to_tallySaltHex s = toHex32 salt" using at by (auto simp: store_at_def)
    then have "hex_field (to_tallySaltHex s) = Inr salt" using hex_field_value [of salt] by (simp add: FP_def)
    moreover have "to_tallyCounts s = map (to_string 10) (tally_of (pa_nChoices V) (to_leaves s))"
      using at Some by (simp add: store_at_def store_inv_def)
    ultimately show ?thesis using that Some mapM_numerals by simp
  qed (use that in simp)
  then obtain c where c: "count_batch V store sk batch = Inr c" "cn_st c = st"
      "ti_cumulativeMsgHashOld (cn_inputs c) = ts_H st0" "ti_rootOld (cn_inputs c) = smt_root (te_smt ?E) (ts_mt st0)"
      "cn_saltOld c = saltOld"
    using st0(1) st(1) by (auto simp: count_batch_def Let_def)
  have ne: "batch \<noteq> []" "length batch \<le> MAX_BATCH" using ok(2) len by (simp_all add: batch MAX_BATCH_def)
  have ct: "\<forall>v \<in> set batch. \<forall>m. read_vote v = Inr m \<longrightarrow> length (ms_ct m) = CT_LEN"
  proof (intro ballI allI impI)
    fix v m assume v: "v \<in> set batch" "read_vote v = Inr m"
    obtain mb where "mb \<in> set ?ms" "open_vote ?E sk v = Inr mb"
      using mapM_elem [OF ms(1) v(1)] by blast
    then show "length (ms_ct m) = CT_LEN" using b v(2) by (auto simp: open_vote_def opened_def rbind_eq_Inr)
  qed
  have inv: "store_inv ?E \<alpha> (pa_nChoices V) store" using at by (simp add: store_at_def)
  have sf: "store_field store"
  proof (cases store)
    case None
    then show ?thesis by (simp add: store_field_def)
  next
    case (Some s)
    show ?thesis unfolding Some using store_fields(2) [OF at [unfolded Some] l(2) ok(1)] ok(2) by simp
  qed
  note acc = counted_batch_accepted [OF law inv sf n c(1) ne ct]
  have bd: "board_of (ts_leaves st) = foldl cast_ballot Map.empty (map snd (take k' mbs))"
    using st(3) at st0(3) by (simp add: tk store_at_def)
  have "store = None \<longrightarrow> ti_rootOld (cn_inputs c) = smt_root (te_smt ?E) (smt_new (te_smt ?E))" using c(4) st0(5) by simp
  moreover have "\<forall>st. store = Some st \<longrightarrow> hex_field (to_tallySaltHex st) = Inr (cn_saltOld c)" using old(1) c(5) by auto
  ultimately show ?thesis using c(1-3) acc H st(2) keys bd st0(4) by (intro exI [of _ c]) simp
qed

section \<open>A batch on the chain\<close>

lemma exec_createTally:
  assumes "sdk_law X V" "createTally (pa_sdk V) (pa_pollId V) payer h = Inr ix" "payer \<in> set S"
  shows "exec_ix X S (Call (iwc_instruction ix)) ch =
    do_create_tally X payer (tally_addr X V payer) (word_of_int (pa_pollId V)) h ch"
proof -
  have "iwc_instruction ix = \<lparr>ix_program = se_moot (cx_sdk X), ix_method = ''createTally'',
      ix_args = [BNArg (pa_pollId V), BytesArg h],
      ix_accounts = [(''tally'', tally_addr X V payer), (''payer'', payer)], ix_remaining = []\<rparr>"
    using assms(1,2) findTally_pda [of X "pa_pollId V" payer]
    by (auto simp: sdk_law_def createTally_def rbind_eq_Inr moot_ix_def tally_addr_def toBN_def)
  then show ?thesis
    using assms(1,3) by (simp add: exec_method exec_moot_def exec_create_tally_def acc_def signer_def obind_def sdk_law_def u64_arg_ok)
qed

text \<open>What a batch leaves alone.\<close>

definition same_poll :: "chain_env \<Rightarrow> 'mt panel_env \<Rightarrow> pubkey \<Rightarrow> chain \<Rightarrow> chain \<Rightarrow> bool" where
  "same_poll X V payer ch ch' \<longleftrightarrow> (chain_step X)\<^sup>*\<^sup>* ch ch' \<and> ch_events ch' = ch_events ch \<and> ch_now ch' = ch_now ch \<and>
     poll_at ch' (poll_addr X V) = poll_at ch (poll_addr X V) \<and>
     uint (ch_lam ch' payer) + uint (ch_lam ch' (tally_addr X V payer)) =
       uint (ch_lam ch payer) + uint (ch_lam ch (tally_addr X V payer))"

lemma same_poll_trans: "same_poll X V payer a b \<Longrightarrow> same_poll X V payer b c \<Longrightarrow> same_poll X V payer a c"
  unfolding same_poll_def by auto

text \<open>The tally account before a batch: absent before the first one, and then committed to the old
  values of the circuit.\<close>

definition account_ready :: "chain_env \<Rightarrow> 'mt panel_env \<Rightarrow> pubkey \<Rightarrow> tally_store option \<Rightarrow> 'mt counted \<Rightarrow> chain \<Rightarrow> bool" where
  "account_ready X V payer store c ch \<longleftrightarrow> (case store of
     None \<Rightarrow> ch_data ch (tally_addr X V payer) = None \<and> ch_lam ch (tally_addr X V payer) = 0 \<and>
       cx_rent X TALLY_SPACE \<le> ch_lam ch payer \<and>
       ti_cumulativeMsgHashOld (cn_inputs c) = 0 \<and> ti_rootOld (cn_inputs c) = 0
   | Some st \<Rightarrow> ch_data ch (tally_addr X V payer) = Some (DTally
       \<lparr>ta_hash = toBytesBE32 (te_P (pa_tally V) (cn_saltOld c # cn_tallyOld c)),
        ta_cumulative = toBytesBE32 (ti_cumulativeMsgHashOld (cn_inputs c)),
        ta_root = toBytesBE32 (ti_rootOld (cn_inputs c))\<rparr>))"

lemma batch_lands:
  assumes W: "tally_world C X V \<alpha> kp payer"
    and c: "main_tally C (cn_inputs c) = Some (te_P (pa_tally V) (cn_saltOld c # cn_tallyOld c), cn_rootNew c, H, cn_tallyHashNew c)"
    and ready: "account_ready X V payer store c ch" and p: "poll_at ch (poll_addr X V) \<noteq> None"
  shows "\<exists>pf tx ch'. prove_batch V c = Inr (pf, H) \<and> batch_tx V store payer c pf H = Inr tx \<and>
    exec_tx X tx ch = Inr ch' \<and> same_poll X V payer ch ch'"
proof -
  let ?h = "te_P (pa_tally V) (cn_saltOld c # cn_tallyOld c)" and ?t = "tally_addr X V payer"
  let ?sigs = "[?h, cn_rootNew c, H, cn_tallyHashNew c, ti_rootOld (cn_inputs c), ti_cumulativeMsgHashOld (cn_inputs c)]"
  have sdk: "sdk_law X V" and ne: "?t \<noteq> payer" using W by (simp_all add: tally_world_def)
  obtain pf pr p' bh where pr: "pa_prove V (cn_inputs c) = Inr (pf, map (to_string 10) ?sigs)" "compressProof pf = Inr pr"
      "cx_decompress X pr = Some p'" "cx_verify X VK_TALLY p' (map toBytesBE32 ?sigs)" "pa_blockhash V = Inr bh"
    using W c unfolding tally_world_def honest_prover_def panel_ready_def Let_def by blast
  have prove: "prove_batch V c = Inr (pf, H)"
    by (simp add: prove_batch_def pr(1) at_def bigint_opt_def bigint_of_to_string_int)
  obtain ix1 where ix1: "createTally (pa_sdk V) (pa_pollId V) payer (toBytesBE32 ?h) = Inr ix1"
    using sdk findTally_pda [of X "pa_pollId V" payer] by (auto simp: sdk_law_def createTally_def)
  obtain ix2 where ix2: "tallyBatch (pa_sdk V) (pa_pollId V) payer pr (toBytesBE32 (cn_rootNew c)) (toBytesBE32 H)
      (toBytesBE32 (cn_tallyHashNew c)) = Inr ix2"
    using sdk findTally_pda [of X "pa_pollId V" payer] by (auto simp: sdk_law_def tallyBatch_def)
  define new where "new = \<lparr>ta_hash = toBytesBE32 (cn_tallyHashNew c), ta_cumulative = toBytesBE32 H,
    ta_root = toBytesBE32 (cn_rootNew c)\<rparr>"
  define old where "old = \<lparr>ta_hash = toBytesBE32 ?h, ta_cumulative = toBytesBE32 (ti_cumulativeMsgHashOld (cn_inputs c)),
    ta_root = toBytesBE32 (ti_rootOld (cn_inputs c))\<rparr>"
  have second: "exec_ix X S (Call (iwc_instruction ix2)) c1 = Inr (set_data ?t (DTally new) c1)"
    if "ch_data c1 ?t = Some (DTally old)" for S c1
    using that pr(3,4) by (simp add: exec_tallyBatch [OF sdk ix2] do_tally_batch_def get_tally_def obind_def
        check_proof_def some_or_def require_def tally_batch_inputs_def old_def new_def)
  show ?thesis
  proof (cases store)
    case None
    define c1 where "c1 = ch\<lparr>ch_lam := (ch_lam ch)(payer := ch_lam ch payer - cx_rent X TALLY_SPACE, ?t := cx_rent X TALLY_SPACE),
      ch_data := (ch_data ch)(?t \<mapsto> DTally old), ch_size := (ch_size ch)(?t := TALLY_SPACE)\<rparr>"
    have r: "ch_data ch ?t = None" "ch_lam ch ?t = 0" "cx_rent X TALLY_SPACE \<le> ch_lam ch payer"
        "ti_cumulativeMsgHashOld (cn_inputs c) = 0" "ti_rootOld (cn_inputs c) = 0"
      using ready None by (simp_all add: account_ready_def)
    have first: "exec_ix X (payer # S) (Call (iwc_instruction ix1)) ch = Inr c1" for S
      using create_ok [OF tally_addr_def r(1) ne r(2,3)]
      by (simp add: exec_createTally [OF sdk ix1] c1_def old_def r(4,5) zero32_be)
    have "ch_data c1 ?t = Some (DTally old)" by (simp add: c1_def)
    note second = second [OF this]
    obtain tx where tx: "batch_tx V store payer c pf H = Inr tx"
        "tx_ixs tx = [cuLimitInstruction [ix1, ix2], Call (iwc_instruction ix1), Call (iwc_instruction ix2)]"
        "tx_feePayer tx = payer"
      using pr(2,5) ix1 ix2 None by (auto simp: batch_tx_def Let_def wallet_tx_def)
    then have "exec_tx X tx ch = Inr (set_data ?t (DTally new) c1)"
      using first second by (simp add: exec_tx_def obind_def cuLimitInstruction_def exec_method)
    moreover from exec_tx_steps [OF this] have "same_poll X V payer ch (set_data ?t (DTally new) c1)"
      using p r(1-3) ne uint_sub_no_wrap [OF r(3)] by (auto simp: same_poll_def c1_def set_data_def poll_at_def)
    ultimately show ?thesis using prove tx(1) by blast
  next
    case (Some st)
    have d: "ch_data ch ?t = Some (DTally old)" using ready Some by (simp add: account_ready_def old_def)
    obtain tx where tx: "batch_tx V store payer c pf H = Inr tx"
        "tx_ixs tx = [cuLimitInstruction [ix2], Call (iwc_instruction ix2)]"
      using pr(2,5) ix2 Some by (auto simp: batch_tx_def Let_def wallet_tx_def)
    then have "exec_tx X tx ch = Inr (set_data ?t (DTally new) ch)"
      using second [OF d] by (simp add: exec_tx_def obind_def cuLimitInstruction_def exec_method)
    moreover from exec_tx_steps [OF this] have "same_poll X V payer ch (set_data ?t (DTally new) ch)"
      using d by (auto simp: same_poll_def set_data_def poll_at_def)
    ultimately show ?thesis using prove tx(1) by blast
  qed
qed

section \<open>A click\<close>

text \<open>Panel and chain when \<open>k\<close> of the votes are counted, from the ledger \<open>c0\<close> before the tally.\<close>

definition tallied :: "chain_env \<Rightarrow> 'mt panel_env \<Rightarrow> ('mt \<Rightarrow> int \<Rightarrow> int option) \<Rightarrow> pubkey \<Rightarrow>
    (int \<times> vote_row) list \<Rightarrow> (message \<times> ballot) list \<Rightarrow> chain \<Rightarrow> nat \<Rightarrow> panel \<Rightarrow> chain \<Rightarrow> bool" where
  "tallied X V \<alpha> payer tbl mbs c0 k s ch \<longleftrightarrow> \<not> pn_busy s \<and> k \<le> length mbs \<and> store_at V \<alpha> mbs k (pn_store s) \<and>
     store_after (pn_store s) = (if k = 0 then None else Some (fst (ordered tbl ! (k - 1)))) \<and>
     processed s = int k \<and> pn_remaining s = Some (int (length mbs) - int k) \<and> same_poll X V payer c0 ch \<and>
     (case pn_store s of
        None \<Rightarrow> ch_data ch (tally_addr X V payer) = None \<and> ch_lam ch (tally_addr X V payer) = 0 \<and>
          cx_rent X TALLY_SPACE \<le> ch_lam ch payer
      | Some st \<Rightarrow> in_sync X V payer st ch)"

lemma count_batch_old:
  assumes "count_batch V store sk batch = Inr c"
  shows "\<exists>t. ti_rootOld (cn_inputs c) = smt_root (te_smt (pa_tally V)) t"
    and "store = Some st \<Longrightarrow> \<exists>cs. mapM bigint_of_string (to_tallyCounts st) = Inr cs \<and> cn_tallyOld c = fill_tally cs"
    and "cn_saltNew c = bytes_to_big (pa_salt V)"
  using assms by (auto simp: count_batch_def Let_def rbind_eq_Inr)

lemma ready_at:
  assumes W: "tally_world C X V \<alpha> kp payer" and T: "tallied X V \<alpha> payer tbl mbs c0 k s ch"
    and c: "count_batch V (pn_store s) sk batch = Inr c"
      "ti_cumulativeMsgHashOld (cn_inputs c) =
        running_hash (te_P (pa_tally V)) (step_hashes (te_P (pa_tally V)) (take k mbs))"
      "pn_store s = None \<longrightarrow> ti_rootOld (cn_inputs c) = smt_root (te_smt (pa_tally V)) (smt_new (te_smt (pa_tally V)))"
      "\<forall>st. pn_store s = Some st \<longrightarrow> hex_field (to_tallySaltHex st) = Inr (cn_saltOld c)"
  shows "account_ready X V payer (pn_store s) c ch"
proof (cases "pn_store s")
  case None
  then have "k = 0" using T by (simp add: tallied_def store_at_def)
  then show ?thesis using None W T c(2,3)
    by (simp add: account_ready_def tallied_def tally_world_def root_law_def running_hash_def step_hashes_def)
next
  case (Some st)
  have l: "smt_law (te_smt (pa_tally V)) \<alpha>" "hash_law (te_P (pa_tally V))" "root_law V"
    using W by (simp_all add: tally_world_def tally_circuit_law_def)
  have at: "store_at V \<alpha> mbs k (Some st)" and y: "in_sync X V payer st ch" using T Some by (simp_all add: tallied_def)
  then have inv: "store_inv (pa_tally V) \<alpha> (pa_nChoices V) (Some st)" by (simp add: store_at_def)
  obtain root H salt cs where y: "to_rootHex st = toHex32 root" "0 \<le> root" "root < FP"
      "to_runningMsgHashHex st = toHex32 H" "0 \<le> H" "H < FP" "to_tallySaltHex st = toHex32 salt" "0 \<le> salt" "salt < 2 ^ 64"
      "to_tallyCounts st = map (to_string 10) cs"
      "ch_data ch (tally_addr X V payer) = Some (DTally \<lparr>ta_hash = toBytesBE32 (te_P (pa_tally V) (salt # fill_tally cs)),
        ta_cumulative = toBytesBE32 H, ta_root = toBytesBE32 root\<rparr>)"
    using y unfolding in_sync_def by blast
  have "hex_field (toHex32 salt) = Inr salt" using hex_field_value [of salt] y(8,9) by (simp add: FP_def)
  then have salt: "cn_saltOld c = salt" using c(4) Some y(7) by simp
  have cs: "cn_tallyOld c = fill_tally cs" using count_batch_old(2) [OF c(1) Some] mapM_numerals y(10) by auto
  have "to_runningMsgHashHex st = toHex32 (ti_cumulativeMsgHashOld (cn_inputs c))"
    using at c(2) by (simp add: store_at_def counted_def)
  then have H: "ti_cumulativeMsgHashOld (cn_inputs c) = H"
    using y(4-6) toHex32_inj [of H "ti_cumulativeMsgHashOld (cn_inputs c)"]
      running_hash_range [OF l(2), of "step_hashes (te_P (pa_tally V)) (take k mbs)"] c(2) by simp
  have "toHex32 (ti_rootOld (cn_inputs c)) = toHex32 root"
    using count_batch_ok(3) [OF l(1,2) refl inv c(1) [unfolded Some]] y(1) by simp
  then have "ti_rootOld (cn_inputs c) = root"
    using count_batch_old(1) [OF c(1)] l(3) y(2,3) toHex32_inj [of "ti_rootOld (cn_inputs c)" root]
    by (auto simp: root_law_def)
  then show ?thesis using Some y(11) salt cs H by (simp add: account_ready_def)
qed

lemma tally_body_runs:
  assumes "\<not> pn_busy s" "panel_ready V kp payer" "fetch_batch V (pn_store s) = Inr batch"
    and "count_batch V (pn_store s) (kp_sk kp) batch = Inr c" "prove_batch V c = Inr (pf, H)"
    and "batch_tx V (pn_store s) payer c pf H = Inr tx" "next_store V (pn_store s) batch c H = Inr ns"
  shows "onTallyNext V s = (final_panel s batch ns tx)\<lparr>pn_busy := False\<rparr>"
  using assms unfolding panel_ready_def
  by (simp add: onTallyNext_def attempt_def tally_body_def proc_simps begin_flow_def set_stage_def send_tx_def
      save_store_def final_panel_def end_busy_def bind_def seq_def need_def)

text \<open>Every click before the last vote succeeds.\<close>

lemma click:
  assumes W: "tally_world C X V \<alpha> kp payer" and served: "votes_served V tbl"
    and ok: "votes_ok V (kp_sk kp) (map snd (ordered tbl)) mbs" and p: "poll_at c0 (poll_addr X V) \<noteq> None"
    and T: "tallied X V \<alpha> payer tbl mbs c0 k s ch" and k: "k < length mbs"
  shows "\<exists>tx ch'. pn_err (tally_fire V EvTallyNext s) = None \<and>
    pn_sent (tally_fire V EvTallyNext s) = pn_sent s @ [tx] \<and> exec_tx X tx ch = Inr ch' \<and>
    tallied X V \<alpha> payer tbl mbs c0 (min (k + MAX_BATCH) (length mbs)) (tally_fire V EvTallyNext s) ch'"
proof -
  let ?E = "pa_tally V" and ?rows = "map snd (ordered tbl)" and ?L = "ordered tbl"
  define batch where "batch = take MAX_BATCH (drop k ?rows)"
  define k' where "k' = k + length batch"
  have l: "smt_law (te_smt ?E) \<alpha>" "hash_law (te_P ?E)" "sdk_law X V" "root_law V" "panel_ready V kp payer"
      "tally_circuit_law C ?E \<alpha>" "pa_nChoices V \<le> MAX_CHOICES"
    using W by (simp_all add: tally_world_def tally_circuit_law_def)
  have len: "length tbl = length mbs" "length ?L = length mbs"
    using list_all2_lengthD [of _ ?rows mbs] ok by (auto simp: votes_ok_def mapM_list_all2 ordered_def)
  have k': "k' = min (k + MAX_BATCH) (length mbs)" "0 < k'" "k' - 1 < length ?L" "batch \<noteq> []"
    using k len by (simp_all add: k'_def batch_def MAX_BATCH_def)
  have T': "\<not> pn_busy s" "store_at V \<alpha> mbs k (pn_store s)" "same_poll X V payer c0 ch"
      "store_after (pn_store s) = (if k = 0 then None else Some (fst (?L ! (k - 1))))"
    using T by (simp_all add: tallied_def)
  have "pa_fetch V MAX_BATCH (store_after (pn_store s)) = Inr (True, \<lparr>pg_items = batch, pg_total = int (length tbl)\<rparr>)"
    using next_page [OF served _ T'(4)] k len by (simp add: batch_def take_map drop_map)
  then have fetch: "fetch_batch V (pn_store s) = Inr batch" using k'(4) by (simp add: fetch_batch_def)
  obtain c where c: "count_batch V (pn_store s) (kp_sk kp) batch = Inr c"
      "main_tally C (cn_inputs c) = Some (te_P ?E (cn_saltOld c # cn_tallyOld c), cn_rootNew c, ts_H (cn_st c), cn_tallyHashNew c)"
      "ts_H (cn_st c) = running_hash (te_P ?E) (step_hashes (te_P ?E) (take k' mbs))"
      "tally_inv ?E \<alpha> (pa_nChoices V) (cn_st c)" "field_keys (ts_leaves (cn_st c))"
      "board_of (ts_leaves (cn_st c)) = foldl cast_ballot Map.empty (map snd (take k' mbs))"
      "ti_cumulativeMsgHashOld (cn_inputs c) = running_hash (te_P ?E) (step_hashes (te_P ?E) (take k mbs))"
      "pn_store s = None \<longrightarrow> ti_rootOld (cn_inputs c) = smt_root (te_smt ?E) (smt_new (te_smt ?E))"
      "\<forall>st. pn_store s = Some st \<longrightarrow> hex_field (to_tallySaltHex st) = Inr (cn_saltOld c)"
    using count_page [OF l(6,7) T'(2) ok k batch_def k'_def] by (elim exE conjE) (rule that)
  have "poll_at ch (poll_addr X V) \<noteq> None" using p T'(3) by (simp add: same_poll_def)
  from batch_lands [OF W c(2) ready_at [OF W T c(1,7-9)] this] obtain pf tx ch' where
    b: "prove_batch V c = Inr (pf, ts_H (cn_st c))" "batch_tx V (pn_store s) payer c pf (ts_H (cn_st c)) = Inr tx"
      "exec_tx X tx ch = Inr ch'" "same_poll X V payer ch ch'"
    by blast
  have last: "last batch = snd (?L ! (k' - 1))"
    using k' len k by (simp add: last_conv_nth batch_def k'_def)
  have "?L ! (k' - 1) \<in> set tbl" using k'(3) nth_mem [of "k' - 1" ?L] by (simp add: ordered_def)
  moreover have "\<forall>r \<in> set tbl. vw_id (snd r) = to_string 10 (fst r)" using served by (auto simp: votes_served_def)
  ultimately have "vw_id (last batch) = to_string 10 (fst (?L ! (k' - 1)))" unfolding last by blast
  then have id: "bigint_of_string (vw_id (last batch)) = Inr (fst (?L ! (k' - 1)))"
    by (simp add: bigint_of_to_string_int)
  obtain ns where ns: "next_store V (pn_store s) batch c (ts_H (cn_st c)) = Inr ns" "to_leaves ns = ts_leaves (cn_st c)"
      "to_rootHex ns = toHex32 (cn_rootNew c)" "to_tallyCounts ns = map (to_string 10) (ts_counts (cn_st c))"
      "to_runningMsgHashHex ns = toHex32 (ts_H (cn_st c))" "to_tallySaltHex ns = toHex32 (cn_saltNew c)"
      "to_processedAfterId ns = fst (?L ! (k' - 1))" "to_processedCount ns = processed s + int (length batch)"
    using id by (simp add: next_store_def processed_def)
  have H: "0 \<le> ts_H (cn_st c)" "ts_H (cn_st c) < FP" unfolding c(3) using running_hash_range [OF l(2)] by blast+
  have run: "onTallyNext V s = (final_panel s batch ns tx)\<lparr>pn_busy := False\<rparr>"
    by (rule tally_body_runs [OF T'(1) l(5) fetch c(1) b(1,2) ns(1)])
  have salt8: "length (pa_salt V) = 8" using l(5) by (simp add: panel_ready_def)
  have sync: "in_sync X V payer ns ch'"
    by (rule next_in_sync [OF l(3,4) salt8 c(1) ns(1) H b(2,3)])
  have "store_inv ?E \<alpha> (pa_nChoices V) (Some ns)"
    by (rule store_inv_next [OF c(4) l(1) ns(2) _ ns(4-6)]) (simp add: ns(3) count_batch_ok(2) [OF l(1,2) refl _ c(1)]
        T'(2) [unfolded store_at_def])
  moreover have "counted (te_P ?E) ns (step_hashes (te_P ?E) (take k' mbs))"
    using ns(5) c(3) l(2) by (auto simp: counted_def step_hashes_def hash_law_def msg_hash_def)
  moreover have "0 \<le> cn_saltNew c" "cn_saltNew c < 2 ^ 64"
    using salt_range [of "pa_salt V"] salt8 count_batch_old(3) [OF c(1)] by simp_all
  ultimately have "store_at V \<alpha> mbs k' (Some ns)"
    using c(5,6) ns(2,6) k'(2) by (auto simp: store_at_def store_leaves_def)
  moreover have "pn_store s \<noteq> Some ns"
    using ns(8) k'(4) by (auto simp: processed_def)
  then have fire: "tally_fire V EvTallyNext s = refreshRemaining V (onTallyNext V s)"
    by (simp add: tally_fire_def settle_def run final_panel_def)
  moreover have "to_processedCount ns = int k'" using ns(8) T by (simp add: tallied_def k'_def)
  moreover have "pn_remaining (refreshRemaining V (onTallyNext V s)) = Some (int (length mbs) - int k')"
    using served len(1) \<open>to_processedCount ns = int k'\<close>
    by (simp add: votes_served_def refreshRemaining_def refresh_with_def run final_panel_def list_votes_def Let_def)
  ultimately have "tallied X V \<alpha> payer tbl mbs c0 k' (tally_fire V EvTallyNext s) ch'"
    using sync k' same_poll_trans [OF T'(3) b(4)] ns(7)
    by (simp add: tallied_def run final_panel_def store_after_def processed_def)
  then show ?thesis using b(3) by (simp add: fire run final_panel_def k'(1))
qed

section \<open>The whole tally\<close>

text \<open>\<open>n\<close> clicks on \<open>Tally next\<close>, each with its transaction executed; \<open>None\<close> when the button is not
  there to be clicked, or after an error.\<close>

primrec tally_clicks :: "chain_env \<Rightarrow> 'mt panel_env \<Rightarrow> int \<Rightarrow> nat \<Rightarrow> panel \<Rightarrow> chain \<Rightarrow> (panel \<times> chain) option" where
  "tally_clicks X V now 0 s ch = Some (s, ch)"
| "tally_clicks X V now (Suc n) s ch =
     (if \<not> offers EvTallyNext (tally_ui V now s) then None
      else let s' = tally_fire V EvTallyNext s in
        if pn_err s' \<noteq> None then None
        else (case exec_tx X (last (pn_sent s')) ch of
          Inl e \<Rightarrow> None
        | Inr ch' \<Rightarrow> tally_clicks X V now n s' ch'))"

lemma tallied_offers:
  assumes "tallied X V \<alpha> payer tbl mbs c0 k s ch" "panel_ready V kp payer"
  shows "offers EvTallyNext (tally_ui V now s) \<longleftrightarrow> k < length mbs"
    and "offers EvFinish (tally_ui V now s) \<longleftrightarrow> k = length mbs \<and> 1000 * pa_votingEnd V \<le> now"
  using assms by (auto simp: tallied_def panel_ready_def tallyNextEnabled_def finishEnabled_def)

lemma clicks:
  assumes W: "tally_world C X V \<alpha> kp payer" and served: "votes_served V tbl"
    and ok: "votes_ok V (kp_sk kp) (map snd (ordered tbl)) mbs" and p: "poll_at c0 (poll_addr X V) \<noteq> None"
  shows "tallied X V \<alpha> payer tbl mbs c0 k s ch \<Longrightarrow> n = 0 \<or> k + MAX_BATCH * (n - 1) < length mbs \<Longrightarrow>
    \<exists>s' ch'. tally_clicks X V now n s ch = Some (s', ch') \<and>
      tallied X V \<alpha> payer tbl mbs c0 (min (k + MAX_BATCH * n) (length mbs)) s' ch'"
proof (induction n arbitrary: k s ch)
  case 0
  then have "min (k + MAX_BATCH * 0) (length mbs) = k" by (simp add: tallied_def)
  with 0 show ?case by simp
next
  case (Suc n)
  then have k: "k < length mbs" by auto
  have o: "offers EvTallyNext (tally_ui V now s)"
    using tallied_offers(1) [OF Suc.prems(1)] k W by (auto simp: tally_world_def)
  obtain tx ch1 where c: "pn_err (tally_fire V EvTallyNext s) = None"
      "pn_sent (tally_fire V EvTallyNext s) = pn_sent s @ [tx]" "exec_tx X tx ch = Inr ch1"
      "tallied X V \<alpha> payer tbl mbs c0 (min (k + MAX_BATCH) (length mbs)) (tally_fire V EvTallyNext s) ch1"
    using click [OF W served ok p Suc.prems(1) k] by blast
  have "n = 0 \<or> min (k + MAX_BATCH) (length mbs) + MAX_BATCH * (n - 1) < length mbs"
    using Suc.prems(2) by (cases n) (simp_all add: min_def)
  from Suc.IH [OF c(4) this] obtain s' ch' where r: "tally_clicks X V now n (tally_fire V EvTallyNext s) ch1 = Some (s', ch')"
      "tallied X V \<alpha> payer tbl mbs c0 (min (min (k + MAX_BATCH) (length mbs) + MAX_BATCH * n) (length mbs)) s' ch'"
    by blast
  have "min (min (k + MAX_BATCH) (length mbs) + MAX_BATCH * n) (length mbs) = min (k + MAX_BATCH * Suc n) (length mbs)"
    by (simp add: min_def)
  with r c(1-3) o show ?case by (simp add: Let_def)
qed

lemma leaves_of_ballots:
  assumes "leaves_ok E n leaves" "board_of leaves = foldl cast_ballot Map.empty bs"
  shows "length leaves \<le> length bs"
proof -
  have "fst ` set leaves \<subseteq> (leaf_index \<circ> bl_nu) ` set bs"
    using dom_cast [of Map.empty bs] assms(2) [symmetric] by (auto simp: board_of_def dom_def map_of_eq_None_iff image_iff)
  then have "card (fst ` set leaves) \<le> card ((leaf_index \<circ> bl_nu) ` set bs)" by (rule card_mono [rotated]) simp
  also have "\<dots> \<le> length bs" by (meson card_image_le card_length finite_set order_trans)
  finally show ?thesis using assms(1) by (metis leaves_ok_def distinct_card length_map set_map)
qed

text \<open>After one click per page every ballot is counted.\<close>

lemma all_clicks:
  assumes world: "tally_world C X V \<alpha> kp payer" "votes_served V tbl"
      "votes_ok V (kp_sk kp) (map snd (ordered tbl)) mbs" "mbs \<noteq> []"
    and panel: "db (TALLY_DB_KEY (pa_pollId V) (tally_accountId V)) = None" "pa_keypair V \<noteq> None"
    and chain: "poll_at ch (poll_addr X V) \<noteq> None"
    and account: "ch_data ch (tally_addr X V payer) = None" "ch_lam ch (tally_addr X V payer) = 0"
      "cx_rent X TALLY_SPACE \<le> ch_lam ch payer"
  obtains s' ch' where "tally_clicks X V now ((length mbs + 5) div 6) (mount_panel V db) ch = Some (s', ch')"
    "tallied X V \<alpha> payer tbl mbs ch (length mbs) s' ch'"
proof -
  let ?s = "mount_panel V db" and ?n = "(length mbs + 5) div 6"
  have "length tbl = length mbs"
    using list_all2_lengthD [of _ "map snd (ordered tbl)" mbs] world(3) by (auto simp: votes_ok_def mapM_list_all2 ordered_def)
  then have s: "pn_store ?s = None" "\<not> pn_busy ?s" "pn_remaining ?s = Some (int (length mbs))"
    using mount_empty [of V db] panel world(2)
    by (simp_all add: fresh_panel_def votes_served_def refreshRemaining_def refresh_with_def list_votes_def Let_def)
  have "store_at V \<alpha> mbs 0 None"
    by (simp add: store_at_def store_inv_def store_leaves_def field_keys_def board_of_def fun_eq_iff)
  then have "tallied X V \<alpha> payer tbl mbs ch 0 ?s ch"
    using s account by (simp add: tallied_def same_poll_def store_after_def processed_def)
  moreover have "?n = 0 \<or> 0 + MAX_BATCH * (?n - 1) < length mbs"
    using world(4) by (cases mbs) (auto simp: MAX_BATCH_def)
  ultimately obtain s' ch' where c: "tally_clicks X V now ?n ?s ch = Some (s', ch')"
      "tallied X V \<alpha> payer tbl mbs ch (min (0 + MAX_BATCH * ?n) (length mbs)) s' ch'"
    using clicks [OF world(1-3)] chain by blast
  have "min (0 + MAX_BATCH * ?n) (length mbs) = length mbs" by (simp add: MAX_BATCH_def)
  then show ?thesis using c that by simp
qed

text \<open>
  C4: the tally ends, with the right result, and the panel shows the way. For an ended poll
  whose votes the indexer serves as the log has them, and whose ballots can all be opened by the
  tallier and are all on the ballot paper (one that is not makes every click fail: \<open>TallyProps\<close>), a
  tallier with an honest prover and no saved progress, who can pay the rent of the tally account
  and has none yet, reaches the end in exactly the clicks that the
  pages need, one for every six votes: each time \<open>Tally next\<close> is there and enabled, the click
  does not fail and its transaction is executed. Then the button is gone and \<open>Finish\<close> is
  there in its place, and it puts on the chain the result of the abstract election on all the
  ballots in the order of the log.
\<close>

theorem tally_reaches_result:
  assumes world: "tally_world C X V \<alpha> kp payer" "votes_served V tbl"
      "votes_ok V (kp_sk kp) (map snd (ordered tbl)) mbs" "mbs \<noteq> []" "int (length mbs) < 2 ^ 64"
    and panel: "db (TALLY_DB_KEY (pa_pollId V) (tally_accountId V)) = None" "1000 * pa_votingEnd V \<le> now"
    and chain: "genesis g" "(chain_step X)\<^sup>*\<^sup>* g ch" "poll_at ch (poll_addr X V) = Some p" "pl_end p < ch_now ch"
      "unat (pl_nChoices p) = pa_nChoices V"
    and log: "msgs_of (pl_id p) (ch_events ch) = map toBytesBE32 (step_hashes (te_P (pa_tally V)) mbs)"
    and account: "ch_data ch (tally_addr X V payer) = None" "ch_lam ch (tally_addr X V payer) = 0"
      "cx_rent X TALLY_SPACE \<le> ch_lam ch payer"
  shows "\<exists>s' ch' tx ch''. tally_clicks X V now ((length mbs + 5) div 6) (mount_panel V db) ch = Some (s', ch') \<and>
    \<not> offers EvTallyNext (tally_ui V now s') \<and> offers EvFinish (tally_ui V now s') \<and>
    pn_sent (tally_fire V EvFinish s') = pn_sent s' @ [tx] \<and> pn_err (tally_fire V EvFinish s') = None \<and>
    exec_tx X tx ch' = Inr ch'' \<and> poll_at ch'' (poll_addr X V) = Some (p\<lparr>pl_tally :=
      map word_of_int (result (pa_nChoices V) (foldl cast_ballot Map.empty (map snd mbs)))\<rparr>)"
proof -
  let ?E = "pa_tally V" and ?n = "(length mbs + 5) div 6" and ?t = "tally_addr X V payer"
  have w: "sdk_law X V" "poseidon_law X (te_P ?E)" "hash_law (te_P ?E)" "panel_ready V kp payer"
      "pa_nChoices V \<le> MAX_CHOICES" "?t \<noteq> payer"
    using world(1) by (simp_all add: tally_world_def tally_circuit_law_def)
  then obtain bh where r: "pa_wallet V = Some payer" "pa_blockhash V = Inr bh" "\<And>tx. pa_send V tx = Inr ()"
    unfolding panel_ready_def by blast
  have k: "pa_keypair V \<noteq> None" "poll_at ch (poll_addr X V) \<noteq> None" using w(4) chain(3) by (simp_all add: panel_ready_def)
  obtain s' ch' where c: "tally_clicks X V now ?n (mount_panel V db) ch = Some (s', ch')"
      and T: "tallied X V \<alpha> payer tbl mbs ch (length mbs) s' ch'"
    using all_clicks [where db = db and now = now, OF world(1-4) panel(1) k account] .
  from T obtain st where st: "pn_store s' = Some st" "in_sync X V payer st ch'" "\<not> pn_busy s'"
      "same_poll X V payer ch ch'" "store_at V \<alpha> mbs (length mbs) (Some st)"
    using world(4) by (cases "pn_store s'") (auto simp: tallied_def store_at_def)
  then have at: "store_inv ?E \<alpha> (pa_nChoices V) (Some st)" "counted (te_P ?E) st (step_hashes (te_P ?E) mbs)"
      "board_of (to_leaves st) = foldl cast_ballot Map.empty (map snd mbs)"
    by (simp_all add: store_at_def store_leaves_def)
  have "length (to_leaves st) \<le> length (map snd mbs)"
    using leaves_of_ballots [OF _ at(3)] at(1) by (auto simp: store_inv_def)
  then have few: "int (length (to_leaves st)) < 2 ^ 64" using world(5) by simp
  have sp: "(chain_step X)\<^sup>*\<^sup>* g ch'" "poll_at ch' (poll_addr X V) = Some p" "pl_end p < ch_now ch'"
      "msgs_of (pl_id p) (ch_events ch') = map toBytesBE32 (step_hashes (te_P ?E) mbs)"
      "uint (ch_lam ch' payer) + uint (ch_lam ch' ?t) = uint (ch_lam ch payer)"
    using st(4) chain log account(2) by (auto simp: same_poll_def)
  then have money: "uint (ch_lam ch' payer) + uint (ch_lam ch' ?t) < 2 ^ 64"
    using uint_lt2p [of "ch_lam ch payer"] by simp
  obtain tx ch'' where f: "pn_sent (onFinishTally V s') = pn_sent s' @ [tx]" "pn_err (onFinishTally V s') = None"
      "exec_tx X tx ch' = Inr ch''" "poll_at ch'' (poll_addr X V) = Some (p\<lparr>pl_tally :=
        map word_of_int (result (pa_nChoices V) (foldl cast_ballot Map.empty (map snd mbs)))\<rparr>)"
    using finish_publishes_result [OF w(1-3) st(1,3) r at(1) few chain(1) sp(1-3) chain(5) w(5) st(2) at(2) sp(4) w(6) money]
    unfolding at(3) by blast
  have "\<not> offers EvTallyNext (tally_ui V now s')" "offers EvFinish (tally_ui V now s')"
    using tallied_offers [OF T w(4)] panel(2) by blast+
  then show ?thesis using c f by (auto simp: tally_fire_def)
qed

section \<open>An instance\<close>


text \<open>The constant hash, on all three sides.\<close>

definition flat_env :: "(int \<Rightarrow> int option) tally_env" where
  "flat_env = wide_env\<lparr>te_P := (\<lambda>_. HASH0)\<rparr>"

definition flat_lib :: circuit_lib where
  "flat_lib = wide_lib\<lparr>tc_perm := (\<lambda>_. [HASH0])\<rparr>"

definition flat_bytes :: "byte list" where
  "flat_bytes = [42, 9, 169, 253, 147, 197, 144, 194, 107, 145, 239, 251, 178, 73, 159, 7, 232, 247, 170, 18,
     226, 180, 148, 10, 58, 237, 36, 17, 203, 101, 225, 28]"

definition flat_x :: chain_env where
  "flat_x = small_env\<lparr>cx_hashv := (\<lambda>_. Some flat_bytes)\<rparr>"

definition flat_args :: "byte \<Rightarrow> ballot_args" where
  "flat_args c = \<lparr>ba_ephPk = \<lparr>pt_x = replicate 31 0 @ [1], pt_y = replicate 31 0 @ [2]\<rparr>, ba_nonce = 7,
     ba_ciphertext = [replicate 31 0 @ [5], replicate 31 0 @ [c], flat_bytes, replicate 31 0 @ [77], zero32, zero32, zero32],
     ba_proof = \<lparr>cp_a = [], cp_b = [], cp_c = []\<rparr>\<rparr>"

definition flat_voted :: "chain outcome" where
  "flat_voted =
     obind (do_initialize flat_x (small_key 1) small_cfg (small_key 1) 2 (small_key 3) small_start) (\<lambda>ch.
     obind (relayer_do_initialize flat_x (small_key 1) small_rcfg ''http'' (small_key 4) (small_key 1) 6 ch) (\<lambda>ch.
     obind (do_create_poll flat_x (small_key 1) small_cfg small_poll small_rcfg small_state small_args ch) (\<lambda>ch.
     obind (do_vote flat_x (small_key 1) (small_key 2) small_cfg small_poll (small_key 3) (flat_args 2) ch)
       (do_vote flat_x (small_key 1) (small_key 2) small_cfg small_poll (small_key 3) (flat_args 1)))))"

lemma flat_steps:
  assumes "flat_voted = Inr ch" "ch_now ch \<le> t" shows "(chain_step flat_x)\<^sup>*\<^sup>* small_start (at_time t ch)"
proof -
  obtain c1 c2 c3 c4 where s: "chain_step flat_x small_start c1" "chain_step flat_x c1 c2"
      "chain_step flat_x c2 c3" "chain_step flat_x c3 c4" "chain_step flat_x c4 ch"
    using assms(1) cs_initialize cs_relayer_init cs_create cs_vote unfolding flat_voted_def obind_ok by metis
  moreover have "chain_step flat_x ch (at_time t ch)" unfolding at_time_def by (rule cs_time [OF assms(2)])
  ultimately show ?thesis by (meson rtranclp.intros)
qed

lemma flat_hash: "toBytesBE32 HASH0 = flat_bytes"
  by code_simp

lemma flat_facts: "(case flat_voted of Inl _ \<Rightarrow> False | Inr c \<Rightarrow>
     map_option (\<lambda>p. (pl_end p, pl_nChoices p, pl_id p)) (poll_at c small_poll) = Some (100, 2, 5) \<and> ch_now c = 50 \<and>
     msgs_of 5 (ch_events c) = [flat_bytes, flat_bytes] \<and>
     Option.is_none (ch_data c small_tally) \<and> ch_lam c small_tally = 0 \<and>
     cx_rent flat_x TALLY_SPACE \<le> ch_lam c (small_key 1))"
  by code_simp


definition flat_tbl :: "(int \<times> vote_row) list" where
  "flat_tbl = [(2, plain_row ''2'' [5, 1, HASH0, 77, 0, 0, 0]), (1, plain_row ''1'' [5, 2, HASH0, 77, 0, 0, 0])]"

definition flat_panel :: "(int \<Rightarrow> int option) panel_env" where
  "flat_panel = (zero_panel_env (Some (small_key 1)))\<lparr>pa_tally := flat_env,
     pa_fetch := (\<lambda>limit after. Inr (True, list_votes flat_tbl (Some limit) after)),
     pa_prove := (\<lambda>i. case main_tally flat_lib i of None \<Rightarrow> Inl TypeError
       | Some (h, r, c, h') \<Rightarrow> Inr (zero_proof, map (to_string 10) [h, r, c, h', ti_rootOld i, ti_cumulativeMsgHashOld i]))\<rparr>"

lemma flat_panel_sel [simp]:
  "pa_tally flat_panel = flat_env" "pa_sdk flat_panel = demo_env" "pa_wallet flat_panel = Some (small_key 1)"
  "pa_keypair flat_panel = Some the_tallier" "pa_pollId flat_panel = 5" "pa_nChoices flat_panel = 2"
  "pa_salt flat_panel = [0, 0, 0, 0, 0, 0, 1, 2]" "pa_blockhash flat_panel = Inr ''hash''"
  "pa_send flat_panel tx = Inr ()" "pa_idbSet flat_panel = Inr ()" "pa_votingEnd flat_panel = 100"
  by (simp_all add: flat_panel_def zero_panel_env_def)

lemma flat_env_sel [simp]: "te_P flat_env = (\<lambda>_. HASH0)" "te_smt flat_env = wide_smt" "te_mul flat_env = te_mul wide_env"
    "te_decrypt flat_env = te_decrypt wide_env"
  by (simp_all add: flat_env_def) (simp add: wide_env_def)

lemma flat_open: "open_vote flat_env = open_vote wide_env" "opened flat_env = opened wide_env"
  by (simp_all add: fun_eq_iff open_vote_def opened_def decrypt_vote_def)

lemma flat_law: "tally_circuit_law flat_lib flat_env (\<lambda>t. t)"
proof -
  have w: "circuit_lib_law wide_lib wide_env" "smt_law wide_smt (\<lambda>t. t)" "smt_circuit_law wide_lib wide_smt (\<lambda>t. t)"
    using wide_law by (simp_all add: tally_circuit_law_def) (simp_all add: wide_env_def)
  have lib: "tc_isZero flat_lib = tc_isZero wide_lib" "tc_isEqual flat_lib = tc_isEqual wide_lib"
      "tc_lessThan16 flat_lib = tc_lessThan16 wide_lib" "tc_ecdh flat_lib = tc_ecdh wide_lib"
      "tc_decrypt flat_lib = tc_decrypt wide_lib" "tc_smtVerifier flat_lib = tc_smtVerifier wide_lib"
      "tc_smtProcessor flat_lib = tc_smtProcessor wide_lib" "tc_H flat_lib = (\<lambda>_. HASH0)"
    by (simp_all add: flat_lib_def PoseidonHasher_def fun_eq_iff)
  have "circuit_lib_law flat_lib flat_env" using w(1) unfolding circuit_lib_law_def lib flat_env_sel by blast
  moreover have "smt_circuit_law flat_lib wide_smt (\<lambda>t. t)" using w(3) unfolding smt_circuit_law_def lib by blast
  ultimately show ?thesis using w(2) HASH0_range by (simp add: tally_circuit_law_def hash_law_def)
qed

lemma flat_addr: "tally_addr flat_x flat_panel (small_key 1) = small_tally" "poll_addr flat_x flat_panel = small_poll"
  by (simp_all add: tally_addr_def poll_addr_def small_tally_def small_poll_def pda_def flat_x_def)

lemma flat_world: "tally_world flat_lib flat_x flat_panel (\<lambda>t. t) the_tallier (small_key 1)"
proof -
  have "root_law flat_panel" by (simp add: root_law_def) (simp add: wide_smt_def FP_def)
  moreover have "poseidon_law flat_x (te_P flat_env)" by (simp add: poseidon_law_def flat_x_def flat_hash)
  moreover have "sdk_law flat_x flat_panel" by (simp add: sdk_law_def flat_x_def small_env_def demo_env_def le8_law_def)
  moreover have "honest_prover flat_lib flat_x flat_panel"
    using compress_zero by (auto simp: honest_prover_def flat_panel_def Let_def flat_x_def small_env_def)
  moreover have "panel_ready flat_panel the_tallier (small_key 1)" by (simp add: panel_ready_def)
  moreover have "small_tally \<noteq> small_key 1" by code_simp
  ultimately show ?thesis using flat_law flat_addr by (simp add: tally_world_def MAX_CHOICES_def)
qed

lemma flat_rows: "map snd (ordered flat_tbl) = wide_rows" "votes_served flat_panel flat_tbl"
proof -
  have "ordered flat_tbl = rev flat_tbl" by (simp add: ordered_def flat_tbl_def)
  then show "map snd (ordered flat_tbl) = wide_rows" by (simp add: flat_tbl_def wide_rows_def)
  have "to_string 10 1 = ''1''" "to_string 10 2 = ''2''" by code_simp+
  then show "votes_served flat_panel flat_tbl"
    by (simp add: votes_served_def flat_tbl_def plain_row_def) (simp add: flat_panel_def flat_tbl_def plain_row_def)
qed

lemma flat_votes: "votes_ok flat_panel sk wide_rows [(wide_message 2, wide_ballot 2), (wide_message 1, wide_ballot 1)]"
proof -
  have "HASH0 \<noteq> 0" by (simp add: HASH0_def)
  moreover have "running_hash (\<lambda>_. HASH0) (h # hs) = HASH0" for h hs
    by (induction hs rule: rev_induct) (simp_all add: running_hash_def)
  ultimately show ?thesis
    using wide_open [of sk] opened_wide [of 2 sk] opened_wide [of 1 sk]
    by (simp add: votes_ok_def flat_open in_choices_def) (auto simp: wide_ballot_def step_hashes_def take_Cons')
qed


text \<open>The second ballot reuses the key of the first and has no effect.\<close>

theorem tally_reaches_result_witness:
  "\<exists>ch p s' ch' tx ch''. flat_voted = Inr ch \<and> poll_at ch small_poll = Some p \<and>
     tally_clicks flat_x flat_panel 101000 1 (mount_panel flat_panel Map.empty) (at_time 101 ch) = Some (s', ch') \<and>
     exec_tx flat_x tx ch' = Inr ch'' \<and> poll_at ch'' small_poll = Some (p\<lparr>pl_tally := [0, 1]\<rparr>)"
proof -
  let ?mbs = "[(wide_message 2, wide_ballot 2), (wide_message 1, wide_ballot 1)]"
  obtain ch and p :: poll_account where c: "flat_voted = Inr ch" "poll_at ch small_poll = Some p" "pl_end p = 100"
      "pl_nChoices p = 2" "pl_id p = 5" "ch_now ch = 50" "msgs_of 5 (ch_events ch) = [flat_bytes, flat_bytes]"
      "ch_data ch small_tally = None" "ch_lam ch small_tally = 0" "cx_rent flat_x TALLY_SPACE \<le> ch_lam ch (small_key 1)"
    using flat_facts by (auto split: sum.splits simp: Option.is_none_def)
  have at: "ch_events (at_time 101 ch) = ch_events ch" "ch_data (at_time 101 ch) = ch_data ch"
      "ch_lam (at_time 101 ch) = ch_lam ch" "ch_now (at_time 101 ch) = 101"
      "poll_at (at_time 101 ch) = poll_at ch"
    by (simp_all add: at_time_def poll_at_def fun_eq_iff)
  have votes: "votes_ok flat_panel (kp_sk the_tallier) (map snd (ordered flat_tbl)) ?mbs" "?mbs \<noteq> []"
      "int (length ?mbs) < 2 ^ 64"
    using flat_votes by (simp_all add: flat_rows(1))
  have panel: "Map.empty (TALLY_DB_KEY (pa_pollId flat_panel) (tally_accountId flat_panel)) = None"
      "1000 * pa_votingEnd flat_panel \<le> 101000"
    by simp_all
  have steps: "(chain_step flat_x)\<^sup>*\<^sup>* small_start (at_time 101 ch)" by (rule flat_steps [OF c(1)]) (simp add: c(6))
  have poll: "poll_at (at_time 101 ch) (poll_addr flat_x flat_panel) = Some p" "pl_end p < ch_now (at_time 101 ch)"
      "unat (pl_nChoices p) = pa_nChoices flat_panel"
    by (simp_all add: at flat_addr c(2-4))
  have log: "msgs_of (pl_id p) (ch_events (at_time 101 ch)) =
      map toBytesBE32 (step_hashes (te_P (pa_tally flat_panel)) ?mbs)"
    by (simp add: at c(5,7) step_hashes_def msg_hash_def flat_hash)
  have acc: "ch_data (at_time 101 ch) (tally_addr flat_x flat_panel (small_key 1)) = None"
      "ch_lam (at_time 101 ch) (tally_addr flat_x flat_panel (small_key 1)) = 0"
      "cx_rent flat_x TALLY_SPACE \<le> ch_lam (at_time 101 ch) (small_key 1)"
    by (simp_all add: at flat_addr c(8-10))
  have bd: "foldl cast_ballot Map.empty (map snd ?mbs) = [5 \<mapsto> (2, 77)]"
    by (simp add: cast_ballot_def current_def wide_ballot_def fun_eq_iff HASH0_def)
  have "{k. \<exists>r. [5 :: int \<mapsto> (2, 77)] k = Some (1 :: int, r :: int)} = {}"
      "{k. \<exists>r. [5 :: int \<mapsto> (2, 77)] k = Some (2 :: int, r :: int)} = {5}"
    by (auto split: if_splits)
  then have "map word_of_int (result 2 [5 \<mapsto> (2, 77)]) = [0, 1 :: u64]" by (simp add: result_def upt_rec)
  then have r: "map word_of_int (result (pa_nChoices flat_panel) (foldl cast_ballot Map.empty (map snd ?mbs))) = [0, 1 :: u64]"
    unfolding bd by simp
  have n: "(length ?mbs + 5) div 6 = 1" by simp
  from tally_reaches_result [OF flat_world flat_rows(2) votes panel small_genesis steps poll log acc] c(1,2)
  show ?thesis unfolding r n flat_addr by blast
qed

end
