(* ===== verification/ProgramTypes.thy ===== *)
theory ProgramTypes
  imports ProgramClaims
begin

text \<open>
  The accounts of the two programs are well typed in every reachable ledger: the address of an
  account determines the type of its data, and the data fits into the space that was allocated
  when the account was made, so that no handler but the update of the relayer's endpoint can
  fail to write an account back.
\<close>

section \<open>Typed accounts\<close>

text \<open>The length of an account as Borsh writes it: the discriminator, the fields of the structs in
  \<open>state.rs\<close>, and four bytes of length before each list.\<close>

definition account_len :: "account_data \<Rightarrow> nat" where
  "account_len d = (case d of
     DPlatform c \<Rightarrow> 1 + (32 + 32 + 8)
   | DPoll p \<Rightarrow> 1 + (8 + 1 + 64 + 32 + 32 + 8 + 8 + 8 + 8 + 32 + (4 + length (pl_descriptionUrl p)) +
       (4 + length (pl_censusUrl p)) + (4 + 8 * length (pl_tally p)))
   | DTally t \<Rightarrow> 1 + (32 + 32 + 32)
   | DRelayerConfig c \<Rightarrow> 1 + (32 + 8 + (4 + length (rc_endpoint c)) + 32)
   | DRelayerState s \<Rightarrow> 1 + (32 + 8 + 8 + 8))"

text \<open>The seeds under which each type of account lives.\<close>

definition at_home :: "chain_env \<Rightarrow> pubkey \<Rightarrow> account_data \<Rightarrow> bool" where
  "at_home X a d \<longleftrightarrow> (case d of
     DPlatform c \<Rightarrow> a = pda X [bytes_of_string ''PLATFORM_CONFIG'']
   | DPoll p \<Rightarrow> a = pda X (poll_seeds (pl_id p))
   | DTally t \<Rightarrow> \<exists>i owner. a = pda X (tally_seeds i owner)
   | DRelayerConfig c \<Rightarrow> a = relayer_pda X [bytes_of_string ''RELAYER_CONFIG'']
   | DRelayerState s \<Rightarrow> \<exists>i. a = relayer_pda X (state_seeds (se_moot (cx_sdk X)) i))"

text \<open>A poll keeps the room for its result.\<close>

definition account_room :: "account_data \<Rightarrow> nat" where
  "account_room d = (case d of
     DPoll p \<Rightarrow> poll_space (pl_nChoices p) (pl_descriptionUrl p) (pl_censusUrl p)
   | _ \<Rightarrow> account_len d)"

definition result_shape :: "account_data \<Rightarrow> bool" where
  "result_shape d \<longleftrightarrow> (case d of
     DPoll p \<Rightarrow> pl_tally p = [] \<or> length (pl_tally p) = unat (pl_nChoices p)
   | _ \<Rightarrow> True)"

definition typed :: "chain_env \<Rightarrow> nat \<Rightarrow> pubkey \<Rightarrow> account_data \<Rightarrow> bool" where
  "typed X n a d \<longleftrightarrow> at_home X a d \<and> result_shape d \<and> account_room d \<le> n"

definition ledger_typed :: "chain_env \<Rightarrow> chain \<Rightarrow> bool" where
  "ledger_typed X ch \<longleftrightarrow> (\<forall>a d. ch_data ch a = Some d \<longrightarrow> typed X (ch_size ch a) a d)"

lemmas typed_simps = typed_def at_home_def account_room_def account_len_def result_shape_def poll_space_def

lemma room_suffices: "result_shape d \<Longrightarrow> account_len d \<le> account_room d"
  by (auto simp: typed_simps split: account_data.splits)

section \<open>The operations keep the types\<close>

lemma typed_transfer: "transfer_lam a b x ch = Inr ch' \<Longrightarrow> ledger_typed X ch' = ledger_typed X ch"
  by (simp add: ledger_typed_def transfer_frame transfer_size)

lemma init_size: "init_account X payer a space d ch = Inr ch' \<Longrightarrow> ch_size ch' = (ch_size ch)(a := space)"
  by (auto simp: init_account_def system_transfer_def outcome_simps transfer_size split: if_splits)

lemma typed_init:
  "init_account X payer a space d ch = Inr ch' \<Longrightarrow> ledger_typed X ch \<Longrightarrow> typed X space a d \<Longrightarrow> ledger_typed X ch'"
  by (auto simp: ledger_typed_def init_account_ok(2) init_size)

lemma typed_set: "ledger_typed X ch \<Longrightarrow> typed X (ch_size ch a) a d \<Longrightarrow> ledger_typed X (set_data a d ch)"
  by (simp add: ledger_typed_def set_data_def)

lemma typed_close: "close_account a b ch = Inr ch' \<Longrightarrow> ledger_typed X ch \<Longrightarrow> ledger_typed X ch'"
proof -
  assume r: "close_account a b ch = Inr ch'" and t: "ledger_typed X ch"
  have "ch_size ch' = ch_size ch" using r by (auto simp: close_account_def outcome_simps transfer_size)
  then show ?thesis using t close_account_ok(1) [OF r] by (simp add: ledger_typed_def)
qed

lemma typed_emit [simp]: "ledger_typed X (emit e ch) = ledger_typed X ch"
  by (simp add: ledger_typed_def emit_def)

lemma typed_at: "ledger_typed X ch \<Longrightarrow> ch_data ch a = Some d \<Longrightarrow> typed X (ch_size ch a) a d"
  by (simp add: ledger_typed_def)

text \<open>A poll is changed in its running hash and its result only.\<close>

lemma typed_poll: "typed X n a (DPoll p) \<Longrightarrow> typed X n a (DPoll (p\<lparr>pl_cumulative := h\<rparr>))"
    "typed X n a (DPoll p) \<Longrightarrow> length ts = unat (pl_nChoices p) \<Longrightarrow> typed X n a (DPoll (p\<lparr>pl_tally := ts\<rparr>))"
  by (simp_all add: typed_simps)

lemma typed_vote: "vote_common X poll b nu rid hm ch = Inr ch' \<Longrightarrow> ledger_typed X ch \<Longrightarrow> ledger_typed X ch'"
  by (auto simp: vote_common_def outcome_simps intro!: typed_set typed_poll dest: typed_at)

lemma typed_paid_vote:
  "transfer_lam a b x ch = Inr ch1 \<Longrightarrow> transfer_lam c d y ch1 = Inr ch2 \<Longrightarrow>
   vote_common X poll v nu rid hm ch2 = Inr ch' \<Longrightarrow> ledger_typed X ch \<Longrightarrow> ledger_typed X ch'"
  by (metis typed_transfer typed_vote)

lemma typed_voting:
  "do_vote X payer dest cfg poll pdest b ch = Inr ch' \<Longrightarrow> ledger_typed X ch \<Longrightarrow> ledger_typed X ch'"
  "do_vote_with_relayer X relayer rstate sg cfg poll pdest nu mh rid b ch = Inr ch' \<Longrightarrow>
   ledger_typed X ch \<Longrightarrow> ledger_typed X ch'"
  by (clarsimp simp: do_vote_def outcome_simps system_transfer_def, blast intro: typed_paid_vote)
    (clarsimp simp: do_vote_with_relayer_def outcome_simps, blast intro: typed_paid_vote)

lemma typed_state: "typed X n a (DRelayerState rs) \<Longrightarrow> typed X n a (DRelayerState (rs\<lparr>rs_root := r\<rparr>))"
  by (simp add: typed_simps)

lemma typed_invoke:
  "invoke_vote X relayer rstate fwd nu mh rid data ch = Inr ch' \<Longrightarrow> ledger_typed X ch \<Longrightarrow> ledger_typed X ch'"
  by (auto simp: invoke_vote_def intro: typed_voting(2) split: option.splits list.splits prod.splits)

lemma typed_relay:
  "relay_vote X sg relayer rcfg rstate target fwd ra ch = Inr ch' \<Longrightarrow> ledger_typed X ch \<Longrightarrow> ledger_typed X ch'"
  by (clarsimp simp: relay_vote_def Let_def outcome_simps) (blast intro: typed_invoke typed_set typed_state typed_at)

lemma typed_create_poll:
  assumes "do_create_poll X payer cfg poll rcfg rstate a ch = Inr ch'" "ledger_typed X ch"
  shows "ledger_typed X ch'"
proof -
  obtain pc :: platform_config and ch1 d ch2 ch3 where s: "poll = pda X (poll_seeds (cr_id a))"
      "init_account X payer poll (poll_space (cr_nChoices a) (cr_descriptionUrl a) (cr_censusUrl a))
         (DPoll (new_poll a (pc_fee pc))) ch = Inr ch1"
      "transfer_lam payer poll d ch1 = Inr ch2"
      "create_relayer_state X payer rcfg rstate (se_moot (cx_sdk X)) (se_moot (cx_sdk X)) (cr_id a) MSG_LIMIT
         (cr_end a) ch2 = Inr ch3" "ch' = emit (create_poll_event a (pc_fee pc)) ch3"
    using assms(1) by (auto simp: do_create_poll_def outcome_simps system_transfer_def)
  have "ledger_typed X ch1"
    by (rule typed_init [OF s(2) assms(2)]) (simp add: typed_simps s(1) new_poll_def)
  then have "ledger_typed X ch2" using typed_transfer [OF s(3)] by simp
  moreover have "ledger_typed X c \<Longrightarrow> create_relayer_state X payer rcfg rstate (se_moot (cx_sdk X)) (se_moot (cx_sdk X))
      (cr_id a) MSG_LIMIT (cr_end a) c = Inr c' \<Longrightarrow> ledger_typed X c'" for c c'
    by (clarsimp simp: create_relayer_state_def outcome_simps, erule (1) typed_init)
      (auto simp: typed_simps RELAYER_STATE_SPACE_def)
  ultimately show ?thesis using s(4,5) by auto
qed

lemma typed_tally:
  "do_create_tally X payer tally i h ch = Inr ch' \<Longrightarrow> ledger_typed X ch \<Longrightarrow> ledger_typed X ch'"
  "do_tally_batch X tally proof r c h ch = Inr ch' \<Longrightarrow> ledger_typed X ch \<Longrightarrow> ledger_typed X ch'"
  "do_finish_tally X payer tally poll counts salt ch = Inr ch' \<Longrightarrow> ledger_typed X ch \<Longrightarrow> ledger_typed X ch'"
  "do_close_tally X owner tally i ch = Inr ch' \<Longrightarrow> ledger_typed X ch \<Longrightarrow> ledger_typed X ch'"
proof -
  have t: "typed X n a (DTally t) \<Longrightarrow> typed X n a (DTally u)" for n a t u by (simp add: typed_simps)
  show "do_create_tally X payer tally i h ch = Inr ch' \<Longrightarrow> ledger_typed X ch \<Longrightarrow> ledger_typed X ch'"
    by (auto simp: do_create_tally_def outcome_simps Let_def intro!: typed_set split: if_splits dest: typed_at intro: t)
      (erule (1) typed_init, auto simp: typed_simps TALLY_SPACE_def)
  show "do_tally_batch X tally proof r c h ch = Inr ch' \<Longrightarrow> ledger_typed X ch \<Longrightarrow> ledger_typed X ch'"
    by (auto simp: do_tally_batch_def outcome_simps intro!: typed_set dest: typed_at intro: t)
  show "do_finish_tally X payer tally poll counts salt ch = Inr ch' \<Longrightarrow> ledger_typed X ch \<Longrightarrow> ledger_typed X ch'"
    by (clarsimp simp: do_finish_tally_def outcome_simps, erule typed_close)
      (auto intro!: typed_set typed_poll dest: typed_at)
  show "do_close_tally X owner tally i ch = Inr ch' \<Longrightarrow> ledger_typed X ch \<Longrightarrow> ledger_typed X ch'"
    by (auto simp: do_close_tally_def outcome_simps intro: typed_close)
qed

lemma typed_config:
  "do_initialize X payer cfg admin fee dest ch = Inr ch' \<Longrightarrow> ledger_typed X ch \<Longrightarrow> ledger_typed X ch'"
  "do_update_config signer cfg admin fee dest ch = Inr ch' \<Longrightarrow> ledger_typed X ch \<Longrightarrow> ledger_typed X ch'"
  "do_withdraw_poll X dest poll ch = Inr ch' \<Longrightarrow> ledger_typed X ch \<Longrightarrow> ledger_typed X ch'"
proof -
  show "do_initialize X payer cfg admin fee dest ch = Inr ch' \<Longrightarrow> ledger_typed X ch \<Longrightarrow> ledger_typed X ch'"
    by (clarsimp simp: do_initialize_def outcome_simps, erule (1) typed_init) (simp add: typed_simps PLATFORM_SPACE_def)
  have t: "typed X n a (DPlatform t) \<Longrightarrow> typed X n a (DPlatform u)" for n a t u by (simp add: typed_simps)
  show "do_update_config signer cfg admin fee dest ch = Inr ch' \<Longrightarrow> ledger_typed X ch \<Longrightarrow> ledger_typed X ch'"
    by (auto simp: do_update_config_def outcome_simps intro!: typed_set dest: typed_at intro: t)
  show "do_withdraw_poll X dest poll ch = Inr ch' \<Longrightarrow> ledger_typed X ch \<Longrightarrow> ledger_typed X ch'"
    by (auto simp: do_withdraw_poll_def outcome_simps typed_transfer)
qed

lemma typed_relayer_config:
  "relayer_do_initialize X payer cfg ep key admin fee ch = Inr ch' \<Longrightarrow> ledger_typed X ch \<Longrightarrow> ledger_typed X ch'"
  "relayer_do_update_config X payer signer cfg ep key admin fee ch = Inr ch' \<Longrightarrow> ledger_typed X ch \<Longrightarrow>
   ledger_typed X ch'"
proof -
  show "relayer_do_initialize X payer cfg ep key admin fee ch = Inr ch' \<Longrightarrow> ledger_typed X ch \<Longrightarrow> ledger_typed X ch'"
    by (clarsimp simp: relayer_do_initialize_def outcome_simps, erule (1) typed_init)
      (simp add: typed_simps relayer_config_space_def)
  have "ledger_typed X ch2" if r: "ledger_typed X ch" "ch_data ch cfg = Some (DRelayerConfig rc)"
      "transfer_lam a b x ch = Inr ch1" "relayer_config_len ep \<le> ch_size ch1 cfg"
      "ch2 = set_data cfg (DRelayerConfig \<lparr>rc_admin = admin, rc_fee = fee, rc_endpoint = ep, rc_feeKey = key\<rparr>) ch1"
    for ch ch1 ch2 rc a b x
  proof -
    have "typed X (ch_size ch cfg) cfg (DRelayerConfig rc)" by (rule typed_at [OF r(1,2)])
    then have "at_home X cfg (DRelayerConfig rc)" by (simp add: typed_def)
    then show ?thesis
      using r(1,4) typed_transfer [OF r(3)] unfolding r(5)
      by (intro typed_set) (simp_all add: typed_simps relayer_config_len_def)
  qed
  then show "relayer_do_update_config X payer signer cfg ep key admin fee ch = Inr ch' \<Longrightarrow> ledger_typed X ch \<Longrightarrow>
   ledger_typed X ch'"
    by (auto simp: relayer_do_update_config_def outcome_simps system_transfer_def split: if_splits)
qed

lemma typed_step: "chain_step X ch ch' \<Longrightarrow> ledger_typed X ch \<Longrightarrow> ledger_typed X ch'"
  by (induction rule: chain_step.induct)
    (auto intro: typed_config typed_relayer_config typed_create_poll typed_voting typed_relay typed_tally
      simp: system_transfer_def typed_transfer, simp add: ledger_typed_def)

lemma typed_steps: "(chain_step X)\<^sup>*\<^sup>* ch ch' \<Longrightarrow> ledger_typed X ch \<Longrightarrow> ledger_typed X ch'"
  by (induction rule: rtranclp_induct) (auto intro: typed_step)

text \<open>
  C8: accounts are well typed. In every ledger that the instructions of the two programs reach,
  the type of an account's data is the one of its address (a poll lives under its own number,
  a tally account under a poll and an owner, the configurations under their fixed seeds, a
  relayer state under the voting program and a number), the result of a poll is empty or has one
  count for each choice, and the data fits into the space allocated when the account was made:
  publishing a result never fails for want of space.
\<close>

theorem accounts_are_well_typed:
  assumes "genesis ch0" "(chain_step X)\<^sup>*\<^sup>* ch0 ch" "ch_data ch a = Some d"
  shows "at_home X a d \<and> result_shape d \<and> account_len d \<le> ch_size ch a"
proof -
  have "ledger_typed X ch0" using assms(1) by (simp add: genesis_def ledger_typed_def)
  then have "typed X (ch_size ch a) a d" using typed_steps [OF assms(2)] assms(3) typed_at by blast
  then show ?thesis using room_suffices [of d] by (simp add: typed_def)
qed

theorem accounts_are_well_typed_witness:
  "\<exists>ch p. small_done = Inr ch \<and> ch_data ch small_poll = Some (DPoll p) \<and> pl_tally p = [1, 0] \<and>
     small_poll = pda small_env (poll_seeds (pl_id p)) \<and> account_len (DPoll p) \<le> ch_size ch small_poll"
proof -
  obtain ch p where c: "small_done = Inr ch" "poll_at ch small_poll = Some p" "pl_tally p = [1, 0]"
    using small_done_run by blast
  then have d: "ch_data ch small_poll = Some (DPoll p)" by (simp add: poll_at_eq)
  from accounts_are_well_typed [OF small_genesis small_steps(4) [OF c(1)] d] c d
  show ?thesis by (auto simp: at_home_def)
qed

end
