(* ===== verification/CensusUi.thy ===== *)
theory CensusUi
  imports CensusPages Ui
begin

text \<open>
  What the pages of the census service render: the rest of \<open>components/ChooseCensusModal.tsx\<close>,
  \<open>pages/CensusesListPage.tsx\<close>, \<open>pages/CensusDetailPage.tsx\<close>, \<open>pages/CensusCreatePage.tsx\<close> and
  \<open>pages/CensusJoinPage.tsx\<close>.
\<close>

section \<open>The dialog that picks a census\<close>

datatype modal_event = MoSearch string | MoPick int string | MoPrev | MoNext | MoClose

definition modal_ui :: "bool \<Rightarrow> census_modal \<Rightarrow> modal_event ui" where
  "modal_ui locked s = Group ([Label ''census_modal.choose_census'', Click True MoClose [Words ''X'']]
     @ err_box (cm_err s)
     @ shown_if locked [Label ''census_modal.unlock_zk'']
     @ shown_if (\<not> locked) [Field (cm_q s) MoSearch, Group (shown_if (cm_loading s) [Label ''loading.loading'']
         @ (if cm_loading s then [] else map (\<lambda>it. Click (\<not> cm_row_disabled s) (MoPick (fst it) (ci_title (snd it)))
             (Words (ci_title (snd it)) # (case ci_description (snd it) of None \<Rightarrow> [] | Some d \<Rightarrow> shown_if (d \<noteq> []) [Words d]))) (cm_shown s))
         @ shown_if (\<not> cm_loading s \<and> length (cm_shown s) = 0) [Label ''census_modal.no_matches''])]
     @ prev_next (cm_canPrev s) MoPrev (page_next (cm_list s) \<noteq> None) MoNext)"

lemma offers_modal_ui [simp]:
  "offers (MoPick i title) (modal_ui locked s) \<longleftrightarrow> \<not> locked \<and> \<not> cm_loading s \<and> cm_picking s = None \<and>
     (\<exists>it. (i, it) \<in> set (cm_shown s) \<and> ci_title it = title)"
  "offers MoNext (modal_ui locked s) \<longleftrightarrow> page_next (cm_list s) \<noteq> None"
  "offers MoPrev (modal_ui locked s) \<longleftrightarrow> cm_canPrev s"
  "offers MoClose (modal_ui locked s)"
  by (force simp: modal_ui_def prev_next_def cm_row_disabled_def)+

section \<open>The list of censuses\<close>

datatype census_list_event = ClPrev | ClNext | ClCreate

definition census_list_ui :: "bool \<Rightarrow> census_list \<Rightarrow> census_list_event ui" where
  "census_list_ui locked s = (if locked then UnlockToView else
     let items = (case cl_page s of None \<Rightarrow> [] | Some p \<Rightarrow> ks_items p) in
     Group ([Label ''nav.censuses'', Click True ClCreate [Label ''census_list.create_new_census'']]
       @ err_box (cl_err s) @ shown_if (cl_loading s) [Words ''Loading'']
       @ [Group (map (\<lambda>it. Link (''/census/'' @ to_string 10 (fst it)) (Words (ci_title (snd it))
             # shown_if (ci_is_creator (snd it)) [Label ''census_list.creator''])) items
           @ shown_if (items = [] \<and> \<not> cl_loading s) [Label ''census_list.no_censuses''])]
       @ prev_next (cl_canPrev s \<and> \<not> cl_loading s) ClPrev (cl_canNext s \<and> \<not> cl_loading s) ClNext))"

lemma offers_census_list_ui [simp]:
  "offers ClPrev (census_list_ui locked s) \<longleftrightarrow> \<not> locked \<and> cl_canPrev s \<and> \<not> cl_loading s"
  "offers ClNext (census_list_ui locked s) \<longleftrightarrow> \<not> locked \<and> cl_canNext s \<and> \<not> cl_loading s"
  by (auto simp: census_list_ui_def Let_def prev_next_def)

text \<open>\<open>goCreate\<close> leaves the page.\<close>

definition census_list_fire :: "census_env \<Rightarrow> census_list_event \<Rightarrow> census_list \<Rightarrow> census_list" where
  "census_list_fire V e s = (case e of ClPrev \<Rightarrow> cl_onPrev V s | ClNext \<Rightarrow> cl_onNext V s | ClCreate \<Rightarrow> s)"

section \<open>A census\<close>

datatype census_event = CdName string | CdAdd | CdRemove int string | CdPrev | CdNext | CdCopy string

text \<open>\<open>copied token\<close> is the state of the button beside an invitation.\<close>

definition InviteCopy :: "(string \<Rightarrow> copy_status) \<Rightarrow> string \<Rightarrow> census_event ui" where
  "InviteCopy copied token = (let status = copied token in
     Click True (CdCopy token) [Styled (case status of
         CCopied \<Rightarrow> ''border-emerald-300 text-emerald-700''
       | CError \<Rightarrow> ''border-red-300 text-red-700 bg-red-50''
       | CIdle \<Rightarrow> ''hover:bg-neutral-200 dark:hover:bg-neutral-800'')
       [Label (case status of CCopied \<Rightarrow> ''census.invite_copied'' | CError \<Rightarrow> ''census.copy_failed''
          | CIdle \<Rightarrow> ''census.copy_invite'')]])"

definition add_ui :: "(string \<Rightarrow> copy_status) \<Rightarrow> census_detail \<Rightarrow> census_event ui" where
  "add_ui copied s = Group ([Label ''census.add_member'', Field (cd_addName s) CdName,
     Click (\<not> cd_addBusy s \<and> length (trim (cd_addName s)) \<noteq> 0) CdAdd
       [Label (if cd_addBusy s then ''loading.adding'' else ''actions.add'')]]
     @ (case cd_addErr s of None \<Rightarrow> [] | Some e \<Rightarrow> [Err e])
     @ (case cd_addInvite s of None \<Rightarrow> []
        | Some i \<Rightarrow> [Label ''census.added_member'', Words (in_name i), InviteCopy copied (in_token i)]))"

text \<open>\<open>replace(/^0+/, "")\<close>.\<close>

definition drop_zeros :: "string \<Rightarrow> string" where
  "drop_zeros s = dropWhile (\<lambda>c. c = CHR ''0'') s"

definition member_ui :: "(string \<Rightarrow> copy_status) \<Rightarrow> bool \<Rightarrow> int option \<Rightarrow> int \<times> member_row \<Rightarrow> census_event ui" where
  "member_ui copied creator removing m = Group (
     [Words (mr_name (snd m)), Styled (if mr_joined (snd m) then ''text-emerald-700'' else ''text-zinc-500'')
        (shown_if (\<not> mr_joined (snd m)) [Label ''census.has_not_joined'']
         @ (case mr_pub (snd m) of None \<Rightarrow> [] | Some p \<Rightarrow> shown_if (fst p \<noteq> []) [Words (''pkX: '' @ drop_zeros (fst p))]))]
     @ (case mr_invite (snd m) of None \<Rightarrow> [] | Some token \<Rightarrow> shown_if (token \<noteq> []) [InviteCopy copied token])
     @ shown_if creator [Click (removing \<noteq> Some (fst m)) (CdRemove (fst m) (mr_name (snd m)))
         [Label (if removing = Some (fst m) then ''loading.removing'' else ''actions.remove'')]])"

definition census_ui :: "bool \<Rightarrow> (string \<Rightarrow> copy_status) \<Rightarrow> census_detail \<Rightarrow> census_event ui" where
  "census_ui locked copied s = (if locked then UnlockToView else
     Group (shown_if (cd_loading s) [Words ''Loading''] @ err_box (cd_err s)
       @ (case cd_page s of None \<Rightarrow> [] | Some page \<Rightarrow> shown_if (\<not> cd_loading s)
           ([Words (mp_title page)] @ (case mp_description page of None \<Rightarrow> [] | Some d \<Rightarrow> shown_if (d \<noteq> []) [Words d])
            @ shown_if (mp_is_creator page) [add_ui copied s]
            @ map (member_ui copied (mp_is_creator page) (cd_removingId s)) (mp_items page)
            @ shown_if (length (mp_items page) = 0) [Label ''census.no_members_yet'']))
       @ prev_next (\<not> cd_loading s \<and> length (cd_stack s) \<noteq> 0) CdPrev
           (\<not> cd_loading s \<and> (case cd_page s of None \<Rightarrow> False | Some page \<Rightarrow> mp_any_left page)) CdNext))"

definition census_fire :: "member_env \<Rightarrow> census_event \<Rightarrow> census_detail \<Rightarrow> census_detail" where
  "census_fire V e s = (case e of
     CdName n \<Rightarrow> s\<lparr>cd_addName := n\<rparr>
   | CdAdd \<Rightarrow> onAddMember V s
   | CdRemove i n \<Rightarrow> onRemoveMember V i n s
   | CdPrev \<Rightarrow> cd_prev V s
   | CdNext \<Rightarrow> run_proc (cd_next V) s
   | CdCopy t \<Rightarrow> s)"

lemma InviteCopy_offers [simp]: "offers e (InviteCopy copied token) \<longleftrightarrow> e = CdCopy token"
  by (simp add: InviteCopy_def Let_def)

lemma offers_add_ui [simp]:
  "offers CdAdd (add_ui copied s) \<longleftrightarrow> \<not> cd_addBusy s \<and> trim (cd_addName s) \<noteq> []"
  "\<not> offers (CdRemove i n) (add_ui copied s)" "\<not> offers CdNext (add_ui copied s)" "\<not> offers CdPrev (add_ui copied s)"
  by (auto simp: add_ui_def split: option.splits)

lemma offers_member_ui [simp]:
  "offers (CdRemove i n) (member_ui copied creator r m) \<longleftrightarrow> creator \<and> r \<noteq> Some i \<and> fst m = i \<and> mr_name (snd m) = n"
  "\<not> offers CdAdd (member_ui copied creator r m)" "\<not> offers CdNext (member_ui copied creator r m)"
  "\<not> offers CdPrev (member_ui copied creator r m)"
  by (auto simp: member_ui_def split: option.splits)

lemma offers_census_ui [simp]:
  "offers CdAdd (census_ui locked copied s) \<longleftrightarrow> \<not> locked \<and> \<not> cd_loading s \<and>
     (\<exists>page. cd_page s = Some page \<and> mp_is_creator page) \<and> \<not> cd_addBusy s \<and> trim (cd_addName s) \<noteq> []"
  "offers (CdRemove i n) (census_ui locked copied s) \<longleftrightarrow> \<not> locked \<and> \<not> cd_loading s \<and> cd_removingId s \<noteq> Some i \<and>
     (\<exists>page m. cd_page s = Some page \<and> mp_is_creator page \<and> (i, m) \<in> set (mp_items page) \<and> mr_name m = n)"
  "offers CdNext (census_ui locked copied s) \<longleftrightarrow> \<not> locked \<and> \<not> cd_loading s \<and>
     (\<exists>page. cd_page s = Some page \<and> mp_any_left page)"
  "offers CdPrev (census_ui locked copied s) \<longleftrightarrow> \<not> locked \<and> \<not> cd_loading s \<and> cd_stack s \<noteq> []"
  by (auto simp: census_ui_def prev_next_def err_box_def ErrorBox_def Bex_def split: option.splits)

section \<open>Creating and joining\<close>

datatype census_create_event = CcTitle string | CcDescription string | CcAddMember | CcMember nat string
  | CcRemoveMember nat | CcSubmit

definition census_steps :: "(nat \<times> census_create_event ui option) list" where
  "census_steps = [(0, Some (Label ''census_creation.stage.signing'')), (1, Some (Label ''census_creation.stage.sending'')),
     (2, Some (Label ''census_creation.stage.created''))]"

definition census_create_ui ::
  "('e) auth_env_scheme \<Rightarrow> (string \<Rightarrow> string option) \<Rightarrow> bool \<Rightarrow> census_form \<Rightarrow> ccreate_page \<Rightarrow> census_create_event ui" where
  "census_create_ui V errors isSubmitting d s = (if ae_locked V then UnlockToView else
     let disabled = census_disabled V d isSubmitting; fields = cf_members d; pre = ''census_creation.form_error.'' in
     Group ([Label ''census_creation.create_census'', Label ''census_creation.title'', Field (cf_title d) CcTitle]
       @ form_error pre errors ''title''
       @ [Label ''census_creation.description'',
          Field (case cf_description d of None \<Rightarrow> [] | Some x \<Rightarrow> x) CcDescription]
       @ form_error pre errors ''description''
       @ [Label ''census_creation.members'', Click True CcAddMember [Label ''actions.add'']]
       @ map (\<lambda>i. Group [Field (fields ! i) (CcMember i),
            Click (\<not> length fields \<le> 1) (CcRemoveMember i) [Label ''actions.remove'']]) [0..<length fields]
       @ (case errors ''members'' of None \<Rightarrow> [] | Some m \<Rightarrow> [Label ''census_creation.form_error.members''])
       @ [StepperCard census_steps (cc_stage s) (Some 2) (map_option Err (cc_err s))
            (Styled (btn (\<not> disabled)) [Click (\<not> disabled) CcSubmit
               [Label (if isSubmitting then ''loading.working'' else ''census_creation.create_census'')]])]))"

definition join_label :: "join_stage \<Rightarrow> string" where
  "join_label st = (case st of JNone \<Rightarrow> ''census_join.join'' | JChecking \<Rightarrow> ''census_join.stage.checking''
     | JSigning \<Rightarrow> ''census_join.stage.signing'' | JSubmitting \<Rightarrow> ''census_join.stage.submitting''
     | JJoined \<Rightarrow> ''census_join.stage.joined'')"

datatype join_event = JoBind

definition join_ui :: "join_env \<Rightarrow> join_page \<Rightarrow> join_event ui" where
  "join_ui V s = (let disabled = join_disabled V s in Group (err_box (jp_err s)
     @ (case jp_pf s of
          None \<Rightarrow> shown_if (jp_err s = None)
            [Label (if jp_stage s = JNone then ''loading.loading'' else join_label (jp_stage s))]
        | Some pf \<Rightarrow> [Label ''census_join.were_invited_as'', Words (pre_census_title pf), Words (pre_name pf)]
            @ shown_if (ae_locked V) [Label ''census_join.unlock_zk'']
            @ [Styled (btn (\<not> disabled)) [Click (\<not> disabled) JoBind [Label (join_label (jp_stage s))]]])))"

lemma offers_join_ui [simp]:
  "offers JoBind (join_ui V s) \<longleftrightarrow> jp_pf s \<noteq> None \<and> \<not> ae_locked V \<and> ae_account V \<noteq> None \<and> jp_stage s = JNone"
  by (auto simp: join_ui_def Let_def join_disabled_def split: option.splits)

text \<open>A census is joined only with an invitation at hand: an offered \<open>Join\<close> throws no \<open>TypeError\<close> of
  its own.\<close>

lemma offered_join_sends:
  assumes "offers JoBind (join_ui V s)"
  shows "\<exists>acct pf. ae_account V = Some acct \<and> jp_pf s = Some pf \<and>
    (jp_err (onBind V s) = None \<longleftrightarrow>
       je_claim V (je_cid V) (pre_member_id pf) (je_token V) (auth_headers V acct) = Inr (HOk ()))"
proof -
  obtain acct pf where a: "ae_account V = Some acct" "jp_pf s = Some pf" using assms by auto
  then show ?thesis
    by (auto simp: onBind_def attempt_def bind_body_def proc_simps bind_def seq_def fetched_def
        split: sum.splits http.splits)
qed

end
