(* ===== verification/CreateUi.thy ===== *)
theory CreateUi
  imports SdkOnChain CensusUi
begin

text \<open>
  What \<open>pages/PollCreatePage.tsx\<close> renders, with the dialog that picks a census, and the polls
  that a user can create with its controls.
\<close>

datatype create_event = CrTitle string | CrStart string | CrEnd string | CrMode tallier_mode
  | CrTallierX string | CrTallierY string | CrFee string | CrAddChoice | CrChoice nat string | CrRemoveChoice nat
  | CrSource census_source | CrFile "byte list" | CrHelp | CrOpen | CrModal modal_event | CrSubmit

section \<open>The parts of the page\<close>

definition pub_hex :: "int \<Rightarrow> string" where
  "pub_hex n = ''0x'' @ padStart 64 (CHR ''0'') (to_string 16 n)"

definition ActiveTallierSummary :: "keypair option \<Rightarrow> 'e ui" where
  "ActiveTallierSummary acct = (case acct of
     None \<Rightarrow> Group [Label ''poll_creation.no_zk_account'']
   | Some a \<Rightarrow> Group [Label ''poll_creation.using_account'', Words (kp_name a),
       Words (''X: '' @ pub_hex (fst (kp_pub a))), Words (''Y: '' @ pub_hex (snd (kp_pub a)))])"

definition CensusHints :: "int \<Rightarrow> 'e ui" where
  "CensusHints censusCount = Group [Label ''poll_creation.voter_count'', Words (to_string 10 censusCount)]"

definition create_steps :: "(nat \<times> create_event ui option) list" where
  "create_steps = [(0, Some (Label ''poll_creation.stage.arweave'')), (1, Some (Label ''loading.sending_tx'')),
     (2, Some (Label ''poll_creation.stage.created''))]"

abbreviation create_error :: "(string \<Rightarrow> string option) \<Rightarrow> string \<Rightarrow> create_event ui list" where
  "create_error errors field \<equiv> form_error ''poll_creation.form_error.'' errors field"

definition tallier_ui :: "keypair option \<Rightarrow> (string \<Rightarrow> string option) \<Rightarrow> poll_form \<Rightarrow> create_event ui list" where
  "tallier_ui acct errors d =
     [Label ''poll_creation.tallier_key'', Pick (pf_tallierMode d = TActive) (CrMode TActive) [Label ''poll_creation.use_keyring''],
      Pick (pf_tallierMode d = TManual) (CrMode TManual) [Label ''poll_creation.enter_manually'']]
     @ (if pf_tallierMode d \<noteq> TManual then [ActiveTallierSummary acct]
        else [Field (case pf_tallierX d of None \<Rightarrow> [] | Some x \<Rightarrow> x) CrTallierX] @ create_error errors ''tallierX''
          @ [Field (case pf_tallierY d of None \<Rightarrow> [] | Some y \<Rightarrow> y) CrTallierY] @ create_error errors ''tallierY'')"

text \<open>The preview of the fee is computed while rendering; \<open>BigInt\<close> throws there for some inputs.\<close>

definition fee_ui :: "string option \<Rightarrow> (string \<Rightarrow> string option) \<Rightarrow> poll_form \<Rightarrow> create_event ui list" where
  "fee_ui preview errors d = [Label ''poll_creation.poll_fee'', Field (pf_feeLamports d) CrFee]
     @ (case preview of None \<Rightarrow> [] | Some p \<Rightarrow> shown_if (p \<noteq> []) [Words (''= '' @ p @ '' SOL'')])
     @ create_error errors ''feeLamports''"

definition choices_ui :: "(string \<Rightarrow> string option) \<Rightarrow> string list \<Rightarrow> create_event ui list" where
  "choices_ui errors choices = [Label ''poll_creation.choices'',
     Click (\<not> length choices \<ge> MAX_CHOICES) CrAddChoice [Words ''+ '', Label ''actions.add''],
     Group (map (\<lambda>i. Group [Field (choices ! i) (CrChoice i),
       Click (\<not> length choices \<le> 1) (CrRemoveChoice i) [Label ''actions.remove'']]) [0..<length choices]
       @ create_error errors ''choices'')]"

definition source_ui :: "bool \<Rightarrow> (string \<Rightarrow> string option) \<Rightarrow> poll_form \<Rightarrow> create_event ui list" where
  "source_ui help errors d =
     [Label ''poll_creation.census_source'',
      Pick (pf_censusSource d = CExisting) (CrSource CExisting) [Label ''poll_creation.use_existing_census''],
      Pick (pf_censusSource d = CUpload) (CrSource CUpload) [Label ''poll_creation.upload_file'']]
     @ create_error errors ''censusSource''
     @ (case pf_censusSource d of
          CUpload \<Rightarrow> [Label ''poll_creation.census_bin'',
              Help help CrHelp [Label ''poll_creation.census_format.census_file_format'',
                Label ''poll_creation.census_format.binary_file'', Label ''poll_creation.census_format.concatenation_of_leaves'',
                Label ''poll_creation.census_format.bytes32'', Label ''poll_creation.census_format.be'',
                Label ''poll_creation.census_format.each_leaf_is'', Label ''poll_creation.census_format.over_baby''],
              Upload CrFile] @ create_error errors ''censusCount'' @ create_error errors ''censusRootHex''
        | CExisting \<Rightarrow> [Click True CrOpen [Label ''poll_creation.choose_census'']]
            @ shown_if (pf_selectedCensusId d \<noteq> None \<and> pf_selectedCensusId d \<noteq> Some 0)
                [Label ''poll_creation.chosen'', Words (case pf_selectedCensusTitle d of None \<Rightarrow> [] | Some x \<Rightarrow> x)]
            @ create_error errors ''censusRootHex'')
     @ (case pf_censusCount d of None \<Rightarrow> [] | Some n \<Rightarrow> shown_if (n \<noteq> 0) [CensusHints n])"

section \<open>The page\<close>

record create_view =
  cv_date_parse :: "string \<Rightarrow> int option"
  cv_errors :: "string \<Rightarrow> string option"
  cv_submitting :: bool
  cv_locked :: bool
  cv_help :: bool
  cv_censuses :: "census_query \<Rightarrow> headers \<Rightarrow> list_out http res"

record create_screen =
  sc_page :: create_page
  sc_modal :: census_modal

text \<open>A throw while rendering leaves nothing on the page.\<close>

definition create_ui :: "create_env \<Rightarrow> create_view \<Rightarrow> create_screen \<Rightarrow> create_event ui res" where
  "create_ui V R s = (let d = cp_form (sc_page s); errors = cv_errors R;
       disabled = create_disabled V (cv_date_parse R) (cv_submitting R) d in
     rbind (feeSolPreview (pf_feeLamports d)) (\<lambda>preview. Inr (Group (
       [Label ''poll_creation.create_poll'', Label ''poll_creation.title'', Field (pf_title d) CrTitle]
       @ create_error errors ''title''
       @ [Label ''poll_creation.start'', Field (pf_start d) CrStart] @ create_error errors ''start''
       @ [Label ''poll_creation.end'', Field (pf_end d) CrEnd] @ create_error errors ''end''
       @ tallier_ui (ce_account V) errors d @ fee_ui preview errors d
       @ choices_ui errors (pf_choices d) @ source_ui (cv_help R) errors d
       @ [ConnectSolana (ce_wallet V),
          StepperCard create_steps (cp_stage (sc_page s)) (Some 2) (map_option Err (cp_err (sc_page s)))
            (Styled (btn (\<not> disabled)) [Click (\<not> disabled) CrSubmit
               [Label (if cv_submitting R then ''loading.working'' else ''poll_creation.create_poll'')]])]
       @ shown_if (cp_open (sc_page s)) [map_ui CrModal (modal_ui (cv_locked R) (sc_modal s))]))))"

definition set_field :: "(poll_form \<Rightarrow> poll_form) \<Rightarrow> create_screen \<Rightarrow> create_screen" where
  "set_field f s = s\<lparr>sc_page := (sc_page s)\<lparr>cp_form := f (cp_form (sc_page s))\<rparr>\<rparr>"

definition modal_env :: "create_env \<Rightarrow> create_view \<Rightarrow> census_env" where
  "modal_env V R = \<lparr>ae_P = ce_P V, ae_sign = ce_sign V, ae_now = ce_now V, ae_account = ce_account V,
     ae_locked = cv_locked R, ce_censuses = cv_censuses R\<rparr>"

definition fresh_modal :: census_modal where
  "fresh_modal = \<lparr>cm_list = None, cm_loading = False, cm_err = None, cm_q = [], cm_before = None,
     cm_stack = [], cm_picking = None\<rparr>"

text \<open>The dialog is mounted with its list loading; \<open>onPick\<close> is the handler of the page.\<close>

definition modal_fire :: "create_env \<Rightarrow> create_view \<Rightarrow> modal_event \<Rightarrow> create_screen \<Rightarrow> create_screen" where
  "modal_fire V R e s = (let m = sc_modal s; W = modal_env V R in case e of
     MoSearch q \<Rightarrow> s\<lparr>sc_modal := m\<lparr>cm_q := q\<rparr>\<rparr>
   | MoPick i title \<Rightarrow> (case handlePickExisting V i title (sc_page s) of
       (r, p) \<Rightarrow> s\<lparr>sc_page := p, sc_modal := cm_pick r i m\<rparr>)
   | MoPrev \<Rightarrow> s\<lparr>sc_modal := cm_onPrev W m\<rparr>
   | MoNext \<Rightarrow> s\<lparr>sc_modal := cm_onNext W m\<rparr>
   | MoClose \<Rightarrow> s\<lparr>sc_page := (sc_page s)\<lparr>cp_open := False\<rparr>\<rparr>)"

definition create_fire :: "create_env \<Rightarrow> create_view \<Rightarrow> create_event \<Rightarrow> create_screen \<Rightarrow> create_screen" where
  "create_fire V R e s = (case e of
     CrTitle x \<Rightarrow> set_field (\<lambda>d. d\<lparr>pf_title := x\<rparr>) s
   | CrStart x \<Rightarrow> set_field (\<lambda>d. d\<lparr>pf_start := x\<rparr>) s
   | CrEnd x \<Rightarrow> set_field (\<lambda>d. d\<lparr>pf_end := x\<rparr>) s
   | CrMode m \<Rightarrow> set_field (\<lambda>d. d\<lparr>pf_tallierMode := m\<rparr>) s
   | CrTallierX x \<Rightarrow> set_field (\<lambda>d. d\<lparr>pf_tallierX := Some x\<rparr>) s
   | CrTallierY y \<Rightarrow> set_field (\<lambda>d. d\<lparr>pf_tallierY := Some y\<rparr>) s
   | CrFee x \<Rightarrow> set_field (\<lambda>d. d\<lparr>pf_feeLamports := x\<rparr>) s
   | CrAddChoice \<Rightarrow> set_field (\<lambda>d. d\<lparr>pf_choices := pf_choices d @ [[]]\<rparr>) s
   | CrChoice i x \<Rightarrow> set_field (\<lambda>d. d\<lparr>pf_choices := (pf_choices d)[i := x]\<rparr>) s
   | CrRemoveChoice i \<Rightarrow> set_field (\<lambda>d. d\<lparr>pf_choices := take i (pf_choices d) @ drop (Suc i) (pf_choices d)\<rparr>) s
   | CrSource c \<Rightarrow> set_field (\<lambda>d. d\<lparr>pf_censusSource := c\<rparr>) s
   | CrFile bytes \<Rightarrow> s\<lparr>sc_page := snd (onCensusFile V bytes (sc_page s))\<rparr>
   | CrHelp \<Rightarrow> s
   | CrOpen \<Rightarrow> s\<lparr>sc_page := (sc_page s)\<lparr>cp_open := True\<rparr>, sc_modal := cm_load (modal_env V R) None fresh_modal\<rparr>
   | CrModal m \<Rightarrow> modal_fire V R m s
   | CrSubmit \<Rightarrow> s\<lparr>sc_page := onSubmit V (sc_page s)\<rparr>)"

text \<open>\<open>cal ms\<close> gives the parts of \<open>new Date(ms)\<close> in local time.\<close>

definition default_form :: "(int \<Rightarrow> int \<times> int \<times> int \<times> int \<times> int) \<Rightarrow> int \<Rightarrow> poll_form" where
  "default_form cal now =
     (let local = (\<lambda>ms. case cal ms of (y, mo, d, h, mi) \<Rightarrow> toLocalInputValue y mo d h mi) in
      \<lparr>pf_title = [], pf_choices = [[], []], pf_tallierMode = TActive, pf_tallierX = None, pf_tallierY = None,
       pf_start = local (now + 60000), pf_end = local (now + 3660000), pf_feeLamports = ''0'',
       pf_censusSource = CExisting, pf_censusBytes = None, pf_censusCount = Some 0,
       pf_censusRootHex = ''0x'' @ replicate 64 (CHR ''0''), pf_selectedCensusId = None, pf_selectedCensusTitle = None\<rparr>)"

definition fresh_create :: "poll_form \<Rightarrow> create_screen" where
  "fresh_create d = \<lparr>sc_page = \<lparr>cp_form = d, cp_err = None, cp_stage = None, cp_open = False,
     cp_uploaded = [], cp_txs = []\<rparr>, sc_modal = fresh_modal\<rparr>"

section \<open>What the page can create\<close>

text \<open>The user acts on what is offered, in one of the environments \<open>W\<close> after another.\<close>

inductive creating :: "(create_env \<Rightarrow> bool) \<Rightarrow> create_screen \<Rightarrow> bool" for W where
  cs_fresh: "creating W (fresh_create (default_form cal now))"
| cs_event: "creating W s \<Longrightarrow> W V \<Longrightarrow> create_ui V R s = Inr u \<Longrightarrow> offers e u \<Longrightarrow> creating W (create_fire V R e s)"

lemma summary_offers [simp]: "\<not> offers e (ActiveTallierSummary acct)" "\<not> offers e (CensusHints n)"
  by (simp_all add: ActiveTallierSummary_def CensusHints_def split: option.splits)

lemma parts_no_submit [simp]:
  "\<not> list_ex (offers CrSubmit) (tallier_ui acct errors d)" "\<not> list_ex (offers CrSubmit) (fee_ui preview errors d)"
  "\<not> list_ex (offers CrSubmit) (choices_ui errors cs)" "\<not> list_ex (offers CrSubmit) (source_ui help errors d)"
  by (simp_all add: tallier_ui_def fee_ui_def choices_ui_def source_ui_def Help_def split: option.splits census_source.splits)

lemma parts_no_choices [simp]:
  "\<not> list_ex (offers CrAddChoice) (tallier_ui acct errors d)" "\<not> list_ex (offers CrAddChoice) (fee_ui preview errors d)"
  "\<not> list_ex (offers CrAddChoice) (source_ui help errors d)"
  "\<not> list_ex (offers (CrRemoveChoice i)) (tallier_ui acct errors d)"
  "\<not> list_ex (offers (CrRemoveChoice i)) (fee_ui preview errors d)"
  "\<not> list_ex (offers (CrRemoveChoice i)) (source_ui help errors d)"
  by (simp_all add: tallier_ui_def fee_ui_def source_ui_def Help_def split: option.splits census_source.splits)

lemma create_stepper:
  "offers e (StepperCard create_steps cur fin (map_option Err err) action) \<longleftrightarrow> offers e action"
  by (rule offers_stepper) (simp_all add: create_steps_def inert_def split: option.splits)

lemma offers_create_ui:
  assumes "create_ui V R s = Inr u"
  shows "offers CrSubmit u \<longleftrightarrow> \<not> create_disabled V (cv_date_parse R) (cv_submitting R) (cp_form (sc_page s))"
    and "offers CrAddChoice u \<longleftrightarrow> length (pf_choices (cp_form (sc_page s))) < MAX_CHOICES"
    and "offers (CrRemoveChoice i) u \<longleftrightarrow> i < length (pf_choices (cp_form (sc_page s))) \<and>
      1 < length (pf_choices (cp_form (sc_page s)))"
  using assms
  by (auto simp: create_ui_def Let_def rbind_eq_Inr create_stepper offers_map_ui choices_ui_def)

text \<open>The census fields agree with each other.\<close>

definition census_fields :: "hash \<Rightarrow> poll_form \<Rightarrow> bool" where
  "census_fields P d \<longleftrightarrow> (\<forall>bytes. pf_censusBytes d = Some bytes \<longrightarrow> (\<exists>leaves root d'.
     parseUploadedCensus bytes = Inr leaves \<and> getMerkleRoot P CENSUS_DEPTH leaves = Inr root \<and>
     d = set_census bytes leaves root d'))"

definition choices_fit :: "poll_form \<Rightarrow> bool" where
  "choices_fit d \<longleftrightarrow> 1 \<le> length (pf_choices d) \<and> length (pf_choices d) \<le> MAX_CHOICES"

lemma census_fields_other:
  assumes "census_fields P d" "pf_censusBytes d' = pf_censusBytes d" "pf_censusCount d' = pf_censusCount d"
    "pf_censusRootHex d' = pf_censusRootHex d"
  shows "census_fields P d'"
  unfolding census_fields_def
proof (intro allI impI)
  fix bytes assume "pf_censusBytes d' = Some bytes"
  then obtain leaves root e where "parseUploadedCensus bytes = Inr leaves"
      "getMerkleRoot P CENSUS_DEPTH leaves = Inr root" "d = set_census bytes leaves root e"
    using assms(1,2) unfolding census_fields_def by auto
  then show "\<exists>leaves root e. parseUploadedCensus bytes = Inr leaves \<and>
      getMerkleRoot P CENSUS_DEPTH leaves = Inr root \<and> d' = set_census bytes leaves root e"
    using assms(2-4) by (intro exI [of _ leaves] exI [of _ root] exI [of _ d']) (auto simp: set_census_def)
qed

lemma census_file_form:
  "onCensusFile V bytes s = (r, t) \<Longrightarrow> cp_form t = cp_form s \<or> (\<exists>leaves root.
     parseUploadedCensus bytes = Inr leaves \<and> getMerkleRoot (ce_P V) CENSUS_DEPTH leaves = Inr root \<and>
     cp_form t = set_census bytes leaves root (cp_form s))"
  by (auto simp: onCensusFile_def bind_def lift_def update_def split: sum.splits)

lemma pick_form:
  "handlePickExisting V i title s = (r, t) \<Longrightarrow> cp_form t = cp_form s \<or> (\<exists>bytes leaves root.
     parseUploadedCensus bytes = Inr leaves \<and> getMerkleRoot (ce_P V) CENSUS_DEPTH leaves = Inr root \<and>
     cp_form t = (set_census bytes leaves root (cp_form s))\<lparr>pf_selectedCensusId := Some i, pf_selectedCensusTitle := Some title\<rparr>)"
  by (simp add: handlePickExisting_def bind_def seq_def throw_if_def need_def lift_def throw_def ret_def update_def
      split: sum.splits option.splits if_splits prod.splits) (auto split: sum.splits | blast)+

definition form_is :: "poll_form \<Rightarrow> create_page \<Rightarrow> bool" where
  "form_is d s \<longleftrightarrow> cp_form s = d"

lemma submit_form [simp]: "cp_form (onSubmit V s) = cp_form s"
proof -
  note step = valid_bind [where Q' = "\<lambda>_. form_is (cp_form s)"] valid_seq [where Q' = "form_is (cp_form s)"] valid_intros
  have "keeps (form_is (cp_form s)) (submit_body V)"
    unfolding submit_body_def Let_def by (rule step | simp add: form_is_def split: option.splits | intro allI impI conjI)+
  then have "form_is (cp_form s) (onSubmit V s)"
    unfolding onSubmit_def by (rule valid_attempt) (simp_all add: form_is_def)
  then show ?thesis by (simp add: form_is_def)
qed

lemma set_census_fields:
  assumes "parseUploadedCensus bytes = Inr leaves" "getMerkleRoot P CENSUS_DEPTH leaves = Inr root"
  shows "census_fields P (set_census bytes leaves root d)"
  using assms by (auto simp: census_fields_def set_census_def)

lemma fire_fields:
  assumes "census_fields (ce_P V) (cp_form (sc_page s))"
  shows "census_fields (ce_P V) (cp_form (sc_page (create_fire V R e s)))"
proof -
  have upl: "census_fields (ce_P V) (cp_form (snd (onCensusFile V bytes (sc_page s))))" for bytes
    using census_file_form [of V bytes "sc_page s"] assms set_census_fields
    by (cases "onCensusFile V bytes (sc_page s)") fastforce
  have pick: "census_fields (ce_P V) (cp_form (snd (handlePickExisting V i title (sc_page s))))" for i title
    using pick_form [of V i title "sc_page s"] assms
    by (cases "handlePickExisting V i title (sc_page s)") (force intro: census_fields_other [OF set_census_fields])
  show ?thesis
    using assms upl pick by (cases e) (auto simp: create_fire_def set_field_def modal_fire_def Let_def split_def
        intro: census_fields_other [OF assms] split: modal_event.splits)
qed

lemma fire_choices:
  assumes "choices_fit (cp_form (sc_page s))" "create_ui V R s = Inr u" "offers e u"
  shows "choices_fit (cp_form (sc_page (create_fire V R e s)))"
proof -
  have upl: "pf_choices (cp_form (snd (onCensusFile V bytes (sc_page s)))) = pf_choices (cp_form (sc_page s))" for bytes
    using census_file_form [of V bytes "sc_page s"]
    by (cases "onCensusFile V bytes (sc_page s)") (auto simp: set_census_def)
  have pick: "pf_choices (cp_form (snd (handlePickExisting V i title (sc_page s)))) = pf_choices (cp_form (sc_page s))" for i title
    using pick_form [of V i title "sc_page s"]
    by (cases "handlePickExisting V i title (sc_page s)") (auto simp: set_census_def)
  have add: "e = CrAddChoice \<Longrightarrow> length (pf_choices (cp_form (sc_page s))) < MAX_CHOICES"
    and del: "e = CrRemoveChoice i \<Longrightarrow> i < length (pf_choices (cp_form (sc_page s))) \<and> 1 < length (pf_choices (cp_form (sc_page s)))" for i
    using assms(3) offers_create_ui [OF assms(2)] by auto
  show ?thesis
    using assms(1) add del upl pick
    by (cases e) (auto simp: create_fire_def set_field_def modal_fire_def Let_def split_def choices_fit_def
        split: modal_event.splits)
qed

lemma creating_inv:
  assumes "creating W s" "\<forall>V. W V \<longrightarrow> ce_P V = P"
  shows "census_fields P (cp_form (sc_page s)) \<and> choices_fit (cp_form (sc_page s))"
  using assms(1)
proof (induction rule: creating.induct)
  case (cs_fresh cal now)
  then show ?case
    by (simp add: census_fields_def choices_fit_def fresh_create_def default_form_def Let_def MAX_CHOICES_def)
next
  case (cs_event s V R u e)
  then have "ce_P V = P" using assms(2) by blast
  with cs_event show ?case using fire_fields [of V s R e] fire_choices by blast
qed

text \<open>
  C14: what the page of a new poll creates. In every state that its controls reach, by editing the
  form, uploading a census or picking one from the census service, if the submission that an
  enabled button starts ends without error and its transaction is executed, then the poll is on
  the chain, open for votes, with the Merkle root of the leaves of the census file in the form,
  the address at which exactly this file was uploaded, and one choice for each cleaned choice;
  there are at most as many choices as the program can publish a result for.
\<close>

theorem page_polls_land:
  assumes "creating W s" "\<forall>V. W V \<longrightarrow> ce_P V = P" "W V" "hash_law P" "create_ui V R s = Inr u" "offers CrSubmit u"
    and "cp_err (onSubmit V (sc_page s)) = None" "ce_sdk V = cx_sdk X"
    and "exec_tx X (last (cp_txs (onSubmit V (sc_page s)))) ch = Inr ch'"
  shows "\<exists>bytes leaves root urls a p. pf_censusBytes (cp_form (sc_page s)) = Some bytes \<and>
    parseUploadedCensus bytes = Inr leaves \<and> getMerkleRoot P CENSUS_DEPTH leaves = Inr root \<and>
    pf_censusCount (cp_form (sc_page s)) = Some (int (length leaves)) \<and> leaves \<noteq> [] \<and>
    turboBatchUpload (ce_upload V) (ce_devnet V)
      [\<lparr>td_data = ce_json V (description (cp_form (sc_page s))), td_contentType = ''application/json''\<rparr>,
       \<lparr>td_data = bytes, td_contentType = ''application/octet-stream''\<rparr>] = Inr urls \<and>
    poll_at ch a = None \<and> poll_at ch' a = Some p \<and> a = pda X (poll_seeds (pl_id p)) \<and>
    pl_censusRoot p = toBytesBE32 root \<and> pl_censusUrl p = urls ! 1 \<and> pl_descriptionUrl p = urls ! 0 \<and>
    unat (pl_nChoices p) = length (cleanedChoices (cp_form (sc_page s))) \<and> 0 < unat (pl_nChoices p) \<and>
    unat (pl_nChoices p) \<le> PROGRAM_MAX_CHOICES \<and>
    pl_cumulative p = zero32 \<and> pl_tally p = [] \<and> pl_start p < pl_end p"
proof -
  let ?d = "cp_form (sc_page s)"
  have P: "ce_P V = P" using assms(2,3) by simp
  have i: "census_fields P ?d" "choices_fit ?d" using creating_inv [OF assms(1,2)] by simp_all
  obtain bytes where b: "pf_censusBytes ?d = Some bytes"
    using assms(6) offers_create_ui(1) [OF assms(5)] by (auto simp: create_disabled_def form_valid_def schemaBase_def)
  then obtain leaves root d' where l: "parseUploadedCensus bytes = Inr leaves"
      "getMerkleRoot (ce_P V) CENSUS_DEPTH leaves = Inr root" "?d = set_census bytes leaves root d'"
    using i(1) P unfolding census_fields_def by blast
  have n: "length (cleanedChoices ?d) \<le> PROGRAM_MAX_CHOICES"
    using i(2) order_trans [OF length_filter_le [of "(\<lambda>c. c \<noteq> []) \<circ> trim" "pf_choices ?d"]]
    by (simp add: cleanedChoices_def choices_fit_def MAX_CHOICES_def PROGRAM_MAX_CHOICES_def)
  have "leaves \<noteq> []" using l(2) by (auto simp: getMerkleRoot_def)
  moreover have "pf_censusCount ?d = Some (int (length leaves))" by (subst l(3)) (simp add: set_census_def)
  moreover have "hash_law (ce_P V)" using assms(4) P by simp
  moreover obtain urls a p where "turboBatchUpload (ce_upload V) (ce_devnet V)
      [\<lparr>td_data = ce_json V (description ?d), td_contentType = ''application/json''\<rparr>,
       \<lparr>td_data = bytes, td_contentType = ''application/octet-stream''\<rparr>] = Inr urls"
      "poll_at ch a = None" "poll_at ch' a = Some p" "a = pda X (poll_seeds (pl_id p))"
      "pl_censusRoot p = toBytesBE32 root" "pl_censusUrl p = urls ! 1" "pl_descriptionUrl p = urls ! 0"
      "unat (pl_nChoices p) = length (cleanedChoices ?d)" "0 < unat (pl_nChoices p)"
      "pl_cumulative p = zero32" "pl_tally p = []" "pl_start p < pl_end p"
    using submitted_poll_lands [OF calculation(3) assms(7) l assms(8,9)] by blast
  ultimately show ?thesis
    using b l(1,2) n P
    by (intro exI [of _ bytes] exI [of _ leaves] exI [of _ root] exI [of _ urls] exI [of _ a] exI [of _ p]) simp
qed

section \<open>A page in use\<close>

lemma parts_offer [simp]:
  "list_ex (offers (CrMode m)) (tallier_ui acct errors d)"
  "pf_tallierMode d = TManual \<Longrightarrow> list_ex (offers (CrTallierX x)) (tallier_ui acct errors d)"
  "pf_tallierMode d = TManual \<Longrightarrow> list_ex (offers (CrTallierY x)) (tallier_ui acct errors d)"
  "list_ex (offers (CrFee x)) (fee_ui preview errors d)"
  "i < length cs \<Longrightarrow> list_ex (offers (CrChoice i x)) (choices_ui errors cs)"
  "list_ex (offers (CrSource c)) (source_ui help errors d)"
  "pf_censusSource d = CUpload \<Longrightarrow> list_ex (offers (CrFile bytes)) (source_ui help errors d)"
  using tallier_mode.exhaust [of m] census_source.exhaust [of c]
  by (auto simp: tallier_ui_def fee_ui_def choices_ui_def source_ui_def)

lemma creating_step:
  assumes "creating W s" "W V" "feeSolPreview (pf_feeLamports (cp_form (sc_page s))) = Inr f"
    and "case e of CrTallierX x \<Rightarrow> pf_tallierMode (cp_form (sc_page s)) = TManual
      | CrTallierY y \<Rightarrow> pf_tallierMode (cp_form (sc_page s)) = TManual
      | CrChoice i x \<Rightarrow> i < length (pf_choices (cp_form (sc_page s)))
      | CrFile bytes \<Rightarrow> pf_censusSource (cp_form (sc_page s)) = CUpload
      | CrAddChoice \<Rightarrow> False | CrRemoveChoice i \<Rightarrow> False | CrHelp \<Rightarrow> False | CrOpen \<Rightarrow> False | CrModal m \<Rightarrow> False
      | CrSubmit \<Rightarrow> False | CrMode m \<Rightarrow> True | CrSource c \<Rightarrow> True | _ \<Rightarrow> True"
  shows "creating W (create_fire V R e s)"
proof -
  obtain u where u: "create_ui V R s = Inr u" using assms(3) by (simp add: create_ui_def Let_def)
  moreover have "offers e u"
    using u assms(3,4)
    by (cases e) (auto simp: create_ui_def Let_def)
  ultimately show ?thesis using assms(1,2) by (rule cs_event [rotated 2])
qed

lemma root_re_toHex32: "0 \<le> n \<Longrightarrow> n < FP \<Longrightarrow> root_re (''0x'' @ toHex32 n)"
proof -
  assume n: "0 \<le> n" "n < FP"
  have "all_hex (strip_0x (''0x'' @ toHex32 n))"
    using hexToBytes32_0x [OF strip_0x_toHex32, of n] hex_field_roundtrip [OF n]
    by (auto simp: hexToBytes32_def Let_def split: if_splits)
  moreover have "strip_0x (''0x'' @ toHex32 n) = toHex32 n" by (simp add: strip_0x_def radix_prefix_def)
  ultimately show ?thesis by (simp add: root_re_def)
qed

definition view0 :: create_view where
  "view0 = \<lparr>cv_date_parse = (\<lambda>s. if s = ''2025-01-02T03:04'' then Some 0 else Some 86400000),
     cv_errors = (\<lambda>f. None), cv_submitting = False, cv_locked = False, cv_help = False,
     cv_censuses = (\<lambda>q h. Inl TypeError)\<rparr>"

definition edits0 :: "create_event list" where
  "edits0 = [CrTitle ''t'', CrChoice 0 '' a'', CrChoice 1 '' '', CrStart ''2025-01-02T03:04'', CrEnd ''2025-01-03T03:04'',
     CrMode TManual, CrTallierX (replicate 65 (CHR ''0'')), CrTallierY ''0x1'', CrMode TActive, CrFee ''5'', CrSource CUpload]"

definition edited :: "create_screen \<Rightarrow> create_screen" where
  "edited s = fold (create_fire create_env0 view0) edits0 s"

lemma fees: "feeSolPreview ''0'' = Inr (Some ''0'')" "feeSolPreview ''5'' = Inr (Some ''0.000000005'')"
  by code_simp+

abbreviation at_env0 :: "create_env \<Rightarrow> bool" where "at_env0 \<equiv> (\<lambda>V. V = create_env0)"

lemma creating_edited: "creating at_env0 (edited (fresh_create (default_form cal now)))"
  unfolding edited_def edits0_def fold_simps
  by (intro creating_step [where V = create_env0 and R = view0] creating.intros refl fees)
    (simp_all add: create_fire_def set_field_def fresh_create_def default_form_def Let_def fees)

definition draft :: "poll_form \<Rightarrow> poll_form" where
  "draft d = (form0 TActive)\<lparr>pf_censusBytes := pf_censusBytes d, pf_censusCount := pf_censusCount d,
     pf_censusRootHex := pf_censusRootHex d\<rparr>"

lemma edited_page:
  "sc_page (edited (fresh_create (default_form cal now))) = (create0 TActive)\<lparr>cp_form := draft (default_form cal now)\<rparr>"
  by (simp add: edited_def edits0_def create_fire_def set_field_def fresh_create_def default_form_def create0_def
      form0_def draft_def Let_def)

lemma form0_valid:
  assumes "0 \<le> root" "root < FP"
  shows "form_valid (cv_date_parse view0) (set_census bytes [l] root (form0 TActive))"
  using root_re_toHex32 [OF assms]
  by (simp add: form_valid_def schemaBase_def date_issue_def tallier_ok_def set_census_def form0_def view0_def
      MAX_CHOICES_def digits_re_def digit_in_def char_digit_def MAX_POLL_DURATION_def Let_def)

theorem page_polls_land_witness:
  "\<exists>s u ch ch' a p. creating at_env0 s \<and> create_ui create_env0 view0 s = Inr u \<and> offers CrSubmit u \<and>
     exec_tx small_env (last (cp_txs (onSubmit create_env0 (sc_page s)))) ch = Inr ch' \<and>
     poll_at ch a = None \<and> poll_at ch' a = Some p \<and> pl_tally p = [] \<and> 0 < unat (pl_nChoices p)"
proof -
  have l: "(0 :: int) \<le> 7" "(7 :: int) < FP" by (simp_all add: FP_def)
  have P: "hash_law sum_hash" "ce_P create_env0 = sum_hash" "ce_sdk create_env0 = cx_sdk small_env"
    by (simp_all add: create_env0_def small_env_def hash_law_def sum_hash_range)
  obtain t ch ch' where r: "onCensusFile create_env0 (toBytesBE32 7) (create0 TActive) = (Inr (), t)"
      "cp_err (onSubmit create_env0 t) = None"
      "exec_tx small_env (last (cp_txs (onSubmit create_env0 t))) ch = Inr ch'" using page_runs by blast
  have p: "parseUploadedCensus (toBytesBE32 7) = Inr [7]" using parse_census_concat [of "[7]"] l by simp
  then obtain root where root: "getMerkleRoot sum_hash CENSUS_DEPTH [7] = Inr root"
      "t = (create0 TActive)\<lparr>cp_form := set_census (toBytesBE32 7) [7] root (form0 TActive)\<rparr>"
    using r(1) P(2) by (auto simp: onCensusFile_def proc_ok create0_def)
  let ?s = "edited (fresh_create (default_form (\<lambda>ms. (2025, 0, 1, 0, 0)) 0))"
  let ?t = "create_fire create_env0 view0 (CrFile (toBytesBE32 7)) ?s"
  have page: "sc_page ?t = t"
    using p root P(2) by (simp add: create_fire_def edited_page onCensusFile_def proc_simps create0_def draft_def set_census_def)
  have form: "cp_form (sc_page ?s) = draft (default_form (\<lambda>ms. (2025, 0, 1, 0, 0)) 0)" by (simp add: edited_page)
  have c: "creating at_env0 ?t"
    by (rule creating_step [where f = "Some ''0.000000005''"])
      (simp_all only: creating_edited form create_event.case, simp_all add: draft_def form0_def fees)
  obtain u where u: "create_ui create_env0 view0 ?t = Inr u"
    using fees by (simp add: create_ui_def Let_def page root(2) set_census_def form0_def)
  moreover have "offers CrSubmit u"
  proof -
    have "form_valid (cv_date_parse view0) (cp_form t)"
      using form0_valid [OF root_field [OF P(1) root(1)]] root(2) by simp
    then show ?thesis
      by (simp add: offers_create_ui(1) [OF u] create_disabled_def page)
        (simp add: root(2) create_env0_def view0_def form0_def set_census_def)
  qed
  moreover have "cp_err (onSubmit create_env0 (sc_page ?t)) = None"
      "exec_tx small_env (last (cp_txs (onSubmit create_env0 (sc_page ?t)))) ch = Inr ch'"
    using r page by simp_all
  moreover have "\<forall>V. at_env0 V \<longrightarrow> ce_P V = sum_hash" using P(2) by simp
  ultimately obtain a p where "poll_at ch a = None" "poll_at ch' a = Some p" "pl_tally p = []" "0 < unat (pl_nChoices p)"
    using page_polls_land [OF c _ refl P(1) _ _ _ P(3), of view0 u ch ch'] by auto
  with c u show ?thesis
    using \<open>offers CrSubmit u\<close> \<open>exec_tx small_env (last (cp_txs (onSubmit create_env0 (sc_page ?t)))) ch = Inr ch'\<close>
    by (intro exI [of _ ?t] exI [of _ u] exI [of _ ch] exI [of _ ch'] exI [of _ a] exI [of _ p] conjI)
qed

end
