(* ===== verification/VoteUi.thy ===== *)
theory VoteUi
  imports VoteCorrect Ui
begin

text \<open>
  What the panel of the voter renders (the rest of \<open>components/Vote.tsx\<close>), and the states that
  a user reaches with its controls.
\<close>

datatype vote_event = EvSelect nat | EvCast | EvUseRelayer | EvVoteHelp

section \<open>Rendering\<close>

definition tx_url :: "string \<Rightarrow> string \<Rightarrow> string" where
  "tx_url cluster signature = ''https://explorer.solana.com/tx/'' @ signature
     @ (if cluster = ''devnet'' then ''?cluster=devnet'' else [])"

text \<open>The label of the last step links to the transaction after a relayed vote.\<close>

definition vote_steps :: "string \<Rightarrow> vote_panel \<Rightarrow> (vote_stage \<times> vote_event ui option) list" where
  "vote_steps cluster s = [(VsPrepare, Some (Label ''vote.stage.preparing'')),
     (VsDownload, Some (Label ''vote.stage.downloading'')), (VsProof, Some (Label ''vote.stage.proof'')),
     (VsSubmit, Some (Label (if vt_useRelayer s then ''vote.stage.submitting_to_relayer'' else ''loading.sending_tx''))),
     (VsDone, Some (case vt_done s of None \<Rightarrow> Label ''vote.stage.sent''
        | Some signature \<Rightarrow> Group [Label ''vote.stage.sent_via_relayer'', Link (tx_url cluster signature) [Label ''vote.stage.transaction'']]))]"

definition vote_ui :: "string \<Rightarrow> 'k vote_env \<Rightarrow> bool \<Rightarrow> int \<Rightarrow> bool \<Rightarrow> vote_panel \<Rightarrow> vote_event ui" where
  "vote_ui cl V locked now_ms help s =
     (let enabled = (\<not> vote_disabled V locked now_ms s); choices = pd_choices (ve_poll V) in
      Group (map (\<lambda>i. Group [Pick (vt_selected s = Some i) (EvSelect i) [], Words (choices ! i)]) [0..<length choices]
        @ [StepperCard (vote_steps cl s) (vt_stage s) (Some VsDone) (map_option Err (vt_err s))
             (Styled (btn enabled) [Click enabled EvCast [Label ''vote.cast'']])]
        @ shown_if (\<not> vt_useRelayer s) [ConnectSolana (ve_wallet V)]
        @ [Group [Pick (vt_useRelayer s) EvUseRelayer [Label ''vote.use_relayer''],
             Help help EvVoteHelp [Label ''vote.relayer_info.relayer_submits'', Label ''vote.relayer_info.note_3'',
               Label ''vote.relayer_info.uncheck_however'']]]))"

lemma offers_vote_ui [simp]:
  "offers EvCast (vote_ui cl V locked now help s) \<longleftrightarrow> \<not> vote_disabled V locked now s"
  "offers (EvSelect i) (vote_ui cl V locked now help s) \<longleftrightarrow> i < length (pd_choices (ve_poll V))"
  "offers EvUseRelayer (vote_ui cl V locked now help s)"
proof -
  have steps: "list_all (\<lambda>s. inert (snd s)) (vote_steps cl s)" "inert (map_option Err (vt_err s))"
    by (auto simp: vote_steps_def inert_def split: option.splits)
  show "offers EvCast (vote_ui cl V locked now help s) \<longleftrightarrow> \<not> vote_disabled V locked now s"
    "offers (EvSelect i) (vote_ui cl V locked now help s) \<longleftrightarrow> i < length (pd_choices (ve_poll V))"
    "offers EvUseRelayer (vote_ui cl V locked now help s)"
    by (simp_all add: vote_ui_def Let_def offers_stepper [OF steps] Help_def)
qed

section \<open>Clicks\<close>

definition vote_fire :: "'k vote_env \<Rightarrow> vote_event \<Rightarrow> vote_panel \<Rightarrow> vote_panel" where
  "vote_fire V e s = (case e of
     EvSelect i \<Rightarrow> s\<lparr>vt_selected := Some i\<rparr>
   | EvCast \<Rightarrow> onVoteClick V s
   | EvUseRelayer \<Rightarrow> s\<lparr>vt_useRelayer := \<not> vt_useRelayer s\<rparr>
   | EvVoteHelp \<Rightarrow> s)"

definition fresh_vote :: "revo_state \<Rightarrow> vote_panel" where
  "fresh_vote rs = \<lparr>vt_selected = None, vt_useRelayer = True, vt_err = None, vt_busy = False,
     vt_done = None, vt_stage = None, vt_revo = rs, vt_sent = []\<rparr>"

text \<open>The user acts on what is offered, in one of the environments \<open>W\<close> after another: the time, the
  wallet and the accounts may change in between.\<close>

inductive voting :: "('k vote_env \<Rightarrow> bool) \<Rightarrow> vote_panel \<Rightarrow> bool" for W where
  vp_fresh: "voting W (fresh_vote rs)"
| vp_event: "voting W s \<Longrightarrow> W V \<Longrightarrow> offers e (vote_ui cl V locked now help s) \<Longrightarrow> voting W (vote_fire V e s)"

definition selected_is :: "nat option \<Rightarrow> vote_panel \<Rightarrow> bool" where
  "selected_is x s \<longleftrightarrow> vt_selected s = x"

lemma vote_body_selected: "keeps (selected_is x) (vote_body V)"
proof -
  note step = valid_bind [where Q' = "\<lambda>_. selected_is x"] valid_seq [where Q' = "selected_is x"] valid_intros
  have st: "keeps (selected_is x) (vs_stage g)" for g
    unfolding vs_stage_def by (rule step) (simp add: selected_is_def)
  have rest: "keeps (selected_is x) (submit_relayed V b)" "keeps (selected_is x) (submit_direct V tx)"
      "keeps (selected_is x) (remember_key V p)" for b tx p
    unfolding submit_relayed_def submit_direct_def remember_key_def
    by (rule step | simp add: selected_is_def split: sum.splits | intro allI impI conjI)+
  show ?thesis
    unfolding vote_body_def by (rule step st rest | simp add: selected_is_def split del: if_split | (split if_split, intro conjI impI))+
qed

lemma vote_click_selected [simp]: "vt_selected (onVoteClick V s) = vt_selected s"
proof -
  have "selected_is (vt_selected s) (onVoteClick V s)"
    unfolding onVoteClick_def by (rule valid_attempt [OF vote_body_selected]) (simp_all add: selected_is_def)
  then show ?thesis by (simp add: selected_is_def)
qed

lemma voting_selected:
  "voting W s \<Longrightarrow> \<forall>V. W V \<longrightarrow> ve_poll V = poll \<Longrightarrow> vt_selected s = Some i \<Longrightarrow> i < length (pd_choices poll)"
  by (induction arbitrary: i rule: voting.induct)
    (auto simp: fresh_vote_def vote_fire_def split: vote_event.splits)

text \<open>
  C20: a voter cannot spoil a ballot with the page. In every state that the controls of the panel
  reach, when \<open>Cast\<close> is enabled a choice of the poll is selected, the time is within the
  voting period and the keyring is unlocked; and the ballot that the handler then seals is
  read by the tallier as a vote for the selected choice, which is on the ballot paper.
\<close>

theorem cast_ballot_is_on_paper:
  assumes "voting W s" "\<forall>V. W V \<longrightarrow> ve_poll V = poll" "W V" "offers EvCast (vote_ui cl V locked now help s)"
    and "channel_law V E"
  shows "\<exists>i < length (pd_choices poll). vt_selected s = Some i \<and> \<not> locked \<and>
    1000 * pd_voting_start_time poll \<le> now \<and> now \<le> 1000 * pd_voting_end_time poll \<and>
    (\<forall>p sl sk. prepare_vote V (vt_revo s) i = Inr p \<longrightarrow> pp_PK p = ve_mulBase V sk \<longrightarrow> seal_ballot V p = Inr sl \<longrightarrow>
      (\<exists>b. decrypt_vote E sk (sealed_message sl) = Inr b \<and> bl_choice b = int i + 1 \<and>
        in_choices (length (pd_choices poll)) (bl_choice b)))"
proof -
  have poll: "ve_poll V = poll" using assms(2,3) by simp
  obtain i where i: "vt_selected s = Some i" "\<not> locked" "1000 * pd_voting_start_time poll \<le> now"
      "now \<le> 1000 * pd_voting_end_time poll"
    using assms(4) poll by (auto simp: vote_disabled_def)
  have n: "i < length (pd_choices poll)" by (rule voting_selected [OF assms(1,2) i(1)])
  have "\<exists>b. decrypt_vote E sk (sealed_message sl) = Inr b \<and> bl_choice b = int i + 1"
    if p: "prepare_vote V (vt_revo s) i = Inr p" "pp_PK p = ve_mulBase V sk" "seal_ballot V p = Inr sl" for p sl sk
    using tallier_opens [OF assms(5) p(2,3)] prepare_facts(4) [OF p(1)] by (simp add: voter_ballot_def)
  then show ?thesis using i n by (fastforce simp: in_choices_def)
qed

theorem cast_ballot_is_on_paper_witness:
  "\<exists>s b sl. vt_selected s = Some 1 \<and> offers EvCast (vote_ui ''devnet'' (sum_env [9]) False 5000 False s) \<and>
     decrypt_vote sum_tally 3 (sealed_message sl) = Inr b \<and> bl_choice b = 2"
proof -
  let ?V = "sum_env [9]" and ?W = "\<lambda>V. V = sum_env [9]" and ?s = "vote_fire (sum_env [9]) (EvSelect 1) (fresh_vote revo_open)"
  have poll: "\<forall>V. ?W V \<longrightarrow> ve_poll V = ve_poll (sum_env [9])" and w: "?W ?V" by simp_all
  have "offers (EvSelect 1) (vote_ui ''devnet'' ?V False 5000 False (fresh_vote revo_open))"
    by (simp add: sum_env_def the_poll_def)
  then have s: "voting ?W ?s" using vp_event [OF vp_fresh, of ?W ?V "EvSelect 1"] w by blast
  have sel: "vt_selected ?s = Some 1" "vt_revo ?s = revo_open" by (simp_all add: vote_fire_def fresh_vote_def)
  have cast: "offers EvCast (vote_ui ''devnet'' ?V False 5000 False ?s)"
    by (simp add: vote_disabled_def vote_fire_def fresh_vote_def sum_env_def the_poll_def)
  obtain p where p: "prepare_vote ?V (vt_revo ?s) 1 = Inr p" "pp_PK p = ve_mulBase ?V 3"
    using sum_prepare [of 9 "vt_revo ?s" 1] by auto
  obtain sl where sl: "seal_ballot ?V p = Inr sl" using sum_seal by blast
  from cast_ballot_is_on_paper [OF s poll w cast sum_channel] sel p sl
  have "\<exists>b. decrypt_vote sum_tally 3 (sealed_message sl) = Inr b \<and> bl_choice b = int 1 + 1" by auto
  with sel(1) cast show ?thesis by auto
qed

end
