(* ===== verification/PollUi.thy ===== *)
theory PollUi
  imports PollPages TallyUi VoteUi
begin

text \<open>
  What the pages of the polls render: \<open>pages/PollListPage.tsx\<close> with its filters,
  \<open>components/PollStatus.tsx\<close>, and \<open>pages/PollDetailPage.tsx\<close> with the panel of the voter, the
  panel of the tallier and the bars of the results inside its tabs. The effects of the page of a
  poll run in the order of the code.
\<close>

section \<open>Labels\<close>

definition time_ui :: "time_diff \<Rightarrow> 'e ui list" where
  "time_ui d = (case d of
     TDays days hours \<Rightarrow> [Label ''time.d'', Words (to_string 10 days), Words (to_string 10 hours)]
   | THours hours mins \<Rightarrow> [Label ''time.h'', Words (to_string 10 hours), Words (to_string 10 mins)]
   | TMinutes mins \<Rightarrow> [Label ''time.m'', Words (to_string 10 mins)]
   | TSeconds secs \<Rightarrow> [Label ''time.s'', Words (to_string 10 secs)])"

definition label_ui :: "status_label \<Rightarrow> 'e ui" where
  "label_ui l = Group (case l of
     StartsIn d \<Rightarrow> Label ''status.starts_in'' # time_ui d
   | EndsIn d \<Rightarrow> Label ''status.ends_in'' # time_ui d
   | EndedAgo d \<Rightarrow> Label ''status.ended_ago'' # time_ui d)"

definition status_cls :: "status_colour \<Rightarrow> string" where
  "status_cls c = (case c of
     Blue \<Rightarrow> ''bg-blue-100 text-blue-700 dark:bg-blue-900/40 dark:text-blue-300''
   | Emerald \<Rightarrow> ''bg-emerald-100 text-emerald-700 dark:bg-emerald-900/40 dark:text-emerald-300''
   | Neutral \<Rightarrow> ''bg-neutral-100 text-neutral-600 dark:bg-neutral-800/60 dark:text-neutral-400'')"

definition PollStatus :: "int \<Rightarrow> int \<Rightarrow> int \<Rightarrow> 'e ui" where
  "PollStatus now votingStartTime votingEndTime =
     (let meta = pollStatusMeta now votingStartTime votingEndTime in Styled (status_cls (snd meta)) [label_ui (fst meta)])"

lemma label_offers [simp]: "\<not> offers e (label_ui l)" "\<not> offers e (PollStatus now a b)"
  by (simp_all add: label_ui_def time_ui_def PollStatus_def Let_def split: status_label.splits time_diff.splits)

section \<open>The list of polls\<close>

datatype list_event = PlPrev | PlNext | PlRole role | PlStatus status_filter

definition PollRow :: "int \<Rightarrow> poll_item \<Rightarrow> string \<Rightarrow> 'e ui" where
  "PollRow now p to = Link to [Words (if pi_title p = [] then ''Untitled poll'' else pi_title p),
     Words (''#'' @ pi_poll_id p), PollStatus now (pi_start p) (pi_end p)]"

definition roles :: "(role \<times> string) list" where
  "roles = [(AllRoles, ''all roles''), (Voter, ''voter''), (Tallier, ''tallier'')]"

definition statuses :: "(status_filter \<times> string) list" where
  "statuses = [(AllStatuses, ''all statuses''), (Active, ''active''), (Upcoming, ''upcoming''), (Ended, ''ended'')]"

text \<open>The measured widths of the container, the two groups of pills and the divider.\<close>

definition wrapStatus :: "int \<Rightarrow> int \<Rightarrow> int \<Rightarrow> int \<Rightarrow> bool" where
  "wrapStatus cw rw sw dw \<longleftrightarrow> rw + dw + sw + 16 > cw"

definition pill :: "bool \<Rightarrow> 'e \<Rightarrow> string \<Rightarrow> 'e ui" where
  "pill active e name = Styled (if active then ''bg-black text-white dark:bg-white dark:text-black'' else [])
     [Click True e [Label (''poll_list.'' @ name)]]"

definition PollFilters :: "bool \<Rightarrow> role \<Rightarrow> status_filter \<Rightarrow> list_event ui" where
  "PollFilters wrap r st = Group [Group (map (\<lambda>x. pill (r = fst x) (PlRole (fst x)) (snd x)) roles),
     Styled (if \<not> wrap then ''w-px h-6'' else ''basis-full h-px'') [],
     Styled (if wrap then ''basis-full'' else []) (map (\<lambda>x. pill (st = fst x) (PlStatus (fst x)) (snd x)) statuses)]"

definition poll_list_ui :: "bool \<Rightarrow> int \<Rightarrow> bool \<Rightarrow> poll_list \<Rightarrow> list_event ui" where
  "poll_list_ui locked now wrap s = (if locked then UnlockToView else
     Group ([Label ''nav.polls'', Link ''/polls/new'' [Label ''poll_list.create_new_poll''],
         PollFilters wrap (pl_role s) (pl_status s)]
       @ err_box (pl_err s) @ shown_if (pl_loading s) [Label ''loading.loading'']
       @ (case pl_page s of None \<Rightarrow> [] | Some page \<Rightarrow> shown_if (\<not> pl_loading s)
           (map (\<lambda>it. PollRow now (snd it) (''/polls/'' @ pi_poll_id (snd it))) (ks_items page)
            @ shown_if (length (ks_items page) = 0) [Words ''No polls yet.'']))
       @ prev_next (\<not> (pl_loading s \<or> \<not> pl_canPrev s)) PlPrev (\<not> (pl_loading s \<or> \<not> pl_canNext s)) PlNext))"

definition poll_list_fire :: "polls_env \<Rightarrow> list_event \<Rightarrow> poll_list \<Rightarrow> poll_list" where
  "poll_list_fire V e s = (case e of PlPrev \<Rightarrow> pl_prev V s | PlNext \<Rightarrow> pl_next V s
     | PlRole r \<Rightarrow> pl_choose_role V r s | PlStatus st \<Rightarrow> pl_choose_status V st s)"

text \<open>\<open>next\<close> reads \<open>page!.next_before!\<close>: where it is offered there is a page with a cursor.\<close>

lemma offers_poll_list_ui:
  "offers PlNext (poll_list_ui locked now wrap s) \<longleftrightarrow> \<not> locked \<and> \<not> pl_loading s \<and>
     (\<exists>p c. pl_page s = Some p \<and> ks_next p = Some c \<and> c \<noteq> 0)"
  "offers PlPrev (poll_list_ui locked now wrap s) \<longleftrightarrow> \<not> locked \<and> \<not> pl_loading s \<and> pl_stack s \<noteq> []"
  by (auto simp: poll_list_ui_def PollFilters_def pill_def prev_next_def PollRow_def pl_canPrev_def pl_canNext_def
      page_next_def truthy_def split: option.splits if_splits)

section \<open>A poll\<close>

datatype detail_event = DtTab tab | DtVote vote_event | DtTally tally_event

definition ResultsBars :: "string list \<Rightarrow> int list \<Rightarrow> 'e ui" where
  "ResultsBars choices tally = (let data = results_data choices tally in
     Group (map (\<lambda>p. Group [Words (rb_label p),
          Words (to_string 10 (rb_count p) @ '' ('' @ to_string 10 (bar_pct data p) @ ''%)''),
          Styled (''width: '' @ to_string 10 (bar_width data p) @ ''%'') []]) (rs_pairs data)
       @ [Label ''poll.total_votes'', Words (to_string 10 (rs_total data))]))"

definition TabBtn :: "tab \<Rightarrow> tab \<Rightarrow> string \<Rightarrow> bool \<Rightarrow> detail_event ui" where
  "TabBtn cur t label disabled = Styled
     (if cur = t then ''bg-black text-white dark:bg-white dark:text-black''
      else if disabled then [] else ''hover:bg-neutral-100 dark:hover:bg-neutral-800'')
     [Click (\<not> disabled) (DtTab t) [Label label]]"

definition Tabs :: "bool \<Rightarrow> bool \<Rightarrow> poll_clock \<Rightarrow> detail_page \<Rightarrow> detail_event ui" where
  "Tabs locked tallier clock s = (let off = tab_disabled locked tallier clock s in
     Group [TabBtn (dp_tab s) Overview ''poll.overview'' (off Overview), TabBtn (dp_tab s) VoteTab ''poll.vote'' (off VoteTab),
       TabBtn (dp_tab s) TallyTab ''poll.tally'' (off TallyTab), TabBtn (dp_tab s) Results ''poll.results'' (off Results)])"

text \<open>\<open>BigInt(poll.fee)\<close> and \<open>formatLamportsAsSol\<close> may throw while rendering.\<close>

definition sol_text :: "string \<Rightarrow> string res" where
  "sol_text s = rbind (bigint_of_string s) (\<lambda>n. case formatLamportsAsSol n of None \<Rightarrow> Inr [] | Some x \<Rightarrow> Inr x)"

definition tab_ui :: "vote_event ui \<Rightarrow> tally_event ui \<Rightarrow> poll_detail \<Rightarrow> tab \<Rightarrow> detail_event ui list res" where
  "tab_ui vu tu poll t = (case t of
     Overview \<Rightarrow> rbind (sol_text (pd_fee poll)) (\<lambda>fee. rbind (sol_text (pd_platform_fee poll)) (\<lambda>platform.
       Inr [Label ''poll.choices'', Group (map Words (pd_choices poll)), Label ''poll.poll_fee'', Words (fee @ '' SOL''),
         Label ''poll.platform_fee'', Words (platform @ '' SOL'')]))
   | VoteTab \<Rightarrow> Inr [map_ui DtVote vu]
   | TallyTab \<Rightarrow> Inr [map_ui DtTally tu]
   | Results \<Rightarrow> Inr (case pd_tally poll of None \<Rightarrow> [Label ''poll.waiting_for_tallier'']
       | Some counts \<Rightarrow> [ResultsBars (pd_choices poll) counts]))"

definition detail_ui ::
  "('e) auth_env_scheme \<Rightarrow> int \<Rightarrow> vote_event ui \<Rightarrow> tally_event ui \<Rightarrow> detail_page \<Rightarrow> detail_event ui res" where
  "detail_ui V now vu tu s = (let clock = dp_clock now s in
     case dp_poll s of
       None \<Rightarrow> Inr (Group (err_box (dp_err s) @ shown_if (dp_err s = None) [Words ''Loading'']))
     | Some poll \<Rightarrow> rbind (tab_ui vu tu poll (dp_tab s)) (\<lambda>content. Inr (Group (err_box (dp_err s)
         @ [Words (pd_title poll), Label ''poll.poll'', Words (pd_poll_id poll), label_ui (pc_label clock)]
         @ shown_if (ae_locked V) [Label ''poll.unlock_zk'']
         @ [Tabs (ae_locked V) (isTallier V s) clock s, Group content]))))"

lemma Tabs_offers [simp]:
  "offers (DtTab t) (Tabs locked tallier clock s) \<longleftrightarrow> \<not> tab_disabled locked tallier clock s t"
  "\<not> offers (DtVote e) (Tabs locked tallier clock s)" "\<not> offers (DtTally f) (Tabs locked tallier clock s)"
  by (cases t; simp add: Tabs_def TabBtn_def Let_def)+

section \<open>The effects of the page\<close>

text \<open>The default tab is set again when one of its dependencies has changed.\<close>

definition tab_deps :: "('e) auth_env_scheme \<Rightarrow> int \<Rightarrow> detail_page \<Rightarrow> poll_detail option \<times> bool \<times> bool \<times> bool" where
  "tab_deps V now s = (dp_poll s, dp_isVoter s, isTallier V s, pc_isOver (dp_clock now s))"

definition set_default :: "('e) auth_env_scheme \<Rightarrow> int \<Rightarrow> detail_page \<Rightarrow> detail_page" where
  "set_default V now s = s\<lparr>dp_tab := default_tab (isTallier V s) (pc_isOver (dp_clock now s)) s\<rparr>"

definition settle_tab ::
  "('e) auth_env_scheme \<Rightarrow> int \<Rightarrow> poll_detail option \<times> bool \<times> bool \<times> bool \<Rightarrow> detail_page \<Rightarrow> detail_page" where
  "settle_tab V now deps s = (if tab_deps V now s = deps then s else set_default V now s)"

text \<open>\<open>q\<close> is the tab that the address asks for.\<close>

definition fresh_detail :: "tab \<Rightarrow> detail_page" where
  "fresh_detail q = \<lparr>dp_poll = None, dp_isVoter = False, dp_err = None, dp_tab = q\<rparr>"

text \<open>The page appears: both requests are made and the answers arrive one after the other.\<close>

definition detail_open :: "detail_env \<Rightarrow> int \<Rightarrow> tab \<Rightarrow> detail_page" where
  "detail_open V now q = (let s0 = fresh_detail q; s1 = dp_load V s0; s2 = settle_tab V now (tab_deps V now s0) s1;
     s3 = dp_checkVoter V s2 in settle_tab V now (tab_deps V now s2) s3)"

text \<open>Time passes; the keyring is locked, unlocked or switched to another account.\<close>

definition detail_tick :: "detail_env \<Rightarrow> int \<Rightarrow> int \<Rightarrow> detail_page \<Rightarrow> detail_page" where
  "detail_tick V now now' s = settle_tab V now' (tab_deps V now s) s"

definition detail_switch :: "detail_env \<Rightarrow> detail_env \<Rightarrow> int \<Rightarrow> detail_page \<Rightarrow> detail_page" where
  "detail_switch V V' now s = (let s1 = settle_tab V' now (tab_deps V now s) s
     in settle_tab V' now (tab_deps V' now s1) (dp_checkVoter V' s1))"

definition detail_fire :: "('e) auth_env_scheme \<Rightarrow> int \<Rightarrow> tab \<Rightarrow> detail_page \<Rightarrow> detail_page" where
  "detail_fire V now t s = click_tab (tab_disabled (ae_locked V) (isTallier V s) (dp_clock now s) s t) t s"

section \<open>Opening a poll\<close>

definition answered_voter :: "detail_env \<Rightarrow> bool" where
  "answered_voter V \<longleftrightarrow> \<not> ae_locked V \<and> (\<exists>a. ae_account V = Some a \<and>
     de_is_voter V (keyToLeafHex (ae_P V) (kp_pub a)) = Inr (HOk ''true''))"

lemma load_served:
  "de_poll V = Inr (HOk poll) \<Longrightarrow> dp_load V s = s\<lparr>dp_err := None, dp_poll := Some poll\<rparr>"
  by (simp add: dp_load_def attempt_def seq_def bind_def lift_def ret_def update_def fetched_def)

lemma check_fields:
  "dp_poll (dp_checkVoter V s) = dp_poll s" "dp_tab (dp_checkVoter V s) = dp_tab s"
  "\<not> dp_isVoter s \<Longrightarrow> dp_isVoter (dp_checkVoter V s) \<longleftrightarrow> answered_voter V"
  by (auto simp: dp_checkVoter_def attempt_def bind_def seq_def update_def ret_def throw_def lift_def fetched_def
      answered_voter_def split: option.splits sum.splits http.splits)

lemma isTallier_poll: "dp_poll s = dp_poll t \<Longrightarrow> isTallier V s = isTallier V t"
  by (simp add: isTallier_def)

lemma clock_poll: "dp_poll s = dp_poll t \<Longrightarrow> dp_clock now s = dp_clock now t"
  by (simp add: dp_clock_def)

lemma opened_page:
  assumes "de_poll V = Inr (HOk poll)" "s = detail_open V now q"
  shows "dp_poll s = Some poll" "dp_isVoter s = answered_voter V"
    "dp_tab s = default_tab (isTallier V s) (pc_isOver (dp_clock now s)) s"
proof -
  define s2 where "s2 = set_default V now ((fresh_detail q)\<lparr>dp_poll := Some poll\<rparr>)"
  define s3 where "s3 = dp_checkVoter V s2"
  have "settle_tab V now (tab_deps V now (fresh_detail q)) (dp_load V (fresh_detail q)) = s2"
    by (simp add: load_served [OF assms(1)] s2_def settle_tab_def tab_deps_def fresh_detail_def set_default_def)
  then have s: "s = settle_tab V now (tab_deps V now s2) s3"
    by (simp add: assms(2) detail_open_def Let_def s3_def)
  have p: "dp_poll s2 = Some poll" "\<not> dp_isVoter s2" by (simp_all add: s2_def set_default_def fresh_detail_def)
  then have p3: "dp_poll s3 = Some poll" "dp_isVoter s3 = answered_voter V" "dp_tab s3 = dp_tab s2"
    by (simp_all add: s3_def check_fields)
  have t2: "dp_tab s2 = default_tab (isTallier V s2) (pc_isOver (dp_clock now s2)) s2"
    by (simp add: s2_def set_default_def default_tab_def isTallier_def dp_clock_def split: option.splits)
  have eq: "isTallier V s3 = isTallier V s2" "dp_clock now s3 = dp_clock now s2"
    using p(1) p3(1) isTallier_poll clock_poll by metis+
  show "dp_poll s = Some poll" "dp_isVoter s = answered_voter V" by (simp_all add: s settle_tab_def set_default_def p3)
  show "dp_tab s = default_tab (isTallier V s) (pc_isOver (dp_clock now s)) s"
    using t2 p p3 eq
    by (auto simp: s settle_tab_def set_default_def tab_deps_def default_tab_def isTallier_def dp_clock_def split: option.splits)
qed

text \<open>
  C21: a member of the census can vote. When a member with an unlocked keyring, who is not the
  tallier, opens the page of a poll within the voting period, under whatever tab the address
  names, the page shows the ballot; each choice can be selected, and after any selection the
  button that casts the vote is enabled, without a wallet being connected.
\<close>

theorem member_can_vote:
  assumes "de_poll V = Inr (HOk poll)" "pd_tally poll = None" "ae_locked V = False" "ae_account V = Some a"
    and "de_is_voter V (keyToLeafHex (ae_P V) (kp_pub a)) = Inr (HOk ''true'')"
    and "\<not> isTallier V (detail_open V now q)"
    and "1000 * pd_voting_start_time poll \<le> now" "now < 1000 * pd_voting_end_time poll"
    and "ve_poll W = poll" "i < length (pd_choices poll)"
  shows "\<exists>u u'. detail_ui V now (vote_ui cl W False now help (fresh_vote rs)) tu (detail_open V now q) = Inr u \<and>
    offers (DtVote (EvSelect i)) u \<and>
    detail_ui V now (vote_ui cl W False now help (vote_fire W (EvSelect i) (fresh_vote rs))) tu (detail_open V now q) = Inr u' \<and>
    offers (DtVote EvCast) u'"
proof -
  let ?s = "detail_open V now q"
  have over: "\<not> pc_isOver (dp_clock now ?s)"
    using assms(8) opened_page(1) [OF assms(1) refl, of now q] by (simp add: dp_clock_def usePollClock_def Let_def)
  have "answered_voter V" using assms(3-5) by (auto simp: answered_voter_def)
  then have "dp_tab ?s = VoteTab" "dp_poll ?s = Some poll"
    using opened_page [OF assms(1) refl, of now q] assms(2,6) over by (simp_all add: default_tab_def)
  moreover have "\<not> vote_disabled W False now (vote_fire W (EvSelect i) (fresh_vote rs))"
    using assms(7-9) by (simp add: vote_disabled_def vote_fire_def fresh_vote_def)
  ultimately show ?thesis
    using assms(9,10) by (simp add: detail_ui_def tab_ui_def Let_def offers_map_ui)
qed

definition detail0 :: detail_env where
  "detail0 = \<lparr>ae_P = sum_hash, ae_sign = (\<lambda>prv m. ((1, 1), m)), ae_now = 0, ae_account = Some the_voter, ae_locked = False,
     de_poll = Inr (HOk (ve_poll (sum_env [9]))), de_is_voter = (\<lambda>l. Inr (HOk ''true''))\<rparr>"

theorem member_can_vote_witness:
  "\<exists>u u'. detail_ui detail0 5000 (vote_ui ''devnet'' (sum_env [9]) False 5000 False (fresh_vote revo_open)) (Group []) (detail_open detail0 5000 Overview) = Inr u \<and>
    offers (DtVote (EvSelect 1)) u \<and>
    detail_ui detail0 5000 (vote_ui ''devnet'' (sum_env [9]) False 5000 False (vote_fire (sum_env [9]) (EvSelect 1) (fresh_vote revo_open))) (Group [])
      (detail_open detail0 5000 Overview) = Inr u' \<and> offers (DtVote EvCast) u'"
proof -
  have "toLowerCase (hex64 1) \<noteq> toLowerCase ''3''" by code_simp
  moreover have d: "de_poll detail0 = Inr (HOk the_poll)" "pd_tally the_poll = None" "ae_locked detail0 = False"
      "ae_account detail0 = Some the_voter"
      "de_is_voter detail0 (keyToLeafHex (ae_P detail0) (kp_pub the_voter)) = Inr (HOk ''true'')"
    by (simp_all add: detail0_def the_poll_def sum_env_def)
  ultimately have "\<not> isTallier detail0 (detail_open detail0 5000 Overview)"
    using opened_page(1) [OF d(1) refl] by (simp add: isTallier_def the_voter_def the_poll_def drop_0x_def)
  from member_can_vote [OF d this, of "sum_env [9]" 1] show ?thesis
    by (simp add: the_poll_def sum_env_def)
qed

end
