(* ===== verification/FrameUi.thy ===== *)
theory FrameUi
  imports Drawer Shell Ui
begin

text \<open>
  What surrounds the pages: the rendering of \<open>components/AccountDrawer.tsx\<close>, the header and the
  menus of \<open>Layout.tsx\<close> with \<open>ThemeToggle.tsx\<close>, \<open>LanguageSelect.tsx\<close>, \<open>ClusterInfo.tsx\<close>,
  \<open>ZkAccountsButton.tsx\<close> and \<open>MobileWalletButton.tsx\<close>, the pages without state, and the
  composition in \<open>App.tsx\<close>. Every control of the drawer is a step of the drawer.
\<close>

section \<open>The drawer\<close>

datatype drawer_event = DwPass string | DwConfirm string | DwUnlock | DwNewName string | DwNew | DwExport
  | DwImportName string | DwImportPrv string | DwImport | DwUse nat | DwDelete nat | DwExportRevo
  | DwDeleteRevo string "string \<times> revo_key" | DwClose

definition unlock_ui :: "drawer \<Rightarrow> drawer_event ui" where
  "unlock_ui d = (let k = dw_kr d; c = creating k in
     Group ([Label (if c then ''keyring.create'' else ''keyring.unlock''), Field (kr_pass k) DwPass]
       @ shown_if c [Field (dw_confirmPass d) DwConfirm]
       @ [Click True DwUnlock [Label (if c then ''keyring.create'' else ''keyring.unlock'')],
          Label (if c then ''keyring.sets_passphrase'' else ''keyring.is_encrypted'')]))"

definition card_ui :: "keyring \<Rightarrow> nat \<Rightarrow> keypair \<Rightarrow> drawer_event ui" where
  "card_ui k i a = (case account_card k i a of (name, active, pkX, pkY, prv) \<Rightarrow>
     Styled (if active then ''border-gray-900 dark:border-white'' else [])
      [Words name, Click True (DwUse i) [Label ''keyring.use''], Click True (DwDelete i) [Label ''keyring.delete''],
       Words pkX, Words pkY, Label ''keyring.show_private_key'', Words prv])"

definition RevoDeleteButton :: "string \<Rightarrow> string \<times> revo_key \<Rightarrow> drawer_event ui" where
  "RevoDeleteButton accountId e = Click True (DwDeleteRevo accountId e) [Label ''keyring.delete'']"

text \<open>\<open>m\<close> is the map of the re-voting keys once it is loaded.\<close>

definition revo_ui :: "keyring \<Rightarrow> revo_keys option \<Rightarrow> drawer_event ui" where
  "revo_ui k m = Group ([(case active_account k of
        None \<Rightarrow> Label ''keyring.revoting_keys''
      | Some a \<Rightarrow> if kp_name a = [] then Label ''keyring.revoting_keys''
          else Group [Label ''keyring.revoting_keys_for'', Words (kp_name a)]),
      Click (\<not> (m = None \<or> active_account k = None)) DwExportRevo [Label ''keyring.export'']]
    @ [(case m of None \<Rightarrow> Label ''loading.loading''
      | Some keys \<Rightarrow> (case active_account k of None \<Rightarrow> Label ''keyring.no_active''
        | Some acct \<Rightarrow> let entries = revo_entries keys acct in
            if length entries = 0 then Label ''keyring.no_revoting''
            else Group (map (\<lambda>e. Group [(case rk_title (snd e) of None \<Rightarrow> Group [] | Some title \<Rightarrow> Words title),
                Words (''#'' @ fst e), Label ''keyring.show_secret'', Label ''keyring.secret'',
                Words ('' 0x'' @ to_string 16 (rk_sk (snd e))), RevoDeleteButton (idForAccount acct) e]) entries)))])"

text \<open>The quotation marks around a name are left out.\<close>

definition import_text :: "import_msg \<Rightarrow> 'e ui list" where
  "import_text m = (case m of
     NameEmpty \<Rightarrow> [Words ''Name should not be empty.'']
   | InvalidHex \<Rightarrow> [Words ''Invalid hex.'']
   | KeyTooLong \<Rightarrow> [Words ''Private key must fit in 32 bytes (64 hex chars).'']
   | NameExists name \<Rightarrow> [Words ''An account named'', Words name, Words ''already exists.'']
   | KeyExists \<Rightarrow> [Words ''An account with this private key already exists.'']
   | Imported name \<Rightarrow> [Words ''Imported'', Words name, Words ''successfully.''])"

definition KeyringPanel :: "revo_keys option \<Rightarrow> drawer \<Rightarrow> drawer_event ui" where
  "KeyringPanel m d = (let k = dw_kr d in
     if kr_locked k then unlock_ui d
     else Group ([Label ''keyring.label'', Field (dw_newName d) DwNewName, Click True DwNew [Label ''keyring.new''],
         Click True DwExport [Label ''keyring.export''], Label ''keyring.import_name'', Field (dw_importName d) DwImportName,
         Label ''keyring.private_seed'', Field (dw_importPrv d) DwImportPrv, Click True DwImport [Label ''keyring.import'']]
       @ (case kr_importStatus k of None \<Rightarrow> []
          | Some st \<Rightarrow> [Styled (if fst st then ''text-emerald-600'' else ''text-red-600'') (import_text (snd st))])
       @ shown_if (length (kr_accounts k) = 0) [Label ''keyring.no_accounts'']
       @ map (\<lambda>i. card_ui k i (kr_accounts k ! i)) [0..<length (kr_accounts k)]
       @ [revo_ui k m]))"

definition AccountDrawer :: "bool \<Rightarrow> revo_keys option \<Rightarrow> drawer \<Rightarrow> drawer_event ui" where
  "AccountDrawer is_open m d = Styled (if is_open then ''pointer-events-auto'' else ''pointer-events-none'')
     [Click is_open DwClose [], Styled (if is_open then ''translate-x-0'' else ''translate-x-full'')
        [Label ''keyring.zk_accounts'', Click True DwClose [Words ''X''], KeyringPanel m d]]"

section \<open>Clicks in the drawer\<close>

text \<open>The effect on the keyring and the fields; the exports and the deletion of re-voting keys
  leave both alone.\<close>

definition drawer_fire :: "'k kr_env \<Rightarrow> drawer_event \<Rightarrow> drawer \<Rightarrow> drawer" where
  "drawer_fire V e d = (case e of
     DwPass p \<Rightarrow> d\<lparr>dw_kr := (dw_kr d)\<lparr>kr_pass := p\<rparr>\<rparr>
   | DwConfirm p \<Rightarrow> d\<lparr>dw_confirmPass := p\<rparr>
   | DwUnlock \<Rightarrow> run_proc (unlock_click V) d
   | DwNewName n \<Rightarrow> d\<lparr>dw_newName := n\<rparr>
   | DwNew \<Rightarrow> run_proc (new_click V) d
   | DwImportName n \<Rightarrow> d\<lparr>dw_importName := n\<rparr>
   | DwImportPrv p \<Rightarrow> d\<lparr>dw_importPrv := p\<rparr>
   | DwImport \<Rightarrow> run_proc (import_click V) d
   | DwUse i \<Rightarrow> run_proc (use_click V i) d
   | DwDelete i \<Rightarrow> run_proc (delete_click V i) d
   | DwClose \<Rightarrow> run_proc (close_effect False) d
   | DwExport \<Rightarrow> d | DwExportRevo \<Rightarrow> d | DwDeleteRevo acc x \<Rightarrow> d)"

lemma offers_card [simp]: "offers e (card_ui k i a) \<longleftrightarrow> e = DwUse i \<or> e = DwDelete i"
  by (simp add: card_ui_def account_card_def)

lemma import_text_offers [simp]: "\<not> list_ex (offers e) (import_text m)"
  by (simp add: import_text_def split: import_msg.splits)

lemma offers_revo_ui: "offers e (revo_ui k m) \<Longrightarrow> e = DwExportRevo \<or> (\<exists>acc x. e = DwDeleteRevo acc x)"
  by (auto simp: revo_ui_def RevoDeleteButton_def Let_def split: option.splits if_splits)

lemma offered_is_step:
  assumes "offers e (KeyringPanel m d)" "kv_crypto V = C"
  shows "drawer_fire V e d = d \<or> drawer_step C d (drawer_fire V e d)"
proof (cases "kr_locked (dw_kr d)")
  case True
  then show ?thesis
    using assms dw_pass [OF True, of C] dw_confirm [OF True, of C] dw_unlock [OF True assms(2)]
    by (auto simp: KeyringPanel_def unlock_ui_def Let_def drawer_fire_def)
next
  case False
  have fields: "drawer_step C d (d\<lparr>dw_newName := n\<rparr>)" "drawer_step C d (d\<lparr>dw_importName := n\<rparr>)"
      "drawer_step C d (d\<lparr>dw_importPrv := n\<rparr>)" for n
    using dw_fields [OF False, where C = C and n = n and i = "dw_importName d" and q = "dw_importPrv d"]
      dw_fields [OF False, where C = C and n = "dw_newName d" and i = n and q = "dw_importPrv d"]
      dw_fields [OF False, where C = C and n = "dw_newName d" and i = "dw_importName d" and q = n]
    by (cases d; simp)+
  have "(\<exists>i < length (kr_accounts (dw_kr d)). e = DwUse i \<or> e = DwDelete i) \<or> e = DwNew \<or> e = DwExport \<or> e = DwImport \<or>
      (\<exists>n. e = DwNewName n \<or> e = DwImportName n \<or> e = DwImportPrv n) \<or> e = DwExportRevo \<or> (\<exists>acc x. e = DwDeleteRevo acc x)"
    using assms(1) False offers_revo_ui [of e "dw_kr d" m]
    by (auto simp: KeyringPanel_def Let_def split: option.splits)
  then show ?thesis
    using fields drawer_step.intros(5-8) [OF False assms(2)] by (auto simp: drawer_fire_def)
qed

section \<open>The header and the menus\<close>

datatype frame_event = FrMenu | FrCloseMenu | FrTheme | FrLang string | FrAccounts | FrWallet

definition ClusterInfo :: "string \<Rightarrow> string option \<Rightarrow> 'e ui" where
  "ClusterInfo cluster other = Group (shown_if (cluster = ''devnet'') [Words ''DEVNET'']
     @ (case other of None \<Rightarrow> [] | Some url \<Rightarrow> shown_if (url \<noteq> [])
         [Link url [Words (if cluster = ''devnet'' then ''Go to mainnet'' else ''Go to devnet'')]]))"

definition ThemeToggle :: "string \<Rightarrow> frame_event ui" where
  "ThemeToggle theme = Click True FrTheme [Words (if theme_icon_sun theme then ''sun'' else ''moon'')]"

text \<open>The items show the name of a language; they stand here under its code.\<close>

definition LanguageSelect :: "string \<Rightarrow> frame_event ui" where
  "LanguageSelect cur = Group [Words (lang_short cur),
     Group (map (\<lambda>l. Pick (cur = fst l) (FrLang (fst l)) [Words (fst l)]) LANGS)]"

definition ZkAccountsButton :: "keyring \<Rightarrow> frame_event ui" where
  "ZkAccountsButton k = Click True FrAccounts
     [(case zk_label k of None \<Rightarrow> Label ''keyring.zk_accounts'' | Some name \<Rightarrow> Words name)]"

definition MobileWalletButton :: "frame_event ui" where
  "MobileWalletButton = Click True FrWallet []"

definition navItemClass :: "bool \<Rightarrow> string" where
  "navItemClass isActive = (if isActive then ''bg-gray-200 text-black dark:bg-zinc-800 dark:text-white''
     else ''text-gray-700 dark:text-zinc-300'')"

text \<open>A \<open>NavLink\<close> is active on its address and below it.\<close>

definition nav_active :: "string list \<Rightarrow> string list \<Rightarrow> bool" where
  "nav_active to path \<longleftrightarrow> take (length to) path = to"

definition NavLinks :: "string list \<Rightarrow> 'e ui list" where
  "NavLinks path = [Styled (navItemClass (nav_active [''polls''] path)) [Link ''/polls'' [Label ''nav.polls'']],
     Styled (navItemClass (nav_active [''censuses''] path)) [Link ''/censuses'' [Label ''nav.censuses'']]]"

record frame =
  fr_menu :: bool
  fr_accounts :: bool
  fr_wallet :: bool

definition Layout ::
  "string \<Rightarrow> string option \<Rightarrow> string \<Rightarrow> string \<Rightarrow> string \<Rightarrow> string list \<Rightarrow> keyring \<Rightarrow> frame_event ui \<Rightarrow> frame \<Rightarrow> frame_event ui" where
  "Layout cluster other github theme lang path k outlet s = (let footer = Link github [Words ''GitHub''] in
     Group ([Click True FrMenu [Words ''menu''], Link ''/'' [Words ''MootVote''], ClusterInfo cluster other,
         ThemeToggle theme, LanguageSelect lang, ZkAccountsButton k, MobileWalletButton, Group (NavLinks path), footer]
       @ shown_if (fr_menu s) [Click True FrCloseMenu [],
           Group ([ClusterInfo cluster other, ThemeToggle theme, LanguageSelect lang] @ map (\<lambda>u. Click True FrCloseMenu [u]) (NavLinks path) @ [footer])]
       @ [outlet]))"

text \<open>\<open>setOpen\<close> and \<open>setShowAccounts\<close>; theme and language are kept outside.\<close>

definition frame_fire :: "frame_event \<Rightarrow> frame \<Rightarrow> frame" where
  "frame_fire e s = (case e of FrMenu \<Rightarrow> s\<lparr>fr_menu := \<not> fr_menu s\<rparr> | FrCloseMenu \<Rightarrow> s\<lparr>fr_menu := False\<rparr>
     | FrAccounts \<Rightarrow> s\<lparr>fr_accounts := True\<rparr> | FrWallet \<Rightarrow> s\<lparr>fr_wallet := True\<rparr> | FrTheme \<Rightarrow> s | FrLang l \<Rightarrow> s)"

section \<open>Pages without state\<close>

definition home_card :: "string \<Rightarrow> 'e ui" where
  "home_card name = Group [Label (''home.'' @ name @ ''_title''), Label (''home.'' @ name @ ''_body'')]"

definition HomePage :: "'e ui" where
  "HomePage = Group ([Label ''home.headline'', Words ''Solana'', Label ''home.subhead_line1'', Label ''home.subhead_line2'',
       Label ''home.how'']
     @ map home_card [''census'', ''poll'', ''vote'', ''tally'', ''results'', ''security'']
     @ [Label ''home.cta_title'', Label ''home.cta_body'', Link ''/censuses'' [Label ''home.cta_census''], Label ''home.disclaimer''])"

definition Page404 :: "'e ui" where
  "Page404 = Group [Label ''not_found'']"

text \<open>The application: the frame around the page of the address, and the drawer above it.\<close>

datatype app_event = ApFrame frame_event | ApDrawer drawer_event

definition App ::
  "string \<Rightarrow> string option \<Rightarrow> string \<Rightarrow> string \<Rightarrow> string \<Rightarrow> (page \<Rightarrow> frame_event ui) \<Rightarrow> string list \<Rightarrow>
    revo_keys option \<Rightarrow> drawer \<Rightarrow> frame \<Rightarrow> app_event ui" where
  "App cluster other github theme lang pages path m d s =
     (let outlet = (case route path of Home \<Rightarrow> HomePage | NotFound \<Rightarrow> Page404 | p \<Rightarrow> pages p) in
      Group [map_ui ApFrame (Layout cluster other github theme lang path (dw_kr d) outlet s),
        map_ui ApDrawer (AccountDrawer (fr_accounts s) m d)])"

text \<open>\<open>onClose\<close> sets the state of the application; the panel then clears its fields.\<close>

definition app_fire :: "'k kr_env \<Rightarrow> app_event \<Rightarrow> drawer \<times> frame \<Rightarrow> drawer \<times> frame" where
  "app_fire V e ds = (case ds of (d, s) \<Rightarrow> (case e of
     ApFrame f \<Rightarrow> (d, frame_fire f s)
   | ApDrawer x \<Rightarrow> (drawer_fire V x d, if x = DwClose then s\<lparr>fr_accounts := False\<rparr> else s)))"

lemma offers_drawer: "offers e (AccountDrawer b m d) \<longleftrightarrow> e = DwClose \<or> offers e (KeyringPanel m d)"
  by (auto simp: AccountDrawer_def)

text \<open>The keyring behind the application changes by its own steps only.\<close>

lemma app_event_keyring:
  assumes "offers e (App cl other gh theme lang pages path m d s)" "kv_crypto V = C"
  shows "dw_kr (fst (app_fire V e (d, s))) = dw_kr d \<or> kr_step C (dw_kr d) (dw_kr (fst (app_fire V e (d, s))))"
proof (cases e)
  case (ApDrawer x)
  then consider "x = DwClose" | "offers x (KeyringPanel m d)"
    using assms(1) by (auto simp: App_def Let_def offers_map_ui offers_drawer)
  then have "drawer_fire V x d = d \<or> drawer_step C d (drawer_fire V x d)"
  proof cases
    case 1
    then show ?thesis using dw_toggle [of C d False] by (simp add: drawer_fire_def)
  next
    case 2
    then show ?thesis using offered_is_step assms(2) by blast
  qed
  then show ?thesis using drawer_step_keyring ApDrawer by (auto simp: app_fire_def)
qed (simp add: app_fire_def)

end
