(* ===== verification/SparseTree.thy ===== *)
theory SparseTree
  imports Numerals "HOL-Library.Word"
begin

unbundle bit_operations_syntax

text \<open>
  The sparse Merkle tree of the relayer, the crate \<open>smt-circom\<close>: nodes under their Poseidon hash in
  a key-value store, with insertion, update and the proofs for circom circuits (\<open>src/lib.rs\<close>), and
  its two stores (\<open>src/store\<close>). A \<open>[u8; 32]\<close> is the 256-bit word of which it is the big-endian form;
  the depth \<open>D\<close>, a const generic, is an argument. Poseidon is a parameter that may fail (the code
  panics then); an index out of bounds panics.
\<close>

type_synonym b256 = "256 word"
type_synonym poseidon = "b256 list \<Rightarrow> b256 option"

datatype smt_error = AlreadyPresent | KeyNotFound | SmtPanic

definition sbind :: "'e + 'a \<Rightarrow> ('a \<Rightarrow> 'e + 'b) \<Rightarrow> 'e + 'b" where
  "sbind m f = (case m of Inl e \<Rightarrow> Inl e | Inr x \<Rightarrow> f x)"

lemma sbind_simps [simp]: "sbind (Inl e) f = Inl e" "sbind (Inr x) f = f x"
  by (simp_all add: sbind_def)

section \<open>Nodes\<close>

definition leaf_key :: "poseidon \<Rightarrow> b256 \<Rightarrow> b256 \<Rightarrow> b256 option" where
  "leaf_key H k v = H [k, v, 1]"

definition mid_key :: "poseidon \<Rightarrow> b256 \<Rightarrow> b256 \<Rightarrow> b256 option" where
  "mid_key H l r = H [l, r]"

datatype node = Middle b256 b256 | Leaf b256 b256

definition node_key :: "poseidon \<Rightarrow> node \<Rightarrow> b256 option" where
  "node_key H n = (case n of Leaf k v \<Rightarrow> leaf_key H k v | Middle l r \<Rightarrow> mid_key H l r)"

definition word_bytes :: "b256 \<Rightarrow> 8 word list" where
  "word_bytes w = map word_of_int (be_digits 256 32 (uint w))"

definition bytes_word :: "8 word list \<Rightarrow> b256" where
  "bytes_word bs = word_of_int (be_val 256 (map uint bs))"

definition encode :: "node \<Rightarrow> 8 word list" where
  "encode n = (case n of
     Middle l r \<Rightarrow> 0 # word_bytes l @ word_bytes r
   | Leaf k v \<Rightarrow> 1 # word_bytes k @ word_bytes v)"

definition decode :: "8 word list \<Rightarrow> node option" where
  "decode bs = (if length bs \<noteq> 65 then None
     else let a = bytes_word (take 32 (drop 1 bs)); b = bytes_word (take 32 (drop 33 bs)) in
       if bs ! 0 = 0 then Some (Middle a b) else if bs ! 0 = 1 then Some (Leaf a b) else None)"

definition get_path :: "nat \<Rightarrow> b256 \<Rightarrow> bool list" where
  "get_path D key = map (\<lambda>i. bit key i) [0..<D]"

lemma length_get_path [simp]: "length (get_path D k) = D"
  by (simp add: get_path_def)

lemma nth_get_path [simp]: "i < D \<Longrightarrow> get_path D k ! i = bit k i"
  by (simp add: get_path_def)

section \<open>Stores\<close>

text \<open>The trait \<open>NodeStore\<close>; reads and writes of the stores here do not fail.\<close>

record 's node_store =
  ns_get :: "'s \<Rightarrow> b256 \<Rightarrow> node option"
  ns_put :: "'s \<Rightarrow> b256 \<Rightarrow> 8 word list \<Rightarrow> 's"
  ns_root :: "'s \<Rightarrow> b256"
  ns_setRoot :: "'s \<Rightarrow> b256 \<Rightarrow> 's"

record mem_store =
  ms_map :: "b256 \<Rightarrow> 8 word list option"
  ms_root :: b256

definition MemStore :: "mem_store node_store" where
  "MemStore = \<lparr>ns_get = (\<lambda>s k. Option.bind (ms_map s k) decode),
     ns_put = (\<lambda>s k n. s\<lparr>ms_map := (ms_map s)(k \<mapsto> n)\<rparr>), ns_root = ms_root,
     ns_setRoot = (\<lambda>s r. s\<lparr>ms_root := r\<rparr>)\<rparr>"

definition new_mem :: mem_store where
  "new_mem = \<lparr>ms_map = (\<lambda>k. None), ms_root = 0\<rparr>"

text \<open>A database of column families, and a batch of writes to it.\<close>

type_synonym database = "string \<times> 8 word list \<Rightarrow> 8 word list option"
type_synonym write_batch = "((string \<times> 8 word list) \<times> 8 word list) list"

definition write_db :: "database \<Rightarrow> write_batch \<Rightarrow> database" where
  "write_db db batch = foldl (\<lambda>d w. d(fst w \<mapsto> snd w)) db batch"

text \<open>Writes go to the batch, reads to the database; the root has the key zero.\<close>

record rocks_store =
  rx_db :: database
  rx_cf :: string
  rx_batch :: write_batch
  rx_prefix :: "8 word list"
  rx_root :: b256

definition prefix_key :: "8 word list \<Rightarrow> b256 \<Rightarrow> 8 word list" where
  "prefix_key prefix k = prefix @ word_bytes k"

definition stored_root :: "database \<Rightarrow> string \<Rightarrow> 8 word list \<Rightarrow> b256" where
  "stored_root db cf prefix = (case db (cf, prefix_key prefix 0) of None \<Rightarrow> 0 | Some x \<Rightarrow> bytes_word x)"

definition new_rocks :: "database \<Rightarrow> string \<Rightarrow> write_batch \<Rightarrow> 8 word list \<Rightarrow> rocks_store" where
  "new_rocks db cf batch prefix = \<lparr>rx_db = db, rx_cf = cf, rx_batch = batch, rx_prefix = prefix,
     rx_root = stored_root db cf prefix\<rparr>"

definition RocksStore :: "rocks_store node_store" where
  "RocksStore = \<lparr>ns_get = (\<lambda>s k. Option.bind (rx_db s (rx_cf s, prefix_key (rx_prefix s) k)) decode),
     ns_put = (\<lambda>s k n. s\<lparr>rx_batch := rx_batch s @ [((rx_cf s, prefix_key (rx_prefix s) k), n)]\<rparr>),
     ns_root = rx_root,
     ns_setRoot = (\<lambda>s r. s\<lparr>rx_batch := rx_batch s @ [((rx_cf s, prefix_key (rx_prefix s) 0), word_bytes r)],
        rx_root := r\<rparr>)\<rparr>"

section \<open>Insertion\<close>

definition put_node :: "'s node_store \<Rightarrow> poseidon \<Rightarrow> node \<Rightarrow> 's \<Rightarrow> smt_error + (b256 \<times> 's)" where
  "put_node S H n s = (case node_key H n of None \<Rightarrow> Inl SmtPanic
     | Some k \<Rightarrow> Inr (k, ns_put S s k (encode n)))"

definition side :: "bool \<Rightarrow> b256 \<Rightarrow> b256 \<Rightarrow> node" where
  "side go_right child sibling = (if go_right then Middle sibling child else Middle child sibling)"

text \<open>\<open>new\<close> and \<open>old\<close> are the key and the value of a leaf.\<close>

function push_leaf :: "'s node_store \<Rightarrow> poseidon \<Rightarrow> b256 \<times> b256 \<Rightarrow> b256 \<times> b256 \<Rightarrow> nat \<Rightarrow> bool list \<Rightarrow>
    bool list \<Rightarrow> 's \<Rightarrow> smt_error + (b256 \<times> 's)" where
  "push_leaf S H new old lvl path_new path_old s =
     (if length path_new \<le> lvl \<or> length path_old \<le> lvl then Inl SmtPanic
      else if path_new ! lvl = path_old ! lvl then
        sbind (push_leaf S H new old (Suc lvl) path_new path_old s) (\<lambda>(next_key, s).
          put_node S H (side (path_new ! lvl) next_key 0) s)
      else sbind (put_node S H (Leaf (fst new) (snd new)) s) (\<lambda>(new_leaf_key, s).
        case leaf_key H (fst old) (snd old) of None \<Rightarrow> Inl SmtPanic
        | Some old_leaf_key \<Rightarrow> put_node S H (side (path_new ! lvl) new_leaf_key old_leaf_key) s))"
  by pat_completeness auto
termination
  by (relation "measure (\<lambda>(S, H, new, old, lvl, p, q, s). length p - lvl)") auto

declare push_leaf.simps [simp del]

function add_leaf :: "'s node_store \<Rightarrow> poseidon \<Rightarrow> b256 \<times> b256 \<Rightarrow> b256 \<Rightarrow> nat \<Rightarrow> bool list \<Rightarrow> 's \<Rightarrow>
    smt_error + (b256 \<times> 's)" where
  "add_leaf S H new cur_key lvl path_new s = (case ns_get S s cur_key of
     None \<Rightarrow> put_node S H (Leaf (fst new) (snd new)) s
   | Some (Leaf old_k old_v) \<Rightarrow>
       if fst new = old_k then Inl AlreadyPresent
       else push_leaf S H new (old_k, old_v) lvl path_new (get_path (length path_new) old_k) s
   | Some (Middle l r) \<Rightarrow>
       if length path_new \<le> lvl then Inl SmtPanic
       else if path_new ! lvl then
         sbind (add_leaf S H new r (Suc lvl) path_new s) (\<lambda>(h, s). put_node S H (Middle l h) s)
       else sbind (add_leaf S H new l (Suc lvl) path_new s) (\<lambda>(h, s). put_node S H (Middle h r) s))"
  by pat_completeness auto
termination
  by (relation "measure (\<lambda>(S, H, new, cur, lvl, p, s). length p - lvl)") auto

declare add_leaf.simps [simp del]

definition smt_add :: "'s node_store \<Rightarrow> poseidon \<Rightarrow> nat \<Rightarrow> b256 \<Rightarrow> b256 \<Rightarrow> 's \<Rightarrow> smt_error + 's" where
  "smt_add S H D key val s =
     sbind (add_leaf S H (key, val) (ns_root S s) 0 (get_path D key) s) (\<lambda>(new_root, s).
       Inr (ns_setRoot S s new_root))"

section \<open>Update\<close>

text \<open>The siblings from the leaf up, each with the direction at its level.\<close>

primrec rebuild :: "'s node_store \<Rightarrow> poseidon \<Rightarrow> (bool \<times> b256) list \<Rightarrow> b256 \<times> 's \<Rightarrow> smt_error + (b256 \<times> 's)" where
  "rebuild S H [] hs = Inr hs"
| "rebuild S H (x # xs) hs = sbind (put_node S H (side (fst x) (fst hs) (snd x)) (snd hs)) (rebuild S H xs)"

primrec update_loop :: "'s node_store \<Rightarrow> poseidon \<Rightarrow> b256 \<Rightarrow> b256 \<Rightarrow> bool list \<Rightarrow> b256 \<Rightarrow> (bool \<times> b256) list \<Rightarrow> 's \<Rightarrow>
    smt_error + (b256 \<times> 's)" where
  "update_loop S H key val [] cur siblings s = Inl KeyNotFound"
| "update_loop S H key val (go_right # path) cur siblings s = (case ns_get S s cur of
     None \<Rightarrow> Inl KeyNotFound
   | Some (Leaf k v) \<Rightarrow>
       if k \<noteq> key then Inl KeyNotFound
       else sbind (put_node S H (Leaf key val) s) (\<lambda>hs. sbind (rebuild S H siblings hs) (\<lambda>(root, s).
         Inr (v, ns_setRoot S s root)))
   | Some (Middle l r) \<Rightarrow>
       update_loop S H key val path (if go_right then r else l)
         ((go_right, if go_right then l else r) # siblings) s)"

definition smt_update :: "'s node_store \<Rightarrow> poseidon \<Rightarrow> nat \<Rightarrow> b256 \<Rightarrow> b256 \<Rightarrow> 's \<Rightarrow> smt_error + (b256 \<times> 's)" where
  "smt_update S H D key val s = update_loop S H key val (get_path D key) (ns_root S s) [] s"

text \<open>The insertion of a key that is present has written nothing when it returns.\<close>

definition add_or_update :: "'s node_store \<Rightarrow> poseidon \<Rightarrow> nat \<Rightarrow> b256 \<Rightarrow> b256 \<Rightarrow> 's \<Rightarrow> smt_error + 's" where
  "add_or_update S H D key val s = (case smt_add S H D key val s of
     Inl AlreadyPresent \<Rightarrow> sbind (smt_update S H D key val s) (\<lambda>(v, s). Inr s)
   | x \<Rightarrow> x)"

section \<open>Proofs\<close>

record circom_proof =
  zp_siblings :: "b256 list"
  zp_isOld0 :: bool
  zp_oldKey :: b256
  zp_oldValue :: b256
  zp_membership :: bool

definition get_leaf :: "circom_proof \<Rightarrow> b256 option" where
  "get_leaf p = (if zp_membership p then Some (zp_oldValue p) else None)"

definition no_leaf :: "b256 list \<Rightarrow> circom_proof" where
  "no_leaf siblings = \<lparr>zp_siblings = siblings, zp_isOld0 = True, zp_oldKey = 0, zp_oldValue = 0, zp_membership = False\<rparr>"

text \<open>The loop over the path, with the siblings found so far; the rest of the array is zero. The
  last round looks at the node of its level and not at the one below.\<close>

primrec proof_walk :: "'s node_store \<Rightarrow> nat \<Rightarrow> b256 \<Rightarrow> bool list \<Rightarrow> b256 \<Rightarrow> b256 list \<Rightarrow> 's \<Rightarrow> circom_proof" where
  "proof_walk S D key [] cur siblings s = no_leaf (siblings @ replicate (D - length siblings) 0)"
| "proof_walk S D key (go_right # path) cur siblings s =
     (let padded = siblings @ replicate (D - length siblings) 0 in case ns_get S s cur of
        None \<Rightarrow> no_leaf padded
      | Some (Leaf k v) \<Rightarrow> \<lparr>zp_siblings = padded, zp_isOld0 = (k = 0), zp_oldKey = k, zp_oldValue = v,
          zp_membership = (k = key)\<rparr>
      | Some (Middle l r) \<Rightarrow>
          proof_walk S D key path (if go_right then r else l) (siblings @ [if go_right then l else r]) s)"

definition get_proof :: "'s node_store \<Rightarrow> nat \<Rightarrow> b256 \<Rightarrow> 's \<Rightarrow> circom_proof" where
  "get_proof S D key s = proof_walk S D key (get_path D key) (ns_root S s) [] s"

end
