(* ===== verification/SparseTreeCorrect.thy ===== *)
theory SparseTreeCorrect
  imports SparseTree
begin

text \<open>
  The sparse Merkle tree of the relayer implements a map. Between the store and the map stands the
  tree itself (\<open>smt\<close>): the operations on the store refine those on the tree, as long as no two of
  the nodes collide, and those on the tree refine the map, as long as the keys differ early enough
  for their leaves to lie above the last level.
\<close>

section \<open>Trees\<close>

datatype smt = Empty | Tip b256 b256 | Fork smt smt

fun digest :: "poseidon \<Rightarrow> smt \<Rightarrow> b256 option" where
  "digest H Empty = Some 0"
| "digest H (Tip k v) = leaf_key H k v"
| "digest H (Fork l r) = (case digest H l of None \<Rightarrow> None | Some a \<Rightarrow>
     (case digest H r of None \<Rightarrow> None | Some b \<Rightarrow> mid_key H a b))"

fun nodes :: "poseidon \<Rightarrow> smt \<Rightarrow> node set" where
  "nodes H Empty = {}"
| "nodes H (Tip k v) = {Leaf k v}"
| "nodes H (Fork l r) = insert (Middle (the (digest H l)) (the (digest H r))) (nodes H l \<union> nodes H r)"

definition fork :: "bool \<Rightarrow> smt \<Rightarrow> smt \<Rightarrow> smt" where
  "fork go_right child sibling = (if go_right then Fork sibling child else Fork child sibling)"

function push :: "nat \<Rightarrow> nat \<Rightarrow> b256 \<times> b256 \<Rightarrow> b256 \<times> b256 \<Rightarrow> smt_error + smt" where
  "push D lvl new old = (if D \<le> lvl then Inl SmtPanic
     else if bit (fst new) lvl = bit (fst old) lvl
       then sbind (push D (Suc lvl) new old) (\<lambda>t. Inr (fork (bit (fst new) lvl) t Empty))
     else Inr (fork (bit (fst new) lvl) (Tip (fst new) (snd new)) (Tip (fst old) (snd old))))"
  by pat_completeness auto
termination
  by (relation "measure (\<lambda>(D, lvl, new, old). D - lvl)") auto

declare push.simps [simp del]

fun ins :: "nat \<Rightarrow> nat \<Rightarrow> b256 \<times> b256 \<Rightarrow> smt \<Rightarrow> smt_error + smt" where
  "ins D lvl new Empty = Inr (Tip (fst new) (snd new))"
| "ins D lvl new (Tip k v) = (if fst new = k then Inl AlreadyPresent else push D lvl new (k, v))"
| "ins D lvl new (Fork l r) = (if D \<le> lvl then Inl SmtPanic
     else if bit (fst new) lvl then sbind (ins D (Suc lvl) new r) (\<lambda>t. Inr (Fork l t))
     else sbind (ins D (Suc lvl) new l) (\<lambda>t. Inr (Fork t r)))"

text \<open>\<open>n\<close> levels are left.\<close>

fun upd :: "nat \<Rightarrow> nat \<Rightarrow> b256 \<Rightarrow> b256 \<Rightarrow> smt \<Rightarrow> smt_error + (b256 \<times> smt)" where
  "upd 0 lvl key val t = Inl KeyNotFound"
| "upd (Suc n) lvl key val Empty = Inl KeyNotFound"
| "upd (Suc n) lvl key val (Tip k v) = (if k \<noteq> key then Inl KeyNotFound else Inr (v, Tip key val))"
| "upd (Suc n) lvl key val (Fork l r) =
     (if bit key lvl then sbind (upd n (Suc lvl) key val r) (\<lambda>(v, t). Inr (v, Fork l t))
      else sbind (upd n (Suc lvl) key val l) (\<lambda>(v, t). Inr (v, Fork t r)))"

fun walk :: "poseidon \<Rightarrow> nat \<Rightarrow> nat \<Rightarrow> b256 \<Rightarrow> smt \<Rightarrow> b256 list \<times> (b256 \<times> b256) option" where
  "walk H 0 lvl key t = ([], None)"
| "walk H (Suc n) lvl key Empty = ([], None)"
| "walk H (Suc n) lvl key (Tip k v) = ([], Some (k, v))"
| "walk H (Suc n) lvl key (Fork l r) = (case walk H n (Suc lvl) key (if bit key lvl then r else l) of
     (siblings, found) \<Rightarrow> (the (digest H (if bit key lvl then l else r)) # siblings, found))"

definition proof_of :: "nat \<Rightarrow> b256 \<Rightarrow> b256 list \<times> (b256 \<times> b256) option \<Rightarrow> circom_proof" where
  "proof_of D key w = (let padded = fst w @ replicate (D - length (fst w)) 0 in case snd w of
     None \<Rightarrow> no_leaf padded
   | Some (k, v) \<Rightarrow> \<lparr>zp_siblings = padded, zp_isOld0 = (k = 0), zp_oldKey = k, zp_oldValue = v,
       zp_membership = (k = key)\<rparr>)"

section \<open>Encodings\<close>

lemma length_word_bytes [simp]: "length (word_bytes w) = 32"
  by (simp add: word_bytes_def)

lemma uint_bytes: "map uint (map word_of_int (be_digits 256 n x) :: 8 word list) = be_digits 256 n x"
proof -
  have "uint (word_of_int d :: 8 word) = d" if "d \<in> set (be_digits 256 n x)" for d
    using that be_digits_ok [of 256 n x] by (simp add: digits_ok_def unsigned_of_int take_bit_int_eq_self)
  then show ?thesis by (simp add: comp_def map_idI)
qed

lemma bytes_word_bytes [simp]: "bytes_word (word_bytes w) = w"
proof -
  have "uint w mod 256 ^ 32 = uint w" using uint_lt2p [of w] by simp
  then show ?thesis by (simp add: bytes_word_def word_bytes_def uint_bytes be_val_be_digits del: map_map)
qed

lemma word_bytes_inj [simp]: "word_bytes a = word_bytes b \<longleftrightarrow> a = b"
  by (metis bytes_word_bytes)

lemma length_encode [simp]: "length (encode n) = 65"
  by (simp add: encode_def split: node.splits)

lemma decode_encode [simp]: "decode (encode n) = Some n"
  by (cases n) (simp_all add: encode_def decode_def Let_def)

lemma decode_short: "length bs \<noteq> 65 \<Longrightarrow> decode bs = None"
  by (simp add: decode_def)

section \<open>Stores\<close>

text \<open>
  What the operations need of a store: \<open>after s\<close> are the nodes that are there once the writes of
  \<open>s\<close> have been made. (A read need not see them: the operations read before they write.)
\<close>

locale smt_store =
  fixes S :: "'s node_store"
    and after :: "'s \<Rightarrow> b256 \<Rightarrow> node option"
  assumes after_put: "k \<noteq> 0 \<Longrightarrow> after (ns_put S s k (encode n)) = (after s)(k \<mapsto> n)"
    and root_put: "ns_root S (ns_put S s k bs) = ns_root S s"
    and after_root: "after s 0 = None \<Longrightarrow> after (ns_setRoot S s r) = after s"
    and root_root: "ns_root S (ns_setRoot S s r) = r"

text \<open>The nodes of a run are hashed without failure, without collision and not to zero.\<close>

definition sound_hash :: "poseidon \<Rightarrow> node set \<Rightarrow> bool" where
  "sound_hash H N \<longleftrightarrow> (\<forall>n \<in> N. \<exists>h. node_key H n = Some h \<and> h \<noteq> 0) \<and> inj_on (node_key H) N"

definition tidy :: "poseidon \<Rightarrow> node set \<Rightarrow> (b256 \<Rightarrow> node option) \<Rightarrow> bool" where
  "tidy H N view \<longleftrightarrow> (\<forall>h n. view h = Some n \<longrightarrow> n \<in> N \<and> node_key H n = Some h)"

fun rep :: "poseidon \<Rightarrow> (b256 \<Rightarrow> node option) \<Rightarrow> smt \<Rightarrow> b256 \<Rightarrow> bool" where
  "rep H view Empty h \<longleftrightarrow> h = 0"
| "rep H view (Tip k v) h \<longleftrightarrow> leaf_key H k v = Some h \<and> view h = Some (Leaf k v)"
| "rep H view (Fork l r) h \<longleftrightarrow> (\<exists>a b. mid_key H a b = Some h \<and> view h = Some (Middle a b) \<and>
     rep H view l a \<and> rep H view r b)"

lemma rep_digest: "rep H view t h \<Longrightarrow> digest H t = Some h"
  by (induction t arbitrary: h) auto

lemma rep_mono: "rep H view t h \<Longrightarrow> view \<subseteq>\<^sub>m view' \<Longrightarrow> rep H view' t h"
  by (induction t arbitrary: h) (force simp: map_le_def dom_def)+

lemma tidy_zero: "tidy H N view \<Longrightarrow> sound_hash H N \<Longrightarrow> view 0 = None"
  unfolding tidy_def sound_hash_def by (metis not_None_eq option.inject)

lemma tidy_put:
  assumes "tidy H N view" "sound_hash H N" "n \<in> N" "node_key H n = Some h"
  shows "tidy H N (view(h \<mapsto> n))" "view \<subseteq>\<^sub>m view(h \<mapsto> n)" "h \<noteq> 0"
proof -
  show "tidy H N (view(h \<mapsto> n))" using assms by (simp add: tidy_def)
  show "h \<noteq> 0" using assms(2-4) unfolding sound_hash_def by fastforce
  have "m = n" if "view h = Some m" for m
    using that assms unfolding tidy_def sound_hash_def by (metis inj_onD)
  then show "view \<subseteq>\<^sub>m view(h \<mapsto> n)" by (auto simp: map_le_def dom_def)
qed

lemma nodes_fork: "nodes H (fork b t u) =
  insert (side b (the (digest H t)) (the (digest H u))) (nodes H t \<union> nodes H u)"
  by (auto simp: fork_def side_def)

lemma rep_fork:
  assumes "rep H view t a" "rep H view u b" "node_key H (side c a b) = Some h" "view h = Some (side c a b)"
  shows "rep H view (fork c t u) h"
  using assms by (auto simp: fork_def side_def node_key_def split: if_splits)

lemma rep_zero: "rep H view t 0 \<Longrightarrow> view 0 = None \<Longrightarrow> t = Empty"
  by (cases t) auto

lemma rep_get:
  assumes "rep H view t h" "view 0 = None"
  shows "t = Empty \<Longrightarrow> view h = None" "t = Tip k v \<Longrightarrow> view h = Some (Leaf k v)"
    "t = Fork l r \<Longrightarrow> \<exists>a b. view h = Some (Middle a b) \<and> mid_key H a b = Some h \<and> rep H view l a \<and> rep H view r b"
  using assms by auto

fun plug :: "smt \<Rightarrow> (bool \<times> smt) list \<Rightarrow> smt" where
  "plug t [] = t"
| "plug t (u # us) = plug (fork (fst u) t (snd u)) us"

lemma nodes_plug: "nodes H t \<subseteq> nodes H (plug t us)"
proof (induction us arbitrary: t)
  case (Cons u us)
  have "nodes H t \<subseteq> nodes H (fork (fst u) t (snd u))" by (auto simp: nodes_fork)
  then show ?case using Cons by (metis order.trans plug.simps(2))
qed simp

context smt_store
begin

text \<open>A step of a run: the store has grown, and the root is the one of before.\<close>

definition grows :: "poseidon \<Rightarrow> node set \<Rightarrow> 's \<Rightarrow> 's \<Rightarrow> bool" where
  "grows H N s s' \<longleftrightarrow> tidy H N (after s') \<and> after s \<subseteq>\<^sub>m after s' \<and> ns_root S s' = ns_root S s"

lemma grows_trans: "grows H N s t \<Longrightarrow> grows H N t u \<Longrightarrow> grows H N s u"
  unfolding grows_def by (metis map_le_trans)

lemma put_grows:
  assumes "sound_hash H N" "tidy H N (after s)" "n \<in> N"
  obtains h s' where "put_node S H n s = Inr (h, s')" "node_key H n = Some h" "grows H N s s'" "after s' h = Some n"
proof -
  obtain h where h: "node_key H n = Some h" using assms(1,3) by (auto simp: sound_hash_def)
  note p = tidy_put [OF assms(2,1,3) h]
  show ?thesis
    using that [of h "ns_put S s h (encode n)"] h p
    by (simp add: put_node_def grows_def after_put root_put)
qed

lemma grows_tidy: "grows H N s s' \<Longrightarrow> tidy H N (after s')"
  by (simp add: grows_def)

lemma grows_rep: "grows H N s s' \<Longrightarrow> rep H (after s) t h \<Longrightarrow> rep H (after s') t h"
  using rep_mono by (auto simp: grows_def)

text \<open>One level up: the node over a subtree and its sibling.\<close>

lemma put_side:
  assumes "sound_hash H N" "rep H (after s) t a" "rep H (after s) u b" "tidy H N (after s)"
    and "nodes H (fork c t u) \<subseteq> N"
  obtains h s' where "put_node S H (side c a b) s = Inr (h, s')" "grows H N s s'" "rep H (after s') (fork c t u) h"
proof -
  have "side c a b \<in> N" using assms(5) rep_digest [OF assms(2)] rep_digest [OF assms(3)] by (simp add: nodes_fork)
  from put_grows [OF assms(1,4) this] obtain h s' where p: "put_node S H (side c a b) s = Inr (h, s')"
      "node_key H (side c a b) = Some h" "grows H N s s'" "after s' h = Some (side c a b)" by blast
  have "rep H (after s') (fork c t u) h"
    using rep_fork [OF grows_rep [OF p(3) assms(2)] grows_rep [OF p(3) assms(3)] p(2,4)] .
  with p that show ?thesis by blast
qed

lemma push_refines:
  assumes "sound_hash H N"
  shows "tidy H N (after s) \<Longrightarrow> rep H (after s) (Tip (fst old) (snd old)) oh \<Longrightarrow>
    (case push D lvl new old of
       Inl e \<Rightarrow> push_leaf S H new old lvl (get_path D (fst new)) (get_path D (fst old)) s = Inl e
     | Inr t \<Rightarrow> nodes H t \<subseteq> N \<longrightarrow> (\<exists>h s'. push_leaf S H new old lvl (get_path D (fst new)) (get_path D (fst old)) s
         = Inr (h, s') \<and> grows H N s s' \<and> rep H (after s') t h))"
proof (induction D lvl new old rule: push.induct)
  case (1 D lvl new old)
  show ?case
  proof (cases "D \<le> lvl")
    case True
    then show ?thesis by (simp add: push.simps [of D] push_leaf.simps [of S])
  next
    case d: False
    show ?thesis
    proof (cases "bit (fst new) lvl = bit (fst old) lvl")
      case True
      note IH = 1(1) [OF d True 1(2,3)]
      show ?thesis
      proof (cases "push D (Suc lvl) new old")
        case (Inl e)
        then show ?thesis using IH d True by (simp add: push.simps [of D lvl] push_leaf.simps [of S _ _ _ lvl])
      next
        case (Inr t)
        have "\<exists>h s'. push_leaf S H new old lvl (get_path D (fst new)) (get_path D (fst old)) s = Inr (h, s') \<and>
            grows H N s s' \<and> rep H (after s') (fork (bit (fst new) lvl) t Empty) h"
          if n: "nodes H (fork (bit (fst new) lvl) t Empty) \<subseteq> N"
        proof -
          have "nodes H t \<subseteq> N" using n by (simp add: nodes_fork)
          then obtain a s1 where s1: "push_leaf S H new old (Suc lvl) (get_path D (fst new)) (get_path D (fst old)) s
              = Inr (a, s1)" "grows H N s s1" "rep H (after s1) t a"
            using IH Inr by auto
          obtain h s' where "put_node S H (side (bit (fst new) lvl) a 0) s1 = Inr (h, s')" "grows H N s1 s'"
              "rep H (after s') (fork (bit (fst new) lvl) t Empty) h"
            using put_side [OF assms s1(3) _ grows_tidy [OF s1(2)] n, of 0] by auto
          then show ?thesis
            using d True s1(1) grows_trans [OF s1(2)] by (simp add: push_leaf.simps [of S _ _ _ lvl])
        qed
        then show ?thesis using Inr d True by (simp add: push.simps [of D lvl])
      qed
    next
      case b: False
      let ?t = "fork (bit (fst new) lvl) (Tip (fst new) (snd new)) (Tip (fst old) (snd old))"
      have "\<exists>h s'. push_leaf S H new old lvl (get_path D (fst new)) (get_path D (fst old)) s = Inr (h, s') \<and>
          grows H N s s' \<and> rep H (after s') ?t h" if n: "nodes H ?t \<subseteq> N"
      proof -
        have "Leaf (fst new) (snd new) \<in> N" using n by (simp add: nodes_fork)
        then obtain a s1 where s1: "put_node S H (Leaf (fst new) (snd new)) s = Inr (a, s1)" "grows H N s s1"
            "rep H (after s1) (Tip (fst new) (snd new)) a"
          using put_grows [OF assms 1(2)] by (metis (no_types, lifting) node.simps(6) node_key_def rep.simps(2))
        obtain h s' where "put_node S H (side (bit (fst new) lvl) a oh) s1 = Inr (h, s')" "grows H N s1 s'"
            "rep H (after s') ?t h"
          using put_side [OF assms s1(3) grows_rep [OF s1(2) 1(3)] grows_tidy [OF s1(2)] n] by auto
        then show ?thesis
          using d b s1(1) 1(3) grows_trans [OF s1(2)] by (simp add: push_leaf.simps [of S _ _ _ lvl])
      qed
      then show ?thesis using d b by (simp add: push.simps [of D lvl])
    qed
  qed
qed

text \<open>The reads are of the store as it was before the run.\<close>

definition holds :: "poseidon \<Rightarrow> node set \<Rightarrow> 's \<Rightarrow> smt \<Rightarrow> b256 \<Rightarrow> bool" where
  "holds H N s t h \<longleftrightarrow> tidy H N (after s) \<and> ns_get S s \<subseteq>\<^sub>m after s \<and> ns_get S s 0 = None \<and> rep H (ns_get S s) t h"

lemma holds_after: "holds H N s t h \<Longrightarrow> rep H (after s) t h"
  unfolding holds_def by (metis rep_mono)

lemma holds_tidy: "holds H N s t h \<Longrightarrow> tidy H N (after s)"
  by (simp add: holds_def)

lemma holds_Empty: "holds H N s Empty h \<Longrightarrow> ns_get S s h = None"
  by (auto simp: holds_def)

lemma holds_Tip: "holds H N s (Tip k v) h \<Longrightarrow> ns_get S s h = Some (Leaf k v)"
  by (auto simp: holds_def)

lemma holds_Fork:
  assumes "holds H N s (Fork l r) h"
  obtains a b where "ns_get S s h = Some (Middle a b)" "holds H N s l a" "holds H N s r b"
  using assms by (auto simp: holds_def)

lemma put_tip:
  assumes "sound_hash H N" "tidy H N (after s)" "Leaf k v \<in> N"
  obtains h s' where "put_node S H (Leaf k v) s = Inr (h, s')" "grows H N s s'" "rep H (after s') (Tip k v) h"
  using put_grows [OF assms] by (metis (no_types, lifting) node.simps(6) node_key_def rep.simps(2))

lemma add_leaf_refines:
  assumes "sound_hash H N"
  shows "holds H N s t cur \<Longrightarrow> (case ins D lvl new t of
      Inl e \<Rightarrow> add_leaf S H new cur lvl (get_path D (fst new)) s = Inl e
    | Inr t' \<Rightarrow> nodes H t' \<subseteq> N \<longrightarrow> (\<exists>h s'. add_leaf S H new cur lvl (get_path D (fst new)) s = Inr (h, s') \<and>
        grows H N s s' \<and> rep H (after s') t' h))"
proof (induction D lvl new t arbitrary: cur rule: ins.induct)
  case (1 D lvl new)
  then show ?case
    using put_tip [OF assms holds_tidy [OF 1]] holds_Empty [OF 1]
    by (auto simp: add_leaf.simps [of S]) blast
next
  case (2 D lvl new k v)
  have r: "rep H (after s) (Tip (fst (k, v)) (snd (k, v))) cur" using holds_after [OF 2] by simp
  show ?case
    using push_refines [OF assms holds_tidy [OF 2] r, where D = D and lvl = lvl and new = new] holds_Tip [OF 2]
    by (simp add: add_leaf.simps [of S] split: sum.split sum.split_asm)
next
  case (3 D lvl new l r)
  obtain a b where ab: "ns_get S s cur = Some (Middle a b)" "holds H N s l a" "holds H N s r b"
    using holds_Fork [OF 3(3)] .
  let ?go = "bit (fst new) lvl"
  define c where "c = (if ?go then b else a)"
  define u where "u = (if ?go then a else b)"
  define tc where "tc = (if ?go then r else l)"
  define tu where "tu = (if ?go then l else r)"
  have u: "holds H N s tu u" and c: "holds H N s tc c" using ab by (auto simp: tu_def u_def tc_def c_def)
  show ?case
  proof (cases "D \<le> lvl")
    case True
    then show ?thesis using ab by (simp add: add_leaf.simps [of S])
  next
    case d: False
    have IH: "case ins D (Suc lvl) new tc of
        Inl e \<Rightarrow> add_leaf S H new c (Suc lvl) (get_path D (fst new)) s = Inl e
      | Inr t' \<Rightarrow> nodes H t' \<subseteq> N \<longrightarrow> (\<exists>h s'. add_leaf S H new c (Suc lvl) (get_path D (fst new)) s = Inr (h, s') \<and>
        grows H N s s' \<and> rep H (after s') t' h)"
      using 3(1,2) [OF d] c by (auto simp: tc_def c_def split: if_splits)
    have i: "ins D lvl new (Fork l r) = sbind (ins D (Suc lvl) new tc) (\<lambda>t. Inr (fork ?go t tu))"
      using d by (auto simp: tc_def tu_def fork_def)
    have a: "add_leaf S H new cur lvl (get_path D (fst new)) s =
        sbind (add_leaf S H new c (Suc lvl) (get_path D (fst new)) s) (\<lambda>(h, s). put_node S H (side ?go h u) s)"
      using d ab by (auto simp: add_leaf.simps [of S _ _ _ lvl] c_def u_def side_def)
    show ?thesis
    proof (cases "ins D (Suc lvl) new tc")
      case (Inl e)
      then show ?thesis using IH by (simp add: i a del: ins.simps)
    next
      case (Inr t)
      have "\<exists>h s'. add_leaf S H new cur lvl (get_path D (fst new)) s = Inr (h, s') \<and>
        grows H N s s' \<and> rep H (after s') (fork ?go t tu) h" if n: "nodes H (fork ?go t tu) \<subseteq> N"
      proof -
        have "nodes H t \<subseteq> N" using n by (simp add: nodes_fork)
        then obtain h1 s1 where s1: "add_leaf S H new c (Suc lvl) (get_path D (fst new)) s = Inr (h1, s1)"
            "grows H N s s1" "rep H (after s1) t h1" using IH Inr by auto
        obtain h s' where "put_node S H (side ?go h1 u) s1 = Inr (h, s')" "grows H N s1 s'"
            "rep H (after s') (fork ?go t tu) h"
          using put_side [OF assms s1(3) grows_rep [OF s1(2) holds_after [OF u]] grows_tidy [OF s1(2)] n] .
        then show ?thesis using s1(1) grows_trans [OF s1(2)] by (simp add: a)
      qed
      then show ?thesis using Inr by (simp add: i del: ins.simps)
    qed
  qed
qed

lemma smt_add_refines:
  assumes "sound_hash H N" "holds H N s t (ns_root S s)"
  shows "case ins D 0 (key, val) t of
      Inl e \<Rightarrow> smt_add S H D key val s = Inl e
    | Inr t' \<Rightarrow> nodes H t' \<subseteq> N \<longrightarrow> (\<exists>s'. smt_add S H D key val s = Inr s' \<and>
        tidy H N (after s') \<and> after s \<subseteq>\<^sub>m after s' \<and> rep H (after s') t' (ns_root S s'))"
proof (cases "ins D 0 (key, val) t")
  case (Inl e)
  then show ?thesis
    using add_leaf_refines [OF assms, where D = D and lvl = 0 and new = "(key, val)"] by (simp add: smt_add_def)
next
  case (Inr t')
  have "\<exists>s'. smt_add S H D key val s = Inr s' \<and> tidy H N (after s') \<and> after s \<subseteq>\<^sub>m after s' \<and>
      rep H (after s') t' (ns_root S s')" if n: "nodes H t' \<subseteq> N"
  proof -
    obtain h s' where s': "add_leaf S H (key, val) (ns_root S s) 0 (get_path D key) s = Inr (h, s')"
        "grows H N s s'" "rep H (after s') t' h"
      using add_leaf_refines [OF assms, where D = D and lvl = 0 and new = "(key, val)"] Inr n by auto
    have "after (ns_setRoot S s' h) = after s'"
      using after_root tidy_zero grows_tidy [OF s'(2)] assms(1) by blast
    then show ?thesis using s' by (simp add: smt_add_def grows_def root_root)
  qed
  then show ?thesis using Inr by simp
qed

text \<open>The siblings found on the way down, and the tree around the place.\<close>

definition around :: "poseidon \<Rightarrow> node set \<Rightarrow> 's \<Rightarrow> (bool \<times> b256) list \<Rightarrow> (bool \<times> smt) list \<Rightarrow> bool" where
  "around H N s xs us \<longleftrightarrow> list_all2 (\<lambda>x u. fst x = fst u \<and> rep H (after s) (snd u) (snd x)) xs us"

lemma around_grows: "around H N s xs us \<Longrightarrow> grows H N s s' \<Longrightarrow> around H N s' xs us"
  unfolding around_def by (erule list_all2_mono) (auto intro: grows_rep)

lemma rebuild_refines:
  assumes "sound_hash H N"
  shows "around H N s xs us \<Longrightarrow> tidy H N (after s) \<Longrightarrow> rep H (after s) t h \<Longrightarrow> nodes H (plug t us) \<subseteq> N \<Longrightarrow>
    \<exists>root s'. rebuild S H xs (h, s) = Inr (root, s') \<and> grows H N s s' \<and> rep H (after s') (plug t us) root"
proof (induction xs arbitrary: us t h s)
  case Nil
  then show ?case by (auto simp: around_def grows_def)
next
  case (Cons x xs)
  obtain c u us' where us: "us = (c, u) # us'" "fst x = c" "rep H (after s) u (snd x)" "around H N s xs us'"
    using Cons.prems(1) by (cases us) (auto simp: around_def)
  have n: "nodes H (plug (fork c t u) us') \<subseteq> N" using Cons.prems(4) us by simp
  obtain h1 s1 where s1: "put_node S H (side c h (snd x)) s = Inr (h1, s1)" "grows H N s s1"
      "rep H (after s1) (fork c t u) h1"
    using put_side [OF assms Cons.prems(3) us(3) Cons.prems(2)] nodes_plug n by (metis order.trans)
  obtain root s' where "rebuild S H xs (h1, s1) = Inr (root, s')" "grows H N s1 s'"
      "rep H (after s') (plug (fork c t u) us') root"
    using Cons.IH [OF around_grows [OF us(4) s1(2)] grows_tidy [OF s1(2)] s1(3) n] by blast
  then show ?case using us s1 grows_trans [OF s1(2)] by auto
qed

lemma update_loop_refines:
  assumes "sound_hash H N"
  shows "holds H N s t cur \<Longrightarrow> around H N s xs us \<Longrightarrow> lvl + n = D \<Longrightarrow>
    (case upd n lvl key val t of
      Inl e \<Rightarrow> update_loop S H key val (drop lvl (get_path D key)) cur xs s = Inl e
    | Inr (v, t') \<Rightarrow> nodes H (plug t' us) \<subseteq> N \<longrightarrow>
        (\<exists>root s1. update_loop S H key val (drop lvl (get_path D key)) cur xs s = Inr (v, ns_setRoot S s1 root) \<and>
          grows H N s s1 \<and> rep H (after s1) (plug t' us) root))"
proof (induction n lvl key val t arbitrary: cur xs us rule: upd.induct)
  case (1 lvl key val t)
  then show ?case by simp
next
  case (2 n lvl key val)
  have "drop lvl (get_path D key) = bit key lvl # drop (Suc lvl) (get_path D key)"
    using 2(3) by (simp add: Cons_nth_drop_Suc [symmetric])
  then show ?case using holds_Empty [OF 2(1)] by simp
next
  case (3 n lvl key val k v)
  have p: "drop lvl (get_path D key) = bit key lvl # drop (Suc lvl) (get_path D key)"
    using 3(3) by (simp add: Cons_nth_drop_Suc [symmetric])
  have g: "ns_get S s cur = Some (Leaf k v)" using holds_Tip [OF 3(1)] .
  show ?case
  proof (cases "k = key")
    case False
    then show ?thesis using p g by simp
  next
    case True
    have "\<exists>root s1. update_loop S H key val (drop lvl (get_path D key)) cur xs s = Inr (v, ns_setRoot S s1 root) \<and>
          grows H N s s1 \<and> rep H (after s1) (plug (Tip key val) us) root" if n: "nodes H (plug (Tip key val) us) \<subseteq> N"
    proof -
      have "Leaf key val \<in> N" using n nodes_plug [of H "Tip key val" us] by auto
      then obtain h s0 where s0: "put_node S H (Leaf key val) s = Inr (h, s0)" "grows H N s s0"
          "rep H (after s0) (Tip key val) h"
        using put_tip [OF assms holds_tidy [OF 3(1)]] by blast
      obtain root s1 where "rebuild S H xs (h, s0) = Inr (root, s1)" "grows H N s0 s1"
          "rep H (after s1) (plug (Tip key val) us) root"
        using rebuild_refines [OF assms around_grows [OF 3(2) s0(2)] grows_tidy [OF s0(2)] s0(3) n] by blast
      then show ?thesis using s0(1) grows_trans [OF s0(2)] p g True by auto
    qed
    then show ?thesis using True by simp
  qed
next
  case (4 n lvl key val l r)
  have p: "drop lvl (get_path D key) = bit key lvl # drop (Suc lvl) (get_path D key)"
    using 4(5) by (simp add: Cons_nth_drop_Suc [symmetric])
  obtain a b where ab: "ns_get S s cur = Some (Middle a b)" "holds H N s l a" "holds H N s r b"
    using holds_Fork [OF 4(3)] .
  let ?go = "bit key lvl"
  have ar: "around H N s ((?go, if ?go then a else b) # xs) ((?go, if ?go then l else r) # us)"
    using 4(4) ab holds_after by (auto simp: around_def)
  have "case upd n (Suc lvl) key val (if ?go then r else l) of
      Inl e \<Rightarrow> update_loop S H key val (drop (Suc lvl) (get_path D key)) (if ?go then b else a)
        ((?go, if ?go then a else b) # xs) s = Inl e
    | Inr (v, t') \<Rightarrow> nodes H (plug t' ((?go, if ?go then l else r) # us)) \<subseteq> N \<longrightarrow>
        (\<exists>root s1. update_loop S H key val (drop (Suc lvl) (get_path D key)) (if ?go then b else a)
          ((?go, if ?go then a else b) # xs) s = Inr (v, ns_setRoot S s1 root) \<and>
          grows H N s s1 \<and> rep H (after s1) (plug t' ((?go, if ?go then l else r) # us)) root)"
    using 4(1) [OF _ _ ar] 4(2) [OF _ _ ar] ab 4(5) by (cases ?go) simp_all
  then show ?case using p ab(1) by (cases ?go) (simp_all add: fork_def split: sum.splits prod.splits)
qed

lemma smt_update_refines:
  assumes "sound_hash H N" "holds H N s t (ns_root S s)"
  shows "case upd D 0 key val t of
      Inl e \<Rightarrow> smt_update S H D key val s = Inl e
    | Inr (v, t') \<Rightarrow> nodes H t' \<subseteq> N \<longrightarrow> (\<exists>s'. smt_update S H D key val s = Inr (v, s') \<and>
        tidy H N (after s') \<and> after s \<subseteq>\<^sub>m after s' \<and> rep H (after s') t' (ns_root S s'))"
proof -
  note u = update_loop_refines [OF assms, where lvl = 0 and n = D and D = D and xs = "[]" and us = "[]" and
    key = key and val = val]
  show ?thesis
  proof (cases "upd D 0 key val t")
    case (Inl e)
    then show ?thesis using u by (simp add: smt_update_def around_def)
  next
    case (Inr y)
    obtain v t' where y: "y = (v, t')" by (cases y)
    have "\<exists>s'. smt_update S H D key val s = Inr (v, s') \<and> tidy H N (after s') \<and> after s \<subseteq>\<^sub>m after s' \<and>
      rep H (after s') t' (ns_root S s')" if n: "nodes H t' \<subseteq> N"
    proof -
      obtain root s1 where s1: "smt_update S H D key val s = Inr (v, ns_setRoot S s1 root)" "grows H N s s1"
          "rep H (after s1) t' root"
        using u Inr y n by (auto simp: smt_update_def around_def)
      have "after (ns_setRoot S s1 root) = after s1"
        using after_root tidy_zero grows_tidy [OF s1(2)] assms(1) by blast
      then show ?thesis using s1 by (simp add: grows_def root_root)
    qed
    then show ?thesis using Inr y by simp
  qed
qed

lemma proof_walk_refines:
  "holds H N s t cur \<Longrightarrow> lvl + n = D \<Longrightarrow>
    proof_walk S D key (drop lvl (get_path D key)) cur xs s =
      proof_of D key (xs @ fst (walk H n lvl key t), snd (walk H n lvl key t))"
proof (induction H n lvl key t arbitrary: cur xs rule: walk.induct)
  case (1 H lvl key t)
  then show ?case by (simp add: proof_of_def)
next
  case (2 H n lvl key)
  have "drop lvl (get_path D key) = bit key lvl # drop (Suc lvl) (get_path D key)"
    using 2(2) by (simp add: Cons_nth_drop_Suc [symmetric])
  then show ?case using holds_Empty [OF 2(1)] by (simp add: proof_of_def)
next
  case (3 H n lvl key k v)
  have "drop lvl (get_path D key) = bit key lvl # drop (Suc lvl) (get_path D key)"
    using 3(2) by (simp add: Cons_nth_drop_Suc [symmetric])
  then show ?case using holds_Tip [OF 3(1)] by (simp add: proof_of_def)
next
  case (4 H n lvl key l r)
  have p: "drop lvl (get_path D key) = bit key lvl # drop (Suc lvl) (get_path D key)"
    using 4(3) by (simp add: Cons_nth_drop_Suc [symmetric])
  obtain a b where ab: "ns_get S s cur = Some (Middle a b)" "holds H N s l a" "holds H N s r b"
    using holds_Fork [OF 4(2)] .
  have d: "digest H l = Some a" "digest H r = Some b"
    using ab(2,3) rep_digest holds_after by blast+
  show ?case
    using 4(1) [of "if bit key lvl then b else a"] ab 4(3) p d
    by (cases "bit key lvl") (simp_all split: prod.splits)
qed

lemma get_proof_refines:
  "holds H N s t (ns_root S s) \<Longrightarrow> get_proof S D key s = proof_of D key (walk H D 0 key t)"
  using proof_walk_refines [where lvl = 0 and n = D and D = D and xs = "[]"] by (simp add: get_proof_def)

end

section \<open>The two stores\<close>

interpretation mem: smt_store MemStore "\<lambda>s h. Option.bind (ms_map s h) decode"
  by unfold_locales (auto simp: MemStore_def fun_eq_iff)

text \<open>What the database holds after the batch has been written.\<close>

definition rocks_after :: "rocks_store \<Rightarrow> b256 \<Rightarrow> node option" where
  "rocks_after s h = Option.bind (write_db (rx_db s) (rx_batch s) (rx_cf s, prefix_key (rx_prefix s) h)) decode"

lemma write_db_snoc: "write_db db (batch @ [w]) = (write_db db batch)(fst w \<mapsto> snd w)"
  by (simp add: write_db_def)

lemma prefix_key_inj [simp]: "prefix_key p a = prefix_key p b \<longleftrightarrow> a = b"
  by (simp add: prefix_key_def)

interpretation rocks: smt_store RocksStore rocks_after
proof
  show "rocks_after s 0 = None \<Longrightarrow> rocks_after (ns_setRoot RocksStore s r) = rocks_after s" for s r
    by (auto simp: RocksStore_def rocks_after_def write_db_snoc fun_eq_iff decode_short)
qed (auto simp: RocksStore_def rocks_after_def write_db_snoc fun_eq_iff)

end
