(* ===== verification/SparseTreeMap.thy ===== *)
theory SparseTreeMap
  imports SparseTreeCorrect
begin

text \<open>
  The trees of the sparse Merkle tree as maps: what the insertion and the update do to the value
  found under each key, the heights, and from them that any run of the operations on a store
  answers as a map does. The depth of the tree limits which keys can live together (\<open>apart\<close>).
\<close>

section \<open>The map of a tree\<close>

fun find_leaf :: "nat \<Rightarrow> b256 \<Rightarrow> smt \<Rightarrow> b256 option" where
  "find_leaf lvl key Empty = None"
| "find_leaf lvl key (Tip k v) = (if k = key then Some v else None)"
| "find_leaf lvl key (Fork l r) = find_leaf (Suc lvl) key (if bit key lvl then r else l)"

fun keys :: "smt \<Rightarrow> b256 set" where
  "keys Empty = {}"
| "keys (Tip k v) = {k}"
| "keys (Fork l r) = keys l \<union> keys r"

fun height :: "smt \<Rightarrow> nat" where
  "height Empty = 0"
| "height (Tip k v) = 0"
| "height (Fork l r) = Suc (max (height l) (height r))"

text \<open>Each leaf lies on the path of its key.\<close>

fun placed :: "nat \<Rightarrow> smt \<Rightarrow> bool" where
  "placed lvl (Fork l r) \<longleftrightarrow> placed (Suc lvl) l \<and> placed (Suc lvl) r \<and>
     (\<forall>k \<in> keys l. \<not> bit k lvl) \<and> (\<forall>k \<in> keys r. bit k lvl)"
| "placed lvl t \<longleftrightarrow> True"

definition agree :: "nat \<Rightarrow> b256 \<Rightarrow> b256 \<Rightarrow> bool" where
  "agree n a b \<longleftrightarrow> (\<forall>i < n. bit a i = bit b i)"

text \<open>Two of the keys differ before the last level.\<close>

definition apart :: "nat \<Rightarrow> b256 set \<Rightarrow> bool" where
  "apart D K \<longleftrightarrow> (\<forall>a \<in> K. \<forall>b \<in> K. a \<noteq> b \<longrightarrow> \<not> agree (D - 1) a b)"

lemma agree_0 [simp]: "agree 0 a b"
  by (simp add: agree_def)

lemma agree_Suc: "agree (Suc n) a b \<longleftrightarrow> agree n a b \<and> bit a n = bit b n"
  by (auto simp: agree_def less_Suc_eq)

lemma agree_mono: "agree n a b \<Longrightarrow> m \<le> n \<Longrightarrow> agree m a b"
  by (simp add: agree_def)

lemma find_leaf_key: "find_leaf lvl key t \<noteq> None \<Longrightarrow> key \<in> keys t"
  by (induction lvl key t rule: find_leaf.induct) (auto split: if_splits)

lemma find_leaf_other: "key \<notin> keys t \<Longrightarrow> find_leaf lvl key t = None"
  using find_leaf_key by blast

lemma find_leaf_placed: "placed lvl t \<Longrightarrow> key \<in> keys t \<Longrightarrow> find_leaf lvl key t \<noteq> None"
  by (induction lvl key t rule: find_leaf.induct) auto

lemma keys_fork [simp]: "keys (fork c t u) = keys t \<union> keys u"
  by (auto simp: fork_def)

lemma height_fork [simp]: "height (fork c t u) = Suc (max (height t) (height u))"
  by (simp add: fork_def max.commute)

lemma placed_fork: "placed lvl (fork c t u) \<longleftrightarrow> placed (Suc lvl) t \<and> placed (Suc lvl) u \<and>
    (\<forall>k \<in> keys t. bit k lvl = c) \<and> (\<forall>k \<in> keys u. bit k lvl = (\<not> c))"
  by (auto simp: fork_def)

lemma find_leaf_fork: "find_leaf lvl key (fork c t u) = find_leaf (Suc lvl) key (if bit key lvl = c then t else u)"
  by (auto simp: fork_def)

section \<open>Insertion\<close>

lemma push_step: "push D lvl new old = Inr t \<Longrightarrow>
    (bit (fst new) lvl = bit (fst old) lvl \<and>
      (\<exists>u. push D (Suc lvl) new old = Inr u \<and> t = fork (bit (fst new) lvl) u Empty)) \<or>
    (bit (fst new) lvl \<noteq> bit (fst old) lvl \<and>
      t = fork (bit (fst new) lvl) (Tip (fst new) (snd new)) (Tip (fst old) (snd old)))"
  by (subst (asm) push.simps) (auto simp: sbind_def split: if_splits sum.splits)

lemma push_keys: "push D lvl new old = Inr t \<Longrightarrow> keys t = {fst new, fst old}"
proof (induction "D - lvl" arbitrary: lvl t)
  case 0
  then show ?case by (simp add: push.simps [of D])
next
  case (Suc n)
  have "n = D - Suc lvl" using Suc.hyps(2) by simp
  note IH = Suc.hyps(1) [OF this]
  show ?case using push_step [OF Suc.prems] by (elim disjE conjE exE) (auto simp add: IH)
qed

lemma push_placed: "push D lvl new old = Inr t \<Longrightarrow> placed lvl t"
proof (induction "D - lvl" arbitrary: lvl t)
  case 0
  then show ?case by (simp add: push.simps [of D])
next
  case (Suc n)
  have "n = D - Suc lvl" using Suc.hyps(2) by simp
  note IH = Suc.hyps(1) [OF this]
  show ?case using push_step [OF Suc.prems] by (elim disjE conjE exE) (simp_all add: IH placed_fork push_keys)
qed

lemma push_find:
  "push D lvl new old = Inr t \<Longrightarrow> find_leaf lvl j t =
    (if j = fst new then Some (snd new) else if j = fst old then Some (snd old) else None)"
proof (induction "D - lvl" arbitrary: lvl t)
  case 0
  then show ?case by (simp add: push.simps [of D])
next
  case (Suc n)
  have "n = D - Suc lvl" using Suc.hyps(2) by simp
  note IH = Suc.hyps(1) [OF this]
  show ?case using push_step [OF Suc.prems]
  proof (elim disjE conjE exE)
    fix u assume "bit (fst new) lvl = bit (fst old) lvl" "push D (Suc lvl) new old = Inr u"
      "t = fork (bit (fst new) lvl) u Empty"
    then show ?thesis using IH [of u] by (cases "j = fst new"; cases "j = fst old") (simp_all add: find_leaf_fork)
  qed (auto simp: find_leaf_fork)
qed

text \<open>Within the depth, two keys on one path are pushed down to where they differ.\<close>

lemma push_differ:
  assumes "agree d (fst new) (fst old)" "bit (fst new) d \<noteq> bit (fst old) d"
  shows "lvl \<le> d \<Longrightarrow> d < D \<Longrightarrow> \<exists>t. push D lvl new old = Inr t \<and> lvl + height t = Suc d"
proof (induction "d - lvl" arbitrary: lvl)
  case 0
  then show ?case using assms by (auto simp: push.simps [of D lvl])
next
  case (Suc n)
  have "n = d - Suc lvl" "Suc lvl \<le> d" using Suc.hyps(2) by simp_all
  then obtain t where t: "push D (Suc lvl) new old = Inr t" "Suc lvl + height t = Suc d"
    using Suc.hyps(1) [of "Suc lvl"] Suc.prems by blast
  have "bit (fst new) lvl = bit (fst old) lvl" using assms(1) Suc.hyps(2) by (simp add: agree_def)
  then show ?case using t Suc by (auto simp: push.simps [of D lvl])
qed

lemma differ_at:
  assumes "\<not> agree n a b"
  obtains d where "d < n" "agree d a b" "bit a d \<noteq> bit b d"
proof -
  let ?d = "LEAST i. bit a i \<noteq> bit b i"
  obtain i where i: "i < n" "bit a i \<noteq> bit b i" using assms by (auto simp: agree_def)
  have "bit a ?d \<noteq> bit b ?d" using i(2) by (rule LeastI)
  moreover have "?d < n" using Least_le [of "\<lambda>i. bit a i \<noteq> bit b i" i] i by simp
  moreover have "agree ?d a b" unfolding agree_def using not_less_Least by blast
  ultimately show ?thesis using that by blast
qed

lemma ins_ok:
  "ins D lvl (k, v) t = Inr t' \<Longrightarrow> placed lvl t \<Longrightarrow>
    placed lvl t' \<and> keys t' = insert k (keys t) \<and> find_leaf lvl j t' = (if j = k then Some v else find_leaf lvl j t)"
proof (induction D lvl "(k, v)" t arbitrary: t' rule: ins.induct)
  case (2 D lvl k' v')
  then show ?case using push_keys push_placed push_find [of D lvl "(k, v)" "(k', v')" t' j]
    by (fastforce split: if_splits)
next
  case (3 D lvl l r)
  have d: "\<not> D \<le> lvl" using 3(3) by auto
  show ?case
  proof (cases "bit k lvl")
    case True
    then obtain u where u: "ins D (Suc lvl) (k, v) r = Inr u" "t' = Fork l u"
      using 3(3) d by (auto simp: sbind_def split: sum.splits)
    show ?thesis using 3(1) [OF d _ u(1)] u(2) 3(4) True by auto
  next
    case False
    then obtain u where u: "ins D (Suc lvl) (k, v) l = Inr u" "t' = Fork u r"
      using 3(3) d by (auto simp: sbind_def split: sum.splits)
    show ?thesis using 3(2) [OF d _ u(1)] u(2) 3(4) False by auto
  qed
qed auto

lemma push_error: "push D lvl new old = Inl e \<Longrightarrow> e = SmtPanic"
proof (induction "D - lvl" arbitrary: lvl)
  case 0
  then show ?case by (simp add: push.simps [of D])
next
  case (Suc n)
  have "n = D - Suc lvl" using Suc.hyps(2) by simp
  then show ?case using Suc.hyps Suc.prems
    by (subst (asm) push.simps) (auto simp: sbind_def split: if_splits sum.splits)
qed

lemma ins_present:
  "ins D lvl (k, v) t = Inl AlreadyPresent \<Longrightarrow> find_leaf lvl k t \<noteq> None"
proof (induction D lvl "(k, v)" t rule: ins.induct)
  case (2 D lvl k' v')
  then show ?case using push_error [of D lvl "(k, v)" "(k', v')" AlreadyPresent] by (auto split: if_splits)
next
  case (3 D lvl l r)
  then show ?case by (cases "bit k lvl") (auto simp: sbind_def split: if_splits sum.splits)
qed auto

text \<open>With keys that are apart the insertion fails for a present key only, and the tree stays low.\<close>

lemma ins_total:
  assumes "apart D K" "k \<in> K"
  shows "keys t \<subseteq> K \<Longrightarrow> (\<forall>j \<in> keys t. agree lvl k j) \<Longrightarrow> placed lvl t \<Longrightarrow> lvl + height t < D \<Longrightarrow>
    (if find_leaf lvl k t \<noteq> None then ins D lvl (k, v) t = Inl AlreadyPresent
     else \<exists>t'. ins D lvl (k, v) t = Inr t' \<and> lvl + height t' < D)"
proof (induction t arbitrary: lvl)
  case (Tip k' v')
  show ?case
  proof (cases "k' = k")
    case False
    then have "\<not> agree (D - 1) k k'" using assms Tip by (auto simp: apart_def)
    then obtain d where d: "d < D - 1" "agree d k k'" "bit k d \<noteq> bit k' d" by (rule differ_at)
    have "lvl \<le> d" using d(3) Tip.prems(2) by (auto simp: agree_def not_le [symmetric])
    then obtain t where "push D lvl (k, v) (k', v') = Inr t" "lvl + height t = Suc d"
      using push_differ [of d "(k, v)" "(k', v')" lvl D] d \<open>lvl \<le> d\<close> by fastforce
    then show ?thesis using d(1) False by auto
  qed simp
next
  case (Fork l r)
  have "keys (if bit k lvl then r else l) \<subseteq> K" "placed (Suc lvl) (if bit k lvl then r else l)"
      "Suc lvl + height (if bit k lvl then r else l) < D" using Fork.prems by auto
  moreover have "\<forall>j \<in> keys (if bit k lvl then r else l). agree (Suc lvl) k j"
    using Fork.prems by (auto simp: agree_Suc)
  ultimately show ?case using Fork.IH [of "Suc lvl"] Fork.prems
    by (auto simp: max_def split: if_splits)
qed auto

section \<open>Update and proofs\<close>

lemma upd_map:
  "height t < n \<Longrightarrow> (case find_leaf lvl key t of
      None \<Rightarrow> upd n lvl key val t = Inl KeyNotFound
    | Some v \<Rightarrow> \<exists>t'. upd n lvl key val t = Inr (v, t') \<and> height t' = height t \<and> keys t' = keys t \<and>
        (placed lvl t \<longrightarrow> placed lvl t') \<and> (\<forall>j. find_leaf lvl j t' = (if j = key then Some val else find_leaf lvl j t)))"
proof (induction n lvl key val t rule: upd.induct)
  case (4 n lvl key val l r)
  show ?case
  proof (cases "bit key lvl")
    case True
    show ?thesis using 4(1) [OF True] 4(3) True
      by (cases "find_leaf (Suc lvl) key r") auto
  next
    case False
    show ?thesis using 4(2) [OF False] 4(3) False
      by (cases "find_leaf (Suc lvl) key l") auto
  qed
qed auto

lemma walk_map:
  "height t < n \<Longrightarrow> find_leaf lvl key t = (case snd (walk H n lvl key t) of
     None \<Rightarrow> None | Some (k, v) \<Rightarrow> if k = key then Some v else None)"
  by (induction H n lvl key t rule: walk.induct) (auto split: prod.splits)

lemma get_leaf_proof_of:
  "get_leaf (proof_of D key w) = (case snd w of None \<Rightarrow> None | Some (k, v) \<Rightarrow> if k = key then Some v else None)"
  by (simp add: proof_of_def get_leaf_def no_leaf_def Let_def split: option.splits prod.splits)

section \<open>Runs\<close>

datatype smt_op = Add b256 b256 | Update b256 b256 | AddOrUpdate b256 b256

fun op_key :: "smt_op \<Rightarrow> b256" where
  "op_key (Add k v) = k"
| "op_key (Update k v) = k"
| "op_key (AddOrUpdate k v) = k"

text \<open>An operation that fails leaves the store as it was; an update answers the old value.\<close>

type_synonym reply = "smt_error + b256 option"

fun smt_exec :: "'s node_store \<Rightarrow> poseidon \<Rightarrow> nat \<Rightarrow> smt_op \<Rightarrow> 's \<Rightarrow> reply \<times> 's" where
  "smt_exec S H D (Add k v) s = (case smt_add S H D k v s of Inl e \<Rightarrow> (Inl e, s) | Inr s' \<Rightarrow> (Inr None, s'))"
| "smt_exec S H D (Update k v) s = (case smt_update S H D k v s of Inl e \<Rightarrow> (Inl e, s) | Inr (old, s') \<Rightarrow> (Inr (Some old), s'))"
| "smt_exec S H D (AddOrUpdate k v) s = (case add_or_update S H D k v s of Inl e \<Rightarrow> (Inl e, s) | Inr s' \<Rightarrow> (Inr None, s'))"

fun tree_exec :: "nat \<Rightarrow> smt_op \<Rightarrow> smt \<Rightarrow> smt" where
  "tree_exec D (Add k v) t = (case ins D 0 (k, v) t of Inl e \<Rightarrow> t | Inr t' \<Rightarrow> t')"
| "tree_exec D (Update k v) t = (case upd D 0 k v t of Inl e \<Rightarrow> t | Inr (old, t') \<Rightarrow> t')"
| "tree_exec D (AddOrUpdate k v) t = (case ins D 0 (k, v) t of
     Inl e \<Rightarrow> (case upd D 0 k v t of Inl e \<Rightarrow> t | Inr (old, t') \<Rightarrow> t') | Inr t' \<Rightarrow> t')"

fun map_exec :: "smt_op \<Rightarrow> (b256 \<Rightarrow> b256 option) \<Rightarrow> reply \<times> (b256 \<Rightarrow> b256 option)" where
  "map_exec (Add k v) m = (case m k of None \<Rightarrow> (Inr None, m(k \<mapsto> v)) | Some old \<Rightarrow> (Inl AlreadyPresent, m))"
| "map_exec (Update k v) m = (case m k of None \<Rightarrow> (Inl KeyNotFound, m) | Some old \<Rightarrow> (Inr (Some old), m(k \<mapsto> v)))"
| "map_exec (AddOrUpdate k v) m = (Inr None, m(k \<mapsto> v))"

fun run_ops :: "('o \<Rightarrow> 's \<Rightarrow> 'r \<times> 's) \<Rightarrow> 'o list \<Rightarrow> 's \<Rightarrow> 'r list \<times> 's" where
  "run_ops f [] s = ([], s)"
| "run_ops f (x # xs) s = (case f x s of (r, s1) \<Rightarrow> case run_ops f xs s1 of (rs, s2) \<Rightarrow> (r # rs, s2))"

text \<open>The nodes of the trees a run goes through.\<close>

fun run_nodes :: "poseidon \<Rightarrow> nat \<Rightarrow> smt_op list \<Rightarrow> smt \<Rightarrow> node set" where
  "run_nodes H D [] t = nodes H t"
| "run_nodes H D (x # xs) t = nodes H t \<union> run_nodes H D xs (tree_exec D x t)"

lemma run_nodes_first: "nodes H t \<subseteq> run_nodes H D xs t"
  by (cases xs) auto

definition low :: "nat \<Rightarrow> b256 set \<Rightarrow> smt \<Rightarrow> bool" where
  "low D K t \<longleftrightarrow> placed 0 t \<and> keys t \<subseteq> K \<and> height t < D"

definition map_of_tree :: "smt \<Rightarrow> b256 \<Rightarrow> b256 option" where
  "map_of_tree t k = find_leaf 0 k t"

lemma low_Empty: "0 < D \<Longrightarrow> low D K Empty"
  by (simp add: low_def)

lemma low_ins:
  assumes "apart D K" "k \<in> K" "low D K t"
  shows "map_of_tree t k \<noteq> None \<Longrightarrow> ins D 0 (k, v) t = Inl AlreadyPresent"
    "map_of_tree t k = None \<Longrightarrow> \<exists>t'. ins D 0 (k, v) t = Inr t' \<and> low D K t' \<and> map_of_tree t' = (map_of_tree t)(k \<mapsto> v)"
proof -
  have tot: "if find_leaf 0 k t \<noteq> None then ins D 0 (k, v) t = Inl AlreadyPresent
     else \<exists>t'. ins D 0 (k, v) t = Inr t' \<and> 0 + height t' < D"
    using ins_total [OF assms(1,2), of t 0 v] assms(3) by (simp add: low_def)
  then show "map_of_tree t k \<noteq> None \<Longrightarrow> ins D 0 (k, v) t = Inl AlreadyPresent"
    by (simp add: map_of_tree_def split: if_splits)
  assume "map_of_tree t k = None"
  then obtain t' where t': "ins D 0 (k, v) t = Inr t'" "height t' < D" using tot by (auto simp: map_of_tree_def)
  then have "low D K t'" "map_of_tree t' = (map_of_tree t)(k \<mapsto> v)"
    using ins_ok [OF t'(1)] assms by (auto simp: low_def map_of_tree_def fun_eq_iff)
  then show "\<exists>t'. ins D 0 (k, v) t = Inr t' \<and> low D K t' \<and> map_of_tree t' = (map_of_tree t)(k \<mapsto> v)"
    using t'(1) by blast
qed

lemma low_upd:
  assumes "low D K t"
  shows "map_of_tree t k = None \<Longrightarrow> upd D 0 k v t = Inl KeyNotFound"
    "map_of_tree t k = Some old \<Longrightarrow> \<exists>t'. upd D 0 k v t = Inr (old, t') \<and> low D K t' \<and>
      map_of_tree t' = (map_of_tree t)(k \<mapsto> v)"
  using upd_map [of t D 0 k v] assms by (auto simp: low_def map_of_tree_def fun_eq_iff)

lemma tree_exec_map:
  assumes "apart D K" "op_key x \<in> K" "low D K t"
  shows "low D K (tree_exec D x t)" "map_of_tree (tree_exec D x t) = snd (map_exec x (map_of_tree t))"
proof -
  note up = low_upd [OF assms(3)]
  have "low D K (tree_exec D x t) \<and> map_of_tree (tree_exec D x t) = snd (map_exec x (map_of_tree t))"
  proof (cases x)
    case (Add k v)
    note add = low_ins [OF assms(1) _ assms(3), of k v]
    show ?thesis using add Add assms by (cases "map_of_tree t k") auto
  next
    case (Update k v)
    show ?thesis using up [where k = k and v = v] Update assms(3) by (cases "map_of_tree t k") auto
  next
    case (AddOrUpdate k v)
    note add = low_ins [OF assms(1) _ assms(3), of k v]
    show ?thesis
    proof (cases "map_of_tree t k")
      case (Some old)
      then show ?thesis using add(1) up(2) [where k = k and v = v] AddOrUpdate assms(2) by auto
    qed (use add AddOrUpdate assms(2) in auto)
  qed
  then show "low D K (tree_exec D x t)" "map_of_tree (tree_exec D x t) = snd (map_exec x (map_of_tree t))"
    by simp_all
qed

context smt_store
begin

definition stands :: "poseidon \<Rightarrow> node set \<Rightarrow> nat \<Rightarrow> b256 set \<Rightarrow> 's \<Rightarrow> smt \<Rightarrow> bool" where
  "stands H N D K s t \<longleftrightarrow> holds H N s t (ns_root S s) \<and> low D K t"

definition written :: "poseidon \<Rightarrow> node set \<Rightarrow> 's \<Rightarrow> smt \<Rightarrow> bool" where
  "written H N s t \<longleftrightarrow> tidy H N (after s) \<and> rep H (after s) t (ns_root S s)"

lemma written_same: "holds H N s t (ns_root S s) \<Longrightarrow> written H N s t"
  using holds_after holds_tidy by (simp add: written_def)

lemma stands_add:
  assumes "sound_hash H N" "apart D K" "k \<in> K" "stands H N D K s t" "nodes H (tree_exec D (Add k v) t) \<subseteq> N"
  shows "map_of_tree t k \<noteq> None \<Longrightarrow> smt_add S H D k v s = Inl AlreadyPresent"
    "map_of_tree t k = None \<Longrightarrow> \<exists>s'. smt_add S H D k v s = Inr s' \<and> written H N s' (tree_exec D (Add k v) t)"
proof -
  have st: "holds H N s t (ns_root S s)" "low D K t" using assms(4) by (simp_all add: stands_def)
  note r = smt_add_refines [OF assms(1) st(1), of D k v]
  note i = low_ins [OF assms(2,3) st(2), of v]
  show "map_of_tree t k \<noteq> None \<Longrightarrow> smt_add S H D k v s = Inl AlreadyPresent" using i(1) r by simp
  assume n: "map_of_tree t k = None"
  obtain t' where "ins D 0 (k, v) t = Inr t'" using i(2) [OF n] by blast
  then show "\<exists>s'. smt_add S H D k v s = Inr s' \<and> written H N s' (tree_exec D (Add k v) t)"
    using r assms(5) by (auto simp: written_def)
qed

lemma stands_update:
  assumes "sound_hash H N" "stands H N D K s t" "nodes H (tree_exec D (Update k v) t) \<subseteq> N"
  shows "map_of_tree t k = None \<Longrightarrow> smt_update S H D k v s = Inl KeyNotFound"
    "map_of_tree t k = Some old \<Longrightarrow>
      \<exists>s'. smt_update S H D k v s = Inr (old, s') \<and> written H N s' (tree_exec D (Update k v) t)"
proof -
  have st: "holds H N s t (ns_root S s)" "low D K t" using assms(2) by (simp_all add: stands_def)
  note r = smt_update_refines [OF assms(1) st(1), of D k v]
  note u = low_upd [OF st(2), where k = k and v = v]
  show "map_of_tree t k = None \<Longrightarrow> smt_update S H D k v s = Inl KeyNotFound" using u(1) r by simp
  assume n: "map_of_tree t k = Some old"
  obtain t' where "upd D 0 k v t = Inr (old, t')" using u(2) [OF n] by blast
  then show "\<exists>s'. smt_update S H D k v s = Inr (old, s') \<and> written H N s' (tree_exec D (Update k v) t)"
    using r assms(3) by (auto simp: written_def)
qed

lemma exec_refines:
  assumes "sound_hash H N" "apart D K" "op_key x \<in> K" "stands H N D K s t" "nodes H (tree_exec D x t) \<subseteq> N"
  shows "\<exists>s'. smt_exec S H D x s = (fst (map_exec x (map_of_tree t)), s') \<and> written H N s' (tree_exec D x t)"
proof -
  have st: "holds H N s t (ns_root S s)" "low D K t" using assms(4) by (simp_all add: stands_def)
  note same = written_same [OF st(1)]
  show ?thesis
  proof (cases x)
    case (Add k v)
    then show ?thesis
      using stands_add [OF assms(1,2) _ assms(4), of k v] low_ins [OF assms(2) _ st(2), of k v] assms(3,5) same
      by (cases "map_of_tree t k") auto
  next
    case (Update k v)
    then show ?thesis
      using stands_update [OF assms(1,4), of k v] low_upd [OF st(2), where k = k and v = v] assms(5) same
      by (cases "map_of_tree t k") fastforce+
  next
    case (AddOrUpdate k v)
    show ?thesis
    proof (cases "map_of_tree t k")
      case None
      then show ?thesis
        using stands_add [OF assms(1,2) _ assms(4), of k v] low_ins [OF assms(2) _ st(2), of k v] assms(3,5) AddOrUpdate
        by (auto simp: add_or_update_def)
    next
      case (Some old)
      have a: "smt_add S H D k v s = Inl AlreadyPresent" "ins D 0 (k, v) t = Inl AlreadyPresent"
        using smt_add_refines [OF assms(1) st(1), of D k v] low_ins [OF assms(2) _ st(2), of k v] assms(3) Some AddOrUpdate
        by simp_all
      then have "tree_exec D x t = tree_exec D (Update k v) t" using AddOrUpdate by simp
      then show ?thesis
        using stands_update(2) [OF assms(1,4), of k v old] assms(5) Some AddOrUpdate a
        by (auto simp: add_or_update_def)
    qed
  qed
qed

lemma get_leaf_stands: "stands H N D K s t \<Longrightarrow> get_leaf (get_proof S D k s) = map_of_tree t k"
  using get_proof_refines [of H N s t D k] walk_map [of t D 0 k H]
  by (simp add: stands_def low_def get_leaf_proof_of map_of_tree_def)

end

section \<open>The tree in memory\<close>

lemma MemStore_reads [simp]: "ns_get MemStore = (\<lambda>s k. Option.bind (ms_map s k) decode)" "ns_root MemStore = ms_root"
  by (simp_all add: MemStore_def)

lemma mem_stands:
  assumes "mem.written H N s t" "sound_hash H N" "low D K t"
  shows "mem.stands H N D K s t"
  using assms tidy_zero
  by (auto simp: mem.stands_def mem.holds_def mem.written_def)

lemma mem_run:
  assumes "sound_hash H N" "apart D K"
  shows "mem.stands H N D K s t \<Longrightarrow> set (map op_key xs) \<subseteq> K \<Longrightarrow> run_nodes H D xs t \<subseteq> N \<Longrightarrow>
    \<exists>s' t'. run_ops (smt_exec MemStore H D) xs s = (fst (run_ops map_exec xs (map_of_tree t)), s') \<and>
      mem.stands H N D K s' t' \<and> map_of_tree t' = snd (run_ops map_exec xs (map_of_tree t))"
proof (induction xs arbitrary: s t)
  case Nil
  then show ?case by auto
next
  case (Cons x xs)
  let ?t = "tree_exec D x t"
  have k: "op_key x \<in> K" and n: "nodes H ?t \<subseteq> N"
    using Cons.prems run_nodes_first [of H ?t D xs] by auto
  have l: "low D K t" using Cons.prems(1) by (simp add: mem.stands_def)
  obtain s1 where s1: "smt_exec MemStore H D x s = (fst (map_exec x (map_of_tree t)), s1)" "mem.written H N s1 ?t"
    using mem.exec_refines [OF assms k Cons.prems(1) n] by blast
  have "mem.stands H N D K s1 ?t" using mem_stands [OF s1(2) assms(1)] tree_exec_map [OF assms(2) k l] by blast
  from Cons.IH [OF this] obtain s' t' where
    "run_ops (smt_exec MemStore H D) xs s1 = (fst (run_ops map_exec xs (map_of_tree ?t)), s')"
    "mem.stands H N D K s' t'" "map_of_tree t' = snd (run_ops map_exec xs (map_of_tree ?t))"
    using Cons.prems by auto
  then show ?case using s1(1) tree_exec_map(2) [OF assms(2) k l] by (auto split: prod.splits)
qed

lemma new_mem_stands: "0 < D \<Longrightarrow> mem.stands H N D K new_mem Empty"
  by (simp add: mem.stands_def mem.holds_def new_mem_def tidy_def low_Empty)

section \<open>A sample run\<close>

definition sample_hash :: poseidon where
  "sample_hash xs = Some (foldl (\<lambda>a x. 100 * a + x) 1 xs)"

definition sample_ops :: "smt_op list" where
  "sample_ops = [Add 1 10, Add 2 20, Add 1 12, Update 1 11, Update 3 30]"

lemma upd_numeral:
  "upd (numeral n) lvl key val (Tip k v) = (if k \<noteq> key then Inl KeyNotFound else Inr (v, Tip key val))"
  "upd (numeral n) lvl key val (Fork l r) =
     (if bit key lvl then sbind (upd (pred_numeral n) (Suc lvl) key val r) (\<lambda>(v, t). Inr (v, Fork l t))
      else sbind (upd (pred_numeral n) (Suc lvl) key val l) (\<lambda>(v, t). Inr (v, Fork t r)))"
  by (simp_all add: numeral_eq_Suc)

lemma agree_take_bit: "agree n a b \<longleftrightarrow> take_bit n a = take_bit n b"
proof
  assume "agree n a b"
  then show "take_bit n a = take_bit n b" by (auto simp: agree_def bit_eq_iff bit_take_bit_iff)
next
  assume e: "take_bit n a = take_bit n b"
  have "bit a i = bit b i" if "i < n" for i
    using arg_cong [OF e, of "\<lambda>w. bit w i"] that by (simp add: bit_take_bit_iff)
  then show "agree n a b" by (simp add: agree_def)
qed

lemma sound_hash_list:
  assumes "map (node_key H) ns = map Some hs" "distinct (0 # hs)"
  shows "sound_hash H (set ns)"
proof -
  have "distinct (map (node_key H) ns)" using assms by (simp add: distinct_map)
  then have "inj_on (node_key H) (set ns)" by (simp add: distinct_map)
  moreover have "\<exists>h. node_key H n = Some h \<and> h \<noteq> 0" if "n \<in> set ns" for n
  proof -
    have "node_key H n \<in> set (map Some hs)" using that assms(1) by (metis image_eqI set_map)
    then show ?thesis using assms(2) by auto
  qed
  ultimately show ?thesis by (simp add: sound_hash_def)
qed

lemma sound_hash_sub: "sound_hash H N \<Longrightarrow> M \<subseteq> N \<Longrightarrow> sound_hash H M"
  by (auto simp: sound_hash_def intro: inj_on_subset)

lemma sample_steps:
  "tree_exec 8 (Add 1 10) Empty = Tip 1 10"
  "tree_exec 8 (Add 2 20) (Tip 1 10) = Fork (Tip 2 20) (Tip 1 10)"
  "tree_exec 8 (Add 1 12) (Fork (Tip 2 20) (Tip 1 10)) = Fork (Tip 2 20) (Tip 1 10)"
  "tree_exec 8 (Update 1 11) (Fork (Tip 2 20) (Tip 1 10)) = Fork (Tip 2 20) (Tip 1 11)"
  "tree_exec 8 (Update 3 30) (Fork (Tip 2 20) (Tip 1 11)) = Fork (Tip 2 20) (Tip 1 11)"
  by (simp_all add: push.simps fork_def upd_numeral)

lemma sample_nodes: "sound_hash sample_hash (run_nodes sample_hash 8 sample_ops Empty)"
proof (rule sound_hash_sub)
  show "sound_hash sample_hash (set [Leaf 1 10, Leaf 2 20, Leaf 1 11, Middle 1022001 1011001, Middle 1022001 1011101])"
    by (rule sound_hash_list [where hs = "[1011001, 1022001, 1011101, 103221101, 103221201]"])
      (simp_all add: node_key_def leaf_key_def mid_key_def sample_hash_def)
  show "run_nodes sample_hash 8 sample_ops Empty \<subseteq> set [Leaf 1 10, Leaf 2 20, Leaf 1 11, Middle 1022001 1011001, Middle 1022001 1011101]"
  proof -
    have d: "digest sample_hash (Tip 2 20) = Some 1022001" "digest sample_hash (Tip 1 10) = Some 1011001" "digest sample_hash (Tip 1 11) = Some 1011101"
      by (simp_all add: leaf_key_def sample_hash_def)
    show ?thesis
      unfolding sample_ops_def run_nodes.simps sample_steps nodes.simps d option.sel list.set by blast
  qed
qed

lemma sample_apart: "apart 8 (op_key ` set sample_ops)"
  by (simp add: apart_def agree_take_bit sample_ops_def)

section \<open>The tree is a map\<close>

text \<open>
  C17: The sparse Merkle tree in memory is a map. For any run of insertions, updates and
  insertions-or-updates on a new tree, every operation answers as on a map (an insertion of a key
  that is present and an update of one that is not are errors that change nothing, an update answers
  the old value), and afterwards the proof that the tree gives for a key, any key, carries its value
  in the map. This is for runs whose keys differ in their first \<open>D - 1\<close> bits (a leaf below that level
  is lost: \<open>SparseTreeProps\<close> shows a run that does not answer as a map) and whose nodes do not
  collide under Poseidon.
\<close>

theorem smt_is_a_map:
  assumes "0 < D" "apart D (op_key ` set xs)" "sound_hash H (run_nodes H D xs Empty)"
    and "run_ops (smt_exec MemStore H D) xs new_mem = (replies, s)"
  shows "(replies, \<lambda>k. get_leaf (get_proof MemStore D k s)) = run_ops map_exec xs Map.empty"
proof -
  have e: "map_of_tree Empty = Map.empty" by (simp add: map_of_tree_def fun_eq_iff)
  from mem_run [OF assms(3,2) new_mem_stands [OF assms(1)], of xs] e obtain t' where
    "mem.stands H (run_nodes H D xs Empty) D (op_key ` set xs) s t'"
    "replies = fst (run_ops map_exec xs Map.empty)" "map_of_tree t' = snd (run_ops map_exec xs Map.empty)"
    using assms(4) by auto
  then show ?thesis using mem.get_leaf_stands by (simp add: prod_eq_iff fun_eq_iff)
qed

lemma smt_is_a_map_witness:
  "\<exists>s. run_ops (smt_exec MemStore sample_hash 8) sample_ops new_mem =
     ([Inr None, Inr None, Inl AlreadyPresent, Inr (Some 10), Inl KeyNotFound], s) \<and>
   get_leaf (get_proof MemStore 8 1 s) = Some 11 \<and> get_leaf (get_proof MemStore 8 3 s) = None"
proof -
  obtain replies s where r: "run_ops (smt_exec MemStore sample_hash 8) sample_ops new_mem = (replies, s)"
    by (cases "run_ops (smt_exec MemStore sample_hash 8) sample_ops new_mem")
  have "(replies, \<lambda>k. get_leaf (get_proof MemStore 8 k s)) = run_ops map_exec sample_ops Map.empty"
    using smt_is_a_map [OF _ sample_apart sample_nodes r] by simp
  then have m: "(replies, \<lambda>k. get_leaf (get_proof MemStore 8 k s)) =
      ([Inr None, Inr None, Inl AlreadyPresent, Inr (Some 10), Inl KeyNotFound], [1 \<mapsto> 11, 2 \<mapsto> 20])"
    by (simp add: sample_ops_def fun_upd_twist)
  have "get_leaf (get_proof MemStore 8 1 s) = Some 11" "get_leaf (get_proof MemStore 8 3 s) = None"
    using fun_cong [OF arg_cong [OF m, of snd], of 1] fun_cong [OF arg_cong [OF m, of snd], of 3] by simp_all
  then show ?thesis using r m by simp
qed

end
