(* ===== verification/SparseTreeProps.thy ===== *)
theory SparseTreeProps
  imports SparseTreeMap
begin

text \<open>
  What the proofs of the sparse Merkle tree are worth to a verifier, who hashes from the leaf back
  up to the root, and what becomes of keys that differ in the last level only.
\<close>

section \<open>Trees without gaps\<close>

text \<open>A lone leaf hangs from the root or next to something.\<close>

fun is_fork :: "smt \<Rightarrow> bool" where
  "is_fork (Fork l r) = True"
| "is_fork t = False"

fun dense :: "smt \<Rightarrow> bool" where
  "dense (Fork l r) \<longleftrightarrow> dense l \<and> dense r \<and> (l = Empty \<longrightarrow> is_fork r) \<and> (r = Empty \<longrightarrow> is_fork l)"
| "dense t \<longleftrightarrow> True"

lemma push_dense: "push D lvl new old = Inr t \<Longrightarrow> dense t \<and> is_fork t"
proof (induction "D - lvl" arbitrary: lvl t)
  case 0
  then show ?case by (simp add: push.simps [of D])
next
  case (Suc n)
  have "n = D - Suc lvl" using Suc.hyps(2) by simp
  note IH = Suc.hyps(1) [OF this]
  show ?case using push_step [OF Suc.prems] by (elim disjE conjE exE) (auto simp: fork_def dest: IH)
qed

lemma ins_dense: "ins D lvl new t = Inr t' \<Longrightarrow> dense t \<Longrightarrow> dense t' \<and> (is_fork t \<longrightarrow> is_fork t') \<and> t' \<noteq> Empty"
proof (induction D lvl new t arbitrary: t' rule: ins.induct)
  case (2 D lvl new k v)
  then show ?case using push_dense by (fastforce split: if_splits)
next
  case (3 D lvl new l r)
  have d: "\<not> D \<le> lvl" using 3(3) by auto
  show ?case
  proof (cases "bit (fst new) lvl")
    case True
    then obtain u where u: "ins D (Suc lvl) new r = Inr u" "t' = Fork l u"
      using 3(3) d by (auto simp: sbind_def split: sum.splits)
    show ?thesis using 3(1) [OF d True u(1)] u(2) 3(4) by auto
  next
    case False
    then obtain u where u: "ins D (Suc lvl) new l = Inr u" "t' = Fork u r"
      using 3(3) d by (auto simp: sbind_def split: sum.splits)
    show ?thesis using 3(2) [OF d False u(1)] u(2) 3(4) by auto
  qed
qed auto

lemma upd_dense:
  "upd n lvl key val t = Inr (v, t') \<Longrightarrow> dense t \<Longrightarrow> dense t' \<and> is_fork t' = is_fork t \<and> t' \<noteq> Empty"
proof (induction n lvl key val t arbitrary: t' rule: upd.induct)
  case (4 n lvl key val l r)
  show ?case
  proof (cases "bit key lvl")
    case True
    then obtain u where u: "upd n (Suc lvl) key val r = Inr (v, u)" "t' = Fork l u"
      using 4(3) by (auto simp: sbind_def split: sum.splits)
    show ?thesis using 4(1) [OF True u(1)] u(2) 4(4) by auto
  next
    case False
    then obtain u where u: "upd n (Suc lvl) key val l = Inr (v, u)" "t' = Fork u r"
      using 4(3) by (auto simp: sbind_def split: sum.splits)
    show ?thesis using 4(2) [OF False u(1)] u(2) 4(4) by auto
  qed
qed (auto split: if_splits)

lemma tree_exec_dense: "dense t \<Longrightarrow> dense (tree_exec D x t)"
  by (cases x) (auto simp: ins_dense upd_dense split: sum.splits prod.splits)

section \<open>Climbing back to the root\<close>

fun climb :: "poseidon \<Rightarrow> nat \<Rightarrow> b256 \<Rightarrow> b256 list \<Rightarrow> b256 \<Rightarrow> b256 option" where
  "climb H lvl key [] h = Some h"
| "climb H lvl key (x # xs) h = Option.bind (climb H (Suc lvl) key xs h) (\<lambda>c. node_key H (side (bit key lvl) c x))"

text \<open>The siblings above the leaf are those up to the last that is not zero.\<close>

definition proof_root :: "poseidon \<Rightarrow> b256 \<Rightarrow> circom_proof \<Rightarrow> b256 option" where
  "proof_root H key p = Option.bind
     (if zp_isOld0 p then Some 0 else leaf_key H (zp_oldKey p) (zp_oldValue p))
     (climb H 0 key (rev (dropWhile (\<lambda>x. x = 0) (rev (zp_siblings p)))))"

definition leaf_hash :: "poseidon \<Rightarrow> (b256 \<times> b256) option \<Rightarrow> b256 option" where
  "leaf_hash H x = (case x of None \<Rightarrow> Some 0 | Some (k, v) \<Rightarrow> leaf_key H k v)"

lemma digest_sound:
  "sound_hash H N \<Longrightarrow> nodes H t \<subseteq> N \<Longrightarrow> \<exists>h. digest H t = Some h \<and> (h = 0 \<longleftrightarrow> t = Empty)"
proof (induction t)
  case (Tip k v)
  then show ?case by (auto simp: sound_hash_def node_key_def)
next
  case (Fork l r)
  then obtain a b where "digest H l = Some a" "digest H r = Some b" by auto
  moreover from this have "Middle a b \<in> N" using Fork.prems(2) by simp
  ultimately show ?case using Fork.prems(1) by (fastforce simp: sound_hash_def node_key_def)
qed simp

lemma climb_walk:
  "sound_hash H N \<Longrightarrow> nodes H t \<subseteq> N \<Longrightarrow> height t < n \<Longrightarrow>
    Option.bind (leaf_hash H (snd (walk H n lvl key t))) (climb H lvl key (fst (walk H n lvl key t))) = digest H t"
proof (induction H n lvl key t rule: walk.induct)
  case (3 H n lvl key k v)
  then show ?case by (cases "leaf_key H k v") (simp_all add: leaf_hash_def)
next
  case (4 H n lvl key l r)
  let ?go = "bit key lvl"
  let ?w = "walk H n (Suc lvl) key (if ?go then r else l)"
  obtain a b where ab: "digest H l = Some a" "digest H r = Some b"
    using digest_sound [OF 4(2), of l] digest_sound [OF 4(2), of r] 4(3) by auto
  have "Option.bind (leaf_hash H (snd ?w)) (climb H (Suc lvl) key (fst ?w)) = digest H (if ?go then r else l)"
    using 4 by auto
  then show ?case using ab
    by (cases "leaf_hash H (snd ?w)") (auto simp: side_def node_key_def split: prod.splits)
qed (simp_all add: leaf_hash_def)

lemma walk_last:
  "sound_hash H N \<Longrightarrow> nodes H t \<subseteq> N \<Longrightarrow> height t < n \<Longrightarrow> dense t \<Longrightarrow>
    fst (walk H n lvl key t) = [] \<or> last (fst (walk H n lvl key t)) \<noteq> 0"
proof (induction H n lvl key t rule: walk.induct)
  case (4 H n lvl key l r)
  let ?c = "if bit key lvl then r else l"
  let ?u = "if bit key lvl then l else r"
  let ?w = "walk H n (Suc lvl) key ?c"
  have IH: "fst ?w = [] \<or> last (fst ?w) \<noteq> 0" using 4 by auto
  have "the (digest H ?u) \<noteq> 0" if e: "fst ?w = []"
  proof -
    have "\<not> is_fork ?c"
    proof
      assume "is_fork ?c"
      then obtain x y where "?c = Fork x y" by (cases ?c) auto
      moreover obtain m where "n = Suc m" using 4(4) by (cases n) auto
      ultimately show False using e by (auto split: prod.splits)
    qed
    then have "?u \<noteq> Empty" using 4(5) by (auto split: if_splits)
    moreover have "nodes H ?u \<subseteq> N" using 4(3) by auto
    ultimately show ?thesis using digest_sound [OF 4(2), of ?u] by auto
  qed
  then show ?case using IH by (auto split: prod.splits)
qed simp_all

lemma strip_zeros: "xs = [] \<or> last xs \<noteq> 0 \<Longrightarrow>
    rev (dropWhile (\<lambda>x. x = 0) (rev (xs @ replicate n 0))) = (xs :: b256 list)"
proof -
  assume "xs = [] \<or> last xs \<noteq> 0"
  then have "dropWhile (\<lambda>x. x = 0) (rev xs) = rev xs" by (cases "rev xs") (auto simp: last_rev [symmetric] dest: arg_cong [where f = rev])
  then show ?thesis using dropWhile_append2 [of "replicate n 0" "\<lambda>x. x = 0" "rev xs"] by simp
qed

lemma walk_keys: "snd (walk H n lvl key t) = Some (k, v) \<Longrightarrow> k \<in> keys t"
  by (induction H n lvl key t rule: walk.induct) (auto split: prod.splits if_splits)

lemma length_walk: "length (fst (walk H n lvl key t)) \<le> n"
  by (induction H n lvl key t rule: walk.induct) (auto split: prod.splits)

lemma mem_run_dense:
  assumes "sound_hash H N" "apart D K"
  shows "mem.stands H N D K s t \<Longrightarrow> dense t \<Longrightarrow> nodes H t \<subseteq> N \<Longrightarrow> set (map op_key xs) \<subseteq> K \<Longrightarrow> run_nodes H D xs t \<subseteq> N \<Longrightarrow>
    \<exists>t'. mem.stands H N D K (snd (run_ops (smt_exec MemStore H D) xs s)) t' \<and> dense t' \<and> nodes H t' \<subseteq> N"
proof (induction xs arbitrary: s t)
  case Nil
  then show ?case by auto
next
  case (Cons x xs)
  let ?t = "tree_exec D x t"
  have k: "op_key x \<in> K" and n: "nodes H ?t \<subseteq> N"
    using Cons.prems run_nodes_first [of H ?t D xs] by auto
  have l: "low D K t" using Cons.prems(1) by (simp add: mem.stands_def)
  obtain s1 where s1: "smt_exec MemStore H D x s = (fst (map_exec x (map_of_tree t)), s1)" "mem.written H N s1 ?t"
    using mem.exec_refines [OF assms k Cons.prems(1) n] by blast
  have "mem.stands H N D K s1 ?t" using mem_stands [OF s1(2) assms(1)] tree_exec_map [OF assms(2) k l] by blast
  from Cons.IH [OF this tree_exec_dense [OF Cons.prems(2)] n] show ?case
    using Cons.prems s1(1) by (auto split: prod.splits)
qed

text \<open>
  C19: The proofs of the sparse Merkle tree convince a verifier. After any run of operations whose
  keys differ in their first \<open>D - 1\<close> bits and are not zero, and whose nodes do not collide under
  Poseidon, the proof for any key has \<open>D\<close> siblings, and hashing from its leaf, or from zero when it
  names none, along the path of the key through the siblings up to the last that is not zero gives
  the root of the tree. A leaf it names has the key that was asked for exactly when it claims
  membership. (The conditions are needed: a proof cannot tell a leaf with the key zero from an empty
  place, and a key that agrees with another in \<open>D - 1\<close> bits is reported absent.)
\<close>

theorem smt_proof_is_sound:
  assumes "0 < D" "apart D (op_key ` set xs)" "0 \<notin> op_key ` set xs" "sound_hash H (run_nodes H D xs Empty)"
    and "run_ops (smt_exec MemStore H D) xs new_mem = (replies, s)" "get_proof MemStore D key s = p"
  shows "length (zp_siblings p) = D \<and> proof_root H key p = Some (ms_root s) \<and>
    (if zp_isOld0 p then \<not> zp_membership p \<and> zp_oldKey p = 0 \<and> zp_oldValue p = 0
     else zp_membership p = (zp_oldKey p = key))"
proof -
  let ?N = "run_nodes H D xs Empty"
  obtain t where t: "mem.stands H ?N D (op_key ` set xs) s t" "dense t" "nodes H t \<subseteq> ?N"
    using mem_run_dense [OF assms(4,2) new_mem_stands [OF assms(1)], of xs] assms(5) by auto
  then have h: "mem.holds H ?N s t (ms_root s)" "low D (op_key ` set xs) t" by (simp_all add: mem.stands_def)
  let ?w = "walk H D 0 key t"
  have p: "p = proof_of D key ?w" using mem.get_proof_refines [of H ?N s t D key] h(1) assms(6) by simp
  have ht: "height t < D" using h(2) by (simp add: low_def)
  have z: "k \<noteq> 0" if "snd ?w = Some (k, v)" for k v
    using walk_keys [OF that] h(2) assms(3) by (auto simp: low_def)
  have d: "digest H t = Some (ms_root s)" using rep_digest mem.holds_after [OF h(1)] by blast
  have c: "Option.bind (leaf_hash H (snd ?w)) (climb H 0 key (fst ?w)) = digest H t"
    using climb_walk [OF assms(4) t(3) ht] .
  have l: "fst ?w = [] \<or> last (fst ?w) \<noteq> 0" using walk_last [OF assms(4) t(3) ht t(2)] .
  have "proof_root H key p = Some (ms_root s)"
    using c d z strip_zeros [OF l]
    by (auto simp: p proof_of_def no_leaf_def Let_def proof_root_def leaf_hash_def split: option.splits)
  then show ?thesis
    using length_walk [of H D 0 key t] z
    by (auto simp: p proof_of_def no_leaf_def Let_def split: option.splits)
qed

lemma smt_proof_is_sound_witness:
  "\<exists>s. proof_root sample_hash 3 (get_proof MemStore 8 3 s) = Some (ms_root s) \<and>
    s = snd (run_ops (smt_exec MemStore sample_hash 8) sample_ops new_mem)"
proof -
  obtain replies s where r: "run_ops (smt_exec MemStore sample_hash 8) sample_ops new_mem = (replies, s)"
    by (cases "run_ops (smt_exec MemStore sample_hash 8) sample_ops new_mem")
  have "0 \<notin> op_key ` set sample_ops" by (simp add: sample_ops_def)
  from smt_proof_is_sound [OF _ sample_apart this sample_nodes r refl] r show ?thesis by simp
qed

section \<open>Leaves at the last level\<close>

lemma push_too_deep:
  assumes "agree d (fst new) (fst old)" "bit (fst new) d \<noteq> bit (fst old) d" "key = fst new \<or> key = fst old"
  shows "lvl \<le> d \<Longrightarrow> push (Suc d) lvl new old = Inr t \<Longrightarrow> snd (walk H (Suc d - lvl) lvl key t) = None \<and>
    upd (Suc d - lvl) lvl key v t = Inl KeyNotFound \<and> ins (Suc d) lvl (key, v) t = Inl AlreadyPresent"
proof (induction "d - lvl" arbitrary: lvl t)
  case 0
  then have "t = fork (bit (fst new) lvl) (Tip (fst new) (snd new)) (Tip (fst old) (snd old))" "lvl = d"
    using push_step [OF 0(3)] assms(2) by auto
  then show ?case using assms by (auto simp: fork_def)
next
  case (Suc n)
  have b: "bit (fst new) lvl = bit (fst old) lvl" using assms(1) Suc.hyps(2) by (simp add: agree_def)
  then obtain u where u: "push (Suc d) (Suc lvl) new old = Inr u" "t = fork (bit (fst new) lvl) u Empty"
    using push_step [OF Suc.prems(2)] by auto
  have "n = d - Suc lvl" "Suc lvl \<le> d" using Suc.hyps(2) by simp_all
  note IH = Suc.hyps(1) [OF this u(1)]
  have "Suc d - lvl = Suc (Suc d - Suc lvl)" using Suc.hyps(2) by simp
  then show ?case using IH u(2) b assms(3) Suc.hyps(2) by (auto simp: fork_def split: prod.splits)
qed

text \<open>
  Two keys that first differ in their last bit are both lost. When they are inserted into a new
  tree, both insertions succeed; but then the proof of either says that it is absent, an insertion
  says that it is present, and an update, or an insertion-or-update, that it was not found.
\<close>

theorem deep_leaf_is_lost:
  assumes "0 < D" "agree (D - 1) a b" "bit a (D - 1) \<noteq> bit b (D - 1)"
    and "sound_hash H (run_nodes H D [Add a x, Add b y] Empty)"
    and "run_ops (smt_exec MemStore H D) [Add a x, Add b y] new_mem = (replies, s)" "k = a \<or> k = b"
  shows "replies = [Inr None, Inr None] \<and> get_leaf (get_proof MemStore D k s) = None \<and>
    smt_add MemStore H D k z s = Inl AlreadyPresent \<and> smt_update MemStore H D k z s = Inl KeyNotFound \<and>
    add_or_update MemStore H D k z s = Inl KeyNotFound"
proof -
  let ?N = "run_nodes H D [Add a x, Add b y] Empty"
  obtain d where d: "D = Suc d" using assms(1) by (cases D) auto
  have ab: "agree d (fst (b, y)) (fst (a, x))" "bit (fst (b, y)) d \<noteq> bit (fst (a, x)) d" "k = fst (b, y) \<or> k = fst (a, x)"
    using assms(2,3,6) d by (auto simp: agree_def)
  obtain t where t: "push D 0 (b, y) (a, x) = Inr t" using push_differ [OF ab(1,2), of 0 D] d by auto
  note lost = push_too_deep [OF ab, of 0 t] 
  have "b \<noteq> a" using assms(3) by blast
  then have N: "nodes H (Tip a x) \<subseteq> ?N" "nodes H t \<subseteq> ?N" using t by auto
  have e: "mem.holds H ?N new_mem Empty (ms_root new_mem)"
    using new_mem_stands [OF assms(1), of H ?N "{}"] by (simp add: mem.stands_def)
  have step: "mem.holds H ?N s1 t1 (ms_root s1)" if "mem.written H ?N s1 t1" for s1 t1
    using that tidy_zero [OF _ assms(4)] by (auto simp: mem.holds_def mem.written_def)
  obtain s1 where s1: "smt_add MemStore H D a x new_mem = Inr s1" "mem.written H ?N s1 (Tip a x)"
    using mem.smt_add_refines [OF assms(4), of new_mem Empty D a x] e N(1) by (auto simp: mem.written_def)
  obtain s2 where s2: "smt_add MemStore H D b y s1 = Inr s2" "mem.written H ?N s2 t"
    using mem.smt_add_refines [OF assms(4), of s1 "Tip a x" D b y] step [OF s1(2)] N(2) t \<open>b \<noteq> a\<close>
    by (auto simp: mem.written_def)
  have s: "s = s2" "replies = [Inr None, Inr None]" using assms(5) s1(1) s2(1) by auto
  note h = step [OF s2(2)]
  have add: "smt_add MemStore H D k z s = Inl AlreadyPresent"
    using mem.smt_add_refines [OF assms(4), of s2 t D k z] h lost [of H z] t d s by simp
  have upd: "smt_update MemStore H D k z s = Inl KeyNotFound"
    using mem.smt_update_refines [OF assms(4), of s2 t D k z] h lost [of H z] t d s by simp
  have "get_leaf (get_proof MemStore D k s) = None"
    using mem.get_proof_refines [of H ?N s2 t D k] h lost [of H z] t d s by (simp add: get_leaf_proof_of)
  then show ?thesis using s(2) add upd by (simp add: add_or_update_def)
qed

lemma deep_leaf_is_lost_witness:
  "\<exists>s. run_ops (smt_exec MemStore sample_hash 2) [Add 1 10, Add 3 30] new_mem = ([Inr None, Inr None], s) \<and>
    get_leaf (get_proof MemStore 2 1 s) = None \<and> add_or_update MemStore sample_hash 2 1 11 s = Inl KeyNotFound"
proof -
  obtain replies s where r: "run_ops (smt_exec MemStore sample_hash 2) [Add 1 10, Add 3 30] new_mem = (replies, s)"
    by (cases "run_ops (smt_exec MemStore sample_hash 2) [Add 1 10, Add 3 30] new_mem")
  have "agree (2 - 1) 1 3" "bit (1 :: b256) (2 - 1) \<noteq> bit (3 :: b256) (2 - 1)" by (simp_all add: agree_take_bit)
  moreover have "sound_hash sample_hash (run_nodes sample_hash 2 [Add 1 10, Add 3 30] Empty)"
    by (simp add: push.simps fork_def leaf_key_def mid_key_def sample_hash_def node_key_def sound_hash_def inj_on_def)
  ultimately show ?thesis using deep_leaf_is_lost [OF _ _ _ _ r, of 1 11] r by simp
qed

end
