(* ===== verification/RelayServer.thy ===== *)
theory RelayServer
  imports SparseTree
begin

text \<open>
  The relayer service, \<open>relayer/src/server.rs\<close> and \<open>rocks.rs\<close>: a request is checked against the two
  sparse Merkle trees of its state (how often each sender index was used, which messages were
  relayed), proved, sent to the chain and only then recorded. Requests of one state exclude each
  other by a lock, and a request reads and writes nothing of another state, so a run is a sequence
  of requests. A root in the database is read back as the 32 bytes that were written. The prover (\<open>circom_prover\<close>, with the compression of its proofs) and the sender of
  transactions are parameters; reads and writes of the database do not fail.
\<close>

abbreviation STATE_DEPTH :: nat where "STATE_DEPTH \<equiv> 64"

definition MSG_LIMIT :: "64 word" where "MSG_LIMIT = 3"

definition RELAY_CU :: nat where "RELAY_CU = 200000"

section \<open>State\<close>

record state_key =
  sk_program :: b256
  sk_stateId :: "64 word"

definition serialize_key :: "state_key \<Rightarrow> 8 word list" where
  "serialize_key k = word_bytes (sk_program k) @ map word_of_int (be_digits 256 8 (uint (sk_stateId k)))"

record loaded_state =
  ld_quota :: rocks_store
  ld_uniq :: rocks_store

definition load_state :: "database \<Rightarrow> state_key \<Rightarrow> write_batch \<Rightarrow> loaded_state" where
  "load_state db key batch = \<lparr>ld_quota = new_rocks db ''nodes:quota'' batch (serialize_key key),
     ld_uniq = new_rocks db ''nodes:uniq'' batch (serialize_key key)\<rparr>"

section \<open>Requests\<close>

record account_meta =
  am_pubkey :: b256
  am_isSigner :: bool
  am_isWritable :: bool

record relay_request =
  rq_msgHash :: b256
  rq_nu :: b256
  rq_discriminator :: "8 word"
  rq_data :: "8 word list"
  rq_program :: b256
  rq_stateId :: "64 word"
  rq_cuLimit :: "32 word option"
  rq_accounts :: "account_meta list"

record circuit_inputs =
  ci_rootQuotaOld :: b256
  ci_rootUniqOld :: b256
  ci_msgHash :: b256
  ci_msgLimit :: "64 word"
  ci_nu :: b256
  ci_countOld :: "64 word"
  ci_siblingsQuota :: "b256 list"
  ci_noAuxQuota :: bool
  ci_auxKeyQuota :: b256
  ci_auxValueQuota :: b256
  ci_siblingsUniq :: "b256 list"
  ci_noAuxUniq :: bool
  ci_auxKeyUniq :: b256
  ci_auxValueUniq :: b256

record 'p relay_ix =
  ix_stateId :: "64 word"
  ix_proof :: 'p
  ix_rootStateNew :: b256
  ix_msgHash :: b256
  ix_discriminator :: "8 word"
  ix_nuHash :: b256
  ix_data :: "8 word list"
  ix_accounts :: "account_meta list"
  ix_cu :: nat

record tx_result =
  tx_signature :: string
  tx_ok :: bool

text \<open>
  What became of an instruction: whether the chain carried it out, and the result of each
  transaction that the sender reports, if it does. The service sees the report only.
\<close>

record send_outcome =
  so_landed :: bool
  so_report :: "tx_result list option"

text \<open>
  The prover gives a proof and the public inputs, and the sender the outcome of the instruction.
  The accounts of the instruction are those of the program (the relayer, its configuration and its
  state, the target and the system program) followed by those of the request.
\<close>

record 'p relay_env =
  re_prove :: "circuit_inputs \<Rightarrow> ('p \<times> b256 list) option"
  re_accounts :: "b256 \<Rightarrow> 64 word \<Rightarrow> account_meta list"
  re_send :: "'p relay_ix \<Rightarrow> send_outcome"

datatype relay_error = MessageDuplicated | MessageLimitExceeded | TransactionError | TransactorError
  | SmtError smt_error | ProverError | RelayPanic

definition key_of :: "relay_request \<Rightarrow> state_key" where
  "key_of req = \<lparr>sk_program = rq_program req, sk_stateId = rq_stateId req\<rparr>"

text \<open>The index is the sender's number with all bytes but the last \<open>STATE_DEPTH / 8\<close> cleared.\<close>

definition index_of :: "b256 \<Rightarrow> b256" where
  "index_of nu = bytes_word (replicate (32 - STATE_DEPTH div 8) 0 @ drop (32 - STATE_DEPTH div 8) (word_bytes nu))"

definition one_be :: b256 where "one_be = 1"

definition u64_u256 :: "64 word \<Rightarrow> b256" where "u64_u256 x = ucast x"

section \<open>Relaying\<close>

definition relay_check :: "loaded_state \<Rightarrow> relay_request \<Rightarrow> relay_error + (64 word \<times> circuit_inputs)" where
  "relay_check st req =
     (let quota = get_proof RocksStore STATE_DEPTH (index_of (rq_nu req)) (ld_quota st);
          uniq = get_proof RocksStore STATE_DEPTH (rq_msgHash req) (ld_uniq st) in
      if zp_membership uniq then Inl MessageDuplicated
      else let prev_count = (if zp_membership quota then ucast (zp_oldValue quota) else 0 :: 64 word) in
        if MSG_LIMIT \<le> prev_count then Inl MessageLimitExceeded
        else Inr (prev_count, \<lparr>ci_rootQuotaOld = ns_root RocksStore (ld_quota st),
          ci_rootUniqOld = ns_root RocksStore (ld_uniq st), ci_msgHash = rq_msgHash req,
          ci_msgLimit = MSG_LIMIT, ci_nu = rq_nu req, ci_countOld = prev_count,
          ci_siblingsQuota = zp_siblings quota, ci_noAuxQuota = zp_isOld0 quota,
          ci_auxKeyQuota = zp_oldKey quota, ci_auxValueQuota = zp_oldValue quota,
          ci_siblingsUniq = zp_siblings uniq, ci_noAuxUniq = zp_isOld0 uniq,
          ci_auxKeyUniq = zp_oldKey uniq, ci_auxValueUniq = zp_oldValue uniq\<rparr>))"

text \<open>The public inputs are the old and the new root of the state, the hash of the sender's number,
  the hash of the message and the limit. The sum of the compute units is checked for overflow.\<close>

definition relay_instruction ::
  "'p relay_env \<Rightarrow> relay_request \<Rightarrow> 'p \<Rightarrow> b256 list \<Rightarrow> relay_error + 'p relay_ix" where
  "relay_instruction E req proof pub_inputs =
     (let cu = RELAY_CU + (case rq_cuLimit req of None \<Rightarrow> 0 | Some n \<Rightarrow> unat n) in
      if length pub_inputs \<noteq> 5 \<or> 2 ^ 32 \<le> cu then Inl RelayPanic
      else Inr \<lparr>ix_stateId = rq_stateId req, ix_proof = proof, ix_rootStateNew = pub_inputs ! 1,
        ix_msgHash = rq_msgHash req, ix_discriminator = rq_discriminator req, ix_nuHash = pub_inputs ! 2,
        ix_data = rq_data req,
        ix_accounts = re_accounts E (rq_program req) (rq_stateId req) @ rq_accounts req, ix_cu = cu\<rparr>)"

definition relay_send :: "'p relay_env \<Rightarrow> 'p relay_ix \<Rightarrow> relay_error + string" where
  "relay_send E ix = (case so_report (re_send E ix) of
     None \<Rightarrow> Inl TransactorError
   | Some [] \<Rightarrow> Inl RelayPanic
   | Some txs \<Rightarrow> if list_all tx_ok txs then Inr (tx_signature (last txs)) else Inl TransactionError)"

text \<open>The two trees write to one batch.\<close>

definition relay_record :: "poseidon \<Rightarrow> loaded_state \<Rightarrow> 64 word \<Rightarrow> relay_request \<Rightarrow> smt_error + write_batch" where
  "relay_record H st prev_count req =
     (let idx = index_of (rq_nu req); new_count = u64_u256 (prev_count + 1) in
      sbind (if prev_count = 0 then smt_add RocksStore H STATE_DEPTH idx new_count (ld_quota st)
             else sbind (smt_update RocksStore H STATE_DEPTH idx new_count (ld_quota st)) (\<lambda>(old, s). Inr s)) (\<lambda>quota.
      sbind (smt_add RocksStore H STATE_DEPTH (rq_msgHash req) one_be
               ((ld_uniq st)\<lparr>rx_batch := rx_batch quota\<rparr>)) (\<lambda>uniq.
      Inr (rx_batch uniq))))"

text \<open>The answer, the database and the instructions that went to the sender of transactions.\<close>

definition relay_inner :: "poseidon \<Rightarrow> 'p relay_env \<Rightarrow> relay_request \<Rightarrow> database \<Rightarrow>
    (relay_error + string) \<times> database \<times> 'p relay_ix list" where
  "relay_inner H E req db =
     (let st = load_state db (key_of req) [] in
      case relay_check st req of Inl e \<Rightarrow> (Inl e, db, [])
      | Inr (prev_count, inputs) \<Rightarrow>
     (case re_prove E inputs of None \<Rightarrow> (Inl ProverError, db, [])
      | Some (proof, pub_inputs) \<Rightarrow>
     (case relay_instruction E req proof pub_inputs of Inl e \<Rightarrow> (Inl e, db, [])
      | Inr ix \<Rightarrow>
     (case relay_send E ix of Inl e \<Rightarrow> (Inl e, db, [ix])
      | Inr signature \<Rightarrow>
     (case relay_record H st prev_count req of Inl e \<Rightarrow> (Inl (SmtError e), db, [ix])
      | Inr batch \<Rightarrow> (Inr signature, write_db db batch, [ix]))))))"

text \<open>
  The requests that the service has answered, each with what the prover and the chain did: the
  answers, the database and the log of what was sent, with the request it was sent for.
\<close>

type_synonym 'p sending = "'p relay_env \<times> relay_request \<times> 'p relay_ix"

fun serve :: "poseidon \<Rightarrow> ('p relay_env \<times> relay_request) list \<Rightarrow> database \<Rightarrow>
    (relay_error + string) list \<times> database \<times> 'p sending list" where
  "serve H [] db = ([], db, [])"
| "serve H (x # xs) db = (case relay_inner H (fst x) (snd x) db of (r, db1, ixs) \<Rightarrow>
     case serve H xs db1 of (rs, db2, log) \<Rightarrow> (r # rs, db2, map (\<lambda>ix. (fst x, snd x, ix)) ixs @ log))"

end
