(* ===== verification/RelayServerCorrect.thy ===== *)
theory RelayServerCorrect
  imports RelayServer SparseTreeMap
begin

text \<open>
  The relayer service keeps its promise: a message is relayed at most once, and a sender index at
  most as often as the limit allows. The two trees of a state stand for the history of the requests
  that were answered with a signature; these are the messages whose transaction was reported as
  successful.
\<close>

section \<open>Frames\<close>

text \<open>What every write of a store keeps, the operations keep.\<close>

lemma sbind_Inr: "sbind m f = Inr y \<longleftrightarrow> (\<exists>x. m = Inr x \<and> f x = Inr y)"
  by (simp add: sbind_def split: sum.splits)

lemma put_node_keeps:
  assumes "\<And>s k n. P s \<Longrightarrow> P (ns_put S s k n)"
  shows "put_node S H n s = Inr (h, s') \<Longrightarrow> P s \<Longrightarrow> P s'"
  using assms by (auto simp: put_node_def split: option.splits)

lemma push_leaf_keeps:
  assumes "\<And>s k n. P s \<Longrightarrow> P (ns_put S s k n)"
  shows "push_leaf S H new old lvl p q s = Inr (h, s') \<Longrightarrow> P s \<Longrightarrow> P s'"
proof (induction "length p - lvl" arbitrary: lvl h s')
  case 0
  then show ?case by (simp add: push_leaf.simps [of S])
next
  case (Suc n)
  have "n = length p - Suc lvl" using Suc.hyps(2) by simp
  note IH = Suc.hyps(1) [OF this _ Suc.prems(2)]
  show ?case using Suc.prems IH put_node_keeps [of P S, OF assms]
    by (subst (asm) (1) push_leaf.simps)
      (fastforce simp: sbind_def split: if_splits sum.splits option.splits)
qed

lemma add_leaf_keeps:
  assumes "\<And>s k n. P s \<Longrightarrow> P (ns_put S s k n)"
  shows "add_leaf S H new cur lvl p s = Inr (h, s') \<Longrightarrow> P s \<Longrightarrow> P s'"
proof (induction "length p - lvl" arbitrary: lvl cur h s')
  case 0
  then show ?case
    using put_node_keeps [of P S, OF assms] push_leaf_keeps [of P S, OF assms]
    by (auto simp: add_leaf.simps [of S] split: option.splits node.splits if_splits)
next
  case (Suc n)
  have "n = length p - Suc lvl" using Suc.hyps(2) by simp
  note IH = Suc.hyps(1) [OF this _ Suc.prems(2)]
  show ?case
  proof (cases "ns_get S s cur")
    case None
    then show ?thesis using Suc.prems put_node_keeps [of P S, OF assms] by (simp add: add_leaf.simps [of S _ _ _ lvl])
  next
    case (Some m)
    show ?thesis
    proof (cases m)
      case (Leaf k v)
      then show ?thesis using Suc.prems Some push_leaf_keeps [of P S, OF assms]
        by (simp add: add_leaf.simps [of S _ _ _ lvl] split: if_splits)
    next
      case (Middle l r)
      then obtain c g s1 m' where "add_leaf S H new c (Suc lvl) p s = Inr (g, s1)" "put_node S H m' s1 = Inr (h, s')"
        using Suc.prems Some by (auto simp: add_leaf.simps [of S _ _ _ lvl] sbind_Inr split: if_splits)
      then show ?thesis using IH put_node_keeps [of P S, OF assms] by blast
    qed
  qed
qed

lemma rebuild_keeps:
  assumes "\<And>s k n. P s \<Longrightarrow> P (ns_put S s k n)"
  shows "rebuild S H xs hs = Inr (h, s') \<Longrightarrow> P (snd hs) \<Longrightarrow> P s'"
proof (induction xs arbitrary: hs)
  case (Cons x xs)
  then obtain g s1 where "put_node S H (side (fst x) (fst hs) (snd x)) (snd hs) = Inr (g, s1)"
      "rebuild S H xs (g, s1) = Inr (h, s')"
    by (auto simp: sbind_Inr)
  then show ?case using Cons.IH [of "(g, s1)"] Cons.prems(2) put_node_keeps [of P S, OF assms] by simp
qed simp

lemma smt_add_keeps:
  assumes "\<And>s k n. P s \<Longrightarrow> P (ns_put S s k n)" "\<And>s r. P s \<Longrightarrow> P (ns_setRoot S s r)"
  shows "smt_add S H D k v s = Inr s' \<Longrightarrow> P s \<Longrightarrow> P s' \<and> (\<exists>s1 r. s' = ns_setRoot S s1 r)"
  using add_leaf_keeps [of P S, OF assms(1)] assms(2)
  by (fastforce simp: smt_add_def sbind_def split: sum.splits)

lemma update_loop_keeps:
  assumes "\<And>s k n. P s \<Longrightarrow> P (ns_put S s k n)" "\<And>s r. P s \<Longrightarrow> P (ns_setRoot S s r)"
  shows "update_loop S H key val path cur xs s = Inr (old, s') \<Longrightarrow> P s \<Longrightarrow> P s' \<and> (\<exists>s1 r. s' = ns_setRoot S s1 r)"
proof (induction path arbitrary: cur xs)
  case (Cons go path)
  show ?case
  proof (cases "ns_get S s cur")
    case (Some n)
    show ?thesis
    proof (cases n)
      case (Leaf k v)
      then obtain hs root s1 where "put_node S H (Leaf key val) s = Inr hs" "rebuild S H xs hs = Inr (root, s1)"
          "s' = ns_setRoot S s1 root"
        using Cons.prems(1) Some by (auto simp: sbind_def split: if_splits sum.splits)
      then show ?thesis
        using put_node_keeps [of P S, OF assms(1)] rebuild_keeps [of P S, OF assms(1)] assms(2) Cons.prems(2)
        by (metis prod.collapse)
    qed (use Cons Some in auto)
  qed (use Cons.prems in auto)
qed simp

lemma smt_update_keeps:
  assumes "\<And>s k n. P s \<Longrightarrow> P (ns_put S s k n)" "\<And>s r. P s \<Longrightarrow> P (ns_setRoot S s r)"
  shows "smt_update S H D k v s = Inr (old, s') \<Longrightarrow> P s \<Longrightarrow> P s' \<and> (\<exists>s1 r. s' = ns_setRoot S s1 r)"
  using update_loop_keeps [of P S, OF assms] by (simp add: smt_update_def)

section \<open>The database under one prefix\<close>

definition view :: "database \<Rightarrow> string \<Rightarrow> 8 word list \<Rightarrow> b256 \<Rightarrow> node option" where
  "view db cf p h = Option.bind (db (cf, prefix_key p h)) decode"

definition tree_at :: "poseidon \<Rightarrow> node set \<Rightarrow> database \<Rightarrow> string \<Rightarrow> 8 word list \<Rightarrow> smt \<Rightarrow> bool" where
  "tree_at H N db cf p t \<longleftrightarrow> tidy H N (view db cf p) \<and> rep H (view db cf p) t (stored_root db cf p)"

definition writes_at :: "string \<Rightarrow> 8 word list \<Rightarrow> write_batch \<Rightarrow> bool" where
  "writes_at cf p b \<longleftrightarrow> (\<forall>w \<in> set b. \<exists>h. fst w = (cf, prefix_key p h))"

lemma write_db_other: "(\<forall>w \<in> set b. fst w \<noteq> x) \<Longrightarrow> write_db db b x = db x"
  by (induction b arbitrary: db) (auto simp: write_db_def)

lemma write_db_append: "write_db db (a @ b) = write_db (write_db db a) b"
  by (simp add: write_db_def)

lemma tree_at_frame: "(\<And>h. db' (cf, prefix_key p h) = db (cf, prefix_key p h)) \<Longrightarrow> tree_at H N db' cf p t = tree_at H N db cf p t"
  by (simp add: tree_at_def view_def [abs_def] stored_root_def)

lemma tree_at_other:
  assumes "writes_at cf' p' b" "cf \<noteq> cf' \<or> (p \<noteq> p' \<and> length p = length p')"
  shows "tree_at H N (write_db db b) cf p t = tree_at H N db cf p t"
  using assms by (intro tree_at_frame write_db_other) (auto simp: writes_at_def prefix_key_def)

lemma tree_at_empty: "tree_at H N (\<lambda>x. None) cf p Empty"
  by (simp add: tree_at_def view_def [abs_def] stored_root_def tidy_def)

text \<open>A store of the service over a batch that so far concerns other trees.\<close>

definition at_tree :: "database \<Rightarrow> string \<Rightarrow> 8 word list \<Rightarrow> write_batch \<Rightarrow> rocks_store \<Rightarrow> bool" where
  "at_tree db cf p b s \<longleftrightarrow> rx_db s = db \<and> rx_cf s = cf \<and> rx_prefix s = p \<and> (\<exists>ws. rx_batch s = b @ ws \<and> writes_at cf p ws)"

lemma at_tree_put: "at_tree db cf p b s \<Longrightarrow> at_tree db cf p b (ns_put RocksStore s k n)"
  by (auto simp: at_tree_def RocksStore_def writes_at_def)

lemma at_tree_root: "at_tree db cf p b s \<Longrightarrow> at_tree db cf p b (ns_setRoot RocksStore s r)"
  by (auto simp: at_tree_def RocksStore_def writes_at_def)

lemma rocks_holds:
  assumes "tree_at H N db cf p t" "sound_hash H N" "at_tree db cf p b s" "rx_batch s = b" "rx_root s = stored_root db cf p"
    and "\<And>h. write_db db b (cf, prefix_key p h) = db (cf, prefix_key p h)"
  shows "rocks.holds H N s t (ns_root RocksStore s)"
proof -
  have g: "ns_get RocksStore s = view db cf p" "rocks_after s = view db cf p" "ns_root RocksStore s = stored_root db cf p"
    using assms(3-6) by (auto simp: RocksStore_def at_tree_def view_def [abs_def] rocks_after_def [abs_def])
  show ?thesis using assms(1) tidy_zero [OF _ assms(2)] by (simp add: rocks.holds_def g tree_at_def)
qed

lemma rocks_written:
  assumes "rocks.written H N s t" "at_tree db cf p b s" "s = ns_setRoot RocksStore s1 r"
  shows "tree_at H N (write_db db (rx_batch s)) cf p t"
proof -
  have v: "rocks_after s = view (write_db db (rx_batch s)) cf p"
    using assms(2) by (auto simp: at_tree_def view_def [abs_def] rocks_after_def [abs_def])
  have "stored_root (write_db db (rx_batch s)) cf p = ns_root RocksStore s"
    using assms(2,3) by (auto simp: stored_root_def RocksStore_def write_db_snoc at_tree_def)
  then show ?thesis using assms(1) v by (simp add: tree_at_def rocks.written_def)
qed

lemma rocks_add:
  assumes "tree_at H N db cf p t" "sound_hash H N" "at_tree db cf p b s" "rx_batch s = b" "rx_root s = stored_root db cf p"
    and "\<And>h. write_db db b (cf, prefix_key p h) = db (cf, prefix_key p h)"
    and "low D K t" "apart D K" "k \<in> K" "map_of_tree t k = None" "nodes H (tree_exec D (Add k v) t) \<subseteq> N"
  shows "\<exists>s' ws. smt_add RocksStore H D k v s = Inr s' \<and> rx_batch s' = b @ ws \<and> writes_at cf p ws \<and>
    tree_at H N (write_db db (rx_batch s')) cf p (tree_exec D (Add k v) t)"
proof -
  have "rocks.stands H N D K s t"
    using rocks_holds [OF assms(1-6)] assms(7) by (simp add: rocks.stands_def)
  from rocks.stands_add(2) [OF assms(2,8,9) this assms(11,10)]
  obtain s' where s': "smt_add RocksStore H D k v s = Inr s'" "rocks.written H N s' (tree_exec D (Add k v) t)" by blast
  have a: "at_tree db cf p b s' \<and> (\<exists>s1 r. s' = ns_setRoot RocksStore s1 r)"
    using smt_add_keeps [of "at_tree db cf p b", OF at_tree_put at_tree_root s'(1) assms(3)] .
  then have "tree_at H N (write_db db (rx_batch s')) cf p (tree_exec D (Add k v) t)"
    using rocks_written [OF s'(2)] by blast
  moreover obtain ws where "rx_batch s' = b @ ws" "writes_at cf p ws" using a by (auto simp: at_tree_def)
  ultimately show ?thesis using s'(1) by blast
qed

lemma rocks_update:
  assumes "tree_at H N db cf p t" "sound_hash H N" "at_tree db cf p b s" "rx_batch s = b" "rx_root s = stored_root db cf p"
    and "\<And>h. write_db db b (cf, prefix_key p h) = db (cf, prefix_key p h)"
    and "low D K t" "map_of_tree t k = Some old" "nodes H (tree_exec D (Update k v) t) \<subseteq> N"
  shows "\<exists>s' ws. smt_update RocksStore H D k v s = Inr (old, s') \<and> rx_batch s' = b @ ws \<and> writes_at cf p ws \<and>
    tree_at H N (write_db db (rx_batch s')) cf p (tree_exec D (Update k v) t)"
proof -
  have "rocks.stands H N D K s t"
    using rocks_holds [OF assms(1-6)] assms(7) by (simp add: rocks.stands_def)
  from rocks.stands_update(2) [OF assms(2) this assms(9,8)]
  obtain s' where s': "smt_update RocksStore H D k v s = Inr (old, s')" "rocks.written H N s' (tree_exec D (Update k v) t)" by blast
  have a: "at_tree db cf p b s' \<and> (\<exists>s1 r. s' = ns_setRoot RocksStore s1 r)"
    using smt_update_keeps [of "at_tree db cf p b", OF at_tree_put at_tree_root s'(1) assms(3)] .
  then have "tree_at H N (write_db db (rx_batch s')) cf p (tree_exec D (Update k v) t)"
    using rocks_written [OF s'(2)] by blast
  moreover obtain ws where "rx_batch s' = b @ ws" "writes_at cf p ws" using a by (auto simp: at_tree_def)
  ultimately show ?thesis using s'(1) by blast
qed

section \<open>Histories\<close>

text \<open>The operations of the quota tree for the indices used in turn, after those of \<open>seen\<close>.\<close>

definition quota_op :: "b256 list \<Rightarrow> b256 \<Rightarrow> smt_op" where
  "quota_op seen i = (if count_list seen i = 0 then Add i 1 else Update i (of_nat (count_list seen i + 1)))"

fun quota_ops :: "b256 list \<Rightarrow> b256 list \<Rightarrow> smt_op list" where
  "quota_ops seen [] = []"
| "quota_ops seen (i # is) = quota_op seen i # quota_ops (seen @ [i]) is"

definition uniq_ops :: "b256 list \<Rightarrow> smt_op list" where
  "uniq_ops ms = map (\<lambda>m. Add m 1) ms"

definition tree_after :: "smt_op list \<Rightarrow> smt" where
  "tree_after xs = foldl (\<lambda>t x. tree_exec STATE_DEPTH x t) Empty xs"

lemma tree_after_simps [simp]: "tree_after [] = Empty" "tree_after (xs @ [x]) = tree_exec STATE_DEPTH x (tree_after xs)"
  by (simp_all add: tree_after_def)

lemma quota_ops_snoc [simp]: "quota_ops seen (is @ [i]) = quota_ops seen is @ [quota_op (seen @ is) i]"
  by (induction "is" arbitrary: seen) auto

lemma uniq_ops_snoc [simp]: "uniq_ops (ms @ [m]) = uniq_ops ms @ [Add m 1]"
  by (simp add: uniq_ops_def)

lemma run_nodes_snoc: "run_nodes H D (xs @ [x]) t =
    run_nodes H D xs t \<union> nodes H (tree_exec D x (foldl (\<lambda>t x. tree_exec D x t) t xs))"
  by (induction xs arbitrary: t) auto

lemma op_key_quota [simp]: "op_key (quota_op seen i) = i"
  by (simp add: quota_op_def)

lemma quota_tree:
  assumes "apart STATE_DEPTH K" "set is \<subseteq> K"
  shows "low STATE_DEPTH K (tree_after (quota_ops [] is)) \<and> map_of_tree (tree_after (quota_ops [] is)) =
    (\<lambda>i. if count_list is i = 0 then None else Some (of_nat (count_list is i)))"
  using assms(2)
proof (induction "is" rule: rev_induct)
  case Nil
  then show ?case by (simp add: low_Empty map_of_tree_def fun_eq_iff)
next
  case (snoc i "is")
  then have i: "op_key (quota_op is i) \<in> K" and IH: "low STATE_DEPTH K (tree_after (quota_ops [] is))"
    "map_of_tree (tree_after (quota_ops [] is)) = (\<lambda>i. if count_list is i = 0 then None else Some (of_nat (count_list is i)))"
    by simp_all
  show ?case using tree_exec_map [OF assms(1) i IH(1)] by (auto simp: IH(2) quota_op_def fun_eq_iff)
qed

lemma uniq_tree:
  assumes "apart STATE_DEPTH K" "set ms \<subseteq> K" "distinct ms"
  shows "low STATE_DEPTH K (tree_after (uniq_ops ms)) \<and> map_of_tree (tree_after (uniq_ops ms)) =
    (\<lambda>m. if m \<in> set ms then Some 1 else None)"
  using assms(2,3)
proof (induction ms rule: rev_induct)
  case Nil
  then show ?case by (simp add: low_Empty map_of_tree_def fun_eq_iff uniq_ops_def)
next
  case (snoc m ms)
  then have m: "op_key (Add m 1) \<in> K" and IH: "low STATE_DEPTH K (tree_after (uniq_ops ms))"
    "map_of_tree (tree_after (uniq_ops ms)) = (\<lambda>m. if m \<in> set ms then Some 1 else None)"
    by simp_all
  show ?case using tree_exec_map [OF assms(1) m IH(1)] snoc.prems(2) by (auto simp: IH(2) fun_eq_iff)
qed

section \<open>Requests\<close>

lemma serialize_key_inj: "serialize_key a = serialize_key b \<longleftrightarrow> a = b"
proof
  assume e: "serialize_key a = serialize_key b"
  then have p: "sk_program a = sk_program b" by (simp add: serialize_key_def)
  let ?bs = "\<lambda>x :: 64 word. map (word_of_int :: int \<Rightarrow> 8 word) (be_digits 256 8 (uint x))"
  have undo: "word_of_int (be_val 256 (map uint (?bs x))) = x" for x :: "64 word"
  proof -
    have "uint x mod 256 ^ 8 = uint x" using uint_lt2p [of x] by simp
    then show ?thesis by (simp add: uint_bytes be_val_be_digits del: map_map)
  qed
  have "?bs (sk_stateId a) = ?bs (sk_stateId b)" using e by (simp add: serialize_key_def)
  then have "sk_stateId a = sk_stateId b" using undo by metis
  with p show "a = b" by simp
qed simp

lemma length_serialize_key [simp]: "length (serialize_key k) = 40"
  by (simp add: serialize_key_def)

type_synonym history = "(b256 \<times> b256) list"

definition entry :: "relay_request \<Rightarrow> b256 \<times> b256" where
  "entry req = (index_of (rq_nu req), rq_msgHash req)"

text \<open>The database holds the history of the state under the key.\<close>

definition stands_for :: "poseidon \<Rightarrow> node set \<Rightarrow> node set \<Rightarrow> state_key \<Rightarrow> history \<Rightarrow> database \<Rightarrow> bool" where
  "stands_for H N M key hist db \<longleftrightarrow>
     tree_at H N db ''nodes:quota'' (serialize_key key) (tree_after (quota_ops [] (map fst hist))) \<and>
     tree_at H M db ''nodes:uniq'' (serialize_key key) (tree_after (uniq_ops (map snd hist)))"

definition within :: "history \<Rightarrow> bool" where
  "within hist \<longleftrightarrow> distinct (map snd hist) \<and> (\<forall>i. count_list (map fst hist) i \<le> 3)"

definition spread :: "history \<Rightarrow> bool" where
  "spread hist \<longleftrightarrow> apart STATE_DEPTH (fst ` set hist) \<and> apart STATE_DEPTH (snd ` set hist)"

lemma spread_trees:
  assumes "spread (hist @ later)" "within hist"
  shows "low STATE_DEPTH (fst ` set (hist @ later)) (tree_after (quota_ops [] (map fst hist)))"
    "map_of_tree (tree_after (quota_ops [] (map fst hist))) =
       (\<lambda>i. if count_list (map fst hist) i = 0 then None else Some (of_nat (count_list (map fst hist) i)))"
    "low STATE_DEPTH (snd ` set (hist @ later)) (tree_after (uniq_ops (map snd hist)))"
    "map_of_tree (tree_after (uniq_ops (map snd hist))) = (\<lambda>m. if m \<in> snd ` set hist then Some 1 else None)"
  using quota_tree [of "fst ` set (hist @ later)" "map fst hist"] uniq_tree [of "snd ` set (hist @ later)" "map snd hist"] assms
  by (auto simp: spread_def within_def)

lemma small_count:
  assumes "n \<le> 3"
  shows "ucast (of_nat n :: b256) = (of_nat n :: 64 word)" "MSG_LIMIT \<le> (of_nat n :: 64 word) \<longleftrightarrow> n = 3"
    "n < 3 \<Longrightarrow> u64_u256 (of_nat n + 1) = of_nat (n + 1)" "(of_nat n :: 64 word) = 0 \<longleftrightarrow> n = 0"
proof -
  consider "n = 0" | "n = 1" | "n = 2" | "n = 3" using assms by linarith
  then have "ucast (of_nat n :: b256) = (of_nat n :: 64 word) \<and> (MSG_LIMIT \<le> (of_nat n :: 64 word) \<longleftrightarrow> n = 3) \<and>
    (n < 3 \<longrightarrow> u64_u256 (of_nat n + 1) = of_nat (n + 1)) \<and> ((of_nat n :: 64 word) = 0 \<longleftrightarrow> n = 0)"
    by cases (simp_all add: MSG_LIMIT_def u64_u256_def word_le_nat_alt)
  then show "ucast (of_nat n :: b256) = (of_nat n :: 64 word)" "MSG_LIMIT \<le> (of_nat n :: 64 word) \<longleftrightarrow> n = 3"
    "n < 3 \<Longrightarrow> u64_u256 (of_nat n + 1) = of_nat (n + 1)" "(of_nat n :: 64 word) = 0 \<longleftrightarrow> n = 0"
    by blast+
qed

abbreviation "quota_cf \<equiv> ''nodes:quota''"
abbreviation "uniq_cf \<equiv> ''nodes:uniq''"

lemma load_at_tree:
  "at_tree db quota_cf (serialize_key key) [] (ld_quota (load_state db key []))"
  "at_tree db uniq_cf (serialize_key key) b ((ld_uniq (load_state db key []))\<lparr>rx_batch := b\<rparr>)"
  by (simp_all add: load_state_def new_rocks_def at_tree_def writes_at_def)

lemma get_leaf_Some: "get_leaf p = Some v \<longleftrightarrow> zp_membership p \<and> zp_oldValue p = v"
  by (simp add: get_leaf_def)

lemma get_leaf_None: "get_leaf p = None \<longleftrightarrow> \<not> zp_membership p"
  by (simp add: get_leaf_def)

definition used :: "history \<Rightarrow> relay_request \<Rightarrow> nat" where
  "used hist req = count_list (map fst hist) (index_of (rq_nu req))"

lemma load_holds:
  assumes "stands_for H N M key hist db" "sound_hash H N" "sound_hash H M"
  shows "rocks.holds H N (ld_quota (load_state db key [])) (tree_after (quota_ops [] (map fst hist)))
      (ns_root RocksStore (ld_quota (load_state db key [])))"
    "rocks.holds H M (ld_uniq (load_state db key [])) (tree_after (uniq_ops (map snd hist)))
      (ns_root RocksStore (ld_uniq (load_state db key [])))"
proof -
  show "rocks.holds H N (ld_quota (load_state db key [])) (tree_after (quota_ops [] (map fst hist)))
      (ns_root RocksStore (ld_quota (load_state db key [])))"
    using assms(1) by (intro rocks_holds [OF _ assms(2) load_at_tree(1)])
      (auto simp: stands_for_def load_state_def new_rocks_def write_db_def)
  have "rocks.holds H M ((ld_uniq (load_state db key []))\<lparr>rx_batch := []\<rparr>) (tree_after (uniq_ops (map snd hist)))
      (ns_root RocksStore ((ld_uniq (load_state db key []))\<lparr>rx_batch := []\<rparr>))"
    using assms(1) by (intro rocks_holds [OF _ assms(3) load_at_tree(2)])
      (auto simp: stands_for_def load_state_def new_rocks_def write_db_def)
  then show "rocks.holds H M (ld_uniq (load_state db key [])) (tree_after (uniq_ops (map snd hist)))
      (ns_root RocksStore (ld_uniq (load_state db key [])))"
    by (simp add: load_state_def new_rocks_def)
qed

lemma load_proofs:
  assumes "stands_for H N M key hist db" "within hist" "spread hist" "sound_hash H N" "sound_hash H M"
  shows "get_leaf (get_proof RocksStore STATE_DEPTH i (ld_quota (load_state db key []))) =
      (if count_list (map fst hist) i = 0 then None else Some (of_nat (count_list (map fst hist) i)))"
    "get_leaf (get_proof RocksStore STATE_DEPTH m (ld_uniq (load_state db key []))) =
      (if m \<in> snd ` set hist then Some 1 else None)"
proof -
  have s: "spread (hist @ [])" using assms(3) by simp
  note tr = spread_trees [OF s assms(2)]
  have "rocks.stands H N STATE_DEPTH (fst ` set hist) (ld_quota (load_state db key [])) (tree_after (quota_ops [] (map fst hist)))"
    "rocks.stands H M STATE_DEPTH (snd ` set hist) (ld_uniq (load_state db key [])) (tree_after (uniq_ops (map snd hist)))"
    using load_holds [OF assms(1,4,5)] tr(1,3) by (simp_all add: rocks.stands_def)
  then show "get_leaf (get_proof RocksStore STATE_DEPTH i (ld_quota (load_state db key []))) =
      (if count_list (map fst hist) i = 0 then None else Some (of_nat (count_list (map fst hist) i)))"
    "get_leaf (get_proof RocksStore STATE_DEPTH m (ld_uniq (load_state db key []))) =
      (if m \<in> snd ` set hist then Some 1 else None)"
    using rocks.get_leaf_stands tr(2,4) by simp_all
qed

lemma check_stands:
  assumes "stands_for H N M (key_of req) hist db" "within hist" "spread hist" "sound_hash H N" "sound_hash H M"
  defines "st \<equiv> load_state db (key_of req) []"
  shows "if rq_msgHash req \<in> snd ` set hist then relay_check st req = Inl MessageDuplicated
    else if used hist req = 3 then relay_check st req = Inl MessageLimitExceeded
    else \<exists>ci. relay_check st req = Inr (of_nat (used hist req), ci) \<and> ci_countOld ci = of_nat (used hist req) \<and>
      ci_msgHash ci = rq_msgHash req \<and> ci_nu ci = rq_nu req \<and> ci_msgLimit ci = MSG_LIMIT \<and>
      ci_rootQuotaOld ci = stored_root db quota_cf (serialize_key (key_of req)) \<and>
      ci_rootUniqOld ci = stored_root db uniq_cf (serialize_key (key_of req))"
proof -
  let ?q = "get_proof RocksStore STATE_DEPTH (index_of (rq_nu req)) (ld_quota st)"
  let ?u = "get_proof RocksStore STATE_DEPTH (rq_msgHash req) (ld_uniq st)"
  note pr = load_proofs [OF assms(1-5), folded st_def]
  have u: "zp_membership ?u \<longleftrightarrow> rq_msgHash req \<in> snd ` set hist"
    using pr(2) [of "rq_msgHash req"] by (auto simp: get_leaf_def split: if_splits)
  have le: "used hist req \<le> 3" using assms(2) by (simp add: within_def used_def)
  have "(if zp_membership ?q then ucast (zp_oldValue ?q) else 0 :: 64 word) = of_nat (used hist req)"
    using pr(1) [of "index_of (rq_nu req)"] small_count(1) [OF le]
    by (auto simp: get_leaf_def used_def split: if_splits)
  moreover have "ns_root RocksStore (ld_quota st) = stored_root db quota_cf (serialize_key (key_of req))"
    "ns_root RocksStore (ld_uniq st) = stored_root db uniq_cf (serialize_key (key_of req))"
    by (simp_all add: st_def load_state_def new_rocks_def RocksStore_def)
  moreover have "MSG_LIMIT \<le> (of_nat (used hist req) :: 64 word) \<longleftrightarrow> used hist req = 3"
    using small_count(2) [OF le] .
  ultimately show ?thesis using u by (auto simp: relay_check_def Let_def simp del: of_nat_numeral)
qed

lemma record_writes:
  assumes "relay_record H (load_state db key []) n req = Inr batch"
  shows "\<exists>a b. batch = a @ b \<and> writes_at quota_cf (serialize_key key) a \<and> writes_at uniq_cf (serialize_key key) b"
proof -
  let ?p = "serialize_key key"
  obtain q u where q: "(if n = 0 then smt_add RocksStore H STATE_DEPTH (index_of (rq_nu req)) (u64_u256 (n + 1)) (ld_quota (load_state db key []))
      else sbind (smt_update RocksStore H STATE_DEPTH (index_of (rq_nu req)) (u64_u256 (n + 1)) (ld_quota (load_state db key []))) (\<lambda>(old, s). Inr s)) = Inr q"
    and u: "smt_add RocksStore H STATE_DEPTH (rq_msgHash req) one_be ((ld_uniq (load_state db key []))\<lparr>rx_batch := rx_batch q\<rparr>) = Inr u"
    "batch = rx_batch u"
    using assms by (auto simp: relay_record_def Let_def sbind_Inr)
  have "at_tree db quota_cf ?p [] q"
    using q smt_add_keeps [of "at_tree db quota_cf ?p []", OF at_tree_put at_tree_root _ load_at_tree(1)]
      smt_update_keeps [of "at_tree db quota_cf ?p []", OF at_tree_put at_tree_root _ load_at_tree(1)]
    by (auto simp: sbind_Inr split: if_splits)
  moreover have "at_tree db uniq_cf ?p (rx_batch q) u"
    using smt_add_keeps [of "at_tree db uniq_cf ?p (rx_batch q)", OF at_tree_put at_tree_root u(1) load_at_tree(2)] by simp
  ultimately show ?thesis using u(2) by (auto simp: at_tree_def)
qed

definition history_nodes :: "poseidon \<Rightarrow> history \<Rightarrow> node set \<times> node set" where
  "history_nodes H hist = (run_nodes H STATE_DEPTH (quota_ops [] (map fst hist)) Empty,
     run_nodes H STATE_DEPTH (uniq_ops (map snd hist)) Empty)"

lemma nodes_tree_after: "nodes H (tree_after xs) \<subseteq> run_nodes H STATE_DEPTH xs Empty"
  by (induction xs rule: rev_induct) (auto simp: run_nodes_snoc tree_after_def)

lemma record_stands:
  assumes "stands_for H N M (key_of req) hist db" "within hist" "spread (hist @ [entry req])"
    and "sound_hash H N" "sound_hash H M"
    and "fst (history_nodes H (hist @ [entry req])) \<subseteq> N" "snd (history_nodes H (hist @ [entry req])) \<subseteq> M"
    and "rq_msgHash req \<notin> snd ` set hist" "used hist req < 3"
  shows "\<exists>batch. relay_record H (load_state db (key_of req) []) (of_nat (used hist req)) req = Inr batch \<and>
    stands_for H N M (key_of req) (hist @ [entry req]) (write_db db batch)"
proof -
  define key where "key = key_of req"
  define st where "st = load_state db key []"
  define tq where "tq = tree_after (quota_ops [] (map fst hist))"
  define tu where "tu = tree_after (uniq_ops (map snd hist))"
  define i where "i = index_of (rq_nu req)"
  define n where "n = used hist req"
  define v where "v = u64_u256 (of_nat n + 1)"
  note le = less_imp_le [OF assms(9)]
  note tr = spread_trees [OF assms(3,2), folded tq_def tu_def]
  have K: "i \<in> fst ` set (hist @ [entry req])" "rq_msgHash req \<in> snd ` set (hist @ [entry req])"
    by (auto simp: entry_def i_def)
  have c: "count_list (map fst hist) i = n" by (simp add: n_def used_def i_def)
  have v: "v = of_nat (n + 1)" using small_count(3) [OF le assms(9)] by (simp add: v_def n_def)
  have tq': "tree_after (quota_ops [] (map fst (hist @ [entry req]))) = tree_exec STATE_DEPTH (quota_op (map fst hist) i) tq"
    and tu': "tree_after (uniq_ops (map snd (hist @ [entry req]))) = tree_exec STATE_DEPTH (Add (rq_msgHash req) 1) tu"
    by (simp_all add: entry_def i_def tq_def tu_def)
  have nq: "nodes H (tree_exec STATE_DEPTH (quota_op (map fst hist) i) tq) \<subseteq> N"
    using nodes_tree_after [of H "quota_ops [] (map fst (hist @ [entry req]))"] assms(6)
    unfolding tq' history_nodes_def by simp
  have nu: "nodes H (tree_exec STATE_DEPTH (Add (rq_msgHash req) 1) tu) \<subseteq> M"
    using nodes_tree_after [of H "uniq_ops (map snd (hist @ [entry req]))"] assms(7)
    unfolding tu' history_nodes_def by simp
  have ap: "apart STATE_DEPTH (fst ` set (hist @ [entry req]))" "apart STATE_DEPTH (snd ` set (hist @ [entry req]))"
    using assms(3) by (simp_all add: spread_def)
  have t: "tree_at H N db quota_cf (serialize_key key) tq" "tree_at H M db uniq_cf (serialize_key key) tu"
    using assms(1) by (simp_all add: stands_for_def tq_def tu_def key_def)
  have ld: "rx_batch (ld_quota st) = []" "rx_root (ld_quota st) = stored_root db quota_cf (serialize_key key)"
    "rx_root ((ld_uniq st)\<lparr>rx_batch := b\<rparr>) = stored_root db uniq_cf (serialize_key key)" for b
    by (simp_all add: st_def load_state_def new_rocks_def)
  note at = load_at_tree [of db key, folded st_def]
  obtain q ws where q: "(if of_nat n = (0 :: 64 word) then smt_add RocksStore H STATE_DEPTH i v (ld_quota st)
      else sbind (smt_update RocksStore H STATE_DEPTH i v (ld_quota st)) (\<lambda>(old, s). Inr s)) = Inr q"
    "rx_batch q = ws" "writes_at quota_cf (serialize_key key) ws"
    "tree_at H N (write_db db ws) quota_cf (serialize_key key) (tree_exec STATE_DEPTH (quota_op (map fst hist) i) tq)"
  proof (cases "n = 0")
    case True
    then have op: "quota_op (map fst hist) i = Add i v" using c v by (simp add: quota_op_def)
    show ?thesis
      using rocks_add [OF t(1) assms(4) at(1) ld(1,2) _ tr(1) ap(1) K(1) _ nq [unfolded op]] tr(2) c True that
      by (auto simp: write_db_def op)
  next
    case False
    then have op: "quota_op (map fst hist) i = Update i v" using c v by (simp add: quota_op_def)
    have "map_of_tree tq i = Some (of_nat n)" using tr(2) c False by simp
    from rocks_update [OF t(1) assms(4) at(1) ld(1,2) _ tr(1) this nq [unfolded op]] show ?thesis
      using that small_count(4) [OF le] False by (auto simp: write_db_def op n_def)
  qed
  have d: "write_db db (rx_batch q) (uniq_cf, prefix_key (serialize_key key) h) = db (uniq_cf, prefix_key (serialize_key key) h)" for h
    using q(2,3) by (intro write_db_other) (auto simp: writes_at_def)
  have "map_of_tree tu (rq_msgHash req) = None" using tr(4) assms(8) by simp
  from rocks_add [OF t(2) assms(5) at(2) _ ld(3) d tr(3) ap(2) K(2) this nu]
  obtain u ws' where u: "smt_add RocksStore H STATE_DEPTH (rq_msgHash req) 1 ((ld_uniq st)\<lparr>rx_batch := rx_batch q\<rparr>) = Inr u"
    "rx_batch u = ws @ ws'" "writes_at uniq_cf (serialize_key key) ws'"
    "tree_at H M (write_db db (ws @ ws')) uniq_cf (serialize_key key) (tree_exec STATE_DEPTH (Add (rq_msgHash req) 1) tu)"
    using q(2) by auto
  have "relay_record H st (of_nat n) req = Inr (ws @ ws')"
    by (simp only: relay_record_def Let_def one_be_def i_def [symmetric] v_def [symmetric] q(1) sbind_simps u(1,2))
  moreover have "tree_at H N (write_db db (ws @ ws')) quota_cf (serialize_key key)
      (tree_exec STATE_DEPTH (quota_op (map fst hist) i) tq)"
    using q(4) tree_at_other [OF u(3)] by (simp add: write_db_append)
  ultimately show ?thesis using u(4) tq' tu' by (auto simp: stands_for_def st_def n_def key_def)
qed

text \<open>A request of another state leaves the trees of this one alone.\<close>

lemma inner_other:
  assumes "relay_inner H E req db = (r, db', ixs)" "key_of req \<noteq> key"
  shows "stands_for H N M key hist db' = stands_for H N M key hist db"
proof (cases "db' = db")
  case False
  then obtain n batch where b: "relay_record H (load_state db (key_of req) []) n req = Inr batch" "db' = write_db db batch"
    using assms(1) by (auto simp: relay_inner_def Let_def split: sum.splits prod.splits option.splits)
  from record_writes [OF b(1)] obtain x y where "batch = x @ y" "writes_at quota_cf (serialize_key (key_of req)) x"
      "writes_at uniq_cf (serialize_key (key_of req)) y"
    by blast
  then show ?thesis
    using assms(2) serialize_key_inj [of key "key_of req"] tree_at_other
    by (auto simp: stands_for_def b(2) write_db_append)
qed simp

text \<open>What a request is answered, and what becomes of the history.\<close>

lemma inner_refuses:
  assumes "stands_for H N M (key_of req) hist db" "within hist" "spread hist" "sound_hash H N" "sound_hash H M"
  shows "rq_msgHash req \<in> snd ` set hist \<Longrightarrow> relay_inner H E req db = (Inl MessageDuplicated, db, [])"
    "rq_msgHash req \<notin> snd ` set hist \<Longrightarrow> used hist req = 3 \<Longrightarrow> relay_inner H E req db = (Inl MessageLimitExceeded, db, [])"
  using check_stands [OF assms] by (simp_all add: relay_inner_def Let_def)

lemma inner_keeps: "relay_inner H E req db = (Inl e, db', ixs) \<Longrightarrow> db' = db"
  by (auto simp: relay_inner_def Let_def split: sum.splits prod.splits option.splits)

lemma inner_stands:
  assumes "stands_for H N M (key_of req) hist db" "within hist" "spread (hist @ [entry req])"
    and "sound_hash H N" "sound_hash H M"
    and "fst (history_nodes H (hist @ [entry req])) \<subseteq> N" "snd (history_nodes H (hist @ [entry req])) \<subseteq> M"
    and "relay_inner H E req db = (Inr signature, db', ixs)"
  shows "stands_for H N M (key_of req) (hist @ [entry req]) db' \<and> within (hist @ [entry req])"
proof -
  have sp: "spread hist" using assms(3) by (auto simp: spread_def apart_def)
  note no = inner_refuses [OF assms(1,2) sp assms(4,5), of E]
  have m: "rq_msgHash req \<notin> snd ` set hist" using no(1) assms(8) by auto
  have "used hist req \<noteq> 3" using no(2) [OF m] assms(8) by auto
  then have u: "used hist req < 3" using assms(2) by (simp add: within_def used_def order.strict_iff_order)
  obtain ci where ci: "relay_check (load_state db (key_of req) []) req = Inr (of_nat (used hist req), ci)"
    using check_stands [OF assms(1,2) sp assms(4,5)] m u by auto
  obtain batch where b: "relay_record H (load_state db (key_of req) []) (of_nat (used hist req)) req = Inr batch"
      "stands_for H N M (key_of req) (hist @ [entry req]) (write_db db batch)"
    using record_stands [OF assms(1-7) m u] by blast
  have "db' = write_db db batch"
    using assms(8) ci b(1) by (auto simp: relay_inner_def Let_def split: sum.splits prod.splits option.splits)
  moreover have "within (hist @ [entry req])" using assms(2) m u by (auto simp: within_def entry_def used_def)
  ultimately show ?thesis using b(2) by simp
qed

section \<open>Runs\<close>

text \<open>The requests of a state that were answered with a signature.\<close>

fun accepted :: "state_key \<Rightarrow> ('p relay_env \<times> relay_request) list \<Rightarrow> (relay_error + string) list \<Rightarrow> history" where
  "accepted key (x # xs) (r # rs) =
     (if key_of (snd x) = key \<and> \<not> isl r then entry (snd x) # accepted key xs rs else accepted key xs rs)"
| "accepted key xs rs = []"

lemma history_nodes_prefix:
  "fst (history_nodes H hist) \<subseteq> fst (history_nodes H (hist @ later))"
  "snd (history_nodes H hist) \<subseteq> snd (history_nodes H (hist @ later))"
proof -
  have "fst (history_nodes H hist) \<subseteq> fst (history_nodes H (hist @ later)) \<and>
    snd (history_nodes H hist) \<subseteq> snd (history_nodes H (hist @ later))"
  proof (induction later rule: rev_induct)
    case (snoc e es)
    then show ?case
      unfolding history_nodes_def by (auto simp: run_nodes_snoc append_assoc [symmetric] simp del: append_assoc)
  qed simp
  then show "fst (history_nodes H hist) \<subseteq> fst (history_nodes H (hist @ later))"
    "snd (history_nodes H hist) \<subseteq> snd (history_nodes H (hist @ later))" by blast+
qed

lemma spread_prefix: "spread (hist @ later) \<Longrightarrow> spread hist"
  by (auto simp: spread_def apart_def)

lemma serve_stands:
  assumes "sound_hash H N" "sound_hash H M"
  shows "stands_for H N M key hist db \<Longrightarrow> within hist \<Longrightarrow> serve H xs db = (rs, db', log) \<Longrightarrow>
    spread (hist @ accepted key xs rs) \<Longrightarrow> fst (history_nodes H (hist @ accepted key xs rs)) \<subseteq> N \<Longrightarrow>
    snd (history_nodes H (hist @ accepted key xs rs)) \<subseteq> M \<Longrightarrow>
    stands_for H N M key (hist @ accepted key xs rs) db' \<and> within (hist @ accepted key xs rs)"
proof (induction xs arbitrary: hist db rs log)
  case Nil
  then show ?case by simp
next
  case (Cons x xs)
  obtain r db1 ixs where r: "relay_inner H (fst x) (snd x) db = (r, db1, ixs)" by (cases "relay_inner H (fst x) (snd x) db")
  obtain rs1 log1 where rs: "serve H xs db1 = (rs1, db', log1)" "rs = r # rs1"
    using Cons.prems(3) r by (auto split: prod.splits)
  show ?case
  proof (cases "key_of (snd x) = key \<and> \<not> isl r")
    case True
    then obtain sig where sig: "r = Inr sig" "key_of (snd x) = key" by (cases r) auto
    let ?h = "hist @ [entry (snd x)]"
    have acc: "hist @ accepted key (x # xs) rs = ?h @ accepted key xs rs1" using True rs by simp
    note P = Cons.prems(4-6) [unfolded acc]
    have "fst (history_nodes H ?h) \<subseteq> N" "snd (history_nodes H ?h) \<subseteq> M"
      using history_nodes_prefix [of H ?h "accepted key xs rs1"] P(2,3) by blast+
    then have "stands_for H N M key ?h db1 \<and> within ?h"
      using inner_stands [of H N M "snd x" hist db "fst x" sig db1] Cons.prems(1,2) assms spread_prefix [OF P(1)] r sig by simp
    then show ?thesis unfolding acc using Cons.IH [OF _ _ rs(1) P] by blast
  next
    case False
    then have acc: "hist @ accepted key (x # xs) rs = hist @ accepted key xs rs1" using rs by simp
    have "stands_for H N M key hist db1"
      using inner_other [OF r, of key] inner_keeps [of H "fst x" "snd x" db _ db1 ixs] r False Cons.prems(1) by (cases r) auto
    then show ?thesis unfolding acc
      using Cons.IH [OF _ Cons.prems(2) rs(1)] Cons.prems(4-6) acc by metis
  qed
qed

section \<open>What is sent\<close>

text \<open>The messages of a state that were sent with a report of success, in the order of the log.\<close>

definition delivered :: "state_key \<Rightarrow> 'p sending list \<Rightarrow> history" where
  "delivered key log = map (\<lambda>(E, req, ix). entry req)
     (filter (\<lambda>(E, req, ix). key_of req = key \<and> \<not> isl (relay_send E ix)) log)"

lemma delivered_simps [simp]:
  "delivered key [] = []"
  "delivered key ((E, req, ix) # log) =
     (if key_of req = key \<and> \<not> isl (relay_send E ix) then [entry req] else []) @ delivered key log"
  by (simp_all add: delivered_def)

lemma instruction_message: "relay_instruction E req proof pub_inputs = Inr ix \<Longrightarrow> ix_msgHash ix = rq_msgHash req"
  by (auto simp: relay_instruction_def Let_def split: if_splits)

lemma inner_log:
  assumes "relay_inner H E req db = (r, db', ixs)"
  obtains e where "ixs = []" "r = Inl e" "db' = db"
    | ix e where "ixs = [ix]" "relay_send E ix = Inl e" "r = Inl e" "db' = db" "ix_msgHash ix = rq_msgHash req"
    | ix s where "ixs = [ix]" "relay_send E ix = Inr s" "ix_msgHash ix = rq_msgHash req"
  using assms
  by (auto simp: relay_inner_def Let_def split: sum.splits prod.splits option.splits) (metis instruction_message)+

lemma inner_sends:
  assumes "stands_for H N M (key_of req) hist db" "within hist" "spread hist" "sound_hash H N" "sound_hash H M"
    and "relay_inner H E req db = (r, db', [ix])"
  shows "rq_msgHash req \<notin> snd ` set hist" "used hist req < 3"
proof -
  note no = inner_refuses [OF assms(1-5), of E]
  show m: "rq_msgHash req \<notin> snd ` set hist" using no(1) assms(6) by auto
  have "used hist req \<noteq> 3" using no(2) [OF m] assms(6) by auto
  then show "used hist req < 3" using assms(2) by (simp add: within_def used_def order.strict_iff_order)
qed

lemma inner_records:
  assumes "stands_for H N M (key_of req) hist db" "within hist" "spread (hist @ [entry req])"
    and "sound_hash H N" "sound_hash H M"
    and "fst (history_nodes H (hist @ [entry req])) \<subseteq> N" "snd (history_nodes H (hist @ [entry req])) \<subseteq> M"
    and "relay_inner H E req db = (r, db', [ix])" "relay_send E ix = Inr s"
  shows "r = Inr s" "stands_for H N M (key_of req) (hist @ [entry req]) db'" "within (hist @ [entry req])"
proof -
  have sp: "spread hist" using spread_prefix [OF assms(3)] .
  note m = inner_sends [OF assms(1,2) sp assms(4,5,8)]
  obtain ci where ci: "relay_check (load_state db (key_of req) []) req = Inr (of_nat (used hist req), ci)"
    using check_stands [OF assms(1,2) sp assms(4,5)] m by auto
  obtain batch where b: "relay_record H (load_state db (key_of req) []) (of_nat (used hist req)) req = Inr batch"
    using record_stands [OF assms(1-7) m] by blast
  show r: "r = Inr s"
    using assms(8,9) ci b by (auto simp: relay_inner_def Let_def split: option.splits prod.splits sum.splits)
  show "stands_for H N M (key_of req) (hist @ [entry req]) db'" "within (hist @ [entry req])"
    using inner_stands [OF assms(1-7) assms(8) [unfolded r]] by simp_all
qed

lemma serve_sends:
  assumes "sound_hash H N" "sound_hash H M"
  shows "stands_for H N M key hist db \<Longrightarrow> within hist \<Longrightarrow> serve H xs db = (rs, db', log) \<Longrightarrow>
    spread (hist @ delivered key log) \<Longrightarrow> fst (history_nodes H (hist @ delivered key log)) \<subseteq> N \<Longrightarrow>
    snd (history_nodes H (hist @ delivered key log)) \<subseteq> M \<Longrightarrow> log = before @ (E, req, ix) # after \<Longrightarrow> key_of req = key \<Longrightarrow>
    ix_msgHash ix = rq_msgHash req \<and> rq_msgHash req \<notin> snd ` set (hist @ delivered key before) \<and>
      used (hist @ delivered key before) req < 3"
proof (induction xs arbitrary: hist db rs log before)
  case (Cons x xs)
  obtain F q where x: "x = (F, q)" by (cases x)
  obtain r db1 ixs where r: "relay_inner H F q db = (r, db1, ixs)" by (cases "relay_inner H F q db")
  obtain rs1 log1 where s: "serve H xs db1 = (rs1, db', log1)" "log = map (\<lambda>ix. (F, q, ix)) ixs @ log1"
    using Cons.prems(3) r x by (auto split: prod.splits)
  have sp: "spread hist" using spread_prefix [OF Cons.prems(4)] .
  show ?case
  proof (cases "key_of q = key")
    case False
    then have st: "stands_for H N M key hist db1" using inner_other [OF r] Cons.prems(1) by simp
    have d: "delivered key log = delivered key log1" using False s(2) inner_log [OF r] by (cases rule: inner_log [OF r]) auto
    note IH = Cons.IH [OF st Cons.prems(2) s(1) Cons.prems(4-6) [unfolded d]]
    have "length ixs \<le> 1" by (cases rule: inner_log [OF r]) auto
    then consider "ixs = []" | ix0 where "ixs = [ix0]" by (cases ixs) auto
    then show ?thesis
    proof cases
      case 1
      then show ?thesis using IH Cons.prems(7,8) s(2) by simp
    next
      case 2
      then obtain ys where "before = (F, q, ix0) # ys" "log1 = ys @ (E, req, ix) # after"
        using Cons.prems(7,8) s(2) False by (auto simp: Cons_eq_append_conv)
      then show ?thesis using IH Cons.prems(8) False by simp
    qed
  next
    case True
    from r show ?thesis
    proof (cases rule: inner_log)
      case (1 e)
      then show ?thesis
        using Cons.IH [OF _ Cons.prems(2) s(1)] Cons.prems s(2) by simp
    next
      case (2 ix0 e)
      note snd = inner_sends [OF Cons.prems(1) [folded True] Cons.prems(2) sp assms r [unfolded 2(1)]]
      have d: "delivered key log = delivered key log1" using 2 s(2) by simp
      note IH = Cons.IH [OF Cons.prems(1) [folded 2(4)] Cons.prems(2) s(1) Cons.prems(4-6) [unfolded d]]
      show ?thesis
      proof (cases before)
        case Nil
        then show ?thesis using Cons.prems(7) s(2) 2 snd by simp
      next
        case (Cons y ys)
        then have "y = (F, q, ix0)" "log1 = ys @ (E, req, ix) # after" using Cons.prems(7) s(2) 2(1) by auto
        then show ?thesis using IH Cons.prems(8) Cons 2(2) True by simp
      qed
    next
      case (3 ix0 e)
      let ?h = "hist @ [entry q]"
      note snd = inner_sends [OF Cons.prems(1) [folded True] Cons.prems(2) sp assms r [unfolded 3(1)]]
      have d: "hist @ delivered key log = ?h @ delivered key log1" using 3 s(2) True by simp
      note P = Cons.prems(4-6) [unfolded d]
      have n: "fst (history_nodes H ?h) \<subseteq> N" "snd (history_nodes H ?h) \<subseteq> M"
        using history_nodes_prefix [of H ?h "delivered key log1"] P(2,3) by blast+
      note rec = inner_records [OF Cons.prems(1) [folded True] Cons.prems(2) spread_prefix [OF P(1)] assms n r [unfolded 3(1)] 3(2)]
      note IH = Cons.IH [OF rec(2) [unfolded True] rec(3) s(1) P]
      show ?thesis
      proof (cases before)
        case Nil
        then show ?thesis using Cons.prems(7) s(2) 3 snd by simp
      next
        case (Cons y ys)
        then have "y = (F, q, ix0)" "log1 = ys @ (E, req, ix) # after" using Cons.prems(7) s(2) 3(1) by auto
        then show ?thesis using IH Cons.prems(8) Cons 3(2) True by simp
      qed
    qed
  qed
qed simp

end
