(* ===== verification/RelayServerProps.thy ===== *)
theory RelayServerProps
  imports RelayServerCorrect
begin

text \<open>
  What the relayer service promises to its clients, over any run of requests on an empty database.
  The requests and the answers are of any states mixed; the properties are about one state.
\<close>

text \<open>The sender index is the low bits of the sender's number, as the circuit takes them.\<close>

lemma drop_be_digits: "drop k (be_digits b (k + n) x) = be_digits b n x"
  by (induction n arbitrary: x) simp_all

lemma index_of_take_bit: "index_of nu = take_bit STATE_DEPTH nu"
proof -
  have "drop 24 (word_bytes nu) = map word_of_int (be_digits 256 8 (uint nu))"
    using drop_be_digits [of 24 256 8 "uint nu"] by (simp add: word_bytes_def drop_map)
  then have "index_of nu = word_of_int (uint nu mod 256 ^ 8)"
    by (simp add: index_of_def bytes_word_def uint_bytes be_val_be_digits del: map_map)
  also have "\<dots> = word_of_int (take_bit 64 (uint nu))" by (simp add: take_bit_eq_mod)
  also have "\<dots> = take_bit 64 nu" by transfer (simp add: take_bit_take_bit)
  finally show ?thesis .
qed

lemma stands_empty: "stands_for H N M key [] (\<lambda>x. None)"
  by (simp add: stands_for_def tree_at_empty uniq_ops_def)

text \<open>The hypotheses on a history: keys that differ early, and nodes that do not collide.\<close>

definition safe_history :: "poseidon \<Rightarrow> history \<Rightarrow> bool" where
  "safe_history H hist \<longleftrightarrow> spread hist \<and> sound_hash H (fst (history_nodes H hist)) \<and> sound_hash H (snd (history_nodes H hist))"

lemma safe_prefix: "safe_history H (hist @ later) \<Longrightarrow> safe_history H hist"
  using spread_prefix history_nodes_prefix [of H hist later] sound_hash_sub by (auto simp: safe_history_def)

lemma serve_history:
  assumes "serve H xs (\<lambda>x. None) = (rs, db, log)" "safe_history H (accepted key xs rs @ later)"
  shows "stands_for H (fst (history_nodes H (accepted key xs rs @ later))) (snd (history_nodes H (accepted key xs rs @ later)))
      key (accepted key xs rs) db \<and> within (accepted key xs rs)"
proof -
  have "within []" by (simp add: within_def)
  moreover have "spread ([] @ accepted key xs rs)" using safe_prefix [OF assms(2)] by (simp add: safe_history_def)
  ultimately show ?thesis
    using serve_stands [OF _ _ stands_empty _ assms(1), where key = key
        and N = "fst (history_nodes H (accepted key xs rs @ later))"
        and M = "snd (history_nodes H (accepted key xs rs @ later))"]
      history_nodes_prefix [of H "accepted key xs rs" later] assms(2)
    by (simp add: safe_history_def)
qed

text \<open>
  C15: A message that was sent is not sent again, and a sender index is served at most as often as the
  limit. In any run of requests from an empty database, whatever the prover and the chain do: when the
  service sends an instruction for a request, no instruction with the same message hash was sent
  before for that state with a report of success, and fewer than \<open>MSG_LIMIT\<close> with the same sender
  index were. (The hypothesis is about the messages of the state that were sent with such a report:
  their hashes, and their sender indices, differ in the first 63 bits unless they are the same, and
  the nodes of the trees over them have no Poseidon collision. A transaction that lands without a
  report of success does not count: the service knows nothing of it.)
\<close>

theorem relayed_once_within_limit:
  assumes "serve H xs (\<lambda>x. None) = (rs, db, before @ (E, req, ix) # after)"
    and "safe_history H (delivered (key_of req) (before @ (E, req, ix) # after))"
  shows "ix_msgHash ix = rq_msgHash req \<and> rq_msgHash req \<notin> snd ` set (delivered (key_of req) before) \<and>
    count_list (map fst (delivered (key_of req) before)) (index_of (rq_nu req)) < unat MSG_LIMIT"
proof -
  let ?hist = "delivered (key_of req) (before @ (E, req, ix) # after)"
  have s: "sound_hash H (fst (history_nodes H ?hist))" "sound_hash H (snd (history_nodes H ?hist))" "spread ?hist"
    using assms(2) by (simp_all add: safe_history_def)
  have "within []" by (simp add: within_def)
  from serve_sends [OF s(1,2) stands_empty this assms(1) _ _ _ refl refl] s(3)
  show ?thesis by (simp add: used_def MSG_LIMIT_def)
qed

lemma inner_answers:
  assumes "stands_for H N M (key_of req) hist db" "within hist" "spread (hist @ [entry req])"
    and "sound_hash H N" "sound_hash H M"
    and "fst (history_nodes H (hist @ [entry req])) \<subseteq> N" "snd (history_nodes H (hist @ [entry req])) \<subseteq> M"
    and "rq_msgHash req \<notin> snd ` set hist" "used hist req \<noteq> 3"
  shows "\<exists>ci. ci_msgHash ci = rq_msgHash req \<and> ci_nu ci = rq_nu req \<and> ci_msgLimit ci = MSG_LIMIT \<and>
    ci_countOld ci = of_nat (used hist req) \<and>
    ci_rootQuotaOld ci = stored_root db quota_cf (serialize_key (key_of req)) \<and>
    ci_rootUniqOld ci = stored_root db uniq_cf (serialize_key (key_of req)) \<and>
    (case re_prove E ci of None \<Rightarrow> relay_inner H E req db = (Inl ProverError, db, [])
     | Some (proof, pub_inputs) \<Rightarrow>
    (case relay_instruction E req proof pub_inputs of Inl e \<Rightarrow> relay_inner H E req db = (Inl e, db, [])
     | Inr ix \<Rightarrow>
    (case relay_send E ix of Inl e \<Rightarrow> relay_inner H E req db = (Inl e, db, [ix])
     | Inr signature \<Rightarrow> \<exists>db'. relay_inner H E req db = (Inr signature, db', [ix]) \<and>
         (\<forall>F q. key_of q = key_of req \<and> rq_msgHash q = rq_msgHash req \<longrightarrow>
            relay_inner H F q db' = (Inl MessageDuplicated, db', [])))))"
proof -
  have sp: "spread hist" using spread_prefix [OF assms(3)] .
  have u: "used hist req < 3" using assms(2,9) by (simp add: within_def used_def order.strict_iff_order)
  obtain ci where ci: "relay_check (load_state db (key_of req) []) req = Inr (of_nat (used hist req), ci)"
    "ci_countOld ci = of_nat (used hist req) \<and> ci_msgHash ci = rq_msgHash req \<and> ci_nu ci = rq_nu req \<and>
      ci_msgLimit ci = MSG_LIMIT \<and> ci_rootQuotaOld ci = stored_root db quota_cf (serialize_key (key_of req)) \<and>
      ci_rootUniqOld ci = stored_root db uniq_cf (serialize_key (key_of req))"
    using check_stands [OF assms(1,2) sp assms(4,5)] assms(8,9) by auto
  obtain batch where batch: "relay_record H (load_state db (key_of req) []) (of_nat (used hist req)) req = Inr batch"
      "stands_for H N M (key_of req) (hist @ [entry req]) (write_db db batch)"
    using record_stands [OF assms(1-8) u] by blast
  have w: "within (hist @ [entry req])" using assms(2,8) u by (auto simp: within_def entry_def used_def)
  have again: "relay_inner H F q (write_db db batch) = (Inl MessageDuplicated, write_db db batch, [])"
    if "key_of q = key_of req" "rq_msgHash q = rq_msgHash req" for F and q
    using inner_refuses(1) [OF batch(2) [folded that(1)] w assms(3-5)] that(2) by (simp add: entry_def)
  have run: "relay_inner H E req db = (case re_prove E ci of None \<Rightarrow> (Inl ProverError, db, [])
     | Some (proof, pub_inputs) \<Rightarrow>
    (case relay_instruction E req proof pub_inputs of Inl e \<Rightarrow> (Inl e, db, [])
     | Inr ix \<Rightarrow>
    (case relay_send E ix of Inl e \<Rightarrow> (Inl e, db, [ix])
     | Inr signature \<Rightarrow> (Inr signature, write_db db batch, [ix]))))"
    using ci(1) batch(1) by (simp add: relay_inner_def Let_def split: option.split sum.split)
  show ?thesis using ci(2) again
    by (intro exI [of _ ci]) (auto simp: run split: option.splits sum.splits)
qed

text \<open>
  C18: What the next request is answered. A message that was relayed before is refused as a
  duplicate, one of a sender at the limit is refused for that, and both are not sent and leave the
  database as it was. Any other is put to the prover with the roots that are stored and the number of
  times its sender index was used; a failure of the prover leaves the database as it was and sends
  nothing; a report of failure by the sender of transactions, or none at all, leaves the database as
  it was although the instruction was sent, and may have landed; and when the sender reports success
  the answer is the signature, and the message is recorded: it is refused as a duplicate from then
  on. (All this for a history with the new request in which the keys of each tree differ in their
  first 63 bits and the nodes do not collide; else the message may be sent and not recorded.)
\<close>

theorem relay_answers:
  assumes "serve H xs (\<lambda>x. None) = (rs, db, log)" "hist = accepted (key_of req) xs rs" "safe_history H (hist @ [entry req])"
  shows "if rq_msgHash req \<in> snd ` set hist then relay_inner H E req db = (Inl MessageDuplicated, db, [])
    else if used hist req = unat MSG_LIMIT then relay_inner H E req db = (Inl MessageLimitExceeded, db, [])
    else \<exists>ci. ci_msgHash ci = rq_msgHash req \<and> ci_nu ci = rq_nu req \<and> ci_msgLimit ci = MSG_LIMIT \<and>
    ci_countOld ci = of_nat (used hist req) \<and>
    ci_rootQuotaOld ci = stored_root db ''nodes:quota'' (serialize_key (key_of req)) \<and>
    ci_rootUniqOld ci = stored_root db ''nodes:uniq'' (serialize_key (key_of req)) \<and>
    (case re_prove E ci of None \<Rightarrow> relay_inner H E req db = (Inl ProverError, db, [])
     | Some (proof, pub_inputs) \<Rightarrow>
    (case relay_instruction E req proof pub_inputs of Inl e \<Rightarrow> relay_inner H E req db = (Inl e, db, [])
     | Inr ix \<Rightarrow>
    (case relay_send E ix of Inl e \<Rightarrow> relay_inner H E req db = (Inl e, db, [ix])
     | Inr signature \<Rightarrow> \<exists>db'. relay_inner H E req db = (Inr signature, db', [ix]) \<and>
         (\<forall>F q. key_of q = key_of req \<and> rq_msgHash q = rq_msgHash req \<longrightarrow>
            relay_inner H F q db' = (Inl MessageDuplicated, db', [])))))"
proof -
  let ?N = "fst (history_nodes H (hist @ [entry req]))" and ?M = "snd (history_nodes H (hist @ [entry req]))"
  have st: "stands_for H ?N ?M (key_of req) hist db" "within hist"
    using serve_history [OF assms(1), of "key_of req" "[entry req]"] assms(2,3) by simp_all
  have h: "spread (hist @ [entry req])" "sound_hash H ?N" "sound_hash H ?M"
    using assms(3) by (simp_all add: safe_history_def)
  have l: "unat MSG_LIMIT = 3" by (simp add: MSG_LIMIT_def)
  consider "rq_msgHash req \<in> snd ` set hist" | "rq_msgHash req \<notin> snd ` set hist" "used hist req = 3"
    | "rq_msgHash req \<notin> snd ` set hist" "used hist req \<noteq> 3" by blast
  then show ?thesis
  proof cases
    case 3
    then show ?thesis using inner_answers [OF st h order.refl order.refl 3] by (simp add: l)
  qed (use inner_refuses [OF st spread_prefix [OF h(1)] h(2,3)] l in simp_all)
qed

section \<open>A sample run\<close>

text \<open>A relayer whose prover and chain work, and a request that is sent twice.\<close>

definition sample_env :: "unit relay_env" where
  "sample_env = \<lparr>re_prove = (\<lambda>ci. Some ((), [0, 7, 8, ci_msgHash ci, ucast (ci_msgLimit ci)])), re_accounts = (\<lambda>p i. []),
     re_send = (\<lambda>ix. \<lparr>so_landed = True, so_report = Some [\<lparr>tx_signature = ''s1'', tx_ok = True\<rparr>]\<rparr>)\<rparr>"

definition sample_request :: relay_request where
  "sample_request = \<lparr>rq_msgHash = 11, rq_nu = 2 ^ 64 + 5, rq_discriminator = 1, rq_data = [], rq_program = 9, rq_stateId = 4,
     rq_cuLimit = None, rq_accounts = []\<rparr>"

lemma sample_safe:
  "safe_history sample_hash [entry sample_request]"
  "safe_history sample_hash [entry sample_request, entry (sample_request\<lparr>rq_nu := 5\<rparr>)]"
  by (simp_all add: safe_history_def spread_def apart_def history_nodes_def uniq_ops_def quota_op_def sample_hash_def
      sound_hash_def node_key_def leaf_key_def entry_def sample_request_def index_of_take_bit upd_numeral inj_on_def)

lemma sample_first:
  assumes "safe_history H [entry sample_request]"
  obtains db ix where "relay_inner H sample_env sample_request (\<lambda>x. None) = (Inr ''s1'', db, [ix])"
proof -
  let ?N = "fst (history_nodes H ([] @ [entry sample_request]))" and ?M = "snd (history_nodes H ([] @ [entry sample_request]))"
  have h: "spread ([] @ [entry sample_request])" "sound_hash H ?N" "sound_hash H ?M"
    using assms by (simp_all add: safe_history_def)
  have "within []" by (simp add: within_def)
  from inner_answers [OF stands_empty this h order.refl order.refl, of sample_env] that
  show ?thesis
    by (auto simp: used_def sample_env_def relay_instruction_def relay_send_def RELAY_CU_def sample_request_def)
qed

lemma relayed_once_within_limit_witness:
  "\<exists>db ix. serve sample_hash [(sample_env, sample_request)] (\<lambda>x. None) =
      ([Inr ''s1''], db, [(sample_env, sample_request, ix)]) \<and>
    ix_msgHash ix = 11 \<and> delivered (key_of sample_request) [(sample_env, sample_request, ix)] = [(5, 11)]"
proof -
  obtain db ix where r: "relay_inner sample_hash sample_env sample_request (\<lambda>x. None) = (Inr ''s1'', db, [ix])"
    using sample_first sample_safe(1) by blast
  then have s: "serve sample_hash [(sample_env, sample_request)] (\<lambda>x. None) =
      ([Inr ''s1''], db, [] @ (sample_env, sample_request, ix) # [])" by simp
  have d: "delivered (key_of sample_request) ([] @ (sample_env, sample_request, ix) # []) = [entry sample_request]"
    by (simp add: relay_send_def sample_env_def)
  have "entry sample_request = (5, 11)" by (simp add: entry_def sample_request_def index_of_take_bit)
  moreover have "rq_msgHash sample_request = 11" by (simp add: sample_request_def)
  ultimately show ?thesis using relayed_once_within_limit [OF s] s d sample_safe(1) by auto
qed

lemma relay_answers_witness:
  "\<exists>db log. serve sample_hash [(sample_env, sample_request)] (\<lambda>x. None) = ([Inr ''s1''], db, log) \<and>
    relay_inner sample_hash sample_env (sample_request\<lparr>rq_nu := 5\<rparr>) db = (Inl MessageDuplicated, db, [])"
proof -
  obtain db ix where "relay_inner sample_hash sample_env sample_request (\<lambda>x. None) = (Inr ''s1'', db, [ix])"
    using sample_first sample_safe(1) by blast
  then have s: "serve sample_hash [(sample_env, sample_request)] (\<lambda>x. None) =
      ([Inr ''s1''], db, [(sample_env, sample_request, ix)])" by simp
  have "relay_inner sample_hash sample_env (sample_request\<lparr>rq_nu := 5\<rparr>) db = (Inl MessageDuplicated, db, [])"
    using relay_answers [OF s refl, of "sample_request\<lparr>rq_nu := 5\<rparr>" sample_env] sample_safe
    by (simp add: key_of_def entry_def)
  with s show ?thesis by blast
qed

text \<open>
  A transaction that lands without a report leaves no trace: the database is as it was, and the
  message is sent again when it is asked for again.
\<close>

definition silent_env :: "unit relay_env" where
  "silent_env = sample_env\<lparr>re_send := (\<lambda>ix. \<lparr>so_landed = True, so_report = None\<rparr>)\<rparr>"

lemma landed_unreported_is_lost:
  "\<exists>ix db. serve sample_hash [(silent_env, sample_request), (sample_env, sample_request)] (\<lambda>x. None) =
      ([Inl TransactorError, Inr ''s1''], db, [(silent_env, sample_request, ix), (sample_env, sample_request, ix)]) \<and>
    so_landed (re_send silent_env ix)"
proof -
  obtain db ix where r: "relay_inner sample_hash sample_env sample_request (\<lambda>x. None) = (Inr ''s1'', db, [ix])"
    using sample_first sample_safe(1) by blast
  then have "relay_inner sample_hash silent_env sample_request (\<lambda>x. None) = (Inl TransactorError, (\<lambda>x. None), [ix])"
    by (auto simp: relay_inner_def silent_env_def sample_env_def relay_instruction_def relay_send_def Let_def
        split: sum.splits option.splits prod.splits if_splits)
  with r show ?thesis by (auto simp: silent_env_def)
qed

end
