(* ===== verification/RelayCircuit.thy ===== *)
theory RelayCircuit
  imports TallyCircuit RelayServer
begin

text \<open>
  The relay circuit, \<open>circom/Relay.circom\<close>, over the templates of \<open>TallyCircuit\<close>, and the encoding of
  its inputs by the relayer service (\<open>relayer/src/prover.rs\<close>, \<open>utils.rs\<close>): byte arrays as decimal
  numbers, flags as 0 and 1.
\<close>

record relay_signals =
  rl_msgHash :: int
  rl_msgLimit :: int
  rl_nu :: int
  rl_rootQuotaOld :: int
  rl_rootUniqOld :: int
  rl_countOld :: int
  rl_siblingsQuota :: "int list"
  rl_noAuxQuota :: int
  rl_auxKeyQuota :: int
  rl_auxValueQuota :: int
  rl_siblingsUniq :: "int list"
  rl_noAuxUniq :: int
  rl_auxKeyUniq :: int
  rl_auxValueUniq :: int

definition ser_be32 :: "b256 \<Rightarrow> int" where "ser_be32 v = uint v"

definition ser_arr_be32 :: "b256 list \<Rightarrow> int list" where "ser_arr_be32 vs = map ser_be32 vs"

definition ser_bool :: "bool \<Rightarrow> int" where "ser_bool b = (if b then 1 else 0)"

definition signals_of :: "circuit_inputs \<Rightarrow> relay_signals" where
  "signals_of ci = \<lparr>rl_msgHash = ser_be32 (ci_msgHash ci), rl_msgLimit = uint (ci_msgLimit ci), rl_nu = ser_be32 (ci_nu ci),
     rl_rootQuotaOld = ser_be32 (ci_rootQuotaOld ci), rl_rootUniqOld = ser_be32 (ci_rootUniqOld ci),
     rl_countOld = uint (ci_countOld ci), rl_siblingsQuota = ser_arr_be32 (ci_siblingsQuota ci),
     rl_noAuxQuota = ser_bool (ci_noAuxQuota ci), rl_auxKeyQuota = ser_be32 (ci_auxKeyQuota ci),
     rl_auxValueQuota = ser_be32 (ci_auxValueQuota ci), rl_siblingsUniq = ser_arr_be32 (ci_siblingsUniq ci),
     rl_noAuxUniq = ser_bool (ci_noAuxUniq ci), rl_auxKeyUniq = ser_be32 (ci_auxKeyUniq ci),
     rl_auxValueUniq = ser_be32 (ci_auxValueUniq ci)\<rparr>"

text \<open>
  \<open>split\<close> is the prover's assignment to \<open>nuLo\<close> and \<open>nuHi\<close>. The outputs are \<open>rootStateOld\<close>,
  \<open>rootStateNew\<close> and \<open>nuHash\<close>.
\<close>

definition Relay :: "circuit_lib \<Rightarrow> nat \<Rightarrow> (int \<Rightarrow> int \<times> int) \<Rightarrow> relay_signals \<Rightarrow> (int \<times> int \<times> int) option" where
  "Relay C depth split i =
     (let H = tc_H C;
          isWithinQuota = tc_lessThan16 C (rl_countOld i) (rl_msgLimit i);
          (nuLo, nuHi) = split (rl_nu i);
          isOldEmpty = tc_isZero C (rl_countOld i)
      in if length (rl_siblingsQuota i) = depth \<and> length (rl_siblingsUniq i) = depth \<and> isWithinQuota = Some 1 \<and>
            (rl_nu i - (nuLo + nuHi * 2 ^ depth)) mod FP = 0 \<and>
            tc_smtVerifier C \<lparr>sv_enabled = 1, sv_root = rl_rootQuotaOld i, sv_siblings = rl_siblingsQuota i,
              sv_oldKey = rl_auxKeyQuota i, sv_oldValue = rl_auxValueQuota i, sv_isOld0 = rl_noAuxQuota i,
              sv_key = nuLo, sv_value = rl_countOld i, sv_fnc = isOldEmpty\<rparr> \<and>
            tc_smtVerifier C \<lparr>sv_enabled = 1, sv_root = rl_rootUniqOld i, sv_siblings = rl_siblingsUniq i,
              sv_oldKey = rl_auxKeyUniq i, sv_oldValue = rl_auxValueUniq i, sv_isOld0 = rl_noAuxUniq i,
              sv_key = rl_msgHash i, sv_value = 0, sv_fnc = 1\<rparr>
         then (case tc_smtProcessor C \<lparr>sp_oldRoot = rl_rootQuotaOld i, sp_siblings = rl_siblingsQuota i,
                 sp_oldKey = rl_auxKeyQuota i, sp_oldValue = rl_auxValueQuota i, sp_isOld0 = rl_noAuxQuota i,
                 sp_newKey = nuLo, sp_newValue = (rl_countOld i + 1) mod FP,
                 sp_fnc = (isOldEmpty, (1 - isOldEmpty) mod FP)\<rparr> of
               None \<Rightarrow> None
             | Some rootQuotaNew \<Rightarrow>
               (case tc_smtProcessor C \<lparr>sp_oldRoot = rl_rootUniqOld i, sp_siblings = rl_siblingsUniq i,
                 sp_oldKey = rl_auxKeyUniq i, sp_oldValue = rl_auxValueUniq i, sp_isOld0 = rl_noAuxUniq i,
                 sp_newKey = rl_msgHash i, sp_newValue = 1, sp_fnc = (1, 0)\<rparr> of
               None \<Rightarrow> None
             | Some rootUniqNew \<Rightarrow> Some (H [rl_rootQuotaOld i, rl_rootUniqOld i], H [rootQuotaNew, rootUniqNew],
                 H [rl_nu i, rl_msgHash i])))
         else None)"

text \<open>The circuit of the service, with the hints of the witness generator.\<close>

definition main_relay :: "circuit_lib \<Rightarrow> relay_signals \<Rightarrow> (int \<times> int \<times> int) option" where
  "main_relay C = Relay C 64 (nu_split 64)"

end
