(* ===== verification/SmtPaths.thy ===== *)
theory SmtPaths
  imports SparseTreeProps
begin

text \<open>
  The hash paths of the sparse Merkle tree: what an insertion or an update does to the hashes on the
  path of the key, in terms of the leaf and the siblings of the key's proof alone. This is the view
  of the circuits, which see no tree but a leaf, its siblings and two roots.
\<close>

section \<open>Siblings\<close>

text \<open>The siblings up to the last that is not zero, and the root over a leaf below them.\<close>

definition strip :: "b256 list \<Rightarrow> b256 list" where
  "strip xs = rev (dropWhile (\<lambda>x. x = 0) (rev xs))"

definition path_root :: "poseidon \<Rightarrow> b256 \<Rightarrow> b256 list \<Rightarrow> b256 option \<Rightarrow> b256 option" where
  "path_root H key siblings leaf = Option.bind leaf (climb H 0 key siblings)"

text \<open>The nodes of a tree have no colliding hashes, and a lone leaf is next to something.\<close>

definition sound_tree :: "poseidon \<Rightarrow> smt \<Rightarrow> bool" where
  "sound_tree H t \<longleftrightarrow> sound_hash H (nodes H t) \<and> dense t"

lemma sound_tree_digest: "sound_tree H t \<Longrightarrow> \<exists>h. digest H t = Some h \<and> (h = 0 \<longleftrightarrow> t = Empty)"
  using digest_sound [OF _ order.refl] by (simp add: sound_tree_def)

lemma sound_tree_sub:
  assumes "sound_tree H (Fork l r)"
  shows "sound_tree H l" "sound_tree H r"
proof -
  have "nodes H l \<subseteq> nodes H (Fork l r)" "nodes H r \<subseteq> nodes H (Fork l r)" by auto
  then show "sound_tree H l" "sound_tree H r"
    using assms sound_hash_sub by (auto simp: sound_tree_def)
qed

lemma sound_tree_sides: "sound_tree H (Fork l r) \<Longrightarrow> \<exists>x. digest H (if c then l else r) = Some x"
  using sound_tree_digest [of H l] sound_tree_digest [of H r] sound_tree_sub [of H l r] by auto

lemma strip_walk:
  assumes "sound_tree H t" "height t < n"
  shows "strip (fst (walk H n lvl key t) @ replicate m 0) = fst (walk H n lvl key t)"
  using strip_zeros [OF walk_last [OF _ order.refl assms(2)]] assms(1)
  by (simp add: sound_tree_def strip_def)

lemma walk_root:
  "sound_tree H t \<Longrightarrow> height t < n \<Longrightarrow>
    Option.bind (leaf_hash H (snd (walk H n lvl key t))) (climb H lvl key (fst (walk H n lvl key t))) = digest H t"
  using climb_walk [OF _ order.refl] by (simp add: sound_tree_def)

text \<open>The hash path as a function of the leaf's hash.\<close>

lemma climb_fun:
  "climb H lvl key [] = Some"
  "climb H lvl key (x # xs) = (\<lambda>h. Option.bind (climb H (Suc lvl) key xs h) (\<lambda>c. node_key H (side (bit key lvl) c x)))"
  by (simp_all add: fun_eq_iff)

section \<open>Insertion\<close>

lemma digest_fork:
  "digest H u = Some x \<Longrightarrow> digest H (fork c t u) = Option.bind (digest H t) (\<lambda>h. node_key H (side c h x))"
  by (auto simp: fork_def side_def node_key_def split: option.splits)

lemma push_path:
  "push D lvl (k, v) (ok, ov) = Inr t \<Longrightarrow> leaf_key H ok ov = Some oh \<Longrightarrow>
    \<exists>d \<ge> lvl. d < lvl + height t \<and> (\<forall>i. lvl \<le> i \<longrightarrow> i < d \<longrightarrow> bit k i = bit ok i) \<and> bit k d \<noteq> bit ok d \<and>
      digest H t = Option.bind (leaf_key H k v) (climb H lvl k (replicate (d - lvl) 0 @ [oh]))"
proof (induction "D - lvl" arbitrary: lvl t)
  case 0
  then show ?case by (simp add: push.simps [of D])
next
  case (Suc n)
  have n: "n = D - Suc lvl" using Suc.hyps(2) by simp
  from push_step [OF Suc.prems(1)] show ?case
  proof (elim disjE conjE exE)
    fix u
    assume b: "bit (fst (k, v)) lvl = bit (fst (ok, ov)) lvl" and u: "push D (Suc lvl) (k, v) (ok, ov) = Inr u"
      and t: "t = fork (bit (fst (k, v)) lvl) u Empty"
    obtain d where d: "d \<ge> Suc lvl" "d < Suc lvl + height u" "\<forall>i. Suc lvl \<le> i \<longrightarrow> i < d \<longrightarrow> bit k i = bit ok i"
        "bit k d \<noteq> bit ok d" "digest H u = Option.bind (leaf_key H k v) (climb H (Suc lvl) k (replicate (d - Suc lvl) 0 @ [oh]))"
      using Suc.hyps(1) [OF n u Suc.prems(2)] by blast
    have same: "bit k i = bit ok i" if "lvl \<le> i" "i < d" for i
      using that b d(3) by (cases "i = lvl") auto
    have r: "replicate (d - lvl) (0 :: b256) = 0 # replicate (d - Suc lvl) 0"
      using d(1) by (simp flip: replicate_Suc add: Suc_diff_Suc)
    have "digest H t = Option.bind (leaf_key H k v) (climb H lvl k (replicate (d - lvl) 0 @ [oh]))"
      unfolding t r using d(5) by (simp add: digest_fork [where x = 0] climb_fun del: climb.simps)
    then show ?thesis using d(1,2,4) same t by (intro exI [of _ d]) auto
  next
    assume "bit (fst (k, v)) lvl \<noteq> bit (fst (ok, ov)) lvl" "t = fork (bit (fst (k, v)) lvl) (Tip (fst (k, v)) (snd (k, v))) (Tip (fst (ok, ov)) (snd (ok, ov)))"
    then show ?thesis using Suc.prems(2) by (intro exI [of _ lvl]) (simp add: digest_fork [where x = oh] climb_fun del: climb.simps)
  qed
qed

lemma ins_path:
  "ins D lvl new t = Inr t' \<Longrightarrow> sound_tree H t \<Longrightarrow> height t < n \<Longrightarrow> walk H n lvl (fst new) t = (sibs, found) \<Longrightarrow>
   (case found of
      None \<Rightarrow> digest H t' = Option.bind (leaf_key H (fst new) (snd new)) (climb H lvl (fst new) sibs)
    | Some (ok, ov) \<Rightarrow> fst new \<noteq> ok \<and> (\<exists>d oh. leaf_key H ok ov = Some oh \<and> lvl + length sibs \<le> d \<and> d < lvl + height t' \<and>
        (\<forall>i. lvl + length sibs \<le> i \<longrightarrow> i < d \<longrightarrow> bit (fst new) i = bit ok i) \<and> bit (fst new) d \<noteq> bit ok d \<and>
        digest H t' = Option.bind (leaf_key H (fst new) (snd new))
          (climb H lvl (fst new) (sibs @ replicate (d - (lvl + length sibs)) 0 @ [oh]))))"
proof (induction D lvl new t arbitrary: t' n sibs found rule: ins.induct)
  case (1 D lvl new)
  then obtain m where "n = Suc m" by (cases n) auto
  then show ?case using 1 by (auto simp: climb_fun)
next
  case (2 D lvl new k v)
  then obtain m where m: "n = Suc m" by (cases n) auto
  obtain oh where oh: "leaf_key H k v = Some oh" using sound_tree_digest [OF 2(2)] by auto
  have "fst new \<noteq> k" "push D lvl (fst new, snd new) (k, v) = Inr t'" using 2(1) by (auto split: if_splits)
  moreover from push_path [OF this(2) oh] obtain d where "lvl \<le> d" "d < lvl + height t'"
      "\<forall>i. lvl \<le> i \<longrightarrow> i < d \<longrightarrow> bit (fst new) i = bit k i" "bit (fst new) d \<noteq> bit k d"
      "digest H t' = Option.bind (leaf_key H (fst new) (snd new)) (climb H lvl (fst new) (replicate (d - lvl) 0 @ [oh]))"
    by blast
  moreover have "sibs = []" "found = Some (k, v)" using 2(4) m by simp_all
  ultimately show ?case using oh by (simp del: climb.simps) (intro exI [of _ d], simp)
next
  case (3 D lvl new l r)
  obtain m where m: "n = Suc m" using 3(5) by (cases n) auto
  have d: "\<not> D \<le> lvl" using 3(3) by auto
  let ?go = "bit (fst new) lvl"
  let ?c = "if ?go then r else l" and ?s = "if ?go then l else r"
  obtain x where x: "digest H ?s = Some x"
    using sound_tree_sides [OF 3(4), of ?go] by blast
  obtain u where u: "ins D (Suc lvl) new ?c = Inr u" "t' = fork ?go u ?s"
    using 3(3) d by (auto simp: sbind_def fork_def split: sum.splits if_splits)
  obtain ss where w: "walk H m (Suc lvl) (fst new) ?c = (ss, found)" "sibs = x # ss"
    using 3(6) x m by (auto split: prod.splits)
  have c: "sound_tree H ?c" "height ?c < m" using sound_tree_sub [OF 3(4)] 3(5) m by auto
  have IH: "case found of
      None \<Rightarrow> digest H u = Option.bind (leaf_key H (fst new) (snd new)) (climb H (Suc lvl) (fst new) ss)
    | Some (ok, ov) \<Rightarrow> fst new \<noteq> ok \<and> (\<exists>d oh. leaf_key H ok ov = Some oh \<and> Suc lvl + length ss \<le> d \<and> d < Suc lvl + height u \<and>
        (\<forall>i. Suc lvl + length ss \<le> i \<longrightarrow> i < d \<longrightarrow> bit (fst new) i = bit ok i) \<and> bit (fst new) d \<noteq> bit ok d \<and>
        digest H u = Option.bind (leaf_key H (fst new) (snd new))
          (climb H (Suc lvl) (fst new) (ss @ replicate (d - (Suc lvl + length ss)) 0 @ [oh])))"
  proof (cases ?go)
    case True
    show ?thesis by (rule 3(1) [OF d True]) (use True u(1) c w(1) in \<open>simp_all only: if_True\<close>)
  next
    case False
    show ?thesis by (rule 3(2) [OF d False]) (use False u(1) c w(1) in \<open>simp_all only: if_False\<close>)
  qed
  note up = digest_fork [OF x, where t = u and c = ?go]
  show ?case
  proof (cases found)
    case None
    then show ?thesis using IH up by (simp add: u(2) w(2) climb_fun del: climb.simps)
  next
    case (Some f)
    obtain ok ov where f: "f = (ok, ov)" by (cases f)
    from IH Some f obtain d oh where d: "fst new \<noteq> ok" "leaf_key H ok ov = Some oh" "Suc lvl + length ss \<le> d" "d < Suc lvl + height u"
        "\<forall>i. Suc lvl + length ss \<le> i \<longrightarrow> i < d \<longrightarrow> bit (fst new) i = bit ok i" "bit (fst new) d \<noteq> bit ok d"
        "digest H u = Option.bind (leaf_key H (fst new) (snd new))
          (climb H (Suc lvl) (fst new) (ss @ replicate (d - (Suc lvl + length ss)) 0 @ [oh]))"
      by auto
    show ?thesis using d up Some f by (auto simp: u(2) w(2) climb_fun simp del: climb.simps intro!: exI [of _ d])
  qed
qed

lemma ins_hashed:
  assumes "ins D lvl new t = Inr t'" "sound_tree H t" "digest H t' = Some h"
  shows "leaf_key H (fst new) (snd new) \<noteq> None"
proof -
  obtain sibs found where w: "walk H (Suc (height t)) lvl (fst new) t = (sibs, found)"
    by (cases "walk H (Suc (height t)) lvl (fst new) t")
  show ?thesis using ins_path [OF assms(1,2) _ w] assms(3)
    by (cases "leaf_key H (fst new) (snd new)") (auto split: option.splits)
qed

section \<open>Update\<close>

lemma upd_path:
  "upd n lvl k v t = Inr (old, t') \<Longrightarrow> sound_tree H t \<Longrightarrow>
    snd (walk H n lvl k t) = Some (k, old) \<and>
    digest H t' = Option.bind (leaf_key H k v) (climb H lvl k (fst (walk H n lvl k t)))"
proof (induction n lvl k v t arbitrary: t' rule: upd.induct)
  case (3 n lvl key val k v)
  then show ?case by (auto split: if_splits)
next
  case (4 n lvl key val l r)
  let ?go = "bit key lvl"
  let ?c = "if ?go then r else l" and ?s = "if ?go then l else r"
  obtain x where x: "digest H ?s = Some x"
    using sound_tree_sides [OF 4(4), of ?go] by blast
  obtain u where u: "upd n (Suc lvl) key val ?c = Inr (old, u)" "t' = fork ?go u ?s"
    using 4(3) by (auto simp: sbind_def fork_def split: sum.splits if_splits)
  have "snd (walk H n (Suc lvl) key ?c) = Some (key, old) \<and>
      digest H u = Option.bind (leaf_key H key val) (climb H (Suc lvl) key (fst (walk H n (Suc lvl) key ?c)))"
    using 4(1,2) u(1) sound_tree_sub [OF 4(4)] by (cases ?go) simp_all
  then show ?case using x digest_fork [OF x, where t = u and c = ?go]
    by (auto simp: u(2) climb_fun simp del: climb.simps split: prod.splits)
qed auto

end
