(* ===== verification/RelayCircuitCorrect.thy ===== *)
theory RelayCircuitCorrect
  imports RelayCircuit RelayServerProps SmtPaths TallyCircuitCorrect
begin

text \<open>
  The relayer service and the relay circuit agree: what the service puts to the prover satisfies
  the circuit, and the new root that the circuit gives to the chain is the one of the trees that the
  service then stores.
\<close>

section \<open>The templates of circomlib\<close>

definition verifier_in :: "b256 \<Rightarrow> SparseTree.circom_proof \<Rightarrow> b256 \<Rightarrow> int \<Rightarrow> int \<Rightarrow> smt_verifier_in" where
  "verifier_in root p k v fnc = \<lparr>sv_enabled = 1, sv_root = ser_be32 root, sv_siblings = ser_arr_be32 (zp_siblings p),
     sv_oldKey = ser_be32 (zp_oldKey p), sv_oldValue = ser_be32 (zp_oldValue p), sv_isOld0 = ser_bool (zp_isOld0 p),
     sv_key = ser_be32 k, sv_value = v, sv_fnc = fnc\<rparr>"

definition processor_in :: "b256 \<Rightarrow> SparseTree.circom_proof \<Rightarrow> b256 \<Rightarrow> int \<Rightarrow> int \<times> int \<Rightarrow> smt_processor_in" where
  "processor_in root p k v fnc = \<lparr>sp_oldRoot = ser_be32 root, sp_siblings = ser_arr_be32 (zp_siblings p),
     sp_oldKey = ser_be32 (zp_oldKey p), sp_oldValue = ser_be32 (zp_oldValue p), sp_isOld0 = ser_bool (zp_isOld0 p),
     sp_newKey = ser_be32 k, sp_newValue = v, sp_fnc = fnc\<rparr>"

text \<open>
  What the templates of circomlib check is a hash path: the siblings up to the last that is not zero
  (which is not the last of all), the leaf or the empty place below them, and the root. The verifier
  accepts the absence of a key (function 1) when an empty place or the leaf of another key is at the
  end of the path, and its presence (function 0) when its own leaf is. The processor inserts into an
  empty place; it inserts beside the leaf of another key at the first level at which the two keys
  differ, with zeros for siblings on the levels between; and it exchanges the value of a leaf.
\<close>

definition proof_leaf :: "poseidon \<Rightarrow> SparseTree.circom_proof \<Rightarrow> b256 option" where
  "proof_leaf H p = (if zp_isOld0 p then Some 0 else leaf_key H (zp_oldKey p) (zp_oldValue p))"

definition well_formed :: "SparseTree.circom_proof \<Rightarrow> b256 \<Rightarrow> bool" where
  "well_formed p k \<longleftrightarrow> length (zp_siblings p) = 64 \<and> last (zp_siblings p) = 0 \<and> uint k < FP"

definition verifier_law :: "circuit_lib \<Rightarrow> poseidon \<Rightarrow> bool" where
  "verifier_law C H \<longleftrightarrow> (\<forall>root p k. well_formed p k \<longrightarrow>
     (zp_isOld0 p \<or> zp_oldKey p \<noteq> k) \<and> path_root H k (strip (zp_siblings p)) (proof_leaf H p) = Some root \<longrightarrow>
       (\<forall>x. tc_smtVerifier C (verifier_in root p k x 1))) \<and>
   (\<forall>root p k v. well_formed p k \<longrightarrow> path_root H k (strip (zp_siblings p)) (leaf_key H k v) = Some root \<longrightarrow>
       tc_smtVerifier C (verifier_in root p k (ser_be32 v) 0))"

definition insert_empty_law :: "circuit_lib \<Rightarrow> poseidon \<Rightarrow> bool" where
  "insert_empty_law C H \<longleftrightarrow> (\<forall>root root' p k v. well_formed p k \<longrightarrow> zp_isOld0 p \<longrightarrow>
     path_root H k (strip (zp_siblings p)) (Some 0) = Some root \<longrightarrow>
     path_root H k (strip (zp_siblings p)) (leaf_key H k v) = Some root' \<longrightarrow>
     tc_smtProcessor C (processor_in root p k (ser_be32 v) (1, 0)) = Some (ser_be32 root'))"

definition insert_beside_law :: "circuit_lib \<Rightarrow> poseidon \<Rightarrow> bool" where
  "insert_beside_law C H \<longleftrightarrow> (\<forall>root root' p k v d other. well_formed p k \<longrightarrow> \<not> zp_isOld0 p \<longrightarrow>
     leaf_key H (zp_oldKey p) (zp_oldValue p) = Some other \<longrightarrow>
     path_root H k (strip (zp_siblings p)) (Some other) = Some root \<longrightarrow>
     length (strip (zp_siblings p)) \<le> d \<longrightarrow> d < 63 \<longrightarrow>
     (\<forall>i. length (strip (zp_siblings p)) \<le> i \<longrightarrow> i < d \<longrightarrow> bit k i = bit (zp_oldKey p) i) \<longrightarrow>
     bit k d \<noteq> bit (zp_oldKey p) d \<longrightarrow>
     path_root H k (strip (zp_siblings p) @ replicate (d - length (strip (zp_siblings p))) 0 @ [other]) (leaf_key H k v) =
       Some root' \<longrightarrow>
     tc_smtProcessor C (processor_in root p k (ser_be32 v) (1, 0)) = Some (ser_be32 root'))"

definition exchange_law :: "circuit_lib \<Rightarrow> poseidon \<Rightarrow> bool" where
  "exchange_law C H \<longleftrightarrow> (\<forall>root root' p k v. well_formed p k \<longrightarrow> zp_oldKey p = k \<longrightarrow>
     path_root H k (strip (zp_siblings p)) (leaf_key H k (zp_oldValue p)) = Some root \<longrightarrow>
     path_root H k (strip (zp_siblings p)) (leaf_key H k v) = Some root' \<longrightarrow>
     tc_smtProcessor C (processor_in root p k (ser_be32 v) (0, 1)) = Some (ser_be32 root'))"

text \<open>Poseidon takes and gives field elements, and fails on anything else.\<close>

definition field_hash :: "poseidon \<Rightarrow> bool" where
  "field_hash H \<longleftrightarrow> (\<forall>xs h. H xs = Some h \<longrightarrow> uint h < FP \<and> (\<forall>x \<in> set xs. uint x < FP))"

definition relay_circuit_law :: "circuit_lib \<Rightarrow> poseidon \<Rightarrow> bool" where
  "relay_circuit_law C H \<longleftrightarrow> field_hash H \<and> verifier_law C H \<and> insert_empty_law C H \<and> insert_beside_law C H \<and>
     exchange_law C H \<and>
     (\<forall>x. 0 \<le> x \<and> x < FP \<longrightarrow> tc_isZero C x = (if x = 0 then 1 else 0)) \<and>
     (\<forall>a b. tc_lessThan16 C a b = less_than16 a b)"

section \<open>The proofs of the crate are such paths\<close>

definition tree_format :: "poseidon \<Rightarrow> smt \<Rightarrow> b256 \<Rightarrow> bool" where
  "tree_format H t root \<longleftrightarrow> digest H t = Some root \<and> sound_tree H t \<and> height t < 64 \<and> 0 \<notin> keys t"

lemma length_walk_height: "length (fst (walk H n lvl key t)) \<le> height t"
  by (induction H n lvl key t rule: walk.induct) (auto split: prod.splits)

lemma siblings_of_proof: "zp_siblings (proof_of D k w) = fst w @ replicate (D - length (fst w)) 0"
  by (auto simp: proof_of_def no_leaf_def Let_def split: option.splits)

lemma proof_format:
  assumes "tree_format H t root" "uint k < FP" "p = proof_of 64 k (walk H 64 0 k t)"
  shows "well_formed p k" "strip (zp_siblings p) = fst (walk H 64 0 k t)"
    "proof_leaf H p = leaf_hash H (snd (walk H 64 0 k t))"
    "path_root H k (strip (zp_siblings p)) (proof_leaf H p) = Some root"
    "snd (walk H 64 0 k t) = None \<Longrightarrow> zp_isOld0 p"
    "snd (walk H 64 0 k t) = Some (ok, ov) \<Longrightarrow> \<not> zp_isOld0 p \<and> zp_oldKey p = ok \<and> zp_oldValue p = ov"
proof -
  let ?w = "walk H 64 0 k t"
  have t: "digest H t = Some root" "sound_tree H t" "height t < 64" using assms(1) by (simp_all add: tree_format_def)
  have len: "length (fst ?w) < 64" using length_walk_height [of H 64 0 k t] t(3) by simp
  have nz: "ok \<noteq> 0" if "snd ?w = Some (ok, ov)" for ok ov
    using walk_keys [OF that] assms(1) by (auto simp: tree_format_def)
  show "well_formed p k" using len assms(2) by (simp add: well_formed_def assms(3) siblings_of_proof)
  show s: "strip (zp_siblings p) = fst ?w" using strip_walk [OF t(2,3)] by (simp add: assms(3) siblings_of_proof)
  show l: "proof_leaf H p = leaf_hash H (snd ?w)"
    using nz by (auto simp: proof_leaf_def assms(3) proof_of_def no_leaf_def Let_def leaf_hash_def split: option.splits)
  show "path_root H k (strip (zp_siblings p)) (proof_leaf H p) = Some root"
    using walk_root [OF t(2,3)] t(1) by (simp add: path_root_def s l)
  show "zp_isOld0 p" if "snd ?w = None" using that by (simp add: assms(3) proof_of_def no_leaf_def Let_def)
  show "\<not> zp_isOld0 p \<and> zp_oldKey p = ok \<and> zp_oldValue p = ov" if "snd ?w = Some (ok, ov)"
    using that nz [OF that] by (simp add: assms(3) proof_of_def Let_def)
qed

lemma proof_verified:
  assumes "verifier_law C H" "tree_format H t root" "uint k < FP" "p = proof_of 64 k (walk H 64 0 k t)"
  shows "find_leaf 0 k t = None \<Longrightarrow> tc_smtVerifier C (verifier_in root p k x 1)"
    "find_leaf 0 k t = Some w \<Longrightarrow> tc_smtVerifier C (verifier_in root p k (ser_be32 w) 0)"
proof -
  note f = proof_format [OF assms(2-4)]
  have t: "height t < 64" using assms(2) by (simp add: tree_format_def)
  note m = walk_map [OF t, where lvl = 0 and key = k and H = H]
  show "tc_smtVerifier C (verifier_in root p k x 1)" if "find_leaf 0 k t = None"
  proof -
    have "zp_isOld0 p \<or> zp_oldKey p \<noteq> k"
      using that m f(5,6) by (cases "snd (walk H 64 0 k t)") (auto split: if_splits)
    then show ?thesis using assms(1) f(1,4) unfolding verifier_law_def by blast
  qed
  show "tc_smtVerifier C (verifier_in root p k (ser_be32 w) 0)" if "find_leaf 0 k t = Some w"
  proof -
    have "snd (walk H 64 0 k t) = Some (k, w)" using that m by (auto split: option.splits if_splits)
    then have "proof_leaf H p = leaf_key H k w" using f(3) by (simp add: leaf_hash_def)
    then show ?thesis using assms(1) f(1,4) unfolding verifier_law_def by metis
  qed
qed

lemma proof_inserted:
  assumes "insert_empty_law C H" "insert_beside_law C H" "tree_format H t root" "uint k < FP"
    and "p = proof_of 64 k (walk H 64 0 k t)" "ins 64 0 (k, w) t = Inr t'" "height t' < 64" "digest H t' = Some root'"
  shows "tc_smtProcessor C (processor_in root p k (ser_be32 w) (1, 0)) = Some (ser_be32 root')"
proof -
  note f = proof_format [OF assms(3-5)]
  have t: "sound_tree H t" "height t < 64" using assms(3) by (simp_all add: tree_format_def)
  obtain sibs found where W: "walk H 64 0 k t = (sibs, found)" by (cases "walk H 64 0 k t")
  note path = ins_path [OF assms(6) t, where sibs = sibs and found = found, unfolded fst_conv snd_conv, OF W]
  show ?thesis
  proof (cases found)
    case None
    then have "path_root H k (strip (zp_siblings p)) (leaf_key H k w) = Some root'"
      using path assms(8) by (simp add: path_root_def f(2) W)
    then show ?thesis using assms(1) f(1,3,4,5) None
      unfolding insert_empty_law_def by (auto simp: W leaf_hash_def)
  next
    case (Some x)
    obtain ok ov where x: "x = (ok, ov)" by (cases x)
    from path Some x obtain d oh where d: "leaf_key H ok ov = Some oh" "length sibs \<le> d" "d < height t'"
        "\<forall>i. length sibs \<le> i \<longrightarrow> i < d \<longrightarrow> bit k i = bit ok i" "bit k d \<noteq> bit ok d"
        "digest H t' = Option.bind (leaf_key H k w) (climb H 0 k (sibs @ replicate (d - length sibs) 0 @ [oh]))"
      by auto
    have old: "\<not> zp_isOld0 p" "zp_oldKey p = ok" "zp_oldValue p = ov" using f(6) Some x W by auto
    have s: "strip (zp_siblings p) = sibs" using f(2) W by simp
    have "path_root H k (strip (zp_siblings p)) (Some oh) = Some root" using f(3,4) Some x d(1) by (simp add: leaf_hash_def W)
    moreover have "path_root H k (strip (zp_siblings p) @ replicate (d - length (strip (zp_siblings p))) 0 @ [oh]) (leaf_key H k w) =
        Some root'"
      using d(6) assms(8) by (simp add: path_root_def s)
    moreover have "d < 63" using d(3) assms(7) by simp
    ultimately show ?thesis using assms(2) f(1) old d(1,2,4,5) s unfolding insert_beside_law_def by blast
  qed
qed

lemma proof_exchanged:
  assumes "exchange_law C H" "tree_format H t root" "uint k < FP" "p = proof_of 64 k (walk H 64 0 k t)"
    and "upd 64 0 k w t = Inr (old, t')" "digest H t' = Some root'"
  shows "tc_smtProcessor C (processor_in root p k (ser_be32 w) (0, 1)) = Some (ser_be32 root')"
proof -
  note f = proof_format [OF assms(2-4)]
  have u: "snd (walk H 64 0 k t) = Some (k, old)"
      "digest H t' = Option.bind (leaf_key H k w) (climb H 0 k (fst (walk H 64 0 k t)))"
    using upd_path [OF assms(5)] assms(2) by (simp_all add: tree_format_def)
  have "path_root H k (strip (zp_siblings p)) (leaf_key H k w) = Some root'"
    using u(2) assms(6) by (simp add: path_root_def f(2))
  moreover have "zp_oldKey p = k" "path_root H k (strip (zp_siblings p)) (leaf_key H k (zp_oldValue p)) = Some root"
    using f(3,4,6) u(1) by (auto simp: leaf_hash_def)
  ultimately show ?thesis using assms(1) f(1) unfolding exchange_law_def by blast
qed

section \<open>A message that may be relayed satisfies the circuit\<close>

definition inputs_for ::
  "b256 \<Rightarrow> b256 \<Rightarrow> b256 \<Rightarrow> b256 \<Rightarrow> 64 word \<Rightarrow> SparseTree.circom_proof \<Rightarrow> SparseTree.circom_proof \<Rightarrow> circuit_inputs" where
  "inputs_for rq ru msg nu n pq pu = \<lparr>ci_rootQuotaOld = rq, ci_rootUniqOld = ru, ci_msgHash = msg,
     ci_msgLimit = MSG_LIMIT, ci_nu = nu, ci_countOld = n,
     ci_siblingsQuota = zp_siblings pq, ci_noAuxQuota = zp_isOld0 pq,
     ci_auxKeyQuota = zp_oldKey pq, ci_auxValueQuota = zp_oldValue pq,
     ci_siblingsUniq = zp_siblings pu, ci_noAuxUniq = zp_isOld0 pu,
     ci_auxKeyUniq = zp_oldKey pu, ci_auxValueUniq = zp_oldValue pu\<rparr>"

lemma length_proof_of: "length (zp_siblings (proof_of 64 k (walk H 64 0 k t))) = 64"
  using length_walk [of H 64 0 k t] by (auto simp: proof_of_def no_leaf_def Let_def split: option.splits)

lemma uint_small:
  assumes "n < 3"
  shows "uint (of_nat n :: 64 word) = int n" "uint (of_nat n :: b256) = int n" "uint (of_nat (n + 1) :: b256) = int n + 1"
proof -
  consider "n = 0" | "n = 1" | "n = 2" using assms by linarith
  then have "uint (of_nat n :: 64 word) = int n \<and> uint (of_nat n :: b256) = int n \<and> uint (of_nat (n + 1) :: b256) = int n + 1"
    by cases simp_all
  then show "uint (of_nat n :: 64 word) = int n" "uint (of_nat n :: b256) = int n" "uint (of_nat (n + 1) :: b256) = int n + 1"
    by blast+
qed

lemma relay_accepts:
  assumes law: "relay_circuit_law C H"
    and q: "tree_format H tq rq" "uint k < FP" "find_leaf 0 k tq = (if n = 0 then None else Some (of_nat n))"
    and u: "tree_format H tu ru" "uint m < FP" "find_leaf 0 m tu = None"
    and split: "split (uint nu) = (uint k, hi)" "(uint nu - (uint k + hi * 2 ^ 64)) mod FP = 0" and n: "n < 3"
    and q': "if n = 0 then ins 64 0 (k, 1) tq = Inr tq' \<and> height tq' < 64
      else upd 64 0 k (of_nat (n + 1)) tq = Inr (of_nat n, tq')" "digest H tq' = Some rq'"
    and u': "ins 64 0 (m, 1) tu = Inr tu'" "height tu' < 64" "digest H tu' = Some ru'"
  shows "Relay C 64 split (signals_of (inputs_for rq ru m nu (of_nat n)
      (proof_of 64 k (walk H 64 0 k tq)) (proof_of 64 m (walk H 64 0 m tu)))) =
    Some (tc_H C [uint rq, uint ru], tc_H C [uint rq', uint ru'], tc_H C [uint nu, uint m])"
proof -
  let ?pq = "proof_of 64 k (walk H 64 0 k tq)" and ?pu = "proof_of 64 m (walk H 64 0 m tu)"
  have T: "verifier_law C H" "insert_empty_law C H" "insert_beside_law C H" "exchange_law C H"
    using law by (simp_all add: relay_circuit_law_def)
  have z: "tc_isZero C (int n) = (if n = 0 then 1 else 0)" "tc_lessThan16 C (int n) 3 = Some 1"
    using law n less_than16_small [of "int n" 3] by (auto simp: relay_circuit_law_def FP_def)
  have vq: "tc_smtVerifier C (verifier_in rq ?pq k (int n) (if n = 0 then 1 else 0))"
    using proof_verified(1) [OF T(1) q(1,2) refl, where x = "int n"]
      proof_verified(2) [OF T(1) q(1,2) refl, where w = "of_nat n"] q(3) uint_small(2) [OF n] by (auto simp: ser_be32_def)
  have pq: "tc_smtProcessor C (processor_in rq ?pq k (int n + 1) (if n = 0 then (1, 0) else (0, 1))) = Some (uint rq')"
    using proof_inserted [OF T(2,3) q(1,2) refl, of 1 tq' rq']
      proof_exchanged [OF T(4) q(1,2) refl, of "of_nat (n + 1)" "of_nat n" tq' rq'] q' uint_small(3) [OF n]
    by (auto simp: ser_be32_def split: if_splits)
  have vu: "tc_smtVerifier C (verifier_in ru ?pu m 0 1)" using proof_verified(1) [OF T(1) u(1,2) refl u(3)] .
  have pu: "tc_smtProcessor C (processor_in ru ?pu m 1 (1, 0)) = Some (uint ru')"
    using proof_inserted [OF T(2,3) u(1,2) refl u'] by (simp add: ser_be32_def)
  have mods: "(int n + 1) mod FP = int n + 1" "(1 - (0 :: int)) mod FP = 1" using n by (simp_all add: FP_def)
  show ?thesis
    using vq pq vu pu z mods split uint_small(1) [OF n]
    by (cases "n = 0") (simp_all add: Relay_def signals_of_def inputs_for_def verifier_in_def processor_in_def Let_def
        ser_be32_def ser_arr_be32_def MSG_LIMIT_def length_proof_of)
qed

section \<open>The service and the circuit\<close>

lemma tree_after_dense: "dense (tree_after xs)"
  by (induction xs rule: rev_induct) (simp_all add: tree_exec_dense)

lemma rep_sound:
  "rep H f t h \<Longrightarrow> tidy H N f \<Longrightarrow> nodes H t \<subseteq> N"
proof (induction t arbitrary: h)
  case (Fork l r)
  then obtain a b where ab: "rep H f l a" "rep H f r b" "f h = Some (Middle a b)" by auto
  then have "Middle a b \<in> N" using Fork.prems(2) by (auto simp: tidy_def)
  then show ?case using Fork.IH [OF _ Fork.prems(2)] ab rep_digest [OF ab(1)] rep_digest [OF ab(2)] by auto
qed (auto simp: tidy_def)

lemma tree_at_sound: "tree_at H N db cf p t \<Longrightarrow> sound_hash H N \<Longrightarrow> dense t \<Longrightarrow> sound_tree H t"
  using rep_sound sound_hash_sub by (auto simp: tree_at_def sound_tree_def)

lemma history_format:
  assumes "stands_for H N M key hist db" "within hist" "spread hist" "0 \<notin> fst ` set hist" "0 \<notin> snd ` set hist"
    and "sound_hash H N" "sound_hash H M"
  shows "tree_format H (tree_after (quota_ops [] (map fst hist))) (stored_root db quota_cf (serialize_key key))"
    "tree_format H (tree_after (uniq_ops (map snd hist))) (stored_root db uniq_cf (serialize_key key))"
proof -
  have s: "spread (hist @ [])" using assms(3) by simp
  note tr = spread_trees [OF s assms(2)]
  show "tree_format H (tree_after (quota_ops [] (map fst hist))) (stored_root db quota_cf (serialize_key key))"
    "tree_format H (tree_after (uniq_ops (map snd hist))) (stored_root db uniq_cf (serialize_key key))"
    using assms(1,4,5) tr(1,3) tree_at_sound [OF _ assms(6) tree_after_dense] tree_at_sound [OF _ assms(7) tree_after_dense]
      rep_digest
    by (auto simp: tree_format_def stands_for_def low_def) (auto simp: tree_at_def)
qed

lemma check_inputs:
  assumes "relay_check st req = Inr (n, ci)"
  shows "ci = inputs_for (ns_root RocksStore (ld_quota st)) (ns_root RocksStore (ld_uniq st)) (rq_msgHash req) (rq_nu req) n
    (get_proof RocksStore 64 (index_of (rq_nu req)) (ld_quota st)) (get_proof RocksStore 64 (rq_msgHash req) (ld_uniq st))"
  using assms by (auto simp: relay_check_def Let_def inputs_for_def split: if_splits)

lemma quota_step:
  assumes "low 64 K t" "apart 64 K" "k \<in> K" "map_of_tree t k = (if count_list is k = 0 then None else Some (of_nat (count_list is k)))"
    and "t' = tree_exec 64 (quota_op is k) t"
  shows "if count_list is k = 0 then ins 64 0 (k, 1) t = Inr t' \<and> height t' < 64
    else upd 64 0 k (of_nat (count_list is k + 1)) t = Inr (of_nat (count_list is k), t')"
proof (cases "count_list is k = 0")
  case True
  then obtain u where "ins 64 0 (k, 1) t = Inr u" "low 64 K u"
    using low_ins(2) [OF assms(2,3,1), of 1] assms(4) by auto
  then show ?thesis using True assms(5) by (simp add: quota_op_def low_def)
next
  case False
  then obtain u where "upd 64 0 k (of_nat (count_list is k + 1)) t = Inr (of_nat (count_list is k), u)"
    using low_upd(2) [OF assms(1), of k "of_nat (count_list is k)" "of_nat (count_list is k + 1)"] assms(4) by auto
  then show ?thesis using False assms(5) by (simp add: quota_op_def)
qed

text \<open>
  The circuit accepts the step from a history to the one with a further message, under any index
  that the prover splits off.
\<close>

lemma history_step_accepted:
  assumes law: "relay_circuit_law C H"
    and st: "stands_for H N M key hist db" "within hist" "spread (hist @ [(k, m)])" "0 \<notin> fst ` set hist" "0 \<notin> snd ` set hist"
    and st': "stands_for H N' M' key (hist @ [(k, m)]) db'" and sound: "sound_hash H N" "sound_hash H M"
    and km: "uint k < FP" "m \<notin> snd ` set hist" "count_list (map fst hist) k < 3"
    and split: "split (uint nu) = (uint k, hi)" "(uint nu - (uint k + hi * 2 ^ 64)) mod FP = 0"
  defines "p \<equiv> serialize_key key"
  shows "Relay C 64 split (signals_of (inputs_for (stored_root db quota_cf p) (stored_root db uniq_cf p) m nu
      (of_nat (count_list (map fst hist) k))
      (proof_of 64 k (walk H 64 0 k (tree_after (quota_ops [] (map fst hist)))))
      (proof_of 64 m (walk H 64 0 m (tree_after (uniq_ops (map snd hist))))))) =
    Some (tc_H C [uint (stored_root db quota_cf p), uint (stored_root db uniq_cf p)],
      tc_H C [uint (stored_root db' quota_cf p), uint (stored_root db' uniq_cf p)], tc_H C [uint nu, uint m])"
proof -
  let ?tq = "tree_after (quota_ops [] (map fst hist))" and ?tu = "tree_after (uniq_ops (map snd hist))"
  let ?n = "count_list (map fst hist) k"
  note tr = spread_trees [OF st(3,2)]
  note fm = history_format [OF st(1,2) spread_prefix [OF st(3)] st(4,5) sound, folded p_def]
  have ap: "apart 64 (fst ` set (hist @ [(k, m)]))" "apart 64 (snd ` set (hist @ [(k, m)]))"
    using st(3) by (simp_all add: spread_def)
  have K: "k \<in> fst ` set (hist @ [(k, m)])" "m \<in> snd ` set (hist @ [(k, m)])" by auto
  have q: "find_leaf 0 k ?tq = (if ?n = 0 then None else Some (of_nat ?n))" "find_leaf 0 m ?tu = None"
    using fun_cong [OF tr(2), of k] fun_cong [OF tr(4), of m] km(2) by (simp_all add: map_of_tree_def)
  define tq' where "tq' = tree_exec 64 (quota_op (map fst hist) k) ?tq"
  have q': "if ?n = 0 then ins 64 0 (k, 1) ?tq = Inr tq' \<and> height tq' < 64
      else upd 64 0 k (of_nat (?n + 1)) ?tq = Inr (of_nat ?n, tq')"
    using quota_step [OF tr(1) ap(1) K(1) _ tq'_def] q(1) by (simp add: map_of_tree_def)
  obtain tu' where tu': "ins 64 0 (m, 1) ?tu = Inr tu'" "low 64 (snd ` set (hist @ [(k, m)])) tu'"
    using low_ins(2) [OF ap(2) K(2) tr(3), of 1] q(2) by (auto simp: map_of_tree_def)
  have d: "digest H tq' = Some (stored_root db' quota_cf p)" "digest H tu' = Some (stored_root db' uniq_cf p)"
    using st' tu'(1) rep_digest by (auto simp: stands_for_def tree_at_def p_def tq'_def)
  have h: "height tu' < 64" using tu'(2) by (simp add: low_def)
  have "leaf_key H m 1 \<noteq> None" using ins_hashed [OF tu'(1) _ d(2)] fm(2) by (simp add: tree_format_def)
  then have m: "uint m < FP" using law by (auto simp: leaf_key_def relay_circuit_law_def field_hash_def)
  show ?thesis
    using relay_accepts [where split = split and nu = nu, OF law fm(1) km(1) q(1) fm(2) m q(2) split km(3) q' d(1) tu'(1) h d(2)] .
qed

text \<open>
  A dishonest relayer may relay for a sender beyond the limit: it splits off the index \<open>k\<close> of anyone
  who has relays left, and the circuit accepts, with the hash of the true sender and message.
\<close>

lemma relayer_chooses_index:
  assumes "relay_circuit_law C H"
    and "stands_for H N M key hist db" "within hist" "spread (hist @ [(k, m)])" "0 \<notin> fst ` set hist" "0 \<notin> snd ` set hist"
    and "stands_for H N' M' key (hist @ [(k, m)]) db'" "sound_hash H N" "sound_hash H M"
    and "uint k < FP" "m \<notin> snd ` set hist" "count_list (map fst hist) k < 3"
  shows "\<exists>split signals roots. rl_nu signals = uint (nu :: b256) \<and> rl_msgHash signals = uint m \<and>
    Relay C 64 split signals = Some (tc_H C [uint (stored_root db quota_cf (serialize_key key)),
      uint (stored_root db uniq_cf (serialize_key key))], roots, tc_H C [uint nu, uint m])"
proof -
  let ?split = "\<lambda>nu. (uint k, (nu - uint k) * INV64 mod FP)"
  have r: "rl_nu (signals_of (inputs_for a b m nu n x y)) = uint nu" "rl_msgHash (signals_of (inputs_for a b m nu n x y)) = uint m"
    for a b n x y and nu :: b256 by (simp_all add: signals_of_def inputs_for_def ser_be32_def)
  show ?thesis
    using history_step_accepted [OF assms, where split = ?split and nu = nu, OF refl any_index(3)] r by blast
qed

text \<open>
  C16: The service and the circuit agree. After any run, when the service relays one more message,
  what it put to the prover satisfies every constraint of the relay circuit; the old state that the
  circuit gives to the chain is the hash of the roots that were stored before, the new state is the
  hash of the roots that are stored afterwards, and the third output is the hash of the sender and
  the message. (The templates of circomlib check and extend hash paths as their laws say; that the
  proofs of the crate are such paths, and its new roots the roots of the extended paths, is proved.
  The conditions: in the history of the state with the new message the keys of each tree differ in
  their first 63 bits and the nodes do not collide; no earlier sender index and no earlier message
  hash is zero, for a proof that ends at a leaf with the key zero calls it an empty place; and the
  sender's number is a field element.)
\<close>

theorem relayed_message_satisfies_circuit:
  assumes "relay_circuit_law C H"
    and "serve H xs (\<lambda>x. None) = (rs, db, log)" "hist = accepted (key_of req) xs rs"
    and "safe_history H (hist @ [RelayServerCorrect.entry req])" "0 \<notin> fst ` set hist" "0 \<notin> snd ` set hist"
    and "uint (rq_nu req) < FP"
    and "relay_inner H E req db = (Inr signature, db', sent)" "p = serialize_key (key_of req)"
  shows "\<exists>n ci. relay_check (load_state db (key_of req) []) req = Inr (n, ci) \<and>
    main_relay C (signals_of ci) = Some
      (tc_H C [uint (stored_root db ''nodes:quota'' p), uint (stored_root db ''nodes:uniq'' p)],
       tc_H C [uint (stored_root db' ''nodes:quota'' p), uint (stored_root db' ''nodes:uniq'' p)],
       tc_H C [uint (rq_nu req), uint (rq_msgHash req)])"
proof -
  let ?e = "RelayServerCorrect.entry req" and ?st = "load_state db (key_of req) []"
  let ?N = "fst (history_nodes H (hist @ [?e]))" and ?M = "snd (history_nodes H (hist @ [?e]))"
  let ?k = "index_of (rq_nu req)" and ?m = "rq_msgHash req"
  have e: "?e = (?k, ?m)" by (simp add: RelayServerCorrect.entry_def)
  have st: "stands_for H ?N ?M (key_of req) hist db" "within hist"
    using serve_history [OF assms(2), of "key_of req" "[?e]"] assms(3,4) by simp_all
  have h: "spread (hist @ [?e])" "sound_hash H ?N" "sound_hash H ?M"
    using assms(4) by (simp_all add: safe_history_def)
  have st': "stands_for H ?N ?M (key_of req) (hist @ [?e]) db'"
    using inner_stands [OF st h order.refl order.refl assms(8)] by blast
  note no = inner_refuses [OF st spread_prefix [OF h(1)] h(2,3), of E]
  have m: "?m \<notin> snd ` set hist" using no(1) assms(8) by auto
  have "used hist req \<noteq> 3" using no(2) [OF m] assms(8) by auto
  then have c: "count_list (map fst hist) ?k < 3" using st(2) by (simp add: within_def used_def order.strict_iff_order)
  obtain ci where ci: "relay_check ?st req = Inr (of_nat (used hist req), ci)"
    using check_stands [OF st spread_prefix [OF h(1)] h(2,3)] m c by (auto simp: used_def)
  note hold = load_holds [OF st(1) h(2,3)]
  have roots: "ns_root RocksStore (ld_quota ?st) = stored_root db quota_cf p" "ns_root RocksStore (ld_uniq ?st) = stored_root db uniq_cf p"
    by (simp_all add: load_state_def new_rocks_def RocksStore_def assms(9))
  have k: "uint ?k = uint (rq_nu req) mod 2 ^ 64" by (simp add: index_of_take_bit unsigned_take_bit_eq) (simp add: take_bit_eq_mod)
  have kf: "uint ?k < FP" unfolding k using pos_mod_bound [of "2 ^ 64" "uint (rq_nu req)"] by (simp add: FP_def)
  have split: "nu_split 64 (uint (rq_nu req)) = (uint ?k, uint (rq_nu req) div 2 ^ 64)"
    "(uint (rq_nu req) - (uint ?k + uint (rq_nu req) div 2 ^ 64 * 2 ^ 64)) mod FP = 0"
    using good_nu_split [of "uint (rq_nu req)"] unfolding k
    by (simp_all only: good_split_def leaf_index_mod nu_split_def drop_bit_eq_div) (auto simp: minus_div_mult_eq_mod [symmetric])
  show ?thesis
    using history_step_accepted [where split = "nu_split 64" and nu = "rq_nu req", OF assms(1) st h(1) [unfolded e] assms(5,6) st' [unfolded e] h(2,3) kf m c split]
      ci check_inputs [OF ci] rocks.get_proof_refines [OF hold(1)] rocks.get_proof_refines [OF hold(2)] roots
    by (simp add: main_relay_def used_def assms(9))
qed

section \<open>A sample\<close>

text \<open>With a hash that is constant every tree but the empty one has the same root.\<close>

definition same_hash :: poseidon where
  "same_hash xs = (if list_all (\<lambda>x. uint x < FP) xs then Some 6 else None)"

definition same_lib :: circuit_lib where
  "same_lib = \<lparr>tc_perm = (\<lambda>xs. [sum_list xs]), tc_isZero = (\<lambda>x. if x = 0 then 1 else 0),
     tc_isEqual = (\<lambda>a b. if a = b then 1 else 0), tc_lessThan16 = less_than16,
     tc_ecdh = (\<lambda>k p. p), tc_decrypt = (\<lambda>k n c. None), tc_smtVerifier = (\<lambda>i. True), tc_smtProcessor = (\<lambda>i. Some 6)\<rparr>"

lemma node_same: "node_key same_hash n = Some h \<Longrightarrow> h = 6"
  by (cases n) (auto simp: same_hash_def node_key_def mid_key_def leaf_key_def split: if_splits)

lemma climb_same: "climb same_hash lvl k xs 6 = Some h \<Longrightarrow> h = 6"
  by (cases xs) (auto simp: bind_eq_Some_conv dest: node_same)

lemma path_same: "path_root same_hash k xs (leaf_key same_hash k v) = Some h \<Longrightarrow> h = 6"
  using climb_same by (auto simp: path_root_def leaf_key_def same_hash_def bind_eq_Some_conv split: if_splits)

lemma same_law: "relay_circuit_law same_lib same_hash"
proof -
  have "field_hash same_hash" by (auto simp: field_hash_def same_hash_def list_all_iff FP_def)
  moreover have "verifier_law same_lib same_hash" by (simp add: verifier_law_def same_lib_def)
  moreover have "insert_empty_law same_lib same_hash" "exchange_law same_lib same_hash"
    by (auto simp: insert_empty_law_def exchange_law_def same_lib_def ser_be32_def dest: path_same)
  moreover have "insert_beside_law same_lib same_hash"
    by (auto simp: insert_beside_law_def same_lib_def ser_be32_def dest: path_same)
  ultimately show ?thesis by (simp add: relay_circuit_law_def) (simp add: same_lib_def)
qed

lemma same_safe: "safe_history same_hash [RelayServerCorrect.entry sample_request]"
  by (simp add: safe_history_def spread_def apart_def history_nodes_def uniq_ops_def quota_op_def same_hash_def
      RelayServerCorrect.entry_def sample_request_def index_of_take_bit FP_def sound_hash_def node_key_def leaf_key_def)

lemma relayed_message_satisfies_circuit_witness:
  "\<exists>db' sent ci out. relay_inner same_hash sample_env sample_request (\<lambda>x. None) = (Inr ''s1'', db', sent) \<and>
    main_relay same_lib (signals_of ci) = Some out \<and> snd (snd out) = 2 ^ 64 + 16"
proof -
  obtain db' ix where r: "relay_inner same_hash sample_env sample_request (\<lambda>x. None) = (Inr ''s1'', db', [ix])"
    using sample_first same_safe by blast
  have f: "uint (rq_nu sample_request) = 2 ^ 64 + 5" "uint (rq_msgHash sample_request) = 11"
    by (simp_all add: sample_request_def)
  have "safe_history same_hash ([] @ [RelayServerCorrect.entry sample_request])" using same_safe by simp
  from relayed_message_satisfies_circuit [OF same_law _ _ this _ _ _ r refl, where xs = "[]" and rs = "[]"]
  obtain n ci where "main_relay same_lib (signals_of ci) = Some
      (tc_H same_lib [uint (stored_root (\<lambda>x. None) ''nodes:quota'' (serialize_key (key_of sample_request))),
         uint (stored_root (\<lambda>x. None) ''nodes:uniq'' (serialize_key (key_of sample_request)))],
       tc_H same_lib [uint (stored_root db' ''nodes:quota'' (serialize_key (key_of sample_request))),
         uint (stored_root db' ''nodes:uniq'' (serialize_key (key_of sample_request)))],
       tc_H same_lib [uint (rq_nu sample_request), uint (rq_msgHash sample_request)])"
    using f by (auto simp: FP_def)
  then show ?thesis using r f by (auto simp: same_lib_def PoseidonHasher_def)
qed

end
