(* ===== verification/Spec2Isabelle.thy ===== *)
theory Spec2Isabelle
  imports TallyPanelCorrect KeyringCorrect CensusCorrect PollCorrect Events ProofCodec
    Drawer Scripts Pcg Shell ProgramClaims TallyLive ProgramTypes
    CreateUi PollUi FrameUi SparseTreeProps RelayServerProps
    RelayCircuitCorrect
begin

text \<open>
  MootVote, an anonymous voting system on Solana: a model of the program with the theorems that
  make it correct. All paths are under \<open>src/\<close>.

  \<^bold>\<open>The program.\<close> A poll has a census, the Merkle root of the hashed public keys of its voters, and a
  tallier. A voter proves in zero knowledge that a leaf of the census is theirs, and publishes a
  ballot that is encrypted for the tallier, with a nullifier instead of a name; directly, or
  through a relayer who pays for the transaction. The voting program on the chain keeps a running
  hash over the ballots. After the end the tallier decrypts them in batches, keeps a sparse Merkle
  tree of the last choice under each nullifier, and proves each batch against the running hash; the
  program publishes the counts when the whole hash chain is covered. The web frontend
  (\<open>frontend/src\<close>) makes keys, censuses, polls, votes and tallies; the SDKs (\<open>ts-sdk\<close>,
  \<open>ts-sdk-relayer\<close>) build the instructions; the programs (\<open>programs/mootvote\<close>,
  \<open>programs/zk-relayer\<close>) execute them; the circuits (\<open>circom\<close>) are what the proofs are about.

  \<^bold>\<open>Conventions.\<close> A JavaScript function that may throw returns \<open>js_error + 'a\<close> (\<open>'a res\<close>), a
  handler of an event is a procedure over the state of its component (\<open>Proc\<close>: the updates before a
  throw stay, \<open>attempt\<close> is try/catch/finally), a handler of a program returns \<open>chain_error + chain\<close>
  and an error leaves the ledger as it was. \<open>BigInt\<close> is \<open>int\<close>, \<open>Uint8Array\<close> and \<open>[u8; n]\<close> are
  lists of bytes, \<open>u64\<close> a word of 64 bits with checked arithmetic. What is not in the repository
  (Poseidon, curve arithmetic, ciphers, provers, the wallet, the network) is a parameter: a field of
  the environment record of its user. Its documented behaviour is a named predicate, assumed where
  it is needed: \<open>hash_law\<close> (a hash is a field element), \<open>crypto_law\<close> (authenticated encryption opens
  under its own key), \<open>channel_law\<close> (both ends of the key exchange agree), \<open>smt_law\<close> (the tree
  library is a map with a root), \<open>tally_circuit_law\<close> and \<open>relay_circuit_law\<close> (circomlib's templates;
  the second is stated on hash paths), \<open>hashes_fields\<close> (the Poseidon call of the chain takes up to
  twelve field elements), \<open>le8_law\<close>. Each has a concrete instance in a witness.

  \<^bold>\<open>Theories and sources.\<close>
    \<^item> Foundations: \<open>Prelude\<close> (errors, results, positional numerals), \<open>Numerals\<close>, \<open>JsStrings\<close>
      (the operations on strings the sources call), \<open>Proc\<close> (handlers and their contracts),
      \<open>KvStore\<close> and \<open>Paging\<close> (the interfaces of stores and of paged lists, as locales that the
      components interpret).
    \<^item> Codecs: \<open>Bytes\<close>, \<open>Hex\<close>, \<open>Base64\<close>, \<open>JsonTags\<close> (\<open>helpers/utils.ts\<close>), \<open>ProofCodec\<close>
      (\<open>helpers/compressSolana.ts\<close>, \<open>exportSolana.ts\<close>), \<open>Events\<close> (\<open>ts-sdk/src/events.ts\<close>): round trips
      and bounds.
    \<^item> Keys and stores: \<open>Key\<close> (\<open>helpers/key.ts\<close>), \<open>Blob\<close> (\<open>blob.ts\<close>), \<open>Keyring\<close>, \<open>RevoKeys\<close>
      (\<open>keyring.tsx\<close>), \<open>KeyringCorrect\<close>: what is on the screen is what is stored, in every state
      that the user reaches.
    \<^item> Census: \<open>MerkleTree\<close> (\<open>helpers/merkletree.ts\<close> and the inclusion circuit): proofs are
      accepted, roots are those of the full tree, an accepted proof is for the leaf of the census at
      its position (or the default leaf behind the end) or gives a collision.
    \<^item> SDKs: \<open>SdkCommon\<close>, \<open>RelayerSdk\<close>, \<open>MootSdk\<close>: every builder of an instruction.
    \<^item> Voting: \<open>Vote\<close>, \<open>VoteUi\<close> (\<open>components/Vote.tsx\<close>), \<open>VoteCorrect\<close> with \<open>circom/Vote.circom\<close>:
      the inputs satisfy the circuit, the tallier reads the ballot, a re-vote replaces a vote.
    \<^item> Tallying: \<open>TallyVotes\<close>, \<open>TallyPanel\<close>, \<open>TallyUi\<close> (\<open>components/Tally.tsx\<close>), \<open>TallyCorrect\<close>,
      \<open>TallyProps\<close>, \<open>TallyPanelCorrect\<close>: the loop over ballots refines an abstract election
      (\<open>board\<close>, \<open>cast_ballot\<close>), errors keep the progress. \<open>TallyCircuit\<close>, \<open>TallyCircuitCorrect\<close>,
      \<open>TallyCircuitClaims\<close>: \<open>circom/Tally.circom\<close>.
    \<^item> Pages: \<open>Ui\<close> (the type of what a component renders), \<open>PollCreate\<close>, \<open>CreateUi\<close>, \<open>PollPages\<close>,
      \<open>PollCorrect\<close>, \<open>PollUi\<close>, \<open>CensusPages\<close>, \<open>CensusCorrect\<close>, \<open>CensusUi\<close>, \<open>Drawer\<close>, \<open>Shell\<close>,
      \<open>FrameUi\<close>: the state of each page, its handlers, its markup and its controls, with the
      states that a user reaches by them.
    \<^item> Chain: \<open>Chain\<close> (ledger), \<open>MootProgram\<close>, \<open>RelayerProgram\<close> (one handler per instruction),
      \<open>ProgramExec\<close> (transactions), \<open>ProgramCorrect\<close>, \<open>ProgramProps\<close>, \<open>ProgramTypes\<close>,
      \<open>ProgramClaims\<close>: invariants of all reachable ledgers. \<open>SmallLedger\<close> is the ledger of the
      witnesses.
    \<^item> Composition: \<open>SdkOnChain\<close> (a relayed vote and a new poll from the SDK to the ledger, and what
      a relayed vote pays),
      \<open>TallyOnChain\<close> (the panel against the program), \<open>TallyLive\<close> (from the first click to the
      published result, with the indexer's list of votes).
    \<^item> Relayer service: \<open>SparseTree\<close> (the crate \<open>smt-circom\<close>, with its stores in memory and in
      RocksDB), \<open>SparseTreeCorrect\<close> (the operations on a store refine those on a tree; the locale
      \<open>smt_store\<close> is what they need of a store, interpreted on both), \<open>SparseTreeMap\<close> (the trees
      refine a map), \<open>SparseTreeProps\<close> (what the proofs are worth), \<open>SmtPaths\<close> (what an insertion or
      an update does to the hash path of a key); \<open>RelayServer\<close> (\<open>relayer/src/server.rs\<close>,
      \<open>rocks.rs\<close>, with a log of what is sent; what lands on the chain and what is reported of it are
      two things), \<open>RelayServerCorrect\<close> (the database stands for the history of a state),
      \<open>RelayServerProps\<close>; \<open>RelayCircuit\<close>, \<open>RelayCircuitCorrect\<close> (\<open>circom/Relay.circom\<close> and its
      agreement with the service). Two hypotheses are explicit: the
      nodes of a run do not collide (\<open>sound_hash\<close>), and its keys differ before the last level
      (\<open>apart\<close>); without the second one leaves get lost. A third, that no key is zero, stands where a
      proof must hash to the root.
    \<^item> Tools: \<open>Scripts\<close> (\<open>scripts/\<close>), \<open>Pcg\<close> (\<open>smt-circom/js-bench\<close>).

  \<^bold>\<open>Bounds.\<close> Loops are structural recursions, or functions with a measure; the padding of a batch is
  also shown to end as a while loop. No fuel is used. The sizes are those of the code: a census of
  depth 40, a tree of depth 64, batches of 6 votes, 11 choices.

  \<^bold>\<open>Not modelled.\<close> Styles that are always the same and the measured sizes of elements; the set-up
  of libraries (\<open>main.tsx\<close>, \<open>i18n.ts\<close>, \<open>env.tsx\<close>); the subscription to events, which is Anchor's;
  the indexer and the census service, except the queries named above (concurrent servers over a
  database and a node of the chain; the frontend sees their answers, which are arguments here); the
  HTTP side and the locks of the relayer service (its requests for one state follow each other);
  the signature verifier, which is a copy of circomlib's; the tests. Numbers that the frontend keeps
  as floating point are counts and seconds, far below the limit of exact integers, and are \<open>int\<close>.
\<close>

end
